(* ===== verification/MBF_Prelude.thy ===== *)
theory MBF_Prelude
  imports Main "HOL-Library.Word"
begin

text \<open>
  Shared vocabulary of the development.

  The C sources return an \<^verbatim>\<open>error__t\<close> (a null pointer for success) and chain calls with
  the GNU \<^verbatim>\<open>a ?: b\<close> operator: \<open>b\<close> runs only if \<open>a\<close> reported no error.  Here a
  fallible operation on a state \<open>'s\<close> returns the state together with an \<open>'e option\<close>,
  \<open>None\<close> meaning \<^verbatim>\<open>ERROR_OK\<close>; \<open>orelse\<close> is the chaining operator.

  The fixed width C types are words: \<open>u32\<close> is \<^verbatim>\<open>unsigned int\<close> and \<^verbatim>\<open>uint32_t\<close>.
\<close>

type_synonym u8 = "8 word"
type_synonym u16 = "16 word"
type_synonym u32 = "32 word"
type_synonym u64 = "64 word"

named_theorems mbf_simps \<open>rewriting of the model's primitive state updates\<close>
named_theorems mbf_inv \<open>preservation of component invariants by their operations\<close>

section \<open>Error chaining\<close>

type_synonym ('s, 'e) action = "'s \<Rightarrow> 's \<times> 'e option"

definition ok :: "('s, 'e) action" where
  "ok s = (s, None)"

definition fail :: "'e \<Rightarrow> ('s, 'e) action" where
  "fail e s = (s, Some e)"

definition test_ok :: "('s \<Rightarrow> bool) \<Rightarrow> 'e \<Rightarrow> ('s, 'e) action" where
  "test_ok P e s = (s, if P s then None else Some e)"

definition do_act :: "('s \<Rightarrow> 's) \<Rightarrow> ('s, 'e) action" where
  "do_act f s = (f s, None)"

definition orelse :: "('s, 'e) action \<Rightarrow> ('s, 'e) action \<Rightarrow> ('s, 'e) action" where
  "orelse a b s = (case a s of (s', None) \<Rightarrow> b s' | (s', Some e) \<Rightarrow> (s', Some e))"

lemmas action_defs = ok_def fail_def test_ok_def do_act_def orelse_def

lemma orelse_ok [simp]: "orelse ok b = b" and orelse_ok_right [simp]: "orelse a ok = a"
  by (auto simp: action_defs fun_eq_iff split: prod.splits option.splits)

lemma orelse_fail [simp]: "orelse (fail e) b = fail e"
  by (auto simp: action_defs fun_eq_iff)

lemma orelse_assoc: "orelse (orelse a b) c = orelse a (orelse b c)"
  by (auto simp: action_defs fun_eq_iff split: prod.splits option.splits)

lemma orelse_None_iff:
  "orelse a b s = (s'', None) \<longleftrightarrow> (\<exists>s'. a s = (s', None) \<and> b s' = (s'', None))"
  by (auto simp: orelse_def split: prod.splits option.splits)

section \<open>Lists\<close>

lemma take_drop_eq_append: "xs = ys @ zs \<Longrightarrow> take (length ys) xs = ys \<and> drop (length ys) xs = zs"
  by simp

lemma map_upt_nth: "length xs = n \<Longrightarrow> map ((!) xs) [0..<n] = xs"
  by (auto intro: nth_equalityI)

lemma min_add_diff_nat [simp]: "min (a::nat) b + (b - min a b) = b"
  by simp

text \<open>Overwriting \<open>xs\<close> into an array at \<open>ix\<close>: \<^verbatim>\<open>memcpy(&buf[ix], xs, n)\<close>.\<close>

definition blit :: "'a list \<Rightarrow> nat \<Rightarrow> 'a list \<Rightarrow> 'a list" where
  "blit buf ix xs = take ix buf @ xs @ drop (ix + length xs) buf"

lemma length_blit [simp]: "ix + length xs \<le> length buf \<Longrightarrow> length (blit buf ix xs) = length buf"
  by (simp add: blit_def)

lemma take_blit_prefix [simp]:
  "ix + length xs \<le> length buf \<Longrightarrow> take ix (blit buf ix xs) = take ix buf"
  by (simp add: blit_def)

lemma take_blit_all [simp]:
  "ix + length xs \<le> length buf \<Longrightarrow> take (ix + length xs) (blit buf ix xs) = take ix buf @ xs"
  by (simp add: blit_def min_absorb2)

lemma blit_Nil [simp]: "blit buf ix [] = buf"
  by (simp add: blit_def)

section \<open>Folding an operation over a list of indices\<close>

lemma fold_invariant:
  assumes "P s" and "\<And>x s. x \<in> set xs \<Longrightarrow> P s \<Longrightarrow> P (f x s)"
  shows "P (fold f xs s)"
  using assms by (induction xs arbitrary: s) auto

section \<open>Words\<close>

lemma unat_inc: "w \<noteq> - 1 \<Longrightarrow> unat (w + 1) = Suc (unat w)" for w :: "'a::len word"
  by (metis add.commute max_word_wrap unatSuc)

lemma unat_dec: "w \<noteq> 0 \<Longrightarrow> unat (w - 1) = unat w - 1" for w :: "'a::len word"
  by (simp add: unat_minus_one)

end
