(* ===== verification/Timespec.thy ===== *)
theory Timespec
  imports MBF_Prelude
begin

text \<open>
  Time arithmetic of \<^verbatim>\<open>epics/src/timespec.h\<close>: seconds and nanoseconds with carry and
  borrow.  A timespec is normal when its nanoseconds are in \<open>[0, NSECS)\<close>; every operation is
  shown to keep that form and to compute the expected number of nanoseconds.  The fields are
  64-bit in C and are read here as integers; the model is valid while the sums stay below
  \<open>2 ^ 63\<close> seconds.  C division truncates towards zero, which \<open>interval_to_timespec\<close>
  writes out with \<open>c_div\<close> and \<open>c_mod\<close>.
\<close>

definition NSECS :: int where "NSECS = 1000000000"
definition MSECS :: int where "MSECS = 1000"

record timespec =
  tv_sec :: int
  tv_nsec :: int

definition c_div :: "int \<Rightarrow> int \<Rightarrow> int" where
  "c_div a b = sgn a * sgn b * (\<bar>a\<bar> div \<bar>b\<bar>)"

definition c_mod :: "int \<Rightarrow> int \<Rightarrow> int" where
  "c_mod a b = a - b * c_div a b"

definition interval_to_timespec :: "int \<Rightarrow> int \<Rightarrow> timespec" where
  "interval_to_timespec interval units =
     \<lparr>tv_sec = c_div interval units, tv_nsec = c_mod interval units * c_div NSECS units\<rparr>"

definition add_timespec :: "timespec \<Rightarrow> timespec \<Rightarrow> timespec" where
  "add_timespec a b =
     (let r = \<lparr>tv_sec = tv_sec a + tv_sec b, tv_nsec = tv_nsec a + tv_nsec b\<rparr>
      in if tv_nsec r \<ge> NSECS
         then r\<lparr>tv_sec := tv_sec r + 1, tv_nsec := tv_nsec r - NSECS\<rparr> else r)"

definition subtract_timespec :: "timespec \<Rightarrow> timespec \<Rightarrow> timespec" where
  "subtract_timespec a b =
     (let r = \<lparr>tv_sec = tv_sec a - tv_sec b, tv_nsec = tv_nsec a - tv_nsec b\<rparr>
      in if tv_nsec r < 0
         then r\<lparr>tv_sec := tv_sec r - 1, tv_nsec := tv_nsec r + NSECS\<rparr> else r)"

definition add_interval :: "timespec \<Rightarrow> int \<Rightarrow> int \<Rightarrow> timespec" where
  "add_interval ts interval units = add_timespec ts (interval_to_timespec interval units)"

definition compare_timespec_le :: "timespec \<Rightarrow> timespec \<Rightarrow> bool" where
  "compare_timespec_le a b =
     (if tv_sec a < tv_sec b then True
      else if tv_sec a > tv_sec b then False
      else tv_nsec a \<le> tv_nsec b)"

definition compare_timespec_eq :: "timespec \<Rightarrow> timespec \<Rightarrow> bool" where
  "compare_timespec_eq a b \<longleftrightarrow> tv_sec a = tv_sec b \<and> tv_nsec a = tv_nsec b"

definition earliest_timespec :: "timespec \<Rightarrow> timespec \<Rightarrow> timespec" where
  "earliest_timespec a b = (if compare_timespec_le a b then a else b)"

lemmas timespec_defs = NSECS_def MSECS_def interval_to_timespec_def add_timespec_def
  subtract_timespec_def add_interval_def compare_timespec_le_def compare_timespec_eq_def
  earliest_timespec_def

text \<open>The abstraction: a timespec stands for a number of nanoseconds.\<close>

definition ns_of :: "timespec \<Rightarrow> int" where
  "ns_of t = tv_sec t * NSECS + tv_nsec t"

definition normal_ts :: "timespec \<Rightarrow> bool" where
  "normal_ts t \<longleftrightarrow> 0 \<le> tv_nsec t \<and> tv_nsec t < NSECS"

lemma normal_add [mbf_inv]: "normal_ts a \<Longrightarrow> normal_ts b \<Longrightarrow> normal_ts (add_timespec a b)"
  by (auto simp: normal_ts_def timespec_defs Let_def)

lemma normal_subtract [mbf_inv]: "normal_ts a \<Longrightarrow> normal_ts b \<Longrightarrow> normal_ts (subtract_timespec a b)"
  by (auto simp: normal_ts_def timespec_defs Let_def)

lemma normal_earliest [mbf_inv]: "normal_ts a \<Longrightarrow> normal_ts b \<Longrightarrow> normal_ts (earliest_timespec a b)"
  by (simp add: earliest_timespec_def)

lemma ns_of_add [simp]: "ns_of (add_timespec a b) = ns_of a + ns_of b"
  by (simp add: ns_of_def timespec_defs Let_def algebra_simps)

lemma ns_of_subtract [simp]: "ns_of (subtract_timespec a b) = ns_of a - ns_of b"
  by (simp add: ns_of_def timespec_defs Let_def algebra_simps)

lemma c_div_nonneg: "0 \<le> a \<Longrightarrow> 0 < b \<Longrightarrow> c_div a b = a div b"
  by (cases "a = 0") (simp_all add: c_div_def)

lemma c_mod_nonneg: "0 \<le> a \<Longrightarrow> 0 < b \<Longrightarrow> c_mod a b = a mod b"
  by (simp add: c_mod_def c_div_nonneg minus_mult_div_eq_mod)

lemma normal_interval [mbf_inv]:
  assumes "0 \<le> i" "u = 1 \<or> u = MSECS"
  shows "normal_ts (interval_to_timespec i u)"
  using assms pos_mod_bound[of 1000 i]
  by (auto simp: normal_ts_def interval_to_timespec_def c_mod_nonneg c_div_nonneg NSECS_def MSECS_def)

lemma ns_of_interval:
  assumes "0 \<le> i" "u = 1 \<or> u = MSECS"
  shows "ns_of (interval_to_timespec i u) = i * (NSECS div u)"
proof -
  have "i div 1000 * 1000000000 + i mod 1000 * 1000000 = i * 1000000" by presburger
  then show ?thesis using assms
    by (auto simp: ns_of_def interval_to_timespec_def c_mod_nonneg c_div_nonneg NSECS_def MSECS_def)
qed

lemma compare_le_ns:
  assumes "normal_ts a" "normal_ts b"
  shows "compare_timespec_le a b \<longleftrightarrow> ns_of a \<le> ns_of b"
  using assms by (auto simp: compare_timespec_le_def normal_ts_def ns_of_def NSECS_def)

lemma compare_eq_ns:
  assumes "normal_ts a" "normal_ts b"
  shows "compare_timespec_eq a b \<longleftrightarrow> ns_of a = ns_of b"
proof -
  have "tv_sec a = tv_sec b" if "ns_of a = ns_of b"
    using assms that unfolding normal_ts_def ns_of_def NSECS_def by linarith
  then show ?thesis by (auto simp: compare_timespec_eq_def ns_of_def)
qed

lemma ns_of_earliest:
  assumes "normal_ts a" "normal_ts b"
  shows "ns_of (earliest_timespec a b) = min (ns_of a) (ns_of b)"
  using assms by (simp add: earliest_timespec_def compare_le_ns min_def)

end
