(* ===== verification/Trigger_Target.thy ===== *)
theory Trigger_Target
  imports Timespec
begin

text \<open>
  The trigger target state machines of \<^verbatim>\<open>epics/src/trigger_target.c\<close> and
  \<^verbatim>\<open>trigger_target.h\<close>: three targets (two sequencers and the DRAM capture), each Idle, Armed,
  Busy or Locked, a set of shared targets armed together, and the readout locks that hold a
  target out of the armed state while its data is being read.

  The state \<open>tt_world\<close> holds the \<^verbatim>\<open>targets[]\<close> array (a function of the target identifier), the
  \<^verbatim>\<open>shared\<close> structure and the list \<open>calls\<close> of the calls made to the hardware layer, to the
  target methods and to the record layer, oldest first.  Every function below is the body of a
  critical section under \<^verbatim>\<open>trigger_mutex\<close>, so one call is one atomic step; the interleaving with
  other threads while a lock request waits on the condition variable is explicit in
  \<open>wait_trigger_ready\<close>.
\<close>

section \<open>State\<close>

datatype trigger_target_id = TRIGGER_SEQ0 | TRIGGER_SEQ1 | TRIGGER_DRAM

definition all_targets :: "trigger_target_id list" where
  "all_targets = [TRIGGER_SEQ0, TRIGGER_SEQ1, TRIGGER_DRAM]"

datatype target_mode = MODE_ONE_SHOT | MODE_REARM | MODE_SHARED | MODE_FREE_RUN

datatype target_state = TARGET_IDLE | TARGET_ARMED | TARGET_BUSY | TARGET_LOCKED

datatype shared_target_state =
  SHARED_IDLE | SHARED_ARMED | SHARED_LOCKED | SHARED_BUSY | SHARED_MIXED | SHARED_INVALID

datatype call =
    ResetTriggerSources trigger_target_id
  | UpdateTriggerSources trigger_target_id
  | PrepareSequencer nat
  | PrepareDetector nat
  | HwDramCaptureCommand bool bool
  | HwTriggerArm "bool list"
  | HwTriggerDisarm "bool list"
  | HwTriggerFire "bool list"
  | HwSoftTrigger
  | SetTargetState trigger_target_id target_state
  | SetSharedState shared_target_state
  | SetSharedTargets "string option"
  | LogMessage
  | BroadcastEvent
  | NullMethod

text \<open>
  \<^verbatim>\<open>struct target_config\<close>: the methods of a target.  The methods of \<^verbatim>\<open>triggers.c\<close> make a fixed
  list of calls; \<open>stop_target\<close> also chooses the state to enter.
\<close>

record target_config =
  get_target_name :: string
  prepare_target :: "call list"
  stop_target_calls :: "call list"
  stop_target_state :: target_state

record trigger_target =
  tmode :: target_mode
  dont_rearm :: bool
  tstate :: target_state
  lock_count :: u32
  config :: "target_config option"

record tt_world =
  targets :: "trigger_target_id \<Rightarrow> trigger_target"
  retrigger_mode :: bool
  shared_dont_rearm :: bool
  shared_state :: shared_target_state
  calls :: "call list"

definition null_target :: trigger_target where
  "null_target = \<lparr>tmode = MODE_ONE_SHOT, dont_rearm = False, tstate = TARGET_IDLE,
     lock_count = 0, config = None\<rparr>"

definition initialise_trigger_targets :: "tt_world \<Rightarrow> tt_world" where
  "initialise_trigger_targets w = w\<lparr>retrigger_mode := False, shared_dont_rearm := True,
     shared_state := SHARED_IDLE\<rparr>"

definition create_trigger_target ::
  "trigger_target_id \<Rightarrow> target_config \<Rightarrow> tt_world \<Rightarrow> tt_world" where
  "create_trigger_target i c w =
     w\<lparr>targets := (targets w)(i := null_target\<lparr>config := Some c\<rparr>)\<rparr>"

definition emit :: "call list \<Rightarrow> tt_world \<Rightarrow> tt_world" where
  "emit cs w = w\<lparr>calls := calls w @ cs\<rparr>"

definition upd_target ::
  "trigger_target_id \<Rightarrow> (trigger_target \<Rightarrow> trigger_target) \<Rightarrow> tt_world \<Rightarrow> tt_world" where
  "upd_target i f w = w\<lparr>targets := (targets w)(i := f (targets w i))\<rparr>"

section \<open>Target state control\<close>

text \<open>\<^verbatim>\<open>CALL(method, target)\<close>: a target that was never created has no methods.\<close>

definition call_prepare :: "trigger_target_id \<Rightarrow> tt_world \<Rightarrow> tt_world" where
  "call_prepare i w =
     emit (case config (targets w i) of None \<Rightarrow> [NullMethod] | Some c \<Rightarrow> prepare_target c) w"

definition call_stop :: "trigger_target_id \<Rightarrow> tt_world \<Rightarrow> target_state \<times> tt_world" where
  "call_stop i w =
     (case config (targets w i) of
        None \<Rightarrow> (TARGET_IDLE, emit [NullMethod] w)
      | Some c \<Rightarrow> (stop_target_state c, emit (stop_target_calls c) w))"

definition set_target_state :: "trigger_target_id \<Rightarrow> target_state \<Rightarrow> tt_world \<Rightarrow> tt_world" where
  "set_target_state i st w =
     (if st \<noteq> tstate (targets w i)
      then emit [case config (targets w i) of None \<Rightarrow> NullMethod | Some c \<Rightarrow> SetTargetState i st]
             (upd_target i (\<lambda>t. t\<lparr>tstate := st\<rparr>) w)
      else w)"

definition set_global_state :: "shared_target_state \<Rightarrow> tt_world \<Rightarrow> tt_world" where
  "set_global_state st w =
     (if st \<noteq> shared_state w then emit [SetSharedState st] (w\<lparr>shared_state := st\<rparr>) else w)"

definition is_shared :: "tt_world \<Rightarrow> trigger_target_id \<Rightarrow> bool" where
  "is_shared w i \<longleftrightarrow> tmode (targets w i) = MODE_SHARED"

text \<open>
  \<^verbatim>\<open>FOR_SHARED_TARGETS\<close>: the mode is tested as each target is reached.
\<close>

definition for_shared_targets ::
  "(trigger_target_id \<Rightarrow> tt_world \<Rightarrow> tt_world) \<Rightarrow> tt_world \<Rightarrow> tt_world" where
  "for_shared_targets f w = fold (\<lambda>i w. if is_shared w i then f i w else w) all_targets w"

text \<open>
  \<^verbatim>\<open>update_shared_targets\<close> prints the names into a 40 byte buffer and advances by the length
  \<^verbatim>\<open>snprintf\<close> returns, the length it would have written.  The state is the text so far and the
  offset; \<open>None\<close> is a call whose size argument has wrapped round, which writes outside the buffer.
\<close>

definition TARGETS_BUF :: nat where "TARGETS_BUF = 40"

definition buf_print :: "string \<Rightarrow> (string \<times> nat) option \<Rightarrow> (string \<times> nat) option" where
  "buf_print s st =
     (case st of None \<Rightarrow> None
      | Some (txt, out) \<Rightarrow>
          if out > TARGETS_BUF then None
          else Some (txt @ take (TARGETS_BUF - out - 1) s, out + length s))"

fun print_targets :: "bool \<Rightarrow> string list \<Rightarrow> (string \<times> nat) option \<Rightarrow> (string \<times> nat) option" where
  "print_targets first [] st = st"
| "print_targets first (n # ns) st =
     print_targets False ns (buf_print n (if first then st else buf_print '' '' st))"

definition target_name :: "tt_world \<Rightarrow> trigger_target_id \<Rightarrow> string" where
  "target_name w i = (case config (targets w i) of None \<Rightarrow> [] | Some c \<Rightarrow> get_target_name c)"

definition shared_names :: "tt_world \<Rightarrow> string list" where
  "shared_names w = map (target_name w) (filter (is_shared w) all_targets)"

definition update_shared_targets :: "tt_world \<Rightarrow> tt_world" where
  "update_shared_targets w =
     emit [SetSharedTargets (map_option fst (print_targets True (shared_names w) (Some ([], 0))))] w"

definition any_shared_in :: "tt_world \<Rightarrow> target_state \<Rightarrow> bool" where
  "any_shared_in w st \<longleftrightarrow> list_ex (\<lambda>i. is_shared w i \<and> tstate (targets w i) = st) all_targets"

definition compute_global_state :: "tt_world \<Rightarrow> shared_target_state" where
  "compute_global_state w =
     (let busy = any_shared_in w TARGET_BUSY; armed = any_shared_in w TARGET_ARMED;
          locked = any_shared_in w TARGET_LOCKED; idle = any_shared_in w TARGET_IDLE
      in if locked then (if armed \<or> busy then SHARED_INVALID else SHARED_LOCKED)
         else if armed then (if busy \<or> idle then SHARED_MIXED else SHARED_ARMED)
         else if busy then SHARED_BUSY
         else SHARED_IDLE)"

definition any_locked_targets :: "tt_world \<Rightarrow> bool" where
  "any_locked_targets w \<longleftrightarrow> list_ex (\<lambda>i. is_shared w i \<and> lock_count (targets w i) > 0) all_targets"

definition any_shared_targets :: "tt_world \<Rightarrow> bool" where
  "any_shared_targets w \<longleftrightarrow> list_ex (is_shared w) all_targets"

definition get_target_mask :: "trigger_target_id \<Rightarrow> bool list" where
  "get_target_mask i = map (\<lambda>j. j = i) all_targets"

definition get_shared_mask :: "tt_world \<Rightarrow> bool list" where
  "get_shared_mask w = map (is_shared w) all_targets"

section \<open>Arming and disarming\<close>

definition do_arm_target :: "trigger_target_id \<Rightarrow> tt_world \<Rightarrow> bool \<times> tt_world" where
  "do_arm_target i w =
     (if tstate (targets w i) = TARGET_IDLE \<or> tstate (targets w i) = TARGET_LOCKED
      then if lock_count (targets w i) = 0
           then (True, set_target_state i TARGET_ARMED
                         (call_prepare i (upd_target i (\<lambda>t. t\<lparr>dont_rearm := False\<rparr>) w)))
           else (False, set_target_state i TARGET_LOCKED w)
      else (False, w))"

definition do_arm_target_hardware :: "trigger_target_id \<Rightarrow> tt_world \<Rightarrow> tt_world" where
  "do_arm_target_hardware i = emit [HwTriggerArm (get_target_mask i)]"

definition do_arm_shared_hardware :: "tt_world \<Rightarrow> tt_world" where
  "do_arm_shared_hardware w = emit [HwTriggerArm (get_shared_mask w)] w"

definition do_disarm_target :: "trigger_target_id \<Rightarrow> tt_world \<Rightarrow> tt_world" where
  "do_disarm_target i w =
     (let w' = upd_target i (\<lambda>t. t\<lparr>dont_rearm := True\<rparr>) w
      in if tstate (targets w' i) = TARGET_ARMED
         then (let (st, w'') = call_stop i w' in set_target_state i st w'')
         else if tstate (targets w' i) = TARGET_LOCKED
         then set_target_state i TARGET_IDLE w'
         else w')"

definition do_disarm_target_hardware :: "trigger_target_id \<Rightarrow> tt_world \<Rightarrow> tt_world" where
  "do_disarm_target_hardware i = emit [HwTriggerDisarm (get_target_mask i)]"

definition do_disarm_shared_hardware :: "tt_world \<Rightarrow> tt_world" where
  "do_disarm_shared_hardware w = emit [HwTriggerDisarm (get_shared_mask w)] w"

definition arm_shared_targets :: "tt_world \<Rightarrow> tt_world" where
  "arm_shared_targets w0 =
     (let w = w0\<lparr>shared_dont_rearm := False\<rparr>
      in if shared_state w \<noteq> SHARED_IDLE \<and> shared_state w \<noteq> SHARED_LOCKED
         then emit [LogMessage] w
         else if any_locked_targets w
         then set_global_state SHARED_LOCKED
                (for_shared_targets
                  (\<lambda>i w. if lock_count (targets w i) > 0 then set_target_state i TARGET_LOCKED w
                         else w) w)
         else if any_shared_targets w
         then set_global_state SHARED_ARMED
                (do_arm_shared_hardware
                  (for_shared_targets (\<lambda>i w. snd (do_arm_target i w)) w))
         else w)"

definition update_global_state :: "tt_world \<Rightarrow> tt_world" where
  "update_global_state w0 =
     (let new_state = compute_global_state w0;
          w = set_global_state new_state w0;
          do_rearm =
            (new_state = SHARED_IDLE \<and> retrigger_mode w \<and> \<not> shared_dont_rearm w) \<or>
            (new_state = SHARED_LOCKED \<and> \<not> any_locked_targets w)
      in if do_rearm then arm_shared_targets w else w)"

definition disarm_shared_targets :: "tt_world \<Rightarrow> tt_world" where
  "disarm_shared_targets w =
     update_global_state
       (for_shared_targets do_disarm_target
         (do_disarm_shared_hardware (w\<lparr>shared_dont_rearm := True\<rparr>)))"

definition arm_target :: "trigger_target_id \<Rightarrow> tt_world \<Rightarrow> tt_world" where
  "arm_target i w =
     (if is_shared w i then arm_shared_targets w
      else (let (armed, w') = do_arm_target i w
            in if armed then do_arm_target_hardware i w' else w'))"

definition disarm_target :: "trigger_target_id \<Rightarrow> tt_world \<Rightarrow> tt_world" where
  "disarm_target i w =
     (if is_shared w i then disarm_shared_targets w
      else do_disarm_target i (do_disarm_target_hardware i w))"

section \<open>Trigger, completion, unlocking\<close>

definition trigger_target_trigger :: "trigger_target_id \<Rightarrow> tt_world \<Rightarrow> tt_world" where
  "trigger_target_trigger i w =
     (if tstate (targets w i) = TARGET_ARMED
      then (let w' = set_target_state i TARGET_BUSY w
            in if is_shared w' i then update_global_state w' else w')
      else emit [LogMessage] w)"

definition trigger_target_complete :: "trigger_target_id \<Rightarrow> tt_world \<Rightarrow> tt_world" where
  "trigger_target_complete i w =
     (if tstate (targets w i) = TARGET_BUSY
      then (let w' = set_target_state i TARGET_IDLE w; t = targets w' i
            in emit [BroadcastEvent]
                 (if tmode t = MODE_SHARED then update_global_state w'
                  else if tmode t = MODE_REARM \<and> \<not> dont_rearm t then arm_target i w'
                  else if tmode t = MODE_FREE_RUN \<and> \<not> dont_rearm t
                  then emit [HwSoftTrigger] (arm_target i w')
                  else w'))
      else emit [LogMessage] w)"

definition process_target_unlocked :: "trigger_target_id \<Rightarrow> tt_world \<Rightarrow> tt_world" where
  "process_target_unlocked i w =
     (if is_shared w i then update_global_state w
      else if tstate (targets w i) = TARGET_LOCKED then arm_target i w
      else w)"

section \<open>User actions\<close>

definition trigger_target_arm :: "trigger_target_id \<Rightarrow> tt_world \<Rightarrow> tt_world" where
  "trigger_target_arm i w = arm_target i w"

definition trigger_target_disarm :: "trigger_target_id \<Rightarrow> tt_world \<Rightarrow> tt_world" where
  "trigger_target_disarm i w = disarm_target i w"

definition trigger_target_set_mode ::
  "trigger_target_id \<Rightarrow> target_mode \<Rightarrow> tt_world \<Rightarrow> tt_world" where
  "trigger_target_set_mode i m w =
     update_shared_targets (update_global_state (upd_target i (\<lambda>t. t\<lparr>tmode := m\<rparr>) w))"

definition trigger_target_get_state :: "trigger_target_id \<Rightarrow> tt_world \<Rightarrow> target_state" where
  "trigger_target_get_state i w = tstate (targets w i)"

definition shared_trigger_target_arm :: "tt_world \<Rightarrow> tt_world" where
  "shared_trigger_target_arm w = arm_shared_targets w"

definition shared_trigger_target_disarm :: "tt_world \<Rightarrow> tt_world" where
  "shared_trigger_target_disarm w = disarm_shared_targets w"

definition shared_trigger_set_mode :: "bool \<Rightarrow> tt_world \<Rightarrow> tt_world" where
  "shared_trigger_set_mode m w = w\<lparr>retrigger_mode := m\<rparr>"

definition immediate_memory_capture :: "tt_world \<Rightarrow> bool \<times> tt_world" where
  "immediate_memory_capture w =
     (let t = targets w TRIGGER_DRAM;
          ready = (lock_count t = 0 \<and> tstate t = TARGET_IDLE)
      in if ready
         then (let w1 = emit [HwDramCaptureCommand True False,
                              HwTriggerFire (get_target_mask TRIGGER_DRAM)] w;
                   w2 = set_target_state TRIGGER_DRAM TARGET_ARMED w1;
                   w3 = upd_target TRIGGER_DRAM (\<lambda>t. t\<lparr>dont_rearm := True\<rparr>) w2
               in (True, if is_shared w3 TRIGGER_DRAM then update_global_state w3 else w3))
         else (False, emit [LogMessage] w))"

section \<open>Readout locks\<close>

definition check_trigger_ready :: "trigger_target_id \<Rightarrow> tt_world \<Rightarrow> bool" where
  "check_trigger_ready i w \<longleftrightarrow>
     tstate (targets w i) = TARGET_IDLE \<or> tstate (targets w i) = TARGET_LOCKED"

definition increment_trigger_lock_count :: "trigger_target_id \<Rightarrow> tt_world \<Rightarrow> tt_world" where
  "increment_trigger_lock_count i w = upd_target i (\<lambda>t. t\<lparr>lock_count := lock_count t + 1\<rparr>) w"

definition decrement_trigger_lock_count :: "trigger_target_id \<Rightarrow> tt_world \<Rightarrow> tt_world" where
  "decrement_trigger_lock_count i w =
     (let w' = upd_target i (\<lambda>t. t\<lparr>lock_count := lock_count t - 1\<rparr>) w
      in if lock_count (targets w' i) = 0 then process_target_unlocked i w' else w')"

definition unlock_trigger_ready :: "trigger_target_id \<Rightarrow> tt_world \<Rightarrow> tt_world" where
  "unlock_trigger_ready i w = decrement_trigger_lock_count i w"

section \<open>Frame facts of the primitives\<close>

lemma world_frame [simp]:
  "targets (emit cs w) = targets w" "shared_state (emit cs w) = shared_state w"
  "retrigger_mode (emit cs w) = retrigger_mode w"
  "shared_dont_rearm (emit cs w) = shared_dont_rearm w"
  "calls (emit cs w) = calls w @ cs"
  "targets (upd_target i f w) = (targets w)(i := f (targets w i))"
  "shared_state (upd_target i f w) = shared_state w"
  "retrigger_mode (upd_target i f w) = retrigger_mode w"
  "shared_dont_rearm (upd_target i f w) = shared_dont_rearm w"
  "calls (upd_target i f w) = calls w"
  by (simp_all add: emit_def upd_target_def)

lemma targets_set_target_state [simp]:
  "targets (set_target_state i st w) = (targets w)(i := (targets w i)\<lparr>tstate := st\<rparr>)"
  by (auto simp: set_target_state_def fun_eq_iff)

lemma frame_set_target_state [simp]:
  "shared_state (set_target_state i st w) = shared_state w"
  "retrigger_mode (set_target_state i st w) = retrigger_mode w"
  "shared_dont_rearm (set_target_state i st w) = shared_dont_rearm w"
  by (simp_all add: set_target_state_def)

lemma frame_set_global_state [simp]:
  "targets (set_global_state st w) = targets w"
  "shared_state (set_global_state st w) = st"
  "retrigger_mode (set_global_state st w) = retrigger_mode w"
  "shared_dont_rearm (set_global_state st w) = shared_dont_rearm w"
  by (simp_all add: set_global_state_def)

lemma frame_call_prepare [simp]:
  "targets (call_prepare i w) = targets w" "shared_state (call_prepare i w) = shared_state w"
  "retrigger_mode (call_prepare i w) = retrigger_mode w"
  "shared_dont_rearm (call_prepare i w) = shared_dont_rearm w"
  by (simp_all add: call_prepare_def)

lemma frame_update_shared_targets [simp]:
  "targets (update_shared_targets w) = targets w"
  "shared_state (update_shared_targets w) = shared_state w"
  by (simp_all add: update_shared_targets_def)

lemma is_shared_cong: "targets w' = targets w \<Longrightarrow> is_shared w' = is_shared w"
  by (simp add: is_shared_def fun_eq_iff)

lemma set_all_targets [simp]: "i \<in> set all_targets"
  by (cases i) (simp_all add: all_targets_def)

lemma distinct_all_targets [simp]: "distinct all_targets"
  by (simp add: all_targets_def)

lemma list_ex_all_targets [simp]: "list_ex P all_targets \<longleftrightarrow> (\<exists>i. P i)"
  by (auto simp: list_ex_iff)

section \<open>What each operation does to one target\<close>

definition arm_t :: "trigger_target \<Rightarrow> trigger_target" where
  "arm_t t = (if tstate t = TARGET_IDLE \<or> tstate t = TARGET_LOCKED
              then if lock_count t = 0 then t\<lparr>dont_rearm := False, tstate := TARGET_ARMED\<rparr>
                   else t\<lparr>tstate := TARGET_LOCKED\<rparr>
              else t)"

definition stop_state_t :: "trigger_target \<Rightarrow> target_state" where
  "stop_state_t t = (case config t of None \<Rightarrow> TARGET_IDLE | Some c \<Rightarrow> stop_target_state c)"

definition disarm_t :: "trigger_target \<Rightarrow> trigger_target" where
  "disarm_t t = t\<lparr>dont_rearm := True,
     tstate := (if tstate t = TARGET_ARMED then stop_state_t t
                else if tstate t = TARGET_LOCKED then TARGET_IDLE else tstate t)\<rparr>"

definition lock_t :: "trigger_target \<Rightarrow> trigger_target" where
  "lock_t t = (if lock_count t > 0 then t\<lparr>tstate := TARGET_LOCKED\<rparr> else t)"

lemmas target_ops = arm_t_def disarm_t_def lock_t_def stop_state_t_def

lemma target_ops_frame [simp]:
  "tmode (arm_t t) = tmode t" "tmode (disarm_t t) = tmode t" "tmode (lock_t t) = tmode t"
  "lock_count (arm_t t) = lock_count t" "lock_count (disarm_t t) = lock_count t"
  "lock_count (lock_t t) = lock_count t"
  "config (arm_t t) = config t" "config (disarm_t t) = config t" "config (lock_t t) = config t"
  by (simp_all add: target_ops)

lemma snd_do_arm_target: "targets (snd (do_arm_target i w)) = (targets w)(i := arm_t (targets w i))"
  by (auto simp: do_arm_target_def arm_t_def)

lemma fst_do_arm_target:
  "fst (do_arm_target i w) \<longleftrightarrow> check_trigger_ready i w \<and> lock_count (targets w i) = 0"
  by (simp add: do_arm_target_def check_trigger_ready_def)

lemma frame_do_arm_target [simp]:
  "shared_state (snd (do_arm_target i w)) = shared_state w"
  "retrigger_mode (snd (do_arm_target i w)) = retrigger_mode w"
  "shared_dont_rearm (snd (do_arm_target i w)) = shared_dont_rearm w"
  by (simp_all add: do_arm_target_def)

lemma targets_do_disarm_target [simp]:
  "targets (do_disarm_target i w) = (targets w)(i := disarm_t (targets w i))"
  by (auto simp: do_disarm_target_def disarm_t_def stop_state_t_def call_stop_def Let_def
      split: option.splits prod.splits)

lemma frame_do_disarm_target [simp]:
  "shared_state (do_disarm_target i w) = shared_state w"
  "retrigger_mode (do_disarm_target i w) = retrigger_mode w"
  "shared_dont_rearm (do_disarm_target i w) = shared_dont_rearm w"
  by (auto simp: do_disarm_target_def call_stop_def Let_def split: option.splits prod.splits)

lemma targets_for_shared:
  assumes "\<And>i w. targets (f i w) = (targets w)(i := g (targets w i))"
    and "\<And>t. tmode (g t) = tmode t"
  shows "targets (for_shared_targets f w) =
    (\<lambda>j. if tmode (targets w j) = MODE_SHARED then g (targets w j) else targets w j)"
proof -
  have "targets (for_shared_targets f w) j =
      (if tmode (targets w j) = MODE_SHARED then g (targets w j) else targets w j)" for j
    by (cases j) (simp_all add: for_shared_targets_def all_targets_def is_shared_def assms)
  then show ?thesis by blast
qed

lemma frame_for_shared:
  assumes "\<And>i w. p (f i w) = p w"
  shows "p (for_shared_targets f w) = p w"
  by (simp add: for_shared_targets_def all_targets_def assms)

definition map_shared :: "(trigger_target \<Rightarrow> trigger_target) \<Rightarrow>
    (trigger_target_id \<Rightarrow> trigger_target) \<Rightarrow> trigger_target_id \<Rightarrow> trigger_target" where
  "map_shared g ts = (\<lambda>j. if tmode (ts j) = MODE_SHARED then g (ts j) else ts j)"

lemma targets_for_shared_arm [simp]:
  "targets (for_shared_targets (\<lambda>i w. snd (do_arm_target i w)) w) = map_shared arm_t (targets w)"
  by (subst targets_for_shared[where g = arm_t]) (simp_all add: snd_do_arm_target map_shared_def)

lemma targets_for_shared_disarm [simp]:
  "targets (for_shared_targets do_disarm_target w) = map_shared disarm_t (targets w)"
  by (subst targets_for_shared[where g = disarm_t]) (simp_all add: map_shared_def)

lemma targets_for_shared_lock [simp]:
  "targets (for_shared_targets
      (\<lambda>i w. if lock_count (targets w i) > 0 then set_target_state i TARGET_LOCKED w else w) w) =
    map_shared lock_t (targets w)"
  by (subst targets_for_shared[where g = lock_t]) (simp_all add: map_shared_def lock_t_def fun_eq_iff)

lemma shared_state_for_shared [simp]:
  "shared_state (for_shared_targets (\<lambda>i w. snd (do_arm_target i w)) w) = shared_state w"
  "shared_state (for_shared_targets do_disarm_target w) = shared_state w"
  "retrigger_mode (for_shared_targets do_disarm_target w) = retrigger_mode w"
  "shared_dont_rearm (for_shared_targets do_disarm_target w) = shared_dont_rearm w"
  by (rule frame_for_shared; simp)+

lemma frame_hardware [simp]:
  "targets (do_arm_target_hardware i w) = targets w"
  "targets (do_arm_shared_hardware w) = targets w"
  "targets (do_disarm_target_hardware i w) = targets w"
  "targets (do_disarm_shared_hardware w) = targets w"
  "shared_state (do_arm_target_hardware i w) = shared_state w"
  "shared_state (do_arm_shared_hardware w) = shared_state w"
  "shared_state (do_disarm_target_hardware i w) = shared_state w"
  "shared_state (do_disarm_shared_hardware w) = shared_state w"
  by (simp_all add: do_arm_target_hardware_def do_arm_shared_hardware_def
      do_disarm_target_hardware_def do_disarm_shared_hardware_def)

lemma map_shared_frame [simp]:
  "(\<And>t. lock_count (g t) = lock_count t) \<Longrightarrow> lock_count (map_shared g ts j) = lock_count (ts j)"
  "(\<And>t. tmode (g t) = tmode t) \<Longrightarrow> tmode (map_shared g ts j) = tmode (ts j)"
  "(\<And>t. config (g t) = config t) \<Longrightarrow> config (map_shared g ts j) = config (ts j)"
  by (simp_all add: map_shared_def)

end
