(* ===== verification/Readout_Lock.thy ===== *)
theory Readout_Lock
  imports MBF_Prelude
begin

text \<open>
  The interface between the trigger targets, which provide the readout lock, and its clients
  (\<^verbatim>\<open>process_memory_command\<close> and \<^verbatim>\<open>process_detector_command\<close> in
  \<^verbatim>\<open>epics/src/socket_command.c\<close>), which read captured data while they hold it.  The contract is
  that of \<^verbatim>\<open>trigger_target.h\<close>: once \<^verbatim>\<open>lock_trigger_ready\<close> has succeeded nothing disturbs the
  target until the caller unlocks it, whatever the other threads do, provided that they release
  only locks they hold themselves.
\<close>

datatype lock_effect = Acquires | Releases | Keeps

text \<open>
  \<open>n\<close> counts the locks the other clients hold: they take fewer than \<open>cap\<close> of them and release
  only what they took.
\<close>

fun others_disciplined ::
  "('op \<Rightarrow> 's \<Rightarrow> 's) \<Rightarrow> ('op \<Rightarrow> 's \<Rightarrow> lock_effect) \<Rightarrow> nat \<Rightarrow> nat \<Rightarrow> 'op list \<Rightarrow> 's \<Rightarrow> bool" where
  "others_disciplined step effect cap n [] s = True"
| "others_disciplined step effect cap n (x # xs) s =
     (case effect x s of
        Acquires \<Rightarrow> n + 2 < cap \<and> others_disciplined step effect cap (n + 1) xs (step x s)
      | Releases \<Rightarrow> 0 < n \<and> others_disciplined step effect cap (n - 1) xs (step x s)
      | Keeps \<Rightarrow> others_disciplined step effect cap n xs (step x s))"

locale readout_lock =
  fixes step :: "'op \<Rightarrow> 's \<Rightarrow> 's"
    and effect :: "'op \<Rightarrow> 's \<Rightarrow> lock_effect"
    and held :: "'s \<Rightarrow> nat"
    and ready :: "'s \<Rightarrow> bool"
    and cap :: nat
  assumes acquires: "effect x s = Acquires \<Longrightarrow> held s + 1 < cap \<Longrightarrow> held (step x s) = held s + 1"
    and releases: "effect x s = Releases \<Longrightarrow> 0 < held s \<Longrightarrow> held (step x s) = held s - 1"
    and keeps: "effect x s = Keeps \<Longrightarrow> held (step x s) = held s"
    and ready_kept: "ready s \<Longrightarrow> 0 < held s \<Longrightarrow> 0 < held (step x s) \<Longrightarrow> ready (step x s)"
begin

lemma held_step:
  assumes "held s = Suc n" "others_disciplined step effect cap n (x # xs) s"
  shows "\<exists>m. held (step x s) = Suc m \<and> others_disciplined step effect cap m xs (step x s)"
proof (cases "effect x s")
  case Acquires
  then show ?thesis using assms acquires[of x s] by (auto intro!: exI[of _ "n + 1"])
next
  case Releases
  then show ?thesis using assms releases[of x s] by (auto intro!: exI[of _ "n - 1"])
next
  case Keeps
  then show ?thesis using assms keeps[of x s] by auto
qed

lemma lock_protects:
  assumes "ready s" "held s = Suc n" "others_disciplined step effect cap n xs s"
  shows "ready (fold step xs s) \<and> 0 < held (fold step xs s)"
  using assms
proof (induction xs arbitrary: s n)
  case Nil
  then show ?case by simp
next
  case (Cons x xs)
  obtain m where m: "held (step x s) = Suc m" "others_disciplined step effect cap m xs (step x s)"
    using held_step[OF Cons.prems(2,3)] by blast
  have "ready (step x s)" using ready_kept[of s x] Cons.prems(1,2) m(1) by simp
  from Cons.IH[OF this m] show ?case by simp
qed

lemma lock_protects_always:
  assumes "ready s" "held s = Suc n" "others_disciplined step effect cap n xs s"
  shows "\<forall>k \<le> length xs. ready (fold step (take k xs) s)"
proof -
  have "others_disciplined step effect cap n (take k xs) s" for k
    using assms(3)
  proof (induction xs arbitrary: s n k)
    case (Cons x xs)
    then show ?case by (cases k) (auto split: lock_effect.splits)
  qed simp
  then show ?thesis using lock_protects[OF assms(1,2)] by blast
qed

end

end
