(* ===== verification/Trigger_Invariants.thy ===== *)
theory Trigger_Invariants
  imports Trigger_Target Readout_Lock
begin

text \<open>
  The atomic steps of the trigger targets as one step function, and the invariants every reachable
  state keeps: the published shared state is the one computed from the shared targets, and a
  pending shared arm is never left behind once no shared target is locked.
\<close>

section \<open>The steps\<close>

datatype tt_op =
    OpArm trigger_target_id
  | OpDisarm trigger_target_id
  | OpTrigger trigger_target_id
  | OpComplete trigger_target_id
  | OpSetMode trigger_target_id target_mode
  | OpSharedArm
  | OpSharedDisarm
  | OpSharedMode bool
  | OpLock trigger_target_id u32
  | OpAbort trigger_target_id
  | OpUnlock trigger_target_id
  | OpCapture

datatype lock_outcome = LockGranted | LockRefused | LockWaiting

text \<open>The critical section of \<^verbatim>\<open>lock_trigger_ready\<close> up to the point where it may have to wait.\<close>

definition lock_request :: "trigger_target_id \<Rightarrow> u32 \<Rightarrow> tt_world \<Rightarrow> lock_outcome \<times> tt_world" where
  "lock_request i timeout w =
     (if check_trigger_ready i w then (LockGranted, increment_trigger_lock_count i w)
      else if timeout = 0 then (LockRefused, w)
      else (LockWaiting, increment_trigger_lock_count i w))"

fun tt_step :: "tt_op \<Rightarrow> tt_world \<Rightarrow> tt_world" where
  "tt_step (OpArm i) w = trigger_target_arm i w"
| "tt_step (OpDisarm i) w = trigger_target_disarm i w"
| "tt_step (OpTrigger i) w = trigger_target_trigger i w"
| "tt_step (OpComplete i) w = trigger_target_complete i w"
| "tt_step (OpSetMode i m) w = trigger_target_set_mode i m w"
| "tt_step OpSharedArm w = shared_trigger_target_arm w"
| "tt_step OpSharedDisarm w = shared_trigger_target_disarm w"
| "tt_step (OpSharedMode m) w = shared_trigger_set_mode m w"
| "tt_step (OpLock i timeout) w = snd (lock_request i timeout w)"
| "tt_step (OpAbort i) w = decrement_trigger_lock_count i w"
| "tt_step (OpUnlock i) w = unlock_trigger_ready i w"
| "tt_step OpCapture w = snd (immediate_memory_capture w)"

definition tt_run :: "tt_op list \<Rightarrow> tt_world \<Rightarrow> tt_world" where
  "tt_run ops w = fold tt_step ops w"

lemma tt_run_simps [simp]: "tt_run [] w = w" "tt_run (x # xs) w = tt_run xs (tt_step x w)"
  by (simp_all add: tt_run_def)

section \<open>The global state as a function of the targets\<close>

definition shared_has :: "(trigger_target_id \<Rightarrow> trigger_target) \<Rightarrow> target_state \<Rightarrow> bool" where
  "shared_has ts st \<longleftrightarrow> (\<exists>i. tmode (ts i) = MODE_SHARED \<and> tstate (ts i) = st)"

definition global_of :: "(trigger_target_id \<Rightarrow> trigger_target) \<Rightarrow> shared_target_state" where
  "global_of ts =
     (if shared_has ts TARGET_LOCKED
      then if shared_has ts TARGET_ARMED \<or> shared_has ts TARGET_BUSY then SHARED_INVALID
           else SHARED_LOCKED
      else if shared_has ts TARGET_ARMED
      then if shared_has ts TARGET_BUSY \<or> shared_has ts TARGET_IDLE then SHARED_MIXED
           else SHARED_ARMED
      else if shared_has ts TARGET_BUSY then SHARED_BUSY else SHARED_IDLE)"

lemma compute_global_state_eq: "compute_global_state w = global_of (targets w)"
proof -
  have "any_shared_in w st = shared_has (targets w) st" for st
    by (simp add: any_shared_in_def shared_has_def is_shared_def)
  then show ?thesis
    unfolding compute_global_state_def global_of_def Let_def by presburger
qed

lemma any_locked_targets_eq:
  "any_locked_targets w \<longleftrightarrow> (\<exists>i. tmode (targets w i) = MODE_SHARED \<and> lock_count (targets w i) > 0)"
  by (simp add: any_locked_targets_def is_shared_def)

lemma any_shared_targets_eq:
  "any_shared_targets w \<longleftrightarrow> (\<exists>i. tmode (targets w i) = MODE_SHARED)"
  by (simp add: any_shared_targets_def is_shared_def)

text \<open>In the idle and locked global states every shared target is ready.\<close>

lemma global_ready:
  assumes "global_of ts = SHARED_IDLE \<or> global_of ts = SHARED_LOCKED"
    and "tmode (ts i) = MODE_SHARED"
  shows "tstate (ts i) = TARGET_IDLE \<or> tstate (ts i) = TARGET_LOCKED"
  using assms by (cases "tstate (ts i)") (auto simp: global_of_def shared_has_def split: if_splits)

lemma global_idle_iff:
  "global_of ts = SHARED_IDLE \<longleftrightarrow> (\<forall>i. tmode (ts i) = MODE_SHARED \<longrightarrow> tstate (ts i) = TARGET_IDLE)"
  by (auto simp: global_of_def shared_has_def split: if_splits) (metis target_state.exhaust)+

lemma global_locked_iff:
  "global_of ts = SHARED_LOCKED \<longleftrightarrow>
     shared_has ts TARGET_LOCKED \<and>
     (\<forall>i. tmode (ts i) = MODE_SHARED \<longrightarrow> tstate (ts i) = TARGET_IDLE \<or> tstate (ts i) = TARGET_LOCKED)"
  by (auto simp: global_of_def shared_has_def split: if_splits) (metis target_state.exhaust)+

lemma global_armed_iff:
  "global_of ts = SHARED_ARMED \<longleftrightarrow>
     (\<exists>i. tmode (ts i) = MODE_SHARED) \<and>
     (\<forall>i. tmode (ts i) = MODE_SHARED \<longrightarrow> tstate (ts i) = TARGET_ARMED)"
  by (auto simp: global_of_def shared_has_def split: if_splits) (metis target_state.exhaust)+

section \<open>Arming the shared targets\<close>

definition arm_shared_ts ::
  "(trigger_target_id \<Rightarrow> trigger_target) \<Rightarrow> trigger_target_id \<Rightarrow> trigger_target" where
  "arm_shared_ts ts =
     (if \<exists>i. tmode (ts i) = MODE_SHARED \<and> lock_count (ts i) > 0
      then map_shared lock_t ts else map_shared arm_t ts)"

lemma targets_arm_shared:
  "targets (arm_shared_targets w) =
     (if shared_state w = SHARED_IDLE \<or> shared_state w = SHARED_LOCKED
      then arm_shared_ts (targets w) else targets w)"
  by (auto simp: arm_shared_targets_def arm_shared_ts_def any_locked_targets_eq any_shared_targets_eq
      map_shared_def fun_eq_iff Let_def)

lemma shared_state_arm_shared:
  "shared_state (arm_shared_targets w) =
     (if shared_state w \<noteq> SHARED_IDLE \<and> shared_state w \<noteq> SHARED_LOCKED then shared_state w
      else if any_locked_targets w then SHARED_LOCKED
      else if any_shared_targets w then SHARED_ARMED else shared_state w)"
  by (auto simp: arm_shared_targets_def any_locked_targets_eq any_shared_targets_eq Let_def)

lemma arm_shared_ts_frame [simp]:
  "lock_count (arm_shared_ts ts j) = lock_count (ts j)"
  "tmode (arm_shared_ts ts j) = tmode (ts j)" "config (arm_shared_ts ts j) = config (ts j)"
  by (simp_all add: arm_shared_ts_def)

section \<open>Coherence of the shared state\<close>

definition coherent :: "tt_world \<Rightarrow> bool" where
  "coherent w \<longleftrightarrow> shared_state w = compute_global_state w"

lemma global_of_lock_t:
  assumes "global_of ts = SHARED_IDLE \<or> global_of ts = SHARED_LOCKED"
    and "tmode (ts i) = MODE_SHARED" "lock_count (ts i) > 0"
  shows "global_of (map_shared lock_t ts) = SHARED_LOCKED"
proof -
  have "shared_has (map_shared lock_t ts) TARGET_LOCKED"
    unfolding shared_has_def using assms(2,3) by (auto simp: map_shared_def lock_t_def intro!: exI[of _ i])
  then show ?thesis
    using global_ready[OF assms(1)] by (auto simp: global_locked_iff map_shared_def lock_t_def)
qed

lemma global_of_arm_t:
  assumes "global_of ts = SHARED_IDLE \<or> global_of ts = SHARED_LOCKED"
    and "\<forall>i. tmode (ts i) = MODE_SHARED \<longrightarrow> lock_count (ts i) = 0"
    and "tmode (ts i) = MODE_SHARED"
  shows "global_of (map_shared arm_t ts) = SHARED_ARMED"
  using global_ready[OF assms(1)] assms(2,3)
  by (auto simp: global_armed_iff map_shared_def arm_t_def)

lemma coherent_arm_shared [mbf_inv]:
  assumes "coherent w" shows "coherent (arm_shared_targets w)"
proof -
  let ?ts = "targets w"
  have c: "shared_state w = global_of ?ts"
    using assms by (simp add: coherent_def compute_global_state_eq)
  consider (busy) "shared_state w \<noteq> SHARED_IDLE" "shared_state w \<noteq> SHARED_LOCKED"
    | (lock) i where "shared_state w = SHARED_IDLE \<or> shared_state w = SHARED_LOCKED"
        "tmode (?ts i) = MODE_SHARED" "lock_count (?ts i) > 0"
    | (arm) i where "shared_state w = SHARED_IDLE \<or> shared_state w = SHARED_LOCKED"
        "\<forall>i. tmode (?ts i) = MODE_SHARED \<longrightarrow> lock_count (?ts i) = 0" "tmode (?ts i) = MODE_SHARED"
    | (none) "shared_state w = SHARED_IDLE \<or> shared_state w = SHARED_LOCKED"
        "\<forall>i. tmode (?ts i) \<noteq> MODE_SHARED"
    by (metis word_gt_0)
  then show ?thesis
  proof cases
    case busy
    then show ?thesis
      using c by (simp add: coherent_def compute_global_state_eq targets_arm_shared shared_state_arm_shared)
  next
    case lock
    then have "arm_shared_ts ?ts = map_shared lock_t ?ts" by (auto simp: arm_shared_ts_def)
    with lock c show ?thesis
      using global_of_lock_t[of ?ts i]
      by (auto simp: coherent_def compute_global_state_eq targets_arm_shared shared_state_arm_shared
          any_locked_targets_eq)
  next
    case arm
    then have "arm_shared_ts ?ts = map_shared arm_t ?ts" by (auto simp: arm_shared_ts_def)
    with arm c show ?thesis
      using global_of_arm_t[of ?ts i]
      by (auto simp: coherent_def compute_global_state_eq targets_arm_shared shared_state_arm_shared
          any_locked_targets_eq any_shared_targets_eq)
  next
    case none
    then have "arm_shared_ts ?ts = ?ts" by (auto simp: arm_shared_ts_def map_shared_def)
    with none c show ?thesis
      by (auto simp: coherent_def compute_global_state_eq targets_arm_shared shared_state_arm_shared
          any_locked_targets_eq any_shared_targets_eq)
  qed
qed

lemma coherent_set_global: "coherent (set_global_state (compute_global_state w) w)"
  by (simp add: coherent_def compute_global_state_eq)

lemma coherent_update_global [mbf_inv]: "coherent (update_global_state w)"
  unfolding update_global_state_def
  using coherent_arm_shared[OF coherent_set_global] coherent_set_global by (simp add: Let_def)

lemma coherent_cong:
  assumes "shared_state w' = shared_state w"
    and "\<And>i. tmode (targets w' i) = tmode (targets w i)"
    and "\<And>i. tmode (targets w i) = MODE_SHARED \<Longrightarrow> tstate (targets w' i) = tstate (targets w i)"
  shows "coherent w' \<longleftrightarrow> coherent w"
proof -
  have "shared_has (targets w') st = shared_has (targets w) st" for st
    unfolding shared_has_def using assms(2,3) by metis
  then show ?thesis
    using assms(1) by (simp add: coherent_def compute_global_state_eq global_of_def)
qed

lemma coherent_congI:
  assumes "coherent w" and "shared_state w' = shared_state w"
    and "\<And>i. tmode (targets w' i) = tmode (targets w i)"
    and "\<And>i. tmode (targets w i) = MODE_SHARED \<Longrightarrow> tstate (targets w' i) = tstate (targets w i)"
  shows "coherent w'"
  using coherent_cong assms by blast

lemma coherent_disarm_shared [mbf_inv]: "coherent (disarm_shared_targets w)"
  by (simp add: disarm_shared_targets_def mbf_inv)

lemma targets_arm_target_alone:
  "\<not> is_shared w i \<Longrightarrow> targets (arm_target i w) = (targets w)(i := arm_t (targets w i))"
  by (auto simp: arm_target_def snd_do_arm_target split: prod.splits)
     (metis snd_conv snd_do_arm_target)+

lemma shared_state_arm_target_alone:
  "\<not> is_shared w i \<Longrightarrow> shared_state (arm_target i w) = shared_state w"
  by (auto simp: arm_target_def split: prod.splits) (metis frame_do_arm_target(1) snd_conv)+

lemma targets_disarm_target_alone:
  "\<not> is_shared w i \<Longrightarrow> targets (disarm_target i w) = (targets w)(i := disarm_t (targets w i))"
  "\<not> is_shared w i \<Longrightarrow> shared_state (disarm_target i w) = shared_state w"
  by (simp_all add: disarm_target_def)

lemma coherent_arm_target [mbf_inv]: "coherent w \<Longrightarrow> coherent (arm_target i w)"
proof (cases "is_shared w i")
  case True
  then show "coherent w \<Longrightarrow> ?thesis" by (simp add: arm_target_def mbf_inv)
next
  case False
  then have "coherent (arm_target i w) \<longleftrightarrow> coherent w"
    by (intro coherent_cong)
       (auto simp: shared_state_arm_target_alone targets_arm_target_alone is_shared_def)
  then show "coherent w \<Longrightarrow> ?thesis" by simp
qed

lemma coherent_disarm_target [mbf_inv]: "coherent w \<Longrightarrow> coherent (disarm_target i w)"
proof (cases "is_shared w i")
  case True
  then show ?thesis by (simp add: disarm_target_def mbf_inv)
next
  case False
  then have "coherent (disarm_target i w) \<longleftrightarrow> coherent w"
    by (intro coherent_cong) (auto simp: targets_disarm_target_alone is_shared_def)
  then show "coherent w \<Longrightarrow> ?thesis" by simp
qed

lemma coherent_trigger [mbf_inv]: "coherent w \<Longrightarrow> coherent (trigger_target_trigger i w)"
proof -
  assume c: "coherent w"
  have "coherent (set_target_state i TARGET_BUSY w) \<longleftrightarrow> coherent w" if "\<not> is_shared w i"
    using that by (intro coherent_cong) (auto simp: is_shared_def)
  moreover have "coherent (emit [LogMessage] w) \<longleftrightarrow> coherent w"
    by (intro coherent_cong) auto
  ultimately show ?thesis
    using c by (auto simp: trigger_target_trigger_def Let_def is_shared_def mbf_inv)
qed

lemma coherent_emit [mbf_inv]: "coherent w \<Longrightarrow> coherent (emit cs w)"
  using coherent_cong[of "emit cs w" w] by simp

lemma coherent_complete [mbf_inv]: "coherent w \<Longrightarrow> coherent (trigger_target_complete i w)"
proof -
  assume c: "coherent w"
  have "coherent (set_target_state i TARGET_IDLE w)" if "\<not> is_shared w i"
    using that by (intro coherent_congI[OF c]) (auto simp: is_shared_def)
  then show ?thesis
    using c by (auto simp: trigger_target_complete_def Let_def is_shared_def
        intro!: coherent_emit coherent_update_global coherent_arm_target)
qed

lemma coherent_set_mode [mbf_inv]: "coherent (trigger_target_set_mode i m w)"
  by (simp add: trigger_target_set_mode_def update_shared_targets_def mbf_inv)

lemma coherent_lock_count [simp]:
  "coherent (upd_target i (\<lambda>t. t\<lparr>lock_count := lock_count t + 1\<rparr>) w) \<longleftrightarrow> coherent w"
  "coherent (upd_target i (\<lambda>t. t\<lparr>lock_count := lock_count t - 1\<rparr>) w) \<longleftrightarrow> coherent w"
  by (rule coherent_cong; auto)+

lemma coherent_decrement [mbf_inv]: "coherent w \<Longrightarrow> coherent (decrement_trigger_lock_count i w)"
  by (simp add: decrement_trigger_lock_count_def process_target_unlocked_def Let_def mbf_inv)

lemma coherent_lock_request [mbf_inv]: "coherent w \<Longrightarrow> coherent (snd (lock_request i timeout w))"
  by (simp add: lock_request_def increment_trigger_lock_count_def)

lemma coherent_capture [mbf_inv]: "coherent w \<Longrightarrow> coherent (snd (immediate_memory_capture w))"
proof -
  assume c: "coherent w"
  let ?w = "\<lambda>cs. upd_target TRIGGER_DRAM (\<lambda>t. t\<lparr>dont_rearm := True\<rparr>)
                (set_target_state TRIGGER_DRAM TARGET_ARMED (emit cs w))"
  have "coherent (?w cs)" if "\<not> is_shared w TRIGGER_DRAM" for cs
    using that by (intro coherent_congI[OF c]) (auto simp: is_shared_def)
  then show ?thesis
    using c by (auto simp: immediate_memory_capture_def Let_def is_shared_def mbf_inv)
qed

lemma coherent_shared_mode [mbf_inv]: "coherent w \<Longrightarrow> coherent (shared_trigger_set_mode m w)"
  using coherent_cong[of "shared_trigger_set_mode m w" w]
  by (simp add: shared_trigger_set_mode_def)

lemma coherent_step: "coherent w \<Longrightarrow> coherent (tt_step op w)"
  by (cases op) (simp_all add: trigger_target_arm_def trigger_target_disarm_def
      shared_trigger_target_arm_def shared_trigger_target_disarm_def unlock_trigger_ready_def mbf_inv)

lemma coherent_run: "coherent w \<Longrightarrow> coherent (tt_run ops w)"
  by (induction ops arbitrary: w) (simp_all add: coherent_step)

section \<open>No shared arm is left pending\<close>

definition arm_not_stranded :: "tt_world \<Rightarrow> bool" where
  "arm_not_stranded w \<longleftrightarrow> (shared_state w = SHARED_LOCKED \<longrightarrow> any_locked_targets w)"

lemma any_locked_arm_shared [simp]: "any_locked_targets (arm_shared_targets w) = any_locked_targets w"
  by (simp add: any_locked_targets_eq targets_arm_shared)

lemma not_stranded_arm_shared:
  "arm_not_stranded w \<Longrightarrow> arm_not_stranded (arm_shared_targets w)"
  by (auto simp: arm_not_stranded_def shared_state_arm_shared split: if_splits)

lemma not_stranded_update_global: "arm_not_stranded (update_global_state w)"
proof -
  let ?w = "set_global_state (compute_global_state w) w"
  have sh: "any_shared_targets ?w" if "compute_global_state w = SHARED_LOCKED"
    using that by (auto simp: compute_global_state_eq global_locked_iff any_shared_targets_eq shared_has_def)
  then show ?thesis
    by (auto simp: update_global_state_def Let_def arm_not_stranded_def shared_state_arm_shared
        split: if_splits)
qed

lemma not_stranded_cong:
  assumes "shared_state w' = shared_state w"
    and "\<And>i. tmode (targets w' i) = tmode (targets w i)"
    and "\<And>i. lock_count (targets w i) > 0 \<Longrightarrow> lock_count (targets w' i) > 0"
  shows "arm_not_stranded w \<Longrightarrow> arm_not_stranded w'"
  using assms by (auto simp: arm_not_stranded_def any_locked_targets_eq)

section \<open>Locked targets stay ready\<close>

definition ready_t :: "trigger_target \<Rightarrow> bool" where
  "ready_t t \<longleftrightarrow> tstate t = TARGET_IDLE \<or> tstate t = TARGET_LOCKED"

lemma check_trigger_ready_eq: "check_trigger_ready i w \<longleftrightarrow> ready_t (targets w i)"
  by (simp add: check_trigger_ready_def ready_t_def)

lemma ready_arm_t [simp]: "lock_count t > 0 \<Longrightarrow> ready_t t \<Longrightarrow> ready_t (arm_t t)"
  by (auto simp: ready_t_def arm_t_def)

lemma ready_disarm_t [simp]: "ready_t t \<Longrightarrow> ready_t (disarm_t t)"
  by (auto simp: ready_t_def disarm_t_def)

lemma ready_lock_t [simp]: "ready_t t \<Longrightarrow> ready_t (lock_t t)"
  by (auto simp: ready_t_def lock_t_def)

lemma ready_arm_shared_ts [simp]:
  "lock_count (ts i) > 0 \<Longrightarrow> ready_t (ts i) \<Longrightarrow> ready_t (arm_shared_ts ts i)"
  by (auto simp: arm_shared_ts_def map_shared_def)

lemma targets_update_global:
  "targets (update_global_state w) = targets w \<or>
   targets (update_global_state w) = arm_shared_ts (targets w)"
  by (auto simp: update_global_state_def targets_arm_shared Let_def)

lemma ready_update_global [simp]:
  "lock_count (targets w i) > 0 \<Longrightarrow> ready_t (targets w i) \<Longrightarrow> ready_t (targets (update_global_state w) i)"
  using targets_update_global[of w] by auto

lemma lock_count_update_global [simp]:
  "lock_count (targets (update_global_state w) i) = lock_count (targets w i)"
  using targets_update_global[of w] by auto

lemma targets_arm_target:
  "targets (arm_target j w) =
     (if is_shared w j
      then (if shared_state w = SHARED_IDLE \<or> shared_state w = SHARED_LOCKED
            then arm_shared_ts (targets w) else targets w)
      else (targets w)(j := arm_t (targets w j)))"
  using targets_arm_target_alone[of w j] by (simp add: arm_target_def targets_arm_shared)

lemma ready_arm_target [simp]:
  "lock_count (targets w i) > 0 \<Longrightarrow> ready_t (targets w i) \<Longrightarrow> ready_t (targets (arm_target j w) i)"
  by (cases "i = j") (simp_all add: targets_arm_target)

lemma lock_count_arm_target [simp]:
  "lock_count (targets (arm_target j w) i) = lock_count (targets w i)"
  by (cases "i = j") (simp_all add: targets_arm_target)

lemma ready_disarm_shared [simp]:
  "lock_count (targets w i) > 0 \<Longrightarrow> ready_t (targets w i) \<Longrightarrow>
   ready_t (targets (disarm_shared_targets w) i)"
  by (auto simp: disarm_shared_targets_def map_shared_def intro!: ready_update_global)

lemma lock_count_disarm_shared [simp]:
  "lock_count (targets (disarm_shared_targets w) i) = lock_count (targets w i)"
  by (simp add: disarm_shared_targets_def)

lemma targets_disarm_target:
  "targets (disarm_target j w) =
     (if is_shared w j then targets (disarm_shared_targets w)
      else (targets w)(j := disarm_t (targets w j)))"
  by (simp add: disarm_target_def)

lemma ready_disarm_target [simp]:
  "lock_count (targets w i) > 0 \<Longrightarrow> ready_t (targets w i) \<Longrightarrow> ready_t (targets (disarm_target j w) i)"
  by (cases "i = j") (simp_all add: targets_disarm_target)

lemma lock_count_disarm_target [simp]:
  "lock_count (targets (disarm_target j w) i) = lock_count (targets w i)"
  by (cases "i = j") (simp_all add: targets_disarm_target)

text \<open>What each step does to the lock count of target \<open>i\<close>.\<close>

fun tt_effect :: "trigger_target_id \<Rightarrow> tt_op \<Rightarrow> tt_world \<Rightarrow> lock_effect" where
  "tt_effect i (OpLock j timeout) w =
     (if j = i \<and> (check_trigger_ready i w \<or> timeout \<noteq> 0) then Acquires else Keeps)"
| "tt_effect i (OpAbort j) w = (if j = i then Releases else Keeps)"
| "tt_effect i (OpUnlock j) w = (if j = i then Releases else Keeps)"
| "tt_effect i _ w = Keeps"

definition locks_held :: "trigger_target_id \<Rightarrow> tt_world \<Rightarrow> nat" where
  "locks_held i w = unat (lock_count (targets w i))"

lemma lock_count_decrement:
  "lock_count (targets (decrement_trigger_lock_count j w) i) =
     (if i = j then lock_count (targets w i) - 1 else lock_count (targets w i))"
  by (simp add: decrement_trigger_lock_count_def process_target_unlocked_def Let_def)

lemma lock_count_step:
  "lock_count (targets (tt_step op w) i) =
     (case tt_effect i op w of
        Acquires \<Rightarrow> lock_count (targets w i) + 1
      | Releases \<Rightarrow> lock_count (targets w i) - 1
      | Keeps \<Rightarrow> lock_count (targets w i))"
proof (cases op)
  case (OpTrigger j)
  then show ?thesis by (cases "i = j") (simp_all add: trigger_target_trigger_def Let_def)
next
  case (OpComplete j)
  then show ?thesis by (cases "i = j") (simp_all add: trigger_target_complete_def Let_def)
next
  case (OpSetMode j m)
  then show ?thesis by (cases "i = j") (simp_all add: trigger_target_set_mode_def)
next
  case (OpLock j timeout)
  then show ?thesis by (auto simp: lock_request_def increment_trigger_lock_count_def)
next
  case OpCapture
  then show ?thesis by (simp add: immediate_memory_capture_def Let_def)
next
  case OpSharedArm
  then show ?thesis by (simp add: shared_trigger_target_arm_def targets_arm_shared)
qed (simp_all add: trigger_target_arm_def trigger_target_disarm_def shared_trigger_target_disarm_def
  unlock_trigger_ready_def lock_count_decrement shared_trigger_set_mode_def)

lemma ready_process_unlocked [simp]:
  "lock_count (targets w i) > 0 \<Longrightarrow> ready_t (targets w i) \<Longrightarrow>
   ready_t (targets (process_target_unlocked j w) i)"
  by (simp add: process_target_unlocked_def)

lemma ready_decrement:
  assumes "ready_t (targets w i)" "lock_count (targets w i) > 0"
    and "lock_count (targets (decrement_trigger_lock_count j w) i) > 0"
  shows "ready_t (targets (decrement_trigger_lock_count j w) i)"
proof -
  let ?w = "upd_target j (\<lambda>t. t\<lparr>lock_count := lock_count t - 1\<rparr>) w"
  have r: "ready_t (targets ?w i)" using assms(1) by (cases "i = j") (simp_all add: ready_t_def)
  have "lock_count (targets ?w i) > 0"
    using assms(2,3) by (auto simp: lock_count_decrement)
  then have "ready_t (targets (process_target_unlocked j ?w) i)"
    using r by (rule ready_process_unlocked)
  with r show ?thesis unfolding decrement_trigger_lock_count_def Let_def by presburger
qed

lemma ready_upd_mode [simp]: "ready_t (t\<lparr>tmode := m\<rparr>) = ready_t t"
  and ready_upd_count [simp]: "ready_t (t\<lparr>lock_count := n\<rparr>) = ready_t t"
  by (simp_all add: ready_t_def)

lemma not_ready_states: "ready_t t \<Longrightarrow> tstate t \<noteq> TARGET_ARMED \<and> tstate t \<noteq> TARGET_BUSY"
  by (auto simp: ready_t_def)

lemma ready_set_other [simp]:
  "ready_t (targets w i) \<Longrightarrow> \<not> ready_t (targets w j) \<Longrightarrow>
   ready_t (targets (set_target_state j st w) i)"
  by auto

lemma ready_step:
  assumes "ready_t (targets w i)" "lock_count (targets w i) > 0"
    and "lock_count (targets (tt_step op w) i) > 0"
  shows "ready_t (targets (tt_step op w) i)"
proof (cases op)
  case (OpTrigger j)
  show ?thesis
  proof (cases "tstate (targets w j) = TARGET_ARMED")
    case True
    then have "i \<noteq> j" using assms(1) by (auto simp: ready_t_def)
    with True OpTrigger assms show ?thesis
      by (simp add: trigger_target_trigger_def Let_def)
  qed (use OpTrigger assms in \<open>simp add: trigger_target_trigger_def\<close>)
next
  case (OpComplete j)
  show ?thesis
  proof (cases "tstate (targets w j) = TARGET_BUSY")
    case True
    then have "i \<noteq> j" using assms(1) by (auto simp: ready_t_def)
    with True OpComplete assms show ?thesis
      by (simp add: trigger_target_complete_def Let_def)
  qed (use OpComplete assms in \<open>simp add: trigger_target_complete_def\<close>)
next
  case (OpSetMode j m)
  then show ?thesis using assms
    by (cases "i = j") (simp_all add: trigger_target_set_mode_def)
next
  case (OpLock j timeout)
  then show ?thesis using assms
    by (cases "i = j") (simp_all add: lock_request_def increment_trigger_lock_count_def)
next
  case OpCapture
  then show ?thesis using assms
    by (cases "i = TRIGGER_DRAM") (auto simp: immediate_memory_capture_def Let_def)
next
  case OpSharedArm
  then show ?thesis using assms by (simp add: shared_trigger_target_arm_def targets_arm_shared)
qed (use assms in \<open>simp_all add: trigger_target_arm_def trigger_target_disarm_def
  shared_trigger_target_disarm_def unlock_trigger_ready_def ready_decrement shared_trigger_set_mode_def\<close>)

end
