(* ===== verification/System_Config.thy ===== *)
theory System_Config
  imports MBF_Prelude
begin

text \<open>
  The configuration every component reads: \<^verbatim>\<open>struct system_config\<close> and
  \<^verbatim>\<open>struct hardware_delays\<close> of \<^verbatim>\<open>epics/src/configs.h\<close>, with the conversion of the delays after
  loading (\<^verbatim>\<open>configs.c\<close>) and the axis names of \<^verbatim>\<open>common.c\<close>.  \<open>'d\<close> is the type of the
  double precision fields, which no definition here computes with.
\<close>

record 'd system_config =
  device_address :: string
  epics_name :: string
  axis0_name :: string
  axis1_name :: string
  bunches_per_turn :: u32
  lmbf_mode :: bool
  lmbf_fir_offset :: 'd
  revolution_frequency :: 'd
  mms_poll_interval :: u32
  persistence_file :: string
  persistence_interval :: int
  pv_log_array_length :: int
  archive_interval :: int
  memory_readout_length :: u32
  detector_length :: u32
  data_port :: u32
  tune_pll_length :: u32

record hardware_delays =
  valid :: bool
  MMS_ADC_DELAY :: u32
  MMS_ADC_REJECT_DELAY :: u32
  MMS_ADC_FIR_DELAY :: u32
  MMS_DAC_DELAY :: u32
  MMS_DAC_FIR_DELAY :: u32
  MMS_DAC_FEEDBACK_DELAY :: u32
  DRAM_ADC_DELAY :: u32
  DRAM_ADC_REJECT_DELAY :: u32
  DRAM_ADC_FIR_DELAY :: u32
  DRAM_DAC_DELAY :: u32
  DRAM_FIR_DELAY :: u32
  DRAM_DAC_FIR_DELAY :: u32
  BUNCH_GAIN_OFFSET :: u32
  BUNCH_FIR_OFFSET :: u32
  DET_ADC_OFFSET :: u32
  DET_ADC_REJECT_OFFSET :: u32
  DET_FIR_OFFSET :: u32
  DET_ADC_DELAY :: u32
  DET_ADC_REJECT_DELAY :: u32
  DET_FIR_DELAY :: u32
  PLL_ADC_OFFSET :: u32
  PLL_FIR_OFFSET :: u32
  PLL_ADC_REJECT_OFFSET :: u32
  PLL_ADC_DELAY :: u32
  PLL_FIR_DELAY :: u32
  PLL_ADC_REJECT_DELAY :: u32

text \<open>
  \<^verbatim>\<open>get_axis_name\<close>: the combined name is built on first use from the constant configuration, so
  the cached value is the same at every call.
\<close>

definition get_axis_name :: "'d system_config \<Rightarrow> nat \<Rightarrow> bool \<Rightarrow> string" where
  "get_axis_name cfg axis lmbf =
     (if lmbf then axis0_name cfg @ axis1_name cfg
      else if axis = 0 then axis0_name cfg else axis1_name cfg)"

section \<open>Converting the delays\<close>

text \<open>
  \<^verbatim>\<open>convert_field\<close> in 32-bit arithmetic.  The field is read back as \<^verbatim>\<open>int\<close>; C's \<^verbatim>\<open>%\<close> is the
  truncating remainder, applied to operands the code keeps non-negative.
\<close>

definition convert_field :: "u32 \<Rightarrow> u32 \<Rightarrow> u32" where
  "convert_field bunches value =
     (let result = sint value; bpt = sint bunches
      in if result < 0 then word_of_int (bpt - 1 - ((- result - 1) mod bpt))
         else word_of_int (result mod bpt))"

definition convert_hardware_config :: "u32 \<Rightarrow> hardware_delays \<Rightarrow> hardware_delays" where
  "convert_hardware_config bpt d = d\<lparr>
     valid := True,
     MMS_ADC_DELAY := convert_field bpt (MMS_ADC_DELAY d),
     MMS_ADC_REJECT_DELAY := convert_field bpt (MMS_ADC_REJECT_DELAY d),
     MMS_ADC_FIR_DELAY := convert_field bpt (MMS_ADC_FIR_DELAY d),
     MMS_DAC_DELAY := convert_field bpt (MMS_DAC_DELAY d),
     MMS_DAC_FIR_DELAY := convert_field bpt (MMS_DAC_FIR_DELAY d),
     MMS_DAC_FEEDBACK_DELAY := convert_field bpt (MMS_DAC_FEEDBACK_DELAY d),
     DRAM_ADC_DELAY := convert_field bpt (DRAM_ADC_DELAY d),
     DRAM_ADC_REJECT_DELAY := convert_field bpt (DRAM_ADC_REJECT_DELAY d),
     DRAM_ADC_FIR_DELAY := convert_field bpt (DRAM_ADC_FIR_DELAY d),
     DRAM_DAC_DELAY := convert_field bpt (DRAM_DAC_DELAY d),
     DRAM_FIR_DELAY := convert_field bpt (DRAM_FIR_DELAY d),
     DRAM_DAC_FIR_DELAY := convert_field bpt (DRAM_DAC_FIR_DELAY d),
     BUNCH_GAIN_OFFSET := convert_field bpt (BUNCH_GAIN_OFFSET d),
     BUNCH_FIR_OFFSET := convert_field bpt (BUNCH_FIR_OFFSET d),
     DET_ADC_OFFSET := convert_field bpt (DET_ADC_OFFSET d),
     DET_ADC_REJECT_OFFSET := convert_field bpt (DET_ADC_REJECT_OFFSET d),
     DET_FIR_OFFSET := convert_field bpt (DET_FIR_OFFSET d),
     PLL_ADC_OFFSET := convert_field bpt (PLL_ADC_OFFSET d),
     PLL_FIR_OFFSET := convert_field bpt (PLL_FIR_OFFSET d),
     PLL_ADC_REJECT_OFFSET := convert_field bpt (PLL_ADC_REJECT_OFFSET d)\<rparr>"

text \<open>The tricksy remainder is the mathematical one.\<close>

lemma flip_mod:
  fixes r b :: int
  assumes "0 < b" "r < 0"
  shows "b - 1 - ((- r - 1) mod b) = r mod b"
proof -
  have "- r - 1 = b * ((- r - 1) div b) + (- r - 1) mod b" by simp
  then have "r = b * (- ((- r - 1) div b) - 1) + (b - 1 - ((- r - 1) mod b))"
    by (simp add: algebra_simps)
  moreover have "0 \<le> b - 1 - ((- r - 1) mod b)" "b - 1 - ((- r - 1) mod b) < b"
    using pos_mod_bound[OF assms(1), of "- r - 1"] pos_mod_sign[OF assms(1), of "- r - 1"] by linarith+
  ultimately show ?thesis
    by (metis mod_mult_self4 mod_pos_pos_trivial mult.commute add.commute)
qed

lemma convert_field_int:
  assumes "0 < sint bunches"
  shows "uint (convert_field bunches value) = sint value mod sint bunches"
proof -
  have "sint bunches < 2 ^ 31" using sint_lt[of bunches] by simp
  moreover have "sint value mod sint bunches < sint bunches" "0 \<le> sint value mod sint bunches"
    using assms by simp_all
  ultimately have "uint (word_of_int (sint value mod sint bunches) :: u32) = sint value mod sint bunches"
    by (simp add: uint_word_of_int_eq take_bit_int_eq_self)
  then show ?thesis using assms flip_mod[of "sint bunches" "sint value"]
    by (simp add: convert_field_def Let_def)
qed

end
