(* ===== verification/Events.thy ===== *)
theory Events
  imports MBF_Prelude
begin

unbundle bit_operations_syntax

text \<open>
  Interrupt events: the \<^verbatim>\<open>struct interrupts\<close> bit set, which is generated from the
  \<^verbatim>\<open>:INTERRUPTS\<close> entry of \<^verbatim>\<open>AMC525/vhd/register_defs.in\<close> with its fields packed from bit 0, and the
  dispatch of one event mask to the registered handlers (\<^verbatim>\<open>epics/src/events.h\<close> and
  \<^verbatim>\<open>events.c\<close>).
\<close>

type_synonym interrupts = u32

definition dram_busy :: interrupts where "dram_busy = 0x1"
definition dram_done :: interrupts where "dram_done = 0x2"
definition dram_trigger :: interrupts where "dram_trigger = 0x4"

definition seq_trigger :: "u32 \<Rightarrow> interrupts" where
  "seq_trigger m = push_bit 3 (m AND 3)"

definition seq_busy :: "u32 \<Rightarrow> interrupts" where
  "seq_busy m = push_bit 5 (m AND 3)"

definition seq_done :: "u32 \<Rightarrow> interrupts" where
  "seq_done m = push_bit 7 (m AND 3)"

definition tune_pll_ready :: "nat \<Rightarrow> u32 \<Rightarrow> interrupts" where
  "tune_pll_ready axis m = push_bit (9 + 3 * axis) (m AND 7)"

definition intersect_interrupts :: "interrupts \<Rightarrow> interrupts \<Rightarrow> interrupts" where
  "intersect_interrupts a b = a AND b"

definition test_interrupts :: "interrupts \<Rightarrow> bool" where
  "test_interrupts a \<longleftrightarrow> a \<noteq> 0"

definition test_intersect :: "interrupts \<Rightarrow> interrupts \<Rightarrow> bool" where
  "test_intersect a b = test_interrupts (intersect_interrupts a b)"

section \<open>Handlers\<close>

datatype interrupt_handler_index =
    INTERRUPT_HANDLER_MEMORY
  | INTERRUPT_HANDLER_DETECTOR
  | INTERRUPT_HANDLER_TRIGGER
  | INTERRUPT_HANDLER_TUNE_PLL

definition MAX_EVENT_HANDLERS :: nat where "MAX_EVENT_HANDLERS = 4"

fun handler_index :: "interrupt_handler_index \<Rightarrow> nat" where
  "handler_index INTERRUPT_HANDLER_MEMORY = 0"
| "handler_index INTERRUPT_HANDLER_DETECTOR = 1"
| "handler_index INTERRUPT_HANDLER_TRIGGER = 2"
| "handler_index INTERRUPT_HANDLER_TUNE_PLL = 3"

record 's event_handler =
  hinterrupts :: interrupts
  handler :: "interrupts \<Rightarrow> 's \<Rightarrow> 's"

text \<open>The static array is zero: no interrupts, and a null handler that is never called.\<close>

definition no_handler :: "'s event_handler" where
  "no_handler = \<lparr>hinterrupts = 0, handler = (\<lambda>_ s. s)\<rparr>"

definition initial_handlers :: "'s event_handler list" where
  "initial_handlers = replicate MAX_EVENT_HANDLERS no_handler"

text \<open>\<open>None\<close>: one of the assertions of \<^verbatim>\<open>register_event_handler\<close> has failed.\<close>

definition register_event_handler ::
  "interrupt_handler_index \<Rightarrow> interrupts \<Rightarrow> (interrupts \<Rightarrow> 's \<Rightarrow> 's) \<Rightarrow>
   's event_handler list \<Rightarrow> 's event_handler list option" where
  "register_event_handler index ints f hs =
     (let i = handler_index index
      in if \<not> i < MAX_EVENT_HANDLERS then None
         else if test_interrupts (hinterrupts (hs ! i)) then None
         else Some (hs[i := \<lparr>hinterrupts = ints, handler = f\<rparr>]))"

text \<open>One iteration of the loop of \<^verbatim>\<open>events_thread\<close>.\<close>

definition dispatch_event :: "'s event_handler list \<Rightarrow> interrupts \<Rightarrow> 's \<Rightarrow> 's" where
  "dispatch_event hs interrupts s =
     fold (\<lambda>h s. if test_intersect (hinterrupts h) interrupts
                 then handler h (intersect_interrupts (hinterrupts h) interrupts) s else s) hs s"

text \<open>
  The loop runs until reading the device fails; \<open>reads\<close> are the results of
  \<^verbatim>\<open>hw_read_interrupt_events\<close>, and the second component says whether the thread has ended.
\<close>

fun events_thread :: "'s event_handler list \<Rightarrow> interrupts option list \<Rightarrow> 's \<Rightarrow> 's \<times> bool" where
  "events_thread hs [] s = (s, False)"
| "events_thread hs (None # rs) s = (s, True)"
| "events_thread hs (Some i # rs) s = events_thread hs rs (dispatch_event hs i s)"

lemmas interrupt_defs = dram_busy_def dram_done_def dram_trigger_def seq_trigger_def seq_busy_def
  seq_done_def tune_pll_ready_def intersect_interrupts_def test_interrupts_def test_intersect_def

lemma test_intersect_commute: "test_intersect a b = test_intersect b a"
  by (simp add: interrupt_defs and.commute)

lemma dispatch_event_append:
  "dispatch_event (hs @ hs') i s = dispatch_event hs' i (dispatch_event hs i s)"
  by (simp add: dispatch_event_def)

lemma dispatch_event_none:
  "(\<And>h. h \<in> set hs \<Longrightarrow> \<not> test_intersect (hinterrupts h) i) \<Longrightarrow> dispatch_event hs i s = s"
  by (induction hs) (auto simp: dispatch_event_def)

lemma dispatch_event_split:
  assumes "k < length hs"
  shows "dispatch_event hs i s =
    dispatch_event (drop (Suc k) hs) i (dispatch_event [hs ! k] i (dispatch_event (take k hs) i s))"
  using assms by (simp flip: dispatch_event_append add: id_take_nth_drop[symmetric])

end
