(* ===== verification/Triggers.thy ===== *)
theory Triggers
  imports Trigger_Invariants System_Config Events
begin

text \<open>
  The three trigger targets as \<^verbatim>\<open>epics/src/triggers.c\<close> sets them up: their methods, their
  interrupt sources, the creation order and the dispatch of hardware events to them.  The records
  published for each target (source enables, blanking, delays) only pass values on to the
  hardware layer and are not part of the state.
\<close>

section \<open>Target methods\<close>

definition seq_axis :: "trigger_target_id \<Rightarrow> nat" where
  "seq_axis i = (if i = TRIGGER_SEQ1 then 1 else 0)"

definition get_seq_name :: "'d system_config \<Rightarrow> nat \<Rightarrow> string" where
  "get_seq_name cfg axis = get_axis_name cfg axis (lmbf_mode cfg) @ '':SEQ''"

definition get_mem_name :: string where
  "get_mem_name = ''MEM''"

definition prepare_seq_target :: "trigger_target_id \<Rightarrow> call list" where
  "prepare_seq_target i =
     [ResetTriggerSources i, PrepareSequencer (seq_axis i), PrepareDetector (seq_axis i)]"

definition prepare_mem_target :: "trigger_target_id \<Rightarrow> call list" where
  "prepare_mem_target i = [ResetTriggerSources i, HwDramCaptureCommand True False]"

definition stop_seq_target :: "call list \<times> target_state" where
  "stop_seq_target = ([], TARGET_IDLE)"

definition stop_mem_target :: "call list \<times> target_state" where
  "stop_mem_target = ([HwTriggerFire (get_target_mask TRIGGER_DRAM)], TARGET_ARMED)"

definition seq_config :: "'d system_config \<Rightarrow> trigger_target_id \<Rightarrow> target_config" where
  "seq_config cfg i = \<lparr>get_target_name = get_seq_name cfg (seq_axis i),
     prepare_target = prepare_seq_target i,
     stop_target_calls = fst stop_seq_target, stop_target_state = snd stop_seq_target\<rparr>"

definition mem_config :: target_config where
  "mem_config = \<lparr>get_target_name = get_mem_name, prepare_target = prepare_mem_target TRIGGER_DRAM,
     stop_target_calls = fst stop_mem_target, stop_target_state = snd stop_mem_target\<rparr>"

section \<open>Initialisation\<close>

text \<open>The static state before initialisation.\<close>

definition static_world :: tt_world where
  "static_world = \<lparr>targets = (\<lambda>_. null_target), retrigger_mode = False, shared_dont_rearm = True,
     shared_state = SHARED_IDLE, calls = []\<rparr>"

definition create_target ::
  "'d system_config \<Rightarrow> trigger_target_id \<Rightarrow> tt_world \<Rightarrow> tt_world" where
  "create_target cfg i =
     create_trigger_target i (if i = TRIGGER_DRAM then mem_config else seq_config cfg i)"

definition initialise_triggers :: "'d system_config \<Rightarrow> tt_world \<Rightarrow> tt_world" where
  "initialise_triggers cfg w =
     initialise_trigger_targets
       (fold (create_target cfg) (if lmbf_mode cfg then [TRIGGER_SEQ0] else [TRIGGER_SEQ0, TRIGGER_SEQ1])
         (create_target cfg TRIGGER_DRAM w))"

definition start_world :: "'d system_config \<Rightarrow> tt_world" where
  "start_world cfg = initialise_triggers cfg static_world"

definition trigger_handler_interrupts :: "bool \<Rightarrow> interrupts" where
  "trigger_handler_interrupts lmbf =
     (let seq_mask = if lmbf then 1 else 3
      in dram_trigger OR dram_done OR seq_trigger seq_mask OR seq_done seq_mask)"

section \<open>Event dispatch\<close>

fun trigger_interrupt :: "trigger_target_id \<Rightarrow> interrupts" where
  "trigger_interrupt TRIGGER_SEQ0 = seq_trigger 1"
| "trigger_interrupt TRIGGER_SEQ1 = seq_trigger 2"
| "trigger_interrupt TRIGGER_DRAM = dram_trigger"

fun complete_interrupt :: "trigger_target_id \<Rightarrow> interrupts" where
  "complete_interrupt TRIGGER_SEQ0 = seq_done 1"
| "complete_interrupt TRIGGER_SEQ1 = seq_done 2"
| "complete_interrupt TRIGGER_DRAM = dram_done"

definition update_trigger_sources :: "trigger_target_id \<Rightarrow> tt_world \<Rightarrow> tt_world" where
  "update_trigger_sources i = emit [UpdateTriggerSources i]"

definition dispatch_one :: "interrupts \<Rightarrow> trigger_target_id \<Rightarrow> tt_world \<Rightarrow> tt_world" where
  "dispatch_one ints i w =
     (let w' = if test_intersect ints (trigger_interrupt i)
               then trigger_target_trigger i (update_trigger_sources i w) else w
      in if test_intersect ints (complete_interrupt i) then trigger_target_complete i w' else w')"

definition dispatch_target_events :: "interrupts \<Rightarrow> tt_world \<Rightarrow> tt_world" where
  "dispatch_target_events ints w = fold (dispatch_one ints) all_targets w"

definition get_sequencer_trigger_target :: "nat \<Rightarrow> trigger_target_id" where
  "get_sequencer_trigger_target axis = (if axis = 0 then TRIGGER_SEQ0 else TRIGGER_SEQ1)"

definition get_memory_trigger_target :: trigger_target_id where
  "get_memory_trigger_target = TRIGGER_DRAM"

definition get_sequencer_trigger_active :: "nat \<Rightarrow> tt_world \<Rightarrow> bool" where
  "get_sequencer_trigger_active axis w \<longleftrightarrow>
     trigger_target_get_state (get_sequencer_trigger_target axis) w \<noteq> TARGET_IDLE"

section \<open>Basic facts\<close>

definition created :: "'d system_config \<Rightarrow> trigger_target_id \<Rightarrow> bool" where
  "created cfg i \<longleftrightarrow> i \<noteq> TRIGGER_SEQ1 \<or> \<not> lmbf_mode cfg"

definition config_of :: "'d system_config \<Rightarrow> trigger_target_id \<Rightarrow> target_config option" where
  "config_of cfg i =
     (if \<not> created cfg i then None
      else Some (if i = TRIGGER_DRAM then mem_config else seq_config cfg i))"

lemma targets_start_world:
  "targets (start_world cfg) i = null_target\<lparr>config := config_of cfg i\<rparr>"
  by (cases i) (simp_all add: start_world_def initialise_triggers_def initialise_trigger_targets_def
      create_target_def create_trigger_target_def static_world_def config_of_def created_def
      null_target_def)

lemma start_world_frame [simp]:
  "shared_state (start_world cfg) = SHARED_IDLE" "calls (start_world cfg) = []"
  "shared_dont_rearm (start_world cfg) = True" "retrigger_mode (start_world cfg) = False"
  by (simp_all add: start_world_def initialise_triggers_def initialise_trigger_targets_def
      create_target_def create_trigger_target_def static_world_def)

lemma coherent_start [mbf_inv]: "coherent (start_world cfg)"
  by (simp add: coherent_def compute_global_state_eq targets_start_world global_of_def shared_has_def
      null_target_def)

lemma coherent_dispatch [mbf_inv]: "coherent w \<Longrightarrow> coherent (dispatch_target_events ints w)"
  unfolding dispatch_target_events_def
  by (rule fold_invariant)
    (auto simp: dispatch_one_def Let_def update_trigger_sources_def intro!: mbf_inv)

text \<open>The interrupt bits of the three targets are distinct.\<close>

lemma interrupt_bits:
  "trigger_interrupt TRIGGER_SEQ0 = 0x8" "trigger_interrupt TRIGGER_SEQ1 = 0x10"
  "trigger_interrupt TRIGGER_DRAM = 0x4" "complete_interrupt TRIGGER_SEQ0 = 0x80"
  "complete_interrupt TRIGGER_SEQ1 = 0x100" "complete_interrupt TRIGGER_DRAM = 0x2"
  by (simp_all add: interrupt_defs)

lemma handler_interrupts_lmbf:
  "trigger_handler_interrupts True = 0x8E" "trigger_handler_interrupts False = 0x19E"
  by (simp_all add: trigger_handler_interrupts_def interrupt_defs Let_def)

text \<open>Evaluating runs on concrete inputs: the operations unfolded down to record updates.\<close>

lemmas tt_eval = trigger_target_arm_def trigger_target_disarm_def trigger_target_set_mode_def
  shared_trigger_target_arm_def shared_trigger_target_disarm_def shared_trigger_set_mode_def
  unlock_trigger_ready_def lock_request_def immediate_memory_capture_def arm_target_def disarm_target_def
  arm_shared_targets_def disarm_shared_targets_def update_global_state_def do_arm_target_def do_disarm_target_def
  do_arm_target_hardware_def do_arm_shared_hardware_def do_disarm_target_hardware_def do_disarm_shared_hardware_def
  trigger_target_trigger_def trigger_target_complete_def process_target_unlocked_def 
  increment_trigger_lock_count_def decrement_trigger_lock_count_def check_trigger_ready_def
  set_target_state_def set_global_state_def call_prepare_def call_stop_def emit_def upd_target_def
  for_shared_targets_def all_targets_def is_shared_def compute_global_state_def any_shared_in_def
  any_locked_targets_def any_shared_targets_def get_target_mask_def get_shared_mask_def update_shared_targets_def
  shared_names_def target_name_def
lemma start_world_eval: "start_world cfg = \<lparr>targets = (\<lambda>i. null_target\<lparr>config := config_of cfg i\<rparr>), retrigger_mode = False,
  shared_dont_rearm = True, shared_state = SHARED_IDLE, calls = []\<rparr>"
proof -
  have "targets (start_world cfg) = (\<lambda>i. null_target\<lparr>config := config_of cfg i\<rparr>)" by (simp add: fun_eq_iff targets_start_world)
  then show ?thesis by (cases "start_world cfg") (use start_world_frame[of cfg] in simp)
qed

end
