(* ===== verification/Trigger_Locks.thy ===== *)
theory Trigger_Locks
  imports Trigger_Invariants
begin

text \<open>
  Readout locks: \<^verbatim>\<open>lock_trigger_ready\<close> with its wait on the condition variable, and the
  interpretation of the lock interface on the trigger targets.

  While a request waits the mutex is free.  A \<open>wakeup\<close> is one return of
  \<^verbatim>\<open>pthread_cond_timedwait\<close>: the critical sections the other threads ran meanwhile and whether the
  deadline was reached.  The call can also return at once with \<^verbatim>\<open>EINVAL\<close>, as POSIX specifies for a
  deadline whose nanoseconds are out of range; \<^verbatim>\<open>ASSERT_PTHREAD\<close> then ends the program, which is
  the outcome \<open>AssertFailed\<close>.  A model run over a finite list of wakeups that ends while still
  waiting is \<open>None\<close>.
\<close>

interpretation tt_lock: readout_lock tt_step "tt_effect i" "locks_held i"
    "\<lambda>w. ready_t (targets w i)" "2 ^ 32" for i
proof unfold_locales
  fix x w
  assume "tt_effect i x w = Acquires" "locks_held i w + 1 < 2 ^ 32"
  moreover from this have "lock_count (targets w i) \<noteq> - 1"
    by (auto simp: locks_held_def unsigned_minus_1_eq_mask mask_eq_exp_minus_1)
  ultimately show "locks_held i (tt_step x w) = locks_held i w + 1"
    by (simp add: locks_held_def lock_count_step unat_inc)
next
  fix x w
  assume "tt_effect i x w = Releases" "0 < locks_held i w"
  then show "locks_held i (tt_step x w) = locks_held i w - 1"
    by (simp add: locks_held_def lock_count_step unat_dec unat_gt_0)
next
  fix x w
  assume "tt_effect i x w = Keeps"
  then show "locks_held i (tt_step x w) = locks_held i w"
    by (simp add: locks_held_def lock_count_step)
next
  fix w x
  assume "ready_t (targets w i)" "0 < locks_held i w" "0 < locks_held i (tt_step x w)"
  then show "ready_t (targets (tt_step x w) i)"
    by (simp add: locks_held_def ready_step unat_gt_0 word_gt_0)
qed

section \<open>Waiting for the lock\<close>

definition POLL_INTERVAL :: int where "POLL_INTERVAL = 10"

record wakeup =
  others :: "tt_op list"
  timed_out :: bool

datatype 'e lock_result = Locked | NotReady | TimedOut | PollFailed 'e | AssertFailed

text \<open>The deadline check of \<^verbatim>\<open>pthread_cond_timedwait\<close>.\<close>

definition valid_deadline :: "timespec \<Rightarrow> bool" where
  "valid_deadline t \<longleftrightarrow> 0 \<le> tv_nsec t \<and> tv_nsec t < NSECS"

fun pwait_until_ready ::
  "trigger_target_id \<Rightarrow> wakeup list \<Rightarrow> tt_world \<Rightarrow> (bool \<times> wakeup list \<times> tt_world) option" where
  "pwait_until_ready i [] w = None"
| "pwait_until_ready i (k # ks) w =
     (let w' = tt_run (others k) w; ready = check_trigger_ready i w'
      in if \<not> ready \<and> \<not> timed_out k then pwait_until_ready i ks w' else Some (ready, ks, w'))"

lemma pwait_shorter: "pwait_until_ready i ks w = Some (r, ks', w') \<Longrightarrow> length ks' < length ks"
  by (induction i ks w rule: pwait_until_ready.induct) (fastforce simp: Let_def split: if_splits)+

function wait_ticks ::
  "trigger_target_id \<Rightarrow> (nat \<Rightarrow> 'e option) \<Rightarrow> timespec \<Rightarrow> timespec \<Rightarrow> nat \<Rightarrow> timespec \<Rightarrow>
   wakeup list \<Rightarrow> tt_world \<Rightarrow> ('e lock_result \<times> wakeup list \<times> tt_world) option" where
  "wait_ticks i poll delta final_deadline n tick ks w =
     (let next_tick = earliest_timespec (add_timespec tick delta) final_deadline;
          last_tick = compare_timespec_eq next_tick final_deadline
      in if \<not> valid_deadline next_tick then Some (AssertFailed, ks, w)
         else case pwait_until_ready i ks w of
           None \<Rightarrow> None
         | Some (ready, ks', w') \<Rightarrow>
             if ready then Some (Locked, ks', w')
             else if last_tick then Some (TimedOut, ks', w')
             else (case poll n of
                     Some e \<Rightarrow> Some (PollFailed e, ks', w')
                   | None \<Rightarrow> wait_ticks i poll delta final_deadline (Suc n) next_tick ks' w'))"
  by pat_completeness auto
termination
  by (relation "measure (\<lambda>(i, poll, delta, fd, n, tick, ks, w). length ks)") (auto dest: pwait_shorter)

declare wait_ticks.simps [simp del]

definition wait_trigger_ready ::
  "trigger_target_id \<Rightarrow> u32 \<Rightarrow> timespec \<Rightarrow> (nat \<Rightarrow> 'e option) \<Rightarrow> wakeup list \<Rightarrow> tt_world \<Rightarrow>
   ('e lock_result \<times> wakeup list \<times> tt_world) option" where
  "wait_trigger_ready i timeout now poll ks w =
     (let final_deadline = add_timespec now (interval_to_timespec (sint timeout) MSECS);
          delta = interval_to_timespec POLL_INTERVAL 1
      in wait_ticks i poll delta final_deadline 0 now ks w)"

definition lock_trigger_ready ::
  "trigger_target_id \<Rightarrow> u32 \<Rightarrow> timespec \<Rightarrow> (nat \<Rightarrow> 'e option) \<Rightarrow> wakeup list \<Rightarrow> tt_world \<Rightarrow>
   ('e lock_result \<times> wakeup list \<times> tt_world) option" where
  "lock_trigger_ready i timeout now poll ks w =
     (case lock_request i timeout w of
        (LockGranted, w') \<Rightarrow> Some (Locked, ks, w')
      | (LockRefused, w') \<Rightarrow> Some (NotReady, ks, w')
      | (LockWaiting, w') \<Rightarrow>
          (case wait_trigger_ready i timeout now poll ks w' of
             None \<Rightarrow> None
           | Some (Locked, ks', w'') \<Rightarrow> Some (Locked, ks', w'')
           | Some (AssertFailed, ks', w'') \<Rightarrow> Some (AssertFailed, ks', w'')
           | Some (e, ks', w'') \<Rightarrow> Some (e, ks', decrement_trigger_lock_count i w'')))"

section \<open>The wait ends\<close>

lemma pwait_Some:
  "\<exists>k \<in> set ks. timed_out k \<Longrightarrow> pwait_until_ready i ks w \<noteq> None"
proof (induction ks arbitrary: w)
  case (Cons k ks)
  then show ?case by (cases "timed_out k") (auto simp: Let_def)
qed simp

definition timeouts :: "wakeup list \<Rightarrow> nat" where
  "timeouts ks = length (filter timed_out ks)"

lemma timeouts_simps [simp]: "timeouts [] = 0"
  "timeouts (k # ks) = (if timed_out k then Suc (timeouts ks) else timeouts ks)"
  by (simp_all add: timeouts_def)

lemma timeouts_pos: "0 < timeouts ks \<Longrightarrow> \<exists>k \<in> set ks. timed_out k"
  by (induction ks) (auto split: if_splits)

lemma pwait_timeouts:
  "pwait_until_ready i ks w = Some (False, ks', w') \<Longrightarrow> timeouts ks = Suc (timeouts ks')"
  by (induction i ks w rule: pwait_until_ready.induct) (auto simp: Let_def split: if_splits)

lemma pwait_ready:
  "pwait_until_ready i ks w = Some (r, ks', w') \<Longrightarrow> r = check_trigger_ready i w'"
  by (induction i ks w rule: pwait_until_ready.induct) (auto simp: Let_def split: if_splits)

text \<open>After \<open>m\<close> periods the tick reaches the final deadline.\<close>

lemma wait_ticks_returns:
  assumes "normal_ts tick" "normal_ts delta" "normal_ts final_deadline" "0 < ns_of delta"
    and "ns_of final_deadline - ns_of tick \<le> int (Suc m) * ns_of delta" "m < timeouts ks"
  shows "\<exists>r ks' w'. wait_ticks i poll delta final_deadline n tick ks w = Some (r, ks', w') \<and> r \<noteq> AssertFailed"
  using assms
proof (induction m arbitrary: n tick ks w)
  case 0
  let ?next = "earliest_timespec (add_timespec tick delta) final_deadline"
  have nx: "normal_ts ?next" using 0 by (intro mbf_inv)
  have "ns_of ?next = ns_of final_deadline" using 0 by (simp add: ns_of_earliest mbf_inv)
  then have eq: "compare_timespec_eq ?next final_deadline"
    using compare_eq_ns[OF nx 0(3)] by simp
  obtain r ks' w' where "pwait_until_ready i ks w = Some (r, ks', w')"
    using pwait_Some[OF timeouts_pos, of ks i w] 0 by auto
  with eq nx show ?case
    by (subst wait_ticks.simps) (auto simp: valid_deadline_def normal_ts_def Let_def)
next
  case (Suc m)
  let ?next = "earliest_timespec (add_timespec tick delta) final_deadline"
  have nx: "normal_ts ?next" using Suc.prems by (intro mbf_inv)
  have ns: "ns_of ?next = min (ns_of tick + ns_of delta) (ns_of final_deadline)"
    using Suc.prems by (simp add: ns_of_earliest mbf_inv)
  obtain r ks' w' where pw: "pwait_until_ready i ks w = Some (r, ks', w')"
    using pwait_Some[OF timeouts_pos, of ks i w] Suc.prems(6) by auto
  show ?case
  proof (cases "r \<or> compare_timespec_eq ?next final_deadline \<or> poll n \<noteq> None")
    case True
    then show ?thesis using pw nx
      by (subst wait_ticks.simps) (auto simp: valid_deadline_def normal_ts_def Let_def)
  next
    case False
    then have "ns_of ?next = ns_of tick + ns_of delta"
      using ns compare_eq_ns[OF nx Suc.prems(3)] by (simp split: if_splits add: min_def)
    then have "ns_of final_deadline - ns_of ?next \<le> int (Suc m) * ns_of delta"
      using Suc.prems(5) by (simp add: algebra_simps)
    moreover have "m < timeouts ks'" using pwait_timeouts[of i ks w ks' w'] pw False Suc.prems(6) by simp
    ultimately obtain q where
      "wait_ticks i poll delta final_deadline (Suc n) ?next ks' w' = Some q \<and> fst q \<noteq> AssertFailed"
      using Suc.IH[OF nx Suc.prems(2-4), of ks' "Suc n" w'] by auto
    with False pw nx show ?thesis
      by (subst wait_ticks.simps) (cases q, auto simp: valid_deadline_def normal_ts_def Let_def)
  qed
qed

lemma wait_trigger_ready_returns:
  assumes "normal_ts now" "uint timeout < 2 ^ 31" "unat timeout div 10000 < timeouts ks"
  shows "\<exists>r ks' w'. wait_trigger_ready i timeout now poll ks w = Some (r, ks', w') \<and> r \<noteq> AssertFailed"
proof -
  have "- (2 ^ 31) \<le> uint timeout" by (rule order_trans[of _ 0]) simp_all
  then have st: "sint timeout = uint timeout"
    using signed_take_bit_int_eq_self[of 31 "uint timeout"] assms(2) by (simp add: sint_uint)
  let ?iv = "interval_to_timespec (sint timeout) MSECS"
  let ?delta = "interval_to_timespec POLL_INTERVAL 1"
  have iv: "normal_ts ?iv" "ns_of ?iv = uint timeout * 1000000"
    using st by (simp_all add: mbf_inv ns_of_interval MSECS_def NSECS_def)
  have delta: "normal_ts ?delta" "ns_of ?delta = 10000000000"
    by (simp_all add: mbf_inv ns_of_interval POLL_INTERVAL_def NSECS_def)
  have bound: "int n * 1000000 \<le> int (Suc (n div 10000)) * 10000000000" for n
  proof -
    have "n mod 10000 < 10000" by simp
    then have "n \<le> (n div 10000) * 10000 + 10000"
      using div_mult_mod_eq[of n 10000] by linarith
    then have "int n \<le> int ((n div 10000) * 10000 + 10000)" by (simp only: of_nat_le_iff)
    then show ?thesis by (simp del: of_nat_div)
  qed
  have "uint timeout * 1000000 \<le> int (Suc (unat timeout div 10000)) * 10000000000"
    using bound[of "unat timeout"] by simp
  then show ?thesis
    unfolding wait_trigger_ready_def Let_def
    using assms iv delta
    by (intro wait_ticks_returns[where m = "unat timeout div 10000"]) (simp_all add: mbf_inv)
qed

end
