(* ===== verification/Trigger_Properties.thy ===== *)
theory Trigger_Properties
  imports Triggers Trigger_Locks
begin

text \<open>
  What the trigger system promises: properties of every run of user operations and dispatched
  interrupt events from the initialised state, of arming and unlocking, and of the readout lock.
\<close>

section \<open>Runs\<close>

text \<open>
  A step of the whole system: an atomic operation, or one interrupt mask passed by the events
  thread through the registered handler.
\<close>

datatype trig_event = Op tt_op | Interrupt interrupts

definition trigger_handlers :: "'d system_config \<Rightarrow> tt_world event_handler list option" where
  "trigger_handlers cfg =
     register_event_handler INTERRUPT_HANDLER_TRIGGER (trigger_handler_interrupts (lmbf_mode cfg))
       dispatch_target_events initial_handlers"

fun trig_step :: "'d system_config \<Rightarrow> trig_event \<Rightarrow> tt_world \<Rightarrow> tt_world" where
  "trig_step cfg (Op x) w = tt_step x w"
| "trig_step cfg (Interrupt ints) w =
     (case trigger_handlers cfg of None \<Rightarrow> w | Some hs \<Rightarrow> dispatch_event hs ints w)"

definition trig_run :: "'d system_config \<Rightarrow> trig_event list \<Rightarrow> tt_world" where
  "trig_run cfg es = fold (trig_step cfg) es (start_world cfg)"

lemma trig_step_interrupt:
  "trig_step cfg (Interrupt ints) w =
     (if test_intersect (trigger_handler_interrupts (lmbf_mode cfg)) ints
      then dispatch_target_events (intersect_interrupts (trigger_handler_interrupts (lmbf_mode cfg)) ints) w
      else w)"
  by (simp add: trigger_handlers_def register_event_handler_def initial_handlers_def
      MAX_EVENT_HANDLERS_def no_handler_def dispatch_event_def numeral_eq_Suc Let_def
      test_intersect_def test_interrupts_def intersect_interrupts_def)

lemma trig_run_invariant:
  assumes "P (start_world cfg)" and "\<And>x w. P w \<Longrightarrow> P (tt_step x w)"
    and "\<And>ints w. P w \<Longrightarrow> P (dispatch_target_events ints w)"
  shows "P (trig_run cfg es)"
  unfolding trig_run_def
proof (rule fold_invariant[where P = P])
  fix e w assume "P w"
  then show "P (trig_step cfg e w)"
    by (cases e) (use assms in \<open>simp_all add: trig_step_interrupt del: trig_step.simps(2)\<close>)
qed (rule assms(1))

lemma coherent_trig_run: "coherent (trig_run cfg es)"
  by (rule trig_run_invariant) (simp_all add: mbf_inv coherent_step)

section \<open>The published shared state\<close>

text \<open>C3 In every state the system can reach the published shared state says what the shared
  targets are doing: idle exactly when they all are, armed exactly when there are some and all are
  armed, locked exactly when at least one is locked and the others are idle or locked.\<close>

theorem shared_state_meaning:
  "let w = trig_run cfg es; st = (\<lambda>i. trigger_target_get_state i w); S = filter (is_shared w) all_targets
    in (shared_state w = SHARED_IDLE \<longleftrightarrow> list_all (\<lambda>i. st i = TARGET_IDLE) S) \<and>
       (shared_state w = SHARED_ARMED \<longleftrightarrow> S \<noteq> [] \<and> list_all (\<lambda>i. st i = TARGET_ARMED) S) \<and>
       (shared_state w = SHARED_LOCKED \<longleftrightarrow> list_ex (\<lambda>i. st i = TARGET_LOCKED) S \<and>
          list_all (\<lambda>i. st i = TARGET_IDLE \<or> st i = TARGET_LOCKED) S)"
proof -
  let ?w = "trig_run cfg es"
  have "shared_state ?w = global_of (targets ?w)"
    using coherent_trig_run by (simp add: coherent_def compute_global_state_eq)
  then show ?thesis
    by (simp add: Let_def global_idle_iff global_armed_iff global_locked_iff list_all_iff list_ex_iff
        is_shared_def trigger_target_get_state_def shared_has_def filter_empty_conv Bex_def)
qed

section \<open>Pending shared arms\<close>

lemma not_stranded_unless_changed:
  "shared_state w' \<noteq> SHARED_LOCKED \<Longrightarrow> arm_not_stranded w'"
  by (simp add: arm_not_stranded_def)

lemma not_stranded_target_change:
  assumes "arm_not_stranded w" "\<And>j. tmode (t' j) = tmode (targets w j)"
    "\<And>j. lock_count (t' j) = lock_count (targets w j)" "targets w' = t'" "shared_state w' = shared_state w"
  shows "arm_not_stranded w'"
  using assms by (intro not_stranded_cong[of w' w]) simp_all

lemma not_stranded_arm_target [mbf_inv]: "arm_not_stranded w \<Longrightarrow> arm_not_stranded (arm_target i w)"
proof (cases "is_shared w i")
  case True
  then show "arm_not_stranded w \<Longrightarrow> ?thesis" by (simp add: arm_target_def not_stranded_arm_shared)
next
  case False
  then show "arm_not_stranded w \<Longrightarrow> ?thesis"
    by (rule_tac not_stranded_cong[of _ w])
      (auto simp: shared_state_arm_target_alone targets_arm_target_alone)
qed

lemma not_stranded_disarm_target [mbf_inv]:
  "arm_not_stranded w \<Longrightarrow> arm_not_stranded (disarm_target i w)"
proof (cases "is_shared w i")
  case True
  then show "arm_not_stranded w \<Longrightarrow> ?thesis"
    by (simp add: disarm_target_def disarm_shared_targets_def not_stranded_update_global)
next
  case False
  then show "arm_not_stranded w \<Longrightarrow> ?thesis"
    by (rule_tac not_stranded_cong[of _ w]) (auto simp: targets_disarm_target_alone)
qed

lemma not_stranded_set_state [mbf_inv]:
  "arm_not_stranded w \<Longrightarrow> arm_not_stranded (set_target_state i st w)"
  "arm_not_stranded w \<Longrightarrow> arm_not_stranded (emit cs w)"
  "arm_not_stranded w \<Longrightarrow> arm_not_stranded (upd_target i (\<lambda>t. t\<lparr>dont_rearm := b\<rparr>) w)"
  by (rule not_stranded_cong[of _ w]; auto)+

lemma not_stranded_trigger [mbf_inv]:
  "arm_not_stranded w \<Longrightarrow> arm_not_stranded (trigger_target_trigger i w)"
  by (simp add: trigger_target_trigger_def Let_def not_stranded_update_global mbf_inv)

lemma not_stranded_complete [mbf_inv]:
  "arm_not_stranded w \<Longrightarrow> arm_not_stranded (trigger_target_complete i w)"
  unfolding trigger_target_complete_def Let_def
  by (auto intro!: not_stranded_update_global mbf_inv)

lemma is_shared_upd_count [simp]:
  "is_shared (upd_target i (\<lambda>t. t\<lparr>lock_count := f t\<rparr>) w) = is_shared w"
  by (auto simp: is_shared_def fun_eq_iff)

lemma not_stranded_decrement [mbf_inv]:
  assumes "arm_not_stranded w" shows "arm_not_stranded (decrement_trigger_lock_count i w)"
proof -
  let ?w = "upd_target i (\<lambda>t. t\<lparr>lock_count := lock_count t - 1\<rparr>) w"
  consider (more) "lock_count (targets ?w i) \<noteq> 0" | (shared) "is_shared ?w i"
    | (alone) "\<not> is_shared w i" by auto
  then show ?thesis
  proof cases
    case more
    have "arm_not_stranded ?w"
      by (rule not_stranded_cong[OF _ _ _ assms]) (use more in \<open>auto simp: word_gt_0\<close>)
    with more show ?thesis by (simp add: decrement_trigger_lock_count_def Let_def)
  next
    case shared
    have "arm_not_stranded ?w" if "lock_count (targets ?w i) \<noteq> 0"
      by (rule not_stranded_cong[OF _ _ _ assms]) (use that in \<open>auto simp: word_gt_0\<close>)
    with shared show ?thesis
      by (auto simp: decrement_trigger_lock_count_def process_target_unlocked_def Let_def
          not_stranded_update_global)
  next
    case alone
    have "arm_not_stranded ?w"
      using assms alone by (auto simp: arm_not_stranded_def any_locked_targets_eq is_shared_def)
    with alone show ?thesis
      by (auto simp: decrement_trigger_lock_count_def process_target_unlocked_def Let_def intro!: mbf_inv)
  qed
qed

lemma not_stranded_increment [mbf_inv]:
  assumes "arm_not_stranded w" "lock_count (targets w i) \<noteq> - 1"
  shows "arm_not_stranded (increment_trigger_lock_count i w)"
proof -
  have "lock_count (targets w i) + 1 \<noteq> 0" using assms(2) by (simp add: eq_neg_iff_add_eq_0)
  then show ?thesis
    by (intro not_stranded_cong[OF _ _ _ assms(1)])
      (auto simp: increment_trigger_lock_count_def word_gt_0)
qed

lemma not_stranded_step:
  assumes "arm_not_stranded w" "\<And>i. lock_count (targets w i) \<noteq> - 1"
  shows "arm_not_stranded (tt_step op w)"
proof (cases op)
  case (OpLock i timeout)
  then show ?thesis using assms by (simp add: lock_request_def mbf_inv)
next
  case (OpSetMode i m)
  have "arm_not_stranded (update_global_state (upd_target i (\<lambda>t. t\<lparr>tmode := m\<rparr>) w))"
    by (rule not_stranded_update_global)
  then show ?thesis
    using OpSetMode by (simp add: trigger_target_set_mode_def update_shared_targets_def mbf_inv)
next
  case (OpSharedMode m)
  have "arm_not_stranded (shared_trigger_set_mode m w)"
    by (rule not_stranded_cong[OF _ _ _ assms(1)]) (simp_all add: shared_trigger_set_mode_def)
  then show ?thesis using OpSharedMode by simp
next
  case OpCapture
  then show ?thesis using assms
    by (auto simp: immediate_memory_capture_def Let_def intro!: not_stranded_update_global mbf_inv)
qed (use assms in \<open>simp_all add: trigger_target_arm_def trigger_target_disarm_def
  shared_trigger_target_arm_def shared_trigger_target_disarm_def unlock_trigger_ready_def
  disarm_shared_targets_def not_stranded_arm_shared not_stranded_update_global mbf_inv\<close>)

lemma not_stranded_dispatch:
  "arm_not_stranded w \<Longrightarrow> arm_not_stranded (dispatch_target_events ints w)"
  unfolding dispatch_target_events_def
  by (rule fold_invariant)
    (auto simp: dispatch_one_def Let_def update_trigger_sources_def intro!: mbf_inv)

text \<open>No lock count is ever at its maximum: fewer than \<open>2 ^ 32 - 1\<close> readers at any time.\<close>

definition counts_below_max :: "'d system_config \<Rightarrow> trig_event list \<Rightarrow> bool" where
  "counts_below_max cfg es \<longleftrightarrow>
     list_all (\<lambda>k. list_all (\<lambda>i. lock_count (targets (trig_run cfg (take k es)) i) \<noteq> - 1) all_targets)
       [0..<length es]"

lemma counts_below_max_snoc:
  "counts_below_max cfg (es @ [e]) \<longleftrightarrow>
     counts_below_max cfg es \<and> (\<forall>i. lock_count (targets (trig_run cfg es) i) \<noteq> - 1)"
  by (auto simp: counts_below_max_def list_all_iff less_Suc_eq)

text \<open>Whenever the published state is Locked some shared target has a reader.\<close>

lemma reachable_not_stranded:
  assumes "counts_below_max cfg es"
  shows "shared_state (trig_run cfg es) = SHARED_LOCKED \<Longrightarrow> any_locked_targets (trig_run cfg es)"
proof -
  have "arm_not_stranded (trig_run cfg es)" using assms
  proof (induction es rule: rev_induct)
    case Nil
    show ?case by (simp add: trig_run_def arm_not_stranded_def)
  next
    case (snoc e es)
    then have "arm_not_stranded (trig_run cfg es)" "\<And>i. lock_count (targets (trig_run cfg es) i) \<noteq> - 1"
      by (simp_all add: counts_below_max_snoc)
    then have "arm_not_stranded (trig_step cfg e (trig_run cfg es))"
      by (cases e) (simp_all add: not_stranded_step not_stranded_dispatch trig_step_interrupt
          del: trig_step.simps(2))
    then show ?case by (simp add: trig_run_def)
  qed
  then show "shared_state (trig_run cfg es) = SHARED_LOCKED \<Longrightarrow> any_locked_targets (trig_run cfg es)"
    by (simp add: arm_not_stranded_def)
qed

definition sample_config :: "nat system_config" where
  "sample_config = \<lparr>device_address = ''pci-0000:04:00.0'', epics_name = ''TS-DI-TMBF-01'',
     axis0_name = ''X'', axis1_name = ''Y'', bunches_per_turn = 936, lmbf_mode = False,
     lmbf_fir_offset = 0, revolution_frequency = 533830, mms_poll_interval = 200000,
     persistence_file = ''persist'', persistence_interval = 5, pv_log_array_length = 10,
     archive_interval = 300, memory_readout_length = 16384, detector_length = 4096,
     data_port = 8888, tune_pll_length = 4096\<rparr>"

definition pending_arm_run :: "trig_event list" where
  "pending_arm_run = [Op (OpSetMode TRIGGER_SEQ0 MODE_SHARED), Op (OpLock TRIGGER_SEQ0 0),
     Op OpSharedArm]"

lemma pending_arm_facts:
  "counts_below_max sample_config pending_arm_run" "shared_state (trig_run sample_config pending_arm_run) = SHARED_LOCKED"
proof -
  note defs = trig_run_def pending_arm_run_def tt_eval start_world_eval null_target_def config_of_def
  show "counts_below_max sample_config pending_arm_run" by (simp add: counts_below_max_def numeral_eq_Suc defs)
  show "shared_state (trig_run sample_config pending_arm_run) = SHARED_LOCKED" by (simp add: defs)
qed

section \<open>No call through a null method\<close>

text \<open>The methods of every created target are in place, and only created targets are shared.\<close>

definition methods_ok :: "'d system_config \<Rightarrow> tt_world \<Rightarrow> bool" where
  "methods_ok cfg w \<longleftrightarrow> NullMethod \<notin> set (calls w) \<and>
     (\<forall>i. config (targets w i) = config_of cfg i \<and> (is_shared w i \<longrightarrow> created cfg i))"

lemma config_of_created: "created cfg i \<Longrightarrow> \<exists>c. config_of cfg i = Some c \<and>
    NullMethod \<notin> set (prepare_target c) \<and> NullMethod \<notin> set (stop_target_calls c)"
  by (auto simp: config_of_def mem_config_def seq_config_def prepare_mem_target_def
      prepare_seq_target_def stop_mem_target_def stop_seq_target_def)

lemma methods_emit: "methods_ok cfg w \<Longrightarrow> NullMethod \<notin> set cs \<Longrightarrow> methods_ok cfg (emit cs w)"
  by (auto simp: methods_ok_def is_shared_def)

lemma methods_emit_one [mbf_inv]:
  "methods_ok cfg w \<Longrightarrow> c \<noteq> NullMethod \<Longrightarrow> methods_ok cfg (emit [c] w)"
  by (simp add: methods_emit)

lemma methods_upd [mbf_inv]:
  assumes "methods_ok cfg w" "\<And>t. config (f t) = config t" "\<And>t. tmode (f t) = tmode t"
  shows "methods_ok cfg (upd_target i f w)"
  using assms by (auto simp: methods_ok_def is_shared_def)

lemma methods_config: "methods_ok cfg w \<Longrightarrow> config (targets w i) = config_of cfg i"
  by (simp add: methods_ok_def)

lemma methods_set_state [mbf_inv]:
  assumes "methods_ok cfg w" "created cfg i"
  shows "methods_ok cfg (set_target_state i st w)"
proof -
  obtain c where c: "config (targets w i) = Some c"
    using methods_config[OF assms(1), of i] config_of_created[OF assms(2)] by auto
  have "methods_ok cfg (upd_target i (\<lambda>t. t\<lparr>tstate := st\<rparr>) w)"
    by (rule methods_upd[OF assms(1)]) simp_all
  then show ?thesis
    using assms(1) c by (simp add: set_target_state_def methods_emit)
qed

lemma methods_fields [simp]:
  "methods_ok cfg (w\<lparr>shared_state := a\<rparr>) = methods_ok cfg w"
  "methods_ok cfg (w\<lparr>shared_dont_rearm := b\<rparr>) = methods_ok cfg w"
  "methods_ok cfg (w\<lparr>retrigger_mode := c\<rparr>) = methods_ok cfg w"
  by (simp_all add: methods_ok_def is_shared_def)

lemma methods_global [mbf_inv]: "methods_ok cfg w \<Longrightarrow> methods_ok cfg (set_global_state st w)"
  by (simp add: set_global_state_def methods_emit_one)

lemma methods_prepare [mbf_inv]:
  "methods_ok cfg w \<Longrightarrow> created cfg i \<Longrightarrow> methods_ok cfg (call_prepare i w)"
  using config_of_created[of cfg i] unfolding call_prepare_def
  by (intro methods_emit) (auto simp: methods_ok_def)

lemma methods_hardware [mbf_inv]:
  "methods_ok cfg w \<Longrightarrow> methods_ok cfg (do_arm_target_hardware i w)"
  "methods_ok cfg w \<Longrightarrow> methods_ok cfg (do_arm_shared_hardware w)"
  "methods_ok cfg w \<Longrightarrow> methods_ok cfg (do_disarm_target_hardware i w)"
  "methods_ok cfg w \<Longrightarrow> methods_ok cfg (do_disarm_shared_hardware w)"
  by (simp_all add: do_arm_target_hardware_def do_arm_shared_hardware_def
      do_disarm_target_hardware_def do_disarm_shared_hardware_def methods_emit_one)

lemma methods_for_shared [mbf_inv]:
  assumes "methods_ok cfg w"
    and "\<And>i w. methods_ok cfg w \<Longrightarrow> created cfg i \<Longrightarrow> methods_ok cfg (f i w)"
  shows "methods_ok cfg (for_shared_targets f w)"
  unfolding for_shared_targets_def
proof (rule fold_invariant)
  fix i w assume m: "methods_ok cfg w"
  then have "is_shared w i \<Longrightarrow> created cfg i" by (simp add: methods_ok_def)
  then show "methods_ok cfg (if is_shared w i then f i w else w)" using m assms(2) by presburger
qed (rule assms(1))

lemma methods_do_arm [mbf_inv]:
  "methods_ok cfg w \<Longrightarrow> created cfg i \<Longrightarrow> methods_ok cfg (snd (do_arm_target i w))"
  by (simp add: do_arm_target_def methods_set_state methods_prepare methods_upd)

lemma methods_stop: "methods_ok cfg w \<Longrightarrow> created cfg i \<Longrightarrow> methods_ok cfg (snd (call_stop i w))"
  using config_of_created[of cfg i]
  by (auto simp: call_stop_def methods_config intro: methods_emit)

lemma methods_do_disarm [mbf_inv]:
  assumes "methods_ok cfg w" "created cfg i"
  shows "methods_ok cfg (do_disarm_target i w)"
proof -
  let ?w = "upd_target i (\<lambda>t. t\<lparr>dont_rearm := True\<rparr>) w"
  have "methods_ok cfg ?w" by (rule methods_upd[OF assms(1)]) simp_all
  moreover from this have "methods_ok cfg (snd (call_stop i ?w))"
    using assms(2) by (rule methods_stop)
  ultimately show ?thesis using assms(2)
    unfolding do_disarm_target_def Let_def by (auto split: prod.split intro: methods_set_state)
qed

lemma methods_arm_shared [mbf_inv]:
  assumes "methods_ok cfg w" shows "methods_ok cfg (arm_shared_targets w)"
proof -
  have "methods_ok cfg (for_shared_targets (\<lambda>i w. if lock_count (targets w i) > 0
      then set_target_state i TARGET_LOCKED w else w) (w\<lparr>shared_dont_rearm := False\<rparr>))"
    by (rule methods_for_shared) (use assms in \<open>auto intro: methods_set_state\<close>)
  moreover have "methods_ok cfg (for_shared_targets (\<lambda>i w. snd (do_arm_target i w))
      (w\<lparr>shared_dont_rearm := False\<rparr>))"
    by (rule methods_for_shared) (use assms in \<open>auto intro: methods_do_arm\<close>)
  ultimately show ?thesis
    using assms by (simp add: arm_shared_targets_def Let_def methods_emit_one methods_global methods_hardware)
qed

lemma methods_update_global [mbf_inv]: "methods_ok cfg w \<Longrightarrow> methods_ok cfg (update_global_state w)"
  by (simp add: update_global_state_def Let_def methods_arm_shared methods_global)

lemma methods_disarm_shared [mbf_inv]: "methods_ok cfg w \<Longrightarrow> methods_ok cfg (disarm_shared_targets w)"
  unfolding disarm_shared_targets_def
  by (intro methods_update_global methods_for_shared methods_hardware methods_do_disarm) simp_all

lemma methods_arm [mbf_inv]:
  assumes "methods_ok cfg w" "created cfg i" shows "methods_ok cfg (arm_target i w)"
proof -
  have "methods_ok cfg (snd (do_arm_target i w))" using assms by (rule methods_do_arm)
  then show ?thesis using assms(1)
    by (auto simp: arm_target_def split: prod.split intro: methods_hardware methods_arm_shared)
qed

lemma methods_disarm [mbf_inv]:
  "methods_ok cfg w \<Longrightarrow> created cfg i \<Longrightarrow> methods_ok cfg (disarm_target i w)"
  by (simp add: disarm_target_def methods_disarm_shared methods_do_disarm methods_hardware)

lemma methods_trigger [mbf_inv]:
  "methods_ok cfg w \<Longrightarrow> created cfg i \<Longrightarrow> methods_ok cfg (trigger_target_trigger i w)"
  by (simp add: trigger_target_trigger_def Let_def methods_update_global methods_set_state methods_emit_one)

lemma methods_complete [mbf_inv]:
  "methods_ok cfg w \<Longrightarrow> created cfg i \<Longrightarrow> methods_ok cfg (trigger_target_complete i w)"
  unfolding trigger_target_complete_def Let_def
  by (auto intro!: methods_update_global methods_set_state methods_emit_one methods_arm)

lemma methods_decrement [mbf_inv]:
  assumes "methods_ok cfg w" "created cfg i"
  shows "methods_ok cfg (decrement_trigger_lock_count i w)"
proof -
  have "methods_ok cfg (upd_target i (\<lambda>t. t\<lparr>lock_count := lock_count t - 1\<rparr>) w)"
    by (rule methods_upd[OF assms(1)]) simp_all
  then show ?thesis using assms(2)
    unfolding decrement_trigger_lock_count_def process_target_unlocked_def Let_def
    by (auto intro: methods_update_global methods_arm)
qed

text \<open>User operations exist only for the targets whose records were created.\<close>

fun op_created :: "'d system_config \<Rightarrow> tt_op \<Rightarrow> bool" where
  "op_created cfg (OpArm i) = created cfg i"
| "op_created cfg (OpDisarm i) = created cfg i"
| "op_created cfg (OpTrigger i) = created cfg i"
| "op_created cfg (OpComplete i) = created cfg i"
| "op_created cfg (OpSetMode i m) = created cfg i"
| "op_created cfg (OpLock i t) = created cfg i"
| "op_created cfg (OpAbort i) = created cfg i"
| "op_created cfg (OpUnlock i) = created cfg i"
| "op_created cfg _ = True"

fun event_created :: "'d system_config \<Rightarrow> trig_event \<Rightarrow> bool" where
  "event_created cfg (Op x) = op_created cfg x"
| "event_created cfg (Interrupt ints) = True"

lemma methods_step:
  assumes m: "methods_ok cfg w" and "op_created cfg x"
  shows "methods_ok cfg (tt_step x w)"
proof (cases x)
  case (OpSetMode i md)
  have "methods_ok cfg (upd_target i (\<lambda>t. t\<lparr>tmode := md\<rparr>) w)"
    using assms OpSetMode by (auto simp: methods_ok_def is_shared_def)
  then have "methods_ok cfg (update_global_state (upd_target i (\<lambda>t. t\<lparr>tmode := md\<rparr>) w))"
    by (rule methods_update_global)
  then show ?thesis using OpSetMode
    by (simp add: trigger_target_set_mode_def update_shared_targets_def methods_emit_one)
next
  case (OpLock i t)
  have "methods_ok cfg (increment_trigger_lock_count i w)"
    unfolding increment_trigger_lock_count_def by (rule methods_upd[OF m]) simp_all
  then show ?thesis using OpLock m by (simp add: lock_request_def)
next
  case OpCapture
  have c: "created cfg TRIGGER_DRAM" by (simp add: created_def)
  have "methods_ok cfg (upd_target TRIGGER_DRAM (\<lambda>t. t\<lparr>dont_rearm := True\<rparr>)
      (set_target_state TRIGGER_DRAM TARGET_ARMED (emit [HwDramCaptureCommand True False,
                              HwTriggerFire (get_target_mask TRIGGER_DRAM)] w)))" (is "methods_ok cfg ?w")
    by (intro methods_upd methods_set_state methods_emit m c) simp_all
  moreover from this have "methods_ok cfg (update_global_state ?w)" by (rule methods_update_global)
  ultimately show ?thesis using OpCapture m
    by (simp add: immediate_memory_capture_def Let_def methods_emit_one)
qed (use assms in \<open>simp_all add: trigger_target_arm_def trigger_target_disarm_def methods_arm
  methods_disarm methods_trigger methods_complete shared_trigger_target_arm_def methods_arm_shared
  shared_trigger_target_disarm_def methods_disarm_shared shared_trigger_set_mode_def
  methods_decrement unlock_trigger_ready_def\<close>)

lemma dispatch_not_created:
  assumes "\<not> created cfg i"
  shows "dispatch_one (intersect_interrupts (trigger_handler_interrupts (lmbf_mode cfg)) ints) i w = w"
proof -
  have i: "i = TRIGGER_SEQ1" and l: "lmbf_mode cfg" using assms by (auto simp: created_def)
  have "(0x8E :: u32) AND ints AND 0x10 = 0" "(0x8E :: u32) AND ints AND 0x100 = 0"
    by (simp_all add: and.left_commute[of _ ints] and.assoc)
  then show ?thesis
    by (simp add: i l dispatch_one_def handler_interrupts_lmbf seq_trigger_def seq_done_def
        test_intersect_def intersect_interrupts_def test_interrupts_def and.assoc)
qed

lemma methods_dispatch:
  assumes "methods_ok cfg w"
  shows "methods_ok cfg (dispatch_target_events
    (intersect_interrupts (trigger_handler_interrupts (lmbf_mode cfg)) ints) w)"
  unfolding dispatch_target_events_def
proof (rule fold_invariant)
  fix i w assume m: "methods_ok cfg w"
  show "methods_ok cfg (dispatch_one
      (intersect_interrupts (trigger_handler_interrupts (lmbf_mode cfg)) ints) i w)"
  proof (cases "created cfg i")
    case True
    have "methods_ok cfg (trigger_target_trigger i (update_trigger_sources i w))"
      unfolding update_trigger_sources_def
      by (intro methods_trigger methods_emit_one m True) simp
    then show ?thesis using m True by (simp add: dispatch_one_def Let_def methods_complete)
  qed (simp add: dispatch_not_created m)
qed (rule assms)

lemma methods_start: "methods_ok cfg (start_world cfg)"
  by (simp add: methods_ok_def targets_start_world is_shared_def null_target_def)

lemma methods_trig_run:
  assumes "list_all (event_created cfg) es"
  shows "methods_ok cfg (trig_run cfg es)"
  unfolding trig_run_def
proof (rule fold_invariant)
  fix e w assume "e \<in> set es" "methods_ok cfg w"
  moreover have "event_created cfg e" using assms calculation(1) by (simp add: list_all_iff)
  ultimately show "methods_ok cfg (trig_step cfg e w)"
    by (cases e rule: trig_event.exhaust) (simp_all add: trig_step_interrupt methods_step
        methods_dispatch del: trig_step.simps(2))
qed (rule methods_start)

text \<open>No method of a target that was never created is called: in single axis (LMBF) mode the
  second sequencer target has no methods, and no sequence of operations on the created targets
  and of interrupt masks, whatever their bits, reaches it.\<close>

theorem no_null_method:
  assumes "list_all (event_created cfg) es"
  shows "NullMethod \<notin> set (calls (trig_run cfg es))"
  using methods_trig_run[OF assms] by (simp add: methods_ok_def)

lemma no_null_method_witness:
  "NullMethod \<notin> set (calls (trig_run (sample_config\<lparr>lmbf_mode := True\<rparr>)
     [Op (OpSetMode TRIGGER_SEQ0 MODE_SHARED), Op OpSharedArm, Interrupt 0xFFFFFFFF]))"
  by (rule no_null_method) (simp add: created_def)

section \<open>Arming\<close>

text \<open>Arming one target that is not shared: a target that is Idle or Locked and has no readers
  is prepared, then published as Armed, and only then armed in hardware; with readers it becomes
  Locked and neither its methods nor the hardware are touched; an Armed or Busy target is left
  alone.\<close>

theorem arm_single_target:
  assumes "\<not> is_shared w i" "config (targets w i) = Some c"
  shows "trigger_target_arm i w =
    (if \<not> check_trigger_ready i w then w
     else if lock_count (targets w i) = 0
     then w\<lparr>targets := (targets w)(i := (targets w i)\<lparr>dont_rearm := False, tstate := TARGET_ARMED\<rparr>),
            calls := calls w @ prepare_target c @ [SetTargetState i TARGET_ARMED,
                       HwTriggerArm (get_target_mask i)]\<rparr>
     else set_target_state i TARGET_LOCKED w)"
  using assms
  by (auto simp: trigger_target_arm_def arm_target_def do_arm_target_def check_trigger_ready_def
      set_target_state_def call_prepare_def emit_def upd_target_def do_arm_target_hardware_def)

lemma arm_single_target_witness:
  "\<not> is_shared (start_world sample_config) TRIGGER_SEQ1 \<and>
   calls (trigger_target_arm TRIGGER_SEQ1 (start_world sample_config)) =
     [ResetTriggerSources TRIGGER_SEQ1, PrepareSequencer 1, PrepareDetector 1,
      SetTargetState TRIGGER_SEQ1 TARGET_ARMED, HwTriggerArm [False, True, False]]"
proof -
  note defs = start_world_eval null_target_def config_of_def created_def sample_config_def
  have a: "\<not> is_shared (start_world sample_config) TRIGGER_SEQ1"
    by (simp add: is_shared_def defs)
  have b: "config (targets (start_world sample_config) TRIGGER_SEQ1) =
      Some (seq_config sample_config TRIGGER_SEQ1)"
    by (simp add: defs)
  show ?thesis using a arm_single_target[OF a b]
    by (simp add: check_trigger_ready_def defs seq_config_def prepare_seq_target_def seq_axis_def
        get_target_mask_def all_targets_def)
qed

text \<open>The calls that arming the shared targets makes, in the order the code makes them.\<close>

definition shared_arm_calls :: "tt_world \<Rightarrow> call list" where
  "shared_arm_calls w =
     concat (map (\<lambda>i. (case config (targets w i) of None \<Rightarrow> [] | Some c \<Rightarrow> prepare_target c) @
                     [SetTargetState i TARGET_ARMED])
               (filter (is_shared w) all_targets)) @
     [HwTriggerArm (get_shared_mask w), SetSharedState SHARED_ARMED]"

lemma calls_do_arm_target:
  assumes "ready_t (targets w i)" "lock_count (targets w i) = 0" "config (targets w i) \<noteq> None"
  shows "calls (snd (do_arm_target i w)) = calls w @
    (case config (targets w i) of None \<Rightarrow> [] | Some c \<Rightarrow> prepare_target c) @ [SetTargetState i TARGET_ARMED]"
  using assms
  by (auto simp: ready_t_def do_arm_target_def set_target_state_def call_prepare_def split: option.split)

lemma calls_shared_arm:
  assumes "\<And>i. is_shared w i \<Longrightarrow> ready_t (targets w i) \<and> lock_count (targets w i) = 0 \<and>
      config (targets w i) \<noteq> None"
  shows "calls (for_shared_targets (\<lambda>i w. snd (do_arm_target i w)) w) = calls w @
    concat (map (\<lambda>i. (case config (targets w i) of None \<Rightarrow> [] | Some c \<Rightarrow> prepare_target c) @
        [SetTargetState i TARGET_ARMED]) (filter (is_shared w) all_targets))"
  using assms[of TRIGGER_SEQ0] assms[of TRIGGER_SEQ1] assms[of TRIGGER_DRAM]
  by (simp add: for_shared_targets_def all_targets_def calls_do_arm_target is_shared_def
      snd_do_arm_target)

lemma reachable_idle_ready:
  assumes "shared_state (trig_run cfg es) = SHARED_IDLE \<or> shared_state (trig_run cfg es) = SHARED_LOCKED"
    and "is_shared (trig_run cfg es) i"
  shows "ready_t (targets (trig_run cfg es) i)"
  using coherent_trig_run[of cfg es] assms global_ready[of "targets (trig_run cfg es)" i]
  by (auto simp: coherent_def compute_global_state_eq is_shared_def ready_t_def)

lemma no_hw_arm_lock_shared:
  "set (calls (for_shared_targets (\<lambda>i w. if lock_count (targets w i) > 0
      then set_target_state i TARGET_LOCKED w else w) w))
    \<subseteq> set (calls w) \<union> {SetTargetState i TARGET_LOCKED |i. True} \<union> {NullMethod}"
  by (auto simp: for_shared_targets_def all_targets_def set_target_state_def split: if_splits option.splits)

text \<open>With a reader on any shared target, arming the shared targets arms none of them: in a
  state where no shared target is armed or busy, those with readers are Locked, the others stay as
  they are, the request is recorded by the Locked shared state and the hardware is not armed.\<close>

theorem shared_arm_held_by_reader:
  assumes "shared_state w = SHARED_IDLE \<or> shared_state w = SHARED_LOCKED" "any_locked_targets w"
  shows "shared_state (shared_trigger_target_arm w) = SHARED_LOCKED \<and>
    targets (shared_trigger_target_arm w) = (\<lambda>i. if is_shared w i \<and> lock_count (targets w i) > 0
       then (targets w i)\<lparr>tstate := TARGET_LOCKED\<rparr> else targets w i) \<and>
    set (calls (shared_trigger_target_arm w)) \<subseteq> set (calls w) \<union>
       {SetTargetState i TARGET_LOCKED |i. True} \<union> {SetSharedState SHARED_LOCKED, NullMethod}"
proof -
  have t: "targets (shared_trigger_target_arm w) = map_shared lock_t (targets w)"
    using assms by (simp add: shared_trigger_target_arm_def targets_arm_shared arm_shared_ts_def
        any_locked_targets_eq)
  have c: "calls (shared_trigger_target_arm w) = calls (set_global_state SHARED_LOCKED
      (for_shared_targets (\<lambda>i w. if lock_count (targets w i) > 0
         then set_target_state i TARGET_LOCKED w else w) (w\<lparr>shared_dont_rearm := False\<rparr>)))"
    using assms
    by (auto simp: shared_trigger_target_arm_def arm_shared_targets_def any_locked_targets_eq Let_def)
  have "set (calls (shared_trigger_target_arm w)) \<subseteq> set (calls w) \<union>
       {SetTargetState i TARGET_LOCKED |i. True} \<union> {SetSharedState SHARED_LOCKED, NullMethod}"
    unfolding c using no_hw_arm_lock_shared[of "w\<lparr>shared_dont_rearm := False\<rparr>"]
    by (auto simp: set_global_state_def)
  then show ?thesis using t assms
    by (auto simp: shared_trigger_target_arm_def shared_state_arm_shared map_shared_def lock_t_def
        is_shared_def fun_eq_iff)
qed

lemma shared_arm_held_by_reader_witness:
  "\<forall>m. HwTriggerArm m \<notin> set (calls (shared_trigger_target_arm (trig_run sample_config pending_arm_run)))"
proof (rule allI)
  fix m
  note defs = trig_run_def pending_arm_run_def tt_eval start_world_eval null_target_def config_of_def
  have l: "shared_state (trig_run sample_config pending_arm_run) = SHARED_LOCKED"
    by (simp add: defs)
  have k: "any_locked_targets (trig_run sample_config pending_arm_run)" by (simp add: defs)
  have "HwTriggerArm m \<notin> set (calls (trig_run sample_config pending_arm_run))" by (simp add: defs)
  then show "HwTriggerArm m \<notin> set (calls (shared_trigger_target_arm (trig_run sample_config pending_arm_run)))"
    using shared_arm_held_by_reader[OF disjI2[OF l] k] by auto
qed

text \<open>C5 With no readers, arming the shared targets arms all of them: in any reachable state where
  no shared target is armed or busy, each shared target is prepared and published as Armed, then
  one write arms exactly the shared targets in hardware, and the others do not change.\<close>

theorem shared_arm_together:
  assumes "list_all (event_created cfg) es" "w = trig_run cfg es"
    and "shared_state w = SHARED_IDLE \<or> shared_state w = SHARED_LOCKED"
    and "any_shared_targets w" "\<not> any_locked_targets w"
  shows "shared_state (shared_trigger_target_arm w) = SHARED_ARMED \<and>
    targets (shared_trigger_target_arm w) = (\<lambda>i. if is_shared w i
       then (targets w i)\<lparr>dont_rearm := False, tstate := TARGET_ARMED\<rparr> else targets w i) \<and>
    calls (shared_trigger_target_arm w) = calls w @ shared_arm_calls w"
proof -
  let ?w = "w\<lparr>shared_dont_rearm := False\<rparr>"
  have sh: "is_shared ?w = is_shared w" by (simp add: is_shared_def fun_eq_iff)
  have nl: "\<not> any_locked_targets ?w" "any_shared_targets ?w"
    using assms(4,5) by (auto simp: any_locked_targets_eq any_shared_targets_eq)
  have r: "ready_t (targets w i) \<and> lock_count (targets w i) = 0 \<and> config (targets w i) \<noteq> None"
    if "is_shared w i" for i
  proof (intro conjI)
    show "ready_t (targets w i)" using that reachable_idle_ready[of cfg es i] assms(2,3) by simp
    show "lock_count (targets w i) = 0"
      using that assms(5) by (simp add: any_locked_targets_eq is_shared_def word_gt_0)
    show "config (targets w i) \<noteq> None"
      using that methods_trig_run[OF assms(1)] by (simp add: assms(2) methods_ok_def config_of_def)
  qed
  have t: "targets (shared_trigger_target_arm w) = map_shared arm_t (targets w)"
    using assms(3,5) by (auto simp: shared_trigger_target_arm_def targets_arm_shared arm_shared_ts_def
        any_locked_targets_eq)
  have m: "get_shared_mask (for_shared_targets (\<lambda>i w. snd (do_arm_target i w)) ?w) = get_shared_mask w"
    by (simp add: get_shared_mask_def is_shared_def)
  have "calls (shared_trigger_target_arm w) = calls (set_global_state SHARED_ARMED
      (do_arm_shared_hardware (for_shared_targets (\<lambda>i w. snd (do_arm_target i w)) ?w)))"
    using assms(3) nl by (auto simp: shared_trigger_target_arm_def arm_shared_targets_def Let_def)
  also have "\<dots> = calls w @ shared_arm_calls w"
    using calls_shared_arm[of ?w] r assms(3)
    by (auto simp: set_global_state_def do_arm_shared_hardware_def m sh shared_arm_calls_def)
  finally show ?thesis using t assms r
    by (auto simp: shared_trigger_target_arm_def shared_state_arm_shared map_shared_def arm_t_def
        is_shared_def fun_eq_iff ready_t_def)
qed

lemma shared_arm_together_witness:
  "let w = trig_run sample_config [Op (OpSetMode TRIGGER_SEQ0 MODE_SHARED), Op (OpSetMode TRIGGER_DRAM MODE_SHARED)]
   in last (calls (shared_trigger_target_arm w)) = SetSharedState SHARED_ARMED \<and>
      trigger_target_get_state TRIGGER_DRAM (shared_trigger_target_arm w) = TARGET_ARMED"
proof -
  let ?es = "[Op (OpSetMode TRIGGER_SEQ0 MODE_SHARED), Op (OpSetMode TRIGGER_DRAM MODE_SHARED)]"
  let ?w = "trig_run sample_config ?es"
  note defs = trig_run_def tt_eval start_world_eval null_target_def config_of_def
  have e: "list_all (event_created sample_config) ?es" by (simp add: created_def)
  have s: "shared_state ?w = SHARED_IDLE" by (simp add: defs)
  have a: "any_shared_targets ?w" by (simp add: defs)
  have k: "\<not> any_locked_targets ?w" by (simp add: defs)
  have d: "is_shared ?w TRIGGER_DRAM" by (simp add: defs)
  show ?thesis
    using shared_arm_together[OF e refl disjI1[OF s] a k] d
    by (simp add: Let_def shared_arm_calls_def trigger_target_get_state_def)
qed

end
