(* ===== verification/Readout_Properties.thy ===== *)
theory Readout_Properties
  imports Trigger_Properties
begin

text \<open>
  The readout locks over the reachable states: what a successful lock guarantees, that a waiting
  request ends, what a failed one leaves behind, and what happens when the last lock is released.
\<close>

section \<open>A successful lock\<close>

lemma lock_ready:
  assumes "lock_trigger_ready i timeout now poll ks w = Some (Locked, ks', w')"
  shows "check_trigger_ready i w'"
proof -
  have wt: "check_trigger_ready i w'" if "wait_ticks i poll d fd n tick ks w = Some (Locked, ks', w')"
    for d fd n tick ks w
    using that
  proof (induction i poll d fd n tick ks w rule: wait_ticks.induct)
    case (1 i poll d fd n tick ks w)
    show ?case
    proof (cases "pwait_until_ready i ks w")
      case None
      then show ?thesis using 1(2) by (subst (asm) wait_ticks.simps) (auto simp: Let_def split: if_splits)
    next
      case (Some q)
      obtain r k1 w1 where q: "q = (r, k1, w1)" by (cases q)
      show ?thesis using 1 Some q
        by (subst (asm) (2) wait_ticks.simps)
          (auto simp: Let_def dest: pwait_ready split: if_splits option.splits)
    qed
  qed
  show ?thesis
    using assms wt
    by (auto simp: lock_trigger_ready_def lock_request_def increment_trigger_lock_count_def
        check_trigger_ready_def wait_trigger_ready_def Let_def
        split: if_splits option.splits lock_result.splits prod.splits)
qed

text \<open>C1 A successful readout lock keeps the target out of the hands of the hardware: from the return
  of \<open>lock_trigger_ready\<close> the target stays Idle or Locked after every operation of the other
  threads and every user action, as long as the readers release only locks they took themselves
  and fewer than \<open>2 ^ 32\<close> locks are held.\<close>

theorem readout_lock_protects:
  assumes "lock_trigger_ready i timeout now poll ks w = Some (Locked, ks', w')"
    and "locks_held i w' = Suc n" "others_disciplined tt_step (tt_effect i) (2 ^ 32) n ops w'"
  shows "list_all (\<lambda>k. check_trigger_ready i (tt_run (take k ops) w')) [0..<Suc (length ops)]"
proof -
  have "ready_t (targets w' i)" using lock_ready[OF assms(1)] by (simp add: check_trigger_ready_eq)
  from tt_lock.lock_protects_always[OF this assms(2,3)] show ?thesis
    by (auto simp: list_all_iff check_trigger_ready_eq tt_run_def less_Suc_eq_le)
qed

lemma readout_lock_protects_witness:
  "let w = start_world sample_config;
       ops = [OpArm TRIGGER_DRAM, OpLock TRIGGER_DRAM 0, OpCapture, OpUnlock TRIGGER_DRAM, OpTrigger TRIGGER_DRAM]
   in check_trigger_ready TRIGGER_DRAM (tt_run ops (increment_trigger_lock_count TRIGGER_DRAM w))"
proof -
  let ?w = "start_world sample_config"
  let ?w' = "increment_trigger_lock_count TRIGGER_DRAM ?w"
  let ?ops = "[OpArm TRIGGER_DRAM, OpLock TRIGGER_DRAM 0, OpCapture, OpUnlock TRIGGER_DRAM, OpTrigger TRIGGER_DRAM]"
  note defs = tt_eval start_world_eval null_target_def config_of_def
  have l: "lock_trigger_ready TRIGGER_DRAM 0 \<lparr>tv_sec = 0, tv_nsec = 0\<rparr> (\<lambda>_. None :: nat option) [] ?w =
      Some (Locked, [], ?w')"
    by (simp add: lock_trigger_ready_def lock_request_def check_trigger_ready_def start_world_eval
        null_target_def)
  have h: "locks_held TRIGGER_DRAM ?w' = Suc 0" by (simp add: locks_held_def defs)
  have d: "others_disciplined tt_step (tt_effect TRIGGER_DRAM) (2 ^ 32) 0 ?ops ?w'"
    by (simp add: defs)
  show ?thesis using readout_lock_protects[OF l h d] by (simp add: numeral_eq_Suc Let_def)
qed

section \<open>A waiting request\<close>

text \<open>C6 A lock request ends: with a timeout below \<open>2 ^ 31\<close> milliseconds it returns once the
  condition wait has timed out \<open>timeout div 10000 + 1\<close> times, one more than the whole ten second
  polling periods the timeout holds, and it never runs into the assertion on the wait.\<close>

theorem lock_request_returns:
  assumes "normal_ts now" "uint timeout < 2 ^ 31" "unat timeout div 10000 < timeouts ks"
  shows "\<exists>r ks' w'. lock_trigger_ready i timeout now poll ks w = Some (r, ks', w') \<and> r \<noteq> AssertFailed"
proof (cases "lock_request i timeout w")
  case (Pair r w1)
  show ?thesis
  proof (cases r)
    case LockWaiting
    obtain r' ks' w' where
      "wait_trigger_ready i timeout now poll ks w1 = Some (r', ks', w') \<and> r' \<noteq> AssertFailed"
      using wait_trigger_ready_returns[OF assms] by blast
    then show ?thesis using Pair LockWaiting
      by (cases r') (auto simp: lock_trigger_ready_def)
  qed (use Pair in \<open>auto simp: lock_trigger_ready_def\<close>)
qed

lemma lock_request_returns_witness:
  "\<exists>r ks' w'. lock_trigger_ready TRIGGER_SEQ0 25000 \<lparr>tv_sec = 1, tv_nsec = 5\<rparr> (\<lambda>_. None :: nat option)
     (replicate 3 \<lparr>others = [], timed_out = True\<rparr>)
     (trig_run sample_config [Op (OpArm TRIGGER_SEQ0)]) = Some (r, ks', w') \<and> r \<noteq> AssertFailed"
  by (rule lock_request_returns) (simp_all add: normal_ts_def NSECS_def numeral_3_eq_3)

text \<open>A lock timeout of \<open>2 ^ 31\<close> milliseconds or more is read as a negative interval, and the
  deadline it gives can have a negative nanosecond part: for 4294966297 ms (-999 ms) at a time with
  a nanosecond part below 999000000, the wait fails at once with an invalid argument and the
  assertion on its result ends the program.\<close>

theorem lock_timeout_wraps:
  assumes "0 \<le> tv_nsec now" "tv_nsec now < 999000000" "\<not> check_trigger_ready i w"
  shows "lock_trigger_ready i 4294966297 now poll ks w =
    Some (AssertFailed, ks, increment_trigger_lock_count i w)"
proof -
  have iv: "interval_to_timespec (sint (4294966297 :: u32)) MSECS = \<lparr>tv_sec = 0, tv_nsec = - 999000000\<rparr>"
    by (simp add: interval_to_timespec_def MSECS_def NSECS_def c_div_def c_mod_def)
  have dl: "interval_to_timespec POLL_INTERVAL 1 = \<lparr>tv_sec = 10, tv_nsec = 0\<rparr>"
    by (simp add: interval_to_timespec_def POLL_INTERVAL_def NSECS_def c_div_def c_mod_def)
  let ?fd = "\<lparr>tv_sec = tv_sec now, tv_nsec = tv_nsec now - 999000000\<rparr>"
  have fd: "add_timespec now \<lparr>tv_sec = 0, tv_nsec = - 999000000\<rparr> = ?fd"
    using assms(1,2) by (simp add: add_timespec_def NSECS_def)
  have et: "earliest_timespec (add_timespec now \<lparr>tv_sec = 10, tv_nsec = 0\<rparr>) ?fd = ?fd"
    using assms(1,2)
    by (simp add: earliest_timespec_def add_timespec_def NSECS_def compare_timespec_le_def)
  have "wait_ticks i poll \<lparr>tv_sec = 10, tv_nsec = 0\<rparr> ?fd 0 now ks w' = Some (AssertFailed, ks, w')" for w'
    using assms(1,2) by (subst wait_ticks.simps) (simp add: et valid_deadline_def Let_def)
  then show ?thesis using assms(3)
    unfolding lock_trigger_ready_def lock_request_def wait_trigger_ready_def iv dl fd Let_def
    by simp
qed

lemma lock_timeout_wraps_witness:
  "lock_trigger_ready TRIGGER_SEQ0 4294966297 \<lparr>tv_sec = 1, tv_nsec = 5\<rparr> (\<lambda>_. None :: nat option) []
     (trig_run sample_config [Op (OpArm TRIGGER_SEQ0)]) =
   Some (AssertFailed, [], increment_trigger_lock_count TRIGGER_SEQ0
     (trig_run sample_config [Op (OpArm TRIGGER_SEQ0)]))"
  by (rule lock_timeout_wraps)
    (simp_all add: trig_run_def tt_eval start_world_eval null_target_def config_of_def created_def)

section \<open>A failed lock\<close>

definition undisturbed :: "wakeup list \<Rightarrow> bool" where
  "undisturbed ks \<longleftrightarrow> list_all (\<lambda>k. others k = []) ks"

lemma pwait_undisturbed:
  "pwait_until_ready i ks w = Some (r, ks', w') \<Longrightarrow> undisturbed ks \<Longrightarrow> w' = w \<and> undisturbed ks'"
  by (induction i ks w rule: pwait_until_ready.induct)
    (auto simp: Let_def undisturbed_def split: if_splits)

lemma wait_ticks_one:
  assumes "wait_ticks i poll d fd n tick ks w = Some (r, ks', w')" "r \<noteq> AssertFailed"
  shows "\<exists>rd k1 w1. pwait_until_ready i ks w = Some (rd, k1, w1) \<and>
    (w' = w1 \<or> (\<exists>n tick. wait_ticks i poll d fd n tick k1 w1 = Some (r, ks', w')))"
proof -
  obtain q where q: "pwait_until_ready i ks w = Some q"
    using assms by (cases "pwait_until_ready i ks w")
      (subst (asm) wait_ticks.simps, auto simp: Let_def split: if_splits)+
  obtain rd k1 w1 where qq: "q = (rd, k1, w1)" by (cases q)
  show ?thesis using assms q unfolding qq
    by (subst (asm) wait_ticks.simps) (simp add: Let_def split: if_splits option.splits, blast)
qed

lemma wait_ticks_undisturbed:
  "wait_ticks i poll d fd n tick ks w = Some (r, ks', w') \<Longrightarrow> r \<noteq> AssertFailed \<Longrightarrow>
   undisturbed ks \<Longrightarrow> w' = w"
proof (induction "length ks" arbitrary: n tick ks w rule: less_induct)
  case less
  obtain rd k1 w1 where q: "pwait_until_ready i ks w = Some (rd, k1, w1)"
      "w' = w1 \<or> (\<exists>n tick. wait_ticks i poll d fd n tick k1 w1 = Some (r, ks', w'))"
    using wait_ticks_one[OF less.prems(1,2)] by blast
  have w1: "w1 = w" "undisturbed k1" using pwait_undisturbed[OF q(1) less.prems(3)] by simp_all
  show ?case using q(2) less.hyps[OF pwait_shorter[OF q(1)]] w1 less.prems(2) by blast
qed

lemma upd_count_undo:
  "upd_target i (\<lambda>t. t\<lparr>lock_count := lock_count t - 1\<rparr>)
     (upd_target i (\<lambda>t. t\<lparr>lock_count := lock_count t + 1\<rparr>) w) = w"
  by (simp add: upd_target_def)

lemma process_not_ready:
  assumes "coherent w" "\<not> check_trigger_ready i w"
  shows "process_target_unlocked i w = w"
proof -
  have "global_of (targets w) \<noteq> SHARED_IDLE \<and> global_of (targets w) \<noteq> SHARED_LOCKED" if "is_shared w i"
    using that assms(2) global_ready[of "targets w" i] by (auto simp: is_shared_def check_trigger_ready_def)
  then show ?thesis using assms
    by (auto simp: process_target_unlocked_def update_global_state_def coherent_def Let_def
        compute_global_state_eq set_global_state_def check_trigger_ready_def)
qed

text \<open>A lock request that fails leaves nothing behind: if no other thread acts while it waits, then
  after a refusal, a timeout or a failed poll of the client the whole trigger state is the state
  before the request, and in particular no lock is left held.\<close>

theorem failed_lock_leaves_nothing:
  assumes "w = trig_run cfg es" "undisturbed ks"
    and "lock_trigger_ready i timeout now poll ks w = Some (r, ks', w')"
    and "r \<noteq> Locked" "r \<noteq> AssertFailed"
  shows "w' = w"
proof -
  have coh: "coherent w" using coherent_trig_run assms(1) by simp
  let ?w = "increment_trigger_lock_count i w"
  show ?thesis
  proof (cases "check_trigger_ready i w \<or> timeout = 0")
    case True
    then show ?thesis using assms(3,4) by (auto simp: lock_trigger_ready_def lock_request_def split: if_splits)
  next
    case False
    obtain q k1 w1 where q: "wait_trigger_ready i timeout now poll ks ?w = Some (q, k1, w1)"
      using False assms(3) by (auto simp: lock_trigger_ready_def lock_request_def split: option.splits)
    moreover have "q \<noteq> AssertFailed"
      using q False assms(3,5) by (auto simp: lock_trigger_ready_def lock_request_def)
    ultimately have "w1 = ?w" using assms(2)
      by (auto simp: wait_trigger_ready_def Let_def dest: wait_ticks_undisturbed)
    moreover have "decrement_trigger_lock_count i ?w = w"
      using False process_not_ready[OF coh, of i]
      by (simp add: decrement_trigger_lock_count_def increment_trigger_lock_count_def upd_count_undo)
    ultimately show ?thesis using q False assms(3,4,5)
      by (cases q) (auto simp: lock_trigger_ready_def lock_request_def)
  qed
qed

lemma failed_lock_leaves_nothing_witness:
  "\<exists>ks'. lock_trigger_ready TRIGGER_SEQ0 5000 \<lparr>tv_sec = 1, tv_nsec = 5\<rparr> (\<lambda>_. None :: nat option)
     [\<lparr>others = [], timed_out = True\<rparr>] (trig_run sample_config [Op (OpArm TRIGGER_SEQ0)]) =
   Some (TimedOut, ks', trig_run sample_config [Op (OpArm TRIGGER_SEQ0)])"
proof -
  let ?es = "[Op (OpArm TRIGGER_SEQ0)]"
  let ?ks = "[\<lparr>others = [], timed_out = True\<rparr>] :: wakeup list"
  note defs = trig_run_def tt_eval start_world_eval null_target_def config_of_def created_def
  have iv: "interval_to_timespec (sint (5000 :: u32)) MSECS = \<lparr>tv_sec = 5, tv_nsec = 0\<rparr>"
    "interval_to_timespec POLL_INTERVAL 1 = \<lparr>tv_sec = 10, tv_nsec = 0\<rparr>"
    by (simp_all add: interval_to_timespec_def MSECS_def NSECS_def c_div_def c_mod_def POLL_INTERVAL_def)
  have tick: "wait_trigger_ready TRIGGER_SEQ0 5000 \<lparr>tv_sec = 1, tv_nsec = 5\<rparr> (\<lambda>_. None :: nat option) ?ks w1 =
      Some (TimedOut, [], w1)" if "\<not> check_trigger_ready TRIGGER_SEQ0 w1" for w1
    unfolding wait_trigger_ready_def iv Let_def
    by (subst wait_ticks.simps)
      (simp add: that Let_def earliest_timespec_def add_timespec_def compare_timespec_le_def
        compare_timespec_eq_def valid_deadline_def NSECS_def)
  have nr: "\<not> check_trigger_ready TRIGGER_SEQ0 (trig_run sample_config ?es)"
    by (simp add: defs)
  then have "\<not> check_trigger_ready TRIGGER_SEQ0
      (increment_trigger_lock_count TRIGGER_SEQ0 (trig_run sample_config ?es))"
    by (simp add: increment_trigger_lock_count_def check_trigger_ready_def)
  from tick[OF this] obtain w' where l: "lock_trigger_ready TRIGGER_SEQ0 5000 \<lparr>tv_sec = 1, tv_nsec = 5\<rparr>
      (\<lambda>_. None :: nat option) ?ks (trig_run sample_config ?es) = Some (TimedOut, [], w')"
    using nr by (simp add: lock_trigger_ready_def lock_request_def)
  with failed_lock_leaves_nothing[OF refl _ l] show ?thesis by (simp add: undisturbed_def)
qed

section \<open>Releasing the last lock\<close>

text \<open>Releasing the last lock of a Locked target that is not shared honours the pending request:
  the target is prepared, published as Armed and armed in hardware; while other readers remain
  only the count changes.\<close>

theorem unlock_honours_pending_arm:
  assumes "\<not> is_shared w i" "config (targets w i) = Some c" "tstate (targets w i) = TARGET_LOCKED"
  shows "unlock_trigger_ready i w =
    (if lock_count (targets w i) = 1
     then w\<lparr>targets := (targets w)(i := (targets w i)\<lparr>lock_count := 0, dont_rearm := False,
                                                    tstate := TARGET_ARMED\<rparr>),
            calls := calls w @ prepare_target c @ [SetTargetState i TARGET_ARMED,
                       HwTriggerArm (get_target_mask i)]\<rparr>
     else upd_target i (\<lambda>t. t\<lparr>lock_count := lock_count t - 1\<rparr>) w)"
proof -
  have "lock_count (targets w i) - 1 = 0 \<longleftrightarrow> lock_count (targets w i) = 1" by auto
  then show ?thesis using assms
    by (auto simp: unlock_trigger_ready_def decrement_trigger_lock_count_def process_target_unlocked_def
        arm_target_def do_arm_target_def set_target_state_def call_prepare_def emit_def upd_target_def
        do_arm_target_hardware_def is_shared_def Let_def)
qed

lemma unlock_honours_pending_arm_witness:
  "let w = tt_run [OpLock TRIGGER_DRAM 0, OpArm TRIGGER_DRAM] (start_world sample_config)
   in trigger_target_get_state TRIGGER_DRAM w = TARGET_LOCKED \<and>
      trigger_target_get_state TRIGGER_DRAM (unlock_trigger_ready TRIGGER_DRAM w) = TARGET_ARMED"
proof -
  let ?w = "tt_run [OpLock TRIGGER_DRAM 0, OpArm TRIGGER_DRAM] (start_world sample_config)"
  note defs = tt_eval start_world_eval null_target_def config_of_def created_def
  have a: "\<not> is_shared ?w TRIGGER_DRAM" by (simp add: defs)
  have b: "config (targets ?w TRIGGER_DRAM) = Some mem_config" by (simp add: defs)
  have c: "tstate (targets ?w TRIGGER_DRAM) = TARGET_LOCKED" by (simp add: defs)
  have d: "lock_count (targets ?w TRIGGER_DRAM) = 1" by (simp add: defs)
  show ?thesis using unlock_honours_pending_arm[OF a b c] c d
    by (simp only: Let_def trigger_target_get_state_def) simp
qed

text \<open>Releasing the last lock on the shared targets honours a pending shared arm: in any reachable
  state whose shared state is Locked, if target \<open>i\<close> is shared and holds the only reader of the
  shared targets, the release arms every shared target and publishes Armed.\<close>

theorem unlock_honours_shared_arm:
  assumes "w = trig_run cfg es" "shared_state w = SHARED_LOCKED" "is_shared w i"
    and "lock_count (targets w i) = 1"
    and "\<And>j. is_shared w j \<Longrightarrow> j \<noteq> i \<Longrightarrow> lock_count (targets w j) = 0"
  shows "shared_state (unlock_trigger_ready i w) = SHARED_ARMED \<and>
    trigger_target_get_state j (unlock_trigger_ready i w) =
      (if is_shared w j then TARGET_ARMED else trigger_target_get_state j w)"
proof -
  let ?w = "upd_target i (\<lambda>t. t\<lparr>lock_count := lock_count t - 1\<rparr>) w"
  have coh: "coherent w" using coherent_trig_run assms(1) by simp
  then have g: "compute_global_state ?w = SHARED_LOCKED"
    using assms(2) coherent_lock_count(2)[of i w] by (simp add: coherent_def)
  have nl: "\<not> any_locked_targets ?w"
    using assms(4,5) by (auto simp: any_locked_targets_eq is_shared_def)
  have anys: "any_shared_targets ?w" using assms(3) by (auto simp: any_shared_targets_eq is_shared_def)
  have u: "unlock_trigger_ready i w = arm_shared_targets ?w"
    using assms(2,3,4) g nl
    by (simp add: unlock_trigger_ready_def decrement_trigger_lock_count_def Let_def
        process_target_unlocked_def update_global_state_def set_global_state_def)
  have s: "shared_state (arm_shared_targets ?w) = SHARED_ARMED"
    using assms(2) nl anys by (simp add: shared_state_arm_shared)
  have t: "targets (arm_shared_targets ?w) = map_shared arm_t (targets ?w)"
    using assms(2) nl unfolding targets_arm_shared arm_shared_ts_def any_locked_targets_eq
    by (simp only: if_False if_True) simp
  have "ready_t (targets w j)" "j \<noteq> i \<Longrightarrow> lock_count (targets w j) = 0" if "is_shared w j"
    using that assms(5) reachable_idle_ready[of cfg es j] assms(1,2) by simp_all
  then have "tstate (targets (arm_shared_targets ?w) j) =
      (if is_shared w j then TARGET_ARMED else tstate (targets w j))"
    unfolding t using assms(3,4) by (auto simp: map_shared_def arm_t_def is_shared_def ready_t_def)
  then show ?thesis using s by (simp add: u trigger_target_get_state_def)
qed

lemma unlock_honours_shared_arm_witness:
  "shared_state (unlock_trigger_ready TRIGGER_SEQ0 (trig_run sample_config pending_arm_run)) = SHARED_ARMED"
proof -
  let ?w = "trig_run sample_config pending_arm_run"
  note defs = trig_run_def pending_arm_run_def tt_eval start_world_eval null_target_def config_of_def
  have a: "shared_state ?w = SHARED_LOCKED" by (simp add: defs)
  have b: "is_shared ?w TRIGGER_SEQ0" by (simp add: defs)
  have c: "lock_count (targets ?w TRIGGER_SEQ0) = 1" by (simp add: defs)
  have d: "is_shared ?w j \<Longrightarrow> j \<noteq> TRIGGER_SEQ0 \<Longrightarrow> lock_count (targets ?w j) = 0" for j
    by (cases j) (simp_all add: defs)
  show ?thesis using unlock_honours_shared_arm[OF refl a b c d] by simp
qed

text \<open>A release that leaves a reader on some shared target only counts down.\<close>

lemma unlock_keeps_pending:
  assumes "coherent w" "shared_state w = SHARED_LOCKED" "is_shared w i"
    and "any_locked_targets (upd_target i (\<lambda>t. t\<lparr>lock_count := lock_count t - 1\<rparr>) w)"
  shows "unlock_trigger_ready i w = upd_target i (\<lambda>t. t\<lparr>lock_count := lock_count t - 1\<rparr>) w"
proof -
  let ?w = "upd_target i (\<lambda>t. t\<lparr>lock_count := lock_count t - 1\<rparr>) w"
  have "compute_global_state ?w = SHARED_LOCKED"
    using assms(1,2) coherent_lock_count(2) [of i w] by (simp add: coherent_def)
  then show ?thesis using assms(2-4)
    by (simp add: unlock_trigger_ready_def decrement_trigger_lock_count_def Let_def process_target_unlocked_def
        update_global_state_def set_global_state_def)
qed

definition releases :: "trigger_target_id list \<Rightarrow> trig_event list" where
  "releases us = map (\<lambda>i. Op (OpUnlock i)) us"

text \<open>The readers that hold the shared targets, each as often as it has to release.\<close>

definition all_readers :: "trigger_target_id list \<Rightarrow> tt_world \<Rightarrow> bool" where
  "all_readers us w \<longleftrightarrow> (\<forall>i. count_list us i = (if is_shared w i then unat (lock_count (targets w i)) else 0))"

lemma any_locked_targetsI: "is_shared w j \<Longrightarrow> 0 < unat (lock_count (targets w j)) \<Longrightarrow> any_locked_targets w"
  unfolding any_locked_targets_eq is_shared_def by (rule exI [of _ j]) (simp add: unat_gt_0 word_gt_0)

lemma releases_arm:
  assumes "shared_state (trig_run cfg es) = SHARED_LOCKED" "all_readers us (trig_run cfg es)" "us \<noteq> []"
  shows "(\<forall>k < length us. shared_state (trig_run cfg (es @ releases (take k us))) = SHARED_LOCKED) \<and>
    shared_state (trig_run cfg (es @ releases us)) = SHARED_ARMED \<and>
    (\<forall>j. is_shared (trig_run cfg es) j \<longrightarrow> trigger_target_get_state j (trig_run cfg (es @ releases us)) = TARGET_ARMED)"
  using assms
proof (induction us arbitrary: es)
  case (Cons i us)
  let ?w = "trig_run cfg es" and ?es = "es @ [Op (OpUnlock i)]"
  let ?d = "upd_target i (\<lambda>t. t\<lparr>lock_count := lock_count t - 1\<rparr>) ?w"
  have run: "trig_run cfg ?es = unlock_trigger_ready i ?w" by (simp add: trig_run_def)
  have rel: "es @ releases (i # xs) = ?es @ releases xs" for xs by (simp add: releases_def)
  have count: "count_list (i # us) j = (if is_shared ?w j then unat (lock_count (targets ?w j)) else 0)" for j
    using Cons.prems(2) by (simp only: all_readers_def)
  have i: "is_shared ?w i" "unat (lock_count (targets ?w i)) = Suc (count_list us i)"
    using count [of i] by (auto split: if_splits)
  show ?case
  proof (cases "us = []")
    case True
    then have one: "lock_count (targets ?w i) = 1" using i(2) by (simp add: word_unat_eq_iff)
    have "lock_count (targets ?w j) = 0" if "is_shared ?w j" "j \<noteq> i" for j
      using count [of j] that True by (simp add: unat_eq_zero)
    from unlock_honours_shared_arm [OF refl Cons.prems(1) i(1) one this] show ?thesis
      using Cons.prems(1) True by (simp add: releases_def trig_run_def)
  next
    case False
    then obtain j where "j \<in> set us" by (cases us) auto
    then have j: "0 < count_list us j" by (metis count_list_0_iff neq0_conv)
    have less: "unat (lock_count (targets ?w i) - 1) = count_list us i"
      using i(2) by (metis One_nat_def Suc_neq_Zero diff_Suc_1 unat_eq_zero unat_minus_one)
    have d: "all_readers us ?d"
      unfolding all_readers_def
    proof
      fix k
      show "count_list us k = (if is_shared ?d k then unat (lock_count (targets ?d k)) else 0)"
        using count [of k] i(1) less by (cases "k = i") simp_all
    qed
    have "count_list us j = (if is_shared ?d j then unat (lock_count (targets ?d j)) else 0)"
      using d unfolding all_readers_def by (rule spec)
    then have "is_shared ?d j \<and> 0 < unat (lock_count (targets ?d j))" using j by (simp only: split: if_splits)
    then have "any_locked_targets ?d" by (blast intro: any_locked_targetsI)
    then have u: "trig_run cfg ?es = ?d"
      unfolding run by (rule unlock_keeps_pending [OF coherent_trig_run Cons.prems(1) i(1)])
    have "shared_state (trig_run cfg ?es) = SHARED_LOCKED" using Cons.prems(1) by (simp add: u)
    from Cons.IH [OF this _ False] have ih:
      "\<forall>k < length us. shared_state (trig_run cfg (?es @ releases (take k us))) = SHARED_LOCKED"
      "shared_state (trig_run cfg (?es @ releases us)) = SHARED_ARMED"
      "\<forall>j. is_shared (trig_run cfg ?es) j \<longrightarrow> trigger_target_get_state j (trig_run cfg (?es @ releases us)) = TARGET_ARMED"
      using d by (simp_all add: u)
    have sh: "is_shared (trig_run cfg ?es) = is_shared ?w" by (simp add: u)
    have "shared_state (trig_run cfg (es @ releases (take k (i # us)))) = SHARED_LOCKED" if "k < length (i # us)" for k
    proof (cases k)
      case 0
      then show ?thesis using Cons.prems(1) by (simp add: releases_def)
    next
      case (Suc m)
      then show ?thesis using ih(1) that by (simp only: take_Suc_Cons rel) simp
    qed
    then show ?thesis using ih(2,3) unfolding rel sh by blast
  qed
qed simp

text \<open>C4 A pending shared arm is always carried out: whenever the published state is Locked some shared target has a reader,
  so that there is a release to come; and when the readers of the shared targets release them, in whatever order, the
  state stays Locked up to the last release, which arms every shared target and publishes Armed.\<close>

theorem shared_arm_not_stranded:
  assumes "counts_below_max cfg es" "shared_state (trig_run cfg es) = SHARED_LOCKED" "all_readers us (trig_run cfg es)"
  shows "us \<noteq> [] \<and> (\<forall>k < length us. shared_state (trig_run cfg (es @ releases (take k us))) = SHARED_LOCKED) \<and>
    shared_state (trig_run cfg (es @ releases us)) = SHARED_ARMED \<and>
    (\<forall>j. is_shared (trig_run cfg es) j \<longrightarrow> trigger_target_get_state j (trig_run cfg (es @ releases us)) = TARGET_ARMED)"
proof -
  obtain i where "is_shared (trig_run cfg es) i" "0 < lock_count (targets (trig_run cfg es) i)"
    using reachable_not_stranded [OF assms(1,2)] by (auto simp: any_locked_targets_eq is_shared_def)
  then have "count_list us i \<noteq> 0" using assms(3) by (simp add: all_readers_def unat_eq_zero word_gt_0)
  then have "us \<noteq> []" by auto
  with releases_arm [OF assms(2,3)] show ?thesis by blast
qed

text \<open>Two readers of one target and one of the other release a pending arm.\<close>

definition readers_run :: "trig_event list" where
  "readers_run = [Op (OpSetMode TRIGGER_SEQ0 MODE_SHARED), Op (OpSetMode TRIGGER_SEQ1 MODE_SHARED),
     Op (OpLock TRIGGER_SEQ0 0), Op (OpLock TRIGGER_SEQ0 0), Op (OpLock TRIGGER_SEQ1 0), Op OpSharedArm]"

theorem shared_arm_not_stranded_witness:
  "shared_state (trig_run sample_config (readers_run @ releases [TRIGGER_SEQ0, TRIGGER_SEQ1])) = SHARED_LOCKED \<and>
   shared_state (trig_run sample_config (readers_run @ releases [TRIGGER_SEQ0, TRIGGER_SEQ1, TRIGGER_SEQ0])) = SHARED_ARMED"
proof -
  let ?us = "[TRIGGER_SEQ0, TRIGGER_SEQ1, TRIGGER_SEQ0]"
  note defs = trig_run_def readers_run_def tt_eval start_world_eval null_target_def config_of_def
  have k: "k < 6 \<Longrightarrow> k \<in> {0, 1, 2, 3, 4, 5}" for k :: nat by auto
  have "lock_count (targets (trig_run sample_config (take k readers_run)) i) \<noteq> - 1" if "k < 6" for k i
    using k [OF that] by (cases i) (auto simp: defs)
  moreover have "length readers_run = 6" by (simp add: readers_run_def)
  ultimately have c: "counts_below_max sample_config readers_run" unfolding counts_below_max_def list_all_iff by auto
  have l: "shared_state (trig_run sample_config readers_run) = SHARED_LOCKED" by (simp add: defs)
  have "count_list ?us i = (if is_shared (trig_run sample_config readers_run) i
      then unat (lock_count (targets (trig_run sample_config readers_run) i)) else 0)" for i
    by (cases i) (simp_all add: defs)
  then have r: "all_readers ?us (trig_run sample_config readers_run)" by (simp add: all_readers_def)
  note s = shared_arm_not_stranded [OF c l r]
  have "2 < length ?us" by simp
  then have "shared_state (trig_run sample_config (readers_run @ releases (take 2 ?us))) = SHARED_LOCKED" using s by blast
  then show ?thesis using s by simp
qed

section \<open>Completion\<close>

definition wants_rearm :: "trigger_target \<Rightarrow> bool" where
  "wants_rearm t \<longleftrightarrow> (tmode t = MODE_REARM \<or> tmode t = MODE_FREE_RUN) \<and> \<not> dont_rearm t"

text \<open>Completion of a busy target that is not shared: the target goes Idle; in the two re-arming
  modes, unless a disarm has been requested, it is armed again at once when it has no reader and
  Locked when it has; the free running mode then fires the soft trigger; waiting readers are woken
  last.\<close>

theorem complete_single_target:
  assumes "\<not> is_shared w i" "config (targets w i) = Some c" "tstate (targets w i) = TARGET_BUSY"
  shows "tstate (targets (trigger_target_complete i w) i) =
      (if \<not> wants_rearm (targets w i) then TARGET_IDLE
       else if lock_count (targets w i) = 0 then TARGET_ARMED else TARGET_LOCKED) \<and>
    calls (trigger_target_complete i w) = calls w @ [SetTargetState i TARGET_IDLE] @
      (if wants_rearm (targets w i)
       then (if lock_count (targets w i) = 0
             then prepare_target c @ [SetTargetState i TARGET_ARMED, HwTriggerArm (get_target_mask i)]
             else [SetTargetState i TARGET_LOCKED]) @
            (if tmode (targets w i) = MODE_FREE_RUN then [HwSoftTrigger] else [])
       else []) @ [BroadcastEvent]"
  using assms
  by (cases "tmode (targets w i)")
    (simp_all add: trigger_target_complete_def wants_rearm_def Let_def set_target_state_def is_shared_def
      arm_target_def do_arm_target_def call_prepare_def do_arm_target_hardware_def)

definition free_run_trace :: "tt_op list" where
  "free_run_trace = [OpSetMode TRIGGER_SEQ0 MODE_FREE_RUN, OpArm TRIGGER_SEQ0, OpTrigger TRIGGER_SEQ0,
     OpLock TRIGGER_SEQ0 1000]"

lemma complete_single_target_witness:
  "let w = tt_run free_run_trace (start_world sample_config)
   in tstate (targets w TRIGGER_SEQ0) = TARGET_BUSY \<and>
      tstate (targets (trigger_target_complete TRIGGER_SEQ0 w) TRIGGER_SEQ0) = TARGET_LOCKED"
proof -
  let ?w = "tt_run free_run_trace (start_world sample_config)"
  note defs = free_run_trace_def tt_eval start_world_eval null_target_def config_of_def created_def
    sample_config_def
  have a: "\<not> is_shared ?w TRIGGER_SEQ0" by (simp add: defs)
  have b: "config (targets ?w TRIGGER_SEQ0) = Some (seq_config sample_config TRIGGER_SEQ0)"
    by (simp add: defs)
  have c: "tstate (targets ?w TRIGGER_SEQ0) = TARGET_BUSY" by (simp add: defs)
  have d: "lock_count (targets ?w TRIGGER_SEQ0) = 1" by (simp add: defs)
  have e: "wants_rearm (targets ?w TRIGGER_SEQ0)" by (simp add: defs wants_rearm_def)
  show ?thesis using complete_single_target[OF a b c] c d e by (simp add: Let_def)
qed

text \<open>A free running target stops when it completes while a single reader holds it: the soft
  trigger is fired while the target is Locked, and the release arms the hardware without another
  one, so the target waits Armed for a trigger that nothing sends.\<close>

theorem free_run_stalls_after_lock:
  assumes "tmode (targets w i) = MODE_FREE_RUN" "config (targets w i) = Some c"
    and "tstate (targets w i) = TARGET_BUSY" "\<not> dont_rearm (targets w i)" "lock_count (targets w i) = 1"
  shows "calls (unlock_trigger_ready i (trigger_target_complete i w)) = calls w @
      [SetTargetState i TARGET_IDLE, SetTargetState i TARGET_LOCKED, HwSoftTrigger, BroadcastEvent] @
      prepare_target c @ [SetTargetState i TARGET_ARMED, HwTriggerArm (get_target_mask i)]"
  using assms
  by (simp add: trigger_target_complete_def Let_def set_target_state_def is_shared_def
      arm_target_def do_arm_target_def call_prepare_def do_arm_target_hardware_def
      unlock_trigger_ready_def decrement_trigger_lock_count_def process_target_unlocked_def)

lemma free_run_stalls_after_lock_witness:
  "\<exists>cs. calls (unlock_trigger_ready TRIGGER_SEQ0 (trigger_target_complete TRIGGER_SEQ0
     (tt_run free_run_trace (start_world sample_config)))) = cs @ [HwTriggerArm [True, False, False]]"
proof -
  let ?w = "tt_run free_run_trace (start_world sample_config)"
  note defs = free_run_trace_def tt_eval start_world_eval null_target_def config_of_def created_def
    sample_config_def
  have a: "tmode (targets ?w TRIGGER_SEQ0) = MODE_FREE_RUN" by (simp add: defs)
  have b: "config (targets ?w TRIGGER_SEQ0) = Some (seq_config sample_config TRIGGER_SEQ0)"
    by (simp add: defs)
  have c: "tstate (targets ?w TRIGGER_SEQ0) = TARGET_BUSY" by (simp add: defs)
  have d: "\<not> dont_rearm (targets ?w TRIGGER_SEQ0)" by (simp add: defs)
  have e: "lock_count (targets ?w TRIGGER_SEQ0) = 1" by (simp add: defs)
  have m: "get_target_mask TRIGGER_SEQ0 = [True, False, False]"
    by (simp add: get_target_mask_def all_targets_def)
  show ?thesis unfolding free_run_stalls_after_lock[OF a b c d e] m by simp
qed

section \<open>The list of shared targets\<close>

fun join_names :: "string list \<Rightarrow> string" where
  "join_names [] = []"
| "join_names [n] = n"
| "join_names (n # ns) = n @ '' '' @ join_names ns"

lemma join_names_Cons: "join_names (n # ns) = n @ concat (map (\<lambda>m. '' '' @ m) ns)"
  by (induction ns arbitrary: n) simp_all

lemma buf_print_fits:
  "length acc + length s < TARGETS_BUF \<Longrightarrow>
   buf_print s (Some (acc, length acc)) = Some (acc @ s, length (acc @ s))"
  by (simp add: buf_print_def)

lemma print_targets_fits:
  "length (acc @ concat (map (\<lambda>m. '' '' @ m) ns)) < TARGETS_BUF \<Longrightarrow>
   print_targets False ns (Some (acc, length acc)) =
     (let r = acc @ concat (map (\<lambda>m. '' '' @ m) ns) in Some (r, length r))"
proof (induction ns arbitrary: acc)
  case (Cons n ns)
  have "buf_print n (buf_print '' '' (Some (acc, length acc))) =
      Some (acc @ '' '' @ n, length (acc @ '' '' @ n))"
    using Cons.prems buf_print_fits[of acc "'' ''"] buf_print_fits[of "acc @ '' ''" n] by simp
  then show ?case using Cons.IH[of "acc @ '' '' @ n"] Cons.prems by (simp add: Let_def)
qed simp

text \<open>The published list of shared targets is the names of the shared targets separated by single
  blanks, in target order, whenever that text fits into the 40 byte buffer with its terminator.\<close>

theorem shared_targets_text:
  assumes "length (join_names (shared_names w)) < TARGETS_BUF"
  shows "calls (update_shared_targets w) = calls w @ [SetSharedTargets (Some (join_names (shared_names w)))]"
proof (cases "shared_names w")
  case (Cons n ns)
  have "print_targets True (n # ns) (Some ([], 0)) = print_targets False ns (Some (n, length n))"
    using buf_print_fits[of "[]" n] assms Cons by (simp add: join_names_Cons)
  then show ?thesis
    using print_targets_fits[of n ns] assms Cons
    by (simp add: update_shared_targets_def join_names_Cons Let_def)
qed (simp add: update_shared_targets_def)

lemma shared_targets_text_witness:
  "let w = upd_target TRIGGER_DRAM (\<lambda>t. t\<lparr>tmode := MODE_SHARED\<rparr>)
             (upd_target TRIGGER_SEQ1 (\<lambda>t. t\<lparr>tmode := MODE_SHARED\<rparr>) (start_world sample_config))
   in calls (update_shared_targets w) = [SetSharedTargets (Some ''Y:SEQ MEM'')]"
proof -
  let ?w = "upd_target TRIGGER_DRAM (\<lambda>t. t\<lparr>tmode := MODE_SHARED\<rparr>)
             (upd_target TRIGGER_SEQ1 (\<lambda>t. t\<lparr>tmode := MODE_SHARED\<rparr>) (start_world sample_config))"
  have n: "shared_names ?w = [''Y:SEQ'', ''MEM'']"
    by (simp add: shared_names_def all_targets_def is_shared_def targets_start_world null_target_def
        target_name_def config_of_def created_def sample_config_def seq_config_def mem_config_def
        get_seq_name_def get_axis_name_def get_mem_name_def seq_axis_def)
  show ?thesis using shared_targets_text[of ?w] by (simp add: n TARGETS_BUF_def Let_def)
qed

text \<open>A first name of more than 40 characters moves the print offset past the buffer.\<close>

lemma shared_targets_overflow:
  assumes "shared_names w = n # m # ns" "length n > TARGETS_BUF"
  shows "SetSharedTargets None \<in> set (calls (update_shared_targets w))"
proof -
  have none: "print_targets False ns None = None" for ns
    by (induction ns) (simp_all add: buf_print_def)
  have "print_targets True (shared_names w) (Some ([], 0)) = None"
    using assms by (simp add: buf_print_def TARGETS_BUF_def none)
  then show ?thesis by (simp add: update_shared_targets_def)
qed

end
