(* ===== verification/Parse.thy ===== *)
theory Parse
  imports MBF_Prelude
begin

text \<open>
  The character level parsers of \<^verbatim>\<open>epics/src/parse.c\<close>.  A parser takes the rest of the input, a C
  string whose terminating null is the end of the list, and returns an error or a value together
  with the input that remains, which the callers use for the error position even on failure.
  \<^verbatim>\<open>strtol\<close> and \<^verbatim>\<open>strtoul\<close> are those of the C library for base 10 and 64-bit \<^verbatim>\<open>long\<close>, with
  \<^verbatim>\<open>errno\<close> as the second component; \<^verbatim>\<open>strtod\<close> is a parameter.
\<close>

datatype parse_error =
    WhitespaceExpected
  | NoNameFound
  | NameTooLong
  | CharacterExpected char
  | NumberMissing
  | ErrorConvertingNumber
  | InvalidBitValue
  | UnexpectedExtraCharacter
  | BunchNumberOutOfRange
  | EmptyRange
  | InvalidSkipInterval
  | IdentifierNotKnown string
  | ParameterRepeated string

type_synonym 'a parser = "string \<Rightarrow> (parse_error + 'a) \<times> string"

definition preturn :: "'a \<Rightarrow> 'a parser" where
  "preturn x s = (Inr x, s)"

definition ptest :: "bool \<Rightarrow> parse_error \<Rightarrow> unit parser" where
  "ptest b e s = (if b then Inr () else Inl e, s)"

definition pbind :: "'a parser \<Rightarrow> ('a \<Rightarrow> 'b parser) \<Rightarrow> 'b parser" where
  "pbind p f s = (case p s of (Inl e, r) \<Rightarrow> (Inl e, r) | (Inr x, r) \<Rightarrow> f x r)"

section \<open>Character classes\<close>

definition code :: "char \<Rightarrow> nat" where "code c = of_char c"

definition isspace :: "char \<Rightarrow> bool" where
  "isspace c \<longleftrightarrow> code c = 32 \<or> (9 \<le> code c \<and> code c \<le> 13)"

definition isdigit :: "char \<Rightarrow> bool" where
  "isdigit c \<longleftrightarrow> 48 \<le> code c \<and> code c \<le> 57"

definition isalpha :: "char \<Rightarrow> bool" where
  "isalpha c \<longleftrightarrow> (65 \<le> code c \<and> code c \<le> 90) \<or> (97 \<le> code c \<and> code c \<le> 122)"

definition valid_name_char :: "char \<Rightarrow> bool" where
  "valid_name_char c \<longleftrightarrow> code c < 128 \<and> (isalpha c \<or> c = CHR ''_'')"

definition valid_alphanum_char :: "char \<Rightarrow> bool" where
  "valid_alphanum_char c \<longleftrightarrow> code c < 128 \<and> (isalpha c \<or> c = CHR ''_'' \<or> isdigit c)"

section \<open>Parsers\<close>

fun skip_whitespace :: "string \<Rightarrow> bool \<times> string" where
  "skip_whitespace [] = (False, [])"
| "skip_whitespace (c # s) = (if isspace c then (True, snd (skip_whitespace s)) else (False, c # s))"

definition skip_ws :: "unit parser" where
  "skip_ws s = (Inr (), snd (skip_whitespace s))"

definition parse_whitespace :: "unit parser" where
  "parse_whitespace s =
     (let r = snd (skip_whitespace s)
      in (if length r < length s then Inr () else Inl WhitespaceExpected, r))"

fun take_name :: "(char \<Rightarrow> bool) \<Rightarrow> nat \<Rightarrow> string \<Rightarrow> string \<times> string" where
  "take_name f 0 s = ([], s)"
| "take_name f (Suc n) [] = ([], [])"
| "take_name f (Suc n) (c # s) =
     (if f c then (let (name, r) = take_name f n s in (c # name, r)) else ([], c # s))"

definition parse_filtered_name :: "(char \<Rightarrow> bool) \<Rightarrow> nat \<Rightarrow> string parser" where
  "parse_filtered_name f max_length s =
     (let (name, r) = take_name f max_length s
      in (if \<not> length name > 0 then Inl NoNameFound
          else if \<not> length name < max_length then Inl NameTooLong
          else Inr name, r))"

definition parse_name :: "nat \<Rightarrow> string parser" where
  "parse_name max_length = parse_filtered_name valid_name_char max_length"

definition parse_alphanum_name :: "nat \<Rightarrow> string parser" where
  "parse_alphanum_name max_length s =
     pbind (ptest (s \<noteq> [] \<and> valid_name_char (hd s)) NoNameFound)
       (\<lambda>_. parse_filtered_name valid_alphanum_char max_length) s"

definition read_char :: "char \<Rightarrow> string \<Rightarrow> bool \<times> string" where
  "read_char ch s = (case s of [] \<Rightarrow> (False, s) | c # r \<Rightarrow> if c = ch then (True, r) else (False, s))"

definition read_string :: "string \<Rightarrow> string \<Rightarrow> bool \<times> string" where
  "read_string expected s =
     (if take (length expected) s = expected then (True, drop (length expected) s) else (False, s))"

definition parse_char :: "char \<Rightarrow> unit parser" where
  "parse_char ch s =
     (let (b, r) = read_char ch s in (if b then Inr () else Inl (CharacterExpected ch), r))"

fun scan_digits :: "nat \<Rightarrow> string \<Rightarrow> nat \<times> string" where
  "scan_digits acc [] = (acc, [])"
| "scan_digits acc (c # s) =
     (if isdigit c then scan_digits (acc * 10 + (code c - 48)) s else (acc, c # s))"

definition read_sign :: "string \<Rightarrow> bool \<times> string" where
  "read_sign s =
     (case s of [] \<Rightarrow> (False, s)
      | c # r \<Rightarrow> if c = CHR ''-'' then (True, r) else if c = CHR ''+'' then (False, r) else (False, s))"

text \<open>The sign, the digits read and the end pointer; \<open>None\<close> when there is no digit.\<close>

definition scan_number :: "string \<Rightarrow> (bool \<times> nat \<times> string) option" where
  "scan_number s =
     (let (neg, r) = read_sign (snd (skip_whitespace s))
      in if r \<noteq> [] \<and> isdigit (hd r) then (let (v, e) = scan_digits 0 r in Some (neg, v, e)) else None)"

definition ULONG_MAX :: nat where "ULONG_MAX = 2 ^ 64 - 1"

text \<open>Results: the value as a 64-bit pattern, whether \<^verbatim>\<open>errno\<close> was set, the end pointer.\<close>

definition strtoul :: "string \<Rightarrow> u64 \<times> bool \<times> string" where
  "strtoul s =
     (case scan_number s of None \<Rightarrow> (0, False, s)
      | Some (neg, v, e) \<Rightarrow>
          if v > ULONG_MAX then (word_of_nat ULONG_MAX, True, e)
          else ((if neg then - word_of_nat v else word_of_nat v), False, e))"

definition strtol :: "string \<Rightarrow> u64 \<times> bool \<times> string" where
  "strtol s =
     (case scan_number s of None \<Rightarrow> (0, False, s)
      | Some (neg, v, e) \<Rightarrow>
          if neg then (if v > 2 ^ 63 then (word_of_int (- (2 ^ 63)), True, e)
                       else (word_of_int (- int v), False, e))
          else (if v > 2 ^ 63 - 1 then (word_of_nat (2 ^ 63 - 1), True, e)
                else (word_of_nat v, False, e)))"

definition parse_num :: "(string \<Rightarrow> 'n \<times> bool \<times> string) \<Rightarrow> ('n \<Rightarrow> 'a) \<Rightarrow> 'a parser" where
  "parse_num convert cast s =
     (let (v, erange, e) = convert s
      in (if \<not> length e < length s then Inl NumberMissing
          else if erange then Inl ErrorConvertingNumber
          else Inr (cast v), e))"

text \<open>The conversion is truncated to the result type: \<^verbatim>\<open>(type) convert(...)\<close>.\<close>

definition parse_int :: "u32 parser" where "parse_int = parse_num strtol ucast"
definition parse_uint :: "u32 parser" where "parse_uint = parse_num strtoul ucast"
definition parse_uint32 :: "u32 parser" where "parse_uint32 = parse_num strtoul ucast"
definition parse_uint64 :: "u64 parser" where "parse_uint64 = parse_num strtoul id"
definition parse_double :: "(string \<Rightarrow> 'd \<times> bool \<times> string) \<Rightarrow> 'd parser" where
  "parse_double strtod = parse_num strtod id"

definition parse_bit :: "bool parser" where
  "parse_bit s =
     (case s of c # r \<Rightarrow> if c = CHR ''0'' \<or> c = CHR ''1'' then (Inr (c = CHR ''1''), r)
                         else (Inl InvalidBitValue, s)
      | [] \<Rightarrow> (Inl InvalidBitValue, s))"

definition parse_to_eos :: "string parser" where
  "parse_to_eos s = (Inr s, [])"

definition parse_eos :: "unit parser" where
  "parse_eos s = (if s = [] then Inr () else Inl UnexpectedExtraCharacter, s)"

section \<open>Consuming input\<close>

text \<open>A parser leaves a suffix of its input.\<close>

definition suffixes_only :: "'a parser \<Rightarrow> bool" where
  "suffixes_only p \<longleftrightarrow> (\<forall>s. \<exists>pre. s = pre @ snd (p s))"

lemma skip_whitespace_rest: "snd (skip_whitespace s) = dropWhile isspace s"
  by (induction s) auto

lemma skip_ws_simp: "skip_ws s = (Inr (), dropWhile isspace s)"
  by (simp add: skip_ws_def skip_whitespace_rest)

lemma scan_digits_shorter: "length (snd (scan_digits acc s)) \<le> length s"
  by (induction acc s rule: scan_digits.induct) auto

lemma read_sign_shorter: "length (snd (read_sign s)) \<le> length s"
  by (auto simp: read_sign_def split: list.split)

lemma scan_number_shorter: "scan_number s = Some (neg, v, e) \<Longrightarrow> length e < length s"
proof -
  assume a: "scan_number s = Some (neg, v, e)"
  obtain n r where r: "read_sign (snd (skip_whitespace s)) = (n, r)" by fastforce
  have len: "length r \<le> length s"
    using read_sign_shorter[of "snd (skip_whitespace s)"] r length_dropWhile_le[of isspace s]
    by (simp add: skip_whitespace_rest)
  from a r obtain c r' where "r = c # r'" "isdigit c"
    by (cases r) (auto simp: scan_number_def split: if_splits)
  then show ?thesis using a r len scan_digits_shorter[of "code c - 48" r']
    by (auto simp: scan_number_def split: if_splits prod.splits)
qed

lemma parse_num_shorter: "parse_num cv cast s = (Inr x, r) \<Longrightarrow> length r < length s"
  by (auto simp: parse_num_def split: prod.splits if_splits)

lemma parse_num_cases:
  "parse_num cv cast s = (Inr x, r) \<longleftrightarrow>
     (\<exists>v. cv s = (v, False, r) \<and> length r < length s \<and> x = cast v)"
  by (auto simp: parse_num_def split: prod.splits)

section \<open>Printing numbers\<close>

definition digit_char :: "nat \<Rightarrow> char" where
  "digit_char d = char_of (48 + d)"

fun show_nat :: "nat \<Rightarrow> string" where
  "show_nat n = (if n < 10 then [digit_char n] else show_nat (n div 10) @ [digit_char (n mod 10)])"

declare show_nat.simps [simp del]

lemma code_digit_char: "d < 10 \<Longrightarrow> code (digit_char d) = 48 + d"
  by (simp add: code_def digit_char_def)

lemma isdigit_digit_char: "d < 10 \<Longrightarrow> isdigit (digit_char d)"
  by (simp add: isdigit_def code_digit_char)

lemma show_nat_digits: "list_all isdigit (show_nat n)"
  by (induction n rule: show_nat.induct) (subst show_nat.simps, simp add: isdigit_digit_char)

lemma show_nat_nonempty: "show_nat n \<noteq> []"
  by (subst show_nat.simps) simp

lemma scan_digits_append:
  "list_all isdigit ds \<Longrightarrow> scan_digits acc (ds @ r) = scan_digits (fst (scan_digits acc ds)) r"
  by (induction ds arbitrary: acc) auto

lemma scan_show_nat:
  "scan_digits acc (show_nat n) = (acc * 10 ^ length (show_nat n) + n, [])"
proof (induction n arbitrary: acc rule: show_nat.induct)
  case (1 n)
  show ?case
  proof (cases "n < 10")
    case True
    then show ?thesis
      by (subst (1 2) show_nat.simps) (simp add: isdigit_digit_char code_digit_char)
  next
    case False
    let ?p = "show_nat (n div 10)" and ?d = "digit_char (n mod 10)"
    have s: "show_nat n = ?p @ [?d]" using False by (subst show_nat.simps) simp
    have "scan_digits acc (?p @ [?d]) = scan_digits (acc * 10 ^ length ?p + n div 10) [?d]"
      using 1[OF False] show_nat_digits by (simp add: scan_digits_append)
    also have "\<dots> = ((acc * 10 ^ length ?p + n div 10) * 10 + n mod 10, [])"
      by (simp add: isdigit_digit_char code_digit_char)
    also have "(acc * 10 ^ length ?p + n div 10) * 10 + n mod 10 = acc * 10 ^ length (?p @ [?d]) + n"
      by (simp add: algebra_simps)
    finally show ?thesis by (simp only: s)
  qed
qed

text \<open>The rest of the input does not continue a number.\<close>

definition no_digit :: "string \<Rightarrow> bool" where
  "no_digit s \<longleftrightarrow> (case s of [] \<Rightarrow> True | c # r \<Rightarrow> \<not> isdigit c)"

lemma scan_digits_stop: "no_digit s \<Longrightarrow> scan_digits acc s = (acc, s)"
  by (cases s) (simp_all add: no_digit_def)

lemma digit_not_space: "isdigit c \<Longrightarrow> \<not> isspace c \<and> c \<noteq> CHR ''-'' \<and> c \<noteq> CHR ''+''"
  by (auto simp: isdigit_def isspace_def code_def)

lemma scan_number_show:
  assumes "no_digit r"
  shows "scan_number (show_nat n @ r) = Some (False, n, r)"
proof -
  obtain c cs where c: "show_nat n = c # cs" "isdigit c"
    using show_nat_nonempty[of n] show_nat_digits[of n] by (cases "show_nat n") auto
  have "scan_digits 0 (show_nat n @ r) = (n, r)"
    using scan_show_nat[of 0 n] scan_digits_stop[OF assms]
    by (simp add: scan_digits_append show_nat_digits)
  then show ?thesis using c digit_not_space[OF c(2)]
    by (simp add: scan_number_def read_sign_def)
qed

lemma ucast_word_of_nat_64: "ucast (word_of_nat n :: u64) = (word_of_nat n :: u32)"
  by (rule bit_word_eqI) (simp add: bit_simps)

text \<open>Reading a decimal number into an unsigned field: the parser stops right behind the digits,
  a number below \<open>2 ^ 32\<close> is read exactly, one from there up to \<open>2 ^ 64 - 1\<close> is accepted and
  reduced modulo \<open>2 ^ 32\<close> without an error, and a larger one is refused.\<close>

theorem parse_uint_decimal:
  assumes "no_digit r"
  shows "parse_uint (show_nat n @ r) =
    (if n \<le> ULONG_MAX then Inr (word_of_nat n) else Inl ErrorConvertingNumber, r)"
  using assms show_nat_nonempty[of n]
  by (simp add: parse_uint_def parse_num_def strtoul_def scan_number_show ucast_word_of_nat_64)

lemma parse_uint_decimal_witness:
  "parse_uint (show_nat 4294967297 @ '':5'') = (Inr 1, '':5'')"
proof -
  have "no_digit '':5''" by code_simp
  from parse_uint_decimal[OF this, of 4294967297] show ?thesis by (simp add: ULONG_MAX_def)
qed

lemma parse_uint_num:
  "no_digit r \<Longrightarrow> n \<le> ULONG_MAX \<Longrightarrow> parse_uint (show_nat n @ r) = (Inr (word_of_nat n), r)"
  using show_nat_nonempty[of n]
  by (simp add: parse_uint_def parse_num_def strtoul_def scan_number_show ucast_word_of_nat_64)

lemma parse_uint_show:
  assumes "no_digit r"
  shows "parse_uint (show_nat (unat n) @ r) = (Inr n, r)"
proof -
  have "unat n < 2 ^ 32" by (rule order_less_le_trans[OF unsigned_less]) simp
  then have "unat n \<le> ULONG_MAX" by (simp add: ULONG_MAX_def)
  from parse_uint_num[OF assms this] show ?thesis by simp
qed

section \<open>Tokens\<close>

text \<open>
  What the clients rely on: a value in its printed form is read back and the parser stops right
  behind it, when what follows cannot continue the token.
\<close>

locale token_parser =
  fixes parse :: "'a parser"
    and print :: "'a \<Rightarrow> string"
    and stop :: "string \<Rightarrow> bool"
  assumes parse_print: "stop r \<Longrightarrow> parse (print x @ r) = (Inr x, r)"
begin

lemma parse_then:
  "stop r \<Longrightarrow> pbind parse f (print x @ r) = f x r"
  by (simp add: pbind_def parse_print)

lemma parse_checked:
  "stop r \<Longrightarrow> pbind parse (\<lambda>x. pbind (ptest (P x) e) (\<lambda>_. pbind skip_ws (\<lambda>_. preturn x))) (print x @ r) =
     (if P x then (Inr x, dropWhile isspace r) else (Inl e, r))"
  by (simp add: parse_then) (simp add: pbind_def ptest_def preturn_def skip_ws_simp)

lemma parse_last:
  "stop ws \<Longrightarrow> list_all isspace ws \<Longrightarrow>
     pbind parse (\<lambda>x. pbind skip_ws (\<lambda>_. pbind parse_eos (\<lambda>_. preturn x))) (print x @ ws) = (Inr x, [])"
  by (simp add: parse_then) (simp add: pbind_def skip_ws_simp parse_eos_def preturn_def list_all_iff)

end

definition show_uint :: "u32 \<Rightarrow> string" where "show_uint n = show_nat (unat n)"
definition show_bit :: "bool \<Rightarrow> string" where "show_bit b = (if b then ''1'' else ''0'')"

definition show_int :: "u32 \<Rightarrow> string" where
  "show_int n = (if sint n < 0 then ''-'' @ show_nat (nat (- sint n)) else show_nat (nat (sint n)))"

lemma ucast_word_of_int_64: "(ucast (word_of_int i :: u64) :: u32) = word_of_int i"
  by (rule bit_word_eqI) (simp add: bit_simps)

lemma scan_number_minus:
  assumes "no_digit r"
  shows "scan_number (''-'' @ show_nat k @ r) = Some (True, k, r)"
proof -
  obtain c cs where c: "show_nat k = c # cs" "isdigit c"
    using show_nat_nonempty[of k] show_nat_digits[of k] by (cases "show_nat k") auto
  have "scan_digits 0 (show_nat k @ r) = (k, r)"
    using scan_show_nat[of 0 k] scan_digits_stop[OF assms]
    by (simp add: scan_digits_append show_nat_digits)
  then show ?thesis using c by (simp add: scan_number_def read_sign_def isspace_def code_def)
qed

lemma parse_int_show:
  assumes "no_digit r" shows "parse_int (show_int n @ r) = (Inr n, r)"
proof -
  have b: "- (2 ^ 31) \<le> sint n" "sint n < 2 ^ 31" using sint_ge[of n] sint_lt[of n] by simp_all
  have n: "(word_of_int (sint n) :: u32) = n" by simp
  show ?thesis
  proof (cases "sint n < 0")
    case True
    define k where "k = nat (- sint n)"
    have k: "k \<le> 2 ^ 31" "- int k = sint n" using True b by (simp_all add: k_def)
    have "(ucast (word_of_int (- int k) :: u64) :: u32) = n"
      by (simp only: ucast_word_of_int_64 k(2) n)
    with k(1) show ?thesis
      using True scan_number_minus[OF assms, of k]
      by (simp add: show_int_def k_def[symmetric] parse_int_def parse_num_def strtol_def)
  next
    case False
    define k where "k = nat (sint n)"
    have k: "k < 2 ^ 31" "int k = sint n" using False b by (simp_all add: k_def)
    then have "(word_of_nat k :: u32) = n" by (metis n of_int_of_nat_eq)
    with k show ?thesis
      using False scan_number_show[OF assms, of k] show_nat_nonempty[of k]
      by (simp add: show_int_def k_def[symmetric] parse_int_def parse_num_def strtol_def
          ucast_word_of_nat_64)
  qed
qed

interpretation uint_token: token_parser parse_uint show_uint no_digit
  by unfold_locales (simp add: show_uint_def parse_uint_show)

interpretation int_token: token_parser parse_int show_int no_digit
  by unfold_locales (rule parse_int_show)

interpretation bit_token: token_parser parse_bit show_bit "\<lambda>_. True"
  by unfold_locales (simp add: show_bit_def parse_bit_def)

interpretation text_token: token_parser parse_to_eos "\<lambda>s. s" "\<lambda>r. r = []"
  by unfold_locales (simp add: parse_to_eos_def)

end
