(* ===== verification/Bunch_Set.thy ===== *)
theory Bunch_Set
  imports Parse
begin

text \<open>
  Bunch sets as the operator types them (\<^verbatim>\<open>epics/src/bunch_set.c\<close>): a full range, or a list of
  bunches, ranges and stepped ranges, parsed into an array with one flag per bunch, and the
  update of a waveform at the selected bunches.  Bunch numbers are 32-bit; the range loop is
  over naturals, which agrees with the unsigned loop variable of the source as long as there are at
  most \<open>2 ^ 31\<close> bunches, so that \<^verbatim>\<open>i += skip\<close> does not wrap.
\<close>

datatype bunch_status = StatusOk | StatusError parse_error nat

record bunch_set =
  selection :: "bool list"
  status_string :: bunch_status
  status_minor :: bool

definition create_bunch_set :: "u32 \<Rightarrow> bunch_set" where
  "create_bunch_set bunches =
     \<lparr>selection = replicate (unat bunches) False, status_string = StatusOk, status_minor = False\<rparr>"

text \<open>The values of a waveform record replaced at the selected bunches.\<close>

definition update_record_with_bunch_set :: "u32 \<Rightarrow> bunch_set \<Rightarrow> 'a \<Rightarrow> 'a list \<Rightarrow> 'a list" where
  "update_record_with_bunch_set bunches bs v vs =
     map (\<lambda>i. if selection bs ! i then v else vs ! i) [0..<unat bunches]"

definition init_bunch_select :: "u32 \<Rightarrow> string" where
  "init_bunch_select bunches = ''0:'' @ show_int (bunches - 1)"

definition parse_bunch_num :: "u32 \<Rightarrow> u32 parser" where
  "parse_bunch_num bunches =
     pbind parse_uint (\<lambda>bunch. pbind (ptest (bunch < bunches) BunchNumberOutOfRange)
       (\<lambda>_. pbind skip_ws (\<lambda>_. preturn bunch)))"

function range_from :: "nat \<Rightarrow> nat \<Rightarrow> nat \<Rightarrow> nat list" where
  "range_from i skip e = (if i \<le> e \<and> 0 < skip then i # range_from (i + skip) skip e else [])"
  by pat_completeness auto
termination by (relation "measure (\<lambda>(i, skip, e). Suc e - i)") auto

declare range_from.simps [simp del]

definition set_range :: "u32 \<Rightarrow> u32 \<Rightarrow> u32 \<Rightarrow> bool list \<Rightarrow> bool list parser" where
  "set_range start skip e sel =
     pbind (ptest (start \<le> e) EmptyRange) (\<lambda>_. pbind (ptest (skip > 0) InvalidSkipInterval)
       (\<lambda>_. preturn (fold (\<lambda>i sel. sel[i := True]) (range_from (unat start) (unat skip) (unat e)) sel)))"

definition parse_colon :: "bool parser" where
  "parse_colon s = (let (b, r) = read_char (CHR '':'') s in (Inr b, r))"

text \<open>One iteration of the loop of \<^verbatim>\<open>parse_bunch_select\<close>.\<close>

definition parse_bunch_item :: "u32 \<Rightarrow> bool list \<Rightarrow> bool list parser" where
  "parse_bunch_item bunches sel =
     pbind (parse_bunch_num bunches) (\<lambda>bunch. pbind parse_colon (\<lambda>c1.
       if c1 then
         pbind (parse_bunch_num bunches) (\<lambda>bunch2. pbind parse_colon (\<lambda>c2.
           if c2 then pbind (parse_bunch_num bunches) (\<lambda>bunch3. set_range bunch bunch2 bunch3 sel)
           else set_range bunch 1 bunch2 sel))
       else preturn (sel[unat bunch := True])))"

lemma parse_bunch_num_shorter:
  "parse_bunch_num bunches s = (Inr b, r) \<Longrightarrow> length r < length s"
  unfolding parse_bunch_num_def pbind_def ptest_def preturn_def parse_uint_def
  by (auto simp: skip_ws_simp split: prod.splits sum.splits if_splits
      dest!: parse_num_shorter intro: order.strict_trans1[OF length_dropWhile_le])

lemma parse_colon_shorter: "parse_colon s = (x, r) \<Longrightarrow> length r \<le> length s"
  by (auto simp: parse_colon_def read_char_def split: list.splits if_splits)

lemma set_range_rest: "set_range a k e sel s = (x, r) \<Longrightarrow> r = s"
  by (auto simp: set_range_def pbind_def ptest_def preturn_def split: if_splits)

lemma parse_bunch_item_shorter:
  "parse_bunch_item bunches sel s = (Inr sel', r) \<Longrightarrow> length r < length s"
  unfolding parse_bunch_item_def pbind_def
  by (fastforce simp: preturn_def split: prod.splits sum.splits if_splits
      dest!: parse_bunch_num_shorter parse_colon_shorter set_range_rest)

function parse_bunch_items :: "u32 \<Rightarrow> bool list \<Rightarrow> bool list parser" where
  "parse_bunch_items bunches sel s =
     (case parse_bunch_item bunches sel s of
        (Inl e, r) \<Rightarrow> (Inl e, r)
      | (Inr sel', r) \<Rightarrow> if r \<noteq> [] then parse_bunch_items bunches sel' r else (Inr sel', r))"
  by pat_completeness auto
termination
  by (relation "measure (\<lambda>(bunches, sel, s). length s)") (auto dest: parse_bunch_item_shorter[OF sym])

declare parse_bunch_items.simps [simp del]

text \<open>\<open>old\<close> is the content of the array at entry.\<close>

definition parse_bunch_select :: "u32 \<Rightarrow> bool list \<Rightarrow> bool list parser" where
  "parse_bunch_select bunches old =
     pbind skip_ws (\<lambda>_. pbind parse_colon (\<lambda>c.
       if c then pbind skip_ws (\<lambda>_. pbind parse_eos (\<lambda>_. set_range 0 1 (bunches - 1) old))
       else parse_bunch_items bunches (replicate (unat bunches) False)))"

text \<open>
  The array on the stack is not initialised; \<open>garbage\<close> is what it holds.  The result says whether
  the write is accepted; the error position counts from one.
\<close>

definition write_bunch_select :: "u32 \<Rightarrow> bool list \<Rightarrow> string \<Rightarrow> bunch_set \<Rightarrow> bool \<times> bunch_set" where
  "write_bunch_select bunches garbage value bs =
     (case parse_bunch_select bunches garbage value of
        (Inr sel, r) \<Rightarrow> (True, bs\<lparr>selection := sel, status_string := StatusOk, status_minor := False\<rparr>)
      | (Inl e, r) \<Rightarrow> (False, bs\<lparr>status_string := StatusError e (length value - length r + 1),
                               status_minor := True\<rparr>))"

section \<open>Ranges\<close>

lemma set_range_from:
  assumes "0 < k"
  shows "set (range_from i k e) = {j. i \<le> j \<and> j \<le> e \<and> k dvd (j - i)}"
  using assms
proof (induction i k e rule: range_from.induct)
  case (1 i k e)
  show ?case
  proof (cases "i \<le> e")
    case False
    then show ?thesis by (subst range_from.simps) auto
  next
    case True
    have "j = i \<or> (i + k \<le> j \<and> k dvd (j - (i + k)))" if "i \<le> j" "k dvd (j - i)" for j
    proof (cases "j = i")
      case False
      then have "k \<le> j - i" using that by (intro dvd_imp_le) auto
      moreover have "j - (i + k) = (j - i) - k" by simp
      ultimately show ?thesis using that dvd_diff_nat[OF that(2), of k] by auto
    qed simp
    moreover have "k dvd (j - i)" if "i + k \<le> j" "k dvd (j - (i + k))" for j
    proof -
      have "j - i = (j - (i + k)) + k" using that by simp
      then show ?thesis using that by (metis dvd_add_triv_right_iff)
    qed
    moreover have "set (range_from i k e) = insert i {j. i + k \<le> j \<and> j \<le> e \<and> k dvd (j - (i + k))}"
      using True 1 by (subst range_from.simps) simp
    ultimately show ?thesis using True by (auto dest: add_leD1)
  qed
qed

lemma fold_select:
  "fold (\<lambda>i sel. sel[i := True]) is sel = map (\<lambda>j. sel ! j \<or> j \<in> set is) [0..<length sel]"
proof (induction "is" arbitrary: sel)
  case Nil
  show ?case by (simp add: map_upt_nth)
next
  case (Cons i "is")
  have "sel[i := True] ! j = (sel ! j \<or> j = i)" if "j < length sel" for j
    using that by (cases "j = i") auto
  then show ?case unfolding fold_simps Cons.IH by auto
qed
section \<open>Printed bunch sets\<close>

datatype bunch_item = Bunch u32 | Range u32 u32 | Stepped u32 u32 u32

fun show_item :: "bunch_item \<Rightarrow> string" where
  "show_item (Bunch b) = show_uint b"
| "show_item (Range a b) = show_uint a @ '':'' @ show_uint b"
| "show_item (Stepped a k b) = show_uint a @ '':'' @ show_uint k @ '':'' @ show_uint b"

fun show_items :: "bunch_item list \<Rightarrow> string" where
  "show_items [] = []"
| "show_items [x] = show_item x"
| "show_items (x # xs) = show_item x @ '' '' @ show_items xs"

fun valid_item :: "u32 \<Rightarrow> bunch_item \<Rightarrow> bool" where
  "valid_item n (Bunch b) = (b < n)"
| "valid_item n (Range a b) = (a \<le> b \<and> b < n)"
| "valid_item n (Stepped a k b) = (a \<le> b \<and> b < n \<and> 0 < k \<and> k < n)"

text \<open>The bunches an item stands for.\<close>

fun selects :: "nat \<Rightarrow> bunch_item \<Rightarrow> bool" where
  "selects i (Bunch b) = (i = unat b)"
| "selects i (Range a b) = (unat a \<le> i \<and> i \<le> unat b)"
| "selects i (Stepped a k b) = (unat a \<le> i \<and> i \<le> unat b \<and> (i - unat a) mod unat k = 0)"

definition add_item :: "bunch_item \<Rightarrow> bool list \<Rightarrow> bool list" where
  "add_item x sel = map (\<lambda>i. sel ! i \<or> selects i x) [0..<length sel]"

lemma length_add_item [simp]: "length (add_item x sel) = length sel"
  by (simp add: add_item_def)

text \<open>What may follow an item: no digit, and no colon after the white space.\<close>

definition item_end :: "string \<Rightarrow> bool" where
  "item_end r \<longleftrightarrow> no_digit r \<and> fst (read_char (CHR '':'') (dropWhile isspace r)) = False"

lemma no_digit_colon [simp]: "no_digit (CHR '':'' # r)"
  by (simp add: no_digit_def isdigit_def code_def)

lemma parse_bunch_num_show:
  "no_digit r \<Longrightarrow> parse_bunch_num n (show_uint b @ r) =
     (if b < n then (Inr b, dropWhile isspace r) else (Inl BunchNumberOutOfRange, r))"
  unfolding parse_bunch_num_def by (rule uint_token.parse_checked)

lemma colon_not_space [simp]: "\<not> isspace (CHR '':'')"
  by (simp add: isspace_def code_def)

lemma parse_bunch_num_colon:
  "b < n \<Longrightarrow> parse_bunch_num n (show_uint b @ CHR '':'' # r) = (Inr b, CHR '':'' # r)"
  by (simp add: parse_bunch_num_show)

lemma parse_colon_read [simp]: "parse_colon (CHR '':'' # r) = (Inr True, r)"
  by (simp add: parse_colon_def read_char_def)

lemma parse_colon_end: "item_end r \<Longrightarrow> parse_colon (dropWhile isspace r) = (Inr False, dropWhile isspace r)"
proof -
  assume "item_end r"
  moreover have "fst (read_char (CHR '':'') t) = False \<Longrightarrow> parse_colon t = (Inr False, t)" for t
    by (cases t) (simp_all add: parse_colon_def read_char_def split: if_splits)
  ultimately show ?thesis unfolding item_end_def by blast
qed

lemma set_range_ok:
  assumes "a \<le> b" "0 < k" "length sel = unat n" "b < n"
  shows "set_range a k b sel s = (Inr (add_item (Stepped a k b) sel), s)"
proof -
  have k: "0 < unat k" using assms(2) by (simp add: unat_gt_0 word_gt_0)
  have "fold (\<lambda>i sel. sel[i := True]) (range_from (unat a) (unat k) (unat b)) sel =
      add_item (Stepped a k b) sel"
    unfolding fold_select set_range_from[OF k] add_item_def
    by (auto simp: mod_eq_0_iff_dvd)
  then show ?thesis using assms by (simp add: set_range_def pbind_def ptest_def preturn_def)
qed

lemma add_item_range: "add_item (Range a b) sel = add_item (Stepped a 1 b) sel"
  by (simp add: add_item_def)

lemma add_item_bunch: "b < n \<Longrightarrow> length sel = unat n \<Longrightarrow> add_item (Bunch b) sel = sel[unat b := True]"
  by (rule nth_equalityI) (auto simp: add_item_def nth_list_update word_less_nat_alt)

lemma parse_item_show:
  assumes "valid_item n x" "item_end r" "length sel = unat n"
  shows "parse_bunch_item n sel (show_item x @ r) = (Inr (add_item x sel), dropWhile isspace r)"
proof -
  have nd: "no_digit r" using assms(2) by (simp add: item_end_def)
  note parse = parse_bunch_num_colon parse_bunch_num_show[OF nd] parse_colon_end[OF assms(2)] pbind_def
  show ?thesis
  proof (cases x)
    case (Bunch b)
    then show ?thesis using assms
      by (simp add: parse_bunch_item_def parse preturn_def add_item_bunch)
  next
    case (Range a b)
    then have "a < n" using assms(1) by auto
    with Range show ?thesis using assms
      by (simp add: parse_bunch_item_def parse add_item_range set_range_ok)
  next
    case (Stepped a k b)
    then have "a < n" using assms(1) by auto
    with Stepped show ?thesis using assms
      by (simp add: parse_bunch_item_def parse set_range_ok)
  qed
qed

lemma show_uint_digit: "\<exists>c cs. show_uint b = c # cs \<and> isdigit c"
  using show_nat_nonempty[of "unat b"] show_nat_digits[of "unat b"]
  by (cases "show_nat (unat b)") (auto simp: show_uint_def)

lemma show_item_digit: "\<exists>c cs. show_item x = c # cs \<and> isdigit c"
  by (cases x) (auto dest: show_uint_digit[THEN exE] intro: show_uint_digit simp: append_eq_Cons_conv
    | metis show_uint_digit append_Cons)+

lemma show_items_digit: "xs \<noteq> [] \<Longrightarrow> \<exists>c cs. show_items xs = c # cs \<and> isdigit c"
  using show_item_digit[of "hd xs"] by (induction xs rule: show_items.induct) auto

lemma digit_not_colon: "isdigit c \<Longrightarrow> c \<noteq> CHR '':''"
  by (auto simp: isdigit_def code_def)

lemma space_facts [simp]: "isspace (CHR '' '')" "no_digit (CHR '' '' # r)"
  by (simp_all add: isspace_def no_digit_def isdigit_def code_def)

lemma item_end_items: "xs \<noteq> [] \<Longrightarrow> item_end ('' '' @ show_items xs)"
  using show_items_digit[of xs] digit_not_space digit_not_colon
  by (auto simp: item_end_def read_char_def)

lemma drop_space_items: "xs \<noteq> [] \<Longrightarrow> dropWhile isspace ('' '' @ show_items xs) = show_items xs"
  using show_items_digit[of xs] digit_not_space by (auto simp: isspace_def code_def)

lemma parse_items_show:
  assumes "xs \<noteq> []" "list_all (valid_item n) xs" "length sel = unat n"
  shows "parse_bunch_items n sel (show_items xs) = (Inr (fold add_item xs sel), [])"
  using assms
proof (induction xs arbitrary: sel rule: show_items.induct)
  case (2 x)
  have e: "item_end []" by (simp add: item_end_def no_digit_def read_char_def)
  have "parse_bunch_item n sel (show_item x) = (Inr (add_item x sel), [])"
    using parse_item_show[OF _ e 2(3), of x] 2(2) by simp
  then show ?case by (subst parse_bunch_items.simps) simp
next
  case (3 x y ys)
  let ?r = "'' '' @ show_items (y # ys)"
  have "parse_bunch_item n sel (show_item x @ ?r) = (Inr (add_item x sel), show_items (y # ys))"
    using parse_item_show[OF _ item_end_items, of n x "y # ys" sel] 3(3,4) drop_space_items[of "y # ys"]
    by simp
  moreover have "show_items (y # ys) \<noteq> []" using show_items_digit[of "y # ys"] by auto
  ultimately have "parse_bunch_items n sel (show_items (x # y # ys)) =
      parse_bunch_items n (add_item x sel) (show_items (y # ys))"
    by (subst parse_bunch_items.simps) simp
  also have "\<dots> = (Inr (fold add_item (y # ys) (add_item x sel)), [])"
    using 3 by (intro 3(1)) simp_all
  finally show ?case by simp
qed simp

lemma fold_add_item:
  "fold add_item xs sel = map (\<lambda>i. sel ! i \<or> list_ex (selects i) xs) [0..<length sel]"
  by (induction xs arbitrary: sel) (auto simp: map_upt_nth add_item_def)

text \<open>C11 A bunch selection is what it says: every non-empty list of bunches, ranges and stepped ranges
  within the ring, written with colons and separated by blanks, is accepted and selects exactly
  the bunches the items stand for.\<close>

theorem bunch_selection_roundtrip:
  assumes "xs \<noteq> []" "list_all (valid_item n) xs"
  shows "write_bunch_select n garbage (show_items xs) bs =
    (True, bs\<lparr>selection := map (\<lambda>i. list_ex (selects i) xs) [0..<unat n],
              status_string := StatusOk, status_minor := False\<rparr>)"
proof -
  obtain c cs where c: "show_items xs = c # cs" "isdigit c"
    using show_items_digit[OF assms(1)] by blast
  then have "dropWhile isspace (show_items xs) = show_items xs" "parse_colon (show_items xs) = (Inr False, show_items xs)"
    using digit_not_space[OF c(2)] by (auto simp: parse_colon_def read_char_def isdigit_def code_def)
  then have "parse_bunch_select n garbage (show_items xs) =
      parse_bunch_items n (replicate (unat n) False) (show_items xs)"
    by (simp add: parse_bunch_select_def pbind_def skip_ws_simp)
  also have "\<dots> = (Inr (map (\<lambda>i. list_ex (selects i) xs) [0..<unat n]), [])"
    using parse_items_show[OF assms, of "replicate (unat n) False"]
    by (simp add: fold_add_item) 
  finally show ?thesis by (simp add: write_bunch_select_def)
qed

lemma bunch_selection_roundtrip_witness:
  "write_bunch_select 8 [] (show_items [Bunch 0, Stepped 3 2 7]) (create_bunch_set 8) =
     (True, (create_bunch_set 8)\<lparr>selection := [True, False, False, True, False, True, False, True]\<rparr>)"
proof -
  have v: "list_all (valid_item 8) [Bunch 0, Stepped 3 2 7]" by simp
  have u: "[0..<8] = [0,1,2,3,4,5,6,7]" by (simp add: upt_rec)
  show ?thesis using bunch_selection_roundtrip[OF _ v, of "[]" "create_bunch_set 8"]
    by (simp add: u create_bunch_set_def)
qed

lemma length_fold_select: "length (fold (\<lambda>i sel. sel[i := True]) is sel) = length sel"
  by (induction "is" arbitrary: sel) simp_all

lemma length_set_range: "set_range a k e sel s = (Inr sel', r) \<Longrightarrow> length sel' = length sel"
  by (auto simp: set_range_def pbind_def ptest_def preturn_def length_fold_select split: if_splits)

lemma length_parse_item: "parse_bunch_item n sel s = (Inr sel', r) \<Longrightarrow> length sel' = length sel"
  unfolding parse_bunch_item_def pbind_def
  by (auto simp: preturn_def split: prod.splits sum.splits if_splits dest: length_set_range)

lemma length_parse_items: "parse_bunch_items n sel s = (Inr sel', r) \<Longrightarrow> length sel' = length sel"
proof (induction n sel s rule: parse_bunch_items.induct)
  case (1 n sel s)
  obtain x r1 where x: "parse_bunch_item n sel s = (x, r1)" by fastforce
  show ?case
  proof (cases x)
    case (Inl e)
    then show ?thesis using 1(2) x by (subst (asm) parse_bunch_items.simps) simp
  next
    case (Inr sel1)
    then show ?thesis using 1(2) x 1(1)[OF x[symmetric] Inr] length_parse_item[of n sel s sel1 r1]
      by (subst (asm) parse_bunch_items.simps) (simp split: if_splits)
  qed
qed

lemma length_parse_select:
  assumes "parse_bunch_select n old s = (Inr sel, r)" "length old = unat n"
  shows "length sel = unat n"
proof -
  obtain s' b r' where p: "skip_ws s = (Inr (), s')" "parse_colon s' = (Inr b, r')"
    unfolding skip_ws_def parse_colon_def
    by (cases "read_char (CHR '':'') (snd (skip_whitespace s))") simp
  show ?thesis
  proof (cases b)
    case True
    then have "\<exists>s. set_range 0 1 (n - 1) old s = (Inr sel, r)"
      using assms(1) p
      by (auto simp: parse_bunch_select_def pbind_def skip_ws_def parse_eos_def split: if_splits)
    then show ?thesis using assms(2) length_set_range by metis
  next
    case False
    then show ?thesis using assms(1) p length_parse_items[of n "replicate (unat n) False" r' sel r]
      by (simp add: parse_bunch_select_def pbind_def)
  qed
qed

text \<open>Whatever is typed, the selection keeps one flag for each bunch; a rejected text leaves the
  selection as it was and reports the position of the error within the text.\<close>

theorem bunch_selection_any_text:
  assumes "length garbage = unat n" "length (selection bs) = unat n"
  shows "length (selection (snd (write_bunch_select n garbage typed bs))) = unat n \<and>
    (fst (write_bunch_select n garbage typed bs) \<or>
     selection (snd (write_bunch_select n garbage typed bs)) = selection bs \<and>
     (\<exists>e p. status_string (snd (write_bunch_select n garbage typed bs)) = StatusError e p \<and>
            1 \<le> p \<and> p \<le> length typed + 1))"
  using assms length_parse_select[of n garbage typed]
  by (auto simp: write_bunch_select_def split: prod.splits sum.splits)

lemma bunch_selection_any_text_witness:
  "length (selection (snd (write_bunch_select 4 [True, False, True, True] ''2:9'' (create_bunch_set 4)))) = 4"
  using bunch_selection_any_text[of "[True, False, True, True]" 4 "create_bunch_set 4" "''2:9''"]
  by (simp add: create_bunch_set_def)

end
