(* ===== verification/Config_File.thy ===== *)
theory Config_File
  imports Parse System_Config
begin

text \<open>
  Configuration files (\<^verbatim>\<open>epics/src/config_file.c\<close>): reading lines with continuation into a fixed
  buffer, parsing \<^verbatim>\<open>name = value\<close> against a table of typed entries, and the two tables of
  \<^verbatim>\<open>configs.c\<close>.  A file is the list of its characters, none of them null; an error of the read
  itself is not modelled.  The address of an entry is a name for the variable it points to, and the
  variables are a map.  \<^verbatim>\<open>strtod\<close> is a parameter, and \<open>'d\<close> the type of doubles.
\<close>

datatype config_entry_type = CONFIG_int | CONFIG_uint | CONFIG_double | CONFIG_string | CONFIG_bool

datatype 'd config_value = VInt u32 | VUint u32 | VDouble 'd | VString string | VBool bool

record config_entry =
  entry_type :: config_entry_type
  name :: string
  address :: string

datatype config_error =
    UnableToOpen
  | ReadBufferOverflow nat
  | OutOfReadBuffer nat
  | ErrorParsing parse_error nat nat
  | Repeated string nat
  | NoValue string

record 'd config_state =
  vars :: "string \<Rightarrow> 'd config_value option"
  seen :: "bool list"

definition NAME_LENGTH :: nat where "NAME_LENGTH = 40"
definition LINE_SIZE :: nat where "LINE_SIZE = 200"

fun lookup_from :: "nat \<Rightarrow> string \<Rightarrow> config_entry list \<Rightarrow> nat option" where
  "lookup_from i nm [] = None"
| "lookup_from i nm (e # es) = (if nm = name e then Some i else lookup_from (Suc i) nm es)"

definition lookup_name :: "string \<Rightarrow> config_entry list \<Rightarrow> nat option" where
  "lookup_name nm table = lookup_from 0 nm table"

definition pmap :: "('a \<Rightarrow> 'b) \<Rightarrow> 'a parser \<Rightarrow> 'b parser" where
  "pmap f p = pbind p (\<lambda>x. preturn (f x))"

fun parse_value :: "(string \<Rightarrow> 'd \<times> bool \<times> string) \<Rightarrow> config_entry_type \<Rightarrow> 'd config_value parser" where
  "parse_value strtod CONFIG_int = pmap VInt parse_int"
| "parse_value strtod CONFIG_uint = pmap VUint parse_uint"
| "parse_value strtod CONFIG_string = pmap VString parse_to_eos"
| "parse_value strtod CONFIG_double = pmap VDouble (parse_double strtod)"
| "parse_value strtod CONFIG_bool = pmap VBool parse_bit"

text \<open>The part of a line up to its value.\<close>

definition parse_key :: "string parser" where
  "parse_key = pbind (parse_alphanum_name NAME_LENGTH) (\<lambda>nm. pbind skip_ws (\<lambda>_.
     pbind (parse_char (CHR ''='')) (\<lambda>_. pbind skip_ws (\<lambda>_. preturn nm))))"

text \<open>A conversion that fails is an error that ends the load, so its value is not kept.\<close>

definition do_parse_line ::
  "(string \<Rightarrow> 'd \<times> bool \<times> string) \<Rightarrow> config_entry list \<Rightarrow> bool \<Rightarrow> nat \<Rightarrow> string \<Rightarrow>
   'd config_state \<Rightarrow> 'd config_state \<times> config_error option" where
  "do_parse_line strtod table ignore_unknown line_number line st =
     (let s = dropWhile isspace line;
          failed = (\<lambda>e r. ErrorParsing e line_number (length line - length r))
      in if s = [] \<or> hd s = CHR ''#'' then (st, None)
         else case parse_key s of
           (Inl e, r) \<Rightarrow> (st, Some (failed e r))
         | (Inr nm, r) \<Rightarrow>
             (case lookup_name nm table of
                None \<Rightarrow> (st, if ignore_unknown then None else Some (failed (IdentifierNotKnown nm) r))
              | Some ix \<Rightarrow>
                  (case parse_value strtod (entry_type (table ! ix)) r of
                     (Inl e, r1) \<Rightarrow> (st, Some (failed e r1))
                   | (Inr v, r1) \<Rightarrow>
                       let st1 = st\<lparr>vars := (vars st)(address (table ! ix) \<mapsto> v)\<rparr>
                       in (case pbind skip_ws (\<lambda>_. parse_eos) r1 of
                             (Inl e, r2) \<Rightarrow> (st1, Some (failed e r2))
                           | (Inr _, r2) \<Rightarrow>
                               if seen st1 ! ix then (st1, Some (Repeated nm line_number))
                               else (st1\<lparr>seen := (seen st1)[ix := True]\<rparr>, None)))))"

section \<open>Lines\<close>

text \<open>\<^verbatim>\<open>fgets\<close> with a buffer of \<open>n\<close> bytes: the characters read and the rest of the file.\<close>

fun fgets :: "nat \<Rightarrow> string \<Rightarrow> string \<times> string" where
  "fgets n [] = ([], [])"
| "fgets n (c # cs) =
     (if n \<le> 1 then ([], c # cs)
      else if c = CHR 10 then ([c], cs)
      else (let (l, r) = fgets (n - 1) cs in (c # l, r)))"

text \<open>The line without its newline, the rest of the file, end of file, error.\<close>

definition read_one_line ::
  "nat \<Rightarrow> nat \<Rightarrow> string \<Rightarrow> string \<times> string \<times> bool \<times> config_error option" where
  "read_one_line line_length line_number input =
     (if input = [] then ([], [], True, None)
      else (let (l, r) = fgets line_length input
            in if l \<noteq> [] \<and> last l = CHR 10 then (butlast l, r, False, None)
               else (l, r, False, if length l + 1 < line_length then None
                                  else Some (ReadBufferOverflow line_number))))"

lemma fgets_split: "fgets n s = (l, r) \<Longrightarrow> s = l @ r"
  by (induction n s arbitrary: l r rule: fgets.induct) (auto split: if_splits prod.splits)

lemma fgets_nonempty: "1 < n \<Longrightarrow> s \<noteq> [] \<Longrightarrow> fst (fgets n s) \<noteq> []"
  by (cases s) (auto split: prod.splits)

text \<open>
  \<^verbatim>\<open>read_line\<close>: \<open>line_length\<close> is what is left of the buffer and \<open>acc\<close> the text already in it.
\<close>

function read_line ::
  "nat \<Rightarrow> nat \<Rightarrow> string \<Rightarrow> string \<Rightarrow> string \<times> string \<times> nat \<times> bool \<times> config_error option" where
  "read_line line_length line_number acc input =
     (let line_number = line_number + 1;
          (l, r, eof, err) = read_one_line line_length line_number input;
          want_line = (err = None \<and> \<not> eof \<and> l \<noteq> [] \<and> last l = CHR 0x5C)
      in if want_line
         then (let line_length = line_length - (length l - 1)
               in if \<not> line_length > 2 then (acc @ butlast l, r, line_number, eof, Some (OutOfReadBuffer line_number))
                  else read_line line_length line_number (acc @ butlast l) r)
         else (acc @ l, r, line_number, eof, err))"
  by pat_completeness auto
termination
proof (relation "measure (\<lambda>(line_length, line_number, acc, input). length input)", goal_cases)
  case (2 line_length line_number acc input n x l y r z eof err want len)
  then have "read_one_line line_length n input = (l, r, eof, err)" "input \<noteq> []" "l \<noteq> []"
    by (auto simp: read_one_line_def)
  then have "length r < length input"
    by (auto simp: read_one_line_def split: prod.splits if_splits dest!: fgets_split)
  then show ?case by simp
qed simp

declare read_line.simps [simp del]
lemma read_line_shorter:
  "read_line n k acc input = (l, r, k', eof, err) \<Longrightarrow> \<not> eof \<Longrightarrow> 1 < n \<Longrightarrow> length r < length input"
proof (induction n k acc input arbitrary: l r k' eof err rule: read_line.induct)
  case (1 n k acc input)
  obtain l1 r1 e1 er1 where one: "read_one_line n (k + 1) input = (l1, r1, e1, er1)"
    by (metis prod_cases4)
  have len: "length r1 < length input" if "input \<noteq> []"
    using one that fgets_nonempty[OF 1(4), of input]
    by (auto simp: read_one_line_def split: prod.splits if_splits dest!: fgets_split)
  have e1: "input = [] \<Longrightarrow> e1" using one by (auto simp: read_one_line_def)
  show ?case
  proof (cases "er1 = None \<and> \<not> e1 \<and> l1 \<noteq> [] \<and> last l1 = CHR 0x5C")
    case True
    then have "input \<noteq> []" using e1 by auto
    show ?thesis
    proof (cases "n - (length l1 - 1) > 2")
      case False
      then show ?thesis using 1(2) one True len[OF \<open>input \<noteq> []\<close>]
        by (subst (asm) read_line.simps) simp
    next
      case True2: True
      then have "read_line (n - (length l1 - 1)) (k + 1) (acc @ butlast l1) r1 = (l, r, k', eof, err)"
        using 1(2) one True by (subst (asm) read_line.simps) simp
      from 1(1)[OF refl refl one[symmetric] refl refl refl _ refl _ this 1(3)] True True2
      have "length r < length r1" by simp
      then show ?thesis using len[OF \<open>input \<noteq> []\<close>] by simp
    qed
  next
    case False
    then have "r = r1" "eof = e1" using 1(2) one by (subst (asm) read_line.simps, simp split: if_splits)+
    then show ?thesis using len e1 1(3) by auto
  qed
qed

section \<open>Loading\<close>

function load_lines ::
  "(string \<Rightarrow> 'd \<times> bool \<times> string) \<Rightarrow> config_entry list \<Rightarrow> bool \<Rightarrow> nat \<Rightarrow> string \<Rightarrow>
   'd config_state \<Rightarrow> 'd config_state \<times> config_error option" where
  "load_lines strtod table ignore_unknown line_number input st =
     (let (line, r, line_number, eof, err) = read_line LINE_SIZE line_number [] input
      in case err of Some e \<Rightarrow> (st, Some e)
         | None \<Rightarrow>
             (case do_parse_line strtod table ignore_unknown line_number line st of
                (st1, Some e) \<Rightarrow> (st1, Some e)
              | (st1, None) \<Rightarrow> if eof then (st1, None)
                             else load_lines strtod table ignore_unknown line_number r st1))"
  by pat_completeness auto
termination
  by (relation "measure (\<lambda>(strtod, table, ignore, k, input, st). length input)")
    (auto simp: LINE_SIZE_def dest!: read_line_shorter[OF sym])

declare load_lines.simps [simp del]

text \<open>The check that all required entries were present.\<close>

fun check_seen :: "config_entry list \<Rightarrow> bool list \<Rightarrow> config_error option" where
  "check_seen (e # es) (b # bs) = (if b then check_seen es bs else Some (NoValue (name e)))"
| "check_seen _ _ = None"

text \<open>\<open>file\<close> is \<open>None\<close> when the file cannot be opened.\<close>

definition load_config_file ::
  "(string \<Rightarrow> 'd \<times> bool \<times> string) \<Rightarrow> string option \<Rightarrow> config_entry list \<Rightarrow> bool \<Rightarrow>
   (string \<Rightarrow> 'd config_value option) \<Rightarrow> (string \<Rightarrow> 'd config_value option) \<times> config_error option" where
  "load_config_file strtod file table ignore_unknown vs =
     (case file of
        None \<Rightarrow> (vs, Some UnableToOpen)
      | Some input \<Rightarrow>
          (case load_lines strtod table ignore_unknown 0 input
                  \<lparr>vars = vs, seen = replicate (length table) False\<rparr> of
             (st, Some e) \<Rightarrow> (vars st, Some e)
           | (st, None) \<Rightarrow> (vars st, check_seen table (seen st))))"

section \<open>The tables\<close>

definition delay_entry :: "string \<Rightarrow> config_entry" where
  "delay_entry n = \<lparr>entry_type = CONFIG_int, name = n, address = n\<rparr>"

definition hardware_delays_entries :: "config_entry list" where
  "hardware_delays_entries = map delay_entry
     [''MMS_ADC_DELAY'', ''MMS_ADC_REJECT_DELAY'', ''MMS_ADC_FIR_DELAY'', ''MMS_DAC_DELAY'',
      ''MMS_DAC_FIR_DELAY'', ''MMS_DAC_FEEDBACK_DELAY'',
      ''DRAM_ADC_DELAY'', ''DRAM_ADC_REJECT_DELAY'', ''DRAM_ADC_FIR_DELAY'', ''DRAM_DAC_DELAY'',
      ''DRAM_FIR_DELAY'', ''DRAM_DAC_FIR_DELAY'',
      ''BUNCH_GAIN_OFFSET'', ''BUNCH_FIR_OFFSET'',
      ''DET_ADC_OFFSET'', ''DET_ADC_REJECT_OFFSET'', ''DET_FIR_OFFSET'',
      ''DET_ADC_DELAY'', ''DET_ADC_REJECT_DELAY'', ''DET_FIR_DELAY'',
      ''PLL_ADC_OFFSET'', ''PLL_FIR_OFFSET'', ''PLL_ADC_REJECT_OFFSET'',
      ''PLL_ADC_DELAY'', ''PLL_ADC_REJECT_DELAY'', ''PLL_FIR_DELAY'']"

definition system_entry :: "config_entry_type \<Rightarrow> string \<Rightarrow> config_entry" where
  "system_entry t n = \<lparr>entry_type = t, name = n, address = n\<rparr>"

definition system_config_entries :: "config_entry list" where
  "system_config_entries =
     [system_entry CONFIG_string ''device_address'', system_entry CONFIG_string ''epics_name'',
      system_entry CONFIG_string ''axis0_name'', system_entry CONFIG_string ''axis1_name'',
      system_entry CONFIG_uint ''bunches_per_turn'', system_entry CONFIG_bool ''lmbf_mode'',
      system_entry CONFIG_double ''lmbf_fir_offset'', system_entry CONFIG_double ''revolution_frequency'',
      system_entry CONFIG_uint ''mms_poll_interval'', system_entry CONFIG_string ''persistence_file'',
      system_entry CONFIG_int ''persistence_interval'', system_entry CONFIG_int ''pv_log_array_length'',
      system_entry CONFIG_int ''archive_interval'', system_entry CONFIG_uint ''memory_readout_length'',
      system_entry CONFIG_uint ''detector_length'', system_entry CONFIG_uint ''data_port'',
      system_entry CONFIG_uint ''tune_pll_length'']"

section \<open>A successful load is complete\<close>

fun has_type :: "'d config_value \<Rightarrow> config_entry_type \<Rightarrow> bool" where
  "has_type (VInt _) t = (t = CONFIG_int)"
| "has_type (VUint _) t = (t = CONFIG_uint)"
| "has_type (VDouble _) t = (t = CONFIG_double)"
| "has_type (VString _) t = (t = CONFIG_string)"
| "has_type (VBool _) t = (t = CONFIG_bool)"

lemma parse_value_type: "parse_value strtod t s = (Inr v, r) \<Longrightarrow> has_type v t"
  by (cases t) (auto simp: pmap_def pbind_def preturn_def split: prod.splits sum.splits)

lemma lookup_from_bound:
  "lookup_from k nm es = Some i \<Longrightarrow> k \<le> i \<and> i < k + length es \<and> name (es ! (i - k)) = nm"
proof (induction k nm es rule: lookup_from.induct)
  case (2 k nm e es)
  show ?case
  proof (cases "nm = name e")
    case False
    then have "Suc k \<le> i" "i < Suc k + length es" "name (es ! (i - Suc k)) = nm" using 2 by auto
    moreover from this have "i - k = Suc (i - Suc k)" by simp
    ultimately show ?thesis by simp
  qed (use 2 in simp)
qed simp

lemma lookup_name_bound: "lookup_name nm es = Some i \<Longrightarrow> i < length es \<and> name (es ! i) = nm"
  using lookup_from_bound[of 0 nm es i] by (simp add: lookup_name_def)

text \<open>Every entry seen so far has a value of its type.\<close>

definition config_ok :: "config_entry list \<Rightarrow> 'd config_state \<Rightarrow> bool" where
  "config_ok table st \<longleftrightarrow> length (seen st) = length table \<and>
     (\<forall>i < length table. seen st ! i \<longrightarrow>
        (\<exists>v. vars st (address (table ! i)) = Some v \<and> has_type v (entry_type (table ! i))))"

lemma config_ok_write:
  assumes "config_ok table st" "distinct (map address table)" "ix < length table"
    and "has_type v (entry_type (table ! ix))"
  shows "config_ok table (st\<lparr>vars := (vars st)(address (table ! ix) \<mapsto> v)\<rparr>)"
    and "config_ok table (st\<lparr>vars := (vars st)(address (table ! ix) \<mapsto> v), seen := (seen st)[ix := True]\<rparr>)"
proof -
  have "address (table ! i) = address (table ! ix) \<longleftrightarrow> i = ix" if "i < length table" for i
    using assms(2,3) that by (metis distinct_conv_nth length_map nth_map)
  then show "config_ok table (st\<lparr>vars := (vars st)(address (table ! ix) \<mapsto> v)\<rparr>)"
    and "config_ok table (st\<lparr>vars := (vars st)(address (table ! ix) \<mapsto> v), seen := (seen st)[ix := True]\<rparr>)"
    using assms by (auto simp: config_ok_def nth_list_update)
qed

lemma config_ok_line:
  assumes "config_ok table st" "distinct (map address table)"
  shows "config_ok table (fst (do_parse_line strtod table ignore k line st))"
proof -
  note w = config_ok_write[OF assms]
  show ?thesis using assms(1)
    by (auto simp: do_parse_line_def Let_def intro!: w dest!: lookup_name_bound parse_value_type
        split: prod.splits sum.splits option.splits)
qed

lemma config_ok_lines:
  "config_ok table st \<Longrightarrow> distinct (map address table) \<Longrightarrow>
   config_ok table (fst (load_lines strtod table ignore k input st))"
proof (induction strtod table ignore k input st rule: load_lines.induct)
  case (1 strtod table ignore k input st)
  obtain line r k' eof err where rl: "read_line LINE_SIZE k [] input = (line, r, k', eof, err)"
    by (metis prod_cases5)
  obtain st1 er where pl: "do_parse_line strtod table ignore k' line st = (st1, er)" by fastforce
  have "config_ok table st1" using config_ok_line[OF 1(2,3)] pl by (metis fst_conv)
  then show ?case using 1 rl pl
    by (subst load_lines.simps) (auto split: option.splits)
qed

lemma check_seen_None:
  "check_seen es bs = None \<Longrightarrow> length es = length bs \<Longrightarrow> list_all id bs"
  by (induction es bs rule: check_seen.induct) (auto split: if_splits)

lemma length_seen_line [simp]:
  "length (seen (fst (do_parse_line strtod table ignore k line st))) = length (seen st)"
  by (auto simp: do_parse_line_def Let_def split: prod.splits sum.splits option.splits)

text \<open>A configuration file that loads without an error gives every variable of the table a value of
  the type the table asks for, whatever else the file holds.\<close>

theorem load_config_complete:
  assumes "distinct (map address table)"
    and "load_config_file strtod (Some input) table ignore_unknown vs = (vs', None)"
  shows "list_all (\<lambda>e. \<exists>v. vs' (address e) = Some v \<and> has_type v (entry_type e)) table"
proof -
  let ?st0 = "\<lparr>vars = vs, seen = replicate (length table) False\<rparr>"
  obtain st where st: "load_lines strtod table ignore_unknown 0 input ?st0 = (st, None)"
      "vars st = vs'" "check_seen table (seen st) = None"
    using assms(2) by (auto simp: load_config_file_def split: prod.splits option.splits)
  have "config_ok table ?st0" by (simp add: config_ok_def)
  from config_ok_lines[OF this assms(1), of strtod ignore_unknown 0 input] st(1)
  have ok: "config_ok table st" by simp
  then have "list_all id (seen st)" using st(3) by (intro check_seen_None) (auto simp: config_ok_def)
  then show ?thesis using ok st(2)
    by (auto simp: config_ok_def list_all_length)
qed

section \<open>Printed files\<close>

fun show_value :: "('d \<Rightarrow> string) \<Rightarrow> 'd config_value \<Rightarrow> string" where
  "show_value show_d (VInt n) = show_int n"
| "show_value show_d (VUint n) = show_uint n"
| "show_value show_d (VDouble d) = show_d d"
| "show_value show_d (VString s) = s"
| "show_value show_d (VBool b) = show_bit b"

definition show_config_line :: "('d \<Rightarrow> string) \<Rightarrow> config_entry \<times> 'd config_value \<Rightarrow> string" where
  "show_config_line show_d x = name (fst x) @ '' = '' @ show_value show_d (snd x)"

definition show_config :: "('d \<Rightarrow> string) \<Rightarrow> (config_entry \<times> 'd config_value) list \<Rightarrow> string" where
  "show_config show_d items = concat (map (\<lambda>x. show_config_line show_d x @ [CHR 10]) items)"

definition valid_key :: "string \<Rightarrow> bool" where
  "valid_key nm \<longleftrightarrow> nm \<noteq> [] \<and> valid_name_char (hd nm) \<and> list_all valid_alphanum_char nm \<and>
     length nm < NAME_LENGTH"

text \<open>A line that fits the buffer, is not continued, and whose value starts with no blank.\<close>

definition printable_item :: "('d \<Rightarrow> string) \<Rightarrow> config_entry \<times> 'd config_value \<Rightarrow> bool" where
  "printable_item show_d x \<longleftrightarrow> valid_key (name (fst x)) \<and> has_type (snd x) (entry_type (fst x)) \<and>
     dropWhile isspace (show_value show_d (snd x)) = show_value show_d (snd x) \<and>
     (let l = show_config_line show_d x
      in CHR 10 \<notin> set l \<and> last l \<noteq> CHR 0x5C \<and> length l + 1 < LINE_SIZE)"

lemma fgets_line:
  "CHR 10 \<notin> set l \<Longrightarrow> length l + 1 < n \<Longrightarrow> fgets n (l @ CHR 10 # rest) = (l @ [CHR 10], rest)"
  by (induction l arbitrary: n) auto

lemma read_line_plain:
  assumes "CHR 10 \<notin> set l" "last l \<noteq> CHR 0x5C" "length l + 1 < LINE_SIZE"
  shows "read_line LINE_SIZE k [] (l @ CHR 10 # rest) = (l, rest, k + 1, False, None)"
  using assms by (subst read_line.simps) (simp add: read_one_line_def fgets_line)

lemma read_line_end: "read_line LINE_SIZE k [] [] = ([], [], k + 1, True, None)"
  by (subst read_line.simps) (simp add: read_one_line_def)

lemma take_name_all:
  "list_all f nm \<Longrightarrow> r = [] \<or> \<not> f (hd r) \<Longrightarrow> length nm < n \<Longrightarrow> take_name f n (nm @ r) = (nm, r)"
proof (induction nm arbitrary: n)
  case Nil
  then show ?case by (cases n; cases r) auto
next
  case (Cons c nm)
  then show ?case by (cases n) auto
qed

lemma parse_key_show:
  assumes "valid_key nm" "dropWhile isspace v = v"
  shows "parse_key (nm @ '' = '' @ v) = (Inr nm, v)"
proof -
  have sp: "isspace (CHR '' '')" "\<not> isspace (CHR ''='')" "\<not> valid_alphanum_char (CHR '' '')"
    by (simp_all add: isspace_def valid_alphanum_char_def isalpha_def isdigit_def code_def)
  have "parse_alphanum_name NAME_LENGTH (nm @ '' = '' @ v) = (Inr nm, '' = '' @ v)"
    using assms(1) take_name_all[of valid_alphanum_char nm "'' = '' @ v" NAME_LENGTH] sp(3)
    by (simp add: valid_key_def parse_alphanum_name_def pbind_def ptest_def parse_filtered_name_def)
  then show ?thesis using sp assms(2)
    by (simp add: parse_key_def pbind_def skip_ws_simp parse_char_def read_char_def preturn_def)
qed

lemma parse_value_show:
  assumes "has_type v t" "\<And>d. parse_double strtod (show_d d) = (Inr d, [])"
  shows "parse_value strtod t (show_value show_d v) = (Inr v, [])"
proof -
  have nd: "no_digit []" by (simp add: no_digit_def)
  show ?thesis
    using assms uint_token.parse_print[OF nd] int_token.parse_print[OF nd] bit_token.parse_print[of _ "[]"]
      text_token.parse_print[of "[]"]
    by (cases v) (simp_all add: pmap_def pbind_def preturn_def)
qed

lemma lookup_from_found:
  "distinct (map name es) \<Longrightarrow> e \<in> set es \<Longrightarrow>
   \<exists>i < length es. lookup_from k (name e) es = Some (k + i) \<and> es ! i = e"
proof (induction es arbitrary: k)
  case (Cons a es)
  show ?case
  proof (cases "name e = name a")
    case True
    then have "e = a" using Cons.prems by (auto, metis imageI)
    then show ?thesis by auto
  next
    case False
    then have "e \<in> set es" using Cons.prems by auto
    then obtain i where "i < length es" "lookup_from (Suc k) (name e) es = Some (Suc k + i)" "es ! i = e"
      using Cons by fastforce
    then show ?thesis using False by (auto intro!: exI[of _ "Suc i"])
  qed
qed simp

lemma key_start: "valid_name_char c \<Longrightarrow> \<not> isspace c \<and> c \<noteq> CHR ''#''"
  by (auto simp: valid_name_char_def isspace_def isalpha_def code_def)

lemma parse_line_show:
  assumes "printable_item show_d x" "\<And>d. parse_double strtod (show_d d) = (Inr d, [])"
    and "distinct (map name table)" "fst x \<in> set table"
  shows "\<exists>i < length table. table ! i = fst x \<and>
    do_parse_line strtod table ignore k (show_config_line show_d x) st =
      (if seen st ! i
       then (st\<lparr>vars := (vars st)(address (fst x) \<mapsto> snd x)\<rparr>, Some (Repeated (name (fst x)) k))
       else (st\<lparr>vars := (vars st)(address (fst x) \<mapsto> snd x), seen := (seen st)[i := True]\<rparr>, None))"
proof -
  let ?l = "show_config_line show_d x"
  have key: "valid_key (name (fst x))" using assms(1) by (simp add: printable_item_def)
  then obtain c cs where c: "name (fst x) = c # cs" "valid_name_char c"
    by (cases "name (fst x)") (auto simp: valid_key_def)
  then have d: "dropWhile isspace ?l = ?l" "?l \<noteq> []" "hd ?l \<noteq> CHR ''#''"
    using key_start[OF c(2)] by (simp_all add: show_config_line_def)
  have k: "parse_key ?l = (Inr (name (fst x)), show_value show_d (snd x))"
    using assms(1) key parse_key_show by (simp add: show_config_line_def printable_item_def)
  obtain i where i: "i < length table" "lookup_name (name (fst x)) table = Some i" "table ! i = fst x"
    using lookup_from_found[OF assms(3,4), of 0] by (auto simp: lookup_name_def)
  have v: "parse_value strtod (entry_type (fst x)) (show_value show_d (snd x)) = (Inr (snd x), [])"
    using assms(1,2) by (intro parse_value_show) (simp_all add: printable_item_def)
  show ?thesis
    using d k i v
    by (intro exI[of _ i]) (simp add: do_parse_line_def Let_def pbind_def skip_ws_simp parse_eos_def)
qed

text \<open>The state after some items have been loaded.\<close>

definition loaded :: "config_entry list \<Rightarrow> (config_entry \<times> 'd config_value) list \<Rightarrow> 'd config_state \<Rightarrow> bool" where
  "loaded table items st \<longleftrightarrow> length (seen st) = length table \<and>
     (\<forall>x \<in> set items. vars st (address (fst x)) = Some (snd x)) \<and>
     (\<forall>i < length table. seen st ! i \<longleftrightarrow> table ! i \<in> fst ` set items)"

lemma load_lines_show:
  assumes "list_all (printable_item show_d) items" "\<And>d. parse_double strtod (show_d d) = (Inr d, [])"
    and "distinct (map name table)" "distinct (map address table)"
    and "fst ` set (done_items @ items) \<subseteq> set table" "distinct (map fst (done_items @ items))"
    and "loaded table done_items st"
  shows "\<exists>st'. load_lines strtod table ignore k (show_config show_d items) st = (st', None) \<and>
    loaded table (done_items @ items) st'"
  using assms
proof (induction items arbitrary: k st done_items)
  case Nil
  then show ?case
    by (subst load_lines.simps) (simp add: show_config_def read_line_end do_parse_line_def Let_def)
next
  case (Cons x xs)
  let ?l = "show_config_line show_d x"
  have pr: "printable_item show_d x" and xt: "fst x \<in> set table" using Cons.prems by simp_all
  have rl: "read_line LINE_SIZE k [] (show_config show_d (x # xs)) =
      (?l, show_config show_d xs, k + 1, False, None)"
    using pr read_line_plain by (simp add: show_config_def printable_item_def Let_def)
  obtain i where i: "i < length table" "table ! i = fst x" and
    pl: "do_parse_line strtod table ignore (k + 1) ?l st =
      (if seen st ! i
       then (st\<lparr>vars := (vars st)(address (fst x) \<mapsto> snd x)\<rparr>, Some (Repeated (name (fst x)) (k + 1)))
       else (st\<lparr>vars := (vars st)(address (fst x) \<mapsto> snd x), seen := (seen st)[i := True]\<rparr>, None))"
    using parse_line_show[OF pr Cons.prems(2,3) xt] by blast
  have fresh: "fst x \<notin> fst ` set done_items" using Cons.prems(6) by auto
  then have ns: "\<not> seen st ! i" using Cons.prems(7) i by (simp add: loaded_def)
  let ?st1 = "st\<lparr>vars := (vars st)(address (fst x) \<mapsto> snd x), seen := (seen st)[i := True]\<rparr>"
  have adr: "address (fst y) \<noteq> address (fst x)" if "y \<in> set done_items" for y
  proof -
    have "fst y \<in> fst ` set done_items" using that by simp
    then have "fst y \<in> set table" "fst y \<noteq> fst x" using fresh Cons.prems(5) by (auto, metis)
    then show ?thesis using Cons.prems(4) xt by (metis distinct_map inj_onD)
  qed
  have tb: "table ! j = fst x \<longleftrightarrow> j = i" if "j < length table" for j
    using that i Cons.prems(3) by (metis distinct_conv_nth distinct_map)
  have "loaded table (done_items @ [x]) ?st1"
    using Cons.prems(7) i adr tb by (auto simp: loaded_def nth_list_update)
  then obtain st' where "load_lines strtod table ignore (k + 1) (show_config show_d xs) ?st1 = (st', None)"
      "loaded table ((done_items @ [x]) @ xs) st'"
    using Cons.IH[of "done_items @ [x]" ?st1 "k + 1"] Cons.prems by auto
  then show ?case using rl pl ns by (subst load_lines.simps) simp
qed

lemma check_seen_all: "list_all id bs \<Longrightarrow> check_seen es bs = None"
  by (induction es bs rule: check_seen.induct) auto

text \<open>C12 A printed configuration is read back: a file with one line for each entry of the table, in any
  order, loads without error and leaves exactly the printed values in the variables.  The
  conversion of doubles is a parameter, required only to read back what \<open>show_d\<close> prints.\<close>

theorem config_file_roundtrip:
  assumes "list_all (printable_item show_d) items" "\<And>d. parse_double strtod (show_d d) = (Inr d, [])"
    and "distinct (map name table)" "distinct (map address table)"
    and "distinct (map fst items)" "set (map fst items) = set table"
  shows "\<exists>vs'. load_config_file strtod (Some (show_config show_d items)) table ignore_unknown vs = (vs', None) \<and>
    list_all (\<lambda>x. vs' (address (fst x)) = Some (snd x)) items"
proof -
  let ?st0 = "\<lparr>vars = vs, seen = replicate (length table) False\<rparr>"
  have "loaded table [] ?st0" by (simp add: loaded_def)
  then obtain st' where st': "load_lines strtod table ignore_unknown 0 (show_config show_d items) ?st0 = (st', None)"
      "loaded table items st'"
    using load_lines_show[OF assms(1-4), of "[]" ?st0 ignore_unknown 0] assms(5,6) by auto
  then have "list_all id (seen st')"
    using assms(6) by (auto simp: loaded_def list_all_length)
  then show ?thesis using st'
    by (auto simp: load_config_file_def check_seen_all loaded_def list_all_iff)
qed

definition sample_table :: "config_entry list" where
  "sample_table = [system_entry CONFIG_string ''axis0_name'', system_entry CONFIG_uint ''bunches_per_turn'',
     system_entry CONFIG_bool ''lmbf_mode'', system_entry CONFIG_double ''revolution_frequency'']"

definition sample_items :: "(config_entry \<times> u64 config_value) list" where
  "sample_items = [(system_entry CONFIG_uint ''bunches_per_turn'', VUint 936),
     (system_entry CONFIG_double ''revolution_frequency'', VDouble 533830),
     (system_entry CONFIG_string ''axis0_name'', VString ''X''),
     (system_entry CONFIG_bool ''lmbf_mode'', VBool True)]"

definition show_u64 :: "u64 \<Rightarrow> string" where "show_u64 d = show_nat (unat d)"

lemma parse_double_u64: "parse_double strtoul (show_u64 d) = (Inr d, [])"
proof -
  have "unat d < 2 ^ 64" by (rule order_less_le_trans[OF unsigned_less]) simp
  moreover have "no_digit []" by (simp add: no_digit_def)
  ultimately show ?thesis
    using scan_number_show[of "[]" "unat d"] show_nat_nonempty[of "unat d"]
    by (simp add: parse_double_def parse_num_def strtoul_def show_u64_def ULONG_MAX_def)
qed

lemma show_nat_eval: "show_nat n = (if n < 10 then [digit_char n] else show_nat (n div 10) @ [digit_char (n mod 10)])"
  by (rule show_nat.simps)

lemma digit_chars:
  "digit_char 0 = CHR ''0''" "digit_char 1 = CHR ''1''" "digit_char 3 = CHR ''3''"
  "digit_char 5 = CHR ''5''" "digit_char 6 = CHR ''6''" "digit_char 8 = CHR ''8''"
  "digit_char 9 = CHR ''9''"
  by code_simp+

lemma sample_show:
  "show_uint 936 = ''936''" "show_u64 533830 = ''533830''" "show_bit True = ''1''"
  by (simp_all add: show_uint_def show_u64_def show_bit_def show_nat_eval digit_chars)

lemma sample_printable: "list_all (printable_item show_u64) sample_items"
  by (simp add: sample_items_def printable_item_def system_entry_def show_config_line_def sample_show
      valid_key_def valid_name_char_def valid_alphanum_char_def isalpha_def isdigit_def isspace_def
      code_def NAME_LENGTH_def LINE_SIZE_def Let_def)

lemma config_file_roundtrip_witness:
  "\<exists>vs'. load_config_file strtoul (Some (show_config show_u64 sample_items)) sample_table True (\<lambda>_. None) =
     (vs', None) \<and> vs' ''bunches_per_turn'' = Some (VUint 936)"
proof -
  have t: "distinct (map name sample_table)" "distinct (map address sample_table)"
    "distinct (map fst sample_items)" "set (map fst sample_items) = set sample_table"
    by (auto simp: sample_table_def sample_items_def system_entry_def)
  show ?thesis
    using config_file_roundtrip[OF sample_printable parse_double_u64 t, of True "\<lambda>_. None"]
    by (auto simp: sample_items_def system_entry_def)
qed

lemma load_config_complete_witness:
  "\<exists>vs'. load_config_file strtoul (Some ''n = 5'') [system_entry CONFIG_uint ''n''] False (\<lambda>_. None) =
     (vs' :: string \<Rightarrow> u64 config_value option, None) \<and> (\<exists>v. vs' ''n'' = Some v \<and> has_type v CONFIG_uint)"
proof -
  let ?t = "[system_entry CONFIG_uint ''n'']"
  have rl: "read_line LINE_SIZE 0 [] ''n = 5'' = (''n = 5'', [], 1, False, None)"
    by (subst read_line.simps) (simp add: read_one_line_def LINE_SIZE_def)
  have pl: "do_parse_line strtoul ?t False 1 ''n = 5'' \<lparr>vars = (\<lambda>_. None), seen = [False]\<rparr> =
      (\<lparr>vars = [''n'' \<mapsto> VUint 5 :: u64 config_value], seen = [True]\<rparr>, None)"
  proof -
    have k: "parse_key ''n = 5'' = (Inr ''n'', ''5'')" by code_simp
    have v: "parse_uint ''5'' = (Inr 5, [])"
      using parse_uint_num[of "[]" 5] by (simp add: no_digit_def show_nat_eval digit_chars ULONG_MAX_def)
    have n: "\<not> isspace (CHR ''n'')" by code_simp
    have l: "lookup_name ''n'' ?t = Some 0" by code_simp
    have pv: "pmap VUint parse_uint ''5'' = (Inr (VUint 5 :: u64 config_value), [])"
      by (simp add: pmap_def pbind_def v preturn_def)
    show ?thesis unfolding do_parse_line_def
      by (simp add: n k l) (simp add: system_entry_def pv pbind_def skip_ws_simp parse_eos_def)
  qed
  have l: "load_config_file strtoul (Some ''n = 5'') ?t False (\<lambda>_. None) = ([''n'' \<mapsto> VUint 5], None)"
  proof -
    let ?st = "\<lparr>vars = (\<lambda>_. None), seen = [False]\<rparr> :: u64 config_state"
    let ?st1 = "\<lparr>vars = [''n'' \<mapsto> VUint 5], seen = [True]\<rparr> :: u64 config_state"
    have "load_lines strtoul ?t False 0 ''n = 5'' ?st = load_lines strtoul ?t False 1 [] ?st1"
      by (subst load_lines.simps) (simp add: rl pl del: One_nat_def)
    also have "\<dots> = (?st1, None)"
      by (subst load_lines.simps) (simp add: read_line_end do_parse_line_def)
    finally show ?thesis by (simp add: load_config_file_def)
  qed
  show ?thesis using load_config_complete[OF _ l] l by (auto simp: system_entry_def)
qed

section \<open>Loading both files\<close>

fun get_string :: "'d config_value option \<Rightarrow> string" where
  "get_string (Some (VString s)) = s" | "get_string _ = []"
fun get_word :: "'d config_value option \<Rightarrow> u32" where
  "get_word (Some (VInt n)) = n" | "get_word (Some (VUint n)) = n" | "get_word _ = 0"
fun get_bool :: "'d config_value option \<Rightarrow> bool" where
  "get_bool (Some (VBool b)) = b" | "get_bool _ = False"

text \<open>The delays as the fields of the structure; a variable that was never written is zero.\<close>

definition delays_of :: "(string \<Rightarrow> 'd config_value option) \<Rightarrow> hardware_delays" where
  "delays_of v = (let g = (\<lambda>n. get_word (v n)) in \<lparr>valid = False,
     MMS_ADC_DELAY = g ''MMS_ADC_DELAY'', MMS_ADC_REJECT_DELAY = g ''MMS_ADC_REJECT_DELAY'',
     MMS_ADC_FIR_DELAY = g ''MMS_ADC_FIR_DELAY'', MMS_DAC_DELAY = g ''MMS_DAC_DELAY'',
     MMS_DAC_FIR_DELAY = g ''MMS_DAC_FIR_DELAY'', MMS_DAC_FEEDBACK_DELAY = g ''MMS_DAC_FEEDBACK_DELAY'',
     DRAM_ADC_DELAY = g ''DRAM_ADC_DELAY'', DRAM_ADC_REJECT_DELAY = g ''DRAM_ADC_REJECT_DELAY'',
     DRAM_ADC_FIR_DELAY = g ''DRAM_ADC_FIR_DELAY'', DRAM_DAC_DELAY = g ''DRAM_DAC_DELAY'',
     DRAM_FIR_DELAY = g ''DRAM_FIR_DELAY'', DRAM_DAC_FIR_DELAY = g ''DRAM_DAC_FIR_DELAY'',
     BUNCH_GAIN_OFFSET = g ''BUNCH_GAIN_OFFSET'', BUNCH_FIR_OFFSET = g ''BUNCH_FIR_OFFSET'',
     DET_ADC_OFFSET = g ''DET_ADC_OFFSET'', DET_ADC_REJECT_OFFSET = g ''DET_ADC_REJECT_OFFSET'',
     DET_FIR_OFFSET = g ''DET_FIR_OFFSET'', DET_ADC_DELAY = g ''DET_ADC_DELAY'',
     DET_ADC_REJECT_DELAY = g ''DET_ADC_REJECT_DELAY'', DET_FIR_DELAY = g ''DET_FIR_DELAY'',
     PLL_ADC_OFFSET = g ''PLL_ADC_OFFSET'', PLL_FIR_OFFSET = g ''PLL_FIR_OFFSET'',
     PLL_ADC_REJECT_OFFSET = g ''PLL_ADC_REJECT_OFFSET'', PLL_ADC_DELAY = g ''PLL_ADC_DELAY'',
     PLL_FIR_DELAY = g ''PLL_FIR_DELAY'', PLL_ADC_REJECT_DELAY = g ''PLL_ADC_REJECT_DELAY''\<rparr>)"

text \<open>
  \<^verbatim>\<open>load_configs\<close>: the system file may hold unknown keys, the hardware file may not; without a
  hardware file the delays stay zero and not valid.
\<close>

definition load_configs ::
  "(string \<Rightarrow> 'd \<times> bool \<times> string) \<Rightarrow> string option \<Rightarrow> string option option \<Rightarrow>
   (string \<Rightarrow> 'd config_value option) \<times> hardware_delays \<times> config_error option" where
  "load_configs strtod system_file hardware_file =
     (let no_delays = delays_of (\<lambda>_. None :: 'd config_value option)
      in case load_config_file strtod system_file system_config_entries True (\<lambda>_. None) of
           (sys, Some e) \<Rightarrow> (sys, no_delays, Some e)
         | (sys, None) \<Rightarrow>
             (case hardware_file of
                None \<Rightarrow> (sys, no_delays, None)
              | Some file \<Rightarrow>
                  (case load_config_file strtod file hardware_delays_entries False (\<lambda>_. None) of
                     (hw, Some e) \<Rightarrow> (sys, delays_of hw, Some e)
                   | (hw, None) \<Rightarrow>
                       (sys, convert_hardware_config (get_word (sys ''bunches_per_turn'')) (delays_of hw),
                        None))))"

end
