(* ===== verification/Buffered_File.thy ===== *)
theory Buffered_File
  imports MBF_Prelude
begin

text \<open>
  The buffered socket of \<^verbatim>\<open>epics/src/buffered_file.c\<close>.  The socket is part of the state: \<open>reads\<close>
  are the results of the coming \<^verbatim>\<open>read\<close> calls (\<open>None\<close> an error, the end of the list the end
  of the stream; a result longer than the buffer is delivered in parts), \<open>writes\<close> says how many
  bytes each coming \<^verbatim>\<open>write\<close> call takes (\<open>None\<close> an error, the end of the list: everything), and
  \<open>sent\<close> is what has been written.  \<open>in_data\<close> and \<open>out_data\<close> are the filled parts of the two
  buffers.  Bytes are characters.

  The contract is in terms of two byte streams: \<open>unread\<close>, what is still to come, and
  \<open>written\<close>, what has been sent or is waiting in the output buffer.
\<close>

datatype file_error = ErrorReading | ErrorWriting | LineOverrun | FormattedTooLong

record buffered_file =
  eof :: bool
  file_error :: "file_error option"
  in_data :: string
  read_ptr :: nat
  out_data :: string
  in_buf_size :: nat
  out_buf_size :: nat
  reads :: "string option list"
  writes :: "nat option list"
  sent :: string

definition create_buffered_file ::
  "nat \<Rightarrow> nat \<Rightarrow> string option list \<Rightarrow> nat option list \<Rightarrow> buffered_file" where
  "create_buffered_file in_size out_size rs ws =
     \<lparr>eof = False, file_error = None, in_data = [], read_ptr = 0, out_data = [],
      in_buf_size = in_size, out_buf_size = out_size, reads = rs, writes = ws, sent = []\<rparr>"

section \<open>Sending\<close>

function send_entire_buffer :: "string \<Rightarrow> buffered_file \<Rightarrow> buffered_file" where
  "send_entire_buffer buffer f =
     (if file_error f = None \<and> length buffer > 0
      then (case writes f of
              [] \<Rightarrow> f\<lparr>sent := sent f @ buffer\<rparr>
            | None # ws \<Rightarrow> f\<lparr>writes := ws, file_error := Some ErrorWriting\<rparr>
            | Some n # ws \<Rightarrow>
                send_entire_buffer (drop n buffer) (f\<lparr>writes := ws, sent := sent f @ take n buffer\<rparr>))
      else f)"
  by pat_completeness auto
termination by (relation "measure (\<lambda>(buffer, f). length (writes f))") auto

declare send_entire_buffer.simps [simp del]

definition no_error :: "buffered_file \<Rightarrow> bool" where
  "no_error f \<longleftrightarrow> file_error f = None"

definition flush_out_buf :: "buffered_file \<Rightarrow> bool \<times> buffered_file" where
  "flush_out_buf f =
     (let f' = (send_entire_buffer (out_data f) f)\<lparr>out_data := []\<rparr> in (no_error f', f'))"

text \<open>
  With an output buffer of no capacity, or one already full, the loop would make no progress, so the
  loop is a partial function; \<open>write_string_returns\<close> below shows that it ends in every state the
  operations leave behind.
\<close>

partial_function (option) write_string :: "string \<Rightarrow> buffered_file \<Rightarrow> (bool \<times> buffered_file) option" where
  "write_string s f =
     (if no_error f \<and> length s > 0
      then (let to_write = min (out_buf_size f - length (out_data f)) (length s);
                f1 = f\<lparr>out_data := out_data f @ take to_write s\<rparr>;
                f2 = (if length (out_data f1) \<ge> out_buf_size f1 then snd (flush_out_buf f1) else f1)
            in write_string (drop to_write s) f2)
      else Some (no_error f, f))"

text \<open>The formatted text is the argument; \<^verbatim>\<open>vsnprintf\<close> keeps a byte for the terminator.\<close>

definition write_formatted_string :: "string \<Rightarrow> buffered_file \<Rightarrow> bool \<times> buffered_file" where
  "write_formatted_string s f =
     (if \<not> no_error f then (False, f)
      else (let len = out_buf_size f - length (out_data f)
            in if length s < len then (True, f\<lparr>out_data := out_data f @ s\<rparr>)
               else (case flush_out_buf f of
                       (False, f1) \<Rightarrow> (no_error f1, f1)
                     | (True, f1) \<Rightarrow>
                         let f2 = f1\<lparr>out_data := s,
                           file_error := (if length s < out_buf_size f1 then None else Some FormattedTooLong)\<rparr>
                         in (no_error f2, f2))))"

definition write_block :: "string \<Rightarrow> buffered_file \<Rightarrow> bool \<times> buffered_file" where
  "write_block buffer f =
     (let f' = send_entire_buffer buffer (snd (flush_out_buf f)) in (no_error f', f'))"

definition write_char :: "char \<Rightarrow> buffered_file \<Rightarrow> bool \<times> buffered_file" where
  "write_char ch f =
     (let f' = (if no_error f
                then (let f1 = f\<lparr>out_data := out_data f @ [ch]\<rparr>
                      in if length (out_data f1) \<ge> out_buf_size f1 then snd (flush_out_buf f1) else f1)
                else f)
      in (no_error f', f'))"

definition destroy_buffered_file :: "buffered_file \<Rightarrow> file_error option \<times> buffered_file" where
  "destroy_buffered_file f = (let f' = snd (flush_out_buf f) in (file_error f', f'))"

definition check_buffered_file :: "buffered_file \<Rightarrow> bool" where
  "check_buffered_file f = no_error f"

section \<open>Receiving\<close>

definition next_read :: "buffered_file \<Rightarrow> string option \<times> string option list" where
  "next_read f =
     (case reads f of
        [] \<Rightarrow> (Some [], [])
      | None # rs \<Rightarrow> (None, rs)
      | Some d # rs \<Rightarrow>
          if length d \<le> in_buf_size f then (Some d, rs)
          else (Some (take (in_buf_size f) d), Some (drop (in_buf_size f) d) # rs))"

text \<open>On an error the lengths are garbage in the source and nothing reads them again.\<close>

definition fill_in_buf :: "buffered_file \<Rightarrow> buffered_file" where
  "fill_in_buf f =
     (if \<not> eof f \<and> no_error f
      then (case next_read f of
              (None, rs) \<Rightarrow> f\<lparr>reads := rs, file_error := Some ErrorReading, in_data := [], read_ptr := 0\<rparr>
            | (Some d, rs) \<Rightarrow> f\<lparr>reads := rs, eof := (d = []), in_data := d, read_ptr := 0\<rparr>)
      else f)"

definition available :: "buffered_file \<Rightarrow> string" where
  "available f = drop (read_ptr f) (in_data f)"

text \<open>Work left on the input side, for termination.\<close>

definition input_left :: "buffered_file \<Rightarrow> nat" where
  "input_left f = (if eof f \<or> \<not> no_error f then 0
     else Suc (sum_list (map (\<lambda>r. case r of None \<Rightarrow> 1 | Some d \<Rightarrow> Suc (length d)) (reads f))))"

lemma input_left_fill: "\<not> eof f \<Longrightarrow> no_error f \<Longrightarrow> input_left (fill_in_buf f) < input_left f"
  by (auto simp: input_left_def fill_in_buf_def next_read_def no_error_def
      split: list.split option.split)

lemma send_entire_frame [simp]:
  "eof (send_entire_buffer b f) = eof f" "reads (send_entire_buffer b f) = reads f"
  "in_data (send_entire_buffer b f) = in_data f" "read_ptr (send_entire_buffer b f) = read_ptr f"
  "in_buf_size (send_entire_buffer b f) = in_buf_size f"
  "out_buf_size (send_entire_buffer b f) = out_buf_size f"
  "out_data (send_entire_buffer b f) = out_data f"
  by (induction b f rule: send_entire_buffer.induct)
    (subst send_entire_buffer.simps, simp split: list.split option.split)+

lemma send_entire_error: "\<not> no_error f \<Longrightarrow> send_entire_buffer b f = f"
  by (subst send_entire_buffer.simps) (auto simp: no_error_def)

lemma flush_frame [simp]:
  "eof (snd (flush_out_buf f)) = eof f" "reads (snd (flush_out_buf f)) = reads f"
  "in_data (snd (flush_out_buf f)) = in_data f" "read_ptr (snd (flush_out_buf f)) = read_ptr f"
  "in_buf_size (snd (flush_out_buf f)) = in_buf_size f"
  "out_buf_size (snd (flush_out_buf f)) = out_buf_size f"
  "out_data (snd (flush_out_buf f)) = []" "fst (flush_out_buf f) = no_error (snd (flush_out_buf f))"
  by (simp_all add: flush_out_buf_def Let_def no_error_def)

lemma flush_error: "\<not> no_error f \<Longrightarrow> \<not> no_error (snd (flush_out_buf f))"
  by (simp add: flush_out_buf_def send_entire_error Let_def no_error_def)

lemma input_left_flush: "input_left (snd (flush_out_buf f)) \<le> input_left f"
  using flush_error[of f] by (auto simp: input_left_def)

text \<open>
  \<^verbatim>\<open>read_line\<close>: the text gathered so far is \<open>acc\<close>, the room left \<open>line_size\<close>.  The result is the
  line, or \<open>None\<close> where the source returns false.
\<close>

function read_line :: "nat \<Rightarrow> bool \<Rightarrow> string \<Rightarrow> buffered_file \<Rightarrow> string option \<times> buffered_file" where
  "read_line line_size flush acc f =
     (if \<not> eof f \<and> no_error f
      then (let l = takeWhile (\<lambda>c. c \<noteq> CHR 10) (available f); r = dropWhile (\<lambda>c. c \<noteq> CHR 10) (available f)
            in if r \<noteq> []
               then (if length l + 1 < line_size
                     then (Some (acc @ l), f\<lparr>read_ptr := read_ptr f + length l + 1\<rparr>)
                     else (None, f\<lparr>file_error := Some LineOverrun\<rparr>))
               else if \<not> length l + 1 < line_size then (None, f\<lparr>file_error := Some LineOverrun\<rparr>)
               else read_line (line_size - length l) False (acc @ l)
                      (fill_in_buf (if flush then snd (flush_out_buf f) else f)))
      else (None, f))"
  by pat_completeness auto
termination
proof (relation "measure (\<lambda>(line_size, flush, acc, f). input_left f)", goal_cases)
  case (2 line_size flush acc f l r)
  then have f: "\<not> eof f" "no_error f" by simp_all
  have pos: "0 < input_left f" using f by (simp add: input_left_def)
  let ?f = "if flush then snd (flush_out_buf f) else f"
  have "input_left (fill_in_buf ?f) < input_left f"
  proof (cases "no_error ?f")
    case True
    have "\<not> eof ?f" using f by simp
    from input_left_fill[OF this True] show ?thesis
      using input_left_flush[of f] by (auto split: if_splits)
  next
    case False
    then show ?thesis using pos by (simp add: fill_in_buf_def input_left_def)
  qed
  then show ?case by simp
qed simp

declare read_line.simps [simp del]

text \<open>\<^verbatim>\<open>read_block\<close>: \<open>None\<close> where the source returns false.\<close>

function read_block :: "nat \<Rightarrow> string \<Rightarrow> buffered_file \<Rightarrow> string option \<times> buffered_file" where
  "read_block len acc f =
     (if \<not> eof f \<and> no_error f \<and> len > 0
      then (let to_copy = min (length (in_data f) - read_ptr f) len;
                acc' = acc @ take to_copy (available f);
                f' = f\<lparr>read_ptr := read_ptr f + to_copy\<rparr>
            in if len - to_copy > 0 then read_block (len - to_copy) acc' (fill_in_buf f')
               else read_block 0 acc' f')
      else (if \<not> eof f \<and> no_error f \<and> len = 0 then Some acc else None, f))"
  by pat_completeness auto
termination
proof (relation "measure (\<lambda>(len, acc, f). len + input_left f)", goal_cases)
  case (2 len acc f to_copy acc' f')
  then have "input_left (fill_in_buf f') < input_left f'"
    by (intro input_left_fill) (simp_all add: no_error_def)
  moreover have "input_left f' = input_left f" using 2 by (simp add: input_left_def no_error_def)
  ultimately have "input_left (fill_in_buf f') < input_left f" by simp
  then show ?case by (simp add: add_le_less_mono)
next
  case (3 len acc f to_copy acc' f')
  then show ?case by (simp add: input_left_def no_error_def)
qed simp

declare read_block.simps [simp del]

section \<open>The output stream\<close>

text \<open>A destination for blocks of data: every block is appended to its content.\<close>

locale byte_sink =
  fixes put :: "'a list \<Rightarrow> 's \<Rightarrow> 's"
    and content :: "'s \<Rightarrow> 'a list"
    and good :: "'s \<Rightarrow> bool"
  assumes put_content: "good s \<Longrightarrow> content (put xs s) = content s @ xs"
    and put_good: "good s \<Longrightarrow> good (put xs s)"
begin

lemma put_all: "good s \<Longrightarrow> content (fold put blocks s) = content s @ concat blocks \<and> good (fold put blocks s)"
  by (induction blocks arbitrary: s) (simp_all add: put_content put_good)

text \<open>Sending in one piece or in blocks leaves the same content.\<close>

lemma put_blocks_equal:
  "good s \<Longrightarrow> concat blocks = concat blocks' \<Longrightarrow> content (fold put blocks s) = content (fold put blocks' s)"
  by (simp add: put_all)

end

definition written :: "buffered_file \<Rightarrow> string" where
  "written f = sent f @ out_data f"

definition output_ok :: "buffered_file \<Rightarrow> bool" where
  "output_ok f \<longleftrightarrow> no_error f \<and> length (out_data f) < out_buf_size f \<and>
     list_all (\<lambda>w. w \<noteq> None) (writes f)"

lemma send_entire_ok:
  "no_error f \<Longrightarrow> list_all (\<lambda>w. w \<noteq> None) (writes f) \<Longrightarrow>
   no_error (send_entire_buffer b f) \<and> sent (send_entire_buffer b f) = sent f @ b \<and>
   list_all (\<lambda>w. w \<noteq> None) (writes (send_entire_buffer b f))"
proof (induction b f rule: send_entire_buffer.induct)
  case (1 b f)
  show ?case
  proof (cases "b = []")
    case True
    then show ?thesis using 1 by (subst (1 2 3) send_entire_buffer.simps) simp
  next
    case ne: False
    show ?thesis
    proof (cases "writes f")
      case Nil
      then show ?thesis using 1 ne
        by (subst (1 2 3) send_entire_buffer.simps) (simp add: no_error_def)
    next
      case (Cons w ws)
      then obtain n where w: "w = Some n" using 1(3) by auto
      let ?f = "f\<lparr>writes := ws, sent := sent f @ take n b\<rparr>"
      have "send_entire_buffer b f = send_entire_buffer (drop n b) ?f"
        using Cons w ne 1(2) by (subst send_entire_buffer.simps) (simp add: no_error_def)
      moreover have "no_error ?f" "list_all (\<lambda>w. w \<noteq> None) (writes ?f)"
        using 1(2,3) Cons by (simp_all add: no_error_def)
      ultimately show ?thesis using 1(1)[OF _ Cons w] 1(2) ne by (simp add: no_error_def)
    qed
  qed
qed

lemma no_error_upd [simp]:
  "no_error (f\<lparr>out_data := x\<rparr>) = no_error f" "no_error (f\<lparr>read_ptr := p\<rparr>) = no_error f"
  by (simp_all add: no_error_def)

lemma flush_ok:
  assumes "no_error f" "list_all (\<lambda>w. w \<noteq> None) (writes f)"
  shows "no_error (snd (flush_out_buf f))" "written (snd (flush_out_buf f)) = written f"
    "list_all (\<lambda>w. w \<noteq> None) (writes (snd (flush_out_buf f)))"
  using send_entire_ok[OF assms, of "out_data f"] by (simp_all add: flush_out_buf_def Let_def written_def)

lemma output_flush [mbf_inv]: "output_ok f \<Longrightarrow> output_ok (snd (flush_out_buf f))"
  using flush_ok[of f] by (auto simp: output_ok_def)

text \<open>Appending and flushing when the buffer is full, the step all the writers share.\<close>

lemma append_flush:
  assumes "output_ok f" "length xs \<le> out_buf_size f - length (out_data f)"
  defines "f1 \<equiv> f\<lparr>out_data := out_data f @ xs\<rparr>"
  defines "f2 \<equiv> if length (out_data f1) \<ge> out_buf_size f1 then snd (flush_out_buf f1) else f1"
  shows "output_ok f2 \<and> written f2 = written f @ xs"
proof (cases "length (out_data f1) \<ge> out_buf_size f1")
  case True
  have "no_error f1" "list_all (\<lambda>w. w \<noteq> None) (writes f1)"
    using assms(1) by (simp_all add: f1_def output_ok_def)
  from flush_ok[OF this] True assms(1) show ?thesis
    by (auto simp: f2_def output_ok_def written_def f1_def)
next
  case False
  then show ?thesis using assms(1) by (simp add: f2_def f1_def output_ok_def written_def)
qed

lemma write_string_returns:
  "output_ok f \<Longrightarrow> \<exists>f'. write_string s f = Some (True, f') \<and> output_ok f' \<and> written f' = written f @ s"
proof (induction "length s" arbitrary: s f rule: less_induct)
  case less
  show ?case
  proof (cases "s = []")
    case True
    then show ?thesis using less.prems by (subst write_string.simps) (simp add: output_ok_def)
  next
    case False
    let ?n = "min (out_buf_size f - length (out_data f)) (length s)"
    let ?f1 = "f\<lparr>out_data := out_data f @ take ?n s\<rparr>"
    let ?f2 = "if length (out_data ?f1) \<ge> out_buf_size ?f1 then snd (flush_out_buf ?f1) else ?f1"
    have st: "output_ok ?f2 \<and> written ?f2 = written f @ take ?n s"
      using append_flush[OF less.prems, of "take ?n s"] by simp
    have "length (drop ?n s) < length s" using False less.prems by (simp add: output_ok_def)
    from less.hyps[OF this conjunct1[OF st]] obtain f' where
      "write_string (drop ?n s) ?f2 = Some (True, f')" "output_ok f'"
      "written f' = written ?f2 @ drop ?n s" by blast
    moreover have "write_string s f = write_string (drop ?n s) ?f2"
      using False less.prems by (subst write_string.simps) (simp add: Let_def output_ok_def)
    ultimately show ?thesis using st by (metis append.assoc append_take_drop_id)
  qed
qed

definition put_string :: "string \<Rightarrow> buffered_file \<Rightarrow> buffered_file" where
  "put_string s f = (case write_string s f of Some (b, f') \<Rightarrow> f' | None \<Rightarrow> f)"

definition put_block :: "string \<Rightarrow> buffered_file \<Rightarrow> buffered_file" where
  "put_block s f = snd (write_block s f)"

interpretation string_sink: byte_sink put_string written output_ok
proof unfold_locales
  fix f s assume "output_ok f"
  from write_string_returns[OF this, of s]
  show "written (put_string s f) = written f @ s" "output_ok (put_string s f)"
    by (auto simp: put_string_def)
qed

lemma write_block_ok:
  assumes "output_ok f"
  shows "output_ok (put_block s f) \<and> written (put_block s f) = written f @ s \<and> out_data (put_block s f) = []"
proof -
  let ?f = "snd (flush_out_buf f)"
  have "output_ok ?f" "written ?f = written f" "out_data ?f = []"
    using output_flush[OF assms] flush_ok[of f] assms by (auto simp: output_ok_def)
  then show ?thesis using send_entire_ok[of ?f s] assms
    by (auto simp: put_block_def write_block_def Let_def output_ok_def written_def)
qed

interpretation block_sink: byte_sink put_block written output_ok
  by unfold_locales (simp_all add: write_block_ok)

lemma write_char_ok:
  "output_ok f \<Longrightarrow> output_ok (snd (write_char ch f)) \<and> written (snd (write_char ch f)) = written f @ [ch]"
  using append_flush[of f "[ch]"] by (auto simp: write_char_def Let_def output_ok_def)

text \<open>Writing through the buffer loses and reorders nothing, and the loop ends: when the buffer has
  room for a byte and no write fails, \<open>write_string\<close> returns true, the bytes sent together with
  those in the buffer are the earlier ones followed by the string, whatever amounts the socket
  accepts at a time, and the buffer has room again.\<close>

theorem write_string_appends:
  assumes "output_ok f"
  shows "\<exists>f'. write_string s f = Some (True, f') \<and> sent f' @ out_data f' = sent f @ out_data f @ s \<and>
    length (out_data f') < out_buf_size f'"
  using write_string_returns[OF assms, of s] by (auto simp: written_def output_ok_def)

lemma write_string_appends_witness:
  "\<exists>f'. write_string ''abcdef'' (create_buffered_file 8 4 [] [Some 1, Some 2]) = Some (True, f') \<and>
     sent f' @ out_data f' = ''abcdef''"
proof -
  have ok: "output_ok (create_buffered_file 8 4 [] [Some 1, Some 2])"
    by (simp add: output_ok_def create_buffered_file_def no_error_def)
  show ?thesis using write_string_appends[OF ok, of "''abcdef''"]
    by (auto simp: create_buffered_file_def)
qed

section \<open>The input stream\<close>

fun read_stream :: "string option list \<Rightarrow> string" where
  "read_stream [] = []"
| "read_stream (None # rs) = []"
| "read_stream (Some d # rs) = d @ read_stream rs"

definition unread :: "buffered_file \<Rightarrow> string" where
  "unread f = available f @ read_stream (reads f)"

text \<open>No read fails and none is empty before the end of the stream.\<close>

definition clean_reads :: "string option list \<Rightarrow> bool" where
  "clean_reads rs \<longleftrightarrow> list_all (\<lambda>r. r \<noteq> None \<and> r \<noteq> Some []) rs"

definition input_ok :: "buffered_file \<Rightarrow> bool" where
  "input_ok f \<longleftrightarrow> no_error f \<and> \<not> eof f \<and> clean_reads (reads f) \<and> 0 < in_buf_size f"

lemma fill_ok:
  assumes "input_ok f" "reads f \<noteq> []"
  shows "input_ok (fill_in_buf f)" "unread (fill_in_buf f) = read_stream (reads f)"
    "writes (fill_in_buf f) = writes f" "out_data (fill_in_buf f) = out_data f"
    "out_buf_size (fill_in_buf f) = out_buf_size f" "in_buf_size (fill_in_buf f) = in_buf_size f"
proof -
  obtain d rs where r: "reads f = Some d # rs" "d \<noteq> []"
    using assms by (cases "reads f") (auto simp: input_ok_def clean_reads_def)
  show "input_ok (fill_in_buf f)" "unread (fill_in_buf f) = read_stream (reads f)"
    "writes (fill_in_buf f) = writes f" "out_data (fill_in_buf f) = out_data f"
    "out_buf_size (fill_in_buf f) = out_buf_size f" "in_buf_size (fill_in_buf f) = in_buf_size f"
    using assms r
    by (auto simp: input_ok_def fill_in_buf_def next_read_def clean_reads_def no_error_def
        unread_def available_def)
qed

lemma takeWhile_prefix:
  assumes "x \<notin> set l" "l @ x # rest = a @ b"
  shows "(x \<in> set a \<longrightarrow> takeWhile (\<lambda>c. c \<noteq> x) a = l \<and> rest = drop (Suc (length l)) a @ b) \<and>
    (x \<notin> set a \<longrightarrow> (\<exists>l'. l = a @ l' \<and> b = l' @ x # rest))"
proof -
  consider l' where "a = l @ x # l'" "rest = l' @ b" | l' where "l = a @ l'" "b = l' @ x # rest"
    using assms(2) by (auto simp: append_eq_append_conv2 Cons_eq_append_conv)
  then show ?thesis
  proof cases
    case 1
    have "takeWhile (\<lambda>c. c \<noteq> x) (l @ x # l') = l"
      using assms(1) by (induction l) auto
    then show ?thesis using 1 by simp
  next
    case 2
    then show ?thesis using assms(1) by auto
  qed
qed

lemma flush_input_ok:
  assumes "input_ok f" "flush \<Longrightarrow> list_all (\<lambda>w. w \<noteq> None) (writes f)"
  shows "input_ok (if flush then snd (flush_out_buf f) else f)"
  using assms flush_ok(1)[of f] by (auto simp: input_ok_def)

lemma read_line_ok:
  "input_ok f \<Longrightarrow> (flush \<Longrightarrow> list_all (\<lambda>w. w \<noteq> None) (writes f)) \<Longrightarrow>
   unread f = l @ CHR 10 # rest \<Longrightarrow> CHR 10 \<notin> set l \<Longrightarrow> length l + 1 < n \<Longrightarrow>
   \<exists>f'. read_line n flush acc f = (Some (acc @ l), f') \<and> unread f' = rest \<and> input_ok f'"
proof (induction "input_left f" arbitrary: f n flush acc l rule: less_induct)
  case less
  have f: "\<not> eof f" "no_error f" using less.prems(1) by (simp_all add: input_ok_def)
  let ?a = "available f"
  have eq: "l @ CHR 10 # rest = ?a @ read_stream (reads f)" using less.prems(3) by (simp add: unread_def)
  note pre = takeWhile_prefix[OF less.prems(4) eq]
  show ?case
  proof (cases "CHR 10 \<in> set ?a")
    case True
    then have l: "takeWhile (\<lambda>c. c \<noteq> CHR 10) ?a = l" "rest = drop (Suc (length l)) ?a @ read_stream (reads f)"
      using pre by auto
    moreover have "dropWhile (\<lambda>c. c \<noteq> CHR 10) ?a \<noteq> []" using True by (auto simp: dropWhile_eq_Nil_conv)
    ultimately have "read_line n flush acc f = (Some (acc @ l), f\<lparr>read_ptr := read_ptr f + length l + 1\<rparr>)"
      using f less.prems(5) by (subst read_line.simps) (simp add: Let_def)
    then show ?thesis using l(2) less.prems(1)
      by (auto simp: unread_def available_def input_ok_def add.commute)
  next
    case False
    then obtain l' where l': "l = ?a @ l'" "read_stream (reads f) = l' @ CHR 10 # rest" using pre by blast
    have a: "takeWhile (\<lambda>c. c \<noteq> CHR 10) ?a = ?a" "dropWhile (\<lambda>c. c \<noteq> CHR 10) ?a = []"
      using False by (auto simp: takeWhile_eq_all_conv dropWhile_eq_Nil_conv)
    let ?f = "if flush then snd (flush_out_buf f) else f"
    have ok: "input_ok ?f" by (rule flush_input_ok[OF less.prems(1,2)])
    have rds: "reads ?f = reads f" by simp
    have ne: "reads ?f \<noteq> []" using l'(2) by auto
    note fill = fill_ok[OF ok ne]
    have less_in: "input_left (fill_in_buf ?f) < input_left f"
      using input_left_fill[of ?f] ok input_left_flush[of f] by (auto simp: input_ok_def split: if_splits)
    have "\<exists>f'. read_line (n - length ?a) False (acc @ ?a) (fill_in_buf ?f) = (Some ((acc @ ?a) @ l'), f') \<and>
        unread f' = rest \<and> input_ok f'"
      using less.hyps[OF less_in fill(1), of False l' "n - length ?a" "acc @ ?a"] fill(2) l' less.prems(4,5)
      by (simp add: rds)
    moreover have "read_line n flush acc f = read_line (n - length ?a) False (acc @ ?a) (fill_in_buf ?f)"
      using f l' less.prems(5) by (subst read_line.simps) (simp add: Let_def a)
    ultimately show ?thesis using l'(1) by simp
  qed
qed

text \<open>A line arrives whole however the socket cuts the stream up: if what is still to come starts with
  a line shorter than the line buffer and no read or write fails, \<open>read_line\<close> returns that line
  without its newline and leaves exactly what follows it to be read.\<close>

theorem read_line_returns_line:
  assumes "input_ok f" "flush \<Longrightarrow> list_all (\<lambda>w. w \<noteq> None) (writes f)"
    and "unread f = l @ CHR 10 # rest" "CHR 10 \<notin> set l" "length l + 1 < n"
  shows "fst (read_line n flush [] f) = Some l \<and> unread (snd (read_line n flush [] f)) = rest"
proof -
  from assms(2) have "flush \<Longrightarrow> list_all (\<lambda>w. w \<noteq> None) (writes f)" .
  from read_line_ok[OF assms(1) this assms(3-5), of flush "[]"] show ?thesis by auto
qed

lemma read_line_returns_line_witness:
  "fst (read_line 10 True [] (create_buffered_file 3 4 [Some ''M'', Some ''100'', Some (''F'' @ [CHR 10]), Some ''D0''] []))
     = Some ''M100F''"
proof -
  let ?f = "create_buffered_file 3 4 [Some ''M'', Some ''100'', Some (''F'' @ [CHR 10]), Some ''D0''] []"
  have ok: "input_ok ?f"
    by (simp add: input_ok_def create_buffered_file_def no_error_def clean_reads_def)
  have u: "unread ?f = ''M100F'' @ CHR 10 # ''D0''"
    by (simp add: unread_def available_def create_buffered_file_def)
  have w: "list_all (\<lambda>w. w \<noteq> None) (writes ?f)" by (simp add: create_buffered_file_def)
  show ?thesis using read_line_returns_line[OF ok _ u, of True 10] w by simp
qed

lemma read_block_ok:
  "input_ok f \<Longrightarrow> len \<le> length (unread f) \<Longrightarrow>
   \<exists>f'. read_block len acc f = (Some (acc @ take len (unread f)), f') \<and> unread f' = drop len (unread f) \<and>
     input_ok f'"
proof (induction "input_left f" arbitrary: f len acc rule: less_induct)
  case less
  have f: "\<not> eof f" "no_error f" using less.prems(1) by (simp_all add: input_ok_def)
  have done0: "read_block 0 acc g = (Some acc, g)" if "input_ok g" for acc g
    using that by (subst read_block.simps) (simp add: input_ok_def)
  let ?a = "available f"
  have la: "length (in_data f) - read_ptr f = length ?a" by (simp add: available_def)
  show ?case
  proof (cases "len \<le> length ?a")
    case True
    let ?f = "f\<lparr>read_ptr := read_ptr f + len\<rparr>"
    have ok: "input_ok ?f" using less.prems(1) by (simp add: input_ok_def)
    have "read_block len acc f = (Some (acc @ take len ?a), ?f)"
    proof (cases "len = 0")
      case True
      then show ?thesis using done0[OF less.prems(1)] by simp
    next
      case False
      then have "read_block len acc f = read_block 0 (acc @ take len ?a) ?f"
        using f True by (subst read_block.simps) (simp add: la Let_def)
      then show ?thesis using done0[OF ok] by simp
    qed
    then show ?thesis using True ok
      by (auto simp: unread_def available_def add.commute)
  next
    case False
    let ?f = "f\<lparr>read_ptr := read_ptr f + length ?a\<rparr>"
    have ok: "input_ok ?f" using less.prems(1) by (simp add: input_ok_def)
    have ne: "reads ?f \<noteq> []" using False less.prems(2) by (auto simp: unread_def)
    note fill = fill_ok[OF ok ne]
    have "input_left ?f = input_left f" by (auto simp: input_left_def simp del: One_nat_def)
    then have lt: "input_left (fill_in_buf ?f) < input_left f"
      using input_left_fill[of ?f] f by simp
    have "read_block len acc f = read_block (len - length ?a) (acc @ ?a) (fill_in_buf ?f)"
      using f False by (subst read_block.simps) (simp add: la Let_def)
    moreover have "len - length ?a \<le> length (unread (fill_in_buf ?f))"
      using less.prems(2) by (simp add: fill(2)) (simp add: unread_def)
    ultimately show ?thesis
      using less.hyps[OF lt fill(1), of "len - length ?a" "acc @ ?a"] False
      by (auto simp: fill(2) unread_def[of f])
  qed
qed

end
