(* ===== verification/Driver_Dma.thy ===== *)
theory Driver_Dma
  imports MBF_Prelude
begin

text \<open>
  Reading the DRAM: the DMA transfer of \<^verbatim>\<open>driver/dma_control.c\<close>, the memory device of
  \<^verbatim>\<open>driver/memory.c\<close>, and the loop of \<^verbatim>\<open>read_dma_memory\<close> in \<^verbatim>\<open>epics/src/hardware.c\<close> that
  calls it.  The DMA engine itself is hardware: \<open>engine s n\<close> is what it leaves in the buffer for a
  transfer of \<open>n\<close> bytes from bus address \<open>s\<close>, and \<open>engine_copies\<close> is the behaviour its data sheet
  gives for aligned transfers.  Sizes are 64-bit in the source and naturals here; masking with
  \<^verbatim>\<open>~31\<close> is written as rounding down to a multiple of 32.
\<close>

definition DMA_ALIGNMENT :: nat where "DMA_ALIGNMENT = 32"
definition MAX_DMA_TRANSFER :: nat where "MAX_DMA_TRANSFER = (2 ^ 23 - 1) div DMA_ALIGNMENT * DMA_ALIGNMENT"

definition align_down :: "nat \<Rightarrow> nat" where
  "align_down n = n div DMA_ALIGNMENT * DMA_ALIGNMENT"

record dma_request =
  dma_start :: nat
  dma_count :: nat
  start_offset :: nat
  granted :: nat

text \<open>The adjustment of start and count to the alignment and to the buffer.\<close>

definition make_request :: "nat \<Rightarrow> nat \<Rightarrow> nat \<Rightarrow> dma_request" where
  "make_request buffer_size start count =
     (let start0 = align_down start;
          offset = start - start0;
          n = align_down (offset + count + (DMA_ALIGNMENT - 1));
          max_count = (if buffer_size < MAX_DMA_TRANSFER then buffer_size else MAX_DMA_TRANSFER)
      in if n > max_count
         then \<lparr>dma_start = start0, dma_count = max_count, start_offset = offset,
               granted = max_count - offset\<rparr>
         else \<lparr>dma_start = start0, dma_count = n, start_offset = offset, granted = count\<rparr>)"

datatype errno = EFAULT | EKILLED | EUNEXPECTED_END | EINVAL

text \<open>\<^verbatim>\<open>read_dma_memory\<close> of the driver; \<open>killed\<close>: the wait was interrupted by a fatal signal.\<close>

definition driver_read_dma ::
  "(nat \<Rightarrow> nat \<Rightarrow> u8 list) \<Rightarrow> nat \<Rightarrow> bool \<Rightarrow> nat \<Rightarrow> nat \<Rightarrow> errno + u8 list" where
  "driver_read_dma engine buffer_size killed start count =
     (let r = make_request buffer_size start count;
          buffer = engine (dma_start r) (dma_count r)
      in if killed then Inl EKILLED
         else Inr (take (granted r) (drop (start_offset r) buffer)))"

record memory_device =
  dev_engine :: "nat \<Rightarrow> nat \<Rightarrow> u8 list"
  dev_buffer_size :: nat
  dev_base :: nat
  dev_length :: nat

text \<open>\<^verbatim>\<open>mbf_dma_read\<close>, with the whole result copied to the caller: bytes and the new position.\<close>

definition mbf_dma_read ::
  "memory_device \<Rightarrow> bool \<Rightarrow> nat \<Rightarrow> nat \<Rightarrow> (errno + u8 list) \<times> nat" where
  "mbf_dma_read dev killed count f_pos =
     (if f_pos = dev_length dev then (Inr [], f_pos)
      else if f_pos > dev_length dev then (Inl EFAULT, f_pos)
      else (let count = (if count > dev_length dev - f_pos then dev_length dev - f_pos else count)
            in case driver_read_dma (dev_engine dev) (dev_buffer_size dev) killed (dev_base dev + f_pos) count of
                 Inl e \<Rightarrow> (Inl e, f_pos)
               | Inr data \<Rightarrow>
                   let f_pos = f_pos + length data;
                       f_pos = (if f_pos = dev_length dev then 0 else f_pos)
                   in if data = [] then (Inl EFAULT, f_pos) else (Inr data, f_pos)))"

text \<open>
  The loop of \<^verbatim>\<open>read_dma_memory\<close> in the EPICS server, after the seek.  \<open>kills\<close> says of each
  coming read whether it is killed.
\<close>

function read_loop ::
  "memory_device \<Rightarrow> (nat \<Rightarrow> bool) \<Rightarrow> nat \<Rightarrow> nat \<Rightarrow> nat \<Rightarrow> u8 list \<Rightarrow> errno option \<times> u8 list" where
  "read_loop dev kills k f_pos read_request acc =
     (if read_request > 0
      then (case mbf_dma_read dev (kills k) read_request f_pos of
              (Inl e, p) \<Rightarrow> (Some e, acc)
            | (Inr data, p) \<Rightarrow>
                if \<not> length data > 0 then (Some EUNEXPECTED_END, acc)
                else read_loop dev kills (Suc k) p (read_request - length data) (acc @ data))
      else (None, acc))"
  by pat_completeness auto
termination
  by (relation "measure (\<lambda>(dev, kills, k, f_pos, read_request, acc). read_request)") auto

declare read_loop.simps [simp del]

text \<open>\<^verbatim>\<open>lseek\<close> refuses positions beyond the end of the device.\<close>

definition read_dma_memory ::
  "memory_device \<Rightarrow> (nat \<Rightarrow> bool) \<Rightarrow> nat \<Rightarrow> nat \<Rightarrow> errno option \<times> u8 list" where
  "read_dma_memory dev kills seek_offset read_request =
     (if seek_offset > dev_length dev then (Some EINVAL, [])
      else read_loop dev kills 0 seek_offset read_request [])"

section \<open>Alignment\<close>

definition aligned :: "nat \<Rightarrow> bool" where
  "aligned n \<longleftrightarrow> n mod DMA_ALIGNMENT = 0"

lemma align_down_facts:
  "align_down n \<le> n" "n < align_down n + DMA_ALIGNMENT" "aligned (align_down n)"
proof -
  have "n mod DMA_ALIGNMENT < DMA_ALIGNMENT" by (simp add: DMA_ALIGNMENT_def)
  moreover have "n = align_down n + n mod DMA_ALIGNMENT" by (simp add: align_down_def)
  ultimately show "align_down n \<le> n" "n < align_down n + DMA_ALIGNMENT" by linarith+
  show "aligned (align_down n)" by (simp add: aligned_def align_down_def)
qed

text \<open>The buffer sizes the driver allocates: a power of two of at least one page.\<close>

definition valid_buffer :: "nat \<Rightarrow> bool" where
  "valid_buffer n \<longleftrightarrow> 2 * DMA_ALIGNMENT \<le> n \<and> aligned n"

lemma valid_buffer_power: "12 \<le> k \<Longrightarrow> valid_buffer (2 ^ k)"
proof -
  assume "12 \<le> k"
  then have "(2::nat) ^ k = 2 ^ 6 * 2 ^ (k - 6)" using power_add[of "2::nat" 6 "k - 6"] by simp
  moreover have "(1::nat) \<le> 2 ^ (k - 6)" by simp
  ultimately show ?thesis
    by (simp add: valid_buffer_def aligned_def DMA_ALIGNMENT_def)
qed

lemma max_count_facts:
  assumes "valid_buffer b"
  shows "2 * DMA_ALIGNMENT \<le> (if b < MAX_DMA_TRANSFER then b else MAX_DMA_TRANSFER)"
    "aligned (if b < MAX_DMA_TRANSFER then b else MAX_DMA_TRANSFER)"
  using assms by (auto simp: valid_buffer_def MAX_DMA_TRANSFER_def DMA_ALIGNMENT_def aligned_def)

lemma aligned_le: "aligned q \<Longrightarrow> aligned m \<Longrightarrow> q < m + DMA_ALIGNMENT \<Longrightarrow> q \<le> m"
  unfolding aligned_def DMA_ALIGNMENT_def by presburger

lemma request_facts:
  assumes "valid_buffer b" "0 < count"
  shows "aligned (dma_start (make_request b start count))" "aligned (dma_count (make_request b start count))"
    "dma_start (make_request b start count) + start_offset (make_request b start count) = start"
    "start_offset (make_request b start count) + granted (make_request b start count)
       \<le> dma_count (make_request b start count)"
    "0 < granted (make_request b start count)" "granted (make_request b start count) \<le> count"
    "dma_count (make_request b start count) \<le> b" "dma_count (make_request b start count) < 2 ^ 23"
proof -
  let ?m = "if b < MAX_DMA_TRANSFER then b else MAX_DMA_TRANSFER"
  let ?o = "start - align_down start"
  let ?n = "align_down (?o + count + (DMA_ALIGNMENT - 1))"
  have o: "?o < DMA_ALIGNMENT" "align_down start + ?o = start"
    using align_down_facts[of start] by linarith+
  have n: "?o + count \<le> ?n"
    using align_down_facts(2)[of "?o + count + (DMA_ALIGNMENT - 1)"] by (simp add: DMA_ALIGNMENT_def)
  have m: "2 * DMA_ALIGNMENT \<le> ?m" "aligned ?m" "?m \<le> b" "?m < 2 ^ 23"
    using max_count_facts[OF assms(1)] by (auto simp: MAX_DMA_TRANSFER_def DMA_ALIGNMENT_def)
  have big: "?m - ?o \<le> count" if "?n > ?m"
  proof -
    have "?n \<le> ?m" if "?o + count < ?m"
    proof (rule aligned_le[OF align_down_facts(3) m(2)])
      show "?n < ?m + DMA_ALIGNMENT"
        using align_down_facts(1)[of "?o + count + (DMA_ALIGNMENT - 1)"] that
        by (simp add: DMA_ALIGNMENT_def)
    qed
    with that show ?thesis by linarith
  qed
  show "aligned (dma_start (make_request b start count))" "aligned (dma_count (make_request b start count))"
    "dma_start (make_request b start count) + start_offset (make_request b start count) = start"
    "start_offset (make_request b start count) + granted (make_request b start count)
       \<le> dma_count (make_request b start count)"
    "0 < granted (make_request b start count)" "granted (make_request b start count) \<le> count"
    "dma_count (make_request b start count) \<le> b" "dma_count (make_request b start count) < 2 ^ 23"
    using o m n big assms(2) align_down_facts(3)
    by (auto simp: make_request_def Let_def DMA_ALIGNMENT_def)
qed

text \<open>Every DMA transfer is one the engine can do, and it covers what the caller is told it got: start
  and count are multiples of 32, the count fits the buffer and the 23-bit limit, the granted bytes
  lie inside the transfer, and at least one byte is granted when one is asked for.\<close>

theorem dma_request_safe:
  assumes "valid_buffer buffer_size" "0 < count"
  shows "let r = make_request buffer_size start count in
    aligned (dma_start r) \<and> aligned (dma_count r) \<and> dma_count r \<le> buffer_size \<and> dma_count r < 2 ^ 23 \<and>
    dma_start r + start_offset r = start \<and> start_offset r + granted r \<le> dma_count r \<and>
    0 < granted r \<and> granted r \<le> count"
  using request_facts[OF assms, of start] by (simp add: Let_def)

lemma dma_request_safe_witness:
  "dma_count (make_request 4096 100 5000) = 4096 \<and> granted (make_request 4096 100 5000) = 4092 \<and>
   aligned (dma_start (make_request 4096 100 5000))"
proof -
  have v: "valid_buffer 4096" by (simp add: valid_buffer_def aligned_def DMA_ALIGNMENT_def)
  show ?thesis using dma_request_safe[OF v, of 5000 100]
    by (simp add: make_request_def Let_def align_down_def DMA_ALIGNMENT_def MAX_DMA_TRANSFER_def)
qed

section \<open>Reading round the buffer\<close>

text \<open>The engine on aligned transfers: the bytes of the memory \<open>D\<close> at the bus addresses.\<close>

definition engine_copies :: "(nat \<Rightarrow> nat \<Rightarrow> u8 list) \<Rightarrow> (nat \<Rightarrow> u8) \<Rightarrow> bool" where
  "engine_copies engine D \<longleftrightarrow>
     (\<forall>s n. aligned s \<longrightarrow> aligned n \<longrightarrow> engine s n = map D [s..<s + n])"

lemma driver_read_ok:
  assumes "engine_copies engine D" "valid_buffer b" "0 < count"
  shows "\<exists>g. 0 < g \<and> g \<le> count \<and>
    driver_read_dma engine b False start count = Inr (map D [start..<start + g])"
proof -
  note r = request_facts[OF assms(2,3), of start]
  let ?r = "make_request b start count"
  have "engine (dma_start ?r) (dma_count ?r) = map D [dma_start ?r..<dma_start ?r + dma_count ?r]"
    using assms(1) r(1,2) by (simp add: engine_copies_def)
  then have "take (granted ?r) (drop (start_offset ?r) (engine (dma_start ?r) (dma_count ?r))) =
      map D [start..<start + granted ?r]"
    using r(3,4) by (simp add: drop_map take_map drop_upt) 
  then show ?thesis using r(5,6)
    by (intro exI[of _ "granted ?r"]) (simp add: driver_read_dma_def Let_def)
qed

definition device_ok :: "memory_device \<Rightarrow> (nat \<Rightarrow> u8) \<Rightarrow> bool" where
  "device_ok dev D \<longleftrightarrow> engine_copies (dev_engine dev) D \<and> valid_buffer (dev_buffer_size dev)"

lemma mbf_dma_read_ok:
  assumes "device_ok dev D" "f_pos < dev_length dev" "0 < count"
  shows "\<exists>g. 0 < g \<and> g \<le> count \<and> f_pos + g \<le> dev_length dev \<and>
    mbf_dma_read dev False count f_pos =
      (Inr (map D [dev_base dev + f_pos..<dev_base dev + f_pos + g]), (f_pos + g) mod dev_length dev)"
proof -
  let ?c = "if count > dev_length dev - f_pos then dev_length dev - f_pos else count"
  have c: "0 < ?c" "?c \<le> count" "f_pos + ?c \<le> dev_length dev" using assms(2,3) by auto
  obtain g where g: "0 < g" "g \<le> ?c"
    "driver_read_dma (dev_engine dev) (dev_buffer_size dev) False (dev_base dev + f_pos) ?c =
      Inr (map D [dev_base dev + f_pos..<dev_base dev + f_pos + g])"
    using driver_read_ok[OF _ _ c(1)] assms(1) unfolding device_ok_def by blast
  have "mbf_dma_read dev False count f_pos =
      (Inr (map D [dev_base dev + f_pos..<dev_base dev + f_pos + g]), (f_pos + g) mod dev_length dev)"
    unfolding mbf_dma_read_def Let_def g(3) using assms(2) g(1,2) c by (auto simp: mod_less)
  then show ?thesis using g c by (intro exI[of _ g]) linarith
qed

lemma circular_split:
  assumes "p < l" "p + g \<le> l" "g \<le> n"
  shows "map (\<lambda>i. D (b + (p + i) mod l)) [0..<n] =
    map D [b + p..<b + p + g] @ map (\<lambda>i. D (b + ((p + g) mod l + i) mod l)) [0..<n - g]"
proof -
  have "[0..<n] = [0..<g] @ map (\<lambda>i. i + g) [0..<n - g]"
    using assms(3) by (metis add.left_neutral le_add_diff_inverse2 map_add_upt upt_add_eq_append le_add1
        add_0_left le_add_diff_inverse zero_le)
  moreover have "map (\<lambda>i. D (b + (p + i) mod l)) [0..<g] = map D [b + p..<b + p + g]"
    using assms(2) by (intro nth_equalityI) (auto simp: add.assoc)
  moreover have "(p + (i + g)) mod l = ((p + g) mod l + i) mod l" for i
    unfolding mod_add_left_eq by (simp add: ac_simps)
  ultimately show ?thesis by (simp add: comp_def)
qed

lemma read_loop_circular:
  "device_ok dev D \<Longrightarrow> f_pos < dev_length dev \<Longrightarrow>
   read_loop dev (\<lambda>_. False) k f_pos n acc =
     (None, acc @ map (\<lambda>i. D (dev_base dev + (f_pos + i) mod dev_length dev)) [0..<n])"
proof (induction n arbitrary: k f_pos acc rule: less_induct)
  case (less n)
  show ?case
  proof (cases "n = 0")
    case True
    then show ?thesis by (subst read_loop.simps) simp
  next
    case False
    then have n: "0 < n" by simp
    let ?p = "\<lambda>g. (f_pos + g) mod dev_length dev"
    obtain g where g: "0 < g" "g \<le> n" "f_pos + g \<le> dev_length dev"
      "mbf_dma_read dev False n f_pos =
        (Inr (map D [dev_base dev + f_pos..<dev_base dev + f_pos + g]), ?p g)"
      using mbf_dma_read_ok[OF less.prems n] by blast
    have "read_loop dev (\<lambda>_. False) k f_pos n acc =
        read_loop dev (\<lambda>_. False) (Suc k) (?p g) (n - g) (acc @ map D [dev_base dev + f_pos..<dev_base dev + f_pos + g])"
      using n g by (subst read_loop.simps) simp
    also have "\<dots> = (None, (acc @ map D [dev_base dev + f_pos..<dev_base dev + f_pos + g]) @
        map (\<lambda>i. D (dev_base dev + (?p g + i) mod dev_length dev)) [0..<n - g])"
      using less.IH[of "n - g" "?p g"] less.prems g by simp
    finally show ?thesis
      unfolding circular_split[OF less.prems(2) g(3,2), of D "dev_base dev"] by simp
  qed
qed

text \<open>C2 The server reads the capture memory as the circular buffer it is: a read of any length from any
  position inside the device returns the bytes at the following addresses, continuing at the start
  of the memory when it runs over the end, whatever the DMA buffer size and the alignment of the
  request, and never fails.  The engine is required to copy aligned transfers.\<close>

theorem dma_read_circular:
  assumes "engine_copies (dev_engine dev) D" "valid_buffer (dev_buffer_size dev)"
    and "offset < dev_length dev"
  shows "read_dma_memory dev (\<lambda>_. False) offset n =
    (None, map (\<lambda>i. D (dev_base dev + (offset + i) mod dev_length dev)) [0..<n])"
  using read_loop_circular[of dev D offset 0 n "[]"] assms
  by (simp add: read_dma_memory_def device_ok_def)

lemma dma_read_circular_witness:
  "read_dma_memory \<lparr>dev_engine = (\<lambda>s n. map word_of_nat [s..<s + n]), dev_buffer_size = 64,
      dev_base = 0, dev_length = 100\<rparr> (\<lambda>_. False) 98 4 = (None, [98, 99, 0, 1])"
proof -
  let ?dev = "\<lparr>dev_engine = (\<lambda>s n. map word_of_nat [s..<s + n]), dev_buffer_size = 64,
      dev_base = 0, dev_length = 100\<rparr>"
  have e: "engine_copies (dev_engine ?dev) word_of_nat" by (simp add: engine_copies_def)
  have v: "valid_buffer (dev_buffer_size ?dev)"
    by (simp add: valid_buffer_def aligned_def DMA_ALIGNMENT_def)
  show ?thesis using dma_read_circular[OF e v, of 98 4] by (simp add: upt_rec)
qed

end
