(* ===== verification/Memory.thy ===== *)
theory Memory
  imports System_Config Events
begin

unbundle bit_operations_syntax

text \<open>
  Memory capture and readout (\<^verbatim>\<open>epics/src/memory.c\<close>): the selection of the two captured
  channels, the delays recorded when a capture completes, the address arithmetic of the readout and
  the readout itself.  The writes to other records are the commands a handler returns.  Signed
  arithmetic of the offsets wraps modulo \<open>2 ^ 32\<close>.
\<close>

section \<open>Channel selection\<close>

datatype chan_select = ADC0 | FIR0 | DAC0 | ADC1 | FIR1 | DAC1

definition select_map :: "(chan_select \<times> chan_select) list" where
  "select_map =
     [(ADC0, ADC1), (ADC0, FIR1), (ADC0, DAC1), (ADC0, FIR0), (FIR0, ADC1),
      (FIR0, FIR1), (FIR0, DAC1), (FIR0, DAC0), (DAC0, ADC1), (DAC0, FIR1),
      (DAC0, DAC1), (ADC0, DAC0), (ADC1, FIR1), (FIR1, DAC1), (ADC1, DAC1)]"

definition select_map_pairs :: "nat list" where
  "select_map_pairs = [0, 5, 10]"

fun first_match :: "(nat \<Rightarrow> bool) \<Rightarrow> nat list \<Rightarrow> nat" where
  "first_match P [] = 0"
| "first_match P (i # is) = (if P i then i else first_match P is)"

definition find_single_selection :: "chan_select \<Rightarrow> nat" where
  "find_single_selection sel =
     first_match (\<lambda>ix. fst (select_map ! ix) = sel \<or> snd (select_map ! ix) = sel) select_map_pairs"

definition map_eq :: "chan_select \<times> chan_select \<Rightarrow> chan_select \<times> chan_select \<Rightarrow> bool" where
  "map_eq a b \<longleftrightarrow> fst a = fst b \<and> snd a = snd b"

definition find_paired_selection :: "chan_select \<Rightarrow> chan_select \<Rightarrow> nat" where
  "find_paired_selection sel0 sel1 =
     first_match (\<lambda>i. map_eq (select_map ! i) (sel0, sel1) \<or> map_eq (select_map ! i) (sel1, sel0)) [0..<15]"

definition find_selection :: "chan_select \<Rightarrow> chan_select \<Rightarrow> nat" where
  "find_selection sel0 sel1 =
     (if sel0 = sel1 then find_single_selection sel0 else find_paired_selection sel0 sel1)"

section \<open>State\<close>

record memory_state =
  chan_selection0 :: chan_select
  chan_selection1 :: chan_select
  trigger_origin :: u32
  readout_offset :: u32
  dac_delays :: "nat \<Rightarrow> u32"
  adc_delays :: "nat \<Rightarrow> u32"
  channel_delays0 :: u32
  channel_delays1 :: u32
  memory_wf0 :: "u16 list"
  memory_wf1 :: "u16 list"
  busy_status :: bool

datatype memory_command =
    WriteSelect nat
  | WriteChan0 chan_select
  | WriteChan1 chan_select
  | WriteDramMux nat
  | WriteDramRunout u32

definition write_memory_select :: "nat \<Rightarrow> memory_state \<Rightarrow> memory_state \<times> memory_command list" where
  "write_memory_select mux s =
     (let (c0, c1) = select_map ! mux
      in (s\<lparr>chan_selection0 := c0, chan_selection1 := c1\<rparr>, [WriteChan0 c0, WriteChan1 c1, WriteDramMux mux]))"

text \<open>The write to the select record is processed, so \<open>write_memory_select\<close> runs.\<close>

definition write_chan0_select :: "chan_select \<Rightarrow> memory_state \<Rightarrow> memory_state \<times> memory_command list" where
  "write_chan0_select v s =
     (let sel = find_selection v (chan_selection1 s); (s', cs) = write_memory_select sel s
      in (s', WriteSelect sel # cs))"

definition write_chan1_select :: "chan_select \<Rightarrow> memory_state \<Rightarrow> memory_state \<times> memory_command list" where
  "write_chan1_select v s =
     (let sel = find_selection (chan_selection0 s) v; (s', cs) = write_memory_select sel s
      in (s', WriteSelect sel # cs))"

section \<open>Delays and addresses\<close>

definition set_memory_dac_offset :: "nat \<Rightarrow> u32 \<Rightarrow> memory_state \<Rightarrow> memory_state" where
  "set_memory_dac_offset axis delay s = s\<lparr>dac_delays := (dac_delays s)(axis := delay)\<rparr>"

definition set_memory_adc_offset :: "nat \<Rightarrow> u32 \<Rightarrow> memory_state \<Rightarrow> memory_state" where
  "set_memory_adc_offset axis delay s = s\<lparr>adc_delays := (adc_delays s)(axis := delay)\<rparr>"

fun channel_delay :: "hardware_delays \<Rightarrow> memory_state \<Rightarrow> chan_select \<Rightarrow> u32" where
  "channel_delay hw s ADC0 = adc_delays s 0"
| "channel_delay hw s ADC1 = adc_delays s 1"
| "channel_delay hw s FIR0 = DRAM_FIR_DELAY hw"
| "channel_delay hw s FIR1 = DRAM_FIR_DELAY hw"
| "channel_delay hw s DAC0 = dac_delays s 0"
| "channel_delay hw s DAC1 = dac_delays s 1"

definition update_channel_delays :: "hardware_delays \<Rightarrow> memory_state \<Rightarrow> memory_state" where
  "update_channel_delays hw s =
     s\<lparr>channel_delays0 := channel_delay hw s (chan_selection0 s),
       channel_delays1 := channel_delay hw s (chan_selection1 s)\<rparr>"

definition compute_dram_offset :: "u32 \<Rightarrow> u32 \<Rightarrow> memory_state \<Rightarrow> u64" where
  "compute_dram_offset bpt offset_turns s =
     ucast (trigger_origin s) + scast (offset_turns * bpt * 4)"

definition get_memory_channel_delays :: "memory_state \<Rightarrow> u32 \<times> u32" where
  "get_memory_channel_delays s = (channel_delays0 s, channel_delays1 s)"

definition DRAM0_LENGTH :: u32 where "DRAM0_LENGTH = 0x80000000"

text \<open>The position in the device that \<^verbatim>\<open>hw_read_dram_memory\<close> seeks to.\<close>

definition dram_position :: "u64 \<Rightarrow> u64" where
  "dram_position offset = offset AND (ucast DRAM0_LENGTH - 1)"

section \<open>Readout\<close>

text \<open>\<open>read_dram offset n\<close> is the result of \<^verbatim>\<open>hw_read_dram_memory\<close>: \<open>n\<close> samples.\<close>

definition readout_memory ::
  "(u64 \<Rightarrow> nat \<Rightarrow> u32 list) \<Rightarrow> 'd system_config \<Rightarrow> memory_state \<Rightarrow> memory_state" where
  "readout_memory read_dram cfg s =
     (let readout_length = unat (memory_readout_length cfg);
          bpt = bunches_per_turn cfg;
          buffer = read_dram (compute_dram_offset bpt (readout_offset s) s) (readout_length + unat bpt);
          d0 = unat (channel_delays0 s); d1 = unat (channel_delays1 s)
      in s\<lparr>memory_wf0 := map (\<lambda>i. ucast (buffer ! (i + d0))) [0..<readout_length],
           memory_wf1 := map (\<lambda>i. ucast (drop_bit 16 (buffer ! (i + d1)))) [0..<readout_length]\<rparr>)"

definition runout_lookup :: "u32 list" where
  "runout_lookup = [0x02000000, 0x04000000, 0x08000000, 0x0C000000, 0x0FF00000]"

definition write_dram_runout :: "nat \<Rightarrow> memory_command list" where
  "write_dram_runout runout = [WriteDramRunout (runout_lookup ! runout)]"

definition write_readout_offset ::
  "(u64 \<Rightarrow> nat \<Rightarrow> u32 list) \<Rightarrow> 'd system_config \<Rightarrow> bool \<Rightarrow> u32 \<Rightarrow> memory_state \<Rightarrow> memory_state" where
  "write_readout_offset read_dram cfg epics_ready offset s =
     (let s' = s\<lparr>readout_offset := offset\<rparr> in if epics_ready then readout_memory read_dram cfg s' else s')"

definition capture_complete ::
  "(u64 \<Rightarrow> nat \<Rightarrow> u32 list) \<Rightarrow> 'd system_config \<Rightarrow> hardware_delays \<Rightarrow> u32 \<Rightarrow> memory_state \<Rightarrow> memory_state" where
  "capture_complete read_dram cfg hw dram_address s =
     readout_memory read_dram cfg ((update_channel_delays hw s)\<lparr>trigger_origin := dram_address\<rparr>)"

definition handle_memory_event ::
  "(u64 \<Rightarrow> nat \<Rightarrow> u32 list) \<Rightarrow> 'd system_config \<Rightarrow> hardware_delays \<Rightarrow> bool \<Rightarrow> u32 \<Rightarrow> interrupts \<Rightarrow>
   memory_state \<Rightarrow> memory_state" where
  "handle_memory_event read_dram cfg hw active dram_address ints s =
     (let s' = s\<lparr>busy_status := active\<rparr>
      in if test_intersect dram_done ints then capture_complete read_dram cfg hw dram_address s' else s')"

section \<open>Properties\<close>

lemma upt_15: "[0..<15] = [0,1,2,3,4,5,6,7,8,9,10,11,12,13,14::nat]"
  by (simp add: upt_rec)

text \<open>Whatever two channels the operator asks for, the capture can deliver: the selection found for them
  is one of the fifteen hardware settings, it captures both channels, in one order or the other,
  and one channel asked for twice is captured together with its partner on the other axis.\<close>

theorem channel_selection_covers:
  "let sel = find_selection a b; (c0, c1) = select_map ! sel
   in sel \<in> (if a = b then {0, 5, 10} else {0..<15}) \<and> a \<in> {c0, c1} \<and> b \<in> {c0, c1}"
proof -
  let ?all = "[ADC0, FIR0, DAC0, ADC1, FIR1, DAC1]"
  have "list_all (\<lambda>a. list_all (\<lambda>b. let sel = find_selection a b; (c0, c1) = select_map ! sel
      in sel \<in> (if a = b then {0, 5, 10} else {0..<15}) \<and> a \<in> {c0, c1} \<and> b \<in> {c0, c1}) ?all) ?all"
    by code_simp
  moreover have "x \<in> set ?all" for x by (cases x) simp_all
  ultimately show ?thesis unfolding list_all_iff by blast
qed

lemma uint_dram_position: "uint (dram_position off) = uint off mod 2 ^ 31"
proof -
  have "(ucast DRAM0_LENGTH - 1 :: u64) = mask 31" by (simp add: DRAM0_LENGTH_def mask_eq_exp_minus_1)
  then have "dram_position off = take_bit 31 off" by (simp only: dram_position_def take_bit_eq_mask)
  then have "uint (dram_position off) = take_bit 31 (uint off)" by (simp only: unsigned_take_bit_eq)
  then show ?thesis by (simp only: take_bit_eq_mod)
qed

lemma take_bit_sint: "m \<le> LENGTH('a) \<Longrightarrow> take_bit m (sint w) = take_bit m (uint w)" for w :: "'a::len word"
  by (simp add: sint_uint take_bit_signed_take_bit)

lemma take_bit_add_right: "take_bit n (a + take_bit n b) = take_bit n (a + b)"
  and take_bit_mult_left: "take_bit n (take_bit n a * b) = take_bit n (a * b)"
  and take_bit_mult_right: "take_bit n (a * take_bit n b) = take_bit n (a * b)" for a b :: int
  by (simp_all only: take_bit_eq_mod mod_add_right_eq mod_mult_left_eq mod_mult_right_eq)

lemma take_bit_sint31: "take_bit 31 (sint w) = take_bit 31 (uint w)" for w :: u32
  by (rule take_bit_sint) simp

lemma word_size_facts: "min (31::nat) 64 = 31" "min (31::nat) 32 = 31" "uint (4 :: u32) = 4"
  by simp_all

lemma uint_plus64: "uint (x + y) = take_bit 64 (uint x + uint y)" for x y :: u64
  by (simp only: uint_word_ariths take_bit_eq_mod) simp

lemma uint_times32: "uint (x * y) = take_bit 32 (uint x * uint y)" for x y :: u32
  by (simp only: uint_word_ariths take_bit_eq_mod) simp

text \<open>The address of a turn is exact modulo the size of the memory: for every offset the operator or a
  client can give, negative ones and ones for which the 32-bit product overflows included, the read
  starts \<open>4 * bunches_per_turn * offset\<close> bytes after the trigger, round the circular buffer.\<close>

theorem dram_offset_exact:
  "uint (dram_position (compute_dram_offset bpt offset s)) =
     (uint (trigger_origin s) + 4 * uint bpt * sint offset) mod 2 ^ 31"
proof -
  define w where "w = offset * bpt * 4"
  let ?o = "uint (trigger_origin s)"
  have u: "uint (ucast (trigger_origin s) :: u64) = ?o" by (rule uint_up_ucast) (simp add: is_up)
  have sc: "uint (scast w :: u64) = take_bit 64 (sint w)"
    by (simp only: scast_eq uint_word_of_int take_bit_eq_mod) simp
  have "take_bit 31 (uint (compute_dram_offset bpt offset s)) = take_bit 31 (?o + take_bit 64 (sint w))"
    by (simp only: compute_dram_offset_def w_def[symmetric] uint_plus64 u sc take_bit_take_bit word_size_facts)
  also have "\<dots> = take_bit 31 (?o + take_bit 31 (take_bit 64 (sint w)))"
    by (rule take_bit_add_right[symmetric])
  also have "take_bit 31 (take_bit 64 (sint w)) = take_bit 31 (uint w)"
    by (simp only: take_bit_take_bit word_size_facts take_bit_sint31)
  also have "uint w = take_bit 32 (uint offset * (uint bpt * 4))"
    by (simp only: w_def uint_times32 word_size_facts take_bit_mult_right mult.assoc)
  also have "take_bit 31 (take_bit 32 (uint offset * (uint bpt * 4))) = take_bit 31 (uint offset * (uint bpt * 4))"
    by (simp only: take_bit_take_bit word_size_facts)
  also have "\<dots> = take_bit 31 (take_bit 31 (uint offset) * (uint bpt * 4))"
    by (rule take_bit_mult_left[symmetric])
  also have "take_bit 31 (uint offset) = take_bit 31 (sint offset)"
    by (simp only: take_bit_sint31)
  also have "take_bit 31 (take_bit 31 (sint offset) * (uint bpt * 4)) = take_bit 31 (sint offset * (uint bpt * 4))"
    by (rule take_bit_mult_left)
  finally have "take_bit 31 (uint (compute_dram_offset bpt offset s)) = take_bit 31 (?o + sint offset * (uint bpt * 4))"
    by (simp only: take_bit_add_right)
  then show ?thesis
    by (simp only: uint_dram_position take_bit_eq_mod) (simp only: ac_simps)
qed

end
