(* ===== verification/Socket_Command.thy ===== *)
theory Socket_Command
  imports Parse Buffered_File Memory Trigger_Locks
begin

unbundle bit_operations_syntax

text \<open>
  The readout commands of the data server (\<^verbatim>\<open>epics/src/socket_command.c\<close>): parsing of the memory
  and detector commands, locking of the trigger target, and sending of the captured data in blocks.
  Samples are 32-bit words with channel 0 in the lower and channel 1 in the upper half; 16-bit values
  are sent in the byte order of the machine, low byte first.  For the averaged and the frequency
  shifted formats the operations on \<^verbatim>\<open>float\<close> and \<^verbatim>\<open>float complex\<close> are parameters.
\<close>

section \<open>Arguments\<close>

record lock_parse =
  lock :: bool
  timeout :: u32

datatype 'e command_error =
    ParseError parse_error nat
  | InvalidChannelNumber nat
  | InvalidBunchNumber nat
  | InvalidDecimation nat
  | TooManyTurns
  | DecimationTooLarge
  | SocketOptions 'e
  | InvalidAxisNumber
  | NoDetectorsEnabled
  | LockError "'e lock_result"

datatype arg_error = PErr parse_error | BadChannel | BadBunch | BadDecimation

type_synonym 'a arg_parser = "string \<Rightarrow> (arg_error + 'a) \<times> string"

definition aret :: "'a \<Rightarrow> 'a arg_parser" where "aret x s = (Inr x, s)"

definition abind :: "'a arg_parser \<Rightarrow> ('a \<Rightarrow> 'b arg_parser) \<Rightarrow> 'b arg_parser" where
  "abind p f s = (case p s of (Inl e, r) \<Rightarrow> (Inl e, r) | (Inr x, r) \<Rightarrow> f x r)"

definition lift :: "'a parser \<Rightarrow> 'a arg_parser" where
  "lift p s = (case p s of (Inl e, r) \<Rightarrow> (Inl (PErr e), r) | (Inr x, r) \<Rightarrow> (Inr x, r))"

definition atest :: "bool \<Rightarrow> arg_error \<Rightarrow> unit arg_parser" where
  "atest b e s = (if b then Inr () else Inl e, s)"

definition aread :: "char \<Rightarrow> bool arg_parser" where
  "aread c s = (let (b, r) = read_char c s in (Inr b, r))"

definition parse_lock :: "lock_parse arg_parser" where
  "parse_lock =
     abind (aread (CHR ''L'')) (\<lambda>l. if l
       then abind (aread (CHR ''W'')) (\<lambda>w. if w
              then abind (lift parse_uint) (\<lambda>t. aret \<lparr>lock = True, timeout = t\<rparr>)
              else aret \<lparr>lock = True, timeout = 0\<rparr>)
       else aret \<lparr>lock = False, timeout = 0\<rparr>)"

datatype memory_data_format = FORMAT_INT16 | FORMAT_FLOAT32 | FORMAT_COMPLEX64

record 'd memory_args =
  margs_count :: u32
  framed :: bool
  margs_offset :: u32
  channel :: int
  bunch :: int
  decimation :: u32
  tune :: "'d option"
  locking :: lock_parse
  format :: memory_data_format

definition MEM_CHANNEL_COUNT :: int where "MEM_CHANNEL_COUNT = 2"

text \<open>The optional parts of the command, each with the value it leaves when absent.\<close>

definition opt_arg :: "char \<Rightarrow> 'a arg_parser \<Rightarrow> 'a \<Rightarrow> 'a arg_parser" where
  "opt_arg c p dflt = abind (aread c) (\<lambda>b. if b then p else aret dflt)"

definition parse_channel :: "int arg_parser" where
  "parse_channel = abind (lift parse_int) (\<lambda>c. abind
     (atest (0 \<le> sint c \<and> sint c < MEM_CHANNEL_COUNT) BadChannel) (\<lambda>_. aret (sint c)))"

definition parse_bunch :: "u32 \<Rightarrow> int arg_parser" where
  "parse_bunch bpt = abind (lift parse_int) (\<lambda>b. abind
     (atest (0 \<le> sint b \<and> sint b < sint bpt) BadBunch) (\<lambda>_. aret (sint b)))"

definition parse_decimation :: "u32 arg_parser" where
  "parse_decimation = abind (lift parse_uint) (\<lambda>d. abind (atest (d > 0) BadDecimation) (\<lambda>_. aret d))"

definition parse_memory_body ::
  "(string \<Rightarrow> 'd \<times> bool \<times> string) \<Rightarrow> u32 \<Rightarrow> 'd memory_args arg_parser" where
  "parse_memory_body strtod bpt =
     abind (lift parse_uint) (\<lambda>count.
     abind (aread (CHR ''F'')) (\<lambda>framed.
     abind (opt_arg (CHR ''O'') (lift parse_int) 0) (\<lambda>offset.
     abind (opt_arg (CHR ''C'') parse_channel (- 1)) (\<lambda>channel.
     abind (aread (CHR ''B'')) (\<lambda>b.
     abind (if b then abind (parse_bunch bpt) (\<lambda>n. aret (n, 1, None, FORMAT_INT16))
            else abind (aread (CHR ''D'')) (\<lambda>d.
                 abind (if d then parse_decimation else aret 1) (\<lambda>dec.
                 abind (aread (CHR ''T'')) (\<lambda>t. if t
                   then abind (lift (parse_double strtod)) (\<lambda>v. aret (- 1, dec, Some v, FORMAT_COMPLEX64))
                   else aret (- 1, dec, None, if d then FORMAT_FLOAT32 else FORMAT_INT16)))))
       (\<lambda>(bunch, dec, tune, fmt).
     abind parse_lock (\<lambda>lk.
     abind (lift parse_eos) (\<lambda>_.
       aret \<lparr>margs_count = count, framed = framed, margs_offset = offset, channel = channel, bunch = bunch,
             decimation = dec, tune = tune, locking = lk, format = fmt\<rparr>))))))))"

text \<open>The position reported: \<^verbatim>\<open>parsed - command + 1 + raw_mode\<close>.\<close>

definition fixup_parse_error :: "arg_error \<Rightarrow> string \<Rightarrow> string \<Rightarrow> bool \<Rightarrow> 'e command_error" where
  "fixup_parse_error e command rest raw_mode =
     (let offset = length command - length rest + 1 + (if raw_mode then 1 else 0)
      in case e of PErr p \<Rightarrow> ParseError p offset
         | BadChannel \<Rightarrow> InvalidChannelNumber offset
         | BadBunch \<Rightarrow> InvalidBunchNumber offset
         | BadDecimation \<Rightarrow> InvalidDecimation offset)"

definition parse_memory_args ::
  "(string \<Rightarrow> 'd \<times> bool \<times> string) \<Rightarrow> u32 \<Rightarrow> bool \<Rightarrow> string \<Rightarrow> 'e command_error + 'd memory_args" where
  "parse_memory_args strtod bpt raw_mode command =
     (case parse_memory_body strtod bpt command of
        (Inl e, r) \<Rightarrow> Inl (fixup_parse_error e command r raw_mode)
      | (Inr a, r) \<Rightarrow> Inr a)"

section \<open>Channels\<close>

record channels_context =
  d0 :: nat
  d1 :: nat
  chan_count :: nat
  chan0 :: bool
  chan1 :: bool

definition make_channels_context :: "int \<Rightarrow> memory_state \<Rightarrow> channels_context" where
  "make_channels_context ch m =
     (let (e0, e1) = get_memory_channel_delays m
      in \<lparr>d0 = unat e0, d1 = unat e1, chan_count = (if ch \<ge> 0 then 1 else 2),
          chan0 = (if ch \<ge> 0 then 1 - ch \<noteq> 0 else True), chan1 = (if ch \<ge> 0 then 1 - ch \<noteq> 1 else True)\<rparr>)"

definition extract_channels_one_bunch :: "u32 list \<Rightarrow> nat \<Rightarrow> channels_context \<Rightarrow> u16 list" where
  "extract_channels_one_bunch buf i c =
     (if chan0 c then [ucast (buf ! (i + d0 c))] else []) @
     (if chan1 c then [ucast (drop_bit 16 (buf ! (i + d1 c)))] else [])"

definition extract_channels :: "u32 list \<Rightarrow> nat \<Rightarrow> nat \<Rightarrow> channels_context \<Rightarrow> u16 list" where
  "extract_channels buf start samples c =
     concat (map (\<lambda>i. extract_channels_one_bunch buf i c) [start..<start + samples])"

definition compute_bunch_turn_data :: "nat \<Rightarrow> u32 list \<Rightarrow> nat \<Rightarrow> nat \<Rightarrow> channels_context \<Rightarrow> u16 list" where
  "compute_bunch_turn_data bpt buf start write_turns c =
     concat (map (\<lambda>t. extract_channels_one_bunch buf (start + t * bpt) c) [0..<write_turns])"

definition le16 :: "u16 \<Rightarrow> string" where
  "le16 w = [char_of (unat (w AND 0xFF)), char_of (unat (drop_bit 8 w))]"

definition bytes16 :: "u16 list \<Rightarrow> string" where
  "bytes16 ws = concat (map le16 ws)"

section \<open>Sending in blocks\<close>

definition READ_BUFFER_BYTES :: nat where "READ_BUFFER_BYTES = 2 ^ 20 - 64"
definition WRITE_BUFFER_BYTES :: nat where "WRITE_BUFFER_BYTES = 2 ^ 16"

text \<open>
  The loop all the senders share: while items are left take as many as fit, handle them, and go on.
  With no room for a single item it would not end.
\<close>

partial_function (option) send_chunks ::
  "nat \<Rightarrow> (nat \<Rightarrow> nat \<Rightarrow> 's \<Rightarrow> 's option) \<Rightarrow> nat \<Rightarrow> nat \<Rightarrow> 's \<Rightarrow> 's option" where
  "send_chunks max_items body start n s =
     (if n > 0
      then (let w = min n max_items
            in case body start w s of None \<Rightarrow> None
               | Some s' \<Rightarrow> send_chunks max_items body (start + w) (n - w) s')
      else Some s)"

definition send_int16_memory_data ::
  "channels_context \<Rightarrow> u32 list \<Rightarrow> nat \<Rightarrow> buffered_file \<Rightarrow> buffered_file option" where
  "send_int16_memory_data c buf read_samples f =
     send_chunks (WRITE_BUFFER_BYTES div 2 div chan_count c)
       (\<lambda>start w f. Some (put_block (bytes16 (extract_channels buf start w c)) f)) 0 read_samples f"

definition send_bunch_memory_data ::
  "nat \<Rightarrow> channels_context \<Rightarrow> nat \<Rightarrow> u32 list \<Rightarrow> nat \<Rightarrow> buffered_file \<Rightarrow> buffered_file option" where
  "send_bunch_memory_data bpt c b buf read_samples f =
     send_chunks (WRITE_BUFFER_BYTES div 2 div chan_count c)
       (\<lambda>start w f. Some (put_block (bytes16 (compute_bunch_turn_data bpt buf (start * bpt + b) w c)) f))
       0 (read_samples div bpt) f"

text \<open>
  \<^verbatim>\<open>float\<close> and \<^verbatim>\<open>float complex\<close> arithmetic as parameters: zero, adding a sample or a rotated
  sample, dividing by a count, multiplying, the unit vector of an angle, and the bytes sent.
\<close>

record ('f, 'c) float_ops =
  fzero :: 'f
  fadd16 :: "'f \<Rightarrow> u16 \<Rightarrow> 'f"
  fdiv :: "'f \<Rightarrow> u32 \<Rightarrow> 'f"
  fbytes :: "'f \<Rightarrow> string"
  czero :: 'c
  cadd16 :: "'c \<Rightarrow> 'c \<Rightarrow> u16 \<Rightarrow> 'c"
  cdiv :: "'c \<Rightarrow> u32 \<Rightarrow> 'c"
  cmul :: "'c \<Rightarrow> 'c \<Rightarrow> 'c"
  angle_to_rotate :: "u64 \<Rightarrow> 'c"
  cbytes :: "'c \<Rightarrow> string"

definition compute_float32_turn_data ::
  "('f, 'c) float_ops \<Rightarrow> nat \<Rightarrow> u32 list \<Rightarrow> nat \<Rightarrow> channels_context \<Rightarrow> u32 \<Rightarrow> 'f list" where
  "compute_float32_turn_data fo bpt buf start c dec =
     (let sample_count = bpt * chan_count c;
          totals = fold (\<lambda>d totals. map2 (fadd16 fo) totals (extract_channels buf (start + d * bpt) bpt c))
            [0..<unat dec] (replicate sample_count (fzero fo))
      in map (\<lambda>t. fdiv fo t dec) totals)"

definition send_float32_memory_data ::
  "('f, 'c) float_ops \<Rightarrow> nat \<Rightarrow> channels_context \<Rightarrow> u32 \<Rightarrow> u32 list \<Rightarrow> nat \<Rightarrow> buffered_file \<Rightarrow> buffered_file option" where
  "send_float32_memory_data fo bpt c dec buf read_samples f =
     (let read_turn_samples = bpt * unat dec;
          turns_per_buffer = WRITE_BUFFER_BYTES div 4 div (bpt * chan_count c)
      in send_chunks turns_per_buffer
           (\<lambda>start w f. Some (put_block (concat (map (\<lambda>t. concat (map (fbytes fo)
               (compute_float32_turn_data fo bpt buf ((start + t) * read_turn_samples) c dec)))
               [0..<w])) f))
           0 (read_samples div read_turn_samples) f)"

text \<open>The angle is a word in units of \<open>2 ^ - 48\<close> revolutions and advances from turn to turn.\<close>

record 'c tune_decimate_state =
  tds_tune :: u64
  tds_decimation :: u32
  tds_angle :: u64
  turn_advance :: u64
  turn_fixup :: "'c list"

definition prepare_tune_decimate ::
  "('f, 'c) float_ops \<Rightarrow> u32 \<Rightarrow> u64 \<Rightarrow> u32 \<Rightarrow> channels_context \<Rightarrow> 'c tune_decimate_state" where
  "prepare_tune_decimate fo bpt freq dec c =
     \<lparr>tds_tune = freq, tds_decimation = dec, tds_angle = 0, turn_advance = freq * ucast bpt,
      turn_fixup = concat (map (\<lambda>i. replicate (chan_count c)
        (cdiv fo (angle_to_rotate fo (of_nat i * freq)) dec)) [0..<unat bpt])\<rparr>"

definition compute_complex64_turn_data ::
  "('f, 'c) float_ops \<Rightarrow> nat \<Rightarrow> u32 list \<Rightarrow> nat \<Rightarrow> channels_context \<Rightarrow> 'c tune_decimate_state \<Rightarrow>
   'c list \<times> 'c tune_decimate_state" where
  "compute_complex64_turn_data fo bpt buf start c st =
     (let sample_count = bpt * chan_count c;
          (totals, angle) = fold (\<lambda>d (totals, angle).
              (map2 (\<lambda>t x. cadd16 fo t (angle_to_rotate fo angle) x) totals
                 (extract_channels buf (start + d * bpt) bpt c),
               angle + turn_advance st))
            [0..<unat (tds_decimation st)] (replicate sample_count (czero fo), tds_angle st)
      in (map2 (cmul fo) totals (turn_fixup st), st\<lparr>tds_angle := angle\<rparr>))"

definition send_complex64_memory_data ::
  "('f, 'c) float_ops \<Rightarrow> nat \<Rightarrow> channels_context \<Rightarrow> u32 list \<Rightarrow> nat \<Rightarrow>
   'c tune_decimate_state \<times> buffered_file \<Rightarrow> ('c tune_decimate_state \<times> buffered_file) option" where
  "send_complex64_memory_data fo bpt c buf read_samples s =
     (let read_turn_samples = bpt * unat (tds_decimation (fst s));
          turns_per_buffer = WRITE_BUFFER_BYTES div 8 div (bpt * chan_count c)
      in send_chunks turns_per_buffer
           (\<lambda>start w (st, f).
              let (out, st') = fold (\<lambda>t (out, st).
                    let (cs, st') = compute_complex64_turn_data fo bpt buf ((start + t) * read_turn_samples) c st
                    in (out @ concat (map (cbytes fo) cs), st')) [0..<w] ([], st)
              in Some (st', put_block out f))
           0 (read_samples div read_turn_samples) s)"

definition compute_read_buffer_size :: "nat \<Rightarrow> 'd memory_args \<Rightarrow> 'e command_error + nat" where
  "compute_read_buffer_size bpt a =
     (let size = READ_BUFFER_BYTES div 4 - bpt
      in if bunch a \<ge> 0 then Inr (size div bpt * bpt)
         else if format a \<noteq> FORMAT_INT16
         then (let sample_size = bpt * unat (decimation a); size = size div sample_size * sample_size
               in if size > 0 then Inr size else Inl DecimationTooLarge)
         else Inr size)"

text \<open>
  \<open>freq\<close> is the result of \<^verbatim>\<open>tune_to_freq\<close>.  The sample count is the product of three 32-bit numbers
  in 32-bit arithmetic.  The tune state is used by the complex format alone.
\<close>

definition send_memory_block ::
  "(u64 \<Rightarrow> nat \<Rightarrow> u32 list) \<Rightarrow> ('f, 'c) float_ops \<Rightarrow> u32 \<Rightarrow> 'd memory_args \<Rightarrow> channels_context \<Rightarrow> u64 \<Rightarrow>
   nat \<Rightarrow> nat \<Rightarrow> 'c tune_decimate_state \<times> buffered_file \<Rightarrow> ('c tune_decimate_state \<times> buffered_file) option" where
  "send_memory_block read_dram fo bpt a c offset start read_samples s =
     (let buf = read_dram (offset + of_nat (start * 4)) (read_samples + unat bpt);
          keep = map_option (\<lambda>f. (fst s, f))
      in if bunch a \<ge> 0
         then keep (send_bunch_memory_data (unat bpt) c (nat (bunch a)) buf read_samples (snd s))
         else (case format a of
                 FORMAT_INT16 \<Rightarrow> keep (send_int16_memory_data c buf read_samples (snd s))
               | FORMAT_FLOAT32 \<Rightarrow>
                   keep (send_float32_memory_data fo (unat bpt) c (decimation a) buf read_samples (snd s))
               | FORMAT_COMPLEX64 \<Rightarrow> send_complex64_memory_data fo (unat bpt) c buf read_samples s))"

definition send_memory_data ::
  "(u64 \<Rightarrow> nat \<Rightarrow> u32 list) \<Rightarrow> ('f, 'c) float_ops \<Rightarrow> u64 \<Rightarrow> u32 \<Rightarrow> nat \<Rightarrow> 'd memory_args \<Rightarrow>
   channels_context \<Rightarrow> memory_state \<Rightarrow> buffered_file \<Rightarrow> buffered_file option" where
  "send_memory_data read_dram fo freq bpt read_buffer_size a c m f =
     (let samples = unat (margs_count a * bpt * decimation a);
          offset = compute_dram_offset bpt (margs_offset a) m;
          st = prepare_tune_decimate fo bpt freq (decimation a) c
      in map_option snd
           (send_chunks read_buffer_size (send_memory_block read_dram fo bpt a c offset) 0 samples (st, f)))"

definition le32 :: "u32 \<Rightarrow> string" where
  "le32 w = le16 (ucast w) @ le16 (ucast (drop_bit 16 w))"

fun format_code :: "memory_data_format \<Rightarrow> u16" where
  "format_code FORMAT_INT16 = 0" | "format_code FORMAT_FLOAT32 = 1" | "format_code FORMAT_COMPLEX64 = 2"

definition memory_frame :: "u32 \<Rightarrow> 'd memory_args \<Rightarrow> string" where
  "memory_frame bpt a =
     le32 (if bunch a \<ge> 0 then margs_count a else margs_count a * bpt) @
     le16 (if channel a \<ge> 0 then 1 else 2) @ le16 (format_code (format a))"

definition write_memory_info :: "u32 \<Rightarrow> 'd memory_args \<Rightarrow> buffered_file \<Rightarrow> buffered_file" where
  "write_memory_info bpt a f = put_block (memory_frame bpt a) f"

section \<open>What arrives does not depend on the blocks\<close>

lemma upt_split: "i \<le> j \<Longrightarrow> j \<le> k \<Longrightarrow> [i..<k] = [i..<j] @ [j..<k]"
  by (metis le_iff_add upt_add_eq_append)

text \<open>
  A sender of consecutive items, each made of \<open>unit\<close> input samples, up to a limit: handling \<open>w\<close>
  samples from \<open>start\<close> on appends the items they make to the output.
\<close>

locale bounded_sender =
  fixes body :: "nat \<Rightarrow> nat \<Rightarrow> 's \<Rightarrow> 's option"
    and content :: "'s \<Rightarrow> 'a list"
    and good :: "nat \<Rightarrow> 's \<Rightarrow> bool"
    and item :: "nat \<Rightarrow> 'a list"
    and unit :: nat
    and limit :: nat
  assumes bounded_body_ok: "good start s \<Longrightarrow> unit dvd start \<Longrightarrow> unit dvd w \<Longrightarrow> start + w \<le> limit \<Longrightarrow>
      \<exists>s'. body start w s = Some s' \<and> good (start + w) s' \<and>
        content s' = content s @ concat (map item [start div unit..<(start + w) div unit])"
begin

lemma items_add:
  "concat (map item [i div unit..<(i + m + n) div unit]) =
   concat (map item [i div unit..<(i + m) div unit]) @ concat (map item [(i + m) div unit..<(i + m + n) div unit])"
proof -
  have "i div unit \<le> (i + m) div unit" "(i + m) div unit \<le> (i + m + n) div unit" by (simp_all add: div_le_mono)
  from upt_split[OF this] show ?thesis by simp
qed

lemma bounded_chunks_ok:
  "good start s \<Longrightarrow> 0 < m \<Longrightarrow> unit dvd m \<Longrightarrow> unit dvd start \<Longrightarrow> unit dvd n \<Longrightarrow> start + n \<le> limit \<Longrightarrow>
   \<exists>s'. send_chunks m body start n s = Some s' \<and> good (start + n) s' \<and>
     content s' = content s @ concat (map item [start div unit..<(start + n) div unit])"
proof (induction n arbitrary: start s rule: less_induct)
  case (less n)
  show ?case
  proof (cases "n = 0")
    case True
    then show ?thesis using less.prems(1) by (subst send_chunks.simps) simp
  next
    case False
    let ?w = "min n m"
    have w: "unit dvd ?w" "0 < ?w" "?w \<le> n" "start + ?w \<le> limit" using less.prems False by (auto simp: min_def)
    obtain s1 where s1: "body start ?w s = Some s1" "good (start + ?w) s1"
      "content s1 = content s @ concat (map item [start div unit..<(start + ?w) div unit])"
      using bounded_body_ok[OF less.prems(1,4) w(1,4)] by blast
    have "n - ?w < n" "unit dvd n - ?w" "unit dvd start + ?w" "start + ?w + (n - ?w) \<le> limit"
      using w less.prems by (auto simp: dvd_diff_nat)
    from less.IH[OF this(1) s1(2) less.prems(2,3) this(3,2,4)] obtain s' where
      "send_chunks m body (start + ?w) (n - ?w) s1 = Some s'" "good (start + ?w + (n - ?w)) s'"
      "content s' = content s1 @ concat (map item [(start + ?w) div unit..<(start + ?w + (n - ?w)) div unit])" by blast
    moreover have "start + ?w + (n - ?w) = start + n" using w(3) by simp
    ultimately show ?thesis using False s1 items_add[of start ?w "n - ?w"]
      by (subst send_chunks.simps) (simp add: Let_def)
  qed
qed

end

text \<open>A sender without a limit.\<close>

locale chunk_sender =
  fixes body :: "nat \<Rightarrow> nat \<Rightarrow> 's \<Rightarrow> 's option"
    and content :: "'s \<Rightarrow> 'a list"
    and good :: "nat \<Rightarrow> 's \<Rightarrow> bool"
    and item :: "nat \<Rightarrow> 'a list"
    and unit :: nat
  assumes body_ok: "good start s \<Longrightarrow> unit dvd start \<Longrightarrow> unit dvd w \<Longrightarrow>
      \<exists>s'. body start w s = Some s' \<and> good (start + w) s' \<and>
        content s' = content s @ concat (map item [start div unit..<(start + w) div unit])"

sublocale chunk_sender \<subseteq> unbounded: bounded_sender body content good item unit limit for limit
  by unfold_locales (rule body_ok)

context chunk_sender
begin

lemmas chunks_ok = unbounded.bounded_chunks_ok[OF _ _ _ _ _ order_refl]

lemma chunks_items:
  assumes "unit = 1" "good 0 s" "0 < m" "\<And>t. t < n \<Longrightarrow> item t = g (start + t)"
  shows "\<exists>s'. send_chunks m body 0 n s = Some s' \<and> good n s' \<and>
     content s' = content s @ concat (map g [start..<start + n])"
proof -
  have "map item [0..<n] = map g [start..<start + n]"
    using assms(4) by (intro nth_equalityI) simp_all
  then show ?thesis using chunks_ok[of 0 s m n] assms(1-3) by simp
qed

end

lemma bytes16_append: "bytes16 (xs @ ys) = bytes16 xs @ bytes16 ys"
  by (simp add: bytes16_def)

lemma bytes16_concat: "bytes16 (concat (map g xs)) = concat (map (\<lambda>x. bytes16 (g x)) xs)"
  by (induction xs) (simp_all add: bytes16_append, simp add: bytes16_def)

lemma map_shift: "map (\<lambda>t. g (start + t)) [0..<w] = map g [start..<start + w]"
  by (rule nth_equalityI) simp_all

lemma put_block_sends:
  "output_ok f \<Longrightarrow> \<exists>f'. Some (put_block xs f) = Some f' \<and> output_ok f' \<and> written f' = written f @ xs"
  by (simp add: block_sink.put_content block_sink.put_good)

interpretation int16_sender: chunk_sender
  "\<lambda>start w f. Some (put_block (bytes16 (extract_channels buf start w c)) f)" written "\<lambda>_. output_ok"
  "\<lambda>i. bytes16 (extract_channels_one_bunch buf i c)" 1 for buf c
  by unfold_locales (simp add: block_sink.put_content block_sink.put_good extract_channels_def bytes16_concat)

interpretation bunch_sender: chunk_sender
  "\<lambda>start w f. Some (put_block (bytes16 (compute_bunch_turn_data bpt buf (start * bpt + b) w c)) f)"
  written "\<lambda>_. output_ok" "\<lambda>t. bytes16 (extract_channels_one_bunch buf (t * bpt + b) c)" 1 for bpt buf b c
proof unfold_locales
  fix start w f assume "output_ok f"
  moreover have "compute_bunch_turn_data bpt buf (start * bpt + b) w c =
      concat (map (\<lambda>t. extract_channels_one_bunch buf (t * bpt + b) c) [start..<start + w])"
    unfolding compute_bunch_turn_data_def
    by (subst map_shift[symmetric]) (simp add: algebra_simps)
  ultimately show "\<exists>f'. Some (put_block (bytes16 (compute_bunch_turn_data bpt buf (start * bpt + b) w c)) f) = Some f' \<and>
      output_ok f' \<and> written f' = written f @
        concat (map (\<lambda>t. bytes16 (extract_channels_one_bunch buf (t * bpt + b) c)) [start div 1..<(start + w) div 1])"
    by (simp add: block_sink.put_content block_sink.put_good bytes16_concat)
qed

interpretation float32_sender: chunk_sender
  "\<lambda>start w f. Some (put_block (concat (map (\<lambda>t. concat (map (fbytes fo)
     (compute_float32_turn_data fo bpt buf ((start + t) * rts) c dec))) [0..<w])) f)"
  written "\<lambda>_. output_ok" "\<lambda>t. concat (map (fbytes fo) (compute_float32_turn_data fo bpt buf (t * rts) c dec))" 1
  for fo bpt buf c dec rts
proof unfold_locales
  fix start w f assume "output_ok f"
  then show "\<exists>f'. Some (put_block (concat (map (\<lambda>t. concat (map (fbytes fo)
        (compute_float32_turn_data fo bpt buf ((start + t) * rts) c dec))) [0..<w])) f) = Some f' \<and>
      output_ok f' \<and> written f' = written f @
        concat (map (\<lambda>t. concat (map (fbytes fo) (compute_float32_turn_data fo bpt buf (t * rts) c dec)))
          [start div 1..<(start + w) div 1])"
    using map_shift[of "\<lambda>t. concat (map (fbytes fo) (compute_float32_turn_data fo bpt buf (t * rts) c dec))"]
    by (simp add: block_sink.put_content block_sink.put_good)
qed

text \<open>The tune state after \<open>n\<close> averaged turns.\<close>

definition at_turn :: "'c tune_decimate_state \<Rightarrow> nat \<Rightarrow> 'c tune_decimate_state" where
  "at_turn st n = st\<lparr>tds_angle := of_nat n * (of_nat (unat (tds_decimation st)) * turn_advance st)\<rparr>"

lemma fold_angle:
  "fold (\<lambda>d (totals, angle). (F angle d totals, angle + adv)) [0..<n] (totals, angle) =
     (fold (\<lambda>d totals. F (angle + of_nat d * adv) d totals) [0..<n] totals, angle + of_nat n * adv)"
  for angle :: "'a::len word"
  by (induction n) (simp_all add: algebra_simps)

lemma complex_turn_step:
  "snd (compute_complex64_turn_data fo bpt buf start c (at_turn st n)) = at_turn st (Suc n)"
  unfolding compute_complex64_turn_data_def at_turn_def Let_def fold_angle
  by (simp add: algebra_simps)

lemma complex_turns_fold:
  "fold (\<lambda>t (out, st).
      let (cs, st') = compute_complex64_turn_data fo bpt buf ((start + t) * rts) c st
      in (out @ concat (map (cbytes fo) cs), st')) [0..<w] ([], at_turn st (n0 + start)) =
   (concat (map (\<lambda>t. concat (map (cbytes fo)
       (fst (compute_complex64_turn_data fo bpt buf (t * rts) c (at_turn st (n0 + t)))))) [start..<start + w]),
    at_turn st (n0 + (start + w)))"
proof (induction w)
  case (Suc w)
  then show ?case
    using complex_turn_step[of fo bpt buf "(start + w) * rts" c st "n0 + (start + w)"]
    by (simp add: case_prod_unfold Let_def add.assoc)
qed simp

interpretation complex64_sender: chunk_sender
  "\<lambda>start w (st, f).
     let (out, st') = fold (\<lambda>t (out, st).
           let (cs, st') = compute_complex64_turn_data fo bpt buf ((start + t) * rts) c st
           in (out @ concat (map (cbytes fo) cs), st')) [0..<w] ([], st)
     in Some (st', put_block out f)"
  "\<lambda>s. written (snd s)" "\<lambda>t s. fst s = at_turn st (n0 + t) \<and> output_ok (snd s)"
  "\<lambda>t. concat (map (cbytes fo) (fst (compute_complex64_turn_data fo bpt buf (t * rts) c (at_turn st (n0 + t)))))" 1
  for fo bpt buf c rts st n0
proof (unfold_locales, goal_cases)
  case (1 start s w)
  then obtain f where "s = (at_turn st (n0 + start), f)" "output_ok f" by (cases s) auto
  then show ?case
    by (simp only: complex_turns_fold[unfolded Let_def] prod.case Let_def div_by_1 fst_conv snd_conv)
      (simp add: block_sink.put_content block_sink.put_good)
qed

definition channels_ok :: "channels_context \<Rightarrow> nat \<Rightarrow> bool" where
  "channels_ok c bpt \<longleftrightarrow> chan_count c = of_bool (chan0 c) + of_bool (chan1 c) \<and>
     (chan0 c \<or> chan1 c) \<and> d0 c \<le> bpt \<and> d1 c \<le> bpt"

lemma chan_count_12: "channels_ok c bpt \<Longrightarrow> chan_count c = 1 \<or> chan_count c = 2"
  by (auto simp: channels_ok_def of_bool_def)

lemma max_items_pos: "channels_ok c bpt \<Longrightarrow> 0 < WRITE_BUFFER_BYTES div 2 div chan_count c"
  using chan_count_12[of c bpt] by (auto simp: WRITE_BUFFER_BYTES_def)

lemma turns_per_buffer_pos:
  "channels_ok c bpt \<Longrightarrow> 0 < bpt \<Longrightarrow> bpt \<le> 4096 \<Longrightarrow> 0 < WRITE_BUFFER_BYTES div 4 div (bpt * chan_count c)"
  "channels_ok c bpt \<Longrightarrow> 0 < bpt \<Longrightarrow> bpt \<le> 4096 \<Longrightarrow> 0 < WRITE_BUFFER_BYTES div 8 div (bpt * chan_count c)"
  using chan_count_12[of c bpt] by (auto simp: WRITE_BUFFER_BYTES_def div_greater_zero_iff)

section \<open>The data of a memory command\<close>

text \<open>The DRAM as the server sees it: the samples at consecutive addresses.\<close>

definition dram_law :: "(u64 \<Rightarrow> nat \<Rightarrow> u32 list) \<Rightarrow> (u64 \<Rightarrow> u32) \<Rightarrow> bool" where
  "dram_law read_dram mem \<longleftrightarrow>
     (\<forall>off n. read_dram off n = map (\<lambda>i. mem (off + of_nat (i * 4))) [0..<n])"

text \<open>The channel values of one bunch, with the delay of each channel, and those of a turn.\<close>

definition sample_at :: "(u64 \<Rightarrow> u32) \<Rightarrow> u64 \<Rightarrow> channels_context \<Rightarrow> nat \<Rightarrow> u16 list" where
  "sample_at mem off c i =
     (if chan0 c then [ucast (mem (off + of_nat ((i + d0 c) * 4)))] else []) @
     (if chan1 c then [ucast (drop_bit 16 (mem (off + of_nat ((i + d1 c) * 4))))] else [])"

definition turn_values :: "(u64 \<Rightarrow> u32) \<Rightarrow> u64 \<Rightarrow> channels_context \<Rightarrow> nat \<Rightarrow> nat \<Rightarrow> u16 list" where
  "turn_values mem off c bpt t = concat (map (sample_at mem off c) [t * bpt..<t * bpt + bpt])"

lemma one_bunch_dram:
  assumes "dram_law read_dram mem" "channels_ok c bpt" "i < w"
  shows "extract_channels_one_bunch (read_dram (off + of_nat (start * 4)) (w + bpt)) i c =
    sample_at mem off c (start + i)"
  using assms
  by (simp add: extract_channels_one_bunch_def sample_at_def dram_law_def channels_ok_def algebra_simps)

lemma extract_dram:
  assumes "dram_law read_dram mem" "channels_ok c bpt" "j + n \<le> w"
  shows "extract_channels (read_dram (off + of_nat (start * 4)) (w + bpt)) j n c =
    concat (map (sample_at mem off c) [start + j..<start + j + n])"
proof -
  have "extract_channels (read_dram (off + of_nat (start * 4)) (w + bpt)) j n c =
      concat (map (\<lambda>i. sample_at mem off c (start + i)) [j..<j + n])"
    unfolding extract_channels_def
    using one_bunch_dram[OF assms(1,2)] assms(3) by (intro arg_cong[where f = concat] map_cong) simp_all
  also have "map (\<lambda>i. sample_at mem off c (start + i)) [j..<j + n] =
      map (sample_at mem off c) [start + j..<start + j + n]"
    by (rule nth_equalityI) (simp_all add: add.assoc)
  finally show ?thesis .
qed

text \<open>The averages of the format without a frequency shift, and of the one with it.\<close>

definition mean_turn ::
  "('f, 'c) float_ops \<Rightarrow> (u64 \<Rightarrow> u32) \<Rightarrow> u64 \<Rightarrow> channels_context \<Rightarrow> nat \<Rightarrow> u32 \<Rightarrow> nat \<Rightarrow> 'f list" where
  "mean_turn fo mem off c bpt dec k =
     map (\<lambda>t. fdiv fo t dec)
       (fold (\<lambda>d totals. map2 (fadd16 fo) totals (turn_values mem off c bpt (k * unat dec + d)))
         [0..<unat dec] (replicate (bpt * chan_count c) (fzero fo)))"

definition shifted_turn ::
  "('f, 'c) float_ops \<Rightarrow> (u64 \<Rightarrow> u32) \<Rightarrow> u64 \<Rightarrow> channels_context \<Rightarrow> nat \<Rightarrow> 'c tune_decimate_state \<Rightarrow> nat \<Rightarrow> 'c list" where
  "shifted_turn fo mem off c bpt st k =
     (let dec = unat (tds_decimation st)
      in map2 (cmul fo)
           (fold (\<lambda>d totals. map2 (\<lambda>t. cadd16 fo t (angle_to_rotate fo (of_nat (k * dec + d) * turn_advance st)))
                totals (turn_values mem off c bpt (k * dec + d)))
             [0..<dec] (replicate (bpt * chan_count c) (czero fo)))
           (turn_fixup st))"

lemma turn_in_block:
  assumes "dram_law read_dram mem" "channels_ok c bpt" "t < w div (bpt * dec)" "d < dec"
  shows "extract_channels (read_dram (off + of_nat (s * (bpt * dec) * 4)) (w + bpt)) (t * (bpt * dec) + d * bpt) bpt c =
    turn_values mem off c bpt ((s + t) * dec + d)"
proof -
  have "d * bpt + bpt \<le> bpt * dec"
    using assms(4) mult_le_mono1[of "Suc d" dec bpt] by (simp add: ac_simps)
  moreover have "t * (bpt * dec) + bpt * dec \<le> w"
  proof -
    have "Suc t * (bpt * dec) \<le> w div (bpt * dec) * (bpt * dec)" using assms(3) by (intro mult_le_mono1) simp
    also have "\<dots> \<le> w" by (rule div_times_less_eq_dividend)
    finally show ?thesis by simp
  qed
  ultimately have "t * (bpt * dec) + d * bpt + bpt \<le> w" by linarith
  moreover have "s * (bpt * dec) + (t * (bpt * dec) + d * bpt) = ((s + t) * dec + d) * bpt"
    by (simp add: algebra_simps)
  ultimately show ?thesis
    using extract_dram[OF assms(1,2), of "t * (bpt * dec) + d * bpt" bpt w off "s * (bpt * dec)"]
    unfolding turn_values_def by (simp add: mult.assoc)
qed

lemma float32_turn_dram:
  assumes "dram_law read_dram mem" "channels_ok c bpt" "t < w div (bpt * unat dec)"
  shows "compute_float32_turn_data fo bpt
      (read_dram (off + of_nat (s * (bpt * unat dec) * 4)) (w + bpt)) (t * (bpt * unat dec)) c dec =
    mean_turn fo mem off c bpt dec (s + t)"
proof -
  have "fold (\<lambda>d totals. map2 (fadd16 fo) totals (extract_channels
        (read_dram (off + of_nat (s * (bpt * unat dec) * 4)) (w + bpt)) (t * (bpt * unat dec) + d * bpt) bpt c))
      [0..<unat dec] z =
    fold (\<lambda>d totals. map2 (fadd16 fo) totals (turn_values mem off c bpt ((s + t) * unat dec + d))) [0..<unat dec] z" for z
    using turn_in_block[OF assms] by (intro fold_cong) simp_all
  then show ?thesis by (simp only: compute_float32_turn_data_def mean_turn_def Let_def)
qed

lemma complex64_turn_dram:
  assumes "dram_law read_dram mem" "channels_ok c bpt" "t < w div (bpt * unat (tds_decimation st))"
  shows "fst (compute_complex64_turn_data fo bpt
      (read_dram (off + of_nat (s * (bpt * unat (tds_decimation st)) * 4)) (w + bpt))
      (t * (bpt * unat (tds_decimation st))) c (at_turn st (s + t))) =
    shifted_turn fo mem off c bpt st (s + t)"
proof -
  let ?dec = "unat (tds_decimation st)"
  let ?buf = "read_dram (off + of_nat (s * (bpt * ?dec) * 4)) (w + bpt)"
  have angle: "of_nat k * (of_nat n * a) + of_nat d * a = of_nat (k * n + d) * a" for k n d :: nat and a :: u64
    by (simp add: algebra_simps)
  have "fold (\<lambda>d totals. map2 (\<lambda>u. cadd16 fo u (angle_to_rotate fo
          (of_nat (s + t) * (of_nat ?dec * turn_advance st) + of_nat d * turn_advance st))) totals
          (extract_channels ?buf (t * (bpt * ?dec) + d * bpt) bpt c)) [0..<?dec] z =
    fold (\<lambda>d totals. map2 (\<lambda>u. cadd16 fo u (angle_to_rotate fo (of_nat ((s + t) * ?dec + d) * turn_advance st)))
          totals (turn_values mem off c bpt ((s + t) * ?dec + d))) [0..<?dec] z" for z
    using turn_in_block[OF assms] angle by (intro fold_cong) (simp_all del: of_nat_unat of_nat_add of_nat_mult)
  then show ?thesis
    unfolding compute_complex64_turn_data_def shifted_turn_def at_turn_def Let_def fold_angle
    by (simp add: at_turn_def)
qed


text \<open>One item of the reply, in terms of the memory alone.\<close>

definition memory_item ::
  "('f, 'c) float_ops \<Rightarrow> (u64 \<Rightarrow> u32) \<Rightarrow> u64 \<Rightarrow> nat \<Rightarrow> 'd memory_args \<Rightarrow> channels_context \<Rightarrow>
   'c tune_decimate_state \<Rightarrow> nat \<Rightarrow> string" where
  "memory_item fo mem off bpt a c st k =
     (if bunch a \<ge> 0 then bytes16 (sample_at mem off c (k * bpt + nat (bunch a)))
      else case format a of
        FORMAT_INT16 \<Rightarrow> bytes16 (sample_at mem off c k)
      | FORMAT_FLOAT32 \<Rightarrow> concat (map (fbytes fo) (mean_turn fo mem off c bpt (decimation a) k))
      | FORMAT_COMPLEX64 \<Rightarrow> concat (map (cbytes fo) (shifted_turn fo mem off c bpt st k)))"

definition memory_unit :: "nat \<Rightarrow> 'd memory_args \<Rightarrow> nat" where
  "memory_unit bpt a =
     (if bunch a \<ge> 0 then bpt else if format a = FORMAT_INT16 then 1 else bpt * unat (decimation a))"

definition args_ok :: "nat \<Rightarrow> 'd memory_args \<Rightarrow> channels_context \<Rightarrow> bool" where
  "args_ok bpt a c \<longleftrightarrow> channels_ok c bpt \<and> 0 < bpt \<and> bpt \<le> 4096 \<and> bunch a < int bpt \<and> 0 < decimation a \<and>
     (bunch a \<ge> 0 \<longrightarrow> decimation a = 1)"

lemma bunch_block_ok:
  assumes "dram_law read_dram mem" "args_ok bpt a c" "bunch a \<ge> 0" "bpt dvd start" "bpt dvd w" "output_ok f"
  shows "\<exists>f'. send_bunch_memory_data bpt c (nat (bunch a)) (read_dram (off + of_nat (start * 4)) (w + bpt)) w f = Some f' \<and>
    output_ok f' \<and> written f' = written f @ concat (map (memory_item fo mem off bpt a c st) [start div bpt..<(start + w) div bpt])"
proof -
  let ?buf = "read_dram (off + of_nat (start * 4)) (w + bpt)"
  have c: "channels_ok c bpt" "0 < bpt" using assms(2) by (simp_all add: args_ok_def)
  obtain s k where sk: "start = s * bpt" "w = k * bpt" using assms(4,5) by (metis dvd_div_mult_self)
  have "bytes16 (extract_channels_one_bunch ?buf (t * bpt + nat (bunch a)) c) =
      memory_item fo mem off bpt a c st (s + t)" if "t < k" for t
  proof -
    have "nat (bunch a) < bpt" using assms(2,3) by (simp add: args_ok_def nat_less_iff)
    then have "t * bpt + nat (bunch a) < w"
      using that mult_le_mono1[of "Suc t" k bpt] by (simp add: sk)
    moreover have "start + (t * bpt + nat (bunch a)) = (s + t) * bpt + nat (bunch a)"
      by (simp add: sk distrib_right)
    ultimately show ?thesis
      using one_bunch_dram[OF assms(1) c(1)] assms(3) by (simp only: memory_item_def if_True)
  qed
  from bunch_sender.chunks_items[OF refl assms(6) max_items_pos[OF c(1)] this]
  show ?thesis using c(2) by (simp add: send_bunch_memory_data_def sk flip: distrib_right)
qed

lemma int16_block_ok:
  assumes "dram_law read_dram mem" "args_ok bpt a c" "bunch a < 0" "format a = FORMAT_INT16" "output_ok f"
  shows "\<exists>f'. send_int16_memory_data c (read_dram (off + of_nat (start * 4)) (w + bpt)) w f = Some f' \<and>
    output_ok f' \<and> written f' = written f @ concat (map (memory_item fo mem off bpt a c st) [start..<start + w])"
  unfolding send_int16_memory_data_def
proof (rule int16_sender.chunks_items[OF refl assms(5) max_items_pos])
  show c: "channels_ok c bpt" using assms(2) by (simp add: args_ok_def)
  show "bytes16 (extract_channels_one_bunch (read_dram (off + of_nat (start * 4)) (w + bpt)) t c) =
      memory_item fo mem off bpt a c st (start + t)" if "t < w" for t
    using one_bunch_dram[OF assms(1) c that] assms(3,4) by (simp add: memory_item_def)
qed

lemma float32_block_ok:
  assumes "dram_law read_dram mem" "args_ok bpt a c" "bunch a < 0" "format a = FORMAT_FLOAT32" "output_ok f"
    and "bpt * unat (decimation a) dvd start" "bpt * unat (decimation a) dvd w"
  shows "\<exists>f'. send_float32_memory_data fo bpt c (decimation a) (read_dram (off + of_nat (start * 4)) (w + bpt)) w f = Some f' \<and>
    output_ok f' \<and> written f' = written f @ concat (map (memory_item fo mem off bpt a c st)
      [start div (bpt * unat (decimation a))..<(start + w) div (bpt * unat (decimation a))])"
proof -
  define u where "u = bpt * unat (decimation a)"
  have c: "channels_ok c bpt" "0 < bpt" "bpt \<le> 4096" "0 < u"
    using assms(2) by (simp_all add: args_ok_def unat_gt_0 word_gt_0 u_def)
  obtain s k where sk: "start = s * u" "w = k * u" using assms(6,7) unfolding u_def by (metis dvd_div_mult_self)
  have "concat (map (fbytes fo) (compute_float32_turn_data fo bpt (read_dram (off + of_nat (s * u * 4)) (k * u + bpt))
      (t * u) c (decimation a))) = memory_item fo mem off bpt a c st (s + t)" if "t < k" for t
    using float32_turn_dram[OF assms(1) c(1), of t "k * u" "decimation a" fo off s, folded u_def] that assms(3,4) c(4)
    by (simp add: memory_item_def)
  from float32_sender.chunks_items[OF refl assms(5) turns_per_buffer_pos(1)[OF c(1-3)] this]
  show ?thesis using c(4)
    by (simp add: send_float32_memory_data_def Let_def sk flip: u_def distrib_right)
qed

lemma complex64_block_ok:
  assumes "dram_law read_dram mem" "args_ok bpt a c" "bunch a < 0" "format a = FORMAT_COMPLEX64" "output_ok f"
    and "bpt * unat (decimation a) dvd start" "bpt * unat (decimation a) dvd w"
    and "tds_decimation st = decimation a"
  shows "\<exists>f'. send_complex64_memory_data fo bpt c (read_dram (off + of_nat (start * 4)) (w + bpt)) w
      (at_turn st (start div (bpt * unat (decimation a))), f) =
      Some (at_turn st ((start + w) div (bpt * unat (decimation a))), f') \<and>
    output_ok f' \<and> written f' = written f @ concat (map (memory_item fo mem off bpt a c st)
      [start div (bpt * unat (decimation a))..<(start + w) div (bpt * unat (decimation a))])"
proof -
  define u where "u = bpt * unat (decimation a)"
  have c: "channels_ok c bpt" "0 < bpt" "bpt \<le> 4096" "0 < u"
    using assms(2) by (simp_all add: args_ok_def unat_gt_0 word_gt_0 u_def)
  obtain s k where sk: "start = s * u" "w = k * u" using assms(6,7) unfolding u_def by (metis dvd_div_mult_self)
  have i: "concat (map (cbytes fo) (fst (compute_complex64_turn_data fo bpt
      (read_dram (off + of_nat (s * u * 4)) (k * u + bpt)) (t * u) c (at_turn st (s + t))))) =
      memory_item fo mem off bpt a c st (s + t)" if "t < k" for t
    using complex64_turn_dram[OF assms(1) c(1), of t "k * u" st fo off s, unfolded assms(8), folded u_def]
      that assms(3,4) c(4) by (simp add: memory_item_def)
  have dec: "tds_decimation (at_turn st n) = decimation a" for n using assms(8) by (simp add: at_turn_def)
  have "fst (at_turn st s, f) = at_turn st (s + 0) \<and> output_ok (snd (at_turn st s, f))" using assms(5) by simp
  from complex64_sender.chunks_items[OF refl this turns_per_buffer_pos(2)[OF c(1-3)] i]
  show ?thesis using c(4)
    by (auto simp: send_complex64_memory_data_def Let_def sk dec simp flip: u_def distrib_right)
qed

lemma memory_sender:
  assumes "dram_law read_dram mem" "args_ok (unat bpt) a c" "tds_decimation st = decimation a"
  shows "chunk_sender (send_memory_block read_dram fo bpt a c off) (\<lambda>s. written (snd s))
    (\<lambda>start s. output_ok (snd s) \<and> (bunch a < 0 \<and> format a = FORMAT_COMPLEX64 \<longrightarrow>
        fst s = at_turn st (start div memory_unit (unat bpt) a)))
    (memory_item fo mem off (unat bpt) a c st) (memory_unit (unat bpt) a)"
proof (unfold_locales, elim conjE)
  fix start w :: nat and s :: "'b tune_decimate_state \<times> buffered_file"
  let ?u = "memory_unit (unat bpt) a"
  assume g: "output_ok (snd s)" "bunch a < 0 \<and> format a = FORMAT_COMPLEX64 \<longrightarrow> fst s = at_turn st (start div ?u)"
    and d: "?u dvd start" "?u dvd w"
  consider (bunch) "bunch a \<ge> 0" | (int16) "bunch a < 0" "format a = FORMAT_INT16"
    | (float) "bunch a < 0" "format a = FORMAT_FLOAT32" | (complex) "bunch a < 0" "format a = FORMAT_COMPLEX64"
    by (cases "format a") force+
  then show "\<exists>s'. send_memory_block read_dram fo bpt a c off start w s = Some s' \<and>
      (output_ok (snd s') \<and> (bunch a < 0 \<and> format a = FORMAT_COMPLEX64 \<longrightarrow> fst s' = at_turn st ((start + w) div ?u))) \<and>
      written (snd s') = written (snd s) @
        concat (map (memory_item fo mem off (unat bpt) a c st) [start div ?u..<(start + w) div ?u])"
  proof cases
    case bunch
    then show ?thesis
      using bunch_block_ok[OF assms(1,2) bunch _ _ g(1), of start w off fo st] d
      by (auto simp: send_memory_block_def Let_def memory_unit_def)
  next
    case int16
    then show ?thesis
      using int16_block_ok[OF assms(1,2) int16 g(1), of off start w fo st]
      by (auto simp: send_memory_block_def Let_def memory_unit_def)
  next
    case float
    then show ?thesis
      using float32_block_ok[OF assms(1,2) float g(1), of start w fo off st] d
      by (auto simp: send_memory_block_def Let_def memory_unit_def)
  next
    case complex
    moreover from this g(2) have "s = (at_turn st (start div ?u), snd s)" by (simp add: prod_eq_iff)
    ultimately show ?thesis
      using complex64_block_ok[OF assms(1,2) complex g(1) _ _ assms(3), of start w fo off] d g(2)
      by (auto simp: send_memory_block_def Let_def memory_unit_def)
  qed
qed

text \<open>What the checks of the command establish about the sizes.\<close>

definition MAX_SAMPLES :: nat where "MAX_SAMPLES = 2 ^ 29"

lemma sample_count_exact:
  fixes n bpt dec :: u32
  assumes "unat n * unat bpt * unat dec \<le> MAX_SAMPLES"
  shows "unat (n * bpt * dec) = unat n * unat bpt * unat dec"
proof (cases "dec = 0")
  case False
  then have "0 < unat dec" by (simp add: unat_gt_0)
  then have "unat n * unat bpt \<le> unat n * unat bpt * unat dec" by simp
  from this assms have "unat n * unat bpt \<le> MAX_SAMPLES" by (rule le_trans)
  with assms have "unat n * unat bpt < 2 ^ 32" "unat n * unat bpt * unat dec < 2 ^ 32"
    by (simp_all add: MAX_SAMPLES_def)
  then show ?thesis by (simp add: unat_word_ariths)
qed simp

lemma count_limit:
  assumes "n \<le> MAX_SAMPLES div b div d" shows "n * b * d \<le> MAX_SAMPLES"
proof -
  have "n * b * d \<le> MAX_SAMPLES div (b * d) * (b * d)"
    using assms by (simp add: div_mult2_eq mult.assoc)
  then show ?thesis using div_times_less_eq_dividend[of MAX_SAMPLES "b * d"] by linarith
qed

lemma read_buffer_ok:
  assumes "compute_read_buffer_size bpt a = Inr sz" "0 < bpt" "bpt \<le> 4096"
  shows "0 < sz \<and> memory_unit bpt a dvd sz"
proof -
  have "0 < (READ_BUFFER_BYTES div 4 - bpt) div bpt"
    using assms(2,3) by (simp add: READ_BUFFER_BYTES_def div_greater_zero_iff)
  with assms show ?thesis
    by (auto simp: compute_read_buffer_size_def memory_unit_def Let_def READ_BUFFER_BYTES_def split: if_splits)
qed

lemma at_turn_0: "at_turn (prepare_tune_decimate fo bpt freq dec c) 0 = prepare_tune_decimate fo bpt freq dec c"
  by (simp add: at_turn_def prepare_tune_decimate_def)

text \<open>The number of items: turns, or samples of both channels for the plain format.\<close>

definition reply_items :: "nat \<Rightarrow> 'd memory_args \<Rightarrow> nat" where
  "reply_items bpt a =
     (if bunch a < 0 \<and> format a = FORMAT_INT16 then unat (margs_count a) * bpt * unat (decimation a)
      else unat (margs_count a))"

lemma send_memory_ok:
  assumes "dram_law read_dram mem" "args_ok (unat bpt) a c" "output_ok f"
    and "compute_read_buffer_size (unat bpt) a = Inr sz"
    and "unat (margs_count a) * unat bpt * unat (decimation a) \<le> MAX_SAMPLES"
  shows "\<exists>f'. send_memory_data read_dram fo freq bpt sz a c m f = Some f' \<and> output_ok f' \<and>
    written f' = written f @ concat (map
      (memory_item fo mem (compute_dram_offset bpt (margs_offset a) m) (unat bpt) a c
        (prepare_tune_decimate fo bpt freq (decimation a) c)) [0..<reply_items (unat bpt) a])"
proof -
  let ?st = "prepare_tune_decimate fo bpt freq (decimation a) c"
  let ?off = "compute_dram_offset bpt (margs_offset a) m"
  let ?u = "memory_unit (unat bpt) a"
  let ?n = "unat (margs_count a) * unat bpt * unat (decimation a)"
  have dec: "tds_decimation ?st = decimation a" by (simp add: prepare_tune_decimate_def)
  have pos: "0 < unat bpt" "0 < unat (decimation a)" and small: "unat bpt \<le> 4096"
    using assms(2) by (simp_all add: args_ok_def unat_gt_0 word_gt_0)
  have u: "?u dvd ?n" "?n div ?u = reply_items (unat bpt) a"
    using pos assms(2) by (auto simp: memory_unit_def reply_items_def args_ok_def mult.assoc)
  show ?thesis
    using chunk_sender.chunks_ok[OF memory_sender[OF assms(1,2) dec, of fo ?off], where start = 0 and s = "(?st, f)" and m = sz
      and n = ?n]
      read_buffer_ok[OF assms(4) pos(1) small] assms(3) u at_turn_0[of fo bpt freq "decimation a" c]
    by (auto simp: send_memory_data_def Let_def sample_count_exact[OF assms(5)])
qed


end
