(* ===== verification/Memory_Command.thy ===== *)
theory Memory_Command
  imports Socket_Command Readout_Properties
begin

text \<open>
  The memory command as a whole (\<^verbatim>\<open>process_memory_command\<close> in \<^verbatim>\<open>epics/src/socket_command.c\<close>):
  parsing and checking, taking the readout lock of the DRAM target, the acknowledgement, the frame
  and the data, and releasing the lock.  While the data is sent the mutex of the trigger targets is
  free: the steps the other threads take meanwhile are part of the environment of the command.
\<close>

section \<open>Locking\<close>

text \<open>
  The environment of a command: the first of the socket options to fail, the time of the request,
  what the connection checks find, the returns of the condition variable, and the steps other
  threads take while the data is sent.
\<close>

record 'e command_env =
  sockopt_error :: "'e option"
  request_time :: timespec
  connection :: "nat \<Rightarrow> 'e option"
  wakeups :: "wakeup list"
  meanwhile :: "tt_op list"

definition wait_for_lock ::
  "trigger_target_id \<Rightarrow> lock_parse \<Rightarrow> 'e command_env \<Rightarrow> tt_world \<Rightarrow>
   ('e command_error option \<times> tt_world) option" where
  "wait_for_lock i args env w =
     (if lock args
      then (case sockopt_error env of
              Some e \<Rightarrow> Some (Some (SocketOptions e), w)
            | None \<Rightarrow> (case lock_trigger_ready i (timeout args) (request_time env) (connection env) (wakeups env) w of
                None \<Rightarrow> None
              | Some (Locked, _, w') \<Rightarrow> Some (None, w')
              | Some (r, _, w') \<Rightarrow> Some (Some (LockError r), w')))
      else Some (None, w))"

definition release_lock :: "trigger_target_id \<Rightarrow> lock_parse \<Rightarrow> tt_world \<Rightarrow> tt_world" where
  "release_lock i args w = (if lock args then unlock_trigger_ready i w else w)"

section \<open>The memory command\<close>

definition ack :: "bool \<Rightarrow> buffered_file \<Rightarrow> buffered_file" where
  "ack raw_mode f = (if raw_mode then f else snd (write_char (char_of (0 :: nat)) f))"

definition check_count :: "u32 \<Rightarrow> 'd memory_args \<Rightarrow> bool" where
  "check_count bpt a \<longleftrightarrow>
     unat (margs_count a) \<le> unat DRAM0_LENGTH div 4 div unat bpt div unat (decimation a)"

text \<open>The reply: acknowledgement, optional frame, data.\<close>

definition send_memory_reply ::
  "(u64 \<Rightarrow> nat \<Rightarrow> u32 list) \<Rightarrow> ('f, 'c) float_ops \<Rightarrow> ('d \<Rightarrow> u64) \<Rightarrow> u32 \<Rightarrow> bool \<Rightarrow> nat \<Rightarrow> 'd memory_args \<Rightarrow>
   memory_state \<Rightarrow> buffered_file \<Rightarrow> buffered_file option" where
  "send_memory_reply read_dram fo tune_to_freq bpt raw_mode read_buffer_size a m f =
     (let f = ack raw_mode f;
          f = (if framed a then write_memory_info bpt a f else f);
          freq = (case tune a of None \<Rightarrow> 0 | Some t \<Rightarrow> tune_to_freq t)
      in send_memory_data read_dram fo freq bpt read_buffer_size a (make_channels_context (channel a) m) m f)"

text \<open>
  \<open>m\<close> is the state of \<^verbatim>\<open>memory.c\<close> once the lock is held.  The outcome is the error, if any, the
  file and the trigger targets; \<open>None\<close> when the command does not return.
\<close>

definition process_memory_command ::
  "(u64 \<Rightarrow> nat \<Rightarrow> u32 list) \<Rightarrow> ('f, 'c) float_ops \<Rightarrow> ('d \<Rightarrow> u64) \<Rightarrow> (string \<Rightarrow> 'd \<times> bool \<times> string) \<Rightarrow> u32 \<Rightarrow>
   'e command_env \<Rightarrow> memory_state \<Rightarrow> bool \<Rightarrow> string \<Rightarrow> buffered_file \<Rightarrow> tt_world \<Rightarrow>
   ('e command_error option \<times> buffered_file \<times> tt_world) option" where
  "process_memory_command read_dram fo tune_to_freq strtod bpt env m raw_mode command f w =
     (case parse_memory_args strtod bpt raw_mode command of
        Inl e \<Rightarrow> Some (Some e, f, w)
      | Inr a \<Rightarrow>
        if \<not> check_count bpt a then Some (Some TooManyTurns, f, w)
        else (case compute_read_buffer_size (unat bpt) a of
          Inl e \<Rightarrow> Some (Some e, f, w)
        | Inr read_buffer_size \<Rightarrow>
          (case wait_for_lock TRIGGER_DRAM (locking a) env w of
             None \<Rightarrow> None
           | Some (Some e, w') \<Rightarrow> Some (Some e, f, w')
           | Some (None, w') \<Rightarrow>
             (case send_memory_reply read_dram fo tune_to_freq bpt raw_mode read_buffer_size a m f of
                None \<Rightarrow> None
              | Some f' \<Rightarrow> Some (None, f', release_lock TRIGGER_DRAM (locking a) (tt_run (meanwhile env) w'))))))"

section \<open>What the parser lets through\<close>

lemma abind_Inr: "abind p g s = (Inr y, r) \<longleftrightarrow> (\<exists>x r'. p s = (Inr x, r') \<and> g x r' = (Inr y, r))"
  by (auto simp: abind_def split: prod.splits sum.splits)

lemma parse_channel_range: "parse_channel s = (Inr c, r) \<Longrightarrow> 0 \<le> c \<and> c < 2"
  by (auto simp: parse_channel_def abind_Inr atest_def aret_def MEM_CHANNEL_COUNT_def split: if_splits)

lemma parse_bunch_range: "parse_bunch bpt s = (Inr b, r) \<Longrightarrow> 0 \<le> b \<and> b < sint bpt"
  by (auto simp: parse_bunch_def abind_Inr atest_def aret_def split: if_splits)

lemma parse_decimation_pos: "parse_decimation s = (Inr d, r) \<Longrightarrow> 0 < d"
  by (auto simp: parse_decimation_def abind_Inr atest_def aret_def split: if_splits)

lemma parsed_args:
  assumes "parse_memory_args strtod bpt raw_mode command = Inr a"
  shows "channel a \<in> {- 1, 0, 1}" "bunch a \<ge> - 1" "bunch a < max 0 (sint bpt)" "0 < decimation a"
    and "bunch a \<ge> 0 \<longrightarrow> decimation a = 1"
proof -
  obtain r where "parse_memory_body strtod bpt command = (Inr a, r)"
    using assms by (auto simp: parse_memory_args_def split: prod.splits sum.splits)
  then show "channel a \<in> {- 1, 0, 1}" "bunch a \<ge> - 1" "bunch a < max 0 (sint bpt)" "0 < decimation a"
    "bunch a \<ge> 0 \<longrightarrow> decimation a = 1"
    by (auto simp: parse_memory_body_def opt_arg_def abind_Inr aret_def split: if_splits prod.splits
        dest!: parse_channel_range parse_bunch_range parse_decimation_pos)
qed

lemma channels_context_ok:
  assumes "unat (channel_delays0 m) \<le> bpt" "unat (channel_delays1 m) \<le> bpt" "ch \<in> {- 1, 0, 1}"
  shows "channels_ok (make_channels_context ch m) bpt"
  using assms by (auto simp: make_channels_context_def get_memory_channel_delays_def channels_ok_def)

lemma checked_count: "check_count bpt a \<Longrightarrow> unat (margs_count a) * unat bpt * unat (decimation a) \<le> MAX_SAMPLES"
  by (rule count_limit) (simp add: check_count_def DRAM0_LENGTH_def MAX_SAMPLES_def)

lemma ack_ok:
  "output_ok f \<Longrightarrow> output_ok (ack raw f) \<and> written (ack raw f) = written f @ (if raw then [] else [char_of (0 :: nat)])"
  by (simp add: ack_def write_char_ok)

lemma parsed_args_ok:
  assumes "parse_memory_args strtod bpt raw_mode command = Inr a" "0 < bpt" "unat bpt \<le> 4096"
    and "unat (channel_delays0 m) \<le> unat bpt" "unat (channel_delays1 m) \<le> unat bpt"
  shows "args_ok (unat bpt) a (make_channels_context (channel a) m)"
proof -
  have "int (unat bpt) \<le> 4096" using assms(3) by linarith
  then have "uint bpt < 2 ^ 31" by simp
  moreover have "- (2 ^ 31) \<le> uint bpt" by (rule order_trans[of _ 0]) simp_all
  ultimately have "sint bpt = int (unat bpt)"
    using signed_take_bit_int_eq_self[of 31 "uint bpt"] by (simp add: sint_uint)
  then show ?thesis
    using parsed_args[OF assms(1)] channels_context_ok[OF assms(4,5)] assms(2,3)
    by (auto simp: args_ok_def unat_gt_0 word_gt_0)
qed

section \<open>The reply\<close>

text \<open>A small instance: two bunches per turn, both channels of a sample hold its address.\<close>

definition sample_dram :: "u64 \<Rightarrow> u32" where "sample_dram a = ucast a * 0x10001"

definition sample_read :: "u64 \<Rightarrow> nat \<Rightarrow> u32 list" where
  "sample_read off n = map (\<lambda>i. sample_dram (off + of_nat (i * 4))) [0..<n]"

definition sample_floats :: "(nat, nat) float_ops" where
  "sample_floats = \<lparr>fzero = 0, fadd16 = (\<lambda>t x. t + unat x), fdiv = (\<lambda>t d. t div unat d), fbytes = (\<lambda>_. []),
     czero = 0, cadd16 = (\<lambda>t r x. t + r * unat x), cdiv = (\<lambda>t d. t div unat d), cmul = (*),
     angle_to_rotate = unat, cbytes = (\<lambda>_. [])\<rparr>"

definition sample_memory :: memory_state where
  "sample_memory = \<lparr>chan_selection0 = ADC0, chan_selection1 = ADC1, trigger_origin = 8, readout_offset = 0,
     dac_delays = (\<lambda>_. 0), adc_delays = (\<lambda>_. 0), channel_delays0 = 1, channel_delays1 = 2,
     memory_wf0 = [], memory_wf1 = [], busy_status = False\<rparr>"

definition sample_env :: "nat command_env" where
  "sample_env = \<lparr>sockopt_error = None, request_time = \<lparr>tv_sec = 0, tv_nsec = 0\<rparr>, connection = (\<lambda>_. None),
     wakeups = [], meanwhile = []\<rparr>"

definition sample_args :: "nat memory_args" where
  "sample_args = \<lparr>margs_count = 2, framed = True, margs_offset = 0, channel = - 1, bunch = 1, decimation = 1,
     tune = None, locking = \<lparr>lock = True, timeout = 0\<rparr>, format = FORMAT_INT16\<rparr>"

lemma sample_numbers: "parse_uint ''2FB1L'' = (Inr 2, ''FB1L'')" "parse_int ''1L'' = (Inr 1, ''L'')"
proof -
  have "scan_number ''2FB1L'' = Some (False, 2, ''FB1L'')" "scan_number ''1L'' = Some (False, 1, ''L'')"
    by code_simp+
  then show "parse_uint ''2FB1L'' = (Inr 2, ''FB1L'')" "parse_int ''1L'' = (Inr 1, ''L'')"
    by (simp_all add: parse_uint_def parse_int_def parse_num_def strtoul_def strtol_def ULONG_MAX_def)
qed

lemma sample_parse:
  "parse_memory_args (\<lambda>s. (0, False, s)) 2 False ''2FB1L'' = (Inr sample_args :: nat command_error + nat memory_args)"
  by (simp add: parse_memory_args_def parse_memory_body_def abind_def lift_def aread_def aret_def atest_def
      opt_arg_def parse_lock_def parse_bunch_def sample_numbers read_char_def parse_eos_def sample_args_def)

lemma memory_command_reply:
  fixes env :: "'e command_env"
  assumes "parse_memory_args strtod bpt raw_mode command = (Inr a :: 'e command_error + 'd memory_args)"
    and "check_count bpt a" "compute_read_buffer_size (unat bpt) a = (Inr sz :: 'e command_error + nat)"
    and "wait_for_lock TRIGGER_DRAM (locking a) env w = Some (None, w')"
    and "dram_law read_dram mem" "output_ok f" "0 < bpt" "unat bpt \<le> 4096"
    and "unat (channel_delays0 m) \<le> unat bpt" "unat (channel_delays1 m) \<le> unat bpt"
  shows "\<exists>f'. process_memory_command read_dram fo tune_to_freq strtod bpt env m raw_mode command f w =
      Some (None, f', release_lock TRIGGER_DRAM (locking a) (tt_run (meanwhile env) w')) \<and>
    output_ok f' \<and>
    written f' = written f @ (if raw_mode then [] else [char_of (0 :: nat)]) @
      (if framed a then memory_frame bpt a else []) @
      concat (map (memory_item fo mem (compute_dram_offset bpt (margs_offset a) m) (unat bpt) a
          (make_channels_context (channel a) m)
          (prepare_tune_decimate fo bpt (case tune a of None \<Rightarrow> 0 | Some t \<Rightarrow> tune_to_freq t) (decimation a)
            (make_channels_context (channel a) m)))
        [0..<reply_items (unat bpt) a])"
proof -
  let ?f1 = "ack raw_mode f"
  let ?f2 = "if framed a then write_memory_info bpt a ?f1 else ?f1"
  have f2: "output_ok ?f2" "written ?f2 = written f @ (if raw_mode then [] else [char_of (0 :: nat)]) @
      (if framed a then memory_frame bpt a else [])"
    using ack_ok[OF assms(6), of raw_mode]
    by (simp_all add: write_memory_info_def block_sink.put_content block_sink.put_good)
  have ok: "args_ok (unat bpt) a (make_channels_context (channel a) m)"
    by (rule parsed_args_ok[OF assms(1,7-10)])
  from send_memory_ok[OF assms(5) ok f2(1) assms(3) checked_count[OF assms(2)], of fo
      "case tune a of None \<Rightarrow> 0 | Some t \<Rightarrow> tune_to_freq t" m] f2(2)
  show ?thesis using assms(1-4)
    by (auto simp: process_memory_command_def send_memory_reply_def Let_def)
qed

text \<open>C13 The reply to a memory command is what it should be, and the command returns: after the
  acknowledgement and the frame come exactly the samples, averages or shifted averages of the
  requested turns, computed from the memory alone, each channel with its own delay.  The sizes of
  the buffers the data is read and sent through leave no trace, and the 32-bit sample count is
  exact for every count that passes the check.\<close>

theorem memory_reply:
  fixes env :: "'e command_env"
  assumes "parse_memory_args strtod bpt raw_mode command = (Inr a :: 'e command_error + 'd memory_args)"
    and "check_count bpt a" "compute_read_buffer_size (unat bpt) a = (Inr sz :: 'e command_error + nat)"
    and "wait_for_lock TRIGGER_DRAM (locking a) env w = Some (None, w')"
    and "dram_law read_dram mem" "output_ok f" "0 < bpt" "unat bpt \<le> 4096"
    and "unat (channel_delays0 m) \<le> unat bpt" "unat (channel_delays1 m) \<le> unat bpt"
  shows "\<exists>f'. process_memory_command read_dram fo tune_to_freq strtod bpt env m raw_mode command f w =
      Some (None, f', release_lock TRIGGER_DRAM (locking a) (tt_run (meanwhile env) w')) \<and>
    output_ok f' \<and>
    written f' = written f @ (if raw_mode then [] else [char_of (0 :: nat)]) @
      (if framed a then memory_frame bpt a else []) @
      concat (map (memory_item fo mem (compute_dram_offset bpt (margs_offset a) m) (unat bpt) a
          (make_channels_context (channel a) m)
          (prepare_tune_decimate fo bpt (case tune a of None \<Rightarrow> 0 | Some t \<Rightarrow> tune_to_freq t) (decimation a)
            (make_channels_context (channel a) m)))
        [0..<reply_items (unat bpt) a])"
  by (rule memory_command_reply) fact+

lemma sample_facts:
  "dram_law sample_read sample_dram" "output_ok (create_buffered_file 8 4 [] [Some 1])"
  "0 < (2 :: u32)" "unat (2 :: u32) \<le> 4096"
  "unat (channel_delays0 sample_memory) \<le> unat (2 :: u32)" "unat (channel_delays1 sample_memory) \<le> unat (2 :: u32)"
  and sample_written: "written (create_buffered_file 8 4 [] [Some 1]) = []"
  and sample_checks: "check_count 2 sample_args"
    "compute_read_buffer_size (unat (2 :: u32)) sample_args = (Inr 262126 :: nat command_error + nat)"
    "lock (locking sample_args)"
  by (simp_all add: dram_law_def sample_read_def output_ok_def create_buffered_file_def no_error_def written_def
      check_count_def sample_args_def DRAM0_LENGTH_def compute_read_buffer_size_def READ_BUFFER_BYTES_def sample_memory_def)

lemma sample_lock:
  "wait_for_lock TRIGGER_DRAM (locking sample_args) (sample_env\<lparr>meanwhile := ops\<rparr>) (start_world sample_config) =
     Some (None, increment_trigger_lock_count TRIGGER_DRAM (start_world sample_config))"
  by (simp add: wait_for_lock_def sample_args_def sample_env_def lock_trigger_ready_def lock_request_def
      check_trigger_ready_def start_world_eval null_target_def)

lemma memory_reply_witness:
  "\<exists>f' w'. process_memory_command sample_read sample_floats of_nat (\<lambda>s. (0, False, s)) 2
      (sample_env\<lparr>meanwhile := []\<rparr>) sample_memory False ''2FB1L'' (create_buffered_file 8 4 [] [Some 1]) (start_world sample_config) = Some (None, f', w') \<and>
    written f' = char_of (0 :: nat) # memory_frame 2 sample_args @ bytes16 [16, 20, 24, 28]"
proof -
  note w = sample_lock[of "[]"]
  note r = memory_reply[OF sample_parse sample_checks(1,2) w sample_facts, of sample_floats of_nat]
  have c: "make_channels_context (channel sample_args) sample_memory =
      \<lparr>d0 = Suc 0, d1 = 2, chan_count = 2, chan0 = True, chan1 = True\<rparr>"
    by (simp add: make_channels_context_def get_memory_channel_delays_def sample_memory_def sample_args_def)
  have o: "compute_dram_offset 2 (margs_offset sample_args) sample_memory = 8"
    by (simp add: compute_dram_offset_def sample_memory_def sample_args_def)
  have i: "memory_item sample_floats sample_dram 8 2 sample_args \<lparr>d0 = Suc 0, d1 = 2, chan_count = 2, chan0 = True, chan1 = True\<rparr> st k =
      bytes16 [ucast (sample_dram (16 + of_nat (k * 8))), ucast (drop_bit 16 (sample_dram (20 + of_nat (k * 8))))]" for st k
    by (simp add: memory_item_def sample_at_def sample_args_def algebra_simps)
  have red: "(1048592 :: u16) = 16" "(1572888 :: u16) = 24" by simp_all
  have "reply_items 2 sample_args = 2" by (simp add: reply_items_def sample_args_def)
  then have item: "concat (map (memory_item sample_floats sample_dram (compute_dram_offset 2 (margs_offset sample_args) sample_memory)
      (unat (2 :: u32)) sample_args (make_channels_context (channel sample_args) sample_memory) st)
      [0..<reply_items (unat (2 :: u32)) sample_args]) = bytes16 [16, 20, 24, 28]" for st
    by (simp add: c o i upt_rec sample_dram_def bytes16_def red)
  show ?thesis using r unfolding item sample_written by (auto simp: sample_args_def)
qed

text \<open>While a locked memory command sends its data the memory does not change under it: the DRAM
  target is Idle or Locked at every step the other threads take, as long as they release only locks
  of their own; when the data is sent the lock is released.\<close>

theorem memory_read_undisturbed:
  fixes env :: "'e command_env"
  assumes "process_memory_command read_dram fo tune_to_freq strtod bpt env m raw_mode command f w = Some (None, f', w2)"
    and "parse_memory_args strtod bpt raw_mode command = (Inr a :: 'e command_error + 'd memory_args)" "lock (locking a)"
  shows "\<exists>w'. w2 = unlock_trigger_ready TRIGGER_DRAM (tt_run (meanwhile env) w') \<and>
    (\<forall>n. locks_held TRIGGER_DRAM w' = Suc n \<longrightarrow>
       others_disciplined tt_step (tt_effect TRIGGER_DRAM) (2 ^ 32) n (meanwhile env) w' \<longrightarrow>
       (\<forall>k \<le> length (meanwhile env). check_trigger_ready TRIGGER_DRAM (tt_run (take k (meanwhile env)) w')))"
proof -
  obtain w' where w: "wait_for_lock TRIGGER_DRAM (locking a) env w = Some (None, w')"
    "w2 = release_lock TRIGGER_DRAM (locking a) (tt_run (meanwhile env) w')"
    using assms(1,2) by (auto simp: process_memory_command_def split: if_splits sum.splits option.splits)
  then obtain ks' where "lock_trigger_ready TRIGGER_DRAM (timeout (locking a)) (request_time env) (connection env)
      (wakeups env) w = Some (Locked, ks', w')"
    using assms(3) by (auto simp: wait_for_lock_def split: option.splits lock_result.splits)
  from lock_ready[OF this] have "ready_t (targets w' TRIGGER_DRAM)" by (simp add: check_trigger_ready_eq)
  from tt_lock.lock_protects_always[OF this] have
    "\<forall>k \<le> length (meanwhile env). check_trigger_ready TRIGGER_DRAM (tt_run (take k (meanwhile env)) w')"
    if "locks_held TRIGGER_DRAM w' = Suc n"
      "others_disciplined tt_step (tt_effect TRIGGER_DRAM) (2 ^ 32) n (meanwhile env) w'" for n
    using that by (auto simp: check_trigger_ready_eq tt_run_def)
  with w(2) assms(3) show ?thesis by (auto simp: release_lock_def)
qed

lemma memory_read_undisturbed_witness:
  "\<exists>f' w2. process_memory_command sample_read sample_floats of_nat (\<lambda>s. (0, False, s)) 2
      (sample_env\<lparr>meanwhile := [OpArm TRIGGER_DRAM]\<rparr>) sample_memory False ''2FB1L''
      (create_buffered_file 8 4 [] [Some 1]) (start_world sample_config) = Some (None, f', w2) \<and>
    (\<exists>w'. w2 = unlock_trigger_ready TRIGGER_DRAM (tt_run [OpArm TRIGGER_DRAM] w'))"
proof -
  note w = sample_lock[of "[OpArm TRIGGER_DRAM]"]
  obtain f' w2 where p: "process_memory_command sample_read sample_floats of_nat (\<lambda>s. (0, False, s)) 2
      (sample_env\<lparr>meanwhile := [OpArm TRIGGER_DRAM]\<rparr>) sample_memory False ''2FB1L''
      (create_buffered_file 8 4 [] [Some 1]) (start_world sample_config) = Some (None, f', w2)"
    using memory_command_reply[OF sample_parse sample_checks(1,2) w sample_facts, of sample_floats of_nat] by blast
  from memory_read_undisturbed[OF p sample_parse sample_checks(3)] p show ?thesis by auto
qed

end
