(* ===== verification/Sequencer.thy ===== *)
theory Sequencer
  imports System_Config Parse
begin

unbundle bit_operations_syntax

text \<open>
  The sequencer (\<^verbatim>\<open>epics/src/sequencer.c\<close>): the configuration edited through EPICS, its copy
  written to the hardware when the sequencer is armed, and the frequency and time scale computed
  for the detector readout from that copy.  Counts, times and frequencies are words and wrap as in
  the code.  The conversions between tunes (\<^verbatim>\<open>double\<close>) and frequencies are parameters.
\<close>

section \<open>Configuration\<close>

record seq_entry =
  start_freq :: u64
  delta_freq :: u64
  dwell_time :: u32
  capture_count :: u32
  bunch_bank :: u16
  nco_gain :: u32
  window_rate :: u32
  enable_window :: bool
  write_enable :: bool
  enable_blanking :: bool
  reset_phase :: bool
  use_tune_pll :: bool
  holdoff :: u32
  state_holdoff :: u32

record sequencer_config =
  bank0 :: u16
  sequencer_pc :: u32
  super_seq_count :: u32
  entries :: "seq_entry list"
  window :: "u32 list"
  super_offsets :: "u64 list"

record seq_context =
  seq_config :: sequencer_config
  seq_hw_config :: sequencer_config
  seq_config_dirty :: bool
  seq_hw_config_dirty :: bool
  total_captures :: u32
  sequencer_duration :: u32
  reset_offsets :: bool
  reset_window :: bool

definition SUPER_SEQ_STATES :: nat where "SUPER_SEQ_STATES = 2048"
definition MAX_SEQUENCER_COUNT :: nat where "MAX_SEQUENCER_COUNT = 7"

section \<open>The scale\<close>

text \<open>
  The arrays of frequencies and times are one list of pairs; \<open>overrun\<close> records a write outside of
  them.  The index of a point is a 32-bit number.
\<close>

record scale_walk =
  ix :: u32
  total_time :: u32
  f0 :: u64
  scale_points :: "(u64 \<times> u32) list"
  overrun :: bool

definition write_scale_point :: "u32 \<Rightarrow> u64 \<Rightarrow> u32 \<Rightarrow> scale_walk \<Rightarrow> scale_walk" where
  "write_scale_point i f t s =
     (if unat i < length (scale_points s) then s\<lparr>scale_points := (scale_points s)[unat i := (f, t)]\<rparr>
      else s\<lparr>overrun := True\<rparr>)"

text \<open>One round of the innermost loop of \<^verbatim>\<open>compute_scale_info\<close>, and one state of the sequencer.\<close>

definition scale_step :: "u32 \<Rightarrow> u32 \<Rightarrow> seq_entry \<Rightarrow> u32 \<Rightarrow> scale_walk \<Rightarrow> scale_walk" where
  "scale_step start_offset end_offset e dwell s =
     (let s = (if start_offset \<le> ix s \<and> ix s < end_offset
               then write_scale_point (ix s - start_offset) (f0 s) (total_time s) s else s)
      in s\<lparr>f0 := f0 s + delta_freq e, total_time := total_time s + dwell, ix := ix s + 1\<rparr>)"

definition scale_state :: "u32 \<Rightarrow> u32 \<Rightarrow> u64 \<times> seq_entry \<Rightarrow> scale_walk \<Rightarrow> scale_walk" where
  "scale_state start_offset end_offset p s =
     (let (super_offset, e) = p;
          s = s\<lparr>total_time := total_time s + state_holdoff e\<rparr>;
          dwell = dwell_time e + holdoff e
      in if write_enable e
         then (scale_step start_offset end_offset e dwell ^^ unat (capture_count e))
                (s\<lparr>f0 := start_freq e + super_offset\<rparr>)
         else s\<lparr>total_time := total_time s + dwell * capture_count e\<rparr>)"

text \<open>The order of the two outer loops: the states count down to 1 in each super state.\<close>

definition seq_program :: "sequencer_config \<Rightarrow> (u64 \<times> seq_entry) list" where
  "seq_program cfg =
     concat (map (\<lambda>super. map (\<lambda>state. (super_offsets cfg ! super, entries cfg ! (state - 1)))
                   (rev [1..<unat (sequencer_pc cfg) + 1]))
              [0..<unat (super_seq_count cfg)])"

text \<open>The buffer of the caller is \<open>buffer\<close>; the result is its new content and the number of samples.\<close>

definition compute_scale_info ::
  "sequencer_config \<Rightarrow> (u64 \<times> u32) list \<Rightarrow> u32 \<Rightarrow> u32 \<Rightarrow> u32 \<times> scale_walk" where
  "compute_scale_info cfg buffer start_offset len =
     (let end_offset = start_offset + len;
          s = fold (scale_state start_offset end_offset) (seq_program cfg)
                \<lparr>ix = 0, total_time = 0, f0 = 0, scale_points = buffer, overrun = False\<rparr>;
          s' = fold (\<lambda>i s. write_scale_point (of_nat i - start_offset) (f0 s) (total_time s) s)
                [unat (ix s)..<unat end_offset] s
      in (ix s, s'))"

section \<open>Editing and arming\<close>

text \<open>
  The conversions on \<^verbatim>\<open>double\<close> the handlers use: between tunes and frequencies, the end of a sweep
  from its start, count and step, the step from start, end and count, and the window rate.
\<close>

record 'd tune_ops =
  tune_to_freq :: "'d \<Rightarrow> u64"
  freq_to_tune :: "u64 \<Rightarrow> 'd"
  freq_to_tune_signed :: "u64 \<Rightarrow> 'd"
  sweep_end :: "'d \<Rightarrow> u32 \<Rightarrow> 'd \<Rightarrow> 'd"
  sweep_step :: "'d \<Rightarrow> 'd \<Rightarrow> u32 \<Rightarrow> 'd"
  rate_of_dwell :: "u32 \<Rightarrow> u32"
  tune_of_nat :: "nat \<Rightarrow> 'd"

datatype 'd seq_command = WriteEndFreq nat 'd | WriteDeltaFreq nat 'd

definition modify_entry :: "nat \<Rightarrow> (seq_entry \<Rightarrow> seq_entry) \<Rightarrow> seq_context \<Rightarrow> seq_context" where
  "modify_entry i f s =
     s\<lparr>seq_config := (seq_config s)\<lparr>entries := (entries (seq_config s))[i := f (entries (seq_config s) ! i)]\<rparr>\<rparr>"

definition compute_end_freq :: "'d tune_ops \<Rightarrow> seq_entry \<Rightarrow> 'd" where
  "compute_end_freq ops e =
     sweep_end ops (freq_to_tune ops (start_freq e)) (capture_count e) (freq_to_tune_signed ops (delta_freq e))"

definition update_end_freq :: "'d tune_ops \<Rightarrow> nat \<Rightarrow> seq_context \<Rightarrow> seq_context \<times> 'd seq_command list" where
  "update_end_freq ops i s =
     (s\<lparr>seq_config_dirty := True\<rparr>, [WriteEndFreq i (compute_end_freq ops (entries (seq_config s) ! i))])"

text \<open>The handlers return the context, the value as written back to the record, and the records written.\<close>

definition write_start_freq ::
  "'d tune_ops \<Rightarrow> nat \<Rightarrow> 'd \<Rightarrow> seq_context \<Rightarrow> seq_context \<times> 'd \<times> 'd seq_command list" where
  "write_start_freq ops i v s =
     (let s = modify_entry i (\<lambda>e. e\<lparr>start_freq := tune_to_freq ops v\<rparr>) s;
          v' = freq_to_tune ops (start_freq (entries (seq_config s) ! i));
          (s, cs) = update_end_freq ops i s
      in (s, v', cs))"

definition write_step_freq ::
  "'d tune_ops \<Rightarrow> nat \<Rightarrow> 'd \<Rightarrow> seq_context \<Rightarrow> seq_context \<times> 'd \<times> 'd seq_command list" where
  "write_step_freq ops i v s =
     (let s = modify_entry i (\<lambda>e. e\<lparr>delta_freq := tune_to_freq ops v\<rparr>) s;
          v' = freq_to_tune_signed ops (delta_freq (entries (seq_config s) ! i));
          (s, cs) = update_end_freq ops i s
      in (s, v', cs))"

definition write_end_freq ::
  "'d tune_ops \<Rightarrow> nat \<Rightarrow> 'd \<Rightarrow> seq_context \<Rightarrow> seq_context \<times> 'd \<times> 'd seq_command list" where
  "write_end_freq ops i v s =
     (let s = modify_entry i (\<lambda>e. e\<lparr>delta_freq := tune_to_freq ops
                (sweep_step ops v (freq_to_tune ops (start_freq e)) (capture_count e))\<rparr>) s;
          e = entries (seq_config s) ! i
      in (s\<lparr>seq_config_dirty := True\<rparr>, compute_end_freq ops e,
          [WriteDeltaFreq i (freq_to_tune_signed ops (delta_freq e))]))"

definition write_bank_count ::
  "'d tune_ops \<Rightarrow> nat \<Rightarrow> u32 \<Rightarrow> seq_context \<Rightarrow> seq_context \<times> 'd seq_command list" where
  "write_bank_count ops i v s = update_end_freq ops i (modify_entry i (\<lambda>e. e\<lparr>capture_count := v\<rparr>) s)"

definition write_dwell_time :: "'d tune_ops \<Rightarrow> nat \<Rightarrow> u32 \<Rightarrow> seq_context \<Rightarrow> seq_context" where
  "write_dwell_time ops i v = modify_entry i (\<lambda>e. e\<lparr>dwell_time := v, window_rate := rate_of_dwell ops v\<rparr>)"

definition set_seq_nco_gain :: "nat \<Rightarrow> u32 \<Rightarrow> seq_context \<Rightarrow> seq_context" where
  "set_seq_nco_gain i gain = modify_entry i (\<lambda>e. e\<lparr>nco_gain := gain\<rparr>)"

definition set_state0_bunch_bank :: "u16 \<Rightarrow> seq_context \<Rightarrow> seq_context" where
  "set_state0_bunch_bank b s = s\<lparr>seq_config := (seq_config s)\<lparr>bank0 := b\<rparr>\<rparr>"

definition get_seq_idle_bank :: "seq_context \<Rightarrow> u16" where
  "get_seq_idle_bank s = bank0 (seq_config s)"

definition update_capture_count :: "seq_context \<Rightarrow> seq_context" where
  "update_capture_count s =
     (let es = map (\<lambda>i. entries (seq_config s) ! i) [0..<unat (sequencer_pc (seq_config s))]
      in s\<lparr>total_captures := fold (\<lambda>e n. if write_enable e then n + capture_count e else n) es 0,
           sequencer_duration := fold (\<lambda>e n. n + (state_holdoff e + capture_count e * (dwell_time e + holdoff e))) es 0,
           seq_config_dirty := True\<rparr>)"

text \<open>The offsets written back to the waveform are returned.\<close>

definition write_super_offsets :: "'d tune_ops \<Rightarrow> 'd list \<Rightarrow> seq_context \<Rightarrow> seq_context \<times> 'd list" where
  "write_super_offsets ops offsets s =
     (let offsets = (if reset_offsets s then map (tune_of_nat ops) [0..<SUPER_SEQ_STATES] else offsets);
          freqs = map (\<lambda>i. tune_to_freq ops (offsets ! i)) [0..<SUPER_SEQ_STATES]
      in (s\<lparr>reset_offsets := False, seq_config := (seq_config s)\<lparr>super_offsets := freqs\<rparr>, seq_config_dirty := True\<rparr>,
          map (freq_to_tune ops) freqs))"

definition reset_super_offsets :: "seq_context \<Rightarrow> seq_context" where
  "reset_super_offsets s = s\<lparr>reset_offsets := True\<rparr>"

text \<open>\<open>quantise\<close> is \<^verbatim>\<open>float_array_to_int\<close> with 16 bits of which 15 are fraction bits.\<close>

definition write_detector_window ::
  "('f list \<Rightarrow> u32 list) \<Rightarrow> 'f list \<Rightarrow> 'f list \<Rightarrow> seq_context \<Rightarrow> seq_context" where
  "write_detector_window quantise default_window wave s =
     (let wave = (if reset_window s then default_window else wave)
      in s\<lparr>reset_window := False, seq_config := (seq_config s)\<lparr>window := quantise wave\<rparr>\<rparr>)"

definition reset_detector_window :: "seq_context \<Rightarrow> seq_context" where
  "reset_detector_window s = s\<lparr>reset_window := True\<rparr>"

definition prepare_sequencer :: "seq_context \<Rightarrow> seq_context" where
  "prepare_sequencer s =
     s\<lparr>seq_hw_config := seq_config s, seq_hw_config_dirty := seq_config_dirty s, seq_config_dirty := False\<rparr>"

definition detector_scale_changed :: "seq_context \<Rightarrow> bool" where
  "detector_scale_changed s = seq_hw_config_dirty s"

text \<open>\<^verbatim>\<open>read_detector_scale_info\<close>: the tunes, the times and the number of samples.\<close>

definition read_detector_scale_info ::
  "'d tune_ops \<Rightarrow> u32 \<Rightarrow> (u64 \<times> u32) list \<Rightarrow> seq_context \<Rightarrow> u32 \<times> 'd list \<times> u32 list" where
  "read_detector_scale_info ops len buffer s =
     (let (total, r) = compute_scale_info (seq_hw_config s) buffer 0 len
      in (total, map (freq_to_tune ops \<circ> fst) (scale_points r), map snd (scale_points r)))"

section \<open>The points of a program\<close>

text \<open>In closed form: the points of a state that starts at time \<open>t\<close>, and the time it takes.\<close>

definition entry_points :: "u32 \<Rightarrow> u64 \<times> seq_entry \<Rightarrow> (u64 \<times> u32) list" where
  "entry_points t p =
     (let (super_offset, e) = p
      in if write_enable e
         then map (\<lambda>i. (start_freq e + super_offset + of_nat i * delta_freq e,
                        t + state_holdoff e + of_nat i * (dwell_time e + holdoff e)))
                [0..<unat (capture_count e)]
         else [])"

definition entry_time :: "seq_entry \<Rightarrow> u32" where
  "entry_time e = state_holdoff e + (dwell_time e + holdoff e) * capture_count e"

fun program_points :: "u32 \<Rightarrow> (u64 \<times> seq_entry) list \<Rightarrow> (u64 \<times> u32) list" where
  "program_points t [] = []"
| "program_points t (p # ps) = entry_points t p @ program_points (t + entry_time (snd p)) ps"

definition scale_of :: "sequencer_config \<Rightarrow> (u64 \<times> u32) list" where
  "scale_of cfg = program_points 0 (seq_program cfg)"

section \<open>The walk writes the points\<close>

text \<open>A buffer with the points from \<open>start\<close> on laid over it.\<close>

definition overlay :: "nat \<Rightarrow> 'a list \<Rightarrow> 'a list \<Rightarrow> 'a list" where
  "overlay start buffer pts =
     map (\<lambda>j. if start + j < length pts then pts ! (start + j) else buffer ! j) [0..<length buffer]"

lemma length_overlay [simp]: "length (overlay start buffer pts) = length buffer"
  by (simp add: overlay_def)

lemma overlay_Nil [simp]: "overlay start buffer [] = buffer"
  by (simp add: overlay_def map_nth)

lemma overlay_snoc:
  "overlay start buffer (pts @ [p]) =
     (if start \<le> length pts \<and> length pts < start + length buffer
      then (overlay start buffer pts)[length pts - start := p] else overlay start buffer pts)"
  by (rule nth_equalityI) (auto simp: overlay_def nth_append nth_list_update)

definition walked :: "u32 \<Rightarrow> (u64 \<times> u32) list \<Rightarrow> (u64 \<times> u32) list \<Rightarrow> scale_walk \<Rightarrow> bool" where
  "walked start buffer pts s \<longleftrightarrow>
     ix s = of_nat (length pts) \<and> scale_points s = overlay (unat start) buffer pts \<and> \<not> overrun s"

lemma unat_small: "k < 2 ^ 32 \<Longrightarrow> unat (of_nat k :: u32) = k"
  by (simp add: unsigned_of_nat take_bit_nat_eq_self)

lemma scale_step_walked:
  assumes "walked start buffer pts s" "length pts < 2 ^ 32"
    and "unat start + length buffer < 2 ^ 32" "end_offset = start + of_nat (length buffer)"
  shows "walked start buffer (pts @ [(f0 s, total_time s)]) (scale_step start end_offset e dwell s)"
proof -
  let ?k = "length pts"
  have e: "unat end_offset = unat start + length buffer"
    using assms(3,4) by (simp add: unat_word_ariths unat_small)
  have c: "start \<le> ix s \<longleftrightarrow> unat start \<le> ?k" "ix s < end_offset \<longleftrightarrow> ?k < unat start + length buffer"
    using assms(1,2) e by (simp_all add: walked_def word_le_nat_alt word_less_nat_alt unat_small)
  have d: "unat (ix s - start) = ?k - unat start" if "unat start \<le> ?k"
    using assms(1,2) that by (simp add: walked_def unat_sub word_le_nat_alt unat_small)
  show ?thesis
    using assms(1) c d by (auto simp: scale_step_def walked_def Let_def overlay_snoc write_scale_point_def)
qed

lemma scale_step_frame [simp]:
  "f0 (scale_step start end_offset e dwell s) = f0 s + delta_freq e"
  "total_time (scale_step start end_offset e dwell s) = total_time s + dwell"
  by (simp_all add: scale_step_def write_scale_point_def Let_def)

lemma scale_iter_walked:
  assumes "walked start buffer pts s" "length pts + n < 2 ^ 32"
    and "unat start + length buffer < 2 ^ 32" "end_offset = start + of_nat (length buffer)"
  shows "walked start buffer (pts @ map (\<lambda>i. (f0 s + of_nat i * delta_freq e, total_time s + of_nat i * dwell)) [0..<n])
      ((scale_step start end_offset e dwell ^^ n) s) \<and>
    f0 ((scale_step start end_offset e dwell ^^ n) s) = f0 s + of_nat n * delta_freq e \<and>
    total_time ((scale_step start end_offset e dwell ^^ n) s) = total_time s + of_nat n * dwell"
  using assms(2)
proof (induction n)
  case 0
  then show ?case using assms(1) by simp
next
  case (Suc n)
  let ?s = "(scale_step start end_offset e dwell ^^ n) s"
  let ?pts = "pts @ map (\<lambda>i. (f0 s + of_nat i * delta_freq e, total_time s + of_nat i * dwell)) [0..<n]"
  have IH: "walked start buffer ?pts ?s" "f0 ?s = f0 s + of_nat n * delta_freq e"
    "total_time ?s = total_time s + of_nat n * dwell"
    using Suc by simp_all
  have "length ?pts < 2 ^ 32" using Suc.prems by simp
  from scale_step_walked[OF IH(1) this assms(3,4), of e dwell] IH(2,3)
  show ?case by (simp add: algebra_simps)
qed

lemma scale_state_walked:
  assumes "walked start buffer pts s" "length pts + length (entry_points (total_time s) p) < 2 ^ 32"
    and "unat start + length buffer < 2 ^ 32" "end_offset = start + of_nat (length buffer)"
  shows "walked start buffer (pts @ entry_points (total_time s) p) (scale_state start end_offset p s) \<and>
    total_time (scale_state start end_offset p s) = total_time s + entry_time (snd p)"
proof (cases "write_enable (snd p)")
  case True
  obtain off e where p: "p = (off, e)" by (cases p)
  let ?s = "s\<lparr>total_time := total_time s + state_holdoff e, f0 := start_freq e + off\<rparr>"
  have "walked start buffer pts ?s" using assms(1) by (simp add: walked_def)
  from scale_iter_walked[OF this _ assms(3,4), of "unat (capture_count e)" e "dwell_time e + holdoff e"] True assms(2)
  show ?thesis by (simp add: p scale_state_def entry_points_def entry_time_def Let_def algebra_simps)
next
  case False
  then show ?thesis using assms(1)
    by (cases p) (simp add: scale_state_def entry_points_def entry_time_def walked_def Let_def)
qed

lemma scale_fold_walked:
  assumes "walked start buffer pts s" "length pts + length (program_points (total_time s) ps) < 2 ^ 32"
    and "unat start + length buffer < 2 ^ 32" "end_offset = start + of_nat (length buffer)"
  shows "walked start buffer (pts @ program_points (total_time s) ps) (fold (scale_state start end_offset) ps s)"
  using assms(1,2)
proof (induction ps arbitrary: pts s)
  case (Cons p ps)
  have "length pts + length (entry_points (total_time s) p) < 2 ^ 32" using Cons.prems(2) by simp
  from scale_state_walked[OF Cons.prems(1) this assms(3,4)] Cons.IH[of "pts @ entry_points (total_time s) p" "scale_state start end_offset p s"] Cons.prems(2)
  show ?case by simp
qed simp

text \<open>The last loop gives the points after the end the final frequency and time.\<close>

lemma set_range_snoc:
  "a \<le> b \<Longrightarrow> b < length xs \<Longrightarrow>
     (map (\<lambda>j. if a \<le> j \<and> j < b then v else xs ! j) [0..<length xs])[b := v] =
     map (\<lambda>j. if a \<le> j \<and> j < Suc b then v else xs ! j) [0..<length xs]"
  by (rule nth_equalityI) (auto simp: nth_list_update)

lemma write_in_range:
  "unat i < length (scale_points s) \<Longrightarrow> write_scale_point i f t s = s\<lparr>scale_points := (scale_points s)[unat i := (f, t)]\<rparr>"
  by (simp add: write_scale_point_def)

lemma set_range_empty:
  "b \<le> a \<Longrightarrow> map (\<lambda>j. if a \<le> j \<and> j < b then v else xs ! j) [0..<length xs] = xs"
  by (rule nth_equalityI) auto

lemma fill_scale:
  assumes "unat start \<le> n" "n \<le> e" "e \<le> unat start + length (scale_points s)" "e < 2 ^ 32"
  shows "fold (\<lambda>i s. write_scale_point (of_nat i - start) (f0 s) (total_time s) s) [n..<e] s =
    s\<lparr>scale_points := map (\<lambda>j. if n - unat start \<le> j \<and> j < e - unat start then (f0 s, total_time s)
        else scale_points s ! j) [0..<length (scale_points s)]\<rparr>"
  using assms(2-4)
proof (induction e)
  case (Suc e)
  show ?case
  proof (cases "n = Suc e")
    case False
    then have le: "n \<le> e" using Suc.prems by simp
    have i: "unat (of_nat e - start) = e - unat start"
      using assms(1) le Suc.prems by (simp add: unat_sub word_le_nat_alt unat_small)
    have b: "e - unat start < length (scale_points s)" "n - unat start \<le> e - unat start"
      "Suc (e - unat start) = Suc e - unat start"
      using assms(1) le Suc.prems by linarith+
    have "fold (\<lambda>i s. write_scale_point (of_nat i - start) (f0 s) (total_time s) s) [n..<e] s =
      s\<lparr>scale_points := map (\<lambda>j. if n - unat start \<le> j \<and> j < e - unat start then (f0 s, total_time s)
        else scale_points s ! j) [0..<length (scale_points s)]\<rparr>" using Suc le by simp
    then show ?thesis using le set_range_snoc[OF b(2,1), of "(f0 s, total_time s)"]
      by (simp add: write_in_range i b(1)) (simp add: b(3))
  qed (simp add: set_range_empty map_nth)
qed (simp add: set_range_empty map_nth)

text \<open>What the walk leaves, before the last loop.\<close>

lemma scale_fold_start:
  assumes "length (scale_of cfg) < 2 ^ 32" "unat start + length buffer < 2 ^ 32"
  shows "walked start buffer (scale_of cfg)
    (fold (scale_state start (start + of_nat (length buffer))) (seq_program cfg)
       \<lparr>ix = 0, total_time = 0, f0 = 0, scale_points = buffer, overrun = False\<rparr>)"
  using scale_fold_walked[of start buffer "[]" _ "seq_program cfg", OF _ _ assms(2) refl] assms(1)
  by (simp add: walked_def scale_of_def)

text \<open>The final frequency and time of a walk.\<close>

definition final_point :: "sequencer_config \<Rightarrow> u64 \<times> u32" where
  "final_point cfg =
     (let s = fold (scale_state 0 0) (seq_program cfg)
                \<lparr>ix = 0, total_time = 0, f0 = 0, scale_points = [], overrun = False\<rparr>
      in (f0 s, total_time s))"

lemma scale_step_same:
  "f0 s = f0 s' \<and> total_time s = total_time s' \<Longrightarrow>
   f0 (scale_state a b p s) = f0 (scale_state c d p s') \<and>
   total_time (scale_state a b p s) = total_time (scale_state c d p s')"
proof -
  assume eq: "f0 s = f0 s' \<and> total_time s = total_time s'"
  have iter: "f0 ((scale_step a b e w ^^ n) s) = f0 ((scale_step c d e w ^^ n) s') \<and>
      total_time ((scale_step a b e w ^^ n) s) = total_time ((scale_step c d e w ^^ n) s')"
    if "f0 s = f0 s' \<and> total_time s = total_time s'" for e w n s s'
    using that by (induction n) simp_all
  show ?thesis using eq by (cases p) (simp add: scale_state_def Let_def iter)
qed

lemma scale_fold_same:
  "f0 s = f0 s' \<and> total_time s = total_time s' \<Longrightarrow>
   f0 (fold (scale_state a b) ps s) = f0 (fold (scale_state c d) ps s') \<and>
   total_time (fold (scale_state a b) ps s) = total_time (fold (scale_state c d) ps s')"
proof (induction ps arbitrary: s s')
  case (Cons p ps)
  from Cons.IH[OF scale_step_same[OF Cons.prems]] show ?case by simp
qed simp

lemma overlay_complete:
  assumes "start + length buffer \<le> length pts"
  shows "overlay start buffer pts = map (\<lambda>i. if i < length pts then pts ! i else v) [start..<start + length buffer]"
  using assms by (intro nth_equalityI) (simp_all add: overlay_def)

lemma overlay_filled:
  assumes "start \<le> length pts" "length pts \<le> start + length buffer" "xs = overlay start buffer pts"
  shows "map (\<lambda>j. if length pts - start \<le> j \<and> j < start + length buffer - start then v else xs ! j) [0..<length xs] =
    map (\<lambda>i. if i < length pts then pts ! i else v) [start..<start + length buffer]"
proof (rule nth_equalityI)
  fix j assume "j < length (map (\<lambda>j. if length pts - start \<le> j \<and> j < start + length buffer - start then v else xs ! j) [0..<length xs])"
  then have "j < length buffer" using assms(3) by simp
  moreover have "length pts - start \<le> j \<longleftrightarrow> \<not> start + j < length pts" using assms(1) by linarith
  ultimately show "map (\<lambda>j. if length pts - start \<le> j \<and> j < start + length buffer - start then v else xs ! j) [0..<length xs] ! j =
      map (\<lambda>i. if i < length pts then pts ! i else v) [start..<start + length buffer] ! j"
    using assms(3) by (simp add: overlay_def)
qed (simp add: assms(3))

lemma fill_walked:
  assumes "walked start buffer pts s" "unat start \<le> length pts" "unat start + length buffer < 2 ^ 32"
  defines "s' \<equiv> fold (\<lambda>i s. write_scale_point (of_nat i - start) (f0 s) (total_time s) s)
    [length pts..<unat start + length buffer] s"
  shows "\<not> overrun s' \<and> scale_points s' =
    map (\<lambda>i. if i < length pts then pts ! i else (f0 s, total_time s)) [unat start..<unat start + length buffer]"
proof (cases "length pts \<le> unat start + length buffer")
  case True
  have p: "scale_points s = overlay (unat start) buffer pts" "\<not> overrun s"
    using assms(1) by (simp_all add: walked_def)
  have "s' = s\<lparr>scale_points := map (\<lambda>j. if length pts - unat start \<le> j \<and> j < unat start + length buffer - unat start
      then (f0 s, total_time s) else scale_points s ! j) [0..<length (scale_points s)]\<rparr>"
    unfolding s'_def using p assms(3) by (intro fill_scale assms(2) True) simp_all
  then show ?thesis using overlay_filled[OF assms(2) True p(1), of "(f0 s, total_time s)"] p(2) by simp
next
  case False
  then have "s' = s" by (simp add: s'_def)
  then show ?thesis
    using assms(1) overlay_complete[of "unat start" buffer pts "(f0 s, total_time s)"] False
    by (simp add: walked_def)
qed

lemma scale_info_ok:
  assumes "length (scale_of cfg) < 2 ^ 32" "unat start + length buffer < 2 ^ 32"
    and "unat start \<le> length (scale_of cfg)"
  shows "\<exists>s. compute_scale_info cfg buffer start (of_nat (length buffer)) = (of_nat (length (scale_of cfg)), s) \<and>
    \<not> overrun s \<and>
    scale_points s = map (\<lambda>i. if i < length (scale_of cfg) then scale_of cfg ! i else final_point cfg)
      [unat start..<unat start + length buffer]"
proof -
  define s where "s = fold (scale_state start (start + of_nat (length buffer))) (seq_program cfg)
     \<lparr>ix = 0, total_time = 0, f0 = 0, scale_points = buffer, overrun = False\<rparr>"
  have w: "walked start buffer (scale_of cfg) s" unfolding s_def by (rule scale_fold_start[OF assms(1,2)])
  have e: "unat (start + of_nat (length buffer)) = unat start + length buffer"
    using assms(2) by (simp add: unat_word_ariths unat_small)
  have f: "(f0 s, total_time s) = final_point cfg"
    unfolding final_point_def Let_def s_def using scale_fold_same by simp
  have i: "ix s = of_nat (length (scale_of cfg))" using w by (simp add: walked_def)
  then have "unat (ix s) = length (scale_of cfg)" using assms(1) by (simp add: unat_small)
  then show ?thesis using fill_walked[OF w assms(3,2)] i unfolding f
    by (simp add: compute_scale_info_def Let_def e flip: s_def)
qed

text \<open>C14 The scale sent with a detector readout is the true one: for any part of it the caller asks for, and
  however it is cut into parts, the frequency and time of each sample are those of the sample in
  the program of the sequencer (the states count down within each super state, the frequency steps
  from the start frequency plus the super offset, the time adds the holdoffs and dwell times),
  behind the last sample the final values are repeated, and no write goes outside of the buffer.\<close>

theorem scale_info_exact:
  assumes "length (scale_of cfg) < 2 ^ 32" "unat start + length buffer < 2 ^ 32"
    and "unat start \<le> length (scale_of cfg)"
  shows "let (total, s) = compute_scale_info cfg buffer start (of_nat (length buffer))
    in unat total = length (scale_of cfg) \<and> \<not> overrun s \<and>
       scale_points s = map (\<lambda>i. if i < length (scale_of cfg) then scale_of cfg ! i else final_point cfg)
         [unat start..<unat start + length buffer]"
  using scale_info_ok[OF assms] assms(1) by (auto simp: unat_small)

lemma scale_info_exact_witness:
  "let e = \<lparr>start_freq = 100, delta_freq = 7, dwell_time = 10, capture_count = 3, bunch_bank = 0, nco_gain = 0,
            window_rate = 0, enable_window = False, write_enable = True, enable_blanking = False, reset_phase = False,
            use_tune_pll = False, holdoff = 2, state_holdoff = 5\<rparr>;
       cfg = \<lparr>bank0 = 0, sequencer_pc = 1, super_seq_count = 1, entries = [e], window = [], super_offsets = [1000]\<rparr>
   in scale_points (snd (compute_scale_info cfg [(0, 0), (0, 0)] 1 2)) = [(1107, 17), (1114, 29)]"
proof -
  let ?e = "\<lparr>start_freq = 100, delta_freq = 7, dwell_time = 10, capture_count = 3, bunch_bank = 0, nco_gain = 0,
            window_rate = 0, enable_window = False, write_enable = True, enable_blanking = False, reset_phase = False,
            use_tune_pll = False, holdoff = 2, state_holdoff = 5\<rparr>"
  let ?cfg = "\<lparr>bank0 = 0, sequencer_pc = 1, super_seq_count = 1, entries = [?e], window = [], super_offsets = [1000]\<rparr>"
  let ?b = "[(0, 0), (0, 0)] :: (u64 \<times> u32) list"
  have u: "[Suc 0..<2] = [1]" "[0..<3] = [0, 1, 2 :: nat]" "[Suc 0..<3] = [1, 2]" by (simp_all add: upt_rec)
  have sc: "scale_of ?cfg = [(1100, 5), (1107, 17), (1114, 29)]"
    by (simp add: scale_of_def seq_program_def entry_points_def u)
  have "let (total, s) = compute_scale_info ?cfg ?b 1 (of_nat (length ?b))
    in unat total = length (scale_of ?cfg) \<and> \<not> overrun s \<and>
       scale_points s = map (\<lambda>i. if i < length (scale_of ?cfg) then scale_of ?cfg ! i else final_point ?cfg)
         [unat (1 :: u32)..<unat (1 :: u32) + length ?b]"
    by (rule scale_info_exact) (simp_all add: sc)
  then show ?thesis by (auto simp: sc u case_prod_unfold Let_def)
qed

lemma overrun_kept: "overrun s \<Longrightarrow> overrun (fold (\<lambda>i s. write_scale_point (g i) (f0 s) (total_time s) s) is s)"
  by (induction "is" arbitrary: s) (simp_all add: write_scale_point_def)

text \<open>A request for a part of the scale that starts behind the end of the current program writes outside
  of the buffer: the index of the first point filled in is negative and wraps.  The readout asks
  for the number of samples of the last capture, so this happens when the sequencer has been armed
  with a shorter program meanwhile.\<close>

theorem scale_info_overruns:
  assumes "length (scale_of cfg) < unat start" "unat start + length buffer < 2 ^ 32"
  shows "overrun (snd (compute_scale_info cfg buffer start (of_nat (length buffer))))"
proof -
  let ?n = "length (scale_of cfg)"
  have n: "?n < 2 ^ 32" using assms by linarith
  define s where "s = fold (scale_state start (start + of_nat (length buffer))) (seq_program cfg)
     \<lparr>ix = 0, total_time = 0, f0 = 0, scale_points = buffer, overrun = False\<rparr>"
  have w: "walked start buffer (scale_of cfg) s" unfolding s_def by (rule scale_fold_start[OF n assms(2)])
  then have i: "ix s = of_nat ?n" "length (scale_points s) = length buffer" by (simp_all add: walked_def)
  have e: "unat (start + of_nat (length buffer)) = unat start + length buffer"
    using assms(2) by (simp add: unat_word_ariths unat_small)
  have "unat (of_nat ?n - start) = 2 ^ 32 + ?n - unat start"
    using assms(1) n by (simp add: unat_sub_if' unat_small)
  then have "\<not> unat (of_nat ?n - start) < length (scale_points s)" using assms(2) i(2) by linarith
  then have "overrun (write_scale_point (of_nat ?n - start) (f0 s) (total_time s) s)"
    by (simp add: write_scale_point_def)
  moreover have "[?n..<unat start + length buffer] = ?n # [Suc ?n..<unat start + length buffer]"
    using assms(1) by (simp add: upt_conv_Cons)
  ultimately show ?thesis using overrun_kept i(1) n
    by (simp add: compute_scale_info_def Let_def e unat_small flip: s_def)
qed

lemma scale_info_overruns_witness:
  "overrun (snd (compute_scale_info \<lparr>bank0 = 0, sequencer_pc = 0, super_seq_count = 1, entries = [], window = [],
      super_offsets = [0]\<rparr> [(0, 0)] 5 1))"
proof -
  let ?cfg = "\<lparr>bank0 = 0, sequencer_pc = 0, super_seq_count = 1, entries = [], window = [], super_offsets = [0]\<rparr>"
  have "scale_of ?cfg = []" by (simp add: scale_of_def seq_program_def)
  then show ?thesis using scale_info_overruns[of ?cfg 5 "[(0, 0)]"] by simp
qed

section \<open>Edits and the dirty mark\<close>

text \<open>
  What the operator can do: the writes to the records, with the processing of \<^verbatim>\<open>UPDATE_COUNT\<close> where
  the database (\<^verbatim>\<open>epics/Db/sequencer.py\<close>) forwards to it, and arming.
\<close>

datatype ('d, 'f) seq_edit =
    EditStart nat 'd
  | EditStep nat 'd
  | EditEnd nat 'd
  | EditCount nat u32
  | EditDwell nat u32
  | EditHoldoff nat u32
  | EditStateHoldoff nat u32
  | EditCapture nat bool
  | EditBank nat u16
  | EditWindowing nat bool
  | EditBlanking nat bool
  | EditTunePll nat bool
  | EditGain nat u32
  | EditBank0 u16
  | EditPC u32
  | EditSuperCount u32
  | EditOffsets "'d list"
  | ResetOffsets
  | EditWindow "'f list"
  | ResetWindow
  | ArmSequencer

definition set_pc :: "u32 \<Rightarrow> seq_context \<Rightarrow> seq_context" where
  "set_pc n s = s\<lparr>seq_config := (seq_config s)\<lparr>sequencer_pc := n\<rparr>\<rparr>"

definition set_super_count :: "u32 \<Rightarrow> seq_context \<Rightarrow> seq_context" where
  "set_super_count n s = s\<lparr>seq_config := (seq_config s)\<lparr>super_seq_count := n\<rparr>\<rparr>"

fun seq_apply ::
  "'d tune_ops \<Rightarrow> ('f list \<Rightarrow> u32 list) \<Rightarrow> 'f list \<Rightarrow> ('d, 'f) seq_edit \<Rightarrow> seq_context \<Rightarrow> seq_context" where
  "seq_apply ops q dw (EditStart i v) s = fst (write_start_freq ops i v s)"
| "seq_apply ops q dw (EditStep i v) s = fst (write_step_freq ops i v s)"
| "seq_apply ops q dw (EditEnd i v) s = fst (write_end_freq ops i v s)"
| "seq_apply ops q dw (EditCount i v) s = update_capture_count (fst (write_bank_count ops i v s))"
| "seq_apply ops q dw (EditDwell i v) s = update_capture_count (write_dwell_time ops i v s)"
| "seq_apply ops q dw (EditHoldoff i v) s = update_capture_count (modify_entry i (\<lambda>e. e\<lparr>holdoff := v\<rparr>) s)"
| "seq_apply ops q dw (EditStateHoldoff i v) s = update_capture_count (modify_entry i (\<lambda>e. e\<lparr>state_holdoff := v\<rparr>) s)"
| "seq_apply ops q dw (EditCapture i v) s = update_capture_count (modify_entry i (\<lambda>e. e\<lparr>write_enable := v\<rparr>) s)"
| "seq_apply ops q dw (EditBank i v) s = modify_entry i (\<lambda>e. e\<lparr>bunch_bank := v\<rparr>) s"
| "seq_apply ops q dw (EditWindowing i v) s = modify_entry i (\<lambda>e. e\<lparr>enable_window := v\<rparr>) s"
| "seq_apply ops q dw (EditBlanking i v) s = modify_entry i (\<lambda>e. e\<lparr>enable_blanking := v\<rparr>) s"
| "seq_apply ops q dw (EditTunePll i v) s = modify_entry i (\<lambda>e. e\<lparr>use_tune_pll := v\<rparr>) s"
| "seq_apply ops q dw (EditGain i v) s = set_seq_nco_gain i v s"
| "seq_apply ops q dw (EditBank0 b) s = set_state0_bunch_bank b s"
| "seq_apply ops q dw (EditPC n) s = update_capture_count (set_pc n s)"
| "seq_apply ops q dw (EditSuperCount n) s = update_capture_count (set_super_count n s)"
| "seq_apply ops q dw (EditOffsets vs) s = fst (write_super_offsets ops vs s)"
| "seq_apply ops q dw ResetOffsets s = reset_super_offsets s"
| "seq_apply ops q dw (EditWindow w) s = write_detector_window q dw w s"
| "seq_apply ops q dw ResetWindow s = reset_detector_window s"
| "seq_apply ops q dw ArmSequencer s = prepare_sequencer s"

text \<open>The scale depends on the entries through these fields alone.\<close>

definition timing :: "seq_entry \<Rightarrow> u64 \<times> u64 \<times> u32 \<times> u32 \<times> bool \<times> u32 \<times> u32" where
  "timing e = (start_freq e, delta_freq e, dwell_time e, capture_count e, write_enable e, holdoff e, state_holdoff e)"

lemma program_points_timing:
  "map (apsnd timing) ps = map (apsnd timing) qs \<Longrightarrow> program_points t ps = program_points t qs"
proof (induction ps arbitrary: qs t)
  case (Cons p ps)
  then obtain q qs' where "qs = q # qs'" "apsnd timing p = apsnd timing q" "map (apsnd timing) ps = map (apsnd timing) qs'"
    by (cases qs) auto
  moreover from this have "entry_points t p = entry_points t q" "entry_time (snd p) = entry_time (snd q)"
    by (cases p; cases q; simp add: entry_points_def entry_time_def timing_def)+
  ultimately show ?case using Cons.IH[of qs'] by simp
qed simp

lemma scale_of_timing:
  assumes "\<And>j. timing (entries cfg ! j) = timing (entries cfg' ! j)"
    and "sequencer_pc cfg = sequencer_pc cfg'" "super_seq_count cfg = super_seq_count cfg'"
    and "super_offsets cfg = super_offsets cfg'"
  shows "scale_of cfg = scale_of cfg'"
  unfolding scale_of_def
  by (rule program_points_timing) (simp add: seq_program_def map_concat comp_def assms)

lemma timing_modify:
  "(\<And>e. timing (f e) = timing e) \<Longrightarrow> timing (xs[i := f (xs ! i)] ! j) = timing (xs ! j)"
  by (cases "i < length xs"; cases "i = j") (simp_all add: not_less list_update_beyond)

lemma scale_modify:
  "(\<And>e. timing (f e) = timing e) \<Longrightarrow> scale_of (seq_config (modify_entry i f s)) = scale_of (seq_config s)"
  by (rule scale_of_timing) (simp_all add: modify_entry_def timing_modify)

definition scale_tracked :: "seq_context \<Rightarrow> bool" where
  "scale_tracked s \<longleftrightarrow> (\<not> seq_config_dirty s \<longrightarrow> scale_of (seq_config s) = scale_of (seq_hw_config s))"

lemma modify_frame [simp]:
  "seq_config_dirty (modify_entry i f s) = seq_config_dirty s" "seq_hw_config (modify_entry i f s) = seq_hw_config s"
  by (simp_all add: modify_entry_def)

lemma scale_tracked_apply: "scale_tracked s \<Longrightarrow> scale_tracked (seq_apply ops q dw x s)"
proof (cases x)
  case (EditBank0 b)
  assume "scale_tracked s"
  moreover have "scale_of (seq_config (set_state0_bunch_bank b s)) = scale_of (seq_config s)"
    by (rule scale_of_timing) (simp_all add: set_state0_bunch_bank_def)
  ultimately show ?thesis using EditBank0 by (simp add: scale_tracked_def set_state0_bunch_bank_def)
next
  case (EditWindow w)
  assume "scale_tracked s"
  moreover have "scale_of (seq_config (write_detector_window q dw w s)) = scale_of (seq_config s)"
    by (rule scale_of_timing) (simp_all add: write_detector_window_def Let_def)
  ultimately show ?thesis using EditWindow by (simp add: scale_tracked_def write_detector_window_def Let_def)
qed (simp_all add: scale_tracked_def write_start_freq_def write_step_freq_def write_end_freq_def write_bank_count_def
    update_end_freq_def update_capture_count_def write_super_offsets_def reset_super_offsets_def
    reset_detector_window_def prepare_sequencer_def set_seq_nco_gain_def scale_modify timing_def Let_def case_prod_unfold)

text \<open>The state after start-up: nothing armed yet, and marked as changed.\<close>

definition initial_seq :: "sequencer_config \<Rightarrow> seq_context" where
  "initial_seq cfg = \<lparr>seq_config = cfg, seq_hw_config = cfg, seq_config_dirty = True, seq_hw_config_dirty = False,
     total_captures = 0, sequencer_duration = 0, reset_offsets = False, reset_window = True\<rparr>"

definition seq_run ::
  "'d tune_ops \<Rightarrow> ('f list \<Rightarrow> u32 list) \<Rightarrow> 'f list \<Rightarrow> ('d, 'f) seq_edit list \<Rightarrow> seq_context \<Rightarrow> seq_context" where
  "seq_run ops q dw xs s = fold (seq_apply ops q dw) xs s"

lemma scale_tracked_run: "scale_tracked s \<Longrightarrow> scale_tracked (seq_run ops q dw xs s)"
  by (induction xs arbitrary: s) (simp_all add: seq_run_def scale_tracked_apply)

text \<open>C15 The dirty mark covers everything the scale depends on: after any sequence of edits, resets and
  arms, if the configuration is not marked as changed then the scale of the configuration the
  operator sees is the scale of the configuration in the hardware.\<close>

theorem unmarked_scale_current:
  assumes "\<not> seq_config_dirty (seq_run ops q dw xs (initial_seq cfg))"
  shows "scale_of (seq_config (seq_run ops q dw xs (initial_seq cfg))) =
         scale_of (seq_hw_config (seq_run ops q dw xs (initial_seq cfg)))"
  using scale_tracked_run[of "initial_seq cfg" ops q dw xs] assms by (simp add: scale_tracked_def initial_seq_def)

definition plain_ops :: "nat tune_ops" where
  "plain_ops = \<lparr>tune_to_freq = of_nat, freq_to_tune = unat, freq_to_tune_signed = unat,
     sweep_end = (\<lambda>s n d. s + unat n * d), sweep_step = (\<lambda>e s n. (e - s) div unat n), rate_of_dwell = (\<lambda>n. n), tune_of_nat = id\<rparr>"

definition plain_config :: sequencer_config where
  "plain_config = \<lparr>bank0 = 0, sequencer_pc = 1, super_seq_count = 1,
     entries = replicate 7 \<lparr>start_freq = 0, delta_freq = 0, dwell_time = 1, capture_count = 1, bunch_bank = 0,
       nco_gain = 0, window_rate = 0, enable_window = False, write_enable = True, enable_blanking = False,
       reset_phase = False, use_tune_pll = False, holdoff = 0, state_holdoff = 0\<rparr>,
     window = [], super_offsets = [0]\<rparr>"

lemma unmarked_scale_current_witness:
  "let xs = [EditCount 0 5, ArmSequencer, EditBank 0 2 :: (nat, nat) seq_edit];
       s = seq_run plain_ops (map of_nat) [] xs (initial_seq plain_config)
   in scale_of (seq_config s) = scale_of (seq_hw_config s)"
  unfolding Let_def
  by (rule unmarked_scale_current)
    (simp add: seq_run_def prepare_sequencer_def)

text \<open>Arming twice before the readout hides a change of the scale: the second time the copy of the mark is
  taken from a mark the first time has just reset, so whatever was edited before, the readout finds
  the scale unchanged although the hardware runs the edited configuration.\<close>

lemma rearm_hides_change:
  "let s = prepare_sequencer (prepare_sequencer (seq_run ops q dw xs (initial_seq cfg)))
   in seq_hw_config s = seq_config (seq_run ops q dw xs (initial_seq cfg)) \<and> \<not> detector_scale_changed s"
  by (simp add: prepare_sequencer_def detector_scale_changed_def Let_def)

end
