(* ===== verification/Detector.thy ===== *)
theory Detector
  imports Sequencer Bunch_Set Events
begin

unbundle bit_operations_syntax

text \<open>
  The detectors (\<^verbatim>\<open>epics/src/detector.c\<close>): arming, and the transposition of the readout into one
  pair of waveforms per detector when a capture is done.  The detector memory holds, for each
  sample, one IQ pair for each enabled detector.  The arithmetic on \<^verbatim>\<open>float\<close> and \<^verbatim>\<open>double\<close> is a
  parameter.
\<close>

section \<open>State\<close>

record detector_config =
  enable :: bool
  scaling :: u16
  bunch_enables :: "bool list"

record 'f detector_bank =
  det_config :: detector_config
  bunch_count :: u32
  enabled :: bool
  output_ovf :: bool
  samples :: u32
  wf_i :: "'f list"
  wf_q :: "'f list"
  wf_power :: "'f list"
  wf_phase :: "'f list"
  max_power :: 'f

datatype detector_input_select = DET_SELECT_ADC | DET_SELECT_FIR | DET_SELECT_REJECT

record ('d, 'f) detector_context =
  banks :: "'f detector_bank list"
  input_select :: detector_input_select
  phase_delay :: u32
  fir_group_delay :: 'd
  underrun :: bool
  detector_count :: u32
  detector_mask :: u32
  scale_samples :: u32
  tune_scale :: "'d list"
  timebase :: "u32 list"
  fill_waveform :: bool
  scale_length :: u32

definition DETECTOR_COUNT :: nat where "DETECTOR_COUNT = 4"

type_synonym detector_result = "u32 \<times> u32"

text \<open>
  The arithmetic: the rotation for a phase delay at a tune, the compensated I and Q of a result,
  zero, the power and the phase of a point, minus infinity and the comparison.
\<close>

record ('d, 'f) detector_ops =
  compensate :: "u32 \<Rightarrow> 'd \<Rightarrow> detector_result \<Rightarrow> 'f \<times> 'f"
  zero_f :: 'f
  power_of :: "'f \<times> 'f \<Rightarrow> 'f"
  phase_of :: "'f \<times> 'f \<Rightarrow> 'f"
  minus_infinity :: 'f
  greater :: "'f \<Rightarrow> 'f \<Rightarrow> bool"

section \<open>Information for the readout\<close>

record detector_info =
  info_mask :: u32
  info_count :: u32
  info_samples :: u32
  info_delay :: u32

definition get_detector_info :: "('d, 'f) detector_context \<Rightarrow> detector_info" where
  "get_detector_info det =
     \<lparr>info_mask = detector_mask det, info_count = detector_count det, info_samples = scale_samples det,
      info_delay = phase_delay det\<rparr>"

section \<open>Waveforms\<close>

text \<open>The state of the loops: the index of the next result, and the I and Q waveforms of the banks.\<close>

type_synonym 'f iq_state = "nat \<times> 'f list list \<times> 'f list list"

definition wf_iq_point ::
  "('d, 'f) detector_ops \<Rightarrow> u32 \<Rightarrow> 'd list \<Rightarrow> detector_result list \<Rightarrow> bool list \<Rightarrow> nat \<Rightarrow> nat \<Rightarrow> 'f iq_state \<Rightarrow> 'f iq_state" where
  "wf_iq_point ops delay scale results enables i j s =
     (if enables ! j
      then (let (r, wi, wq) = s; (vi, vq) = compensate ops delay (scale ! i) (results ! r)
            in (r + 1, wi[j := (wi ! j)[i := vi]], wq[j := (wq ! j)[i := vq]]))
      else s)"

definition compute_wf_iq ::
  "('d, 'f) detector_ops \<Rightarrow> u32 \<Rightarrow> 'd list \<Rightarrow> detector_result list \<Rightarrow> bool list \<Rightarrow> nat \<Rightarrow>
   'f list list \<times> 'f list list \<Rightarrow> 'f list list \<times> 'f list list" where
  "compute_wf_iq ops delay scale results enables n ws =
     snd (fold (\<lambda>i s. fold (wf_iq_point ops delay scale results enables i) [0..<DETECTOR_COUNT] s) [0..<n] (0, ws))"

definition extend_wf :: "'f \<Rightarrow> nat \<Rightarrow> nat \<Rightarrow> bool \<Rightarrow> 'f list \<Rightarrow> 'f list" where
  "extend_wf z len n en wave =
     (if en \<and> n > 0 then map (\<lambda>j. if n \<le> j then wave ! (n - 1) else wave ! j) [0..<len] else replicate len z)"

definition extend_wf_iq ::
  "'f \<Rightarrow> nat \<Rightarrow> nat \<Rightarrow> bool list \<Rightarrow> 'f list list \<times> 'f list list \<Rightarrow> 'f list list \<times> 'f list list" where
  "extend_wf_iq z len n enables ws =
     (map2 (extend_wf z len n) enables (fst ws), map2 (extend_wf z len n) enables (snd ws))"

definition compute_power_phase :: "('d, 'f) detector_ops \<Rightarrow> nat \<Rightarrow> 'f list \<Rightarrow> 'f list \<Rightarrow> 'f detector_bank \<Rightarrow> 'f detector_bank" where
  "compute_power_phase ops len wi wq bank =
     (let ps = map (\<lambda>i. power_of ops (wi ! i, wq ! i)) [0..<len]
      in bank\<lparr>wf_i := wi, wf_q := wq, wf_power := ps, wf_phase := map (\<lambda>i. phase_of ops (wi ! i, wq ! i)) [0..<len],
              max_power := fold (\<lambda>p m. if greater ops p m then p else m) ps (minus_infinity ops)\<rparr>)"

definition update_samples :: "u32 \<Rightarrow> 'f detector_bank \<Rightarrow> 'f detector_bank" where
  "update_samples len bank = bank\<lparr>samples := (if enable (det_config bank) then len else 0)\<rparr>"

definition gather_enables :: "u32 \<Rightarrow> bool list" where
  "gather_enables m = map (\<lambda>i. bit m i) [0..<DETECTOR_COUNT]"

text \<open>\<open>read_det n\<close> is the result of \<^verbatim>\<open>hw_read_det_memory\<close> from the start of the memory.\<close>

definition read_detector_memory ::
  "('d, 'f) detector_ops \<Rightarrow> u32 \<Rightarrow> (nat \<Rightarrow> detector_result list) \<Rightarrow> ('d, 'f) detector_context \<Rightarrow> ('d, 'f) detector_context" where
  "read_detector_memory ops det_len read_det det =
     (let n = unat (min (scale_samples det) det_len);
          len = unat det_len;
          results = read_det (n * unat (detector_count det));
          enables = gather_enables (detector_mask det);
          ws = compute_wf_iq ops (phase_delay det) (tune_scale det) results enables n
                 (map wf_i (banks det), map wf_q (banks det));
          (wi, wq) = extend_wf_iq (zero_f ops) len n enables ws
      in det\<lparr>banks := map (\<lambda>j. update_samples (scale_length det)
               (compute_power_phase ops len (wi ! j) (wq ! j) (banks det ! j))) [0..<DETECTOR_COUNT]\<rparr>)"

definition update_detector_scale ::
  "'d tune_ops \<Rightarrow> u32 \<Rightarrow> seq_context \<Rightarrow> ('d, 'f) detector_context \<Rightarrow> ('d, 'f) detector_context" where
  "update_detector_scale tops det_len seq det =
     (let (n, tunes, times) = read_detector_scale_info tops det_len
            (replicate (unat det_len) (0, 0)) seq
      in det\<lparr>scale_samples := n, tune_scale := tunes, timebase := times,
             scale_length := (if fill_waveform det then det_len else min det_len n)\<rparr>)"

text \<open>\<open>ovf\<close> and \<open>udr\<close> are the events read from the hardware.\<close>

definition update_detector_result ::
  "('d, 'f) detector_ops \<Rightarrow> u32 \<Rightarrow> (nat \<Rightarrow> detector_result list) \<Rightarrow> bool list \<Rightarrow> bool \<Rightarrow>
   ('d, 'f) detector_context \<Rightarrow> ('d, 'f) detector_context" where
  "update_detector_result ops det_len read_det ovf udr det =
     read_detector_memory ops det_len read_det
       (det\<lparr>banks := map (\<lambda>i. (banks det ! i)\<lparr>output_ovf := ovf ! i\<rparr>) [0..<DETECTOR_COUNT],
            underrun := underrun det \<or> udr\<rparr>)"

definition detector_readout_event ::
  "'d tune_ops \<Rightarrow> ('d, 'f) detector_ops \<Rightarrow> u32 \<Rightarrow> (nat \<Rightarrow> detector_result list) \<Rightarrow> bool list \<Rightarrow> bool \<Rightarrow> seq_context \<Rightarrow>
   ('d, 'f) detector_context \<Rightarrow> ('d, 'f) detector_context" where
  "detector_readout_event tops ops det_len read_det ovf udr seq det =
     update_detector_result ops det_len read_det ovf udr
       (if detector_scale_changed seq then update_detector_scale tops det_len seq det else det)"

text \<open>The events of both axes: those whose bit is set in the interrupt mask.\<close>

definition dispatch_detector_event ::
  "(nat \<Rightarrow> ('d, 'f) detector_context \<Rightarrow> ('d, 'f) detector_context) \<Rightarrow> interrupts \<Rightarrow>
   (nat \<Rightarrow> ('d, 'f) detector_context) \<Rightarrow> (nat \<Rightarrow> ('d, 'f) detector_context)" where
  "dispatch_detector_event readout ints dets =
     fold (\<lambda>i dets. if test_intersect ints (seq_done (push_bit i 1 AND 3)) then dets(i := readout i (dets i)) else dets)
       [0..<2] dets"

section \<open>Bunch enables\<close>

text \<open>The enables written are normalised; the bank keeps them and their number.\<close>

definition write_bunch_enables :: "u32 \<Rightarrow> u8 list \<Rightarrow> 'f detector_bank \<Rightarrow> 'f detector_bank \<times> u8 list" where
  "write_bunch_enables bunches es bank =
     (let bs = map (\<lambda>i. es ! i \<noteq> 0) [0..<unat bunches]
      in (bank\<lparr>bunch_count := fold (\<lambda>b n. if b then n + 1 else n) bs 0,
               det_config := (det_config bank)\<lparr>bunch_enables := bs\<rparr>\<rparr>,
          map of_bool bs))"

text \<open>Setting or clearing the enables of the selected bunches; the record written is processed.\<close>

definition enable_selection :: "bool \<Rightarrow> u32 \<Rightarrow> bunch_set \<Rightarrow> u8 list \<Rightarrow> 'f detector_bank \<Rightarrow> 'f detector_bank \<times> u8 list" where
  "enable_selection v bunches bs es bank =
     write_bunch_enables bunches (update_record_with_bunch_set bunches bs (of_bool v) es) bank"

section \<open>Arming\<close>

text \<open>
  \<open>fir_delay\<close> is \<^verbatim>\<open>lround\<close> of the group delay times the decimation and the bunches.  The hardware
  writes are returned.
\<close>

datatype detector_command =
    HwWriteDetConfig detector_input_select u32 "detector_config list"
  | HwWriteDetStart

definition compute_detector_delay_offset ::
  "hardware_delays \<Rightarrow> u32 \<Rightarrow> ('d \<Rightarrow> u32 \<Rightarrow> u32) \<Rightarrow> u32 \<Rightarrow> ('d, 'f) detector_context \<Rightarrow> u32 \<times> u32" where
  "compute_detector_delay_offset hw bunches fir_delay fir_decimation det =
     (case input_select det of
        DET_SELECT_ADC \<Rightarrow> (DET_ADC_DELAY hw + bunches, DET_ADC_OFFSET hw)
      | DET_SELECT_FIR \<Rightarrow>
          (DET_FIR_DELAY hw + fir_delay (fir_group_delay det) (fir_decimation * bunches), DET_FIR_OFFSET hw)
      | DET_SELECT_REJECT \<Rightarrow> (DET_ADC_REJECT_DELAY hw + bunches, DET_ADC_REJECT_OFFSET hw))"

definition count_step :: "detector_config list \<Rightarrow> nat \<Rightarrow> u32 \<times> u32 \<Rightarrow> u32 \<times> u32" where
  "count_step config i cm =
     (if enable (config ! i) then (fst cm + 1, snd cm OR push_bit i 1) else cm)"

definition prepare_detector ::
  "hardware_delays \<Rightarrow> u32 \<Rightarrow> ('d \<Rightarrow> u32 \<Rightarrow> u32) \<Rightarrow> u32 \<Rightarrow> ('d, 'f) detector_context \<Rightarrow>
   ('d, 'f) detector_context \<times> detector_command list" where
  "prepare_detector hw bunches fir_delay fir_decimation det =
     (let (delay, offset) = compute_detector_delay_offset hw bunches fir_delay fir_decimation det;
          config = map (\<lambda>i. det_config (banks det ! i)) [0..<DETECTOR_COUNT];
          (cnt, msk) = fold (count_step config) [0..<DETECTOR_COUNT] (0, 0)
      in (det\<lparr>phase_delay := delay,
              banks := map (\<lambda>i. (banks det ! i)\<lparr>enabled := enable (config ! i)\<rparr>) [0..<DETECTOR_COUNT],
              detector_count := cnt, detector_mask := msk\<rparr>,
          [HwWriteDetConfig (input_select det) offset config, HwWriteDetStart]))"

section \<open>The arming and the readout agree\<close>

definition enabled_below :: "bool list \<Rightarrow> nat \<Rightarrow> nat" where
  "enabled_below enables j = length (filter (\<lambda>i. enables ! i) [0..<j])"

lemma upt_4: "[0..<4] = [0, 1, 2, 3 :: nat]"
  by (simp add: upt_rec)

text \<open>What arming records is what the readout goes by: the mask has the bits of the enabled detectors and
  no others, the count is their number, and each bank is marked as enabled exactly when its
  configuration written to the hardware is.\<close>

theorem arming_records_enables:
  "let (det', cmds) = prepare_detector hw bunches fir_delay fir_decimation det;
       en = map (\<lambda>i. enable (det_config (banks det ! i))) [0..<DETECTOR_COUNT]
   in gather_enables (detector_mask det') = en \<and> unat (detector_count det') = enabled_below en DETECTOR_COUNT \<and>
      map enabled (banks det') = en \<and>
      list_ex (\<lambda>c. case c of HwWriteDetConfig sel off config \<Rightarrow> map enable config = en | _ \<Rightarrow> False) cmds"
  by (cases "enable (det_config (banks det ! 0))"; cases "enable (det_config (banks det ! 1))";
      cases "enable (det_config (banks det ! 2))"; cases "enable (det_config (banks det ! 3))")
    (simp_all add: prepare_detector_def gather_enables_def enabled_below_def count_step_def DETECTOR_COUNT_def upt_4
      Let_def case_prod_unfold bit_simps)

section \<open>The transposition\<close>

lemma enabled_below_Suc: "enabled_below en (Suc j) = enabled_below en j + of_bool (en ! j)"
  by (simp add: enabled_below_def)

lemma wf_iq_points:
  assumes "m \<le> length wi" "m \<le> length wq"
  shows "fold (wf_iq_point ops d sc rs en i) [0..<m] (r, wi, wq) =
    (r + enabled_below en m,
     map (\<lambda>j. if j < m \<and> en ! j then (wi ! j)[i := fst (compensate ops d (sc ! i) (rs ! (r + enabled_below en j)))]
              else wi ! j) [0..<length wi],
     map (\<lambda>j. if j < m \<and> en ! j then (wq ! j)[i := snd (compensate ops d (sc ! i) (rs ! (r + enabled_below en j)))]
              else wq ! j) [0..<length wq])"
  using assms
proof (induction m)
  case 0
  then show ?case by (simp add: enabled_below_def map_nth)
next
  case (Suc m)
  have upd: "(map f [0..<length xs])[m := v] = map (\<lambda>j. if j = m then v else f j) [0..<length xs]" for f v xs
    by (rule nth_equalityI) (simp_all add: nth_list_update)
  show ?case
  proof (cases "en ! m")
    case True
    then show ?thesis using Suc
      by (auto simp: wf_iq_point_def Let_def case_prod_unfold enabled_below_Suc upd less_Suc_eq)
  next
    case False
    then show ?thesis using Suc by (auto simp: wf_iq_point_def enabled_below_Suc less_Suc_eq)
  qed
qed

text \<open>The first \<open>n\<close> points of each waveform of an enabled detector, the others unchanged.\<close>

definition filled ::
  "(nat \<Rightarrow> nat \<Rightarrow> 'f) \<Rightarrow> bool list \<Rightarrow> nat \<Rightarrow> 'f list list \<Rightarrow> 'f list list" where
  "filled v en n ws =
     map (\<lambda>j. if en ! j then map (\<lambda>i. if i < n then v j i else ws ! j ! i) [0..<length (ws ! j)] else ws ! j)
       [0..<length ws]"

definition result_at ::
  "('d, 'f) detector_ops \<Rightarrow> u32 \<Rightarrow> 'd list \<Rightarrow> detector_result list \<Rightarrow> bool list \<Rightarrow> nat \<Rightarrow> nat \<Rightarrow> 'f \<times> 'f" where
  "result_at ops d sc rs en j i =
     compensate ops d (sc ! i) (rs ! (i * enabled_below en DETECTOR_COUNT + enabled_below en j))"

lemma filled_0: "filled v en 0 ws = ws"
  by (rule nth_equalityI) (simp_all add: filled_def map_nth)

lemma filled_Suc:
  "length ws = 4 \<Longrightarrow>
   map (\<lambda>j. if j < DETECTOR_COUNT \<and> en ! j then (filled v en n ws ! j)[n := v j n] else filled v en n ws ! j)
     [0..<length (filled v en n ws)] = filled v en (Suc n) ws"
  by (rule nth_equalityI)
    (auto simp: DETECTOR_COUNT_def filled_def nth_list_update less_Suc_eq intro!: nth_equalityI)

lemma wf_iq_filled:
  assumes "length wi = 4" "length wq = 4"
  shows "fold (\<lambda>i s. fold (wf_iq_point ops d sc rs en i) [0..<DETECTOR_COUNT] s) [0..<n] (0, wi, wq) =
    (n * enabled_below en DETECTOR_COUNT,
     filled (\<lambda>j i. fst (result_at ops d sc rs en j i)) en n wi,
     filled (\<lambda>j i. snd (result_at ops d sc rs en j i)) en n wq)"
proof (induction n)
  case 0
  show ?case by (simp add: filled_0)
next
  case (Suc n)
  have len: "length (filled v en n wi) = 4" "length (filled v en n wq) = 4" for v
    using assms by (simp_all add: filled_def)
  define vi vq where "vi = (\<lambda>j i. fst (result_at ops d sc rs en j i))" and "vq = (\<lambda>j i. snd (result_at ops d sc rs en j i))"
  define A B where "A = filled vi en n wi" and "B = filled vq en n wq"
  have AB: "length A = 4" "length B = 4" using len by (simp_all add: A_def B_def)
  let ?K = "enabled_below en DETECTOR_COUNT"
  have v: "fst (compensate ops d (sc ! n) (rs ! (n * ?K + enabled_below en j))) = vi j n"
    "snd (compensate ops d (sc ! n) (rs ! (n * ?K + enabled_below en j))) = vq j n" for j
    by (simp_all add: vi_def vq_def result_at_def)
  have "DETECTOR_COUNT \<le> length A" "DETECTOR_COUNT \<le> length B" using AB by (simp_all add: DETECTOR_COUNT_def)
  from wf_iq_points[OF this, of ops d sc rs en n "n * ?K"]
  have "fold (wf_iq_point ops d sc rs en n) [0..<DETECTOR_COUNT] (n * ?K, A, B) =
      (n * ?K + ?K, filled vi en (Suc n) wi, filled vq en (Suc n) wq)"
    unfolding v filled_Suc[OF assms(1), of en vi n, folded A_def] filled_Suc[OF assms(2), of en vq n, folded B_def] .
  then show ?case
    using Suc unfolding vi_def[symmetric] vq_def[symmetric] A_def[symmetric] B_def[symmetric] by simp
qed

lemma extend_filled:
  assumes "j < 4" "length ws = 4" "length en = 4" "length (ws ! j) = len" "n \<le> len"
  shows "map2 (extend_wf z len n) en (filled v en n ws) ! j =
    (if en ! j \<and> 0 < n then map (\<lambda>i. v j (min i (n - 1))) [0..<len] else replicate len z)"
  using assms by (auto simp: extend_wf_def filled_def min_def intro!: nth_equalityI)


text \<open>C16 Every detector gets its own results: after a readout each waveform of an enabled detector holds, for
  each captured sample, the compensated result at that detector's place among the enabled ones in
  that sample, and from the last sample on its value; the waveforms of the others are zero.\<close>

theorem detector_waveforms:
  assumes "length (banks det) = 4" "list_all (\<lambda>b. length (wf_i b) = unat det_len \<and> length (wf_q b) = unat det_len) (banks det)"
    and "j < 4"
  shows "let det' = read_detector_memory ops det_len read_det det;
             n = min (unat (scale_samples det)) (unat det_len);
             en = gather_enables (detector_mask det);
             results = read_det (n * unat (detector_count det));
             value = (\<lambda>i. result_at ops (phase_delay det) (tune_scale det) results en j (min i (n - 1)))
         in wf_i (banks det' ! j) =
              (if en ! j \<and> 0 < n then map (\<lambda>i. fst (value i)) [0..<unat det_len] else replicate (unat det_len) (zero_f ops)) \<and>
            wf_q (banks det' ! j) =
              (if en ! j \<and> 0 < n then map (\<lambda>i. snd (value i)) [0..<unat det_len] else replicate (unat det_len) (zero_f ops))"
proof -
  let ?n = "min (unat (scale_samples det)) (unat det_len)"
  let ?en = "gather_enables (detector_mask det)"
  have n: "unat (min (scale_samples det) det_len) = ?n"
    by (simp add: min_def word_le_nat_alt)
  have en: "length ?en = 4" by (simp add: gather_enables_def DETECTOR_COUNT_def)
  have len: "length (wf_i (banks det ! j)) = unat det_len" "length (wf_q (banks det ! j)) = unat det_len"
    using assms by (simp_all add: list_all_length)
  note ex = extend_filled[OF assms(3) _ en, of _ "unat det_len" ?n]
  have j: "j < DETECTOR_COUNT" using assms(3) by (simp add: DETECTOR_COUNT_def)
  show ?thesis
    using assms(1,3) len j
    by (simp add: read_detector_memory_def compute_wf_iq_def wf_iq_filled extend_wf_iq_def n ex Let_def
        compute_power_phase_def update_samples_def)
qed

definition plain_detector_ops :: "(nat, nat) detector_ops" where
  "plain_detector_ops = \<lparr>compensate = (\<lambda>d t (i, q). (unat i, unat q)), zero_f = 0, power_of = fst, phase_of = snd,
     minus_infinity = 0, greater = (>)\<rparr>"

definition plain_bank :: "bool \<Rightarrow> nat detector_bank" where
  "plain_bank en = \<lparr>det_config = \<lparr>enable = en, scaling = 0, bunch_enables = []\<rparr>, bunch_count = 0, enabled = en,
     output_ovf = False, samples = 0, wf_i = [0, 0, 0], wf_q = [0, 0, 0], wf_power = [], wf_phase = [], max_power = 0\<rparr>"

definition plain_detector :: "(nat, nat) detector_context" where
  "plain_detector = \<lparr>banks = map plain_bank [True, False, True, False], input_select = DET_SELECT_ADC, phase_delay = 0,
     fir_group_delay = 0, underrun = False, detector_count = 2, detector_mask = 5, scale_samples = 2,
     tune_scale = [0, 0, 0], timebase = [0, 0, 0], fill_waveform = False, scale_length = 2\<rparr>"

lemma detector_waveforms_witness:
  "wf_i (banks (read_detector_memory plain_detector_ops 3 (\<lambda>n. [(1, 2), (3, 4), (5, 6), (7, 8)]) plain_detector) ! 2) =
     [3, 7, 7]"
proof -
  let ?rd = "\<lambda>n :: nat. [(1, 2), (3, 4), (5, 6), (7, 8)] :: detector_result list"
  have a: "length (banks plain_detector) = 4"
    "list_all (\<lambda>b. length (wf_i b) = unat (3 :: u32) \<and> length (wf_q b) = unat (3 :: u32)) (banks plain_detector)"
    "(2 :: nat) < 4" by (simp_all add: plain_detector_def plain_bank_def)
  have d: "detector_mask plain_detector = 5" "scale_samples plain_detector = 2" "detector_count plain_detector = 2"
    by (simp_all add: plain_detector_def)
  have en: "gather_enables 5 = [True, False, True, False]"
    by (simp add: gather_enables_def DETECTOR_COUNT_def upt_4)
  have k: "enabled_below [True, False, True, False] DETECTOR_COUNT = 2" "enabled_below [True, False, True, False] 2 = 1"
    by (simp_all add: enabled_below_def DETECTOR_COUNT_def upt_4 upt_rec)
  have u: "[0..<3] = [0, 1, 2 :: nat]" by (simp add: upt_rec)
  show ?thesis
    using detector_waveforms[OF a, of plain_detector_ops ?rd]
    by (simp add: d en k u result_at_def Let_def plain_detector_ops_def plain_detector_def)
qed

section \<open>The scale of a readout\<close>

lemma scale_frame [simp]:
  "scale_samples (update_detector_result ops det_len rd ovf udr det) = scale_samples det"
  "tune_scale (update_detector_result ops det_len rd ovf udr det) = tune_scale det"
  "timebase (update_detector_result ops det_len rd ovf udr det) = timebase det"
  by (simp_all add: update_detector_result_def read_detector_memory_def Let_def case_prod_unfold)

text \<open>When the scale is marked as changed the readout publishes the scale of the program in the hardware:
  the number of samples, and for each of them its tune and time.\<close>

theorem readout_scale_exact:
  assumes "detector_scale_changed seq" "length (scale_of (seq_hw_config seq)) < 2 ^ 32"
  shows "let det' = detector_readout_event tops ops det_len rd ovf udr seq det;
             pts = scale_of (seq_hw_config seq);
             point = (\<lambda>i. if i < length pts then pts ! i else final_point (seq_hw_config seq))
         in unat (scale_samples det') = length pts \<and>
            tune_scale det' = map (\<lambda>i. freq_to_tune tops (fst (point i))) [0..<unat det_len] \<and>
            timebase det' = map (\<lambda>i. snd (point i)) [0..<unat det_len]"
proof -
  let ?b = "replicate (unat det_len) (0, 0) :: (u64 \<times> u32) list"
  have "unat (0 :: u32) + length ?b < 2 ^ 32" using unsigned_less[of det_len, where ?'a = nat] by simp
  from scale_info_ok[OF assms(2) this] show ?thesis
    using assms
    by (auto simp: detector_readout_event_def update_detector_scale_def read_detector_scale_info_def Let_def
        case_prod_unfold unat_small)
qed

lemma readout_scale_exact_witness:
  "let seq = prepare_sequencer (initial_seq plain_config);
       det' = detector_readout_event plain_ops plain_detector_ops 2 (\<lambda>n. []) [False, False, False, False] False seq plain_detector
   in unat (scale_samples det') = 1 \<and> timebase det' = [0, 1]"
proof -
  let ?seq = "prepare_sequencer (initial_seq plain_config)"
  have c: "detector_scale_changed ?seq"
    by (simp add: detector_scale_changed_def prepare_sequencer_def initial_seq_def)
  have h: "seq_hw_config ?seq = plain_config" by (simp add: prepare_sequencer_def initial_seq_def)
  have s: "scale_of plain_config = [(0, 0)]"
    by (simp add: scale_of_def seq_program_def plain_config_def entry_points_def)
  have f: "final_point plain_config = (0, 1)"
    by (simp add: final_point_def seq_program_def plain_config_def scale_state_def scale_step_def write_scale_point_def)
  have l: "length (scale_of (seq_hw_config ?seq)) < 2 ^ 32" by (simp add: h s)
  have u: "[0..<2] = [0, 1 :: nat]" by (simp add: upt_rec)
  show ?thesis
    using readout_scale_exact[OF c l, of plain_ops plain_detector_ops 2 "\<lambda>n. []" "[False, False, False, False]" False plain_detector]
    by (simp add: h s f u Let_def)
qed

text \<open>A sequencer that is armed twice before its readout (armed, disarmed and armed again) is read out with
  the old scale: whatever the operator has changed, the scale, the times and the number of samples
  published stay those of the last readout, although the hardware runs the changed program.\<close>

theorem rearmed_readout_stale:
  "let edited = seq_run tops q dw xs (initial_seq cfg);
       seq = prepare_sequencer (prepare_sequencer edited);
       det' = detector_readout_event tops ops det_len rd ovf udr seq det
   in seq_hw_config seq = seq_config edited \<and> scale_samples det' = scale_samples det \<and>
      tune_scale det' = tune_scale det \<and> timebase det' = timebase det"
  using rearm_hides_change[of tops q dw xs cfg] by (simp add: Let_def detector_readout_event_def)

end
