(* ===== verification/Detector_Command.thy ===== *)
theory Detector_Command
  imports Memory_Command Detector
begin

text \<open>
  The detector command (\<^verbatim>\<open>process_detector_command\<close> in \<^verbatim>\<open>epics/src/socket_command.c\<close>): the results of
  the last capture, the frequency scale and the timebase, sent in blocks.  A block for which the
  scale is computed outside of the program writes outside of its buffer; its outcome is \<open>None\<close>.
\<close>

section \<open>Arguments\<close>

record detector_args =
  det_axis :: int
  det_framed :: bool
  scale :: bool
  long_scale :: bool
  det_timebase :: bool
  det_locking :: lock_parse

definition parse_detector_opts :: "(bool \<times> bool \<times> bool \<times> bool) arg_parser" where
  "parse_detector_opts =
     abind (aread (CHR ''F'')) (\<lambda>f. abind (aread (CHR ''S'')) (\<lambda>s.
     abind (if s then aread (CHR ''L'') else aret False) (\<lambda>l. abind (aread (CHR ''T'')) (\<lambda>t.
       aret (f, s, l, t)))))"

definition parse_detector_args :: "bool \<Rightarrow> string \<Rightarrow> 'e command_error + detector_args" where
  "parse_detector_args raw_mode command =
     (case abind (lift parse_int) (\<lambda>axis. abind parse_detector_opts (\<lambda>(f, s, l, t). abind parse_lock (\<lambda>lk.
             abind (lift parse_eos) (\<lambda>_. aret \<lparr>det_axis = sint axis, det_framed = f, scale = s, long_scale = l,
               det_timebase = t, det_locking = lk\<rparr>)))) command of
        (Inl e, r) \<Rightarrow> Inl (fixup_parse_error e command r raw_mode)
      | (Inr a, r) \<Rightarrow> Inr a)"

section \<open>Reading and sending\<close>

definition le8 :: "u32 \<Rightarrow> string" where
  "le8 w = [char_of (unat (w AND 0xFF))]"

definition le64 :: "u64 \<Rightarrow> string" where
  "le64 w = le32 (ucast w) @ le32 (ucast (drop_bit 32 w))"

definition result_bytes :: "detector_result \<Rightarrow> string" where
  "result_bytes r = le32 (fst r) @ le32 (snd r)"

definition detector_frame :: "u32 \<Rightarrow> detector_info \<Rightarrow> string" where
  "detector_frame bpt info =
     le8 (info_count info) @ le8 (info_mask info) @ le16 (ucast (info_delay info)) @
     le32 (info_samples info) @ le32 bpt"

definition write_detector_info :: "u32 \<Rightarrow> detector_info \<Rightarrow> buffered_file \<Rightarrow> buffered_file" where
  "write_detector_info bpt info f = put_block (detector_frame bpt info) f"

text \<open>The readers: the bytes of \<open>n\<close> samples from \<open>offset\<close> on.  A result is eight bytes long.\<close>

definition read_detector_samples ::
  "(nat \<Rightarrow> u32 \<Rightarrow> detector_result list) \<Rightarrow> u32 \<Rightarrow> nat \<Rightarrow> nat \<Rightarrow> string option" where
  "read_detector_samples read_det sample_size offset n =
     (let sample_count = unat (sample_size div 8 * of_nat n)
      in Some (concat (map result_bytes (read_det sample_count (sample_size * of_nat offset)))))"

definition scale_block :: "sequencer_config \<Rightarrow> nat \<Rightarrow> nat \<Rightarrow> (u64 \<times> u32) list option" where
  "scale_block cfg offset n =
     (let s = snd (compute_scale_info cfg (replicate n (0, 0)) (of_nat offset) (of_nat n))
      in if overrun s then None else Some (scale_points s))"

definition read_detector_scale :: "sequencer_config \<Rightarrow> nat \<Rightarrow> nat \<Rightarrow> string option" where
  "read_detector_scale cfg offset n =
     map_option (\<lambda>ps. concat (map (\<lambda>p. le32 (ucast (drop_bit 16 (fst p)))) ps)) (scale_block cfg offset n)"

definition read_detector_scale_long :: "sequencer_config \<Rightarrow> nat \<Rightarrow> nat \<Rightarrow> string option" where
  "read_detector_scale_long cfg offset n =
     map_option (\<lambda>ps. concat (map (\<lambda>p. le64 (fst p)) ps)) (scale_block cfg offset n)"

definition read_detector_timebase :: "sequencer_config \<Rightarrow> nat \<Rightarrow> nat \<Rightarrow> string option" where
  "read_detector_timebase cfg offset n =
     map_option (\<lambda>ps. concat (map (\<lambda>p. le32 (snd p)) ps)) (scale_block cfg offset n)"

definition send_detector_data ::
  "nat \<Rightarrow> nat \<Rightarrow> (nat \<Rightarrow> nat \<Rightarrow> string option) \<Rightarrow> buffered_file \<Rightarrow> buffered_file option" where
  "send_detector_data n sample_size read_samples f =
     send_chunks (READ_BUFFER_BYTES div sample_size)
       (\<lambda>start w f. map_option (\<lambda>b. put_block b f) (read_samples start w)) 0 n f"

definition when_some :: "bool \<Rightarrow> (buffered_file \<Rightarrow> buffered_file option) \<Rightarrow> buffered_file option \<Rightarrow> buffered_file option" where
  "when_some b g r = (case r of None \<Rightarrow> None | Some f \<Rightarrow> if b then g f else Some f)"

definition send_detector_result ::
  "(nat \<Rightarrow> u32 \<Rightarrow> detector_result list) \<Rightarrow> sequencer_config \<Rightarrow> u32 \<Rightarrow> detector_args \<Rightarrow> detector_info \<Rightarrow>
   buffered_file \<Rightarrow> buffered_file option" where
  "send_detector_result read_det cfg bpt a info f =
     (let n = unat (info_samples info); sample_size = info_count info * 8;
          f = (if det_framed a then write_detector_info bpt info f else f)
      in when_some (det_timebase a) (send_detector_data n 4 (read_detector_timebase cfg))
          (when_some (scale a)
             (if long_scale a then send_detector_data n 8 (read_detector_scale_long cfg)
              else send_detector_data n 4 (read_detector_scale cfg))
             (send_detector_data n (unat sample_size) (read_detector_samples read_det sample_size) f)))"

definition AXIS_COUNT :: int where "AXIS_COUNT = 2"

text \<open>
  \<open>info\<close> and \<open>cfg\<close> give for each axis the detector information and the configuration in the
  hardware once the lock is held; \<open>read_det\<close> reads the memory of an axis.
\<close>

definition process_detector_command ::
  "(nat \<Rightarrow> nat \<Rightarrow> u32 \<Rightarrow> detector_result list) \<Rightarrow> (nat \<Rightarrow> sequencer_config) \<Rightarrow> (nat \<Rightarrow> detector_info) \<Rightarrow> u32 \<Rightarrow> bool \<Rightarrow>
   'e command_env \<Rightarrow> bool \<Rightarrow> string \<Rightarrow> buffered_file \<Rightarrow> tt_world \<Rightarrow>
   ('e command_error option \<times> buffered_file \<times> tt_world) option" where
  "process_detector_command read_det cfg info bpt lmbf env raw_mode command f w =
     (case parse_detector_args raw_mode command of
        Inl e \<Rightarrow> Some (Some e, f, w)
      | Inr a \<Rightarrow>
        if \<not> (0 \<le> det_axis a \<and> det_axis a < (if lmbf then 1 else AXIS_COUNT)) then Some (Some InvalidAxisNumber, f, w)
        else let axis = nat (det_axis a); i = get_sequencer_trigger_target axis
          in (case wait_for_lock i (det_locking a) env w of
            None \<Rightarrow> None
          | Some (Some e, w') \<Rightarrow> Some (Some e, f, w')
          | Some (None, w') \<Rightarrow>
            let done = release_lock i (det_locking a) (tt_run (meanwhile env) w')
            in if \<not> info_count (info axis) > 0 then Some (Some NoDetectorsEnabled, f, done)
               else (case send_detector_result (read_det axis) (cfg axis) bpt a (info axis) (ack raw_mode f) of
                 None \<Rightarrow> None
               | Some f' \<Rightarrow> Some (None, f', done))))"

section \<open>The senders\<close>

text \<open>The memory of an axis as consecutive results.\<close>

definition det_law :: "(nat \<Rightarrow> u32 \<Rightarrow> detector_result list) \<Rightarrow> (nat \<Rightarrow> detector_result) \<Rightarrow> bool" where
  "det_law read_det dmem \<longleftrightarrow> (\<forall>n off. read_det n off = map (\<lambda>k. dmem (unat off div 8 + k)) [0..<n])"

definition result_item :: "(nat \<Rightarrow> detector_result) \<Rightarrow> nat \<Rightarrow> nat \<Rightarrow> string" where
  "result_item dmem c i = concat (map (\<lambda>k. result_bytes (dmem (i * c + k))) [0..<c])"

lemma blocks_of_items:
  "concat (map (\<lambda>k. g (start * c + k)) [0..<c * w]) = concat (map (\<lambda>i. concat (map (\<lambda>k. g (i * c + k)) [0..<c])) [start..<start + w])"
proof (induction w)
  case (Suc w)
  have "[0..<c * Suc w] = [0..<c * w] @ map (\<lambda>k. c * w + k) [0..<c]"
    by (rule nth_equalityI) (simp_all add: nth_append)
  then show ?case using Suc by (simp add: comp_def algebra_simps)
qed simp

lemma unat_mult32: "unat x * unat y < 2 ^ 32 \<Longrightarrow> unat (x * y) = unat x * unat y" for x y :: u32
  using unat_mult_lem[of x y] by simp

lemma results_sender:
  assumes "det_law read_det dmem" "0 < unat c" "8 * unat c * limit < 2 ^ 32" "8 * unat c < 2 ^ 32"
  shows "bounded_sender (\<lambda>start w f. map_option (\<lambda>b. put_block b f) (read_detector_samples read_det (c * 8) start w))
    written (\<lambda>_. output_ok) (result_item dmem (unat c)) 1 limit"
proof (unfold_locales, goal_cases)
  case (1 start f w)
  have c8: "unat (c * 8) = 8 * unat c" using assms(4) unat_mult32[of c 8] by simp
  have le: "8 * unat c * start \<le> 8 * unat c * limit" "8 * unat c * w \<le> 8 * unat c * limit"
    using 1(4) by (simp_all add: mult_le_mono)
  note small = le_less_trans[OF le(1) assms(3)] le_less_trans[OF le(2) assms(3)]
  have "1 \<le> 8 * unat c" "unat c \<le> 8 * unat c" using assms(2) by simp_all
  then have up: "start \<le> 8 * unat c * start" "w \<le> 8 * unat c * w" "unat c * w \<le> 8 * unat c * w"
    using mult_le_mono1[of 1 "8 * unat c"] mult_le_mono1[of "unat c" "8 * unat c"] by fastforce+
  from le_less_trans[OF up(1) small(1)] le_less_trans[OF up(2) small(2)] le_less_trans[OF up(3) small(2)]
  have sw: "unat (of_nat start :: u32) = start" "unat (of_nat w :: u32) = w" "unat c * w < 2 ^ 32"
    by (simp_all add: unat_small)
  have "unat (c * 8 div 8) = unat c" using c8 by (simp add: unat_div)
  then have cnt: "unat (c * 8 div 8 * of_nat w) = unat c * w" using unat_mult32 sw by simp
  have off: "unat (c * 8 * of_nat start) = 8 * unat c * start" using unat_mult32 c8 sw small(1) by simp
  have d: "unat (c * 8 * of_nat start) div 8 = start * unat c" unfolding off by (simp add: mult.assoc)
  have "read_det (unat (c * 8 div 8 * of_nat w)) (c * 8 * of_nat start) =
      map (\<lambda>k. dmem (start * unat c + k)) [0..<unat c * w]"
    using assms(1) unfolding det_law_def by (simp only: cnt d)
  then have "concat (map result_bytes (read_det (unat (c * 8 div 8 * of_nat w)) (c * 8 * of_nat start))) =
      concat (map (\<lambda>k. result_bytes (dmem (start * unat c + k))) [0..<unat c * w])"
    by (simp only: map_map comp_def)
  then have "read_detector_samples read_det (c * 8) start w =
      Some (concat (map (result_item dmem (unat c)) [start..<start + w]))"
    using blocks_of_items[of "\<lambda>k. result_bytes (dmem k)" start "unat c" w]
    by (simp only: read_detector_samples_def Let_def result_item_def[abs_def])
  then show ?case using 1(1) by (simp add: block_sink.put_content block_sink.put_good)
qed

text \<open>The scale in terms of the program.\<close>

definition scale_point :: "sequencer_config \<Rightarrow> nat \<Rightarrow> u64 \<times> u32" where
  "scale_point cfg i = (if i < length (scale_of cfg) then scale_of cfg ! i else final_point cfg)"

lemma scale_block_ok:
  assumes "length (scale_of cfg) < 2 ^ 32" "start + w \<le> length (scale_of cfg)"
  shows "scale_block cfg start w = Some (map (scale_point cfg) [start..<start + w])"
proof -
  have u: "unat (of_nat start :: u32) = start" using assms by (intro unat_small) linarith
  from assms have "unat (of_nat start :: u32) + length (replicate w (0, 0) :: (u64 \<times> u32) list) < 2 ^ 32" unfolding u by simp
  from scale_info_ok[OF assms(1) this] show ?thesis using assms u
    by (auto simp: scale_block_def scale_point_def)
qed

lemma scale_sender:
  assumes "length (scale_of cfg) < 2 ^ 32"
  shows "bounded_sender (\<lambda>start w f. map_option (\<lambda>b. put_block b f)
      (map_option (\<lambda>ps. concat (map g ps)) (scale_block cfg start w)))
    written (\<lambda>_. output_ok) (\<lambda>i. g (scale_point cfg i)) 1 (length (scale_of cfg))"
proof (unfold_locales, goal_cases)
  case (1 start f w)
  then show ?case
    using scale_block_ok[OF assms 1(4)]
    by (simp add: block_sink.put_content block_sink.put_good comp_def)
qed

lemma send_scale_ok:
  assumes "length (scale_of cfg) < 2 ^ 32" "n \<le> length (scale_of cfg)" "output_ok f" "0 < READ_BUFFER_BYTES div sz"
  shows "\<exists>f'. send_detector_data n sz (\<lambda>offset n. map_option (\<lambda>ps. concat (map g ps)) (scale_block cfg offset n)) f = Some f' \<and>
    output_ok f' \<and> written f' = written f @ concat (map (\<lambda>i. g (scale_point cfg i)) [0..<n])"
  using bounded_sender.bounded_chunks_ok[OF scale_sender[OF assms(1), of g] assms(3,4), of 0 n] assms(2)
  by (simp add: send_detector_data_def)

lemma send_results_ok:
  assumes "det_law read_det dmem" "0 < unat c" "8 * unat c * n < 2 ^ 32" "8 * unat c \<le> READ_BUFFER_BYTES" "output_ok f"
  shows "\<exists>f'. send_detector_data n (unat (c * 8)) (read_detector_samples read_det (c * 8)) f = Some f' \<and>
    output_ok f' \<and> written f' = written f @ concat (map (result_item dmem (unat c)) [0..<n])"
proof -
  have c: "8 * unat c < 2 ^ 32" using assms(4) by (simp add: READ_BUFFER_BYTES_def)
  then have c8: "unat (c * 8) = 8 * unat c" using unat_mult32[of c 8] by simp
  have "0 < READ_BUFFER_BYTES div unat (c * 8)" using assms(2,4) by (simp add: c8 div_greater_zero_iff)
  from bounded_sender.bounded_chunks_ok[OF results_sender[OF assms(1-3) c] assms(5) this, of 0 n]
  show ?thesis by (simp add: send_detector_data_def)
qed

section \<open>The reply\<close>

definition detector_reply_bytes ::
  "(nat \<Rightarrow> detector_result) \<Rightarrow> sequencer_config \<Rightarrow> u32 \<Rightarrow> bool \<Rightarrow> detector_args \<Rightarrow> detector_info \<Rightarrow> string" where
  "detector_reply_bytes dmem cfg bpt raw_mode a info =
     (let n = unat (info_samples info)
      in (if raw_mode then [] else [char_of (0 :: nat)]) @
         (if det_framed a then detector_frame bpt info else []) @
         concat (map (result_item dmem (unat (info_count info))) [0..<n]) @
         (if scale a then concat (map (\<lambda>i. if long_scale a then le64 (fst (scale_point cfg i))
             else le32 (ucast (drop_bit 16 (fst (scale_point cfg i))))) [0..<n]) else []) @
         (if det_timebase a then concat (map (\<lambda>i. le32 (snd (scale_point cfg i))) [0..<n]) else []))"

lemma when_some_ok:
  assumes "\<exists>f'. r = Some f' \<and> output_ok f' \<and> written f' = xs"
    and "\<And>f. output_ok f \<Longrightarrow> \<exists>f'. g f = Some f' \<and> output_ok f' \<and> written f' = written f @ ys"
  shows "\<exists>f'. when_some b g r = Some f' \<and> output_ok f' \<and> written f' = xs @ (if b then ys else [])"
  using assms by (auto simp: when_some_def)

lemma detector_result_ok:
  assumes "det_law read_det dmem" "info_count info > 0" "8 * unat (info_count info) * unat (info_samples info) < 2 ^ 32"
    and "8 * unat (info_count info) \<le> READ_BUFFER_BYTES"
    and "length (scale_of cfg) < 2 ^ 32" "unat (info_samples info) \<le> length (scale_of cfg)" "output_ok f"
  shows "\<exists>f'. send_detector_result read_det cfg bpt a info (ack raw_mode f) = Some f' \<and> output_ok f' \<and>
    written f' = written f @ detector_reply_bytes dmem cfg bpt raw_mode a info"
proof -
  let ?f = "if det_framed a then write_detector_info bpt info (ack raw_mode f) else ack raw_mode f"
  have f: "output_ok ?f" "written ?f = written f @ (if raw_mode then [] else [char_of (0 :: nat)]) @
      (if det_framed a then detector_frame bpt info else [])"
    using ack_ok[OF assms(7), of raw_mode]
    by (simp_all add: write_detector_info_def block_sink.put_content block_sink.put_good)
  have pos: "0 < unat (info_count info)" using assms(2) by (simp add: word_greater_zero_iff unat_gt_0)
  have r: "0 < READ_BUFFER_BYTES div 4" "0 < READ_BUFFER_BYTES div 8" by (simp_all add: READ_BUFFER_BYTES_def)
  note results = send_results_ok[OF assms(1) pos assms(3,4) f(1)]
  note part = send_scale_ok[OF assms(5,6)]
  have sc: "\<exists>f'. (if long_scale a then send_detector_data (unat (info_samples info)) 8 (read_detector_scale_long cfg)
          else send_detector_data (unat (info_samples info)) 4 (read_detector_scale cfg)) f = Some f' \<and> output_ok f' \<and>
      written f' = written f @ concat (map (\<lambda>i. if long_scale a then le64 (fst (scale_point cfg i))
             else le32 (ucast (drop_bit 16 (fst (scale_point cfg i))))) [0..<unat (info_samples info)])"
    if "output_ok f" for f
    using part[OF that r(2), of "\<lambda>p. le64 (fst p)"] part[OF that r(1), of "\<lambda>p. le32 (ucast (drop_bit 16 (fst p)))"]
    by (simp add: read_detector_scale_long_def[abs_def] read_detector_scale_def[abs_def])
  have tb: "\<exists>f'. send_detector_data (unat (info_samples info)) 4 (read_detector_timebase cfg) f = Some f' \<and> output_ok f' \<and>
      written f' = written f @ concat (map (\<lambda>i. le32 (snd (scale_point cfg i))) [0..<unat (info_samples info)])"
    if "output_ok f" for f
    using part[OF that r(1), of "\<lambda>p. le32 (snd p)"] by (simp add: read_detector_timebase_def[abs_def])
  from when_some_ok[OF when_some_ok[OF results sc] tb, of "det_timebase a" "scale a"] f(2)
  show ?thesis by (simp add: send_detector_result_def detector_reply_bytes_def Let_def)
qed

lemma detector_command_reply:
  fixes env :: "'e command_env"
  assumes "parse_detector_args raw_mode command = (Inr a :: 'e command_error + detector_args)"
    and "0 \<le> det_axis a" "det_axis a < (if lmbf then 1 else AXIS_COUNT)"
    and "axis = nat (det_axis a)" "i = get_sequencer_trigger_target axis"
    and "wait_for_lock i (det_locking a) env w = Some (None, w')"
    and "det_law (read_det axis) dmem" "info_count (info axis) > 0"
    and "8 * unat (info_count (info axis)) * unat (info_samples (info axis)) < 2 ^ 32"
    and "8 * unat (info_count (info axis)) \<le> READ_BUFFER_BYTES"
    and "length (scale_of (cfg axis)) < 2 ^ 32" "unat (info_samples (info axis)) \<le> length (scale_of (cfg axis))"
    and "output_ok f"
  shows "\<exists>f'. process_detector_command read_det cfg info bpt lmbf env raw_mode command f w =
      Some (None, f', release_lock i (det_locking a) (tt_run (meanwhile env) w')) \<and>
    output_ok f' \<and> written f' = written f @ detector_reply_bytes dmem (cfg axis) bpt raw_mode a (info axis)"
  using detector_result_ok[OF assms(7-13), of bpt a raw_mode] assms(1-6,8)
  by (auto simp: process_detector_command_def Let_def)

text \<open>C17 The reply to a detector command is what it should be, and the command returns: after the
  acknowledgement and the frame come the results of every sample, then if asked for the frequency
  of every sample, in 64 bits or its upper part in 32, and its time, as the program in the hardware
  defines them, independent of the blocks; then the lock is released.  This holds when the program
  still has the samples the detector counted.\<close>

theorem detector_reply:
  fixes env :: "'e command_env"
  assumes "parse_detector_args raw_mode command = (Inr a :: 'e command_error + detector_args)"
    and "0 \<le> det_axis a" "det_axis a < (if lmbf then 1 else AXIS_COUNT)"
    and "axis = nat (det_axis a)" "i = get_sequencer_trigger_target axis"
    and "wait_for_lock i (det_locking a) env w = Some (None, w')"
    and "det_law (read_det axis) dmem" "info_count (info axis) > 0"
    and "8 * unat (info_count (info axis)) * unat (info_samples (info axis)) < 2 ^ 32"
    and "8 * unat (info_count (info axis)) \<le> READ_BUFFER_BYTES"
    and "length (scale_of (cfg axis)) < 2 ^ 32" "unat (info_samples (info axis)) \<le> length (scale_of (cfg axis))"
    and "output_ok f"
  shows "\<exists>f'. process_detector_command read_det cfg info bpt lmbf env raw_mode command f w =
      Some (None, f', release_lock i (det_locking a) (tt_run (meanwhile env) w')) \<and>
    output_ok f' \<and> written f' = written f @ detector_reply_bytes dmem (cfg axis) bpt raw_mode a (info axis)"
  by (rule detector_command_reply) fact+

definition sample_info :: detector_info where
  "sample_info = \<lparr>info_mask = 1, info_count = 1, info_samples = 1, info_delay = 0\<rparr>"

lemma sample_detector_parse:
  "parse_detector_args True ''0T'' = (Inr \<lparr>det_axis = 0, det_framed = False, scale = False, long_scale = False,
     det_timebase = True, det_locking = \<lparr>lock = False, timeout = 0\<rparr>\<rparr> :: nat command_error + detector_args)"
proof -
  have "scan_number ''0T'' = Some (False, 0, ''T'')" by code_simp
  then have "parse_int ''0T'' = (Inr 0, ''T'')" by (simp add: parse_int_def parse_num_def strtol_def)
  then show ?thesis
    by (simp add: parse_detector_args_def parse_detector_opts_def abind_def lift_def aread_def aret_def
        parse_lock_def read_char_def parse_eos_def)
qed

lemma detector_reply_witness:
  "\<exists>f' w'. process_detector_command (\<lambda>axis n off. replicate n (7, 9)) (\<lambda>_. plain_config) (\<lambda>_. sample_info) 2 False
      (sample_env\<lparr>meanwhile := []\<rparr>) True ''0T'' (create_buffered_file 8 4 [] [Some 1]) (start_world sample_config) = Some (None, f', w') \<and>
    written f' = le32 7 @ le32 9 @ le32 0"
proof -
  let ?a = "\<lparr>det_axis = 0, det_framed = False, scale = False, long_scale = False,
     det_timebase = True, det_locking = \<lparr>lock = False, timeout = 0\<rparr>\<rparr>"
  have law: "det_law ((\<lambda>axis n off. replicate n (7, 9)) (0 :: nat)) (\<lambda>k. (7, 9))"
    by (simp add: det_law_def map_replicate_trivial)
  have a: "0 \<le> det_axis ?a" "det_axis ?a < (if False then 1 else AXIS_COUNT)" "0 = nat (det_axis ?a)"
    by (simp_all add: AXIS_COUNT_def)
  have w: "wait_for_lock (get_sequencer_trigger_target 0) (det_locking ?a) (sample_env\<lparr>meanwhile := []\<rparr>)
      (start_world sample_config) = Some (None, start_world sample_config)"
    by (simp add: wait_for_lock_def)
  have s: "scale_of plain_config = [(0, 0)]"
    by (simp add: scale_of_def seq_program_def plain_config_def entry_points_def)
  have i: "info_count ((\<lambda>_ :: nat. sample_info) 0) > 0"
    "8 * unat (info_count ((\<lambda>_ :: nat. sample_info) 0)) * unat (info_samples ((\<lambda>_ :: nat. sample_info) 0)) < 2 ^ 32"
    "8 * unat (info_count ((\<lambda>_ :: nat. sample_info) 0)) \<le> READ_BUFFER_BYTES"
    "length (scale_of ((\<lambda>_ :: nat. plain_config) 0)) < 2 ^ 32"
    "unat (info_samples ((\<lambda>_ :: nat. sample_info) 0)) \<le> length (scale_of ((\<lambda>_ :: nat. plain_config) 0))"
    by (simp_all add: sample_info_def READ_BUFFER_BYTES_def s)
  note r = detector_reply[where read_det = "\<lambda>axis n off. replicate n (7, 9)" and cfg = "\<lambda>_. plain_config" and info = "\<lambda>_. sample_info",
      OF sample_detector_parse a refl w law i sample_facts(2), of 2]
  have b: "detector_reply_bytes (\<lambda>k. (7, 9)) plain_config 2 True ?a sample_info = le32 7 @ le32 9 @ le32 0"
    by (simp add: detector_reply_bytes_def sample_info_def result_item_def result_bytes_def scale_point_def s)
  show ?thesis using r unfolding b sample_written by auto
qed


end
