(* ===== verification/Registers.thy ===== *)
theory Registers
  imports Trigger_Target
begin

unbundle bit_operations_syntax

text \<open>
  Access to the registers of the firmware (\<^verbatim>\<open>epics/src/hardware.c\<close>).  A register is a 32-bit word
  with fields; the layout of each register is that of \<^verbatim>\<open>AMC525/vhd/register_defs.in\<close>, from which the
  structures the source uses are generated with their fields packed from bit 0.  Assigning to a
  field keeps the low bits of the value.
\<close>

section \<open>Fields\<close>

definition get_field :: "nat \<Rightarrow> nat \<Rightarrow> u32 \<Rightarrow> u32" where
  "get_field off w r = take_bit w (drop_bit off r)"

definition put_field :: "nat \<Rightarrow> nat \<Rightarrow> u32 \<Rightarrow> u32 \<Rightarrow> u32" where
  "put_field off w v r = (r AND NOT (push_bit off (mask w))) OR push_bit off (take_bit w v)"

text \<open>\<^verbatim>\<open>WRITE_FIELDS\<close>: a register value from its fields, the others zero.\<close>

definition pack :: "(nat \<times> nat \<times> u32) list \<Rightarrow> u32" where
  "pack fs = fold (\<lambda>(off, w, v) r. put_field off w v r) fs 0"

lemma bit_put_field:
  "bit (put_field off w v r) n \<longleftrightarrow>
     n < 32 \<and> (if off \<le> n \<and> n < off + w then bit v (n - off) else bit r n)"
  by (cases "n < 32") (auto simp: put_field_def bit_simps not_le not_less dest: bit_imp_le_length)

lemma bit_get_field: "bit (get_field off w r) n \<longleftrightarrow> n < w \<and> bit r (off + n)"
  by (auto simp: get_field_def bit_simps)

lemma get_put_same: "off + w \<le> 32 \<Longrightarrow> get_field off w (put_field off w v r) = take_bit w v"
  by (rule bit_word_eqI) (auto simp: bit_get_field bit_put_field bit_simps)

lemma get_put_other:
  "off + w \<le> off' \<or> off' + w' \<le> off \<Longrightarrow> off + w \<le> 32 \<Longrightarrow>
     get_field off w (put_field off' w' v r) = get_field off w r"
  by (rule bit_word_eqI) (auto simp: bit_get_field bit_put_field dest: bit_imp_le_length)

lemma get_field_0 [simp]: "get_field off w 0 = 0"
  by (simp add: get_field_def)

section \<open>The registers\<close>

datatype fixed_nco = FIXED_NCO1 | FIXED_NCO2

datatype mms_reg = MMS_COUNT | MMS_MIN_MAX | MMS_SUM | MMS_SUM2_LOW | MMS_SUM2_HIGH

text \<open>One type for each group of registers.\<close>

datatype nco_reg = NCO_GAIN fixed_nco | NCO_FREQ_LOW fixed_nco | NCO_FREQ_HIGH fixed_nco
datatype adc_reg = ADC_CONFIG | ADC_LIMITS | ADC_COMMAND | ADC_EVENTS | ADC_TAPS | ADC_MMS mms_reg
datatype bunch_reg = BUNCH_CONFIG | BUNCH_NCO01 | BUNCH_NCO23 | BUNCH_EXTRA
datatype fir_reg = FIR_EVENTS | FIR_CONFIG | FIR_TAPS
datatype dac_reg = DAC_CONFIG | DAC_LIMITS | DAC_COMMAND | DAC_EVENTS | DAC_TAPS | DAC_MMS mms_reg
datatype seq_state_reg = START_FREQ | DELTA_FREQ | HIGH_BITS | TIME | STATE_CONFIG | WINDOW_RATE | HOLDOFF | PADDING
datatype seq_reg = SEQ_STATUS | SEQ_COMMAND | SEQ_CONFIG | SEQ_STATE seq_state_reg | SEQ_DET_WINDOW | SEQ_SUPER_STATE
datatype det_reg = DET_CONFIG | DET_EVENTS | DET_COMMAND | DET_BUNCH
datatype pll_param_reg = TARGET_PHASE | INTEGRAL | PROPORTIONAL | MIN_MAGNITUDE | MAX_OFFSET_ERROR
datatype pll_read_reg = PLL_STATUS | PLL_EVENTS | FILTERED_OFFSET | FILTERED_I | FILTERED_Q
datatype pll_reg = PLL_FREQ_LOW | PLL_FREQ_HIGH | PLL_CONFIG | PLL_CONFIG_EXTRA | PLL_PARAM pll_param_reg
  | PLL_READ pll_read_reg | PLL_COMMAND | PLL_BUNCH
datatype readout_reg = READOUT_STATUS | READOUT_COMMAND | OFFSET_FIFO | DEBUG_FIFO

datatype dsp_reg = NCO nco_reg | ADC adc_reg | BUNCH bunch_reg | FIR fir_reg | DAC dac_reg | SEQ seq_reg | DET det_reg
  | PLL pll_reg | READOUT readout_reg

datatype sys_reg = VERSION | GIT_VERSION | INFO | STATUS | REV_IDELAY | FMC_SPI | SEED_VALUE
datatype mem_reg = MEM_CONFIG | MEM_COUNT | MEM_ADDRESS | MEM_COMMAND | MEM_STATUS
datatype trg_reg = TRG_PULSED | TRG_CONTROL | TRG_STATUS | TRG_TURN_COUNT | TRG_ERROR_COUNT | TRG_SOURCES
datatype trg_config_reg = CONFIG_TURN | CONFIG_BLANKING | CONFIG_DELAY trigger_target_id | CONFIG_TRIG trigger_target_id
datatype ctrl_reg = CONTROL | MEM mem_reg | TRG trg_reg | TRG_CONFIG trg_config_reg

datatype reg = SYS sys_reg | CTRL ctrl_reg | DSP nat dsp_reg

section \<open>Mirrors and writes\<close>

text \<open>
  The mirror holds the values of the registers that are written field by field; the trace is the
  sequence of all register writes.  Registers are read through a function given by the environment.
\<close>

record hw =
  mirror :: "reg \<Rightarrow> u32"
  trace :: "(reg \<times> u32) list"

definition writel :: "reg \<Rightarrow> u32 \<Rightarrow> hw \<Rightarrow> hw" where
  "writel r v h = h\<lparr>trace := trace h @ [(r, v)]\<rparr>"

definition WRITE_FIELDS :: "reg \<Rightarrow> (nat \<times> nat \<times> u32) list \<Rightarrow> hw \<Rightarrow> hw" where
  "WRITE_FIELDS r fs = writel r (pack fs)"

text \<open>Assigning to a field of the mirror, and writing the mirror of a register.\<close>

definition set_mirror :: "reg \<Rightarrow> nat \<Rightarrow> nat \<Rightarrow> u32 \<Rightarrow> hw \<Rightarrow> hw" where
  "set_mirror r off w v h = h\<lparr>mirror := (mirror h)(r := put_field off w v (mirror h r))\<rparr>"

definition write_mirror :: "reg \<Rightarrow> hw \<Rightarrow> hw" where
  "write_mirror r h = writel r (mirror h r) h"

definition WRITE_DSP_MIRROR :: "nat \<Rightarrow> dsp_reg \<Rightarrow> nat \<Rightarrow> nat \<Rightarrow> u32 \<Rightarrow> hw \<Rightarrow> hw" where
  "WRITE_DSP_MIRROR axis r off w v h = write_mirror (DSP axis r) (set_mirror (DSP axis r) off w v h)"

definition bits_to_bools :: "nat \<Rightarrow> u32 \<Rightarrow> bool list" where
  "bits_to_bools n bits = map (\<lambda>i. drop_bit i bits AND 1 \<noteq> 0) [0..<n]"

definition write_selected_bit :: "u32 \<Rightarrow> nat \<Rightarrow> bool \<Rightarrow> u32" where
  "write_selected_bit bits b v = (bits AND NOT (push_bit b 1)) OR push_bit b (of_bool v)"

end
