(* ===== verification/Hardware_Control.thy ===== *)
theory Hardware_Control
  imports Registers
begin

unbundle bit_operations_syntax

text \<open>
  The system and control registers (\<^verbatim>\<open>epics/src/hardware.c\<close>): versions and status, the SPI bridge,
  memory capture, and the trigger configuration shared by the two axes.  \<open>rd\<close> gives the value a
  register reads as.
\<close>

section \<open>System registers\<close>

record fpga_version =
  major :: u32
  minor :: u32
  patch :: u32
  firmware :: u32
  git_sha :: u32
  git_dirty :: bool
  build_seed :: u32

definition flag :: "nat \<Rightarrow> u32 \<Rightarrow> bool" where
  "flag off r \<longleftrightarrow> get_field off 1 r \<noteq> 0"

definition hw_read_fpga_version :: "(reg \<Rightarrow> u32) \<Rightarrow> fpga_version" where
  "hw_read_fpga_version rd =
     (let v = rd (SYS VERSION); g = rd (SYS GIT_VERSION)
      in \<lparr>major = get_field 16 8 v, minor = get_field 8 8 v, patch = get_field 0 8 v, firmware = get_field 24 8 v,
          git_sha = get_field 0 28 g, git_dirty = flag 31 g, build_seed = rd (SYS SEED_VALUE)\<rparr>)"

record system_status =
  dsp_ok :: bool
  vcxo_ok :: bool
  adc_ok :: bool
  dac_ok :: bool
  vcxo_locked :: bool
  vco_locked :: bool
  dac_irq :: bool
  temp_alert :: bool

definition hw_read_system_status :: "(reg \<Rightarrow> u32) \<Rightarrow> system_status" where
  "hw_read_system_status rd =
     (let s = rd (SYS STATUS)
      in \<lparr>dsp_ok = flag 0 s, vcxo_ok = flag 1 s, adc_ok = flag 2 s, dac_ok = flag 3 s, vcxo_locked = flag 4 s,
          vco_locked = flag 5 s, dac_irq = (\<not> flag 6 s), temp_alert = flag 7 s\<rparr>)"

definition hw_write_turn_clock_idelay :: "u32 \<Rightarrow> hw \<Rightarrow> hw" where
  "hw_write_turn_clock_idelay delay = WRITE_FIELDS (SYS REV_IDELAY) [(0, 5, delay AND 0x1F), (8, 1, 1)]"

datatype fmc500_spi = FMC500_SPI_PLL | FMC500_SPI_ADC | FMC500_SPI_DAC

fun spi_select :: "fmc500_spi \<Rightarrow> u32" where
  "spi_select FMC500_SPI_PLL = 0" | "spi_select FMC500_SPI_ADC = 1" | "spi_select FMC500_SPI_DAC = 2"

definition hw_write_fmc500_spi :: "fmc500_spi \<Rightarrow> u32 \<Rightarrow> u8 \<Rightarrow> hw \<Rightarrow> hw" where
  "hw_write_fmc500_spi spi r v =
     WRITE_FIELDS (SYS FMC_SPI) [(8, 15, r AND 0x7FFF), (29, 2, spi_select spi), (31, 1, 0), (0, 8, ucast v)]"

definition hw_read_fmc500_spi :: "(reg \<Rightarrow> u32) \<Rightarrow> fmc500_spi \<Rightarrow> u32 \<Rightarrow> hw \<Rightarrow> hw \<times> u8" where
  "hw_read_fmc500_spi rd spi r h =
     (WRITE_FIELDS (SYS FMC_SPI) [(8, 15, r AND 0x7FFF), (29, 2, spi_select spi), (31, 1, 1)] h,
      ucast (get_field 0 8 (rd (SYS FMC_SPI))))"

section \<open>Shared control\<close>

definition hw_write_lmbf_mode :: "bool \<Rightarrow> hw \<Rightarrow> hw" where
  "hw_write_lmbf_mode lmbf h =
     write_mirror (CTRL CONTROL)
       (fold (\<lambda>off. set_mirror (CTRL CONTROL) off 1 (of_bool lmbf)) [0, 1, 2, 3, 4, 5] h)"

definition hw_write_loopback_enable :: "nat \<Rightarrow> bool \<Rightarrow> hw \<Rightarrow> hw" where
  "hw_write_loopback_enable axis b h =
     (let loopbacks = write_selected_bit (get_field 6 2 (mirror h (CTRL CONTROL))) axis b
      in write_mirror (CTRL CONTROL) (set_mirror (CTRL CONTROL) 6 2 (loopbacks AND 3) h))"

definition hw_write_output_enable :: "nat \<Rightarrow> bool \<Rightarrow> hw \<Rightarrow> hw" where
  "hw_write_output_enable axis b h =
     (let enables = write_selected_bit (get_field 8 2 (mirror h (CTRL CONTROL))) axis b
      in write_mirror (CTRL CONTROL) (set_mirror (CTRL CONTROL) 8 2 (enables AND 3) h))"

definition hw_write_dram_mux :: "u16 \<Rightarrow> hw \<Rightarrow> hw" where
  "hw_write_dram_mux mux h =
     write_mirror (CTRL (MEM MEM_CONFIG)) (set_mirror (CTRL (MEM MEM_CONFIG)) 0 4 (ucast mux AND 0xF) h)"

definition hw_write_dram_runout :: "u32 \<Rightarrow> hw \<Rightarrow> hw" where
  "hw_write_dram_runout cnt = WRITE_FIELDS (CTRL (MEM MEM_COUNT)) [(0, 28, cnt AND 0xFFFFFFF)]"

definition hw_read_dram_address :: "(reg \<Rightarrow> u32) \<Rightarrow> u32" where
  "hw_read_dram_address rd = rd (CTRL (MEM MEM_ADDRESS))"

definition hw_write_dram_capture_command :: "bool \<Rightarrow> bool \<Rightarrow> hw \<Rightarrow> hw" where
  "hw_write_dram_capture_command start stop =
     WRITE_FIELDS (CTRL (MEM MEM_COMMAND)) [(0, 1, of_bool start), (1, 1, of_bool stop)]"

definition hw_read_dram_active :: "(reg \<Rightarrow> u32) \<Rightarrow> bool" where
  "hw_read_dram_active rd = flag 4 (rd (CTRL (MEM MEM_STATUS)))"

section \<open>Triggers\<close>

record trigger_sources =
  soft :: bool
  ext :: bool
  pm :: bool
  adc0 :: bool
  adc1 :: bool
  dac0 :: bool
  dac1 :: bool
  seq0 :: bool
  seq1 :: bool

definition trigger_sources_to_triggers_in :: "trigger_sources \<Rightarrow> u32" where
  "trigger_sources_to_triggers_in s =
     pack [(0, 1, of_bool (soft s)), (1, 1, of_bool (ext s)), (2, 1, of_bool (pm s)), (3, 1, of_bool (adc0 s)),
       (4, 1, of_bool (adc1 s)), (5, 1, of_bool (dac0 s)), (6, 1, of_bool (dac1 s)), (7, 1, of_bool (seq0 s)),
       (8, 1, of_bool (seq1 s))]"

definition triggers_in_to_trigger_sources :: "u32 \<Rightarrow> trigger_sources" where
  "triggers_in_to_trigger_sources t =
     \<lparr>soft = flag 0 t, ext = flag 1 t, pm = flag 2 t, adc0 = flag 3 t, adc1 = flag 4 t, dac0 = flag 5 t,
      dac1 = flag 6 t, seq0 = flag 7 t, seq1 = flag 8 t\<rparr>"

definition hw_write_bunch_count :: "u32 \<Rightarrow> hw \<Rightarrow> hw" where
  "hw_write_bunch_count bunches h =
     write_mirror (CTRL (TRG_CONFIG CONFIG_TURN))
       (set_mirror (CTRL (TRG_CONFIG CONFIG_TURN)) 0 11 ((bunches - 1) AND 0x7FF) h)"

definition hw_write_turn_clock_sync :: "hw \<Rightarrow> hw" where
  "hw_write_turn_clock_sync = WRITE_FIELDS (CTRL (TRG TRG_CONTROL)) [(0, 1, 1)]"

definition hw_read_turn_clock_counts :: "(reg \<Rightarrow> u32) \<Rightarrow> hw \<Rightarrow> hw \<times> u32 \<times> u32" where
  "hw_read_turn_clock_counts rd h =
     (WRITE_FIELDS (CTRL (TRG TRG_CONTROL)) [(1, 1, 1)] h,
      get_field 0 20 (rd (CTRL (TRG TRG_TURN_COUNT))), get_field 0 20 (rd (CTRL (TRG TRG_ERROR_COUNT))))"

text \<open>\<open>None\<close> is the failed assertion on the offset.\<close>

definition hw_write_turn_clock_offset :: "u32 \<Rightarrow> u32 \<Rightarrow> hw \<Rightarrow> hw option" where
  "hw_write_turn_clock_offset bunches offset h =
     (if offset < bunches
      then Some (write_mirror (CTRL (TRG_CONFIG CONFIG_TURN))
        (set_mirror (CTRL (TRG_CONFIG CONFIG_TURN)) 11 11 (offset AND 0x7FF) h))
      else None)"

definition hw_read_trigger_events :: "(reg \<Rightarrow> u32) \<Rightarrow> trigger_sources \<times> bool" where
  "hw_read_trigger_events rd =
     (let e = rd (CTRL (TRG TRG_PULSED)) in (triggers_in_to_trigger_sources (get_field 0 9 e), flag 9 e))"

definition hw_write_trigger_arm :: "(trigger_target_id \<Rightarrow> bool) \<Rightarrow> hw \<Rightarrow> hw" where
  "hw_write_trigger_arm arm = WRITE_FIELDS (CTRL (TRG TRG_CONTROL))
     [(2, 1, of_bool (arm TRIGGER_SEQ0)), (5, 1, of_bool (arm TRIGGER_SEQ1)), (8, 1, of_bool (arm TRIGGER_DRAM))]"

definition hw_write_trigger_fire :: "(trigger_target_id \<Rightarrow> bool) \<Rightarrow> hw \<Rightarrow> hw" where
  "hw_write_trigger_fire fire = WRITE_FIELDS (CTRL (TRG TRG_CONTROL))
     [(3, 1, of_bool (fire TRIGGER_SEQ0)), (6, 1, of_bool (fire TRIGGER_SEQ1)), (9, 1, of_bool (fire TRIGGER_DRAM))]"

definition hw_write_trigger_disarm :: "(trigger_target_id \<Rightarrow> bool) \<Rightarrow> hw \<Rightarrow> hw" where
  "hw_write_trigger_disarm disarm = WRITE_FIELDS (CTRL (TRG TRG_CONTROL))
     [(4, 1, of_bool (disarm TRIGGER_SEQ0)), (7, 1, of_bool (disarm TRIGGER_SEQ1)), (10, 1, of_bool (disarm TRIGGER_DRAM))]"

definition hw_write_trigger_soft_trigger :: "hw \<Rightarrow> hw" where
  "hw_write_trigger_soft_trigger = WRITE_FIELDS (CTRL (TRG TRG_CONTROL)) [(11, 1, 1)]"

record trigger_status =
  sync_busy :: bool
  seq0_armed :: bool
  seq1_armed :: bool
  dram_armed :: bool

definition hw_read_trigger_status :: "(reg \<Rightarrow> u32) \<Rightarrow> trigger_status" where
  "hw_read_trigger_status rd =
     (let s = rd (CTRL (TRG TRG_STATUS))
      in \<lparr>sync_busy = flag 0 s, seq0_armed = flag 1 s, seq1_armed = flag 2 s, dram_armed = flag 3 s\<rparr>)"

definition hw_read_trigger_sources :: "(reg \<Rightarrow> u32) \<Rightarrow> trigger_target_id \<Rightarrow> trigger_sources" where
  "hw_read_trigger_sources rd target =
     (let s = rd (CTRL (TRG TRG_SOURCES))
      in triggers_in_to_trigger_sources (case target of
           TRIGGER_SEQ0 \<Rightarrow> get_field 0 9 s | TRIGGER_SEQ1 \<Rightarrow> get_field 10 9 s | TRIGGER_DRAM \<Rightarrow> get_field 20 9 s))"

definition hw_write_trigger_blanking_duration :: "u32 \<Rightarrow> hw \<Rightarrow> hw" where
  "hw_write_trigger_blanking_duration d =
     WRITE_FIELDS (CTRL (TRG_CONFIG CONFIG_BLANKING)) [(0, 16, d AND 0xFFFF)]"

definition hw_write_trigger_delay :: "trigger_target_id \<Rightarrow> u32 \<Rightarrow> hw \<Rightarrow> hw" where
  "hw_write_trigger_delay target delay =
     WRITE_FIELDS (CTRL (TRG_CONFIG (CONFIG_DELAY target))) [(0, 16, delay AND 0xFFFF)]"

definition hw_write_trigger_enable_mask :: "trigger_target_id \<Rightarrow> trigger_sources \<Rightarrow> hw \<Rightarrow> hw" where
  "hw_write_trigger_enable_mask target s h =
     write_mirror (CTRL (TRG_CONFIG (CONFIG_TRIG target)))
       (set_mirror (CTRL (TRG_CONFIG (CONFIG_TRIG target))) 0 9 (trigger_sources_to_triggers_in s AND 0x1FF) h)"

definition hw_write_trigger_blanking_mask :: "trigger_target_id \<Rightarrow> trigger_sources \<Rightarrow> hw \<Rightarrow> hw" where
  "hw_write_trigger_blanking_mask target s h =
     write_mirror (CTRL (TRG_CONFIG (CONFIG_TRIG target)))
       (set_mirror (CTRL (TRG_CONFIG (CONFIG_TRIG target))) 9 9 (trigger_sources_to_triggers_in s AND 0x1FF) h)"

end
