(* ===== verification/Hardware_Dsp.thy ===== *)
theory Hardware_Dsp
  imports Hardware_Control Sequencer Detector
begin

unbundle bit_operations_syntax

text \<open>
  The signal processing registers of an axis (\<^verbatim>\<open>epics/src/hardware.c\<close>): NCOs, ADC, bunch control, FIR,
  DAC, sequencer and detector.  Writes to one register repeated for a memory behind it appear in the
  trace in their order.  \<open>rds r i\<close> is the value of the \<open>i\<close>-th read of \<open>r\<close> where a register is read
  repeatedly.
\<close>

definition writes :: "reg \<Rightarrow> u32 list \<Rightarrow> hw \<Rightarrow> hw" where
  "writes r vs h = h\<lparr>trace := trace h @ map (Pair r) vs\<rparr>"

section \<open>Min/max/sum readout\<close>

record mms_result =
  turns :: u32
  turns_ovfl :: bool
  sum_ovfl :: bool
  sum2_ovfl :: bool
  minimum :: "u16 list"
  maximum :: "u16 list"
  sum_of :: "u32 list"
  sum2 :: "u64 list"

definition read_mms :: "nat \<Rightarrow> (mms_reg \<Rightarrow> nat \<Rightarrow> u32) \<Rightarrow> mms_result" where
  "read_mms bunches rds =
     (let c = rds MMS_COUNT 0
      in \<lparr>turns = get_field 0 29 c + 1, turns_ovfl = flag 29 c, sum_ovfl = flag 30 c, sum2_ovfl = flag 31 c,
          minimum = map (\<lambda>i. ucast (get_field 0 16 (rds MMS_MIN_MAX i))) [0..<bunches],
          maximum = map (\<lambda>i. ucast (get_field 16 16 (rds MMS_MIN_MAX i))) [0..<bunches],
          sum_of = map (\<lambda>i. rds MMS_SUM i) [0..<bunches],
          sum2 = map (\<lambda>i. ucast (rds MMS_SUM2_LOW i) OR push_bit 32 (ucast (get_field 0 16 (rds MMS_SUM2_HIGH i))))
            [0..<bunches]\<rparr>)"

section \<open>NCOs\<close>

definition write_frequency :: "reg \<Rightarrow> reg \<Rightarrow> u64 \<Rightarrow> hw \<Rightarrow> hw" where
  "write_frequency low high f h =
     WRITE_FIELDS high [(0, 16, ucast (drop_bit 32 f AND 0xFFFF)), (31, 1, of_bool (f = 0))]
       (writel low (ucast (f AND 0xFFFFFFFF)) h)"

definition hw_write_nco_frequency :: "nat \<Rightarrow> fixed_nco \<Rightarrow> u64 \<Rightarrow> hw \<Rightarrow> hw" where
  "hw_write_nco_frequency axis nco = write_frequency (DSP axis (NCO (NCO_FREQ_LOW nco))) (DSP axis (NCO (NCO_FREQ_HIGH nco)))"

definition hw_write_nco_gain :: "nat \<Rightarrow> fixed_nco \<Rightarrow> u32 \<Rightarrow> hw \<Rightarrow> hw" where
  "hw_write_nco_gain axis nco gain = WRITE_DSP_MIRROR axis (NCO (NCO_GAIN nco)) 0 18 (gain AND 0x3FFFF)"

definition hw_write_nco_track_pll :: "nat \<Rightarrow> fixed_nco \<Rightarrow> bool \<Rightarrow> hw \<Rightarrow> hw" where
  "hw_write_nco_track_pll axis nco b = WRITE_DSP_MIRROR axis (NCO (NCO_GAIN nco)) 18 1 (of_bool b)"

section \<open>ADC\<close>

definition hw_write_adc_overflow_threshold :: "nat \<Rightarrow> u32 \<Rightarrow> hw \<Rightarrow> hw" where
  "hw_write_adc_overflow_threshold axis v = WRITE_DSP_MIRROR axis (ADC ADC_LIMITS) 0 14 (v AND 0x3FFF)"

definition hw_write_adc_delta_threshold :: "nat \<Rightarrow> u32 \<Rightarrow> hw \<Rightarrow> hw" where
  "hw_write_adc_delta_threshold axis v = WRITE_DSP_MIRROR axis (ADC ADC_LIMITS) 16 16 (v AND 0xFFFF)"

definition hw_write_adc_reject_shift :: "nat \<Rightarrow> u16 \<Rightarrow> hw \<Rightarrow> hw" where
  "hw_write_adc_reject_shift axis v = WRITE_DSP_MIRROR axis (ADC ADC_CONFIG) 4 4 (ucast v AND 0xF)"

definition hw_write_adc_mms_source :: "nat \<Rightarrow> u16 \<Rightarrow> hw \<Rightarrow> hw" where
  "hw_write_adc_mms_source axis v = WRITE_DSP_MIRROR axis (ADC ADC_CONFIG) 0 2 (ucast v AND 3)"

definition hw_write_adc_dram_source :: "nat \<Rightarrow> u16 \<Rightarrow> hw \<Rightarrow> hw" where
  "hw_write_adc_dram_source axis v = WRITE_DSP_MIRROR axis (ADC ADC_CONFIG) 2 2 (ucast v AND 3)"

record adc_events =
  input_ovf :: bool
  adc_fir_ovf :: bool
  adc_delta_event :: bool

definition hw_read_adc_events :: "nat \<Rightarrow> (reg \<Rightarrow> u32) \<Rightarrow> adc_events" where
  "hw_read_adc_events axis rd =
     (let e = rd (DSP axis (ADC ADC_EVENTS)) in \<lparr>input_ovf = flag 0 e, adc_fir_ovf = flag 1 e, adc_delta_event = flag 2 e\<rparr>)"

definition hw_write_adc_taps :: "nat \<Rightarrow> nat \<Rightarrow> u32 list \<Rightarrow> hw \<Rightarrow> hw" where
  "hw_write_adc_taps adc_taps axis taps h =
     writes (DSP axis (ADC ADC_TAPS)) (map (\<lambda>i. taps ! i) [0..<adc_taps])
       (WRITE_FIELDS (DSP axis (ADC ADC_COMMAND)) [(0, 1, 1)] h)"

definition hw_read_adc_mms :: "nat \<Rightarrow> nat \<Rightarrow> (reg \<Rightarrow> nat \<Rightarrow> u32) \<Rightarrow> hw \<Rightarrow> hw \<times> mms_result" where
  "hw_read_adc_mms bunches axis rds h =
     (WRITE_FIELDS (DSP axis (ADC ADC_COMMAND)) [(1, 1, 1)] h, read_mms bunches (\<lambda>r. rds (DSP axis (ADC (ADC_MMS r)))))"

section \<open>Bunch control\<close>

record bunch_config =
  fir_select :: "u8 list"
  fir_enable :: "bool list"
  fir_gains :: "u32 list"
  nco0_gains :: "u32 list"
  nco1_gains :: "u32 list"
  nco2_gains :: "u32 list"
  nco3_gains :: "u32 list"

definition bunch_words :: "bunch_config \<Rightarrow> nat \<Rightarrow> (bunch_reg \<times> u32) list" where
  "bunch_words c i =
     [(BUNCH_NCO01, pack [(0, 16, drop_bit 2 (nco0_gains c ! i) AND 0xFFFF), (16, 16, drop_bit 2 (nco1_gains c ! i) AND 0xFFFF)]),
      (BUNCH_NCO23, pack [(0, 16, drop_bit 2 (nco2_gains c ! i) AND 0xFFFF), (16, 16, drop_bit 2 (nco3_gains c ! i) AND 0xFFFF)]),
      (BUNCH_EXTRA, pack [(0, 2, scast (fir_select c ! i) AND 3), (2, 18, fir_gains c ! i AND 0x3FFFF), (20, 1, of_bool (fir_enable c ! i)),
         (21, 2, nco0_gains c ! i AND 3), (23, 2, nco1_gains c ! i AND 3), (25, 2, nco2_gains c ! i AND 3),
         (27, 2, nco3_gains c ! i AND 3)])]"

definition hw_write_bunch_config :: "nat \<Rightarrow> nat \<Rightarrow> u16 \<Rightarrow> bunch_config \<Rightarrow> hw \<Rightarrow> hw" where
  "hw_write_bunch_config bunches axis bank c h =
     (let h = WRITE_FIELDS (DSP axis (BUNCH BUNCH_CONFIG)) [(0, 2, ucast bank AND 3)] h
      in fold (\<lambda>i. fold (\<lambda>(r, v). writel (DSP axis (BUNCH r)) v) (bunch_words c i)) [0..<bunches] h)"

text \<open>\<^verbatim>\<open>__builtin_clz\<close>, the number of leading zeros of a non-zero word.\<close>

fun leading_zeros :: "nat \<Rightarrow> u32 \<Rightarrow> nat" where
  "leading_zeros 0 x = 0"
| "leading_zeros (Suc n) x = (if bit x n then 0 else Suc (leading_zeros n x))"

definition decimation_shift :: "u32 \<Rightarrow> u32" where
  "decimation_shift d = (if d = 1 then 0 else 32 - of_nat (leading_zeros 32 (d - 1)))"

definition hw_write_bunch_decimation :: "nat \<Rightarrow> u32 \<Rightarrow> hw \<Rightarrow> hw" where
  "hw_write_bunch_decimation axis d h =
     write_mirror (DSP axis (FIR FIR_CONFIG))
       (set_mirror (DSP axis (FIR FIR_CONFIG)) 9 3 (decimation_shift d AND 7)
         (set_mirror (DSP axis (FIR FIR_CONFIG)) 2 7 ((d - 1) AND 0x3F) h))"

definition hw_write_bunch_fir_taps :: "nat \<Rightarrow> nat \<Rightarrow> u16 \<Rightarrow> u32 list \<Rightarrow> hw \<Rightarrow> hw" where
  "hw_write_bunch_fir_taps bunch_taps axis fir taps h =
     writes (DSP axis (FIR FIR_TAPS)) (map (\<lambda>i. taps ! i) [0..<bunch_taps])
       (WRITE_DSP_MIRROR axis (FIR FIR_CONFIG) 0 2 (ucast fir AND 3) h)"

definition hw_read_bunch_overflow :: "nat \<Rightarrow> (reg \<Rightarrow> u32) \<Rightarrow> bool" where
  "hw_read_bunch_overflow axis rd = flag 0 (rd (DSP axis (FIR FIR_EVENTS)))"

section \<open>DAC\<close>

definition hw_write_dac_delta_threshold :: "nat \<Rightarrow> u32 \<Rightarrow> hw \<Rightarrow> hw" where
  "hw_write_dac_delta_threshold axis v = WRITE_DSP_MIRROR axis (DAC DAC_LIMITS) 0 16 (v AND 0xFFFF)"

definition hw_write_dac_delay :: "nat \<Rightarrow> u32 \<Rightarrow> hw \<Rightarrow> hw" where
  "hw_write_dac_delay axis v = WRITE_DSP_MIRROR axis (DAC DAC_CONFIG) 0 11 (v AND 0x7FF)"

definition hw_write_dac_fir_gain :: "nat \<Rightarrow> u16 \<Rightarrow> hw \<Rightarrow> hw" where
  "hw_write_dac_fir_gain axis v = WRITE_DSP_MIRROR axis (DAC DAC_CONFIG) 11 4 (ucast v AND 0xF)"

datatype dac_mms_source = DAC_MMS_BEFORE_PREEMPH | DAC_MMS_AFTER_PREEMPH | DAC_MMS_BB_FIR

fun dac_mms_code :: "dac_mms_source \<Rightarrow> u32" where
  "dac_mms_code DAC_MMS_BEFORE_PREEMPH = 0" | "dac_mms_code DAC_MMS_AFTER_PREEMPH = 1" | "dac_mms_code DAC_MMS_BB_FIR = 2"

definition hw_write_dac_mms_source :: "nat \<Rightarrow> dac_mms_source \<Rightarrow> hw \<Rightarrow> hw" where
  "hw_write_dac_mms_source axis s = WRITE_DSP_MIRROR axis (DAC DAC_CONFIG) 15 2 (dac_mms_code s AND 3)"

definition hw_write_dac_dram_source :: "nat \<Rightarrow> bool \<Rightarrow> hw \<Rightarrow> hw" where
  "hw_write_dac_dram_source axis after_fir = WRITE_DSP_MIRROR axis (DAC DAC_CONFIG) 17 1 (of_bool after_fir)"

record dac_events =
  dac_fir_ovf :: bool
  mms_ovf :: bool
  mux_ovf :: bool
  out_ovf :: bool
  dac_delta_event :: bool

definition hw_read_dac_events :: "nat \<Rightarrow> (reg \<Rightarrow> u32) \<Rightarrow> dac_events" where
  "hw_read_dac_events axis rd =
     (let e = rd (DSP axis (DAC DAC_EVENTS))
      in \<lparr>dac_fir_ovf = flag 0 e, mms_ovf = flag 1 e, mux_ovf = flag 2 e, out_ovf = flag 3 e, dac_delta_event = flag 4 e\<rparr>)"

definition hw_write_dac_taps :: "nat \<Rightarrow> nat \<Rightarrow> u32 list \<Rightarrow> hw \<Rightarrow> hw" where
  "hw_write_dac_taps dac_taps axis taps h =
     writes (DSP axis (DAC DAC_TAPS)) (map (\<lambda>i. taps ! i) [0..<dac_taps])
       (WRITE_FIELDS (DSP axis (DAC DAC_COMMAND)) [(0, 1, 1)] h)"

definition hw_read_dac_mms :: "nat \<Rightarrow> nat \<Rightarrow> (reg \<Rightarrow> nat \<Rightarrow> u32) \<Rightarrow> hw \<Rightarrow> hw \<times> mms_result" where
  "hw_read_dac_mms bunches axis rds h =
     (WRITE_FIELDS (DSP axis (DAC DAC_COMMAND)) [(1, 1, 1)] h, read_mms bunches (\<lambda>r. rds (DSP axis (DAC (DAC_MMS r)))))"

section \<open>Sequencer\<close>

definition write_sequencer_state :: "nat \<Rightarrow> bool \<Rightarrow> seq_entry \<Rightarrow> hw \<Rightarrow> hw" where
  "write_sequencer_state axis state0 e h =
     (let put = (\<lambda>r fs. WRITE_FIELDS (DSP axis (SEQ (SEQ_STATE r))) fs);
          h = put START_FREQ [(0, 32, ucast (start_freq e AND 0xFFFFFFFF))] h;
          h = put DELTA_FREQ [(0, 32, ucast (delta_freq e AND 0xFFFFFFFF))] h;
          h = put HIGH_BITS [(0, 16, ucast (drop_bit 32 (start_freq e) AND 0xFFFF)),
            (16, 16, ucast (drop_bit 32 (delta_freq e) AND 0xFFFF))] h;
          h = put TIME [(0, 16, (dwell_time e - 1) AND 0xFFFF), (16, 16, (capture_count e - 1) AND 0xFFFF)] h;
          h = put STATE_CONFIG [(0, 2, ucast (bunch_bank e) AND 3), (2, 18, nco_gain e AND 0x3FFFF),
            (20, 1, of_bool (enable_window e)), (21, 1, of_bool (write_enable e)), (22, 1, of_bool (enable_blanking e)),
            (23, 1, of_bool (reset_phase e)), (24, 1, of_bool (use_tune_pll e)), (25, 1, of_bool state0)] h;
          h = writel (DSP axis (SEQ (SEQ_STATE WINDOW_RATE))) (window_rate e) h;
          h = put HOLDOFF [(0, 16, holdoff e AND 0xFFFF), (16, 16, state_holdoff e AND 0xFFFF)] h
      in writel (DSP axis (SEQ (SEQ_STATE PADDING))) 0 h)"

definition idle_entry :: "u16 \<Rightarrow> seq_entry" where
  "idle_entry bank =
     \<lparr>start_freq = 0, delta_freq = 0, dwell_time = 1, capture_count = 1, bunch_bank = bank, nco_gain = 0, window_rate = 0,
      enable_window = False, write_enable = False, enable_blanking = False, reset_phase = True, use_tune_pll = False,
      holdoff = 0, state_holdoff = 0\<rparr>"

definition seq_target :: "nat \<Rightarrow> u32 \<Rightarrow> hw \<Rightarrow> hw" where
  "seq_target axis n h =
     WRITE_DSP_MIRROR axis (SEQ SEQ_CONFIG) 17 2 n (WRITE_FIELDS (DSP axis (SEQ SEQ_COMMAND)) [(1, 1, 1)] h)"

definition write_sequencer_entries :: "nat \<Rightarrow> u16 \<Rightarrow> seq_entry list option \<Rightarrow> hw \<Rightarrow> hw" where
  "write_sequencer_entries axis bank es h =
     (let h = write_sequencer_state axis True (idle_entry bank) (seq_target axis 0 h)
      in case es of None \<Rightarrow> h
        | Some es \<Rightarrow> fold (\<lambda>i. write_sequencer_state axis False (es ! i)) [0..<MAX_SEQUENCER_COUNT] h)"

definition DET_WINDOW_LENGTH :: nat where "DET_WINDOW_LENGTH = 1024"

definition write_sequencer_window :: "nat \<Rightarrow> u32 list \<Rightarrow> hw \<Rightarrow> hw" where
  "write_sequencer_window axis wd h =
     writes (DSP axis (SEQ SEQ_DET_WINDOW)) (map (\<lambda>i. wd ! i) [0..<DET_WINDOW_LENGTH]) (seq_target axis 1 h)"

text \<open>The offsets are written from the last to the first, each as two words.\<close>

definition offset_words :: "u64 \<Rightarrow> u32 list" where
  "offset_words x = [ucast x, ucast (drop_bit 32 x)]"

definition write_sequencer_super_entries :: "nat \<Rightarrow> u32 \<Rightarrow> u64 list \<Rightarrow> hw \<Rightarrow> hw" where
  "write_sequencer_super_entries axis cnt offsets h =
     (let cfg = DSP axis (SEQ SEQ_CONFIG);
          h = WRITE_FIELDS (DSP axis (SEQ SEQ_COMMAND)) [(1, 1, 1)] h;
          h = write_mirror cfg (set_mirror cfg 6 11 ((cnt - 1) AND 0x7FF) (set_mirror cfg 17 2 2 h))
      in writes (DSP axis (SEQ SEQ_SUPER_STATE))
           (concat (map (\<lambda>i. offset_words (offsets ! (unat cnt - 1 - i))) [0..<unat cnt])) h)"

definition hw_write_seq_config :: "nat \<Rightarrow> sequencer_config \<Rightarrow> hw \<Rightarrow> hw" where
  "hw_write_seq_config axis c h =
     (let h = write_sequencer_entries axis (bank0 c) (Some (entries c)) h;
          h = write_sequencer_window axis (window c) h;
          h = write_sequencer_super_entries axis (super_seq_count c) (super_offsets c) h
      in WRITE_DSP_MIRROR axis (SEQ SEQ_CONFIG) 0 3 (sequencer_pc c AND 7) h)"

definition hw_write_seq_bank0 :: "nat \<Rightarrow> u16 \<Rightarrow> hw \<Rightarrow> hw" where
  "hw_write_seq_bank0 axis bank = write_sequencer_entries axis bank None"

definition hw_write_seq_trigger_state :: "nat \<Rightarrow> u32 \<Rightarrow> hw \<Rightarrow> hw" where
  "hw_write_seq_trigger_state axis v = WRITE_DSP_MIRROR axis (SEQ SEQ_CONFIG) 3 3 (v AND 7)"

definition hw_write_seq_abort :: "nat \<Rightarrow> hw \<Rightarrow> hw" where
  "hw_write_seq_abort axis = WRITE_FIELDS (DSP axis (SEQ SEQ_COMMAND)) [(0, 1, 1)]"

record seq_status =
  seq_busy :: bool
  seq_pc :: u32
  super_pc :: u32

definition hw_read_seq_state :: "nat \<Rightarrow> (reg \<Rightarrow> u32) \<Rightarrow> seq_status" where
  "hw_read_seq_state axis rd =
     (let s = rd (DSP axis (SEQ SEQ_STATUS)) in \<lparr>seq_busy = flag 3 s, seq_pc = get_field 0 3 s, super_pc = get_field 4 11 s\<rparr>)"

section \<open>Detector\<close>

text \<open>One step for each bunch: the partial word, the rotating index and the words written so far.\<close>

definition enable_step :: "nat \<Rightarrow> bool list \<Rightarrow> nat \<Rightarrow> u32 \<times> nat \<times> u32 list \<Rightarrow> u32 \<times> nat \<times> u32 list" where
  "enable_step bunches enables i = (\<lambda>(bits, j, ws).
     let bits = bits OR push_bit (i mod 32) (of_bool (enables ! j));
         j' = (if j + 1 < bunches then j + 1 else 0)
     in if i mod 32 = 31 then (0, j', ws @ [bits]) else (bits, j', ws))"

definition enable_words :: "nat \<Rightarrow> nat \<Rightarrow> bool list \<Rightarrow> u32 list" where
  "enable_words bunches delay enables =
     (let (bits, j, ws) = fold (enable_step bunches enables) [0..<bunches] (0, delay, [])
      in if bunches mod 32 \<noteq> 0 then ws @ [bits] else ws)"

definition write_det_bunch_enable_array :: "nat \<Rightarrow> reg \<Rightarrow> nat \<Rightarrow> bool list \<Rightarrow> hw \<Rightarrow> hw" where
  "write_det_bunch_enable_array bunches r delay enables = writes r (enable_words bunches delay enables)"

definition write_det_bunch_enable :: "nat \<Rightarrow> nat \<Rightarrow> u32 \<Rightarrow> nat \<Rightarrow> nat \<Rightarrow> bool list \<Rightarrow> hw \<Rightarrow> hw" where
  "write_det_bunch_enable bunches axis cfg det delay enables h =
     write_det_bunch_enable_array bunches (DSP axis (DET DET_BUNCH)) delay enables
       (WRITE_FIELDS (DSP axis (DET DET_COMMAND)) [(0, 1, 1)]
         (writel (DSP axis (DET DET_CONFIG)) (put_field 30 2 (of_nat det AND 3) cfg) h))"

definition det_config_word :: "u16 \<Rightarrow> detector_config list \<Rightarrow> u32" where
  "det_config_word sel c =
     pack ((0, 2, ucast sel AND 3) #
       concat (map (\<lambda>i. [(2 + 2 * i, 1, ucast (scaling (c ! i)) AND 1), (3 + 2 * i, 1, of_bool (enable (c ! i)))]) [0, 1, 2, 3]))"

definition hw_write_det_config :: "nat \<Rightarrow> nat \<Rightarrow> u16 \<Rightarrow> nat \<Rightarrow> detector_config list \<Rightarrow> hw \<Rightarrow> hw" where
  "hw_write_det_config bunches axis sel delay c =
     fold (\<lambda>i. write_det_bunch_enable bunches axis (det_config_word sel c) i delay (bunch_enables (c ! i))) [0..<DETECTOR_COUNT]"

definition hw_write_det_start :: "nat \<Rightarrow> hw \<Rightarrow> hw" where
  "hw_write_det_start axis = WRITE_FIELDS (DSP axis (DET DET_COMMAND)) [(1, 1, 1)]"

definition hw_read_det_events :: "nat \<Rightarrow> (reg \<Rightarrow> u32) \<Rightarrow> bool list \<times> bool" where
  "hw_read_det_events axis rd =
     (let e = rd (DSP axis (DET DET_EVENTS)) in (bits_to_bools DETECTOR_COUNT (get_field 0 4 e), get_field 4 4 e \<noteq> 0))"

definition DRAM1_LENGTH :: u32 where "DRAM1_LENGTH = 0x8000000"

text \<open>The position and the number of bytes of a detector readout.\<close>

definition hw_read_det_memory :: "nat \<Rightarrow> u32 \<Rightarrow> u32 \<Rightarrow> u32 \<times> u64" where
  "hw_read_det_memory axis cnt offset = (of_nat axis * (DRAM1_LENGTH div 2) + offset, ucast cnt * 8)"

end
