(* ===== verification/Hardware_Pll.thy ===== *)
theory Hardware_Pll
  imports Hardware_Dsp
begin

unbundle bit_operations_syntax

text \<open>
  The tune PLL registers, the readout of its FIFOs, and the setting up of the hardware
  (\<^verbatim>\<open>epics/src/hardware.c\<close>).
\<close>

section \<open>Configuration\<close>

definition hw_write_pll_nco_frequency :: "nat \<Rightarrow> u64 \<Rightarrow> hw \<Rightarrow> hw" where
  "hw_write_pll_nco_frequency axis = write_frequency (DSP axis (PLL PLL_FREQ_LOW)) (DSP axis (PLL PLL_FREQ_HIGH))"

definition hw_read_pll_nco_frequency :: "nat \<Rightarrow> (reg \<Rightarrow> u32) \<Rightarrow> u64" where
  "hw_read_pll_nco_frequency axis rd =
     push_bit 32 (ucast (get_field 0 16 (rd (DSP axis (PLL PLL_FREQ_HIGH))))) OR ucast (rd (DSP axis (PLL PLL_FREQ_LOW)))"

definition hw_write_pll_nco_gain :: "nat \<Rightarrow> u32 \<Rightarrow> hw \<Rightarrow> hw" where
  "hw_write_pll_nco_gain axis v = WRITE_DSP_MIRROR axis (PLL PLL_CONFIG_EXTRA) 0 18 (v AND 0x3FFFF)"

definition hw_write_pll_dwell_time :: "nat \<Rightarrow> u32 \<Rightarrow> hw \<Rightarrow> hw" where
  "hw_write_pll_dwell_time axis dwell = WRITE_DSP_MIRROR axis (PLL PLL_CONFIG) 6 16 ((dwell - 1) AND 0xFFF)"

definition hw_write_pll_blanking :: "nat \<Rightarrow> bool \<Rightarrow> hw \<Rightarrow> hw" where
  "hw_write_pll_blanking axis b = WRITE_DSP_MIRROR axis (PLL PLL_CONFIG) 23 1 (of_bool b)"

definition write_pll_param :: "pll_param_reg \<Rightarrow> nat \<Rightarrow> u32 \<Rightarrow> hw \<Rightarrow> hw" where
  "write_pll_param r axis = writel (DSP axis (PLL (PLL_PARAM r)))"

definition hw_write_pll_target_phase :: "nat \<Rightarrow> u32 \<Rightarrow> hw \<Rightarrow> hw" where
  "hw_write_pll_target_phase = write_pll_param TARGET_PHASE"

definition hw_write_pll_integral_factor :: "nat \<Rightarrow> u32 \<Rightarrow> hw \<Rightarrow> hw" where
  "hw_write_pll_integral_factor = write_pll_param INTEGRAL"

definition hw_write_pll_proportional_factor :: "nat \<Rightarrow> u32 \<Rightarrow> hw \<Rightarrow> hw" where
  "hw_write_pll_proportional_factor = write_pll_param PROPORTIONAL"

definition hw_write_pll_minimum_magnitude :: "nat \<Rightarrow> u32 \<Rightarrow> hw \<Rightarrow> hw" where
  "hw_write_pll_minimum_magnitude = write_pll_param MIN_MAGNITUDE"

definition hw_write_pll_maximum_offset :: "nat \<Rightarrow> u32 \<Rightarrow> hw \<Rightarrow> hw" where
  "hw_write_pll_maximum_offset = write_pll_param MAX_OFFSET_ERROR"

definition hw_write_pll_det_scaling :: "nat \<Rightarrow> u16 \<Rightarrow> hw \<Rightarrow> hw" where
  "hw_write_pll_det_scaling axis v = WRITE_DSP_MIRROR axis (PLL PLL_CONFIG) 2 2 (ucast v AND 3)"

definition hw_write_pll_det_config :: "nat \<Rightarrow> nat \<Rightarrow> u16 \<Rightarrow> nat \<Rightarrow> bool list \<Rightarrow> hw \<Rightarrow> hw" where
  "hw_write_pll_det_config bunches axis sel offset enables h =
     write_det_bunch_enable_array bunches (DSP axis (PLL PLL_BUNCH)) offset enables
       (WRITE_FIELDS (DSP axis (PLL PLL_COMMAND)) [(0, 1, 1)]
         (WRITE_DSP_MIRROR axis (PLL PLL_CONFIG) 0 2 (ucast sel AND 3) h))"

definition hw_write_pll_captured_cordic :: "nat \<Rightarrow> bool \<Rightarrow> hw \<Rightarrow> hw" where
  "hw_write_pll_captured_cordic axis b = WRITE_DSP_MIRROR axis (PLL PLL_CONFIG) 5 1 (of_bool b)"

definition hw_write_pll_start :: "bool \<Rightarrow> bool \<Rightarrow> hw \<Rightarrow> hw" where
  "hw_write_pll_start axis0 axis1 = WRITE_FIELDS (CTRL (TRG TRG_CONTROL)) [(12, 1, of_bool axis0), (13, 1, of_bool axis1)]"

definition hw_write_pll_stop :: "bool \<Rightarrow> bool \<Rightarrow> hw \<Rightarrow> hw" where
  "hw_write_pll_stop axis0 axis1 = WRITE_FIELDS (CTRL (TRG TRG_CONTROL)) [(14, 1, of_bool axis0), (15, 1, of_bool axis1)]"

section \<open>Status\<close>

record tune_pll_events =
  det_overflow :: bool
  magnitude_error :: bool
  offset_error :: bool

definition hw_read_pll_events :: "nat \<Rightarrow> (reg \<Rightarrow> u32) \<Rightarrow> tune_pll_events" where
  "hw_read_pll_events axis rd =
     (let e = rd (DSP axis (PLL (PLL_READ PLL_EVENTS)))
      in \<lparr>det_overflow = flag 0 e, magnitude_error = flag 1 e, offset_error = flag 2 e\<rparr>)"

record tune_pll_status =
  running :: bool
  stopped :: bool
  overflow :: bool
  too_small :: bool
  bad_offset :: bool

definition hw_read_pll_status :: "nat \<Rightarrow> (reg \<Rightarrow> u32) \<Rightarrow> tune_pll_status" where
  "hw_read_pll_status axis rd =
     (let s = rd (DSP axis (PLL (PLL_READ PLL_STATUS)))
      in \<lparr>running = flag 0 s, stopped = flag 1 s, overflow = flag 2 s, too_small = flag 3 s, bad_offset = flag 4 s\<rparr>)"

definition hw_read_pll_filtered_detector :: "nat \<Rightarrow> (reg \<Rightarrow> u32) \<Rightarrow> detector_result" where
  "hw_read_pll_filtered_detector axis rd =
     (rd (DSP axis (PLL (PLL_READ FILTERED_I))), rd (DSP axis (PLL (PLL_READ FILTERED_Q))))"

definition hw_read_pll_filtered_offset :: "nat \<Rightarrow> (reg \<Rightarrow> u32) \<Rightarrow> u32" where
  "hw_read_pll_filtered_offset axis rd = rd (DSP axis (PLL (PLL_READ FILTERED_OFFSET)))"

section \<open>Readout of a FIFO\<close>

datatype pll_readout_fifo = PLL_FIFO_DEBUG | PLL_FIFO_OFFSET

definition PLL_FIFO_SIZE :: nat where "PLL_FIFO_SIZE = 1025"

text \<open>
  \<open>status\<close> is the value read from the status register and \<open>rds i\<close> the \<open>i\<close>-th value read from the
  FIFO.  \<open>None\<close> is the failed assertion on the number of samples.
\<close>

definition fifo_samples :: "pll_readout_fifo \<Rightarrow> u32 \<Rightarrow> nat" where
  "fifo_samples fifo status = unat (case fifo of PLL_FIFO_DEBUG \<Rightarrow> get_field 11 11 status | PLL_FIFO_OFFSET \<Rightarrow> get_field 0 11 status)"

definition fifo_overrun :: "pll_readout_fifo \<Rightarrow> u32 \<Rightarrow> bool" where
  "fifo_overrun fifo status = (case fifo of PLL_FIFO_DEBUG \<Rightarrow> flag 23 status | PLL_FIFO_OFFSET \<Rightarrow> flag 22 status)"

definition reset_command :: "pll_readout_fifo \<Rightarrow> u32" where
  "reset_command fifo = pack [(case fifo of PLL_FIFO_DEBUG \<Rightarrow> 1 | PLL_FIFO_OFFSET \<Rightarrow> 0, 1, 1)]"

definition enable_command :: "pll_readout_fifo \<Rightarrow> u32" where
  "enable_command fifo = pack [(case fifo of PLL_FIFO_DEBUG \<Rightarrow> 3 | PLL_FIFO_OFFSET \<Rightarrow> 2, 1, 1)]"

definition hw_read_pll_readout_fifo ::
  "nat \<Rightarrow> pll_readout_fifo \<Rightarrow> bool \<Rightarrow> u32 \<Rightarrow> (nat \<Rightarrow> u32) \<Rightarrow> hw \<Rightarrow> (hw \<times> u32 list \<times> bool) option" where
  "hw_read_pll_readout_fifo axis fifo enable_interrupt status rds h =
     (if fifo_samples fifo status \<le> PLL_FIFO_SIZE
      then let cmd = DSP axis (READOUT READOUT_COMMAND);
               h = (if fifo_overrun fifo status then writel cmd (reset_command fifo) h else h);
               h = (if enable_interrupt then writel cmd (enable_command fifo) h else h)
           in Some (h, map rds [0..<fifo_samples fifo status], fifo_overrun fifo status)
      else None)"

section \<open>Initialisation\<close>

definition SYS_ADDRESS_BASE :: u32 where "SYS_ADDRESS_BASE = 0x0000"
definition CTRL_ADDRESS_BASE :: u32 where "CTRL_ADDRESS_BASE = 0x8000"
definition DSP0_ADDRESS_BASE :: u32 where "DSP0_ADDRESS_BASE = 0xC000"
definition DSP1_ADDRESS_BASE :: u32 where "DSP1_ADDRESS_BASE = 0xE000"

text \<open>\<^verbatim>\<open>map_config_regs\<close>: the base of the space of a register.\<close>

definition map_config_regs :: "reg \<Rightarrow> u32" where
  "map_config_regs r = (case r of SYS _ \<Rightarrow> SYS_ADDRESS_BASE | CTRL _ \<Rightarrow> CTRL_ADDRESS_BASE
     | DSP axis _ \<Rightarrow> if axis = 0 then DSP0_ADDRESS_BASE else DSP1_ADDRESS_BASE)"

datatype hw_error = FirmwareMismatch u32 u32

text \<open>The version named in \<^verbatim>\<open>register_defs.in\<close>.\<close>

definition FIRMWARE_COMPAT_VERSION :: u32 where "FIRMWARE_COMPAT_VERSION = 4"

definition check_firmware_version :: "bool \<Rightarrow> (reg \<Rightarrow> u32) \<Rightarrow> hw_error option" where
  "check_firmware_version no_hardware rd =
     (if no_hardware then None
      else let v = get_field 24 8 (rd (SYS VERSION)) in if v = FIRMWARE_COMPAT_VERSION then None else Some (FirmwareMismatch v FIRMWARE_COMPAT_VERSION))"

record hardware_config =
  hc_bunches :: u32
  hc_adc_taps :: u32
  hc_bunch_taps :: u32
  hc_dac_taps :: u32
  hc_no_hardware :: bool

definition set_hardware_config :: "u32 \<Rightarrow> bool \<Rightarrow> bool \<Rightarrow> (reg \<Rightarrow> u32) \<Rightarrow> hw \<Rightarrow> hw \<times> hardware_config" where
  "set_hardware_config n lmbf no_hw rd h =
     (let h = hw_write_lmbf_mode lmbf (hw_write_bunch_count n h);
          taps = (\<lambda>off dflt. if no_hw then dflt else get_field off 8 (rd (SYS INFO)))
      in (h, \<lparr>hc_bunches = n, hc_adc_taps = taps 0 20, hc_bunch_taps = taps 8 16, hc_dac_taps = taps 16 20, hc_no_hardware = no_hw\<rparr>))"

text \<open>The names of the device nodes, and the set-up once they are open and mapped.\<close>

definition device_name :: "string \<Rightarrow> string \<Rightarrow> string" where
  "device_name address part =
     (if address \<noteq> '''' then ''/dev/amc525_mbf/'' @ address @ ''/amc525_mbf.'' @ part
      else ''/dev/amc525_mbf.0.'' @ part)"

definition initialise_hardware ::
  "u32 \<Rightarrow> bool \<Rightarrow> bool \<Rightarrow> (reg \<Rightarrow> u32) \<Rightarrow> hw \<Rightarrow> hw_error + hw \<times> hardware_config" where
  "initialise_hardware n lmbf no_hw rd h =
     (case check_firmware_version no_hw rd of
        Some e \<Rightarrow> Inl e
      | None \<Rightarrow> Inr (set_hardware_config n lmbf no_hw rd h))"

end
