(* ===== verification/Hardware_Refinement.thy ===== *)
theory Hardware_Refinement
  imports Hardware_Pll
begin

unbundle bit_operations_syntax

text \<open>
  The registers written field by field against a register file of independent fields: whatever the
  order of the operations, each field in the hardware holds the value it was last given.
\<close>

section \<open>The layout of the mirrored registers\<close>

fun adc_fields :: "adc_reg \<Rightarrow> (nat \<times> nat) list" where
  "adc_fields ADC_CONFIG = [(0, 2), (2, 2), (4, 4)]"
| "adc_fields ADC_LIMITS = [(0, 14), (16, 16)]"
| "adc_fields _ = []"

fun dac_fields :: "dac_reg \<Rightarrow> (nat \<times> nat) list" where
  "dac_fields DAC_CONFIG = [(0, 11), (11, 4), (15, 2), (17, 1)]"
| "dac_fields DAC_LIMITS = [(0, 16)]"
| "dac_fields _ = []"

fun dsp_fields :: "dsp_reg \<Rightarrow> (nat \<times> nat) list" where
  "dsp_fields (NCO (NCO_GAIN nco)) = [(0, 18), (18, 1)]"
| "dsp_fields (ADC r) = adc_fields r"
| "dsp_fields (FIR FIR_CONFIG) = [(0, 2), (2, 7), (9, 3)]"
| "dsp_fields (DAC r) = dac_fields r"
| "dsp_fields (SEQ SEQ_CONFIG) = [(0, 3), (3, 3), (6, 11), (17, 2)]"
| "dsp_fields (PLL PLL_CONFIG) = [(0, 2), (2, 2), (5, 1), (6, 16), (23, 1)]"
| "dsp_fields (PLL PLL_CONFIG_EXTRA) = [(0, 18)]"
| "dsp_fields _ = []"

text \<open>The loopback and output fields hold one bit for each axis.\<close>

fun ctrl_fields :: "ctrl_reg \<Rightarrow> (nat \<times> nat) list" where
  "ctrl_fields CONTROL = [(0, 1), (1, 1), (2, 1), (3, 1), (4, 1), (5, 1), (6, 1), (7, 1), (8, 1), (9, 1)]"
| "ctrl_fields (MEM MEM_CONFIG) = [(0, 4)]"
| "ctrl_fields (TRG_CONFIG CONFIG_TURN) = [(0, 11), (11, 11)]"
| "ctrl_fields (TRG_CONFIG (CONFIG_TRIG t)) = [(0, 9), (9, 9)]"
| "ctrl_fields _ = []"

fun fields_of :: "reg \<Rightarrow> (nat \<times> nat) list" where
  "fields_of (SYS r) = []"
| "fields_of (CTRL r) = ctrl_fields r"
| "fields_of (DSP axis r) = dsp_fields r"

definition fields_apart :: "(nat \<times> nat) list \<Rightarrow> bool" where
  "fields_apart fs \<longleftrightarrow> (\<forall>(off, w) \<in> set fs. off + w \<le> 32 \<and>
     (\<forall>(off', w') \<in> set fs. (off, w) = (off', w') \<or> off + w \<le> off' \<or> off' + w' \<le> off))"

lemma adc_apart: "fields_apart (adc_fields r)"
  by (cases r) (simp_all add: fields_apart_def)

lemma dac_apart: "fields_apart (dac_fields r)"
  by (cases r) (simp_all add: fields_apart_def)

lemma dsp_apart: "fields_apart (dsp_fields r)"
  by (cases r rule: dsp_fields.cases) (simp_all only: dsp_fields.simps adc_apart dac_apart, simp_all add: fields_apart_def)

lemma ctrl_apart: "fields_apart (ctrl_fields r)"
  by (cases r rule: ctrl_fields.cases) (simp_all add: fields_apart_def)

lemma layout_apart: "fields_apart (fields_of r)"
  by (cases r) (simp_all add: dsp_apart ctrl_apart, simp add: fields_apart_def)

section \<open>The value of a register in the hardware\<close>

text \<open>The last value written, or 0.\<close>

definition reg_value :: "hw \<Rightarrow> reg \<Rightarrow> u32" where
  "reg_value h r = fold (\<lambda>(r', v) x. if r' = r then v else x) (trace h) 0"

lemma reg_value_writel [simp]: "reg_value (writel r v h) = (reg_value h)(r := v)"
  by (rule ext) (simp add: reg_value_def writel_def)

lemma reg_value_set_mirror [simp]: "reg_value (set_mirror r off w v h) = reg_value h"
  by (rule ext) (simp add: reg_value_def set_mirror_def)

lemma mirror_writel [simp]: "mirror (writel r v h) = mirror h"
  by (simp add: writel_def)

lemma mirror_set_mirror [simp]:
  "mirror (set_mirror r off w v h) = (mirror h)(r := put_field off w v (mirror h r))"
  by (simp add: set_mirror_def)

lemma writes_writel: "writes r vs h = fold (writel r) vs h"
proof (induction vs arbitrary: h)
  case (Cons v vs)
  have "writes r (v # vs) h = writes r vs (writel r v h)" by (simp add: writes_def writel_def)
  then show ?case using Cons.IH by simp
qed (simp add: writes_def)

section \<open>The abstraction\<close>

type_synonym field = "reg \<times> nat \<times> nat"

text \<open>\<open>held h s\<close>: every field of the mirror holds the value of \<open>s\<close>; \<open>synced X h\<close>: every mirrored register outside of \<open>X\<close> has been written with the value of its mirror.\<close>

definition held :: "hw \<Rightarrow> (field \<Rightarrow> u32) \<Rightarrow> bool" where
  "held h s \<longleftrightarrow> (\<forall>r. \<forall>(off, w) \<in> set (fields_of r). get_field off w (mirror h r) = s (r, off, w))"

definition synced :: "reg set \<Rightarrow> hw \<Rightarrow> bool" where
  "synced X h \<longleftrightarrow> (\<forall>r. r \<notin> X \<and> fields_of r \<noteq> [] \<longrightarrow> reg_value h r = mirror h r)"

lemma held_set_mirror:
  assumes "held h s" and f: "(off, w) \<in> set (fields_of r)"
  shows "held (set_mirror r off w v h) (s((r, off, w) := take_bit w v))"
proof -
  have ap: "off + w \<le> 32" "\<And>off' w'. (off', w') \<in> set (fields_of r) \<Longrightarrow> off' + w' \<le> 32 \<and>
      ((off', w') = (off, w) \<or> off' + w' \<le> off \<or> off + w \<le> off')"
    using layout_apart [of r] f by (auto simp: fields_apart_def)
  have "get_field off' w' (mirror (set_mirror r off w v h) r') = (s((r, off, w) := take_bit w v)) (r', off', w')"
    if f': "(off', w') \<in> set (fields_of r')" for r' off' w'
  proof (cases "r' = r \<and> (off', w') = (off, w)")
    case True
    then show ?thesis using ap(1) by (simp add: get_put_same)
  next
    case False
    moreover have "get_field off' w' (mirror h r') = s (r', off', w')"
      using assms(1) f' by (auto simp: held_def)
    ultimately show ?thesis using ap(2) [of off' w'] f' by (auto simp: get_put_other)
  qed
  then show ?thesis unfolding held_def by (auto simp del: mirror_set_mirror fun_upd_apply)
qed

lemma held_writel [simp]: "held (writel r v h) s = held h s"
  by (simp add: held_def)

lemma synced_set_mirror: "synced X h \<Longrightarrow> synced (insert r X) (set_mirror r off w v h)"
  by (auto simp: synced_def)

lemma synced_set_again: "synced {r} h \<Longrightarrow> synced {r} (set_mirror r off w v h)"
  by (auto simp: synced_def)

lemma synced_write_mirror: "synced {r} h \<Longrightarrow> synced {} (write_mirror r h)"
  by (auto simp: synced_def write_mirror_def)

lemma synced_writel: "fields_of r = [] \<Longrightarrow> synced X (writel r v h) = synced X h"
  by (auto simp: synced_def)

text \<open>The abstraction relation, and the steps that keep it.\<close>

definition abstracts :: "(field \<Rightarrow> u32) \<Rightarrow> hw \<Rightarrow> bool" where
  "abstracts s h \<longleftrightarrow> held h s \<and> synced {} h"

definition given :: "(field \<times> u32) list \<Rightarrow> (field \<Rightarrow> u32) \<Rightarrow> (field \<Rightarrow> u32)" where
  "given = fold (\<lambda>(f, v) s. s(f := v))"

lemma given_simps [simp]:
  "given [] s = s" "given ((f, v) # fs) s = given fs (s(f := v))" "given (xs @ ys) s = given ys (given xs s)"
  by (simp_all add: given_def)

definition sets :: "reg \<Rightarrow> (nat \<times> nat \<times> u32) list \<Rightarrow> hw \<Rightarrow> hw" where
  "sets r = fold (\<lambda>(off, w, v). set_mirror r off w v)"

definition put_of :: "reg \<Rightarrow> (nat \<times> nat \<times> u32) list \<Rightarrow> (field \<times> u32) list" where
  "put_of r = map (\<lambda>(off, w, v). ((r, off, w), take_bit w v))"

lemma held_sets:
  "held h s \<Longrightarrow> set (map (\<lambda>(off, w, v). (off, w)) fs) \<subseteq> set (fields_of r) \<Longrightarrow> held (sets r fs h) (given (put_of r fs) s)"
  by (induction fs arbitrary: h s) (auto simp: sets_def put_of_def held_set_mirror)

lemma synced_sets: "synced {r} h \<Longrightarrow> synced {r} (sets r fs h)"
  by (induction fs arbitrary: h) (auto simp: sets_def synced_set_again)

lemma abstracts_write:
  assumes "abstracts s h" "set (map (\<lambda>(off, w, v). (off, w)) fs) \<subseteq> set (fields_of r)"
  shows "abstracts (given (put_of r fs) s) (write_mirror r (sets r fs h))"
proof -
  have "synced {r} h" using assms(1) by (auto simp: abstracts_def synced_def)
  then have "synced {} (write_mirror r (sets r fs h))" by (intro synced_write_mirror synced_sets)
  moreover have "held (write_mirror r (sets r fs h)) (given (put_of r fs) s)"
    using assms by (simp add: abstracts_def write_mirror_def held_sets)
  ultimately show ?thesis by (simp add: abstracts_def)
qed

lemma abstracts_writel: "abstracts s h \<Longrightarrow> fields_of r = [] \<Longrightarrow> abstracts s (writel r v h)"
  by (simp add: abstracts_def synced_writel)

lemma abstracts_WRITE_FIELDS: "abstracts s h \<Longrightarrow> fields_of r = [] \<Longrightarrow> abstracts s (WRITE_FIELDS r fs h)"
  by (simp add: WRITE_FIELDS_def abstracts_writel)

lemma abstracts_fold: "(\<And>x h. abstracts s h \<Longrightarrow> abstracts s (f x h)) \<Longrightarrow> abstracts s h \<Longrightarrow> abstracts s (fold f xs h)"
  by (induction xs arbitrary: h) auto

lemma abstracts_writes: "abstracts s h \<Longrightarrow> fields_of r = [] \<Longrightarrow> abstracts s (writes r vs h)"
  by (simp add: writes_writel abstracts_fold abstracts_writel)

lemmas abstracts_quiet = abstracts_writel abstracts_WRITE_FIELDS abstracts_writes


section \<open>The operations\<close>

datatype ctrl_op = Lmbf bool | Loopback bool bool | OutputEnable bool bool | DramMux u16 | BunchCount u32
  | TurnOffset u32 u32 | EnableMask trigger_target_id trigger_sources | BlankingMask trigger_target_id trigger_sources
datatype adc_op = AdcOverflow u32 | AdcDelta u32 | AdcReject u16 | AdcMms u16 | AdcDram u16 | AdcTaps nat "u32 list"
datatype dac_op = DacDelta u32 | DacDelay u32 | DacFirGain u16 | DacMms dac_mms_source | DacDram bool | DacTaps nat "u32 list"
datatype pll_op = PllGain u32 | PllDwell u32 | PllBlanking bool | PllScaling u16 | PllCordic bool
  | PllDetConfig nat u16 nat "bool list"
datatype seq_op = SeqConfig sequencer_config | SeqBank0 u16 | SeqTrigger u32 | SeqAbort
datatype bunch_op = NcoGain fixed_nco u32 | NcoTrack fixed_nco bool | NcoFrequency fixed_nco u64 | Decimation u32
  | FirTaps nat u16 "u32 list" | BunchConfig nat u16 bunch_config | DetConfig nat u16 nat "detector_config list"

datatype hw_op = CtrlOp ctrl_op | AdcOp nat adc_op | DacOp nat dac_op | PllOp nat pll_op | SeqOp nat seq_op | BunchOp nat bunch_op

fun ctrl_apply :: "ctrl_op \<Rightarrow> hw \<Rightarrow> hw" where
  "ctrl_apply (Lmbf b) = hw_write_lmbf_mode b"
| "ctrl_apply (Loopback axis b) = hw_write_loopback_enable (of_bool axis) b"
| "ctrl_apply (OutputEnable axis b) = hw_write_output_enable (of_bool axis) b"
| "ctrl_apply (DramMux m) = hw_write_dram_mux m"
| "ctrl_apply (BunchCount n) = hw_write_bunch_count n"
| "ctrl_apply (TurnOffset n x) = (\<lambda>h. case hw_write_turn_clock_offset n x h of Some h' \<Rightarrow> h' | None \<Rightarrow> h)"
| "ctrl_apply (EnableMask t s) = hw_write_trigger_enable_mask t s"
| "ctrl_apply (BlankingMask t s) = hw_write_trigger_blanking_mask t s"

fun adc_apply :: "nat \<Rightarrow> adc_op \<Rightarrow> hw \<Rightarrow> hw" where
  "adc_apply axis (AdcOverflow v) = hw_write_adc_overflow_threshold axis v"
| "adc_apply axis (AdcDelta v) = hw_write_adc_delta_threshold axis v"
| "adc_apply axis (AdcReject v) = hw_write_adc_reject_shift axis v"
| "adc_apply axis (AdcMms v) = hw_write_adc_mms_source axis v"
| "adc_apply axis (AdcDram v) = hw_write_adc_dram_source axis v"
| "adc_apply axis (AdcTaps n ts) = hw_write_adc_taps n axis ts"

fun dac_apply :: "nat \<Rightarrow> dac_op \<Rightarrow> hw \<Rightarrow> hw" where
  "dac_apply axis (DacDelta v) = hw_write_dac_delta_threshold axis v"
| "dac_apply axis (DacDelay v) = hw_write_dac_delay axis v"
| "dac_apply axis (DacFirGain v) = hw_write_dac_fir_gain axis v"
| "dac_apply axis (DacMms s) = hw_write_dac_mms_source axis s"
| "dac_apply axis (DacDram b) = hw_write_dac_dram_source axis b"
| "dac_apply axis (DacTaps n ts) = hw_write_dac_taps n axis ts"

fun pll_apply :: "nat \<Rightarrow> pll_op \<Rightarrow> hw \<Rightarrow> hw" where
  "pll_apply axis (PllGain v) = hw_write_pll_nco_gain axis v"
| "pll_apply axis (PllDwell v) = hw_write_pll_dwell_time axis v"
| "pll_apply axis (PllBlanking b) = hw_write_pll_blanking axis b"
| "pll_apply axis (PllScaling v) = hw_write_pll_det_scaling axis v"
| "pll_apply axis (PllCordic b) = hw_write_pll_captured_cordic axis b"
| "pll_apply axis (PllDetConfig n sel x es) = hw_write_pll_det_config n axis sel x es"

fun seq_op_apply :: "nat \<Rightarrow> seq_op \<Rightarrow> hw \<Rightarrow> hw" where
  "seq_op_apply axis (SeqConfig c) = hw_write_seq_config axis c"
| "seq_op_apply axis (SeqBank0 b) = hw_write_seq_bank0 axis b"
| "seq_op_apply axis (SeqTrigger v) = hw_write_seq_trigger_state axis v"
| "seq_op_apply axis SeqAbort = hw_write_seq_abort axis"

fun bunch_apply :: "nat \<Rightarrow> bunch_op \<Rightarrow> hw \<Rightarrow> hw" where
  "bunch_apply axis (NcoGain nco g) = hw_write_nco_gain axis nco g"
| "bunch_apply axis (NcoTrack nco b) = hw_write_nco_track_pll axis nco b"
| "bunch_apply axis (NcoFrequency nco f) = hw_write_nco_frequency axis nco f"
| "bunch_apply axis (Decimation d) = hw_write_bunch_decimation axis d"
| "bunch_apply axis (FirTaps n fir ts) = hw_write_bunch_fir_taps n axis fir ts"
| "bunch_apply axis (BunchConfig n bank c) = hw_write_bunch_config n axis bank c"
| "bunch_apply axis (DetConfig n sel x c) = hw_write_det_config n axis sel x c"

fun hw_apply :: "hw_op \<Rightarrow> hw \<Rightarrow> hw" where
  "hw_apply (CtrlOp c) = ctrl_apply c"
| "hw_apply (AdcOp axis c) = adc_apply axis c"
| "hw_apply (DacOp axis c) = dac_apply axis c"
| "hw_apply (PllOp axis c) = pll_apply axis c"
| "hw_apply (SeqOp axis c) = seq_op_apply axis c"
| "hw_apply (BunchOp axis c) = bunch_apply axis c"

definition initial_hw :: hw where
  "initial_hw = \<lparr>mirror = (\<lambda>_. 0), trace = []\<rparr>"

definition hw_run :: "hw_op list \<Rightarrow> hw" where
  "hw_run ops = fold hw_apply ops initial_hw"

text \<open>The specification: the fields an operation gives a value to.\<close>

fun ctrl_gives :: "ctrl_op \<Rightarrow> (field \<times> u32) list" where
  "ctrl_gives (Lmbf b) = map (\<lambda>i. ((CTRL CONTROL, i, 1), of_bool b)) [0, 1, 2, 3, 4, 5]"
| "ctrl_gives (Loopback axis b) = [((CTRL CONTROL, 6 + of_bool axis, 1), of_bool b)]"
| "ctrl_gives (OutputEnable axis b) = [((CTRL CONTROL, 8 + of_bool axis, 1), of_bool b)]"
| "ctrl_gives (DramMux m) = [((CTRL (MEM MEM_CONFIG), 0, 4), take_bit 4 (ucast m))]"
| "ctrl_gives (BunchCount n) = [((CTRL (TRG_CONFIG CONFIG_TURN), 0, 11), take_bit 11 (n - 1))]"
| "ctrl_gives (TurnOffset n x) = (if x < n then [((CTRL (TRG_CONFIG CONFIG_TURN), 11, 11), take_bit 11 x)] else [])"
| "ctrl_gives (EnableMask t s) = [((CTRL (TRG_CONFIG (CONFIG_TRIG t)), 0, 9), trigger_sources_to_triggers_in s)]"
| "ctrl_gives (BlankingMask t s) = [((CTRL (TRG_CONFIG (CONFIG_TRIG t)), 9, 9), trigger_sources_to_triggers_in s)]"

fun adc_gives :: "adc_op \<Rightarrow> (adc_reg \<times> nat \<times> nat \<times> u32) list" where
  "adc_gives (AdcOverflow v) = [(ADC_LIMITS, 0, 14, v)]"
| "adc_gives (AdcDelta v) = [(ADC_LIMITS, 16, 16, v)]"
| "adc_gives (AdcReject v) = [(ADC_CONFIG, 4, 4, ucast v)]"
| "adc_gives (AdcMms v) = [(ADC_CONFIG, 0, 2, ucast v)]"
| "adc_gives (AdcDram v) = [(ADC_CONFIG, 2, 2, ucast v)]"
| "adc_gives (AdcTaps n ts) = []"

fun dac_gives :: "dac_op \<Rightarrow> (dac_reg \<times> nat \<times> nat \<times> u32) list" where
  "dac_gives (DacDelta v) = [(DAC_LIMITS, 0, 16, v)]"
| "dac_gives (DacDelay v) = [(DAC_CONFIG, 0, 11, v)]"
| "dac_gives (DacFirGain v) = [(DAC_CONFIG, 11, 4, ucast v)]"
| "dac_gives (DacMms s) = [(DAC_CONFIG, 15, 2, dac_mms_code s)]"
| "dac_gives (DacDram b) = [(DAC_CONFIG, 17, 1, of_bool b)]"
| "dac_gives (DacTaps n ts) = []"

text \<open>The dwell time of the PLL and the limit of the decimation are kept to 12 and 6 bits of their fields.\<close>

fun pll_gives :: "pll_op \<Rightarrow> (pll_reg \<times> nat \<times> nat \<times> u32) list" where
  "pll_gives (PllGain v) = [(PLL_CONFIG_EXTRA, 0, 18, v)]"
| "pll_gives (PllDwell v) = [(PLL_CONFIG, 6, 16, take_bit 12 (v - 1))]"
| "pll_gives (PllBlanking b) = [(PLL_CONFIG, 23, 1, of_bool b)]"
| "pll_gives (PllScaling v) = [(PLL_CONFIG, 2, 2, ucast v)]"
| "pll_gives (PllCordic b) = [(PLL_CONFIG, 5, 1, of_bool b)]"
| "pll_gives (PllDetConfig n sel x es) = [(PLL_CONFIG, 0, 2, ucast sel)]"

fun seq_gives :: "seq_op \<Rightarrow> (nat \<times> nat \<times> u32) list" where
  "seq_gives (SeqConfig c) = [(17, 2, 2), (6, 11, super_seq_count c - 1), (0, 3, sequencer_pc c)]"
| "seq_gives (SeqBank0 b) = [(17, 2, 0)]"
| "seq_gives (SeqTrigger v) = [(3, 3, v)]"
| "seq_gives SeqAbort = []"

fun bunch_gives :: "bunch_op \<Rightarrow> (dsp_reg \<times> nat \<times> nat \<times> u32) list" where
  "bunch_gives (NcoGain nco g) = [(NCO (NCO_GAIN nco), 0, 18, g)]"
| "bunch_gives (NcoTrack nco b) = [(NCO (NCO_GAIN nco), 18, 1, of_bool b)]"
| "bunch_gives (Decimation d) = [(FIR FIR_CONFIG, 2, 7, take_bit 6 (d - 1)), (FIR FIR_CONFIG, 9, 3, decimation_shift d)]"
| "bunch_gives (FirTaps n fir ts) = [(FIR FIR_CONFIG, 0, 2, ucast fir)]"
| "bunch_gives _ = []"

definition dsp_gives :: "nat \<Rightarrow> ('r \<Rightarrow> dsp_reg) \<Rightarrow> ('r \<times> nat \<times> nat \<times> u32) list \<Rightarrow> (field \<times> u32) list" where
  "dsp_gives axis f = map (\<lambda>(r, off, w, v). ((DSP axis (f r), off, w), take_bit w v))"

fun gives :: "hw_op \<Rightarrow> (field \<times> u32) list" where
  "gives (CtrlOp c) = ctrl_gives c"
| "gives (AdcOp axis c) = dsp_gives axis ADC (adc_gives c)"
| "gives (DacOp axis c) = dsp_gives axis DAC (dac_gives c)"
| "gives (PllOp axis c) = dsp_gives axis PLL (pll_gives c)"
| "gives (SeqOp axis c) = dsp_gives axis (\<lambda>_. SEQ SEQ_CONFIG) (map (Pair ()) (seq_gives c))"
| "gives (BunchOp axis c) = dsp_gives axis id (bunch_gives c)"

definition spec_run :: "hw_op list \<Rightarrow> field \<Rightarrow> u32" where
  "spec_run ops = fold (\<lambda>c. given (gives c)) ops (\<lambda>_. 0)"

section \<open>Simulation\<close>

lemma sets_simps [simp]: "sets r [] h = h" "sets r ((off, w, v) # fs) h = sets r fs (set_mirror r off w v h)"
  by (simp_all add: sets_def)

lemma put_of_simps [simp]: "put_of r [] = []" "put_of r ((off, w, v) # fs) = ((r, off, w), take_bit w v) # put_of r fs"
  by (simp_all add: put_of_def)

lemma dsp_gives_simps [simp]:
  "dsp_gives axis f [] = []"
  "dsp_gives axis f ((r, off, w, v) # fs) = ((DSP axis (f r), off, w), take_bit w v) # dsp_gives axis f fs"
  by (simp_all add: dsp_gives_def)

lemma take_bit_masked:
  "take_bit 18 (v AND 0x3FFFF) = take_bit 18 (v::u32)" "take_bit 14 (v AND 0x3FFF) = take_bit 14 v"
  "take_bit 16 (v AND 0xFFFF) = take_bit 16 v" "take_bit 4 (v AND 0xF) = take_bit 4 v" "take_bit 2 (v AND 3) = take_bit 2 v"
  "take_bit 11 (v AND 0x7FF) = take_bit 11 v" "take_bit 3 (v AND 7) = take_bit 3 v" "take_bit 9 (v AND 0x1FF) = take_bit 9 v"
  "take_bit 16 (v AND 0xFFF) = take_bit 16 (take_bit 12 v)" "take_bit 7 (v AND 0x3F) = take_bit 7 (take_bit 6 v)"
proof -
  have "0x3FFFF = (mask 18 :: u32)" "0x3FFF = (mask 14 :: u32)" "0xFFFF = (mask 16 :: u32)" "0xF = (mask 4 :: u32)"
    "3 = (mask 2 :: u32)" "0x7FF = (mask 11 :: u32)" "7 = (mask 3 :: u32)" "0x1FF = (mask 9 :: u32)"
    "0xFFF = (mask 12 :: u32)" "0x3F = (mask 6 :: u32)"
    by (simp_all add: mask_eq_exp_minus_1)
  then show "take_bit 18 (v AND 0x3FFFF) = take_bit 18 (v::u32)" "take_bit 14 (v AND 0x3FFF) = take_bit 14 v"
    "take_bit 16 (v AND 0xFFFF) = take_bit 16 v" "take_bit 4 (v AND 0xF) = take_bit 4 v" "take_bit 2 (v AND 3) = take_bit 2 v"
    "take_bit 11 (v AND 0x7FF) = take_bit 11 v" "take_bit 3 (v AND 7) = take_bit 3 v" "take_bit 9 (v AND 0x1FF) = take_bit 9 v"
    "take_bit 16 (v AND 0xFFF) = take_bit 16 (take_bit 12 v)" "take_bit 7 (v AND 0x3F) = take_bit 7 (take_bit 6 v)"
    by (simp_all only: take_bit_eq_mask [symmetric] take_bit_take_bit min.idem)
qed

lemma abstracts_dsp_mirror:
  "abstracts s h \<Longrightarrow> (off, w) \<in> set (dsp_fields r) \<Longrightarrow> take_bit w v' = take_bit w v \<Longrightarrow>
     abstracts (s((DSP axis r, off, w) := take_bit w v)) (WRITE_DSP_MIRROR axis r off w v' h)"
  using abstracts_write [of s h "[(off, w, v')]" "DSP axis r"] by (simp add: WRITE_DSP_MIRROR_def)

lemmas adc_op_defs = hw_write_adc_overflow_threshold_def hw_write_adc_delta_threshold_def hw_write_adc_reject_shift_def
  hw_write_adc_mms_source_def hw_write_adc_dram_source_def hw_write_adc_taps_def

lemma abstracts_adc: "abstracts s h \<Longrightarrow> abstracts (given (dsp_gives axis ADC (adc_gives c)) s) (adc_apply axis c h)"
  by (cases c; simp only: adc_gives.simps adc_apply.simps dsp_gives_simps given_simps adc_op_defs)
    (simp_all only: abstracts_quiet fields_of.simps dsp_fields.simps adc_fields.simps,
      (rule abstracts_dsp_mirror, assumption, simp, rule take_bit_masked refl)+)

lemmas dac_op_defs = hw_write_dac_delta_threshold_def hw_write_dac_delay_def hw_write_dac_fir_gain_def
  hw_write_dac_mms_source_def hw_write_dac_dram_source_def hw_write_dac_taps_def

lemma abstracts_dac: "abstracts s h \<Longrightarrow> abstracts (given (dsp_gives axis DAC (dac_gives c)) s) (dac_apply axis c h)"
  by (cases c; simp only: dac_gives.simps dac_apply.simps dsp_gives_simps given_simps dac_op_defs)
    (simp_all only: abstracts_quiet fields_of.simps dsp_fields.simps dac_fields.simps,
      (rule abstracts_dsp_mirror, assumption, simp, rule take_bit_masked refl)+)

lemmas pll_op_defs = hw_write_pll_nco_gain_def hw_write_pll_dwell_time_def hw_write_pll_blanking_def
  hw_write_pll_det_scaling_def hw_write_pll_captured_cordic_def hw_write_pll_det_config_def write_det_bunch_enable_array_def

lemma abstracts_pll: "abstracts s h \<Longrightarrow> abstracts (given (dsp_gives axis PLL (pll_gives c)) s) (pll_apply axis c h)"
  by (cases c; simp only: pll_gives.simps pll_apply.simps dsp_gives_simps given_simps pll_op_defs;
      (rule abstracts_quiet abstracts_WRITE_FIELDS)?; (rule abstracts_quiet)?; (simp only: fields_of.simps dsp_fields.simps)?;
      (rule abstracts_dsp_mirror, assumption, simp, rule take_bit_masked refl)?)

lemma abstracts_sequencer_state: "abstracts s h \<Longrightarrow> abstracts s (write_sequencer_state axis state0 e h)"
  unfolding write_sequencer_state_def Let_def
  by (intro abstracts_writel abstracts_WRITE_FIELDS) simp_all

lemma abstracts_seq_target:
  "abstracts s h \<Longrightarrow> abstracts (s((DSP axis (SEQ SEQ_CONFIG), 17, 2) := take_bit 2 n)) (seq_target axis n h)"
  unfolding seq_target_def
  by (rule abstracts_dsp_mirror) (simp_all add: abstracts_WRITE_FIELDS)

lemma abstracts_entries:
  "abstracts s h \<Longrightarrow>
     abstracts (s((DSP axis (SEQ SEQ_CONFIG), 17, 2) := take_bit 2 0)) (write_sequencer_entries axis bank es h)"
  unfolding write_sequencer_entries_def Let_def
  by (cases es) (auto intro!: abstracts_sequencer_state abstracts_seq_target abstracts_fold simp del: take_bit_of_0)

lemma abstracts_super_entries:
  "abstracts s h \<Longrightarrow>
     abstracts (s((DSP axis (SEQ SEQ_CONFIG), 17, 2) := take_bit 2 2, (DSP axis (SEQ SEQ_CONFIG), 6, 11) := take_bit 11 (cnt - 1)))
       (write_sequencer_super_entries axis cnt offsets h)"
  unfolding write_sequencer_super_entries_def Let_def
  using abstracts_write [of s "WRITE_FIELDS (DSP axis (SEQ SEQ_COMMAND)) [(1, 1, 1)] h"
      "[(17, 2, 2), (6, 11, (cnt - 1) AND 0x7FF)]" "DSP axis (SEQ SEQ_CONFIG)"]
  by (intro abstracts_writes) (simp_all add: abstracts_WRITE_FIELDS take_bit_masked del: take_bit_and)

lemma abstracts_seq: "abstracts s h \<Longrightarrow>
    abstracts (given (dsp_gives axis (\<lambda>_. SEQ SEQ_CONFIG) (map (Pair ()) (seq_gives c))) s) (seq_op_apply axis c h)"
proof (cases c)
  case (SeqConfig x1)
  assume h: "abstracts s h"
  let ?r = "DSP axis (SEQ SEQ_CONFIG)"
  have "abstracts (s((?r, 17, 2) := take_bit 2 0, (?r, 17, 2) := take_bit 2 1, (?r, 17, 2) := take_bit 2 2,
      (?r, 6, 11) := take_bit 11 (super_seq_count x1 - 1), (?r, 0, 3) := take_bit 3 (sequencer_pc x1))) (seq_op_apply axis c h)"
    unfolding SeqConfig seq_op_apply.simps hw_write_seq_config_def Let_def write_sequencer_window_def
    by (intro abstracts_dsp_mirror abstracts_super_entries abstracts_writes abstracts_seq_target abstracts_entries h
        take_bit_masked) simp_all
  then show ?thesis by (simp add: SeqConfig)
next
  case (SeqBank0 x2)
  then show "abstracts s h \<Longrightarrow> ?thesis"
    using abstracts_entries [of s h axis x2 None] by (simp add: hw_write_seq_bank0_def)
next
  case (SeqTrigger x3)
  then show "abstracts s h \<Longrightarrow> ?thesis"
    using abstracts_dsp_mirror [OF _ _ take_bit_masked(7) [of x3], of s h 3 "SEQ SEQ_CONFIG" axis]
    by (simp add: hw_write_seq_trigger_state_def)
next
  case SeqAbort
  then show "abstracts s h \<Longrightarrow> ?thesis" by (simp add: hw_write_seq_abort_def abstracts_WRITE_FIELDS)
qed

lemma abstracts_decimation:
  "abstracts s h \<Longrightarrow>
     abstracts (s((DSP axis (FIR FIR_CONFIG), 2, 7) := take_bit 7 (take_bit 6 (d - 1)),
         (DSP axis (FIR FIR_CONFIG), 9, 3) := take_bit 3 (decimation_shift d))) (hw_write_bunch_decimation axis d h)"
  using abstracts_write [of s h "[(2, 7, (d - 1) AND 0x3F), (9, 3, decimation_shift d AND 7)]" "DSP axis (FIR FIR_CONFIG)"]
  by (simp add: hw_write_bunch_decimation_def take_bit_masked del: take_bit_and take_bit_take_bit)

lemma abstracts_bunch_config: "abstracts s h \<Longrightarrow> abstracts s (hw_write_bunch_config n axis bank c h)"
  unfolding hw_write_bunch_config_def Let_def
  by (intro abstracts_fold abstracts_WRITE_FIELDS) (auto intro: abstracts_writel)

lemma abstracts_det_config: "abstracts s h \<Longrightarrow> abstracts s (hw_write_det_config n axis sel x c h)"
  unfolding hw_write_det_config_def write_det_bunch_enable_def write_det_bunch_enable_array_def
  by (intro abstracts_fold abstracts_writes abstracts_WRITE_FIELDS abstracts_writel) simp_all

lemma abstracts_frequency:
  "abstracts s h \<Longrightarrow> fields_of low = [] \<Longrightarrow> fields_of high = [] \<Longrightarrow> abstracts s (write_frequency low high f h)"
  by (simp add: write_frequency_def abstracts_WRITE_FIELDS abstracts_writel)

lemma abstracts_bunch: "abstracts s h \<Longrightarrow> abstracts (given (dsp_gives axis id (bunch_gives c)) s) (bunch_apply axis c h)"
proof (cases c)
  case (Decimation d)
  then show "abstracts s h \<Longrightarrow> ?thesis" using abstracts_decimation [of s h axis d] by simp
next
  case (FirTaps n fir ts)
  then show "abstracts s h \<Longrightarrow> ?thesis"
    unfolding FirTaps bunch_gives.simps bunch_apply.simps dsp_gives_simps given_simps hw_write_bunch_fir_taps_def
    by (intro abstracts_writes) (simp_all only: id_apply, intro abstracts_dsp_mirror take_bit_masked, simp_all)
next
  case (NcoGain nco g)
  then show "abstracts s h \<Longrightarrow> ?thesis"
    unfolding NcoGain bunch_gives.simps bunch_apply.simps dsp_gives_simps given_simps hw_write_nco_gain_def id_apply
    by (intro abstracts_dsp_mirror take_bit_masked) simp_all
next
  case (NcoTrack nco b)
  then show "abstracts s h \<Longrightarrow> ?thesis"
    unfolding NcoTrack bunch_gives.simps bunch_apply.simps dsp_gives_simps given_simps hw_write_nco_track_pll_def id_apply
    by (intro abstracts_dsp_mirror refl) simp_all
qed (simp_all add: abstracts_bunch_config abstracts_det_config abstracts_frequency hw_write_nco_frequency_def)

text \<open>One bit of a two-bit field, read, changed and written back.\<close>

lemma put_selected_bit:
  "i < 2 \<Longrightarrow> off + 2 \<le> 32 \<Longrightarrow>
     put_field off 2 (write_selected_bit (get_field off 2 m) i b AND 3) m = put_field (off + i) 1 (of_bool b) m"
proof (rule bit_word_eqI, goal_cases)
  case (1 n)
  have three: "bit (3 :: u32) k \<longleftrightarrow> k < 2" for k
    using bit_mask_iff [of 2 k, where ?'a = u32] by (auto simp: mask_eq_exp_minus_1)
  consider "n < off" | "n = off" | "n = Suc off" | "off + 2 \<le> n" by linarith
  then show ?case
    using 1 by cases
      (cases "i = 0"; cases b; auto simp: bit_put_field write_selected_bit_def bit_simps three bit_get_field less_2_cases_iff bit_1_iff)+
qed

lemma bit_pack_flag: "bit (put_field off 1 (of_bool b) r) n = (if n = off \<and> n < 32 then b else bit r n)"
  by (auto simp: bit_put_field bit_1_iff dest: bit_imp_le_length)

lemma of_bool_mod_2 [simp]: "of_bool b mod 2 = (of_bool b :: u32)"
  by (cases b) simp_all

lemma abstracts_selected:
  assumes "abstracts s h" "(off + of_bool axis, 1) \<in> set (fields_of r)" "off + 2 \<le> 32"
  shows "abstracts (s((r, off + of_bool axis, 1) := of_bool b))
    (write_mirror r (set_mirror r off 2 (write_selected_bit (get_field off 2 (mirror h r)) (of_bool axis) b AND 3) h))"
proof -
  have "set_mirror r off 2 (write_selected_bit (get_field off 2 (mirror h r)) (of_bool axis) b AND 3) h =
      set_mirror r (off + of_bool axis) 1 (of_bool b) h"
    using put_selected_bit [of "of_bool axis" off "mirror h r" b] assms(3) by (simp add: set_mirror_def)
  then show ?thesis using abstracts_write [of s h "[(off + of_bool axis, 1, of_bool b)]" r] assms by simp
qed

lemma take_9_triggers: "take_bit 9 (trigger_sources_to_triggers_in s AND 0x1FF) = trigger_sources_to_triggers_in s"
proof (rule bit_word_eqI)
  fix n
  have "bit (trigger_sources_to_triggers_in s) n \<Longrightarrow> n < 9"
    by (auto simp: trigger_sources_to_triggers_in_def pack_def bit_pack_flag simp del: One_nat_def split: if_splits)
  then show "bit (take_bit 9 (trigger_sources_to_triggers_in s AND 0x1FF)) n = bit (trigger_sources_to_triggers_in s) n"
    unfolding take_bit_masked by (auto simp: bit_simps)
qed

lemma abstracts_ctrl_mirror:
  "abstracts s h \<Longrightarrow> (off, w) \<in> set (ctrl_fields r) \<Longrightarrow> take_bit w v' = v \<Longrightarrow>
     abstracts (s((CTRL r, off, w) := v)) (write_mirror (CTRL r) (set_mirror (CTRL r) off w v' h))"
  using abstracts_write [of s h "[(off, w, v')]" "CTRL r"] by simp

lemma abstracts_ctrl: "abstracts s h \<Longrightarrow> abstracts (given (ctrl_gives c) s) (ctrl_apply c h)"
proof (cases c)
  case (Lmbf b)
  then show "abstracts s h \<Longrightarrow> ?thesis"
    using abstracts_write [of s h "map (\<lambda>i. (i, 1, of_bool b)) [0, 1, 2, 3, 4, 5]" "CTRL CONTROL"]
    by (simp add: hw_write_lmbf_mode_def)
next
  case (Loopback axis b)
  then show "abstracts s h \<Longrightarrow> ?thesis"
    using abstracts_selected [of s h 6 axis "CTRL CONTROL" b] by (simp add: hw_write_loopback_enable_def)
next
  case (OutputEnable axis b)
  then show "abstracts s h \<Longrightarrow> ?thesis"
    using abstracts_selected [of s h 8 axis "CTRL CONTROL" b] by (simp add: hw_write_output_enable_def)
next
  case (DramMux m)
  then show "abstracts s h \<Longrightarrow> ?thesis"
    by (simp only: ctrl_gives.simps ctrl_apply.simps given_simps hw_write_dram_mux_def)
      (rule abstracts_ctrl_mirror, assumption, simp, rule take_bit_masked)
next
  case (BunchCount n)
  then show "abstracts s h \<Longrightarrow> ?thesis"
    by (simp only: ctrl_gives.simps ctrl_apply.simps given_simps hw_write_bunch_count_def)
      (rule abstracts_ctrl_mirror, assumption, simp, rule take_bit_masked)
next
  case (TurnOffset n x)
  then show "abstracts s h \<Longrightarrow> ?thesis"
    by (cases "x < n"; simp only: ctrl_gives.simps ctrl_apply.simps given_simps hw_write_turn_clock_offset_def if_True if_False option.case)
      (rule abstracts_ctrl_mirror, assumption, simp, rule take_bit_masked)
next
  case (EnableMask t x)
  then show "abstracts s h \<Longrightarrow> ?thesis"
    by (simp only: ctrl_gives.simps ctrl_apply.simps given_simps hw_write_trigger_enable_mask_def)
      (rule abstracts_ctrl_mirror, assumption, simp, rule take_9_triggers)
next
  case (BlankingMask t x)
  then show "abstracts s h \<Longrightarrow> ?thesis"
    by (simp only: ctrl_gives.simps ctrl_apply.simps given_simps hw_write_trigger_blanking_mask_def)
      (rule abstracts_ctrl_mirror, assumption, simp, rule take_9_triggers)
qed

lemma abstracts_step: "abstracts s h \<Longrightarrow> abstracts (given (gives c) s) (hw_apply c h)"
  by (cases c) (simp_all add: abstracts_ctrl abstracts_adc abstracts_dac abstracts_pll abstracts_seq abstracts_bunch)

lemma abstracts_run: "abstracts (spec_run ops) (hw_run ops)"
proof -
  have "abstracts (fold (\<lambda>c. given (gives c)) ops s) (fold hw_apply ops h)" if "abstracts s h" for s h
    using that by (induction ops arbitrary: s h) (simp_all add: abstracts_step)
  moreover have "abstracts (\<lambda>_. 0) initial_hw"
    by (auto simp: abstracts_def held_def synced_def initial_hw_def reg_value_def)
  ultimately show ?thesis by (simp add: spec_run_def hw_run_def)
qed

text \<open>C7 The writes to the hardware refine a register file of independent fields: after any sequence of
  operations on the control and signal processing registers, of both axes in any interleaving, every
  field of every register that is written field by field holds, in the hardware, the value last given to
  that field alone, and 0 if none was.\<close>

theorem hardware_fields_refine:
  "map (\<lambda>(off, w). get_field off w (reg_value (hw_run ops) r)) (fields_of r) =
   map (\<lambda>(off, w). spec_run ops (r, off, w)) (fields_of r)"
proof (cases "fields_of r = []")
  case False
  then have "reg_value (hw_run ops) r = mirror (hw_run ops) r"
    using abstracts_run [of ops] by (auto simp: abstracts_def synced_def)
  then show ?thesis using abstracts_run [of ops] by (auto simp: abstracts_def held_def)
qed simp

end
