(* ===== verification/Hardware_Words.thy ===== *)
theory Hardware_Words
  imports Hardware_Refinement
begin

unbundle bit_operations_syntax

text \<open>
  What the words written to the hardware mean: bunch enables, sequencer states, the bunch
  configuration, trigger sources, frequencies, the decimation and the dwell time of the PLL.
\<close>

section \<open>Bunch enables\<close>

text \<open>\<open>n\<close> bunches done: the words before \<open>n\<close> and the bits of the word begun.\<close>

definition enables_done :: "nat \<Rightarrow> nat \<Rightarrow> bool list \<Rightarrow> nat \<Rightarrow> u32 \<times> nat \<times> u32 list \<Rightarrow> bool" where
  "enables_done bs d es n = (\<lambda>(bits, j, ws).
     j = (n + d) mod bs \<and> length ws = n div 32 \<and>
     (\<forall>i < 32 * (n div 32). bit (ws ! (i div 32)) (i mod 32) = es ! ((i + d) mod bs)) \<and>
     (\<forall>k. bit bits k = (k < n mod 32 \<and> es ! ((32 * (n div 32) + k + d) mod bs))))"

lemma next_index: "j = (n + d) mod bs \<Longrightarrow> 0 < bs \<Longrightarrow> (if j + 1 < bs then j + 1 else 0) = (Suc n + d) mod bs"
  by (simp add: mod_Suc) (use mod_less_divisor [of bs "n + d"] in linarith)

lemma enables_step:
  assumes "enables_done bs d es n st" "0 < bs"
  shows "enables_done bs d es (Suc n) (enable_step bs es n st)"
proof -
  obtain bits j ws where st: "st = (bits, j, ws)" by (cases st) auto
  have j: "j = (n + d) mod bs" and l: "length ws = n div 32"
    and w: "\<And>i. i < 32 * (n div 32) \<Longrightarrow> bit (ws ! (i div 32)) (i mod 32) = es ! ((i + d) mod bs)"
    and b: "\<And>k. bit bits k = (k < n mod 32 \<and> es ! ((32 * (n div 32) + k + d) mod bs))"
    using assms(1) by (auto simp: enables_done_def st)
  let ?bits = "bits OR push_bit (n mod 32) (of_bool (es ! j))"
  have n: "32 * (n div 32) + n mod 32 = n" by simp
  have bits: "bit ?bits k = (k < Suc (n mod 32) \<and> es ! ((32 * (n div 32) + k + d) mod bs))" for k
  proof (cases "k = n mod 32")
    case True
    have "n mod 32 < 32" by simp
    then show ?thesis using True n by (auto simp: bit_simps b j bit_1_iff)
  qed (auto simp: bit_simps b bit_1_iff)
  show ?thesis
  proof (cases "n mod 32 = 31")
    case True
    then have d32: "Suc n div 32 = Suc (n div 32)" "Suc n mod 32 = 0" by (simp_all add: div_Suc mod_Suc)
    have "bit ((ws @ [?bits]) ! (i div 32)) (i mod 32) = es ! ((i + d) mod bs)" if i: "i < 32 * Suc (n div 32)" for i
    proof (cases "i < 32 * (n div 32)")
      case True
      then have "i div 32 < length ws" using l by (simp add: less_mult_imp_div_less mult.commute)
      then show ?thesis using w True by (simp add: nth_append)
    next
      case False
      then have "i div 32 = n div 32" using i by (simp add: div_nat_eqI mult.commute)
      moreover have "32 * (i div 32) + i mod 32 = i" by simp
      ultimately show ?thesis using bits [of "i mod 32"] True l by (simp add: nth_append)
    qed
    then show ?thesis using d32 True l next_index [OF j assms(2)] by (auto simp: enable_step_def enables_done_def st Let_def)
  next
    case False
    then have "Suc n div 32 = n div 32" "Suc n mod 32 = Suc (n mod 32)" by (auto simp: div_Suc mod_Suc split: if_splits)
    then show ?thesis using False w bits l next_index [OF j assms(2)]
      by (auto simp: enable_step_def enables_done_def st Let_def)
  qed
qed

lemma enables_all:
  assumes "d < bs"
  shows "enables_done bs d es n (fold (enable_step bs es) [0..<n] (0, d, []))"
proof (induction n)
  case 0
  then show ?case using assms by (simp add: enables_done_def)
next
  case (Suc n)
  then show ?case using enables_step [of bs d es n] assms by simp
qed

lemma words_of: "(n + 31) div 32 = (if n mod 32 = 0 then n div 32 else Suc (n div 32))" for n :: nat
proof -
  define q r where "q = n div 32" and "r = n mod 32"
  have n: "n = 32 * q + r" and r: "r < 32" by (simp_all add: q_def r_def)
  have "(32 * q + r + 31) div 32 = q + (r + 31) div 32"
    by (metis add.assoc div_mult_self4 zero_neq_numeral)
  moreover have "(r + 31) div 32 = (if r = 0 then 0 else 1)" using r by (auto intro: div_nat_eqI)
  ultimately show ?thesis unfolding q_def [symmetric] r_def [symmetric] n [symmetric] by simp
qed

lemma enable_words_bit:
  assumes "delay < bunches" and i: "i < 32 * ((bunches + 31) div 32)"
  shows "bit (enable_words bunches delay enables ! (i div 32)) (i mod 32) = (i < bunches \<and> enables ! ((i + delay) mod bunches))"
    and "length (enable_words bunches delay enables) = (bunches + 31) div 32"
proof -
  obtain bits j ws where f: "fold (enable_step bunches enables) [0..<bunches] (0, delay, []) = (bits, j, ws)"
    by (metis prod_cases3)
  have l: "length ws = bunches div 32"
    and w: "\<And>i. i < 32 * (bunches div 32) \<Longrightarrow> bit (ws ! (i div 32)) (i mod 32) = enables ! ((i + delay) mod bunches)"
    and b: "\<And>k. bit bits k = (k < bunches mod 32 \<and> enables ! ((32 * (bunches div 32) + k + delay) mod bunches))"
    using enables_all [OF assms(1), of enables bunches] by (auto simp: f enables_done_def)
  have e: "enable_words bunches delay enables = (if bunches mod 32 \<noteq> 0 then ws @ [bits] else ws)"
    by (simp add: enable_words_def f)
  show "length (enable_words bunches delay enables) = (bunches + 31) div 32" using l by (simp add: e words_of)
  show "bit (enable_words bunches delay enables ! (i div 32)) (i mod 32) = (i < bunches \<and> enables ! ((i + delay) mod bunches))"
  proof (cases "i < 32 * (bunches div 32)")
    case True
    then have "i div 32 < length ws" using l by (simp add: less_mult_imp_div_less mult.commute)
    moreover have "i < bunches" using True by (meson less_le_trans times_div_less_eq_dividend)
    ultimately show ?thesis using w [OF True] by (simp add: e nth_append)
  next
    case False
    then have m: "bunches mod 32 \<noteq> 0" using i by (auto simp: words_of split: if_splits)
    then have d: "i div 32 = bunches div 32" using i False by (simp add: words_of div_nat_eqI mult.commute)
    then have ii: "32 * (bunches div 32) + i mod 32 = i" by (metis mult_div_mod_eq)
    have "i mod 32 < bunches mod 32 \<longleftrightarrow> i < bunches" using ii mult_div_mod_eq [of 32 bunches] by linarith
    moreover have "enable_words bunches delay enables ! (i div 32) = bits" using m d l by (simp add: e nth_append)
    ultimately show ?thesis using b [of "i mod 32"] by (simp only: ii)
  qed
qed

text \<open>The words of bunch enables given to a detector hold exactly the enables, rotated by the delay:
  read bit by bit they are the enable of bunch \<open>i\<close> + delay modulo the number of bunches for each bunch,
  then clear bits up to the end of the last word.\<close>

theorem bunch_enables_packed:
  assumes "delay < bunches"
  shows "let ws = enable_words bunches delay enables; n = 32 * ((bunches + 31) div 32)
    in length ws = (bunches + 31) div 32 \<and>
       map (\<lambda>i. bit (ws ! (i div 32)) (i mod 32)) [0..<n] =
         map (\<lambda>i. enables ! ((i + delay) mod bunches)) [0..<bunches] @ replicate (n - bunches) False"
proof -
  define n where "n = 32 * ((bunches + 31) div 32)"
  have "bunches \<le> 32 * Suc (bunches div 32)" using dividend_less_times_div [of 32 bunches] by simp
  moreover have "bunches \<le> 32 * (bunches div 32)" if "bunches mod 32 = 0" using that by auto
  ultimately have n: "bunches \<le> n" unfolding n_def words_of by (simp split: if_split)
  have "0 < (bunches + 31) div 32" using assms by simp
  then have l: "length (enable_words bunches delay enables) = (bunches + 31) div 32"
    using enable_words_bit(2) [OF assms, of 0] by simp
  have "map (\<lambda>i. bit (enable_words bunches delay enables ! (i div 32)) (i mod 32)) [0..<n] =
      map (\<lambda>i. enables ! ((i + delay) mod bunches)) [0..<bunches] @ replicate (n - bunches) False"
    by (rule nth_equalityI) (use n enable_words_bit(1) [OF assms] in \<open>auto simp: nth_append n_def\<close>)
  then show ?thesis using l by (simp only: Let_def n_def conj_absorb simp_thms)
qed

theorem bunch_enables_packed_witness:
  "let ws = enable_words 5 2 [True, False, True, True, False]
   in length ws = 1 \<and> map (\<lambda>i. bit (ws ! (i div 32)) (i mod 32)) [0..<32] =
        [True, True, False, True, False] @ replicate 27 False"
proof -
  have "[0..<5] = [0::nat, 1, 2, 3, 4]" by (simp add: upt_rec)
  then show ?thesis
    using bunch_enables_packed [of 2 5 "[True, False, True, True, False]"] by (simp only: Let_def) simp
qed

section \<open>The program of the sequencer\<close>

text \<open>The reading of the eight words of a state, and of the two words of an offset.\<close>

definition decode_state :: "u32 list \<Rightarrow> bool \<times> seq_entry" where
  "decode_state ws =
     (get_field 25 1 (ws ! 4) = 1,
      \<lparr>start_freq = ucast (ws ! 0) OR push_bit 32 (ucast (get_field 0 16 (ws ! 2))),
       delta_freq = ucast (ws ! 1) OR push_bit 32 (ucast (get_field 16 16 (ws ! 2))),
       dwell_time = get_field 0 16 (ws ! 3) + 1, capture_count = get_field 16 16 (ws ! 3) + 1,
       bunch_bank = ucast (get_field 0 2 (ws ! 4)), nco_gain = get_field 2 18 (ws ! 4), window_rate = ws ! 5,
       enable_window = flag 20 (ws ! 4), write_enable = flag 21 (ws ! 4), enable_blanking = flag 22 (ws ! 4),
       reset_phase = flag 23 (ws ! 4), use_tune_pll = flag 24 (ws ! 4),
       holdoff = get_field 0 16 (ws ! 6), state_holdoff = get_field 16 16 (ws ! 6)\<rparr>)"

definition encode_state :: "bool \<Rightarrow> seq_entry \<Rightarrow> u32 list" where
  "encode_state state0 e =
     [pack [(0, 32, ucast (start_freq e AND 0xFFFFFFFF))], pack [(0, 32, ucast (delta_freq e AND 0xFFFFFFFF))],
      pack [(0, 16, ucast (drop_bit 32 (start_freq e) AND 0xFFFF)), (16, 16, ucast (drop_bit 32 (delta_freq e) AND 0xFFFF))],
      pack [(0, 16, (dwell_time e - 1) AND 0xFFFF), (16, 16, (capture_count e - 1) AND 0xFFFF)],
      pack [(0, 2, ucast (bunch_bank e) AND 3), (2, 18, nco_gain e AND 0x3FFFF),
            (20, 1, of_bool (enable_window e)), (21, 1, of_bool (write_enable e)), (22, 1, of_bool (enable_blanking e)),
            (23, 1, of_bool (reset_phase e)), (24, 1, of_bool (use_tune_pll e)), (25, 1, of_bool state0)],
      window_rate e, pack [(0, 16, holdoff e AND 0xFFFF), (16, 16, state_holdoff e AND 0xFFFF)], 0]"

text \<open>The values the fields can hold.\<close>

definition entry_fits :: "seq_entry \<Rightarrow> bool" where
  "entry_fits e \<longleftrightarrow> take_bit 48 (start_freq e) = start_freq e \<and> take_bit 48 (delta_freq e) = delta_freq e \<and>
     take_bit 16 (dwell_time e - 1) = dwell_time e - 1 \<and> take_bit 16 (capture_count e - 1) = capture_count e - 1 \<and>
     take_bit 2 (bunch_bank e) = bunch_bank e \<and> take_bit 18 (nco_gain e) = nco_gain e \<and>
     take_bit 16 (holdoff e) = holdoff e \<and> take_bit 16 (state_holdoff e) = state_holdoff e"

lemma get_pack:
  "get_field off w (pack []) = 0"
  "off + w \<le> 32 \<Longrightarrow> get_field off w (pack (fs @ [(off, w, v)])) = take_bit w v"
  "off + w \<le> 32 \<Longrightarrow> off + w \<le> off' \<or> off' + w' \<le> off \<Longrightarrow>
     get_field off w (pack (fs @ [(off', w', v)])) = get_field off w (pack fs)"
  by (simp_all add: pack_def get_put_same get_put_other)

lemma flag_put:
  "off < 32 \<Longrightarrow> flag off (put_field off 1 (of_bool b) r) = b"
  "off < 32 \<Longrightarrow> off < off' \<or> off' + w' \<le> off \<Longrightarrow> flag off (put_field off' w' v r) = flag off r"
proof -
  assume o: "off < 32"
  have t: "take_bit 1 (of_bool b :: u32) = of_bool b" by (cases b) simp_all
  show "flag off (put_field off 1 (of_bool b) r) = b" using o by (simp only: flag_def get_put_same t) simp
  show "off < off' \<or> off' + w' \<le> off \<Longrightarrow> flag off (put_field off' w' v r) = flag off r"
    using o by (auto simp: flag_def get_put_other)
qed

lemma split_48:
  fixes x :: u64
  assumes "take_bit 48 x = x"
  shows "ucast (take_bit 32 (ucast (x AND 0xFFFFFFFF) :: u32)) OR
      push_bit 32 (ucast (take_bit 16 (ucast (drop_bit 32 x AND 0xFFFF) :: u32))) = x"
proof -
  have m: "y AND 0xFFFFFFFF = take_bit 32 y" "y AND 0xFFFF = take_bit 16 y" for y :: u64
    by (simp_all add: take_bit_eq_mask mask_eq_exp_minus_1)
  show ?thesis unfolding m
  proof (rule bit_word_eqI)
    fix n assume n: "n < LENGTH(64)"
    have "bit x n = (n < 48 \<and> bit x n)" by (metis assms bit_take_bit_iff)
    then show "bit (ucast (take_bit 32 (ucast (take_bit 32 x) :: u32)) OR
        push_bit 32 (ucast (take_bit 16 (ucast (take_bit 16 (drop_bit 32 x)) :: u32))) :: u64) n = bit x n"
      using n by (auto simp: bit_simps)
  qed
qed

lemma split_64: "ucast (ucast x :: u32) OR push_bit 32 (ucast (ucast (drop_bit 32 x) :: u32)) = (x :: u64)"
  by (rule bit_word_eqI) (auto simp: bit_simps)

lemma ucast_bank: "take_bit 2 b = b \<Longrightarrow> ucast (take_bit 2 (ucast b :: u32)) = (b :: u16)"
proof (rule bit_word_eqI)
  fix n assume b: "take_bit 2 b = b" and n: "n < LENGTH(16)"
  have "bit b n = (n < 2 \<and> bit b n)" by (metis b bit_take_bit_iff)
  then show "bit (ucast (take_bit 2 (ucast b :: u32)) :: u16) n = bit b n" using n by (auto simp: bit_simps)
qed

lemma put_word: "put_field 0 32 v r = take_bit 32 v"
  by (rule bit_word_eqI) (auto simp: bit_put_field bit_simps)

lemma decode_encode:
  assumes "entry_fits e"
  shows "decode_state (encode_state state0 e) = (state0, e)"
proof -
  note f = assms [unfolded entry_fits_def]
  have minus: "take_bit 16 (v - 1) + 1 = v" if "take_bit 16 (v - 1) = v - 1" for v :: u32 using that by simp
  have b1: "take_bit 1 (of_bool state0 :: u32) = 1 \<longleftrightarrow> state0" by (cases state0) simp_all
  have "fst (decode_state (encode_state state0 e)) = state0"
    using b1 by (simp only: decode_state_def encode_state_def pack_def fst_conv) (simp add: get_put_same get_put_other)
  moreover have "snd (decode_state (encode_state state0 e)) = e"
    using f
    by (cases e; simp only: decode_state_def encode_state_def snd_conv)
      (simp add: pack_def put_word get_put_same get_put_other flag_put take_bit_masked minus split_48 ucast_bank
         del: take_bit_and One_nat_def split del: split_of_bool)
  ultimately show ?thesis by (simp add: prod_eq_iff)
qed

text \<open>The words written to the state memory and to the memory of the offsets of an axis.\<close>

fun is_state_reg :: "nat \<Rightarrow> reg \<Rightarrow> bool" where
  "is_state_reg axis (DSP a (SEQ (SEQ_STATE r))) = (a = axis)"
| "is_state_reg axis _ = False"

definition is_super_reg :: "nat \<Rightarrow> reg \<Rightarrow> bool" where
  "is_super_reg axis r \<longleftrightarrow> r = DSP axis (SEQ SEQ_SUPER_STATE)"

definition words_to :: "(reg \<Rightarrow> bool) \<Rightarrow> hw \<Rightarrow> u32 list" where
  "words_to P h = map snd (filter (\<lambda>(r, v). P r) (trace h))"

lemma words_to_writel [simp]: "words_to P (writel r v h) = words_to P h @ (if P r then [v] else [])"
  by (simp add: words_to_def writel_def)

lemma words_to_fields [simp]: "words_to P (WRITE_FIELDS r fs h) = words_to P h @ (if P r then [pack fs] else [])"
  by (simp add: WRITE_FIELDS_def)

lemma words_to_mirror [simp]:
  "words_to P (write_mirror r h) = words_to P h @ (if P r then [mirror h r] else [])"
  "words_to P (set_mirror r off w v h) = words_to P h"
  by (simp_all add: write_mirror_def words_to_def writel_def set_mirror_def)

lemma words_to_writes [simp]: "words_to P (writes r vs h) = words_to P h @ (if P r then vs else [])"
  by (simp add: words_to_def writes_def filter_map comp_def)

lemma words_to_state [simp]:
  "words_to (is_state_reg axis) (write_sequencer_state axis state0 e h) = words_to (is_state_reg axis) h @ encode_state state0 e"
  by (simp add: write_sequencer_state_def encode_state_def Let_def)

lemma words_to_target [simp]:
  "\<not> P (DSP axis (SEQ SEQ_CONFIG)) \<Longrightarrow> \<not> P (DSP axis (SEQ SEQ_COMMAND)) \<Longrightarrow> words_to P (seq_target axis n h) = words_to P h"
  by (simp add: seq_target_def WRITE_DSP_MIRROR_def)

lemma words_to_states:
  "words_to (is_state_reg axis) (fold (\<lambda>i. write_sequencer_state axis False (es ! i)) xs h) =
     words_to (is_state_reg axis) h @ concat (map (\<lambda>i. encode_state False (es ! i)) xs)"
  by (induction xs arbitrary: h) simp_all

lemma words_to_entries:
  "words_to (is_state_reg axis) (write_sequencer_entries axis bank (Some es) h) =
     words_to (is_state_reg axis) h @ encode_state True (idle_entry bank) @
       concat (map (\<lambda>i. encode_state False (es ! i)) [0..<MAX_SEQUENCER_COUNT])"
  by (simp add: write_sequencer_entries_def Let_def words_to_states)

lemma words_to_other_state:
  "\<not> P (DSP axis (SEQ SEQ_CONFIG)) \<Longrightarrow> \<not> P (DSP axis (SEQ SEQ_COMMAND)) \<Longrightarrow> (\<And>r. \<not> P (DSP axis (SEQ (SEQ_STATE r)))) \<Longrightarrow>
     words_to P (write_sequencer_entries axis bank es h) = words_to P h"
proof -
  assume p: "\<not> P (DSP axis (SEQ SEQ_CONFIG))" "\<not> P (DSP axis (SEQ SEQ_COMMAND))" "\<And>r. \<not> P (DSP axis (SEQ (SEQ_STATE r)))"
  have s: "words_to P (write_sequencer_state axis s0 e h) = words_to P h" for s0 e h
    by (simp add: write_sequencer_state_def Let_def p)
  then have "words_to P (fold (\<lambda>i. write_sequencer_state axis False (es ! i)) xs h) = words_to P h" for es xs h
    by (induction xs arbitrary: h) simp_all
  then show ?thesis by (simp add: write_sequencer_entries_def Let_def s p split: option.split)
qed

lemma words_to_super: "words_to (is_super_reg axis) (write_sequencer_entries axis bank es h) = words_to (is_super_reg axis) h"
  by (rule words_to_other_state) (simp_all add: is_super_reg_def)

text \<open>Words in groups.\<close>

definition in_groups :: "nat \<Rightarrow> u32 list \<Rightarrow> u32 list list" where
  "in_groups n ws = map (\<lambda>i. take n (drop (n * i) ws)) [0..<length ws div n]"

lemma in_groups_concat:
  assumes "0 < n" "\<And>g. g \<in> set gs \<Longrightarrow> length g = n"
  shows "in_groups n (concat gs) = gs"
  using assms(2)
proof (induction gs)
  case (Cons g gs)
  then have g: "length g = n" and gs: "in_groups n (concat gs) = gs" by simp_all
  have "in_groups n (g @ ws) = g # in_groups n ws" for ws
  proof -
    have "length (g @ ws) div n = Suc (length ws div n)" using g assms(1) by (simp add: div_add_self1)
    then have "in_groups n (g @ ws) = map (\<lambda>i. take n (drop (n * i) (g @ ws))) (0 # map Suc [0..<length ws div n])"
      by (simp only: in_groups_def map_Suc_upt upt_conv_Cons zero_less_Suc)
    also have "\<dots> = g # map (\<lambda>i. take n (drop (n * i) ws)) [0..<length ws div n]" using g by simp
    finally show ?thesis by (simp add: in_groups_def)
  qed
  then show ?case by (simp add: gs)
qed (simp add: in_groups_def)

definition decode_offset :: "u32 list \<Rightarrow> u64" where
  "decode_offset ws = ucast (ws ! 0) OR push_bit 32 (ucast (ws ! 1))"

lemma decode_offset_words: "decode_offset (offset_words x) = x"
  by (simp add: decode_offset_def offset_words_def split_64)

lemma idle_fits: "take_bit 2 b = b \<Longrightarrow> entry_fits (idle_entry b)"
  by (simp add: entry_fits_def idle_entry_def)

text \<open>C8 Writing the configuration of the sequencer programs it: read back in groups of eight, the words
  written to the state memory are the idle state, marked as the state that ends a super sequence, then
  the seven states of the configuration, with every field; and the words written to the memory of
  offsets are the offsets in use, from the last to the first.\<close>

theorem sequencer_program_written:
  assumes "entries c = es" "length es = MAX_SEQUENCER_COUNT" "list_all entry_fits es" "take_bit 2 (bank0 c) = bank0 c"
    "unat (super_seq_count c) \<le> length (super_offsets c)" "trace h = []"
  shows "map decode_state (in_groups 8 (words_to (is_state_reg axis) (hw_write_seq_config axis c h))) =
      (True, idle_entry (bank0 c)) # map (Pair False) es \<and>
    map decode_offset (in_groups 2 (words_to (is_super_reg axis) (hw_write_seq_config axis c h))) =
      rev (take (unat (super_seq_count c)) (super_offsets c))"
proof
  have none: "words_to P h = []" for P using assms(6) by (simp add: words_to_def)
  have "map (encode_state False) (map ((!) es) [0..<length es]) = map (encode_state False) es" by (simp only: map_nth)
  then have es: "map (\<lambda>i. encode_state False (es ! i)) [0..<MAX_SEQUENCER_COUNT] = map (encode_state False) es"
    using assms(2) by (simp add: comp_def)
  have "words_to (is_state_reg axis) (hw_write_seq_config axis c h) =
      concat (encode_state True (idle_entry (bank0 c)) # map (encode_state False) es)"
    by (simp add: hw_write_seq_config_def Let_def WRITE_DSP_MIRROR_def write_sequencer_super_entries_def
        write_sequencer_window_def words_to_entries none es assms(1))
  moreover have "length (encode_state s0 e) = 8" for s0 e by (simp add: encode_state_def)
  ultimately have "in_groups 8 (words_to (is_state_reg axis) (hw_write_seq_config axis c h)) =
      encode_state True (idle_entry (bank0 c)) # map (encode_state False) es"
    using in_groups_concat [of 8 "encode_state True (idle_entry (bank0 c)) # map (encode_state False) es"] by auto
  then show "map decode_state (in_groups 8 (words_to (is_state_reg axis) (hw_write_seq_config axis c h))) =
      (True, idle_entry (bank0 c)) # map (Pair False) es"
    using assms(3,4) by (simp add: decode_encode idle_fits list_all_iff)
next
  let ?n = "unat (super_seq_count c)" and ?P = "is_super_reg axis"
  let ?gs = "map (\<lambda>i. offset_words (super_offsets c ! (?n - 1 - i))) [0..<?n]"
  have none: "words_to ?P h = []" using assms(6) by (simp add: words_to_def)
  have "words_to ?P (hw_write_seq_config axis c h) = concat ?gs"
    by (simp add: hw_write_seq_config_def Let_def WRITE_DSP_MIRROR_def write_sequencer_super_entries_def
        write_sequencer_window_def words_to_super none is_super_reg_def)
  moreover have "in_groups 2 (concat ?gs) = ?gs"
    by (rule in_groups_concat) (auto simp: offset_words_def)
  moreover have "map decode_offset ?gs = map (\<lambda>i. super_offsets c ! (?n - 1 - i)) [0..<?n]"
    by (simp add: decode_offset_words)
  moreover have "\<dots> = rev (take ?n (super_offsets c))"
    by (rule nth_equalityI) (use assms(5) in \<open>auto simp: rev_nth\<close>)
  ultimately show "map decode_offset (in_groups 2 (words_to ?P (hw_write_seq_config axis c h))) = rev (take ?n (super_offsets c))"
    by (simp only:)
qed

definition sample_sequencer :: sequencer_config where
  "sample_sequencer = \<lparr>bank0 = 1, sequencer_pc = 1, super_seq_count = 2,
     entries = replicate MAX_SEQUENCER_COUNT (idle_entry 2), window = [], super_offsets = [5, 7, 0]\<rparr>"

theorem sequencer_program_written_witness:
  "map decode_state (in_groups 8 (words_to (is_state_reg 0) (hw_write_seq_config 0 sample_sequencer initial_hw))) =
     (True, idle_entry 1) # map (Pair False) (replicate MAX_SEQUENCER_COUNT (idle_entry 2)) \<and>
   map decode_offset (in_groups 2 (words_to (is_super_reg 0) (hw_write_seq_config 0 sample_sequencer initial_hw))) = [7, 5]"
  using sequencer_program_written [of sample_sequencer "replicate MAX_SEQUENCER_COUNT (idle_entry 2)" initial_hw 0]
  by (simp add: sample_sequencer_def initial_hw_def list_all_iff idle_fits)

section \<open>Decimation, dwell and frequencies\<close>

lemma leading_zeros_bounds:
  "x \<noteq> 0 \<Longrightarrow> unat x < 2 ^ n \<Longrightarrow> n \<le> 32 \<Longrightarrow>
     leading_zeros n x < n \<and> unat x < 2 ^ (n - leading_zeros n x) \<and> 2 ^ (n - leading_zeros n x - 1) \<le> unat x"
proof (induction n)
  case 0
  then show ?case by (simp add: unat_eq_zero)
next
  case (Suc n)
  have odd: "bit x n = odd (unat x div 2 ^ n)" by (metis bit_iff_odd bit_unsigned_iff possible_bit_nat)
  show ?case
  proof (cases "bit x n")
    case True
    then have "odd (unat x div 2 ^ n)" using odd by simp
    then have "2 ^ n \<le> unat x" by (metis div_less even_zero not_less)
    then show ?thesis using True Suc.prems by simp
  next
    case False
    have "unat x div 2 ^ n < 2" using Suc.prems by (simp add: less_mult_imp_div_less)
    moreover have "even (unat x div 2 ^ n)"
      using False odd by simp
    ultimately have "unat x div 2 ^ n = 0" by (auto dest: less_2_cases)
    then have "unat x < 2 ^ n" by (simp add: div_eq_0_iff)
    then show ?thesis using False Suc by auto
  qed
qed

lemma unat_pred: "0 < unat d \<Longrightarrow> unat (d - 1 :: u32) = unat d - 1"
  by (metis One_nat_def less_eq_Suc_le unat_1 unat_sub word_le_nat_alt)

lemma unat_take_bit: "unat (take_bit n x) = unat x mod 2 ^ n"
  by (simp only: unsigned_take_bit_eq) (simp only: take_bit_eq_mod)

lemma decimation_shift_bounds:
  assumes "0 < unat d" "unat d \<le> 128"
  shows "unat (decimation_shift d) \<le> 7 \<and> unat d \<le> 2 ^ unat (decimation_shift d) \<and>
    (unat (decimation_shift d) = 0 \<or> 2 ^ (unat (decimation_shift d) - 1) < unat d)"
proof (cases "d = 1")
  case False
  define z where "z = leading_zeros 32 (d - 1)"
  have d1: "unat (d - 1) = unat d - 1" using assms(1) by (rule unat_pred)
  have lt: "unat (d - 1) < 2 ^ 32" using unsigned_less [of "d - 1", where ?'a = nat] by simp
  have "d - 1 \<noteq> 0" using False by simp
  then have z: "z < 32" "unat d - 1 < 2 ^ (32 - z)" "2 ^ (32 - z - 1) \<le> unat d - 1"
    using leading_zeros_bounds [OF _ lt] by (simp_all only: z_def d1 le_refl simp_thms not_False_eq_True)
  have "32 - z - 1 < 7"
  proof (rule ccontr)
    assume "\<not> 32 - z - 1 < 7"
    then have "(2::nat) ^ 7 \<le> 2 ^ (32 - z - 1)" by (intro power_increasing) simp_all
    then show False using z(3) assms(2) by simp
  qed
  moreover have "unat (decimation_shift d) = 32 - z"
  proof -
    have uz: "unat (of_nat z :: u32) = z" using z(1) by (simp add: unsigned_of_nat take_bit_nat_eq_self_iff)
    then have "unat (32 - of_nat z :: u32) = unat (32 :: u32) - unat (of_nat z :: u32)"
      using z(1) by (intro unat_sub) (simp add: word_le_nat_alt)
    then show ?thesis using False uz by (simp add: decimation_shift_def z_def [symmetric])
  qed
  moreover have "2 ^ (32 - z - 1) < unat d" using z(3) assms(1) by linarith
  ultimately show ?thesis using z by auto
qed (use assms in \<open>simp add: decimation_shift_def\<close>)

lemma decimation_value:
  "reg_value (hw_write_bunch_decimation axis d h) (DSP axis (FIR FIR_CONFIG)) =
     put_field 9 3 (decimation_shift d AND 7) (put_field 2 7 ((d - 1) AND 0x3F) (mirror h (DSP axis (FIR FIR_CONFIG))))"
  by (simp add: hw_write_bunch_decimation_def write_mirror_def)

text \<open>Writing the bunch decimation, for the decimations 1 to 128 of the interface, gives the least shift
  with \<open>2 ^ shift\<close> at least the decimation, and keeps the FIR bank; but the limit, decimation - 1 in a field of seven
  bits, is kept to its low six bits: it is decimation - 1 exactly for the decimations up to 64.\<close>

theorem bunch_decimation_written:
  assumes "0 < unat d" "unat d \<le> 128"
  shows "let v = reg_value (hw_write_bunch_decimation axis d h) (DSP axis (FIR FIR_CONFIG));
      shift = unat (get_field 9 3 v); limit = unat (get_field 2 7 v)
    in unat d \<le> 2 ^ shift \<and> (shift = 0 \<or> 2 ^ (shift - 1) < unat d) \<and>
       limit = (unat d - 1) mod 64 \<and> (limit = unat d - 1 \<longleftrightarrow> unat d \<le> 64) \<and>
       get_field 0 2 v = get_field 0 2 (mirror h (DSP axis (FIR FIR_CONFIG)))"
proof -
  let ?v = "reg_value (hw_write_bunch_decimation axis d h) (DSP axis (FIR FIR_CONFIG))"
  have s: "get_field 9 3 ?v = take_bit 3 (decimation_shift d)"
    unfolding decimation_value by (subst get_put_same, simp, rule take_bit_masked)
  have l: "get_field 2 7 ?v = take_bit 6 (d - 1)"
    unfolding decimation_value by (subst get_put_other, simp, simp, subst get_put_same, simp, subst take_bit_masked, simp)
  have b: "get_field 0 2 ?v = get_field 0 2 (mirror h (DSP axis (FIR FIR_CONFIG)))"
    unfolding decimation_value by (simp add: get_put_other)
  have "unat (decimation_shift d) < 8" using decimation_shift_bounds [OF assms] by simp
  then have "unat (take_bit 3 (decimation_shift d)) = unat (decimation_shift d)"
    by (simp add: unat_take_bit)
  moreover have "unat (take_bit 6 (d - 1)) = (unat d - 1) mod 64"
    using unat_pred [OF assms(1)] by (simp add: unat_take_bit)
  moreover have "(unat d - 1) mod 64 = unat d - 1 \<longleftrightarrow> unat d \<le> 64" using assms by (cases "unat d \<le> 64") (auto simp: mod_if)
  ultimately show ?thesis using decimation_shift_bounds [OF assms] by (simp only: Let_def s l b simp_thms)
qed

theorem bunch_decimation_written_witness:
  "let v = reg_value (hw_write_bunch_decimation 0 65 initial_hw) (DSP 0 (FIR FIR_CONFIG));
      shift = unat (get_field 9 3 v); limit = unat (get_field 2 7 v)
    in 65 \<le> (2::nat) ^ shift \<and> limit = 0"
  using bunch_decimation_written [of 65 0 initial_hw] by (simp add: Let_def)

text \<open>The dwell time of the PLL is written less one in a field of sixteen bits but kept to twelve: the
  hardware dwells for the number of turns given only up to 4096, and otherwise for the remainder.\<close>

theorem pll_dwell_written:
  assumes "0 < unat d" "unat d \<le> 65536"
  shows "let v = reg_value (hw_write_pll_dwell_time axis d h) (DSP axis (PLL PLL_CONFIG)); dwell = unat (get_field 6 16 v) + 1
    in dwell = (unat d - 1) mod 4096 + 1 \<and> (dwell = unat d \<longleftrightarrow> unat d \<le> 4096)"
proof -
  have v: "get_field 6 16 (reg_value (hw_write_pll_dwell_time axis d h) (DSP axis (PLL PLL_CONFIG))) = take_bit 12 (d - 1)"
    by (simp only: hw_write_pll_dwell_time_def WRITE_DSP_MIRROR_def write_mirror_def reg_value_writel mirror_set_mirror fun_upd_same)
      (subst get_put_same, simp, simp only: take_bit_masked, simp)
  have "unat (take_bit 12 (d - 1)) = (unat d - 1) mod 4096"
    using unat_pred [OF assms(1)] by (simp add: unat_take_bit)
  moreover have "(unat d - 1) mod 4096 + 1 = unat d \<longleftrightarrow> unat d \<le> 4096"
    using assms(1) mod_less_divisor [of 4096 "unat d - 1"] by (cases "unat d \<le> 4096") simp_all
  ultimately show ?thesis by (simp only: Let_def v simp_thms)
qed

theorem pll_dwell_written_witness:
  "let v = reg_value (hw_write_pll_dwell_time 1 5000 initial_hw) (DSP 1 (PLL PLL_CONFIG)) in unat (get_field 6 16 v) + 1 = 904"
  using pll_dwell_written [of 5000 1 initial_hw] by (simp add: Let_def)

text \<open>The 48-bit frequency of the PLL survives its writing in two words and its reading back.\<close>

theorem pll_frequency_roundtrip:
  "hw_read_pll_nco_frequency axis (reg_value (hw_write_pll_nco_frequency axis f h)) = take_bit 48 f"
proof -
  have m: "y AND 0xFFFFFFFF = take_bit 32 y" "y AND 0xFFFF = take_bit 16 y" for y :: u64
    by (simp_all add: take_bit_eq_mask mask_eq_exp_minus_1)
  have g: "get_field 0 16 (pack [(0, 16, x), (31, 1, y)]) = take_bit 16 x" for x y
    by (simp add: pack_def get_put_same get_put_other)
  show ?thesis
    unfolding hw_write_pll_nco_frequency_def hw_read_pll_nco_frequency_def write_frequency_def WRITE_FIELDS_def reg_value_writel m
    by (simp only: fun_upd_apply g refl if_True reg.inject dsp_reg.inject pll_reg.distinct simp_thms if_False)
      (rule bit_word_eqI, auto simp: bit_simps)
qed

text \<open>The trigger sources survive their encoding in a register.\<close>

theorem trigger_sources_roundtrip: "triggers_in_to_trigger_sources (trigger_sources_to_triggers_in s) = s"
  by (cases s) (simp add: triggers_in_to_trigger_sources_def trigger_sources_to_triggers_in_def pack_def flag_put
      del: One_nat_def split del: split_of_bool)

end
