(* ===== verification/Bunch_Status.thy ===== *)
theory Bunch_Status
  imports Hardware_Words Parse
begin

text \<open>
  The summaries of the bunch settings shown to the operator (first half of
  \<^verbatim>\<open>epics/src/bunch_select.c\<close>).  \<open>n\<close> is the number of bunches, which the configuration makes equal to
  \<^verbatim>\<open>system_config.bunches_per_turn\<close>; an array of enables is \<open>None\<close> where the code passes \<^verbatim>\<open>NULL\<close>.  \<open>fits\<close> tells
  whether the EPICS library can hold a text in a string record.
\<close>

section \<open>Complexity\<close>

definition enabled_at :: "bool list option \<Rightarrow> nat \<Rightarrow> bool" where
  "enabled_at en i \<longleftrightarrow> (case en of None \<Rightarrow> True | Some es \<Rightarrow> es ! i)"

definition count_enables :: "nat \<Rightarrow> bool list option \<Rightarrow> nat" where
  "count_enables n en =
     (case en of None \<Rightarrow> n | Some es \<Rightarrow> fold (\<lambda>i c. if es ! i then c + 1 else c) [0..<n] 0)"

text \<open>\<open>None\<close> is the failed assertion.\<close>

definition next_enabled_index :: "nat \<Rightarrow> bool list option \<Rightarrow> nat \<Rightarrow> nat option" where
  "next_enabled_index n en start =
     (case en of None \<Rightarrow> Some 0 | Some es \<Rightarrow> List.find (\<lambda>i. es ! i) [start..<n])"

text \<open>The number of enabled elements with the value, and the index of the last one with another.\<close>

definition count_value :: "nat \<Rightarrow> u32 list \<Rightarrow> bool list option \<Rightarrow> u32 \<Rightarrow> nat \<Rightarrow> nat \<times> nat" where
  "count_value n xs en v k =
     fold (\<lambda>i (c, d). if enabled_at en i then if xs ! i = v then (c + 1, d) else (c, i) else (c, d)) [0..<n] (0, k)"

datatype complexity = ALL_SAME | ALL_BUT_ONE | SINGLE_BUNCH | COMPLICATED | ALL_DISABLED

text \<open>The complexity with \<open>value\<close>, \<open>other\<close> and the index of the other.\<close>

definition assess_complexity :: "nat \<Rightarrow> u32 list \<Rightarrow> bool list option \<Rightarrow> (complexity \<times> u32 \<times> u32 \<times> nat) option" where
  "assess_complexity n xs en =
     (let enable_count = count_enables n en
      in if enable_count = 0 then Some (ALL_DISABLED, 0, 0, 0)
         else case next_enabled_index n en 0 of None \<Rightarrow> None
           | Some first_valid \<Rightarrow>
             let v = xs ! first_valid; (cnt, k) = count_value n xs en v 0
             in if cnt = enable_count
                then if cnt = 1 then Some (SINGLE_BUNCH, v, 0, first_valid) else Some (ALL_SAME, v, 0, k)
                else if cnt = enable_count - 1 then Some (ALL_BUT_ONE, v, xs ! k, k)
                else if cnt = 1
                then case next_enabled_index n en (first_valid + 1) of None \<Rightarrow> None
                  | Some next_valid \<Rightarrow>
                    let v' = xs ! next_valid; other = xs ! first_valid; (cnt', k') = count_value n xs en v' k
                    in Some (if cnt' = enable_count - 1 then ALL_BUT_ONE else COMPLICATED, v', other, k')
                else Some (COMPLICATED, v, 0, k))"

section \<open>Status texts\<close>

definition format_status :: "(string \<Rightarrow> bool) \<Rightarrow> string \<Rightarrow> string" where
  "format_status fits s = (if fits s then s else ''(Summary too long)'')"

definition update_status_core ::
  "(string \<Rightarrow> bool) \<Rightarrow> nat \<Rightarrow> string \<Rightarrow> u32 list \<Rightarrow> bool list option \<Rightarrow> (u32 \<Rightarrow> string) \<Rightarrow> string option" where
  "update_status_core fits n nm xs en render =
     (case assess_complexity n xs en of None \<Rightarrow> None
      | Some (c, v, other, k) \<Rightarrow> Some (format_status fits (case c of
          ALL_SAME \<Rightarrow> render v
        | SINGLE_BUNCH \<Rightarrow> render v @ '' @'' @ show_nat k
        | ALL_BUT_ONE \<Rightarrow> render v @ '' ('' @ render other @ '' @'' @ show_nat k @ '')''
        | COMPLICATED \<Rightarrow> ''Mixed '' @ nm
        | ALL_DISABLED \<Rightarrow> ''Off'')))"

definition render_fir :: "u32 \<Rightarrow> string" where
  "render_fir fir = ''#'' @ show_int fir"

text \<open>The selection is an array of \<^verbatim>\<open>char\<close>, which is signed.\<close>

definition update_fir_status :: "(string \<Rightarrow> bool) \<Rightarrow> nat \<Rightarrow> u8 list \<Rightarrow> string option" where
  "update_fir_status fits n sel =
     update_status_core fits n ''FIR'' (map (\<lambda>i. scast (sel ! i)) [0..<n]) None render_fir"

fun join_plus :: "string list \<Rightarrow> string" where
  "join_plus [] = ''''"
| "join_plus [s] = s"
| "join_plus (s # t # ss) = s @ ''+'' @ join_plus (t # ss)"

definition output_names :: "string list" where
  "output_names = [''FIR'', ''NCO1'', ''SEQ'', ''PLL'', ''NCO2'']"

definition render_outputs :: "u32 \<Rightarrow> string" where
  "render_outputs outputs =
     (if outputs \<noteq> 0 then join_plus (map snd (filter (\<lambda>(i, nm). bit outputs i) (zip [0..<5] output_names))) else ''Off'')"

section \<open>What the complexity means\<close>

text \<open>The enabled bunches, and the properties the summaries stand for.\<close>

definition enabled_set :: "nat \<Rightarrow> bool list option \<Rightarrow> nat set" where
  "enabled_set n en = {i. i < n \<and> enabled_at en i}"

definition same_on :: "nat set \<Rightarrow> u32 list \<Rightarrow> u32 \<Rightarrow> bool" where
  "same_on A xs v \<longleftrightarrow> (\<forall>i \<in> A. xs ! i = v)"

lemma finite_enabled [simp]: "finite (enabled_set n en)"
  by (simp add: enabled_set_def)

lemma enabled_set_Suc:
  "enabled_set (Suc n) en = (if enabled_at en n then insert n (enabled_set n en) else enabled_set n en)"
  by (auto simp: enabled_set_def less_Suc_eq)

lemma notin_enabled [simp]: "n \<notin> enabled_set n en"
  by (simp add: enabled_set_def)

lemma count_enables_card: "count_enables n en = card (enabled_set n en)"
proof (cases en)
  case None
  then show ?thesis by (simp add: count_enables_def enabled_set_def enabled_at_def)
next
  case (Some es)
  have "fold (\<lambda>i c. if es ! i then c + 1 else c) [0..<n] 0 = card (enabled_set n (Some es))"
    by (induction n) (simp_all add: enabled_set_Suc, simp_all add: enabled_set_def enabled_at_def)
  then show ?thesis by (simp add: Some count_enables_def)
qed

text \<open>The elements with a value, and the others.\<close>

definition equal_set :: "nat \<Rightarrow> u32 list \<Rightarrow> bool list option \<Rightarrow> u32 \<Rightarrow> nat set" where
  "equal_set n xs en v = {i \<in> enabled_set n en. xs ! i = v}"

lemma count_value_meaning:
  "fst (count_value n xs en v k) = card (equal_set n xs en v) \<and>
   (enabled_set n en - equal_set n xs en v = {} \<and> snd (count_value n xs en v k) = k \<or>
    snd (count_value n xs en v k) \<in> enabled_set n en - equal_set n xs en v)"
proof (induction n)
  case 0
  then show ?case by (simp add: count_value_def equal_set_def enabled_set_def)
next
  case (Suc n)
  have c: "count_value (Suc n) xs en v k =
      (case count_value n xs en v k of (c, d) \<Rightarrow>
        if enabled_at en n then if xs ! n = v then (c + 1, d) else (c, n) else (c, d))"
    by (simp add: count_value_def)
  have e: "equal_set (Suc n) xs en v =
      (if enabled_at en n \<and> xs ! n = v then insert n (equal_set n xs en v) else equal_set n xs en v)"
    by (auto simp: equal_set_def enabled_set_Suc split: if_splits)
  have f: "finite (equal_set n xs en v)" "n \<notin> equal_set n xs en v" by (simp_all add: equal_set_def)
  show ?case
    using Suc.IH by (cases "count_value n xs en v k") (auto simp: c e f enabled_set_Suc)
qed

text \<open>What a result says of the enabled bunches.\<close>

fun summarises :: "nat set \<Rightarrow> u32 list \<Rightarrow> complexity \<times> u32 \<times> u32 \<times> nat \<Rightarrow> bool" where
  "summarises E xs (ALL_DISABLED, v, other, k) \<longleftrightarrow> E = {}"
| "summarises E xs (SINGLE_BUNCH, v, other, k) \<longleftrightarrow> E = {k} \<and> xs ! k = v"
| "summarises E xs (ALL_SAME, v, other, k) \<longleftrightarrow> 2 \<le> card E \<and> same_on E xs v"
| "summarises E xs (ALL_BUT_ONE, v, other, k) \<longleftrightarrow>
     2 \<le> card E \<and> k \<in> E \<and> xs ! k = other \<and> other \<noteq> v \<and> same_on (E - {k}) xs v"
| "summarises E xs (COMPLICATED, v, other, k) \<longleftrightarrow>
     E \<noteq> {} \<and> (\<forall>w. \<not> same_on E xs w) \<and> (\<forall>k \<in> E. \<forall>w. \<not> same_on (E - {k}) xs w)"

lemma next_enabled_Some:
  "next_enabled_index n (Some es) start = Some i \<Longrightarrow> i \<in> enabled_set n (Some es) \<and> start \<le> i"
  by (auto simp: next_enabled_index_def enabled_set_def enabled_at_def find_Some_iff)

lemma next_enabled_None:
  "next_enabled_index n (Some es) start = None \<Longrightarrow> i \<in> enabled_set n (Some es) \<Longrightarrow> i < start"
  by (rule ccontr) (auto simp: next_enabled_index_def enabled_set_def enabled_at_def find_None_iff not_less)

lemma next_enabled_first:
  "next_enabled_index n (Some es) start = Some i \<Longrightarrow> j \<in> enabled_set n (Some es) \<Longrightarrow> start \<le> j \<Longrightarrow> i \<le> j"
proof (rule ccontr)
  assume f: "next_enabled_index n (Some es) start = Some i" and j: "j \<in> enabled_set n (Some es)" "start \<le> j" and "\<not> i \<le> j"
  obtain l where l: "i = start + l" and first: "\<And>l'. l' < l \<Longrightarrow> \<not> es ! (start + l')"
    using f by (fastforce simp: next_enabled_index_def find_Some_iff)
  then show False using first [of "j - start"] j \<open>\<not> i \<le> j\<close> by (auto simp: enabled_set_def enabled_at_def)
qed

text \<open>All but one element have the value when one less than all are counted.\<close>

lemma count_value_cases:
  assumes "count_value n xs en v k0 = (c, k)"
  shows "c = card (enabled_set n en) \<longleftrightarrow> same_on (enabled_set n en) xs v"
    and "enabled_set n en \<noteq> {} \<Longrightarrow> c = card (enabled_set n en) - 1 \<Longrightarrow> k \<in> enabled_set n en \<and> xs ! k \<noteq> v \<and> same_on (enabled_set n en - {k}) xs v"
    and "j \<in> enabled_set n en \<Longrightarrow> xs ! j \<noteq> v \<Longrightarrow> same_on (enabled_set n en - {j}) xs v \<Longrightarrow> c = card (enabled_set n en) - 1"
proof -
  let ?E = "enabled_set n en" and ?Q = "equal_set n xs en v"
  have c: "c = card ?Q" and k: "?E - ?Q = {} \<and> k = k0 \<or> k \<in> ?E - ?Q"
    using count_value_meaning [of n xs en v k0] by (simp_all add: assms)
  have q: "?Q \<subseteq> ?E" "finite ?Q" by (auto simp: equal_set_def)
  have same: "same_on A xs v \<longleftrightarrow> A \<subseteq> ?Q" if "A \<subseteq> ?E" for A using that by (auto simp: same_on_def equal_set_def)
  show "c = card ?E \<longleftrightarrow> same_on ?E xs v"
    unfolding same [OF subset_refl] c using q by (metis card_subset_eq finite_enabled subset_antisym)
  show "k \<in> ?E \<and> xs ! k \<noteq> v \<and> same_on (?E - {k}) xs v" if "?E \<noteq> {}" "c = card ?E - 1"
  proof -
    have "card (?E - ?Q) = 1"
      using that q c by (metis One_nat_def Suc_pred card_Diff_subset card_gt_0_iff diff_diff_cancel finite_enabled less_eq_Suc_le)
    then obtain j where "?E - ?Q = {j}" by (rule card_1_singletonE)
    then have "?E - ?Q = {k}" using k by auto
    then show ?thesis unfolding same [OF Diff_subset] by (auto simp: equal_set_def)
  qed
  show "c = card ?E - 1" if "j \<in> ?E" "xs ! j \<noteq> v" "same_on (?E - {j}) xs v" for j
  proof -
    have "?Q = ?E - {j}" using that(2,3) unfolding same [OF Diff_subset] by (auto simp: equal_set_def)
    then show ?thesis using c that(1) by (simp add: card_Diff_singleton)
  qed
qed

lemma not_one_other:
  assumes "f \<in> E" "xs ! f = v" "g \<in> E" "g \<noteq> f" "xs ! g = v" "\<not> same_on E xs v"
    and none: "\<And>j. j \<in> E \<Longrightarrow> xs ! j \<noteq> v \<Longrightarrow> \<not> same_on (E - {j}) xs v"
  shows "summarises E xs (COMPLICATED, v', other, k)"
proof -
  have "\<not> same_on E xs w" for w
  proof
    assume s: "same_on E xs w"
    then have "w = v" using assms(1,2) by (auto simp: same_on_def)
    then show False using s assms(6) by simp
  qed
  moreover have "\<not> same_on (E - {j}) xs w" if "j \<in> E" for j w
  proof
    assume s: "same_on (E - {j}) xs w"
    then have w: "w = v" using assms(1-5) by (cases "j = f") (auto simp: same_on_def)
    show False using none [OF that] s assms(6) unfolding w by (cases "xs ! j = v") (auto simp: same_on_def)
  qed
  ultimately show ?thesis using assms(1) by auto
qed

lemma second_different:
  assumes "f \<in> E" "g \<in> E" "xs ! g \<noteq> xs ! f" "{i \<in> E. xs ! i = xs ! f} = {f}" "3 \<le> card E" "\<not> same_on (E - {f}) xs (xs ! g)"
  shows "summarises E xs (COMPLICATED, v', other, k)"
proof -
  have "\<not> same_on E xs w" for w using assms by (auto simp: same_on_def)
  moreover have "\<not> same_on (E - {j}) xs w" if "j \<in> E" for j w
  proof (cases "j = f")
    case True
    have "w = xs ! g" if "same_on (E - {f}) xs w" using that assms(2,3) by (auto simp: same_on_def)
    then show ?thesis using True assms(6) by auto
  next
    case False
    show ?thesis
    proof
      assume s: "same_on (E - {j}) xs w"
      then have "w = xs ! f" using assms(1) False by (auto simp: same_on_def)
      then have "E - {j} \<subseteq> {f}" using s assms(4) by (auto simp: same_on_def)
      then have "E \<subseteq> {j, f}" by auto
      then have "card E \<le> card {j, f}" by (intro card_mono) simp_all
      then show False using assms(5) by (simp add: card_insert_if split: if_splits)
    qed
  qed
  ultimately show ?thesis using assms(1) by auto
qed

lemma assess_complexity_summarises:
  "\<exists>r. assess_complexity n xs (Some es) = Some r \<and> summarises (enabled_set n (Some es)) xs r"
proof (cases "enabled_set n (Some es) = {}")
  case True
  then show ?thesis by (simp add: assess_complexity_def count_enables_card)
next
  case False
  let ?E = "enabled_set n (Some es)"
  have pos: "card ?E \<noteq> 0" using False by simp
  obtain f where f: "next_enabled_index n (Some es) 0 = Some f"
    using False next_enabled_None [of n es 0] by (cases "next_enabled_index n (Some es) 0") auto
  note fE = next_enabled_Some [OF f, THEN conjunct1]
  obtain c k where c: "count_value n xs (Some es) (xs ! f) 0 = (c, k)" by fastforce
  note cc = count_value_cases [OF c]
  have cq: "c = card (equal_set n xs (Some es) (xs ! f))"
    using count_value_meaning [of n xs "Some es" "xs ! f" 0] c by simp
  have fin: "finite (equal_set n xs (Some es) (xs ! f))" and fq: "f \<in> equal_set n xs (Some es) (xs ! f)"
    using fE by (simp_all add: equal_set_def)
  then have c1: "0 < c" unfolding cq by (auto simp: card_gt_0_iff)
  have le: "c \<le> card ?E" unfolding cq by (intro card_mono) (auto simp: equal_set_def)
  consider "c = card ?E" "c = 1" | "c = card ?E" "c \<noteq> 1" | "c \<noteq> card ?E" "c = card ?E - 1"
    | "c \<noteq> card ?E" "c \<noteq> card ?E - 1" "c = 1" | "c \<noteq> card ?E" "c \<noteq> card ?E - 1" "c \<noteq> 1" by blast
  then show ?thesis
  proof cases
    case 1
    then obtain e where "?E = {e}" by (metis card_1_singletonE)
    then show ?thesis using 1 fE f c by (simp add: assess_complexity_def count_enables_card)
  next
    case 2
    then show ?thesis using f c c1 cc(1) pos by (simp add: assess_complexity_def count_enables_card)
  next
    case 3
    then show ?thesis using f c c1 cc(2) pos False by (simp add: assess_complexity_def count_enables_card)
  next
    case 4
    then have card: "3 \<le> card ?E" using le pos by linarith
    have "equal_set n xs (Some es) (xs ! f) = {f}" using 4(3) fq unfolding cq by (metis card_1_singletonE singletonD)
    then have q: "{i \<in> ?E. xs ! i = xs ! f} = {f}" by (simp add: equal_set_def)
    obtain g where g: "next_enabled_index n (Some es) (f + 1) = Some g"
    proof (cases "next_enabled_index n (Some es) (f + 1)")
      case None
      then have "?E \<subseteq> {f}" using next_enabled_None [OF None] next_enabled_first [OF f] by (force simp: subset_iff)
      then have "card ?E \<le> 1" using card_mono [of "{f}" ?E] by simp
      then show ?thesis using card by simp
    qed
    have gE: "g \<in> ?E" "g \<noteq> f" using next_enabled_Some [OF g] by auto
    then have gf: "xs ! g \<noteq> xs ! f" using q by auto
    obtain c' k' where c': "count_value n xs (Some es) (xs ! g) k = (c', k')" by fastforce
    note cc' = count_value_cases [OF c']
    show ?thesis
    proof (cases "c' = card ?E - 1")
      case True
      then have k': "k' \<in> ?E" "xs ! k' \<noteq> xs ! g" "same_on (?E - {k'}) xs (xs ! g)" using cc'(2) False by auto
      then have "k' = f" using fE gf unfolding same_on_def by (metis DiffI singletonD)
      then show ?thesis using 4 f g c c' True k' pos card by (simp add: assess_complexity_def count_enables_card)
    next
      case False
      then have "\<not> same_on (?E - {f}) xs (xs ! g)" using cc'(3) [OF fE] gf by auto
      then show ?thesis using 4 f g c c' False pos second_different [OF fE gE(1) gf q card]
        by (simp add: assess_complexity_def count_enables_card)
    qed
  next
    case 5
    have "equal_set n xs (Some es) (xs ! f) \<noteq> {f}" using 5(3) cq by auto
    then have "\<exists>h \<in> equal_set n xs (Some es) (xs ! f). h \<noteq> f" using fq by blast
    then obtain h where "h \<in> ?E" "h \<noteq> f" "xs ! h = xs ! f" by (auto simp: equal_set_def)
    then have "summarises ?E xs (COMPLICATED, xs ! f, 0, k)"
      using 5 fE cc(1,3) by (intro not_one_other [of f _ _ _ h]) auto
    then show ?thesis using 5 f c pos by (simp add: assess_complexity_def count_enables_card)
  qed
qed

text \<open>C10 The summary of the settings of the enabled bunches is exact: with an array of enables the assessment
  ends in each case without failing its assertion, and its result means what it says: nothing enabled, a
  single bunch with its value, one value throughout, one value but for one bunch with its other value and
  number, and "complicated" exactly when the values do not agree even if any one bunch is left out.\<close>

theorem bunch_summary_exact:
  "case assess_complexity n xs (Some es) of None \<Rightarrow> False | Some r \<Rightarrow> summarises (enabled_set n (Some es)) xs r"
  using assess_complexity_summarises [of n xs es] by auto

section \<open>Without an array of enables\<close>

text \<open>The summary of the FIR selection names the odd one out wherever it is, except for bunch 0: a selection
  that is uniform but for bunch 0 is shown as mixed, because the search for the next bunch ignores where it
  starts when there is no array of enables.\<close>

theorem fir_status_bunch0:
  assumes "3 \<le> n" "a \<noteq> b"
  shows "update_fir_status fits n (a # replicate (n - 1) b) = Some (format_status fits ''Mixed FIR'') \<and>
    update_fir_status fits n (replicate (n - 1) b @ [a]) =
      Some (format_status fits (render_fir (scast b) @ '' ('' @ render_fir (scast a) @ '' @'' @ show_nat (n - 1) @ '')''))"
proof -
  have inj: "ucast (scast x :: u32) = x" for x :: u8 by (rule bit_word_eqI) (auto simp: bit_simps)
  define A B where "A = (scast a :: u32)" and "B = (scast b :: u32)"
  have AB: "A \<noteq> B" unfolding A_def B_def using inj assms(2) by metis
  have en: "enabled_set n None = {..<n}" by (auto simp: enabled_set_def enabled_at_def)
  let ?xs = "A # replicate (n - 1) B" and ?ys = "replicate (n - 1) B @ [A]"
  have x: "map (\<lambda>i. scast ((a # replicate (n - 1) b) ! i)) [0..<n] = ?xs"
    by (rule nth_equalityI) (use assms in \<open>auto simp: nth_Cons' A_def B_def\<close>)
  have y: "map (\<lambda>i. scast ((replicate (n - 1) b @ [a]) ! i)) [0..<n] = ?ys"
    by (rule nth_equalityI) (use assms in \<open>auto simp: nth_append A_def B_def\<close>)
  have "equal_set n ?xs None A = {0}" using AB assms(1) by (auto simp: equal_set_def en nth_Cons' split: if_splits)
  then have "\<exists>k'. count_value n ?xs None A k = (1, k')" for k
    using count_value_meaning [of n ?xs None A k] by (metis card_1_singleton_iff One_nat_def prod.collapse)
  then obtain k1 k2 where cx: "count_value n ?xs None A 0 = (1, k1)" "count_value n ?xs None A k1 = (1, k2)" by metis
  have ey: "equal_set n ?ys None B = {..<n - 1}"
    using AB assms(1) by (auto simp: equal_set_def en nth_append split: if_splits)
  have "{..<n} - {..<n - 1} = {n - 1}" using assms(1) by auto
  then have cy: "count_value n ?ys None B 0 = (n - 1, n - 1)"
    using count_value_meaning [of n ?ys None B 0] ey by (auto simp: en prod_eq_iff)
  have "\<exists>v w k. assess_complexity n ?xs None = Some (COMPLICATED, v, w, k)"
    using cx assms(1) by (simp add: assess_complexity_def count_enables_def next_enabled_index_def)
  moreover have "assess_complexity n ?ys None = Some (ALL_BUT_ONE, B, A, n - 1)"
    using cy assms(1) by (simp add: assess_complexity_def count_enables_def next_enabled_index_def nth_append)
  ultimately show ?thesis
    unfolding update_fir_status_def x y update_status_core_def by (auto simp: A_def B_def)
qed

theorem fir_status_bunch0_witness:
  "update_fir_status (\<lambda>_. True) 3 [2, 1, 1] = Some ''Mixed FIR'' \<and>
   update_fir_status (\<lambda>_. True) 3 [1, 1, 2] = Some ''#1 (#2 @2)''"
proof -
  have r: "replicate (3 - 1) x = [x, x]" for x :: u8 by (simp add: numeral_2_eq_2)
  have "show_nat (Suc 0) = ''1''" "show_nat 2 = ''2''" by (code_simp, code_simp)
  then show ?thesis
    using fir_status_bunch0 [of 3 2 1 "\<lambda>_. True"] unfolding r
    by (simp add: render_fir_def format_status_def show_int_def)
qed

end
