(* ===== verification/Bunch_Select.thy ===== *)
theory Bunch_Select
  imports Bunch_Status Bunch_Set
begin

unbundle bit_operations_syntax

text \<open>
  Bunch selection (second half of \<^verbatim>\<open>epics/src/bunch_select.c\<close>): the enables and gains of the five sources of a
  bank, the FIR selection, the configuration written to the hardware, and the summaries.  The values
  of the records of the EPICS database are part of the state, and writing to a record with processing
  calls its handler.  The conversion of gains from \<^verbatim>\<open>float\<close> and to decibels is a parameter.
\<close>

section \<open>State\<close>

datatype bunch_source_id = FIR_SOURCE | NCO0_SOURCE | NCO1_SOURCE | NCO2_SOURCE | NCO3_SOURCE

definition all_sources :: "bunch_source_id list" where
  "all_sources = [FIR_SOURCE, NCO0_SOURCE, NCO1_SOURCE, NCO2_SOURCE, NCO3_SOURCE]"

fun source_name :: "bunch_source_id \<Rightarrow> string" where
  "source_name FIR_SOURCE = ''FIR''" | "source_name NCO0_SOURCE = ''NCO1''" | "source_name NCO1_SOURCE = ''SEQ''"
| "source_name NCO2_SOURCE = ''PLL''" | "source_name NCO3_SOURCE = ''NCO2''"

text \<open>The bit of a source in the waveform of outputs.\<close>

fun source_bit :: "bunch_source_id \<Rightarrow> nat" where
  "source_bit FIR_SOURCE = 0" | "source_bit NCO0_SOURCE = 1" | "source_bit NCO1_SOURCE = 2"
| "source_bit NCO2_SOURCE = 3" | "source_bit NCO3_SOURCE = 4"

record 'f bunch_source =
  enables_record :: "u8 list"
  gains_record :: "'f list"
  gain_choice :: 'f
  src_status :: string
  gains_db :: "'f list"
  enables_wf :: "bool list"
  scaled_gains :: "u32 list"

record 'f bunch_bank =
  bank_axis :: nat
  bank_number :: u16
  bank_config :: bunch_config
  fir_status :: string
  out_status :: string
  firwf :: "u8 list"
  outwf :: "u8 list"
  fir_choice :: u16
  sources :: "bunch_source_id \<Rightarrow> 'f bunch_source"

text \<open>
  The configuration: the number of bunches, the offsets, the operating mode, what fits a string
  record, the decimals of a gain in decibels, the gain as fixed point number with the gain it stands
  for, its decibels (-85 for zero), and the gain 1.
\<close>

record 'f bunch_env =
  bunch_number :: u32
  gain_offset :: nat
  fir_offset :: nat
  two_axes :: bool
  status_fits :: "string \<Rightarrow> bool"
  show_db :: "u32 \<Rightarrow> string"
  to_fixed :: "'f \<Rightarrow> u32 \<times> 'f"
  to_db :: "'f \<Rightarrow> 'f"
  unit_gain :: 'f

definition count_of :: "'f bunch_env \<Rightarrow> nat" where
  "count_of env = unat (bunch_number env)"

text \<open>\<^verbatim>\<open>FOR_BUNCHES\<close>, and the second index of \<^verbatim>\<open>FOR_BUNCHES_OFFSET\<close>.\<close>

definition for_bunches :: "'f bunch_env \<Rightarrow> (nat \<Rightarrow> 'a) \<Rightarrow> 'a list" where
  "for_bunches env f = map f [0..<count_of env]"

primrec offset_loop :: "nat \<Rightarrow> nat \<Rightarrow> nat \<Rightarrow> nat list" where
  "offset_loop n j 0 = []"
| "offset_loop n j (Suc m) = j # offset_loop n (if j + 1 < n then j + 1 else 0) m"

definition for_bunches_offset :: "'f bunch_env \<Rightarrow> nat \<Rightarrow> (nat \<Rightarrow> 'a) \<Rightarrow> 'a list" where
  "for_bunches_offset env off f = map f (offset_loop (count_of env) off (count_of env))"

section \<open>Summaries\<close>

text \<open>The buffer of a gain holds 39 characters.\<close>

definition render_gain :: "'f bunch_env \<Rightarrow> u32 \<Rightarrow> string" where
  "render_gain env g = take 39 (''Gain '' @ show_db env g @ '' dB'' @ (if g <s 0 then '' -ve'' else ''''))"

definition update_gain_status :: "'f bunch_env \<Rightarrow> bunch_source_id \<Rightarrow> 'f bunch_bank \<Rightarrow> 'f bunch_bank" where
  "update_gain_status env s b =
     (let src = sources b s
      in case update_status_core (status_fits env) (count_of env) (source_name s) (scaled_gains src) (Some (enables_wf src)) (render_gain env) of
        None \<Rightarrow> b
      | Some t \<Rightarrow> b\<lparr>sources := (sources b)(s := src\<lparr>src_status := t\<rparr>)\<rparr>)"

text \<open>The outputs of a bunch, one bit for each source.\<close>

definition outputs_of :: "'f bunch_bank \<Rightarrow> nat \<Rightarrow> u32" where
  "outputs_of b i = fold (\<lambda>s x. x OR push_bit (source_bit s) (of_bool (enables_wf (sources b s) ! i))) all_sources 0"

text \<open>Whether the gains seen agree, what was seen and the gain.\<close>

fun assess_gain :: "(bool \<times> u32) list \<Rightarrow> bool \<Rightarrow> u32 \<Rightarrow> bool \<times> bool \<times> u32" where
  "assess_gain [] seen gain = (True, seen, gain)"
| "assess_gain ((e, g) # gs) seen gain =
     (if e then if seen then if g \<noteq> gain then (False, seen, gain) else assess_gain gs seen gain
                else assess_gain gs True g
      else assess_gain gs seen gain)"

fun assess_gains :: "(bool \<times> u32) list list \<Rightarrow> bool \<Rightarrow> u32 \<Rightarrow> bool \<times> bool \<times> u32" where
  "assess_gains [] seen gain = (True, seen, gain)"
| "assess_gains (s # ss) seen gain =
     (case assess_gain s seen gain of (False, seen, gain) \<Rightarrow> (False, seen, gain) | (True, seen, gain) \<Rightarrow> assess_gains ss seen gain)"

definition update_out_status :: "'f bunch_env \<Rightarrow> 'f bunch_bank \<Rightarrow> 'f bunch_bank" where
  "update_out_status env b =
     (let out_wf = for_bunches env (outputs_of b);
          enable_wf = map (\<lambda>x. x \<noteq> 0) out_wf;
          (all_same, seen, gain) = assess_gains
            (map (\<lambda>s. for_bunches env (\<lambda>i. (enables_wf (sources b s) ! i, scaled_gains (sources b s) ! i))) all_sources) False 0;
          gain_status = (if \<not> seen then '''' else if \<not> all_same then ''Mixed Gains'' else render_gain env gain)
      in case update_status_core (status_fits env) (count_of env) ''outputs'' out_wf (Some enable_wf) render_outputs of
        None \<Rightarrow> b
      | Some t \<Rightarrow> b\<lparr>out_status := format_status (status_fits env) (t @ '' '' @ gain_status)\<rparr>)"

definition update_output_status :: "'f bunch_env \<Rightarrow> bunch_source_id \<Rightarrow> 'f bunch_bank \<Rightarrow> 'f bunch_bank" where
  "update_output_status env s b = update_out_status env (update_gain_status env s b)"

text \<open>The configuration of the idle bank, and whether the outputs are on.\<close>

definition read_feedback_mode :: "'f bunch_env \<Rightarrow> bunch_config \<Rightarrow> nat \<Rightarrow> (nat \<Rightarrow> bool) \<Rightarrow> string" where
  "read_feedback_mode env c axis output_enable =
     (let is = [0..<count_of env];
          all_off = (\<forall>i \<in> set is. \<not> fir_enable c ! i);
          all_fir = (\<forall>i \<in> set is. nco0_gains c ! i = 0 \<and> nco1_gains c ! i = 0 \<and> nco2_gains c ! i = 0 \<and> nco3_gains c ! i = 0);
          same_fir = (\<forall>i \<in> set is. fir_select c ! i = fir_select c ! 0);
          output_on = (if two_axes env then output_enable 0 \<and> output_enable 1 else output_enable axis)
      in if \<not> output_on then ''Output off''
         else if all_off then ''Feedback off''
         else if \<not> all_fir then ''Feedback mixed mode''
         else if same_fir then ''Feedback on, FIR: #'' @ show_int (scast (fir_select c ! 0))
         else ''Feedback on, FIR: mixed'')"

section \<open>Writing the configuration\<close>

definition write_bunch_config :: "'f bunch_env \<Rightarrow> 'f bunch_bank \<Rightarrow> hw \<Rightarrow> hw" where
  "write_bunch_config env b h =
     (let h = hw_write_bunch_config (count_of env) (bank_axis b) (bank_number b) (bank_config b) h
      in if two_axes env then hw_write_bunch_config (count_of env) 1 (bank_number b) (bank_config b) h else h)"

fun set_hw_gains :: "bunch_source_id \<Rightarrow> u32 list \<Rightarrow> bunch_config \<Rightarrow> bunch_config" where
  "set_hw_gains FIR_SOURCE g c = c\<lparr>fir_gains := g\<rparr>"
| "set_hw_gains NCO0_SOURCE g c = c\<lparr>nco0_gains := g\<rparr>"
| "set_hw_gains NCO1_SOURCE g c = c\<lparr>nco1_gains := g\<rparr>"
| "set_hw_gains NCO2_SOURCE g c = c\<lparr>nco2_gains := g\<rparr>"
| "set_hw_gains NCO3_SOURCE g c = c\<lparr>nco3_gains := g\<rparr>"

text \<open>Only the FIR has enables of its own in the hardware; the others have gain 0 where disabled.\<close>

definition update_source_gains_enables ::
  "'f bunch_env \<Rightarrow> bunch_source_id \<Rightarrow> 'f bunch_bank \<Rightarrow> hw \<Rightarrow> 'f bunch_bank \<times> hw" where
  "update_source_gains_enables env s b h =
     (let src = sources b s;
          gains = for_bunches_offset env (gain_offset env)
            (\<lambda>j. if s = FIR_SOURCE \<or> enables_wf src ! j then scaled_gains src ! j else 0);
          c = set_hw_gains s gains (bank_config b);
          c = (if s = FIR_SOURCE then c\<lparr>fir_enable := for_bunches_offset env (gain_offset env) (\<lambda>j. enables_wf src ! j)\<rparr> else c);
          b = b\<lparr>bank_config := c\<rparr>
      in (update_output_status env s b, write_bunch_config env b h))"

section \<open>The handlers of the records\<close>

definition update_out_wf :: "'f bunch_env \<Rightarrow> 'f bunch_bank \<Rightarrow> 'f bunch_bank" where
  "update_out_wf env b = b\<lparr>outwf := for_bunches env (\<lambda>i. ucast (outputs_of b i))\<rparr>"

definition write_enables :: "'f bunch_env \<Rightarrow> bunch_source_id \<Rightarrow> u8 list \<Rightarrow> 'f bunch_bank \<times> hw \<Rightarrow> 'f bunch_bank \<times> hw" where
  "write_enables env s enables = (\<lambda>(b, h).
     let es = for_bunches env (\<lambda>i. enables ! i \<noteq> 0);
         b = b\<lparr>sources := (sources b)(s := (sources b s)\<lparr>enables_wf := es, enables_record := map of_bool es\<rparr>)\<rparr>;
         (b, h) = update_source_gains_enables env s b h
     in (update_out_wf env b, h))"

definition write_gains :: "'f bunch_env \<Rightarrow> bunch_source_id \<Rightarrow> 'f list \<Rightarrow> 'f bunch_bank \<times> hw \<Rightarrow> 'f bunch_bank \<times> hw" where
  "write_gains env s gains = (\<lambda>(b, h).
     let fs = for_bunches env (\<lambda>i. to_fixed env (gains ! i));
         b = b\<lparr>sources := (sources b)(s := (sources b s)\<lparr>scaled_gains := map fst fs, gains_record := map snd fs,
           gains_db := map (to_db env \<circ> snd) fs\<rparr>)\<rparr>
     in update_source_gains_enables env s b h)"

definition write_fir_wf :: "'f bunch_env \<Rightarrow> u8 list \<Rightarrow> 'f bunch_bank \<times> hw \<Rightarrow> 'f bunch_bank \<times> hw" where
  "write_fir_wf env sel = (\<lambda>(b, h).
     let b = (case update_fir_status (status_fits env) (count_of env) sel of None \<Rightarrow> b | Some t \<Rightarrow> b\<lparr>fir_status := t\<rparr>);
         fir = for_bunches env (\<lambda>i. sel ! i AND 3);
         b = b\<lparr>firwf := fir, bank_config := (bank_config b)\<lparr>fir_select := for_bunches_offset env (fir_offset env) (\<lambda>j. fir ! j)\<rparr>\<rparr>
     in (b, write_bunch_config env b h))"

definition write_source_enables :: "'f bunch_env \<Rightarrow> u8 list \<Rightarrow> bunch_source_id \<Rightarrow> 'f bunch_bank \<times> hw \<Rightarrow> 'f bunch_bank \<times> hw" where
  "write_source_enables env out_wf s =
     write_enables env s (for_bunches env (\<lambda>i. signed_drop_bit (source_bit s) (out_wf ! i) AND 1))"

definition write_out_wf :: "'f bunch_env \<Rightarrow> u8 list \<Rightarrow> 'f bunch_bank \<times> hw \<Rightarrow> 'f bunch_bank \<times> hw" where
  "write_out_wf env out_wf bh = fold (write_source_enables env out_wf) all_sources bh"

definition update_waveform_all :: "'f bunch_env \<Rightarrow> bunch_source_id \<Rightarrow> bool \<Rightarrow> 'f bunch_bank \<times> hw \<Rightarrow> 'f bunch_bank \<times> hw" where
  "update_waveform_all env s v = write_enables env s (for_bunches env (\<lambda>_. of_bool v))"

text \<open>Enables and gains of the bunches of a set.\<close>

definition set_enables :: "'f bunch_env \<Rightarrow> bunch_source_id \<Rightarrow> bunch_set \<Rightarrow> bool \<Rightarrow> 'f bunch_bank \<times> hw \<Rightarrow> 'f bunch_bank \<times> hw" where
  "set_enables env s bs v bh =
     write_enables env s (update_record_with_bunch_set (bunch_number env) bs (of_bool v) (enables_record (sources (fst bh) s))) bh"

definition set_gains :: "'f bunch_env \<Rightarrow> bunch_source_id \<Rightarrow> bunch_set \<Rightarrow> 'f bunch_bank \<times> hw \<Rightarrow> 'f bunch_bank \<times> hw" where
  "set_gains env s bs bh =
     (let src = sources (fst bh) s
      in write_gains env s (update_record_with_bunch_set (bunch_number env) bs (gain_choice src) (gains_record src)) bh)"

definition reset_source_gains :: "'f bunch_env \<Rightarrow> bunch_source_id \<Rightarrow> 'f bunch_bank \<times> hw \<Rightarrow> 'f bunch_bank \<times> hw" where
  "reset_source_gains env s = write_gains env s (for_bunches env (\<lambda>_. unit_gain env))"

definition reset_all_source_gains :: "'f bunch_env \<Rightarrow> 'f bunch_bank \<times> hw \<Rightarrow> 'f bunch_bank \<times> hw" where
  "reset_all_source_gains env bh = fold (reset_source_gains env) all_sources bh"

definition update_fir_waveform :: "'f bunch_env \<Rightarrow> bunch_set \<Rightarrow> 'f bunch_bank \<times> hw \<Rightarrow> 'f bunch_bank \<times> hw" where
  "update_fir_waveform env bs bh =
     write_fir_wf env (update_record_with_bunch_set (bunch_number env) bs (ucast (fir_choice (fst bh))) (firwf (fst bh))) bh"

definition get_bunch_seq_enables :: "'f bunch_env \<Rightarrow> 'f bunch_bank \<Rightarrow> bool list" where
  "get_bunch_seq_enables env b = for_bunches env (\<lambda>i. nco1_gains (bank_config b) ! i \<noteq> 0)"

section \<open>Copying a bank\<close>

record 'f bunch_context =
  copy_from :: u16
  copy_to :: u16
  bunch_banks :: "'f bunch_bank list"

definition copy_source :: "'f bunch_env \<Rightarrow> 'f bunch_bank \<Rightarrow> bunch_source_id \<Rightarrow> 'f bunch_bank \<times> hw \<Rightarrow> 'f bunch_bank \<times> hw" where
  "copy_source env from s bh =
     write_gains env s (gains_record (sources from s)) (write_enables env s (enables_record (sources from s)) bh)"

definition copy_bank_from_to :: "'f bunch_env \<Rightarrow> 'f bunch_context \<Rightarrow> hw \<Rightarrow> 'f bunch_context \<times> hw" where
  "copy_bank_from_to env bun h =
     (if copy_from bun \<noteq> copy_to bun
      then let from = bunch_banks bun ! unat (copy_from bun);
               bh = write_fir_wf env (firwf from) (bunch_banks bun ! unat (copy_to bun), h);
               (b, h) = fold (copy_source env from) all_sources bh
           in (bun\<lparr>bunch_banks := (bunch_banks bun)[unat (copy_to bun) := b]\<rparr>, h)
      else (bun, h))"

section \<open>Initialisation\<close>

definition publish_bank_source :: "'f bunch_env \<Rightarrow> 'f \<Rightarrow> 'f bunch_source" where
  "publish_bank_source env zero =
     \<lparr>enables_record = for_bunches env (\<lambda>_. 0), gains_record = for_bunches env (\<lambda>_. zero), gain_choice = unit_gain env,
      src_status = '''', gains_db = for_bunches env (\<lambda>_. zero), enables_wf = for_bunches env (\<lambda>_. False),
      scaled_gains = for_bunches env (\<lambda>_. 0)\<rparr>"

definition initialise_bank :: "'f bunch_env \<Rightarrow> 'f \<Rightarrow> nat \<Rightarrow> u16 \<Rightarrow> 'f bunch_bank" where
  "initialise_bank env zero axis k =
     \<lparr>bank_axis = axis, bank_number = k,
      bank_config = \<lparr>fir_select = for_bunches env (\<lambda>_. 0), fir_enable = for_bunches env (\<lambda>_. False), fir_gains = for_bunches env (\<lambda>_. 0),
        nco0_gains = for_bunches env (\<lambda>_. 0), nco1_gains = for_bunches env (\<lambda>_. 0), nco2_gains = for_bunches env (\<lambda>_. 0),
        nco3_gains = for_bunches env (\<lambda>_. 0)\<rparr>,
      fir_status = '''', out_status = '''', firwf = for_bunches env (\<lambda>_. 0), outwf = for_bunches env (\<lambda>_. 0), fir_choice = 0,
      sources = (\<lambda>_. publish_bank_source env zero)\<rparr>"

end
