(* ===== verification/Bunch_Select_Properties.thy ===== *)
theory Bunch_Select_Properties
  imports Bunch_Select
begin

unbundle bit_operations_syntax

text \<open>
  The settings of a bank in the hardware: after any sequence of operations the words last written for
  the bank give each bunch its own settings.
\<close>

section \<open>The words of a bunch\<close>

fun is_bunch_reg :: "nat \<Rightarrow> reg \<Rightarrow> bool" where
  "is_bunch_reg a (DSP x (BUNCH r)) = (x = a \<and> r \<noteq> BUNCH_CONFIG)"
| "is_bunch_reg a _ = False"

definition split_gain :: "u32 \<Rightarrow> u32 \<Rightarrow> u32" where
  "split_gain hi lo = push_bit 2 hi OR lo"

definition decode_bunch :: "u32 list \<Rightarrow> u8 \<times> bool \<times> u32 \<times> u32 list" where
  "decode_bunch ws =
     (ucast (get_field 0 2 (ws ! 2)), flag 20 (ws ! 2), get_field 2 18 (ws ! 2),
      [split_gain (get_field 0 16 (ws ! 0)) (get_field 21 2 (ws ! 2)), split_gain (get_field 16 16 (ws ! 0)) (get_field 23 2 (ws ! 2)),
       split_gain (get_field 0 16 (ws ! 1)) (get_field 25 2 (ws ! 2)), split_gain (get_field 16 16 (ws ! 1)) (get_field 27 2 (ws ! 2))])"

lemma split_gain_parts: "split_gain (take_bit 16 (drop_bit 2 g)) (take_bit 2 g) = take_bit 18 g"
proof (rule bit_word_eqI)
  fix n
  have "2 \<le> n \<Longrightarrow> Suc (Suc (n - 2)) = n" by simp
  then show "bit (split_gain (take_bit 16 (drop_bit 2 g)) (take_bit 2 g)) n = bit (take_bit 18 g) n"
    unfolding split_gain_def by (cases "n < 2") (auto simp: bit_simps)
qed

lemma scast_select: "ucast (take_bit 2 (scast x :: u32)) = take_bit 2 (x :: u8)"
  by (rule bit_word_eqI) (auto simp: bit_simps)

lemma decode_bunch_words:
  "decode_bunch (map snd (bunch_words c i)) =
     (take_bit 2 (fir_select c ! i), fir_enable c ! i, take_bit 18 (fir_gains c ! i),
      [take_bit 18 (nco0_gains c ! i), take_bit 18 (nco1_gains c ! i), take_bit 18 (nco2_gains c ! i), take_bit 18 (nco3_gains c ! i)])"
  by (simp add: decode_bunch_def bunch_words_def pack_def get_put_same get_put_other flag_put take_bit_masked split_gain_parts
      scast_select del: take_bit_and One_nat_def split del: split_of_bool)

definition config_words :: "nat \<Rightarrow> bunch_config \<Rightarrow> u32 list" where
  "config_words n c = concat (map (\<lambda>i. map snd (bunch_words c i)) [0..<n])"

lemma words_of_bunch:
  "words_to (is_bunch_reg a) (fold (\<lambda>(r, v). writel (DSP x (BUNCH r)) v) (bunch_words c i) h) =
     words_to (is_bunch_reg a) h @ (if x = a then map snd (bunch_words c i) else [])"
  by (simp add: bunch_words_def)

lemma words_of_bunches:
  "words_to (is_bunch_reg a) (fold (\<lambda>i. fold (\<lambda>(r, v). writel (DSP x (BUNCH r)) v) (bunch_words c i)) is h) =
     words_to (is_bunch_reg a) h @ (if x = a then concat (map (\<lambda>i. map snd (bunch_words c i)) is) else [])"
  by (induction "is" arbitrary: h) (simp_all add: words_of_bunch)

lemma words_of_config:
  "words_to (is_bunch_reg a) (hw_write_bunch_config n x bank c h) =
     words_to (is_bunch_reg a) h @ (if x = a then config_words n c else [])"
  by (simp add: hw_write_bunch_config_def Let_def words_of_bunches config_words_def)

lemma decode_config_words:
  "map decode_bunch (in_groups 3 (config_words n c)) = map (\<lambda>i. decode_bunch (map snd (bunch_words c i))) [0..<n]"
proof -
  have "in_groups 3 (config_words n c) = map (\<lambda>i. map snd (bunch_words c i)) [0..<n]"
    unfolding config_words_def by (rule in_groups_concat) (auto simp: bunch_words_def)
  then show ?thesis by simp
qed

lemma length_config_words: "length (config_words n c) = 3 * n"
  by (simp add: config_words_def length_concat comp_def bunch_words_def sum_list_triv)

section \<open>The configuration of a bank\<close>

definition hw_gain :: "'f bunch_bank \<Rightarrow> bunch_source_id \<Rightarrow> nat \<Rightarrow> u32" where
  "hw_gain b s j = (if s = FIR_SOURCE \<or> enables_wf (sources b s) ! j then scaled_gains (sources b s) ! j else 0)"

text \<open>The configuration the settings stand for.\<close>

definition config_of :: "'f bunch_env \<Rightarrow> 'f bunch_bank \<Rightarrow> bunch_config" where
  "config_of env b =
     (let g = (\<lambda>s. for_bunches_offset env (gain_offset env) (hw_gain b s))
      in \<lparr>fir_select = for_bunches_offset env (fir_offset env) (\<lambda>j. firwf b ! j),
          fir_enable = for_bunches_offset env (gain_offset env) (\<lambda>j. enables_wf (sources b FIR_SOURCE) ! j),
          fir_gains = g FIR_SOURCE, nco0_gains = g NCO0_SOURCE, nco1_gains = g NCO1_SOURCE,
          nco2_gains = g NCO2_SOURCE, nco3_gains = g NCO3_SOURCE\<rparr>)"

text \<open>The summaries change nothing else.\<close>

lemma update_output_status_fields [simp]:
  "bank_config (update_output_status env s b) = bank_config b"
  "bank_axis (update_output_status env s b) = bank_axis b"
  "firwf (update_output_status env s b) = firwf b"
  "enables_wf (sources (update_output_status env s b) t) = enables_wf (sources b t)"
  "scaled_gains (sources (update_output_status env s b) t) = scaled_gains (sources b t)"
  by (auto simp: update_output_status_def update_out_status_def update_gain_status_def Let_def
      split: option.split prod.split)

lemma config_of_cong:
  assumes "\<And>t. enables_wf (sources b t) = enables_wf (sources b' t)" "\<And>t. scaled_gains (sources b t) = scaled_gains (sources b' t)"
    "firwf b = firwf b'"
  shows "config_of env b = config_of env b'"
proof -
  have "hw_gain b = hw_gain b'" by (intro ext) (simp add: hw_gain_def assms)
  then show ?thesis by (simp add: config_of_def assms)
qed

lemma config_of_status [simp]: "config_of env (update_output_status env s b) = config_of env b"
  by (rule config_of_cong) simp_all

lemma config_of_out_wf [simp]: "config_of env (update_out_wf env b) = config_of env b"
  by (rule config_of_cong) (simp_all add: update_out_wf_def)

lemma config_of_simps [simp]:
  "config_of env (b\<lparr>bank_config := c\<rparr>) = config_of env b" "config_of env (b\<lparr>fir_status := t\<rparr>) = config_of env b"
  by (rule config_of_cong; simp)+

text \<open>The last words written for an axis are those of the configuration.\<close>

definition written :: "'f bunch_env \<Rightarrow> nat \<Rightarrow> 'f bunch_bank \<times> hw \<Rightarrow> bool" where
  "written env a = (\<lambda>(b, h). \<exists>ws. words_to (is_bunch_reg a) h = ws @ config_words (count_of env) (bank_config b))"

definition axis_of :: "'f bunch_env \<Rightarrow> nat \<Rightarrow> 'f bunch_bank \<Rightarrow> bool" where
  "axis_of env a b \<longleftrightarrow> bank_axis b = a \<or> two_axes env \<and> a = 1"

text \<open>What every operation keeps, and what those that write to the hardware establish.\<close>

definition bank_ok :: "'f bunch_env \<Rightarrow> nat \<Rightarrow> 'f bunch_bank \<times> hw \<Rightarrow> bool" where
  "bank_ok env a bh \<longleftrightarrow> bank_config (fst bh) = config_of env (fst bh) \<and> axis_of env a (fst bh)"

lemma written_config: "axis_of env a b \<Longrightarrow> written env a (b, write_bunch_config env b h)"
  by (auto simp: written_def axis_of_def write_bunch_config_def Let_def words_of_config)

lemma axis_of_simps [simp]:
  "axis_of env a (update_output_status env s b) = axis_of env a b"
  "axis_of env a (b\<lparr>bank_config := c\<rparr>) = axis_of env a b"
  "axis_of env a (b\<lparr>sources := x\<rparr>) = axis_of env a b"
  "axis_of env a (b\<lparr>firwf := f\<rparr>) = axis_of env a b"
  "axis_of env a (b\<lparr>fir_status := t\<rparr>) = axis_of env a b"
  "axis_of env a (b\<lparr>outwf := f\<rparr>) = axis_of env a b"
  by (simp_all add: axis_of_def)

text \<open>Updating a source whose settings changed restores the configuration.\<close>

lemma config_of_update:
  assumes "bank_config b = config_of env b0" "\<And>t. t \<noteq> s \<Longrightarrow> sources b t = sources b0 t" "firwf b = firwf b0"
  shows "bank_config (fst (update_source_gains_enables env s b h)) = config_of env b"
proof -
  have g: "hw_gain b t = hw_gain b0 t" if "t \<noteq> s" for t by (rule ext) (simp add: hw_gain_def assms(2) [OF that])
  have e: "sources b FIR_SOURCE = sources b0 FIR_SOURCE" if "s \<noteq> FIR_SOURCE" using assms(2) that by metis
  have "bank_config (fst (update_source_gains_enables env s b h)) =
      (let c = set_hw_gains s (for_bunches_offset env (gain_offset env) (hw_gain b s)) (bank_config b)
       in if s = FIR_SOURCE then c\<lparr>fir_enable := for_bunches_offset env (gain_offset env) (\<lambda>j. enables_wf (sources b s) ! j)\<rparr> else c)"
    unfolding update_source_gains_enables_def hw_gain_def [abs_def] Let_def by simp
  then show ?thesis using g e by (cases s) (simp_all add: config_of_def assms(1,3))
qed

lemma update_source_ok:
  assumes "bank_config b = config_of env b0" "\<And>t. t \<noteq> s \<Longrightarrow> sources b t = sources b0 t" "firwf b = firwf b0" "axis_of env a b"
  shows "bank_ok env a (update_source_gains_enables env s b h) \<and> written env a (update_source_gains_enables env s b h)"
proof -
  have "config_of env (fst (update_source_gains_enables env s b h)) = config_of env b"
    by (simp add: update_source_gains_enables_def Let_def)
  moreover have "axis_of env a (fst (update_source_gains_enables env s b h))"
    using assms(4) by (simp add: update_source_gains_enables_def Let_def)
  moreover have "written env a (update_source_gains_enables env s b h)"
  proof -
    obtain b2 where u: "update_source_gains_enables env s b h = (update_output_status env s b2, write_bunch_config env b2 h)"
      and x: "axis_of env a b2"
      using assms(4) by (simp add: update_source_gains_enables_def Let_def axis_of_def)
    show ?thesis using written_config [OF x, of h] by (simp add: u written_def)
  qed
  ultimately show ?thesis using config_of_update [OF assms(1-3)] by (simp add: bank_ok_def)
qed

lemma written_out_wf [simp]: "written env a (update_out_wf env b, h) = written env a (b, h)"
  by (simp add: written_def update_out_wf_def)

lemma bank_ok_out_wf [simp]: "bank_ok env a (update_out_wf env b, h) = bank_ok env a (b, h)"
  by (simp add: bank_ok_def) (simp add: update_out_wf_def)

lemma write_enables_ok:
  "bank_ok env a bh \<Longrightarrow> bank_ok env a (write_enables env s es bh) \<and> written env a (write_enables env s es bh)"
proof -
  assume ok: "bank_ok env a bh"
  obtain b h where bh: "bh = (b, h)" by (cases bh)
  let ?b = "b\<lparr>sources := (sources b)(s := (sources b s)\<lparr>enables_wf := for_bunches env (\<lambda>i. es ! i \<noteq> 0),
      enables_record := map of_bool (for_bunches env (\<lambda>i. es ! i \<noteq> 0))\<rparr>)\<rparr>"
  have "bank_ok env a (update_source_gains_enables env s ?b h) \<and> written env a (update_source_gains_enables env s ?b h)"
    using ok by (intro update_source_ok [of _ _ b]) (auto simp: bank_ok_def bh)
  then show ?thesis by (cases "update_source_gains_enables env s ?b h") (simp add: write_enables_def bh Let_def)
qed

lemma write_gains_ok:
  "bank_ok env a bh \<Longrightarrow> bank_ok env a (write_gains env s gs bh) \<and> written env a (write_gains env s gs bh)"
proof -
  assume ok: "bank_ok env a bh"
  obtain b h where bh: "bh = (b, h)" by (cases bh)
  show ?thesis unfolding write_gains_def bh prod.case Let_def
    using ok by (intro update_source_ok [of _ _ b]) (auto simp: bank_ok_def bh)
qed

lemma write_fir_ok:
  "bank_ok env a bh \<Longrightarrow> bank_ok env a (write_fir_wf env sel bh) \<and> written env a (write_fir_wf env sel bh)"
proof -
  assume ok: "bank_ok env a bh"
  obtain b h where bh: "bh = (b, h)" by (cases bh)
  define b1 where "b1 = (case update_fir_status (status_fits env) (count_of env) sel of None \<Rightarrow> b | Some t \<Rightarrow> b\<lparr>fir_status := t\<rparr>)"
  have b1: "bank_config b1 = config_of env b1" "axis_of env a b1"
    using ok by (auto simp: b1_def bank_ok_def bh split: option.split)
  define b2 where "b2 = b1\<lparr>firwf := for_bunches env (\<lambda>i. sel ! i AND 3),
      bank_config := (bank_config b1)\<lparr>fir_select := for_bunches_offset env (fir_offset env) (\<lambda>j. for_bunches env (\<lambda>i. sel ! i AND 3) ! j)\<rparr>\<rparr>"
  have "hw_gain b2 = hw_gain b1" by (intro ext) (simp add: hw_gain_def b2_def)
  then have "bank_config b2 = config_of env b2"
    by (simp add: config_of_def) (simp add: b2_def b1(1) config_of_def)
  moreover have "axis_of env a b2" using b1(2) by (simp add: b2_def axis_of_def)
  moreover have "write_fir_wf env sel bh = (b2, write_bunch_config env b2 h)"
    by (simp add: write_fir_wf_def bh Let_def b1_def b2_def)
  ultimately show ?thesis by (simp add: bank_ok_def written_config)
qed

section \<open>Sequences of operations\<close>

datatype 'f bank_op = WriteEnables bunch_source_id "u8 list" | WriteGains bunch_source_id "'f list" | WriteFirSelect "u8 list"
  | WriteOutputs "u8 list" | EnableAll bunch_source_id bool | EnableSet bunch_source_id bunch_set bool
  | GainSet bunch_source_id bunch_set | ResetGains | FirSet bunch_set | ChooseGain bunch_source_id 'f | ChooseFir u16

fun bank_apply :: "'f bunch_env \<Rightarrow> 'f bank_op \<Rightarrow> 'f bunch_bank \<times> hw \<Rightarrow> 'f bunch_bank \<times> hw" where
  "bank_apply env (WriteEnables s es) = write_enables env s es"
| "bank_apply env (WriteGains s gs) = write_gains env s gs"
| "bank_apply env (WriteFirSelect sel) = write_fir_wf env sel"
| "bank_apply env (WriteOutputs xs) = write_out_wf env xs"
| "bank_apply env (EnableAll s v) = update_waveform_all env s v"
| "bank_apply env (EnableSet s bs v) = set_enables env s bs v"
| "bank_apply env (GainSet s bs) = set_gains env s bs"
| "bank_apply env ResetGains = reset_all_source_gains env"
| "bank_apply env (FirSet bs) = update_fir_waveform env bs"
| "bank_apply env (ChooseGain s g) =
     (\<lambda>(b, h). (b\<lparr>sources := (sources b)(s := (sources b s)\<lparr>gain_choice := g\<rparr>)\<rparr>, h))"
| "bank_apply env (ChooseFir f) = (\<lambda>(b, h). (b\<lparr>fir_choice := f\<rparr>, h))"

text \<open>The choices alone are not written to the hardware.\<close>

fun configures :: "'f bank_op \<Rightarrow> bool" where
  "configures (ChooseGain s g) = False"
| "configures (ChooseFir f) = False"
| "configures _ = True"

definition bank_run :: "'f bunch_env \<Rightarrow> 'f bank_op list \<Rightarrow> 'f bunch_bank \<times> hw \<Rightarrow> 'f bunch_bank \<times> hw" where
  "bank_run env ops bh = fold (bank_apply env) ops bh"

lemma fold_sources_ok:
  assumes "\<And>s bh. bank_ok env a bh \<Longrightarrow> bank_ok env a (f s bh) \<and> written env a (f s bh)" "bank_ok env a bh" "ss \<noteq> []"
  shows "bank_ok env a (fold f ss bh) \<and> written env a (fold f ss bh)"
  using assms(2,3)
proof (induction ss arbitrary: bh)
  case (Cons s ss)
  then show ?case using assms(1) [of bh s] by (cases ss) auto
qed simp

lemma bank_apply_ok:
  assumes "bank_ok env a bh"
  shows "bank_ok env a (bank_apply env op bh)" and "configures op \<or> written env a bh \<Longrightarrow> written env a (bank_apply env op bh)"
proof -
  obtain b h where bh: "bh = (b, h)" by (cases bh)
  have "config_of env (b\<lparr>sources := (sources b)(s := (sources b s)\<lparr>gain_choice := g\<rparr>)\<rparr>) = config_of env b" for s g
    by (rule config_of_cong) simp_all
  moreover have "config_of env (b\<lparr>fir_choice := f\<rparr>) = config_of env b" for f by (rule config_of_cong) simp_all
  moreover have "axis_of env a (b\<lparr>fir_choice := f\<rparr>) = axis_of env a b" for f by (simp add: axis_of_def)
  moreover have "all_sources \<noteq> []" by (simp add: all_sources_def)
  ultimately have "bank_ok env a (bank_apply env op bh) \<and> (configures op \<or> written env a bh \<longrightarrow> written env a (bank_apply env op bh))"
    using assms write_enables_ok [OF assms] write_gains_ok [OF assms] write_fir_ok [OF assms]
    by (cases op)
      (simp_all add: write_out_wf_def reset_all_source_gains_def update_waveform_all_def set_enables_def set_gains_def Let_def
        update_fir_waveform_def fold_sources_ok write_source_enables_def reset_source_gains_def write_enables_ok write_gains_ok,
       simp_all add: bh bank_ok_def written_def)
  then show "bank_ok env a (bank_apply env op bh)"
    and "configures op \<or> written env a bh \<Longrightarrow> written env a (bank_apply env op bh)" by auto
qed

lemma bank_run_ok:
  assumes "bank_ok env a bh"
  shows "bank_ok env a (bank_run env ops bh) \<and> (list_ex configures ops \<or> written env a bh \<longrightarrow> written env a (bank_run env ops bh))"
  using assms
proof (induction ops arbitrary: bh)
  case (Cons op ops)
  then show ?case using Cons.IH [OF bank_apply_ok(1) [OF Cons.prems, of op]] bank_apply_ok(2) [OF Cons.prems, of op]
    by (auto simp: bank_run_def)
qed (simp add: bank_run_def)

lemma offset_loop_nth: "off < n \<Longrightarrow> i < m \<Longrightarrow> offset_loop n off m ! i = (i + off) mod n"
proof (induction m arbitrary: off i)
  case (Suc m)
  then show ?case
  proof (cases i)
    case (Suc k)
    have "(Suc (k + off)) mod n = (k + (if off + 1 < n then off + 1 else 0)) mod n"
    proof (cases "off + 1 < n")
      case False
      then have n: "Suc (k + off) = k + n" using Suc.prems(1) by simp
      show ?thesis unfolding n using False by simp
    qed simp
    moreover have "offset_loop n (if off + 1 < n then off + 1 else 0) m ! k = (k + (if off + 1 < n then off + 1 else 0)) mod n"
      using Suc.prems Suc by (intro Suc.IH) auto
    ultimately show ?thesis using Suc by simp
  qed simp
qed simp

lemma length_offset_loop [simp]: "length (offset_loop n j m) = m"
  by (induction m arbitrary: j) auto

lemma length_bunches [simp]: "length (for_bunches_offset env off f) = count_of env" "length (for_bunches env f) = count_of env"
  by (simp_all add: for_bunches_offset_def for_bunches_def)

lemma nth_bunches_offset:
  "off < count_of env \<Longrightarrow> i < count_of env \<Longrightarrow> for_bunches_offset env off f ! i = f ((i + off) mod count_of env)"
  by (simp add: for_bunches_offset_def offset_loop_nth)

lemma bunches_offset_cong:
  assumes "off < count_of env" "\<And>j. j < count_of env \<Longrightarrow> f j = g j"
  shows "for_bunches_offset env off f = for_bunches_offset env off g"
  by (rule nth_equalityI) (use assms in \<open>auto simp: nth_bunches_offset\<close>)

lemma bunches_offset_const:
  "off < count_of env \<Longrightarrow> for_bunches_offset env off (\<lambda>_. x) = for_bunches env (\<lambda>_. x)"
  by (rule nth_equalityI) (simp_all add: nth_bunches_offset, simp add: for_bunches_def)

lemma initial_bank_ok:
  assumes "gain_offset env < count_of env" "fir_offset env < count_of env" "axis = a \<or> two_axes env \<and> a = 1"
  shows "bank_ok env a (initialise_bank env zero axis k, h)"
proof -
  let ?b = "initialise_bank env zero axis k"
  have g: "for_bunches_offset env (gain_offset env) (hw_gain ?b s) = for_bunches env (\<lambda>_. 0)" for s
    using bunches_offset_cong [OF assms(1), of "hw_gain ?b s" "\<lambda>_. 0"] bunches_offset_const [OF assms(1), of 0]
    by (simp add: hw_gain_def initialise_bank_def publish_bank_source_def for_bunches_def)
  have e: "for_bunches_offset env (gain_offset env) (\<lambda>j. enables_wf (sources ?b FIR_SOURCE) ! j) = for_bunches env (\<lambda>_. False)"
    using bunches_offset_cong [OF assms(1), of "\<lambda>j. enables_wf (sources ?b FIR_SOURCE) ! j" "\<lambda>_. False"] bunches_offset_const [OF assms(1), of False]
    by (simp add: initialise_bank_def publish_bank_source_def for_bunches_def)
  have f: "for_bunches_offset env (fir_offset env) (\<lambda>j. firwf ?b ! j) = for_bunches env (\<lambda>_. 0)"
    using bunches_offset_cong [OF assms(2), of "\<lambda>j. firwf ?b ! j" "\<lambda>_. 0"] bunches_offset_const [OF assms(2), of 0]
    by (simp add: initialise_bank_def for_bunches_def)
  show ?thesis using assms(3) unfolding bank_ok_def fst_conv config_of_def g e f Let_def
    by (simp add: initialise_bank_def axis_of_def)
qed

text \<open>What the hardware should hold of bunch \<open>i\<close>: the settings of the bunch the offsets lead to.\<close>

definition bunch_setting :: "'f bunch_env \<Rightarrow> 'f bunch_bank \<Rightarrow> nat \<Rightarrow> u8 \<times> bool \<times> u32 \<times> u32 list" where
  "bunch_setting env b i =
     (let j = (i + gain_offset env) mod count_of env; k = (i + fir_offset env) mod count_of env
      in (take_bit 2 (firwf b ! k), enables_wf (sources b FIR_SOURCE) ! j, take_bit 18 (scaled_gains (sources b FIR_SOURCE) ! j),
          map (\<lambda>s. if enables_wf (sources b s) ! j then take_bit 18 (scaled_gains (sources b s) ! j) else 0)
            [NCO0_SOURCE, NCO1_SOURCE, NCO2_SOURCE, NCO3_SOURCE]))"

definition last_words :: "nat \<Rightarrow> nat \<Rightarrow> hw \<Rightarrow> u32 list" where
  "last_words n a h = (let ws = words_to (is_bunch_reg a) h in drop (length ws - 3 * n) ws)"

text \<open>C9 The hardware holds the settings of a bank: after any sequence of operations on it - enables, gains,
  FIR selections and outputs written whole, for all bunches or for a set of bunches, and choices for
  later ones - in which at least one was written, the words last written for the axis (for both axes when
  they operate as one) read back as the FIR selection, FIR enable, FIR gain and the four NCO gains of each
  bunch, displaced by the configured offsets, a disabled NCO having gain 0.\<close>

theorem bunch_settings_in_hardware:
  assumes "gain_offset env < count_of env" "fir_offset env < count_of env" "axis = a \<or> two_axes env \<and> a = 1"
    "list_ex configures ops" "bank_run env ops (initialise_bank env zero axis k, h0) = (b, h)"
  shows "map decode_bunch (in_groups 3 (last_words (count_of env) a h)) = map (bunch_setting env b) [0..<count_of env]"
proof -
  have ok: "bank_config b = config_of env b" and w: "written env a (b, h)"
    using bank_run_ok [OF initial_bank_ok [OF assms(1-3), of zero k h0], of ops] assms(4,5) by (simp_all add: bank_ok_def)
  from w have "last_words (count_of env) a h = config_words (count_of env) (config_of env b)"
    by (auto simp: written_def last_words_def length_config_words ok Let_def)
  moreover have "decode_bunch (map snd (bunch_words (config_of env b) i)) = bunch_setting env b i" if "i < count_of env" for i
    using that assms(1,2)
    by (simp add: decode_bunch_words config_of_def nth_bunches_offset bunch_setting_def Let_def hw_gain_def if_distrib)
  ultimately show ?thesis by (simp add: decode_config_words)
qed

definition sample_bunches :: "nat bunch_env" where
  "sample_bunches = \<lparr>bunch_number = 2, gain_offset = 1, fir_offset = 0, two_axes = False, status_fits = (\<lambda>_. True),
     show_db = (\<lambda>_. ''''), to_fixed = (\<lambda>x. (of_nat x, x)), to_db = id, unit_gain = 1\<rparr>"

theorem bunch_settings_in_hardware_witness:
  "let bh = bank_run sample_bunches [WriteGains NCO1_SOURCE [5, 7], WriteEnables NCO1_SOURCE [1, 0]]
       (initialise_bank sample_bunches 0 0 3, initial_hw)
   in map decode_bunch (in_groups 3 (last_words 2 0 (snd bh))) = map (bunch_setting sample_bunches (fst bh)) [0..<2]"
  using bunch_settings_in_hardware [of sample_bunches 0 0 "[WriteGains NCO1_SOURCE [5, 7], WriteEnables NCO1_SOURCE [1, 0]]" 0 3 initial_hw]
  by (simp add: Let_def count_of_def prod_eq_iff sample_bunches_def)

end
