(* ===== verification/Sequencer_Mode.thy ===== *)
theory Sequencer_Mode
  imports Bunch_Select_Properties
begin

text \<open>
  The mode of the sequencer shown to the operator (\<^verbatim>\<open>read_sequencer_mode\<close> of \<^verbatim>\<open>epics/src/sequencer.c\<close>), which
  combines the sequencer, the trigger, the first detector and the bunch bank of the first state.
  \<open>show_gain\<close> prints the output gain in decibels.
\<close>

definition count_bunches_equal_to :: "nat \<Rightarrow> bool \<Rightarrow> bool list \<Rightarrow> nat" where
  "count_bunches_equal_to n v bs = fold (\<lambda>i c. if bs ! i = v then c + 1 else c) [0..<n] 0"

definition count_bunches_equal :: "nat \<Rightarrow> bool list \<Rightarrow> bool list \<Rightarrow> nat" where
  "count_bunches_equal n b1 b2 = fold (\<lambda>i c. if b1 ! i = b2 ! i then c + 1 else c) [0..<n] 0"

text \<open>\<open>None\<close> is the failed assertion.\<close>

definition find_first_index :: "nat \<Rightarrow> bool \<Rightarrow> bool list \<Rightarrow> nat option" where
  "find_first_index n v bs = List.find (\<lambda>i. bs ! i = v) [0..<n]"

definition read_sequencer_mode ::
  "'f bunch_env \<Rightarrow> (u32 \<Rightarrow> string) \<Rightarrow> bool \<Rightarrow> detector_config \<Rightarrow> 'f bunch_bank list \<Rightarrow> seq_context \<Rightarrow> string option" where
  "read_sequencer_mode env show_gain trigger_active det bks seq =
     (let entry0 = entries (seq_config seq) ! 0;
          n = count_of env;
          nco1_enables = get_bunch_seq_enables env (bks ! unat (bunch_bank entry0));
          sweeping = count_bunches_equal_to n True nco1_enables;
          overlap = count_bunches_equal n nco1_enables (bunch_enables det)
      in if \<not> trigger_active then Some ''Trigger not enabled''
         else if super_seq_count (seq_config seq) > 1 then Some ''Super sequencer active''
         else if sequencer_pc (seq_config seq) > 1 then Some ''Multi-state sequencer''
         else if nco_gain entry0 = 0 then Some ''Sequencer NCO off''
         else if \<not> enable det \<or> count_bunches_equal_to n True (bunch_enables det) = 0 then Some ''Detector 0 disabled''
         else if sweeping = 0 then Some ''No tune sweep''
         else if overlap = 0 then Some ''Not sweeping detector''
         else let gain = '' ('' @ show_gain (nco_gain entry0) @ '')''
              in if sweeping = 1
                 then case find_first_index n True nco1_enables of None \<Rightarrow> None
                   | Some i \<Rightarrow> Some (''Sweep: bunch '' @ show_nat i @ gain)
                 else if sweeping = n then Some (''Sweep: all bunches'' @ gain)
                 else Some (''Sweep: '' @ show_nat sweeping @ '' bunches'' @ gain))"

lemma fold_count: "fold (\<lambda>i c. if P i then c + 1 else c) [0..<n] (0::nat) = card {i. i < n \<and> P i}"
proof (induction n)
  case (Suc n)
  have "{i. i < Suc n \<and> P i} = (if P n then insert n {i. i < n \<and> P i} else {i. i < n \<and> P i})"
    by (auto simp: less_Suc_eq)
  then show ?case using Suc.IH by simp
qed simp

lemma count_bunches_equal_to_card: "count_bunches_equal_to n v bs = card {i. i < n \<and> bs ! i = v}"
  unfolding count_bunches_equal_to_def by (rule fold_count)

lemma count_bunches_equal_card: "count_bunches_equal n b1 b2 = card {i. i < n \<and> b1 ! i = b2 ! i}"
  unfolding count_bunches_equal_def by (rule fold_count)

text \<open>The assertion does not fail: a bunch is found wherever one is swept.\<close>

lemma find_first_sweeping: "find_first_index n True bs = None \<Longrightarrow> count_bunches_equal_to n True bs = 0"
  by (auto simp: count_bunches_equal_to_card find_first_index_def find_None_iff card_eq_0_iff)

text \<open>The mode always is a text, and no summary of a sweep is shown unless its conditions hold.\<close>

lemma sequencer_mode_total: "read_sequencer_mode env show_gain trig det bks seq \<noteq> None"
  by (auto simp: read_sequencer_mode_def Let_def dest!: find_first_sweeping split: option.splits if_splits)

text \<open>With a single state sweeping and the detector enabled the mode is "Not sweeping detector" only when the swept
  bunches are exactly those the detector leaves out: what is counted as overlap are the bunches on
  which the two agree, so a sweep of other bunches than those detected is shown as a sweep unless every
  bunch is either swept or detected.\<close>

theorem sweep_overlap_complement:
  assumes "entries (seq_config seq) ! 0 = e" "nco_gain e \<noteq> 0" "super_seq_count (seq_config seq) \<le> 1" "sequencer_pc (seq_config seq) \<le> 1"
    "enable det" "\<exists>i < count_of env. bunch_enables det ! i"
    "get_bunch_seq_enables env (bks ! unat (bunch_bank e)) = sweep" "\<exists>i < count_of env. sweep ! i"
  shows "read_sequencer_mode env show_gain True det bks seq = Some ''Not sweeping detector'' \<longleftrightarrow>
    (\<forall>i < count_of env. sweep ! i = (\<not> bunch_enables det ! i))"
proof -
  let ?n = "count_of env"
  have d: "count_bunches_equal_to ?n True (bunch_enables det) \<noteq> 0" and s: "count_bunches_equal_to ?n True sweep \<noteq> 0"
    using assms(6,8) by (auto simp: count_bunches_equal_to_card card_eq_0_iff)
  have o: "count_bunches_equal ?n sweep (bunch_enables det) = 0 \<longleftrightarrow> (\<forall>i < ?n. sweep ! i = (\<not> bunch_enables det ! i))"
    by (auto simp: count_bunches_equal_card card_eq_0_iff)
  have "read_sequencer_mode env show_gain True det bks seq \<noteq> Some ''Not sweeping detector''"
    if "count_bunches_equal ?n sweep (bunch_enables det) \<noteq> 0"
    using that d s assms(1-5,7) by (auto simp: read_sequencer_mode_def Let_def not_less split: option.split)
  moreover have "read_sequencer_mode env show_gain True det bks seq = Some ''Not sweeping detector''"
    if "count_bunches_equal ?n sweep (bunch_enables det) = 0"
    using that d s assms(1-5,7) by (simp add: read_sequencer_mode_def Let_def not_less)
  ultimately show ?thesis using o by metis
qed

lemma all_less_two: "(\<forall>i < 2. P i) \<longleftrightarrow> P 0 \<and> P (1 :: nat)"
  by (auto simp: less_2_cases_iff)

definition sample_seq :: seq_context where
  "sample_seq = \<lparr>seq_config = sample_sequencer\<lparr>entries := [(idle_entry 0)\<lparr>nco_gain := 9\<rparr>], super_seq_count := 1\<rparr>,
     seq_hw_config = sample_sequencer, seq_config_dirty = False, seq_hw_config_dirty = False, total_captures = 0,
     sequencer_duration = 0, reset_offsets = False, reset_window = False\<rparr>"

definition swept_bank :: "nat \<Rightarrow> nat bunch_bank" where
  "swept_bank k = (initialise_bank sample_bunches 0 0 0)\<lparr>bank_config := (config_of sample_bunches (initialise_bank sample_bunches 0 0 0))
     \<lparr>nco1_gains := [0, 0][k := 1]\<rparr>\<rparr>"

theorem sweep_overlap_complement_witness:
  "read_sequencer_mode sample_bunches (\<lambda>_. ''0dB'') True \<lparr>enable = True, scaling = 0, bunch_enables = [True, False]\<rparr> [swept_bank 1] sample_seq =
     Some ''Not sweeping detector''"
proof -
  have u: "[0..<2] = [0, 1 :: nat]" by (simp add: upt_rec)
  have "get_bunch_seq_enables sample_bunches (swept_bank 1) = [False, True]"
    by (simp add: get_bunch_seq_enables_def for_bunches_def count_of_def sample_bunches_def swept_bank_def u)
  moreover have "count_of sample_bunches = 2" by (simp add: count_of_def sample_bunches_def)
  moreover have "\<exists>i < 2. [True, False] ! i" by (rule exI [of _ 0]) simp
  moreover have "\<exists>i < 2. [False, True] ! i" by (rule exI [of _ 1]) simp
  ultimately show ?thesis
    using sweep_overlap_complement [of sample_seq "(idle_entry 0)\<lparr>nco_gain := 9\<rparr>"
        "\<lparr>enable = True, scaling = 0, bunch_enables = [True, False]\<rparr>" sample_bunches "[swept_bank 1]" "[False, True]" "\<lambda>_. ''0dB''"]
    by (simp add: sample_seq_def sample_sequencer_def idle_entry_def all_less_two del: One_nat_def)
qed

text \<open>The bunches the mode takes as swept are those of the hardware configuration, displaced by the gain
  offset, not those the operator enabled: after any operations on the bank, element \<open>i\<close> of the enables
  it reads is the setting of bunch \<open>i\<close> + offset, although it compares them with the enables of the
  detector and shows \<open>i\<close> as the number of the bunch.\<close>

theorem swept_bunch_displaced:
  assumes "gain_offset env < count_of env" "fir_offset env < count_of env"
    "bank_run env ops (initialise_bank env zero axis k, h0) = (b, h)" "i < count_of env"
  shows "get_bunch_seq_enables env b ! i =
    (let j = (i + gain_offset env) mod count_of env; src = sources b NCO1_SOURCE in enables_wf src ! j \<and> scaled_gains src ! j \<noteq> 0)"
proof -
  have "bank_config b = config_of env b"
    using bank_run_ok [OF initial_bank_ok [OF assms(1,2) disjI1 [OF refl], of axis zero k h0], of ops] assms(3)
    by (simp add: bank_ok_def)
  then show ?thesis using assms
    by (simp add: get_bunch_seq_enables_def for_bunches_def config_of_def nth_bunches_offset hw_gain_def Let_def)
qed

theorem swept_bunch_displaced_witness:
  "let b = fst (bank_run sample_bunches [WriteGains NCO1_SOURCE [1, 1], WriteEnables NCO1_SOURCE [1, 0]]
       (initialise_bank sample_bunches 0 0 0, initial_hw))
   in get_bunch_seq_enables sample_bunches b ! 1 = (enables_wf (sources b NCO1_SOURCE) ! 0 \<and> scaled_gains (sources b NCO1_SOURCE) ! 0 \<noteq> 0)"
  using swept_bunch_displaced [of sample_bunches "[WriteGains NCO1_SOURCE [1, 1], WriteEnables NCO1_SOURCE [1, 0]]" 0 0 0 initial_hw _ _ 1]
  by (simp add: Let_def count_of_def prod_eq_iff sample_bunches_def)

end
