(* ===== verification/Pll_Fifo.thy ===== *)
theory Pll_Fifo
  imports Hardware_Pll MBF_Prelude
begin

text \<open>
  The readout of the FIFOs of the tune PLL (\<^verbatim>\<open>epics/src/tune_pll_fifo.c\<close>): the hardware FIFO is read into a
  buffer that is handed to EPICS when it is full, when the hardware has overrun, or at the end.  What
  does not fit is kept in the read buffer until EPICS has finished.  Every operation holds the mutex of the
  FIFO; \<^verbatim>\<open>interlock_wait\<close> returns when EPICS has finished with the buffer.
\<close>

section \<open>State\<close>

record readout_fifo =
  epics_busy :: bool
  buffer :: "u32 list"
  buffer_size :: nat
  buffer_count :: nat
  fifo_enabled :: bool
  overrun :: bool
  read_buffer_count :: nat
  read_buffer :: "u32 list"

text \<open>
  What can be observed: the samples read from the hardware to be kept, the buffers handed to EPICS
  with the overrun flag, and the discarding of everything in hand.
\<close>

datatype fifo_event = Taken "u32 list" | Emitted "u32 list" bool | Discarded

record fifo_world =
  fifo :: readout_fifo
  fifo_hw :: hw
  fifo_log :: "fifo_event list"

text \<open>A read of the hardware: the value of the status register and those of the FIFO register.\<close>

type_synonym fifo_read = "u32 \<times> (nat \<Rightarrow> u32)"

record fifo_id =
  fifo_axis :: nat
  fifo_which :: pll_readout_fifo

datatype process_stage = PROCESS_START | PROCESS_UPDATE | PROCESS_STOP

section \<open>Operations\<close>

definition ensure_epics_idle :: "readout_fifo \<Rightarrow> bool \<times> readout_fifo" where
  "ensure_epics_idle f = (epics_busy f, f\<lparr>epics_busy := False\<rparr>)"

text \<open>The hardware is read into the read buffer; \<open>None\<close> is the failed assertion on the number of samples.\<close>

definition read_hardware :: "fifo_id \<Rightarrow> bool \<Rightarrow> fifo_read \<Rightarrow> fifo_world \<Rightarrow> (fifo_world \<times> nat \<times> bool) option" where
  "read_hardware k enable_interrupt r w =
     (case hw_read_pll_readout_fifo (fifo_axis k) (fifo_which k) enable_interrupt (fst r) (snd r) (fifo_hw w) of
        None \<Rightarrow> None
      | Some (h, data, ovf) \<Rightarrow>
          Some (w\<lparr>fifo_hw := h, fifo := (fifo w)\<lparr>read_buffer := blit (read_buffer (fifo w)) 0 data\<rparr>\<rparr>, length data, ovf))"

text \<open>The residue in the read buffer becomes the start of the buffer.\<close>

definition restore_residue :: "readout_fifo \<Rightarrow> readout_fifo" where
  "restore_residue f =
     f\<lparr>buffer := blit (buffer f) 0 (take (read_buffer_count f) (read_buffer f)), buffer_count := read_buffer_count f\<rparr>"

definition append_samples :: "nat \<Rightarrow> readout_fifo \<Rightarrow> nat \<times> readout_fifo" where
  "append_samples cnt f =
     (let to_copy = min cnt (buffer_size f - buffer_count f)
      in (to_copy, f\<lparr>buffer := blit (buffer f) (buffer_count f) (take to_copy (read_buffer f)), buffer_count := buffer_count f + to_copy\<rparr>))"

definition emit_buffer :: "process_stage \<Rightarrow> readout_fifo \<Rightarrow> bool" where
  "emit_buffer stage f \<longleftrightarrow> stage = PROCESS_STOP \<or> buffer_count f = buffer_size f \<or> overrun f \<and> stage \<noteq> PROCESS_START"

definition hold_residue :: "nat \<Rightarrow> nat \<Rightarrow> readout_fifo \<Rightarrow> readout_fifo" where
  "hold_residue cnt to_copy f =
     f\<lparr>epics_busy := True, read_buffer_count := cnt - to_copy,
       read_buffer := blit (read_buffer f) 0 (take (cnt - to_copy) (drop to_copy (read_buffer f)))\<rparr>"

text \<open>What is done with the samples read: as many as fit are appended, and the buffer is emitted if it is time.\<close>

definition deliver_samples :: "process_stage \<Rightarrow> nat \<Rightarrow> bool \<Rightarrow> fifo_world \<Rightarrow> fifo_world" where
  "deliver_samples stage cnt ovf w =
     (let lg = fifo_log w @ [Taken (take cnt (read_buffer (fifo w)))];
          (to_copy, f) = append_samples cnt ((fifo w)\<lparr>overrun := ovf\<rparr>)
      in if emit_buffer stage f
         then w\<lparr>fifo := hold_residue cnt to_copy f, fifo_log := lg @ [Emitted (take (buffer_count f) (buffer f)) (overrun f)]\<rparr>
         else w\<lparr>fifo := f, fifo_log := lg\<rparr>)"

definition process_fifo_content :: "fifo_id \<Rightarrow> process_stage \<Rightarrow> fifo_read \<Rightarrow> fifo_world \<Rightarrow> fifo_world option" where
  "process_fifo_content k stage r w =
     (let (busy, f) = ensure_epics_idle (fifo w);
          f = (if busy then restore_residue f else f)
      in map_option (\<lambda>(w, cnt, ovf). deliver_samples stage cnt ovf w)
           (read_hardware k (stage \<noteq> PROCESS_STOP) r (w\<lparr>fifo := f\<rparr>)))"

definition reset_fifo :: "fifo_id \<Rightarrow> bool \<Rightarrow> bool \<Rightarrow> fifo_read \<Rightarrow> fifo_world \<Rightarrow> fifo_world option" where
  "reset_fifo k flush_hardware enable_interrupt r w =
     (let w = w\<lparr>fifo := (fifo w)\<lparr>buffer_count := 0, overrun := False\<rparr>, fifo_log := fifo_log w @ [Discarded]\<rparr>
      in if flush_hardware
         then case read_hardware k enable_interrupt r w of None \<Rightarrow> None | Some (w, cnt, ovf) \<Rightarrow> Some w
         else Some w)"

definition start_readout_fifo :: "fifo_id \<Rightarrow> bool \<Rightarrow> fifo_read \<Rightarrow> fifo_read \<Rightarrow> fifo_world \<Rightarrow> fifo_world option" where
  "start_readout_fifo k flush r1 r2 w =
     (let f = (snd (ensure_epics_idle (fifo w)))\<lparr>fifo_enabled := True\<rparr>
      in case reset_fifo k flush True r1 (w\<lparr>fifo := f\<rparr>) of None \<Rightarrow> None
         | Some w \<Rightarrow> process_fifo_content k PROCESS_START r2 w)"

definition flush_readout_fifo :: "fifo_id \<Rightarrow> fifo_read \<Rightarrow> fifo_world \<Rightarrow> fifo_world option" where
  "flush_readout_fifo k r w = reset_fifo k True True r (w\<lparr>fifo := snd (ensure_epics_idle (fifo w))\<rparr>)"

definition stop_readout_fifo :: "fifo_id \<Rightarrow> fifo_read \<Rightarrow> fifo_world \<Rightarrow> fifo_world option" where
  "stop_readout_fifo k r w =
     map_option (\<lambda>w. w\<lparr>fifo := (fifo w)\<lparr>fifo_enabled := False\<rparr>\<rparr>) (process_fifo_content k PROCESS_STOP r w)"

section \<open>The interface\<close>

definition create_readout_fifo :: "fifo_id \<Rightarrow> nat \<Rightarrow> fifo_read \<Rightarrow> hw \<Rightarrow> fifo_world option" where
  "create_readout_fifo k n r h =
     reset_fifo k True False r
       \<lparr>fifo = \<lparr>epics_busy = False, buffer = replicate n 0, buffer_size = n, buffer_count = 0, fifo_enabled = False, overrun = False,
          read_buffer_count = 0, read_buffer = replicate PLL_FIFO_SIZE 0\<rparr>, fifo_hw = h, fifo_log = []\<rparr>"

definition enable_readout_fifo :: "fifo_id \<Rightarrow> bool \<Rightarrow> fifo_read \<Rightarrow> fifo_read \<Rightarrow> fifo_world \<Rightarrow> fifo_world option" where
  "enable_readout_fifo k flush r1 r2 w = (if \<not> fifo_enabled (fifo w) then start_readout_fifo k flush r1 r2 w else Some w)"

definition disable_readout_fifo :: "fifo_id \<Rightarrow> fifo_read \<Rightarrow> fifo_world \<Rightarrow> fifo_world option" where
  "disable_readout_fifo k r w = (if fifo_enabled (fifo w) then stop_readout_fifo k r w else Some w)"

definition reset_readout_fifo :: "fifo_id \<Rightarrow> fifo_read \<Rightarrow> fifo_world \<Rightarrow> fifo_world option" where
  "reset_readout_fifo k r w = (if fifo_enabled (fifo w) then flush_readout_fifo k r w else Some w)"

definition handle_fifo_ready :: "fifo_id \<Rightarrow> fifo_read \<Rightarrow> fifo_world \<Rightarrow> fifo_world option" where
  "handle_fifo_ready k r w = (if fifo_enabled (fifo w) then process_fifo_content k PROCESS_UPDATE r w else Some w)"

text \<open>What EPICS reads when it is signalled; \<open>None\<close> is the failed assertion.\<close>

definition read_fifo_buffer :: "fifo_world \<Rightarrow> u32 list option" where
  "read_fifo_buffer w = (if epics_busy (fifo w) then Some (take (buffer_count (fifo w)) (buffer (fifo w))) else None)"

section \<open>The stream of samples\<close>

text \<open>What was read from the hardware and what was handed over since everything in hand was last discarded.\<close>

fun taken_of :: "fifo_event \<Rightarrow> u32 list" where
  "taken_of (Taken xs) = xs" | "taken_of _ = []"

fun emitted_of :: "fifo_event \<Rightarrow> u32 list" where
  "emitted_of (Emitted xs b) = xs" | "emitted_of _ = []"

definition since_discarded :: "fifo_event list \<Rightarrow> fifo_event list" where
  "since_discarded lg = rev (takeWhile (\<lambda>e. e \<noteq> Discarded) (rev lg))"

definition taken :: "fifo_event list \<Rightarrow> u32 list" where
  "taken lg = concat (map taken_of (since_discarded lg))"

definition emitted :: "fifo_event list \<Rightarrow> u32 list" where
  "emitted lg = concat (map emitted_of (since_discarded lg))"

lemma since_discarded_snoc:
  "since_discarded (lg @ [e]) = (if e = Discarded then [] else since_discarded lg @ [e])"
  by (simp add: since_discarded_def)

lemma stream_simps [simp]:
  "taken (lg @ [Taken xs]) = taken lg @ xs" "taken (lg @ [Emitted ys b]) = taken lg" "taken (lg @ [Discarded]) = []"
  "emitted (lg @ [Taken xs]) = emitted lg" "emitted (lg @ [Emitted ys b]) = emitted lg @ ys" "emitted (lg @ [Discarded]) = []"
  by (simp_all add: taken_def emitted_def since_discarded_snoc)

lemma stream_pair [simp]:
  "taken (lg @ [Taken xs, Emitted ys b]) = taken lg @ xs" "emitted (lg @ [Taken xs, Emitted ys b]) = emitted lg @ ys"
  using stream_simps(2,5) [of "lg @ [Taken xs]" ys b] by simp_all

text \<open>The samples in hand that EPICS has not been given.\<close>

definition in_hand :: "readout_fifo \<Rightarrow> u32 list" where
  "in_hand f = (if epics_busy f then take (read_buffer_count f) (read_buffer f) else take (buffer_count f) (buffer f))"

text \<open>The invariant: sizes, and that nothing read is lost, repeated or out of order.\<close>

definition sizes_ok :: "readout_fifo \<Rightarrow> bool" where
  "sizes_ok f \<longleftrightarrow> PLL_FIFO_SIZE \<le> buffer_size f \<and> length (buffer f) = buffer_size f \<and> length (read_buffer f) = PLL_FIFO_SIZE \<and>
     buffer_count f \<le> buffer_size f \<and> (epics_busy f \<longrightarrow> read_buffer_count f \<le> PLL_FIFO_SIZE)"

definition fifo_ok :: "fifo_world \<Rightarrow> bool" where
  "fifo_ok w \<longleftrightarrow> sizes_ok (fifo w) \<and> taken (fifo_log w) = emitted (fifo_log w) @ in_hand (fifo w)"

lemma hold_residue_fields [simp]:
  "buffer (hold_residue n c f) = buffer f" "buffer_size (hold_residue n c f) = buffer_size f"
  "buffer_count (hold_residue n c f) = buffer_count f" "read_buffer_count (hold_residue n c f) = n - c" "epics_busy (hold_residue n c f)"
  by (simp_all add: hold_residue_def)

lemma read_hardware_cases:
  assumes "read_hardware k e r w = Some (w', n, ovf)"
  obtains data where "n = length data" "n \<le> PLL_FIFO_SIZE" "fifo_log w' = fifo_log w"
    "fifo w' = (fifo w)\<lparr>read_buffer := blit (read_buffer (fifo w)) 0 data\<rparr>" "data = map (snd r) [0..<fifo_samples (fifo_which k) (fst r)]"
  using assms that
  by (auto simp: read_hardware_def hw_read_pll_readout_fifo_def Let_def split: option.splits if_splits prod.splits)

lemma restore_residue_ok:
  assumes "fifo_ok w"
  shows "let (busy, f) = ensure_epics_idle (fifo w); g = (if busy then restore_residue f else f)
    in \<not> epics_busy g \<and> buffer_size g = buffer_size (fifo w) \<and> length (buffer g) = buffer_size (fifo w) \<and> length (read_buffer g) = PLL_FIFO_SIZE \<and>
       buffer_count g \<le> buffer_size (fifo w) \<and> take (buffer_count g) (buffer g) = in_hand (fifo w)"
proof (cases "epics_busy (fifo w)")
  case True
  let ?f = "fifo w"
  have l: "length (take (read_buffer_count ?f) (read_buffer ?f)) = read_buffer_count ?f" "read_buffer_count ?f \<le> length (buffer ?f)"
    using assms True by (auto simp: fifo_ok_def sizes_ok_def Let_def)
  have "take (read_buffer_count ?f) (blit (buffer ?f) 0 (take (read_buffer_count ?f) (read_buffer ?f))) =
      take (read_buffer_count ?f) (read_buffer ?f)"
    using take_blit_all [of 0 "take (read_buffer_count ?f) (read_buffer ?f)" "buffer ?f"] l by simp
  then show ?thesis using assms True l by (simp add: ensure_epics_idle_def restore_residue_def fifo_ok_def sizes_ok_def in_hand_def Let_def)
next
  case False
  then show ?thesis using assms by (simp add: ensure_epics_idle_def fifo_ok_def sizes_ok_def in_hand_def Let_def)
qed

lemma process_fifo_step:
  assumes "fifo_ok w" "process_fifo_content k stage r w = Some w'"
  defines "data \<equiv> map (snd r) [0..<fifo_samples (fifo_which k) (fst r)]"
  shows "fifo_ok w' \<and> buffer_size (fifo w') = buffer_size (fifo w) \<and>
    take (buffer_count (fifo w')) (buffer (fifo w')) = take (buffer_size (fifo w)) (in_hand (fifo w) @ data) \<and>
    (epics_busy (fifo w') \<longrightarrow> in_hand (fifo w') = drop (buffer_size (fifo w)) (in_hand (fifo w) @ data)) \<and>
    (stage = PROCESS_STOP \<longrightarrow> epics_busy (fifo w'))"
proof -
  obtain busy f0 where e: "ensure_epics_idle (fifo w) = (busy, f0)" by fastforce
  define f where "f = (if busy then restore_residue f0 else f0)"
  have f: "\<not> epics_busy f" "buffer_size f = buffer_size (fifo w)" "length (buffer f) = buffer_size (fifo w)"
      "length (read_buffer f) = PLL_FIFO_SIZE" "buffer_count f \<le> buffer_size f" "take (buffer_count f) (buffer f) = in_hand (fifo w)"
    using restore_residue_ok [OF assms(1)] by (auto simp: e f_def Let_def)
  obtain w1 n ovf where r: "read_hardware k (stage \<noteq> PROCESS_STOP) r (w\<lparr>fifo := f\<rparr>) = Some (w1, n, ovf)"
      and w1: "w' = deliver_samples stage n ovf w1"
    using assms(2) by (auto simp: process_fifo_content_def e f_def [symmetric])
  have d: "n = length data" "n \<le> PLL_FIFO_SIZE" "fifo_log w1 = fifo_log w" "fifo w1 = f\<lparr>read_buffer := blit (read_buffer f) 0 data\<rparr>"
    by (rule read_hardware_cases [OF r]; simp add: data_def)+
  have t: "take n (read_buffer (fifo w1)) = data" "length (read_buffer (fifo w1)) = PLL_FIFO_SIZE"
    using take_blit_all [of 0 data "read_buffer f"] d f by simp_all
  define c where "c = min n (buffer_size f - buffer_count f)"
  define g where "g = f\<lparr>read_buffer := blit (read_buffer f) 0 data, overrun := ovf,
      buffer := blit (buffer f) (buffer_count f) (take c (blit (read_buffer f) 0 data)), buffer_count := buffer_count f + c\<rparr>"
  have app: "append_samples n ((fifo w1)\<lparr>overrun := ovf\<rparr>) = (c, g)"
    by (simp add: append_samples_def d(4) Let_def c_def g_def)
  have cn: "c \<le> n" "buffer_count f + c \<le> buffer_size f" using f(5) by (auto simp: c_def)
  have lc: "length (take c (read_buffer (fifo w1))) = c" using t d cn by simp
  have g: "take (buffer_count g) (buffer g) = in_hand (fifo w) @ take c data"
  proof -
    have "take c (read_buffer (fifo w1)) = take c data" using t(1) cn(1) by (metis min.absorb1 take_take)
    then show ?thesis
      using take_blit_all [of "buffer_count f" "take c (read_buffer (fifo w1))" "buffer f"] lc cn f
      by (simp add: g_def d(4))
  qed
  have gl: "length (buffer g) = buffer_size (fifo w)" using lc cn f by (simp add: g_def d(4))
  have w': "w' = (if emit_buffer stage g
      then w1\<lparr>fifo := hold_residue n c g, fifo_log := fifo_log w1 @ [Taken data] @ [Emitted (take (buffer_count g) (buffer g)) (overrun g)]\<rparr>
      else w1\<lparr>fifo := g, fifo_log := fifo_log w1 @ [Taken data]\<rparr>)"
    using app t(1) by (simp add: w1 deliver_samples_def)
  have li: "length (in_hand (fifo w)) = buffer_count f" using f by (metis length_take min.absorb2)
  then have tk: "take (buffer_size (fifo w)) (in_hand (fifo w) @ data) = in_hand (fifo w) @ take c data"
    using f d by (simp add: c_def min_def)
  have dr: "drop (buffer_size (fifo w)) (in_hand (fifo w) @ data) = drop c data" using li f d by (simp add: c_def min_def)
  have old: "taken (fifo_log w) = emitted (fifo_log w) @ in_hand (fifo w)" and size: "PLL_FIFO_SIZE \<le> buffer_size (fifo w)"
    using assms(1) by (auto simp: fifo_ok_def sizes_ok_def Let_def)
  show ?thesis
  proof (cases "emit_buffer stage g")
    case True
    have "take (n - c) (drop c (read_buffer g)) = drop c data"
      using t cn(1) by (simp add: g_def d(4) take_drop)
    moreover have "length (drop c data) = n - c" using d by simp
    ultimately have "take (n - c) (blit (read_buffer g) 0 (take (n - c) (drop c (read_buffer g)))) = drop c data"
      using take_blit_all [of 0 "drop c data" "read_buffer g"] d f cn by (simp add: g_def)
    then have ih: "in_hand (hold_residue n c g) = drop c data" by (simp add: in_hand_def hold_residue_def)
    have lr: "length (read_buffer (hold_residue n c g)) = PLL_FIFO_SIZE"
      using \<open>take (n - c) (drop c (read_buffer g)) = drop c data\<close> d f cn by (simp add: hold_residue_def g_def)
    have "sizes_ok (hold_residue n c g)"
      using lr gl size cn(2) d(2) f(2) by (simp add: sizes_ok_def) (simp add: g_def)
    moreover have "taken (fifo_log w') = taken (fifo_log w) @ data" "emitted (fifo_log w') = emitted (fifo_log w) @ in_hand (fifo w) @ take c data"
      using True g d(3) by (simp_all add: w')
    ultimately have "fifo_ok w'" using True ih old by (simp add: fifo_ok_def w')
    moreover have "buffer_size g = buffer_size (fifo w)" using f(2) by (simp add: g_def)
    moreover have "fifo w' = hold_residue n c g" using True by (simp add: w')
    ultimately show ?thesis using g ih by (simp add: tk dr del: take_append drop_append)
  next
    case False
    then have "buffer_count g \<noteq> buffer_size g" by (simp add: emit_buffer_def)
    then have "c = n" using cn f by (auto simp: c_def g_def)
    then have "in_hand g = in_hand (fifo w) @ data" using g f d by (simp add: in_hand_def g_def)
    then have "fifo_ok w'" using False f cn d gl size old t by (simp add: w' fifo_ok_def sizes_ok_def) (simp add: g_def d(4))
    moreover have "buffer_size g = buffer_size (fifo w)" "\<not> epics_busy g" using f(1,2) by (simp_all add: g_def)
    moreover have "fifo w' = g" using False by (simp add: w')
    moreover have "stage \<noteq> PROCESS_STOP" using False by (simp add: emit_buffer_def)
    ultimately show ?thesis using g by (simp add: tk del: take_append drop_append)
  qed
qed

lemma process_fifo_ok: "fifo_ok w \<Longrightarrow> process_fifo_content k stage r w = Some w' \<Longrightarrow> fifo_ok w'"
  using process_fifo_step by blast

lemma reset_fifo_ok:
  assumes "sizes_ok (fifo w)" "\<not> epics_busy (fifo w)" "reset_fifo k flush e r w = Some w'"
  shows "fifo_ok w'"
proof -
  define w0 where "w0 = w\<lparr>fifo := (fifo w)\<lparr>buffer_count := 0, overrun := False\<rparr>, fifo_log := fifo_log w @ [Discarded]\<rparr>"
  have ok: "fifo_ok w0" "\<not> epics_busy (fifo w0)" using assms(1,2) by (simp_all add: w0_def fifo_ok_def sizes_ok_def in_hand_def)
  show ?thesis
  proof (cases flush)
    case True
    then obtain n ovf where h: "read_hardware k e r w0 = Some (w', n, ovf)"
      using assms(3) by (auto simp: reset_fifo_def w0_def split: option.splits)
    show ?thesis
      by (rule read_hardware_cases [OF h]) (use ok in \<open>simp add: fifo_ok_def sizes_ok_def in_hand_def\<close>)
  qed (use ok assms(3) in \<open>simp add: reset_fifo_def w0_def\<close>)
qed

lemma idle_sizes_ok: "sizes_ok f \<Longrightarrow> sizes_ok ((snd (ensure_epics_idle f))\<lparr>fifo_enabled := b\<rparr>)"
  by (simp add: sizes_ok_def ensure_epics_idle_def)

lemma idle_not_busy: "\<not> epics_busy ((snd (ensure_epics_idle f))\<lparr>fifo_enabled := b\<rparr>)"
  by (simp add: ensure_epics_idle_def)

section \<open>Sequences of operations\<close>

datatype fifo_op = EnableFifo bool fifo_read fifo_read | DisableFifo fifo_read | ResetFifo fifo_read | FifoReady fifo_read

fun fifo_apply :: "fifo_id \<Rightarrow> fifo_op \<Rightarrow> fifo_world \<Rightarrow> fifo_world option" where
  "fifo_apply k (EnableFifo flush r1 r2) w = enable_readout_fifo k flush r1 r2 w"
| "fifo_apply k (DisableFifo r) w = disable_readout_fifo k r w"
| "fifo_apply k (ResetFifo r) w = reset_readout_fifo k r w"
| "fifo_apply k (FifoReady r) w = handle_fifo_ready k r w"

fun fifo_run :: "fifo_id \<Rightarrow> fifo_op list \<Rightarrow> fifo_world \<Rightarrow> fifo_world option" where
  "fifo_run k [] w = Some w"
| "fifo_run k (op # ops) w = Option.bind (fifo_apply k op w) (fifo_run k ops)"

lemma fifo_ok_enabled [simp]: "fifo_ok (w\<lparr>fifo := (fifo w)\<lparr>fifo_enabled := b\<rparr>\<rparr>) = fifo_ok w"
  by (simp add: fifo_ok_def sizes_ok_def in_hand_def)

lemma idle_reset_ok:
  "fifo_ok w \<Longrightarrow> reset_fifo k flush e r (w\<lparr>fifo := (snd (ensure_epics_idle (fifo w)))\<lparr>fifo_enabled := b\<rparr>\<rparr>) = Some w' \<Longrightarrow> fifo_ok w'"
  by (rule reset_fifo_ok) (simp_all add: fifo_ok_def idle_sizes_ok idle_not_busy)

lemma fifo_apply_ok:
  assumes "fifo_ok w" "fifo_apply k op w = Some w'"
  shows "fifo_ok w'"
proof (cases op)
  case (EnableFifo flush r1 r2)
  show ?thesis
  proof (cases "fifo_enabled (fifo w)")
    case False
    then obtain w1 where r: "reset_fifo k flush True r1 (w\<lparr>fifo := (snd (ensure_epics_idle (fifo w)))\<lparr>fifo_enabled := True\<rparr>\<rparr>) = Some w1"
        and p: "process_fifo_content k PROCESS_START r2 w1 = Some w'"
      using assms(2) EnableFifo by (auto simp: enable_readout_fifo_def start_readout_fifo_def Let_def split: option.splits)
    show ?thesis using process_fifo_ok [OF idle_reset_ok [OF assms(1) r] p] .
  qed (use assms EnableFifo in \<open>simp add: enable_readout_fifo_def\<close>)
next
  case (DisableFifo r)
  then show ?thesis
    using assms by (auto simp: disable_readout_fifo_def stop_readout_fifo_def intro: process_fifo_ok split: if_splits)
next
  case (ResetFifo r)
  show ?thesis
  proof (cases "fifo_enabled (fifo w)")
    case True
    then have "(snd (ensure_epics_idle (fifo w)))\<lparr>fifo_enabled := True\<rparr> = snd (ensure_epics_idle (fifo w))"
      by (simp add: ensure_epics_idle_def)
    then show ?thesis
      using True assms ResetFifo idle_reset_ok [OF assms(1), of k True True r True w']
      by (simp add: reset_readout_fifo_def flush_readout_fifo_def)
  qed (use assms ResetFifo in \<open>simp add: reset_readout_fifo_def\<close>)
next
  case (FifoReady r)
  then show ?thesis using assms by (auto simp: handle_fifo_ready_def intro: process_fifo_ok split: if_splits)
qed

lemma fifo_run_ok: "fifo_ok w \<Longrightarrow> fifo_run k ops w = Some w' \<Longrightarrow> fifo_ok w'"
  by (induction ops arbitrary: w) (auto simp: bind_eq_Some_conv intro: fifo_apply_ok)

lemma create_fifo_ok:
  assumes "create_readout_fifo k n r h = Some w" "PLL_FIFO_SIZE \<le> n"
  shows "fifo_ok w"
  by (rule reset_fifo_ok [OF _ _ assms(1) [unfolded create_readout_fifo_def]])
    (use assms(2) in \<open>simp_all add: sizes_ok_def\<close>)

text \<open>The readout of a FIFO of the tune PLL loses, repeats and reorders nothing: with a buffer as large as the
  start-up check demands, after any sequence of enabling, disabling, resetting and ready events the
  samples read from the hardware since everything was last discarded are those handed to EPICS, in
  order, followed by those in hand; and the writes stay inside of the buffers.\<close>

theorem fifo_stream_exact:
  assumes "create_readout_fifo k n r h = Some w0" "PLL_FIFO_SIZE < n" "fifo_run k ops w0 = Some w"
  shows "taken (fifo_log w) = emitted (fifo_log w) @ in_hand (fifo w) \<and> length (buffer (fifo w)) = buffer_size (fifo w) \<and>
    buffer_count (fifo w) \<le> buffer_size (fifo w) \<and> length (read_buffer (fifo w)) = PLL_FIFO_SIZE"
  using fifo_run_ok [OF create_fifo_ok [OF assms(1)] assms(3)] assms(2) by (simp add: fifo_ok_def sizes_ok_def Let_def)

text \<open>Disabling a FIFO hands over what is in hand followed by what the hardware holds, as far as it fits the
  buffer; what does not fit stays in hand, and as nothing hands it over later and enabling discards it,
  the last samples before a stop are lost exactly when the buffer is too small for them.\<close>

theorem stop_hands_over:
  assumes "create_readout_fifo k n r0 h = Some w0" "PLL_FIFO_SIZE < n" "fifo_run k ops w0 = Some w"
    "fifo_enabled (fifo w)" "disable_readout_fifo k r w = Some w'" "xs = in_hand (fifo w) @ map (snd r) [0..<fifo_samples (fifo_which k) (fst r)]"
  shows "read_fifo_buffer w' = Some (take (buffer_size (fifo w)) xs) \<and> in_hand (fifo w') = drop (buffer_size (fifo w)) xs \<and>
    \<not> fifo_enabled (fifo w')"
proof -
  have ok: "fifo_ok w" using fifo_run_ok [OF create_fifo_ok [OF assms(1)] assms(3)] assms(2) by simp
  obtain w1 where p: "process_fifo_content k PROCESS_STOP r w = Some w1" and w1: "w' = w1\<lparr>fifo := (fifo w1)\<lparr>fifo_enabled := False\<rparr>\<rparr>"
    using assms(4,5) by (auto simp: disable_readout_fifo_def stop_readout_fifo_def)
  show ?thesis using process_fifo_step [OF ok p] assms(6) by (simp add: w1 read_fifo_buffer_def in_hand_def)
qed

section \<open>The operations return\<close>

text \<open>The assertion on the number of samples holds for every read of a FIFO that holds at most 1025.\<close>

definition good_read :: "fifo_id \<Rightarrow> fifo_read \<Rightarrow> bool" where
  "good_read k r \<longleftrightarrow> fifo_samples (fifo_which k) (fst r) \<le> PLL_FIFO_SIZE"

fun reads_of :: "fifo_op \<Rightarrow> fifo_read list" where
  "reads_of (EnableFifo flush r1 r2) = [r1, r2]" | "reads_of (DisableFifo r) = [r]"
| "reads_of (ResetFifo r) = [r]" | "reads_of (FifoReady r) = [r]"

lemma read_hardware_total: "good_read k r \<Longrightarrow> \<exists>x. read_hardware k e r w = Some x"
  by (simp add: read_hardware_def hw_read_pll_readout_fifo_def good_read_def Let_def)

lemma process_total: "good_read k r \<Longrightarrow> \<exists>w'. process_fifo_content k stage r w = Some w'"
  using read_hardware_total [of k r]
  by (auto simp: process_fifo_content_def ensure_epics_idle_def Let_def)

lemma reset_total: "good_read k r \<Longrightarrow> \<exists>w'. reset_fifo k flush e r w = Some w'"
proof -
  assume "good_read k r"
  then obtain x where "read_hardware k e r (w\<lparr>fifo := (fifo w)\<lparr>buffer_count := 0, overrun := False\<rparr>, fifo_log := fifo_log w @ [Discarded]\<rparr>) = Some x"
    using read_hardware_total by metis
  then show ?thesis by (cases flush; cases x) (simp_all add: reset_fifo_def Let_def)
qed

lemma fifo_apply_total: "list_all (good_read k) (reads_of op) \<Longrightarrow> \<exists>w'. fifo_apply k op w = Some w'"
proof (cases op)
  case (EnableFifo flush r1 r2)
  assume "list_all (good_read k) (reads_of op)"
  then have g: "good_read k r1" "good_read k r2" using EnableFifo by simp_all
  obtain w1 where "reset_fifo k flush True r1 (w\<lparr>fifo := (snd (ensure_epics_idle (fifo w)))\<lparr>fifo_enabled := True\<rparr>\<rparr>) = Some w1"
    using reset_total [OF g(1)] by metis
  then show ?thesis using process_total [OF g(2), of PROCESS_START w1] EnableFifo
    by (auto simp: enable_readout_fifo_def start_readout_fifo_def Let_def)
next
  case (DisableFifo r)
  assume "list_all (good_read k) (reads_of op)"
  then show ?thesis using process_total [of k r PROCESS_STOP w] DisableFifo
    by (auto simp: disable_readout_fifo_def stop_readout_fifo_def)
next
  case (ResetFifo r)
  assume "list_all (good_read k) (reads_of op)"
  then show ?thesis using reset_total [of k r True True "w\<lparr>fifo := snd (ensure_epics_idle (fifo w))\<rparr>"] ResetFifo
    by (auto simp: reset_readout_fifo_def flush_readout_fifo_def)
next
  case (FifoReady r)
  assume "list_all (good_read k) (reads_of op)"
  then show ?thesis using process_total [of k r PROCESS_UPDATE w] FifoReady by (auto simp: handle_fifo_ready_def)
qed

lemma fifo_run_total: "list_all (\<lambda>op. list_all (good_read k) (reads_of op)) ops \<Longrightarrow> \<exists>w'. fifo_run k ops w = Some w'"
proof (induction ops arbitrary: w)
  case (Cons op ops)
  obtain w1 where "fifo_apply k op w = Some w1" using fifo_apply_total [of k op w] Cons.prems by auto
  then show ?case using Cons.IH [of w1] Cons.prems by simp
qed simp

lemma create_total: "good_read k r \<Longrightarrow> \<exists>w. create_readout_fifo k n r h = Some w"
  unfolding create_readout_fifo_def by (rule reset_total)

lemma process_keeps_enabled:
  "process_fifo_content k stage r w = Some w' \<Longrightarrow> fifo_enabled (fifo w') = fifo_enabled (fifo w)"
  by (auto simp: process_fifo_content_def deliver_samples_def ensure_epics_idle_def restore_residue_def append_samples_def
      hold_residue_def Let_def split: if_splits elim!: read_hardware_cases)

lemma disable_disables: "disable_readout_fifo k r w = Some w' \<Longrightarrow> \<not> fifo_enabled (fifo w')"
  by (auto simp: disable_readout_fifo_def stop_readout_fifo_def split: if_splits)

lemma enable_enables:
  assumes "enable_readout_fifo k flush r1 r2 w = Some w'"
  shows "fifo_enabled (fifo w')"
proof (cases "fifo_enabled (fifo w)")
  case False
  then obtain w1 where r: "reset_fifo k flush True r1 (w\<lparr>fifo := (snd (ensure_epics_idle (fifo w)))\<lparr>fifo_enabled := True\<rparr>\<rparr>) = Some w1"
      and p: "process_fifo_content k PROCESS_START r2 w1 = Some w'"
    using assms by (auto simp: enable_readout_fifo_def start_readout_fifo_def Let_def split: option.splits)
  have "fifo_enabled (fifo w1)"
    using r by (auto simp: reset_fifo_def Let_def split: if_splits option.splits elim!: read_hardware_cases)
  then show ?thesis using process_keeps_enabled [OF p] by simp
qed (use assms in \<open>simp add: enable_readout_fifo_def\<close>)

section \<open>Concrete runs\<close>

definition sample_fifo :: fifo_id where
  "sample_fifo = \<lparr>fifo_axis = 0, fifo_which = PLL_FIFO_OFFSET\<rparr>"

definition sample_hw :: hw where
  "sample_hw = \<lparr>mirror = (\<lambda>_. 0), trace = []\<rparr>"

definition sample_read :: "u32 \<Rightarrow> fifo_read" where
  "sample_read n = (n, of_nat)"

lemma sample_good: "n < 1026 \<Longrightarrow> good_read sample_fifo (sample_read n)"
proof -
  assume n: "n < 1026"
  have "unat (take_bit 11 n) \<le> unat n" by (simp add: unsigned_take_bit_eq take_bit_nat_less_eq_self)
  then show ?thesis using n by (simp add: good_read_def sample_fifo_def fifo_samples_def sample_read_def get_field_def PLL_FIFO_SIZE_def word_less_nat_alt)
qed

theorem fifo_stream_exact_witness:
  "\<exists>w. Option.bind (create_readout_fifo sample_fifo 2000 (sample_read 0) sample_hw)
      (fifo_run sample_fifo [EnableFifo False (sample_read 0) (sample_read 3), FifoReady (sample_read 1000)]) = Some w \<and>
    taken (fifo_log w) = emitted (fifo_log w) @ in_hand (fifo w)"
proof -
  obtain w0 where w0: "create_readout_fifo sample_fifo 2000 (sample_read 0) sample_hw = Some w0"
    using create_total [OF sample_good [of 0]] by auto
  obtain w where w: "fifo_run sample_fifo [EnableFifo False (sample_read 0) (sample_read 3), FifoReady (sample_read 1000)] w0 = Some w"
    using fifo_run_total [of sample_fifo "[EnableFifo False (sample_read 0) (sample_read 3), FifoReady (sample_read 1000)]" w0]
    by (auto simp: sample_good)
  have "taken (fifo_log w) = emitted (fifo_log w) @ in_hand (fifo w)"
    using fifo_stream_exact [OF w0 _ w] by (simp add: PLL_FIFO_SIZE_def)
  then show ?thesis using w by (auto simp: w0 simp del: fifo_run.simps)
qed

theorem stop_hands_over_witness:
  "\<exists>w w'. Option.bind (create_readout_fifo sample_fifo 2000 (sample_read 0) sample_hw)
      (fifo_run sample_fifo [EnableFifo False (sample_read 0) (sample_read 3)]) = Some w \<and>
    disable_readout_fifo sample_fifo (sample_read 7) w = Some w' \<and>
    read_fifo_buffer w' = Some (take (buffer_size (fifo w)) (in_hand (fifo w) @ map of_nat [0..<7]))"
proof -
  obtain w0 where w0: "create_readout_fifo sample_fifo 2000 (sample_read 0) sample_hw = Some w0"
    using create_total [OF sample_good [of 0]] by auto
  obtain w where w: "fifo_run sample_fifo [EnableFifo False (sample_read 0) (sample_read 3)] w0 = Some w"
    using fifo_run_total [of sample_fifo "[EnableFifo False (sample_read 0) (sample_read 3)]" w0] by (auto simp: sample_good)
  have e: "fifo_enabled (fifo w)" using w enable_enables by (simp split: bind_splits)
  obtain w' where w': "disable_readout_fifo sample_fifo (sample_read 7) w = Some w'"
    using fifo_apply_total [of sample_fifo "DisableFifo (sample_read 7)" w] by (auto simp: sample_good)
  have "fifo_samples (fifo_which sample_fifo) (fst (sample_read 7)) = 7"
    by (simp add: sample_fifo_def fifo_samples_def sample_read_def get_field_def)
  then have "read_fifo_buffer w' = Some (take (buffer_size (fifo w)) (in_hand (fifo w) @ map of_nat [0..<7]))"
    using stop_hands_over [OF w0 _ w e w' refl] by (simp add: PLL_FIFO_SIZE_def sample_read_def)
  then show ?thesis using w w' by (auto simp: w0 simp del: fifo_run.simps)
qed

end
