(* ===== verification/Fixed_Point.thy ===== *)
theory Fixed_Point
  imports Complex_Main MBF_Prelude
begin

text \<open>
  The conversions between floating point and the fixed point numbers of the hardware
  (\<^verbatim>\<open>epics/src/common.c\<close>), over the operations of the C library on one floating point type, which
  are a parameter: \<open>'d arith\<close>.  \<open>exact\<close> is the instance on the real numbers, without rounding and with a number in the place of infinity; what is
  proved of it holds of the code up to the rounding of its \<^verbatim>\<open>float\<close> and \<^verbatim>\<open>double\<close>.
\<close>

section \<open>Floating point\<close>

record 'd arith =
  d_int :: "int \<Rightarrow> 'd"
  d_add :: "'d \<Rightarrow> 'd \<Rightarrow> 'd"
  d_sub :: "'d \<Rightarrow> 'd \<Rightarrow> 'd"
  d_mul :: "'d \<Rightarrow> 'd \<Rightarrow> 'd"
  d_div :: "'d \<Rightarrow> 'd \<Rightarrow> 'd"
  d_neg :: "'d \<Rightarrow> 'd"
  d_less :: "'d \<Rightarrow> 'd \<Rightarrow> bool"
  d_leq :: "'d \<Rightarrow> 'd \<Rightarrow> bool"
  d_ldexp :: "'d \<Rightarrow> int \<Rightarrow> 'd"
  d_round :: "'d \<Rightarrow> int"
  d_trunc :: "'d \<Rightarrow> int"
  d_frac :: "'d \<Rightarrow> 'd"
  d_fmod :: "'d \<Rightarrow> 'd \<Rightarrow> 'd"
  d_next0 :: "'d \<Rightarrow> 'd"
  d_sqrt :: "'d \<Rightarrow> 'd"
  d_sin :: "'d \<Rightarrow> 'd"
  d_cos :: "'d \<Rightarrow> 'd"
  d_atan2 :: "'d \<Rightarrow> 'd \<Rightarrow> 'd"
  d_hypot :: "'d \<Rightarrow> 'd \<Rightarrow> 'd"
  d_log10 :: "'d \<Rightarrow> 'd"
  d_exp10 :: "'d \<Rightarrow> 'd"
  d_finite :: "'d \<Rightarrow> bool"
  d_decimal :: "int \<Rightarrow> nat \<Rightarrow> 'd"
  d_pi :: 'd

text \<open>Both floating point types, the conversions between them, and the constants that are not numbers.\<close>

record ('d, 'f) floats =
  dbl :: "'d arith"
  flt :: "'f arith"
  to_float :: "'d \<Rightarrow> 'f"
  of_float :: "'f \<Rightarrow> 'd"
  not_a_number :: 'd
  infinity_f :: 'f

text \<open>
  \<^verbatim>\<open>lround\<close> rounds halves away from zero, a cast and \<^verbatim>\<open>modf\<close> truncate towards zero, \<open>d_next0 x\<close> is
  \<^verbatim>\<open>nextafter(x, 0)\<close>, \<open>d_decimal m k\<close> the literal \<open>m * 10 ^ - k\<close>, \<open>d_hypot\<close> the modulus of a complex number.  For the real numbers the relative distance \<open>e\<close> of \<open>x\<close> to its neighbour is a parameter.
\<close>

definition lround :: "real \<Rightarrow> int" where
  "lround x = (if x < 0 then - \<lfloor>- x + 1 / 2\<rfloor> else \<lfloor>x + 1 / 2\<rfloor>)"

definition truncate :: "real \<Rightarrow> int" where
  "truncate x = (if x < 0 then \<lceil>x\<rceil> else \<lfloor>x\<rfloor>)"

definition exact :: "real \<Rightarrow> real arith" where
  "exact e = \<lparr>d_int = of_int, d_add = (+), d_sub = (-), d_mul = (*), d_div = (/), d_neg = uminus, d_less = (<), d_leq = (\<le>),
     d_ldexp = (\<lambda>x k. x * 2 powi k), d_round = lround, d_trunc = truncate, d_frac = (\<lambda>x. x - of_int (truncate x)),
     d_fmod = (\<lambda>x y. x - y * of_int (truncate (x / y))), d_next0 = (\<lambda>x. x * (1 - e)), d_sqrt = sqrt, d_sin = sin, d_cos = cos,
     d_atan2 = (\<lambda>y x. Arg (Complex x y)), d_hypot = (\<lambda>x y. sqrt (x * x + y * y)),
     d_log10 = log 10, d_exp10 = (\<lambda>x. 10 powr x), d_finite = (\<lambda>_. True), d_decimal = (\<lambda>m k. of_int m / 10 ^ k), d_pi = pi\<rparr>"

lemma exact_simps [simp]:
  "d_int (exact e) = of_int" "d_add (exact e) = (+)" "d_sub (exact e) = (-)" "d_mul (exact e) = (*)" "d_div (exact e) = (/)"
  "d_neg (exact e) = uminus" "d_less (exact e) = (<)" "d_leq (exact e) = (\<le>)" "d_ldexp (exact e) x k = x * 2 powi k" "d_round (exact e) = lround"
  "d_trunc (exact e) = truncate" "d_frac (exact e) x = x - of_int (truncate x)"
  "d_fmod (exact e) x y = x - y * of_int (truncate (x / y))" "d_next0 (exact e) x = x * (1 - e)"
  "d_sqrt (exact e) = sqrt" "d_sin (exact e) = sin" "d_cos (exact e) = cos" "d_atan2 (exact e) y x = Arg (Complex x y)"
  "d_hypot (exact e) x y = sqrt (x * x + y * y)" "d_log10 (exact e) = log 10" "d_exp10 (exact e) x = 10 powr x" "d_finite (exact e) x"
  "d_decimal (exact e) m j = of_int m / 10 ^ j" "d_pi (exact e) = pi"
  by (simp_all add: exact_def)

definition exact_floats :: "real \<Rightarrow> real \<Rightarrow> (real, real) floats" where
  "exact_floats e big = \<lparr>dbl = exact e, flt = exact e, to_float = id, of_float = id, not_a_number = 0, infinity_f = big\<rparr>"

lemma exact_floats_simps [simp]:
  "dbl (exact_floats e big) = exact e" "flt (exact_floats e big) = exact e" "to_float (exact_floats e big) = id"
  "of_float (exact_floats e big) = id" "infinity_f (exact_floats e big) = big"
  by (simp_all add: exact_floats_def)

lemma lround_int [simp]: "lround (of_int k) = k"
proof -
  have "\<lfloor>real_of_int j + 1 / 2\<rfloor> = j" for j by linarith
  from this [of k] this [of "- k"] show ?thesis by (simp add: lround_def)
qed

lemma lround_near: "\<bar>of_int (lround x) - x\<bar> \<le> 1 / 2"
proof (cases "x < 0")
  case True
  have "real_of_int \<lfloor>- x + 1 / 2\<rfloor> \<le> - x + 1 / 2" "- x + 1 / 2 < real_of_int \<lfloor>- x + 1 / 2\<rfloor> + 1" by linarith+
  then have "\<bar>- real_of_int \<lfloor>- x + 1 / 2\<rfloor> - x\<bar> \<le> 1 / 2" by linarith
  then show ?thesis using True by (simp add: lround_def)
next
  case False
  have "real_of_int \<lfloor>x + 1 / 2\<rfloor> \<le> x + 1 / 2" "x + 1 / 2 < real_of_int \<lfloor>x + 1 / 2\<rfloor> + 1" by linarith+
  then have "\<bar>real_of_int \<lfloor>x + 1 / 2\<rfloor> - x\<bar> \<le> 1 / 2" by linarith
  then show ?thesis using False by (simp add: lround_def)
qed

lemma lround_mono: "x \<le> y \<Longrightarrow> lround x \<le> lround y"
proof -
  assume le: "x \<le> y"
  show ?thesis
  proof (cases "x < 0 \<and> \<not> y < 0")
    case True
    then have "0 \<le> \<lfloor>- x + 1 / 2\<rfloor>" "0 \<le> \<lfloor>y + 1 / 2\<rfloor>" by simp_all
    then have "- \<lfloor>- x + 1 / 2\<rfloor> \<le> \<lfloor>y + 1 / 2\<rfloor>" by linarith
    then show ?thesis using True by (simp add: lround_def)
  qed (use le in \<open>auto simp: lround_def intro: floor_mono\<close>)
qed

lemma truncate_small: "\<bar>x\<bar> < 1 \<Longrightarrow> truncate x = 0"
  by (auto simp: truncate_def ceiling_eq_iff floor_eq_iff)

lemma truncate_frac: "\<bar>x - of_int (truncate x)\<bar> < 1" "0 \<le> x \<Longrightarrow> 0 \<le> x - of_int (truncate x)"
  by (simp_all add: truncate_def) linarith+

section \<open>Clipping to a range\<close>

definition clip :: "'d arith \<Rightarrow> 'd \<Rightarrow> 'd \<Rightarrow> 'd \<Rightarrow> 'd" where
  "clip A lo hi x = (if d_less A hi x then hi else if d_less A x lo then lo else x)"

text \<open>
  One element of \<^verbatim>\<open>float_array_to_int\<close>: the integer and the value written back.
\<close>

definition float_to_int :: "'d arith \<Rightarrow> int \<Rightarrow> int \<Rightarrow> 'd \<Rightarrow> u32 \<times> 'd" where
  "float_to_int A bits fraction_bits x =
     (let top_bit = d_ldexp A (d_int A 1) (bits - fraction_bits - 1);
          min_val = d_neg A top_bit;
          max_val = d_sub A (d_next0 A top_bit) (d_ldexp A (d_int A 1) (- fraction_bits));
          x = clip A min_val max_val x;
          out = word_of_int (d_round A (d_ldexp A x fraction_bits))
      in (out, d_ldexp A (d_int A (sint out)) (- fraction_bits)))"

definition float_array_to_int :: "'d arith \<Rightarrow> nat \<Rightarrow> 'd list \<Rightarrow> int \<Rightarrow> int \<Rightarrow> u32 list \<times> 'd list" where
  "float_array_to_int A count xs bits fraction_bits =
     (map (fst \<circ> float_to_int A bits fraction_bits) (take count xs),
      map (snd \<circ> float_to_int A bits fraction_bits) (take count xs) @ drop count xs)"

definition double_to_uint :: "'d arith \<Rightarrow> 'd \<Rightarrow> int \<Rightarrow> int \<Rightarrow> u32 \<times> 'd" where
  "double_to_uint A x bits fraction_bits =
     (let top_bit = d_ldexp A (d_int A 1) (bits - fraction_bits);
          max_val = d_sub A (d_next0 A top_bit) (d_ldexp A (d_int A 1) (- fraction_bits));
          x = clip A (d_int A 0) max_val x;
          out = word_of_int (d_round A (d_ldexp A x fraction_bits))
      in (out, d_ldexp A (d_int A (uint out)) (- fraction_bits)))"

section \<open>Tune and frequency\<close>

definition tune_to_freq :: "'d arith \<Rightarrow> u32 \<Rightarrow> 'd \<Rightarrow> u64" where
  "tune_to_freq A bunches tune =
     (let fraction = d_frac A (d_div A tune (d_int A (uint bunches)));
          fraction = (if d_less A fraction (d_int A 0) then d_add A fraction (d_int A 1) else fraction)
      in word_of_int (d_round A (d_ldexp A fraction 48)))"

definition freq_to_tune :: "'d arith \<Rightarrow> u32 \<Rightarrow> u64 \<Rightarrow> 'd" where
  "freq_to_tune A bunches freq = d_mul A (d_ldexp A (d_int A (uint (push_bit 16 freq))) (- 64)) (d_int A (uint bunches))"

definition freq_to_tune_signed :: "'d arith \<Rightarrow> u32 \<Rightarrow> u64 \<Rightarrow> 'd" where
  "freq_to_tune_signed A bunches freq = d_mul A (d_ldexp A (d_int A (sint (push_bit 16 freq))) (- 64)) (d_int A (uint bunches))"

section \<open>Clipping is exact up to half a step\<close>

lemma powi_add: "(2::real) powi a * 2 powi b = 2 powi (a + b)"
  by (simp add: power_int_add)

lemma powi_cancel [simp]: "(x::real) * 2 powi a * 2 powi (- a) = x" "x * 2 powi (- a) * 2 powi a = x"
  by (simp_all add: power_int_minus)

lemma float_to_int_exact:
  fixes x :: real
  assumes "0 \<le> e" "e \<le> 1" "0 < bits" "bits \<le> 32" and r: "float_to_int (exact e) bits f x = (out, x')"
  defines "y \<equiv> clip (exact e) (- (2 powi (bits - f - 1))) (2 powi (bits - f - 1) * (1 - e) - 2 powi (- f)) x"
  shows "- (2 ^ nat (bits - 1)) \<le> sint out \<and> sint out \<le> 2 ^ nat (bits - 1) - 1 \<and> x' = of_int (sint out) * 2 powi (- f) \<and>
    \<bar>x' - y\<bar> \<le> 2 powi (- f) / 2"
proof -
  let ?p = "2 powi f :: real"
  have p: "0 < ?p" "2 powi (- f) = 1 / ?p" by (simp_all add: power_int_minus divide_inverse)
  have top: "2 powi (bits - f - 1) * ?p = (2::real) ^ nat (bits - 1)" "2 powi (bits - 1 - f) * ?p = (2::real) ^ nat (bits - 1)"
    using assms(3) powi_add [of "bits - f - 1" f] powi_add [of "bits - 1 - f" f] power_int_nonneg_exp [of "bits - 1" "2::real"] by simp_all
  define k where "k = lround (y * ?p)"
  have ylo: "- (2 powi (bits - f - 1)) \<le> y" if "- (2 powi (bits - f - 1)) \<le> 2 powi (bits - f - 1) * (1 - e) - 2 powi (- f)"
    using that by (auto simp: y_def clip_def)
  have "2 powi (bits - f - 1) * (1 - e) - 2 powi (- f) \<ge> - (2 powi (bits - f - 1))"
  proof -
    have "0 \<le> 2 powi (bits - f - 1) * (1 - e)" using assms(2) by simp
    moreover have "(2::real) powi (- f) \<le> 2 powi (bits - f - 1)" using assms(3) by (intro power_int_increasing) auto
    ultimately show ?thesis by linarith
  qed
  note lo = ylo [OF this]
  have hi: "y \<le> 2 powi (bits - f - 1) - 2 powi (- f)"
  proof -
    have "2 powi (bits - f - 1) * (1 - e) \<le> 2 powi (bits - f - 1)" using assms(1) by simp
    moreover have "(2::real) powi (- f) \<le> 2 powi (bits - f - 1)" using assms(3) by (intro power_int_increasing) auto
    moreover have "y \<le> 2 powi (bits - f - 1) * (1 - e) - 2 powi (- f) \<or> y = - (2 powi (bits - f - 1))"
      by (auto simp: y_def clip_def)
    moreover have "0 \<le> (2::real) powi (bits - f - 1)" by simp
    ultimately show ?thesis by linarith
  qed
  have k1: "- (2 ^ nat (bits - 1)) \<le> k"
  proof -
    have "- ((2::real) ^ nat (bits - 1)) \<le> y * ?p" using mult_right_mono [OF lo, of ?p] p(1) top by simp
    from lround_mono [OF this] lround_int [of "- (2 ^ nat (bits - 1))"] show ?thesis by (simp add: k_def)
  qed
  have k2: "k \<le> 2 ^ nat (bits - 1) - 1"
  proof -
    have "y * ?p \<le> (2::real) ^ nat (bits - 1) - 1" using mult_right_mono [OF hi, of ?p] p top by (simp add: left_diff_distrib)
    from lround_mono [OF this] lround_int [of "2 ^ nat (bits - 1) - 1"] show ?thesis by (simp add: k_def)
  qed
  have "(2::int) ^ nat (bits - 1) \<le> 2 ^ 31" using assms(4) by (intro power_increasing) auto
  then have "sint (word_of_int k :: u32) = k" using k1 k2 by (simp add: sint_sbintrunc' signed_take_bit_int_eq_self)
  moreover have out: "out = word_of_int k" and x': "x' = of_int (sint out) * 2 powi (- f)"
    using r by (auto simp: float_to_int_def Let_def k_def y_def algebra_simps)
  moreover have "\<bar>of_int k * 2 powi (- f) - y\<bar> \<le> 2 powi (- f) / 2"
  proof -
    have "\<bar>of_int k * 2 powi (- f) - y\<bar> = \<bar>of_int k - y * ?p\<bar> / ?p" using p by (simp add: abs_div_pos diff_divide_distrib)
    also have "\<dots> \<le> 1 / 2 / ?p" using lround_near [of "y * ?p"] p(1) unfolding k_def by (intro divide_right_mono) auto
    finally show ?thesis using p by simp
  qed
  ultimately show ?thesis using k1 k2 by simp
qed

lemma double_to_uint_exact:
  fixes x :: real
  assumes "0 \<le> e" "e \<le> 1 / 2" "0 < bits" "bits \<le> 32" and r: "double_to_uint (exact e) x bits f = (out, x')"
  defines "y \<equiv> clip (exact e) 0 (2 powi (bits - f) * (1 - e) - 2 powi (- f)) x"
  shows "uint out \<le> 2 ^ nat bits - 1 \<and> x' = of_int (uint out) * 2 powi (- f) \<and> \<bar>x' - y\<bar> \<le> 2 powi (- f) / 2"
proof -
  let ?p = "2 powi f :: real"
  have p: "0 < ?p" "2 powi (- f) = 1 / ?p" by (simp_all add: power_int_minus divide_inverse)
  have top: "2 powi (bits - f) * ?p = (2::real) ^ nat bits"
    using assms(3) powi_add [of "bits - f" f] power_int_nonneg_exp [of bits "2::real"] by simp
  define k where "k = lround (y * ?p)"
  have half: "2 powi (- f) \<le> (2::real) powi (bits - f) * (1 - e)"
  proof -
    have "(2::real) powi (- f + 1) \<le> 2 powi (bits - f)" using assms(3) by (intro power_int_increasing) auto
    moreover have "(2::real) powi (- f + 1) = 2 * 2 powi (- f)" using powi_add [of 1 "- f"] by simp
    moreover have "2 powi (bits - f) * (1 / 2) \<le> (2::real) powi (bits - f) * (1 - e)"
      using assms(2) by (intro mult_left_mono) auto
    ultimately show ?thesis by linarith
  qed
  have lo: "0 \<le> y" using half by (auto simp: y_def clip_def)
  have hi: "y \<le> 2 powi (bits - f) - 2 powi (- f)"
  proof -
    have "2 powi (bits - f) * (1 - e) \<le> 2 powi (bits - f)" using assms(1) by simp
    moreover have "y \<le> 2 powi (bits - f) * (1 - e) - 2 powi (- f)" using half by (auto simp: y_def clip_def)
    ultimately show ?thesis by linarith
  qed
  have k1: "0 \<le> k" using lround_mono [of 0 "y * ?p"] lround_int [of 0] lo by (simp add: k_def)
  have k2: "k \<le> 2 ^ nat bits - 1"
  proof -
    have "y * ?p \<le> (2::real) ^ nat bits - 1" using mult_right_mono [OF hi, of ?p] p top by (simp add: left_diff_distrib)
    from lround_mono [OF this] lround_int [of "2 ^ nat bits - 1"] show ?thesis by (simp add: k_def)
  qed
  have "(2::int) ^ nat bits \<le> 2 ^ 32" using assms(4) by (intro power_increasing) auto
  then have "uint (word_of_int k :: u32) = k" using k1 k2 by (simp add: uint_word_of_int_eq take_bit_int_eq_self)
  moreover have "out = word_of_int k" and "x' = of_int (uint out) * 2 powi (- f)"
    using r by (auto simp: double_to_uint_def Let_def k_def y_def algebra_simps)
  moreover have "\<bar>of_int k * 2 powi (- f) - y\<bar> \<le> 2 powi (- f) / 2"
  proof -
    have "\<bar>of_int k * 2 powi (- f) - y\<bar> = \<bar>of_int k - y * ?p\<bar> / ?p" using p by (simp add: abs_div_pos diff_divide_distrib)
    also have "\<dots> \<le> 1 / 2 / ?p" using lround_near [of "y * ?p"] p(1) unfolding k_def by (intro divide_right_mono) auto
    finally show ?thesis using p by simp
  qed
  ultimately show ?thesis using k2 by simp
qed

section \<open>Tune and frequency are inverse\<close>

text \<open>A frequency of the hardware is a 48-bit phase advance per bunch.\<close>

lemma uint_push16: "uint (push_bit 16 f :: u64) = 2 ^ 16 * (uint f mod 2 ^ 48)"
proof -
  have "uint (push_bit 16 f :: u64) = take_bit 64 (push_bit 16 (uint f))" by (simp add: unsigned_push_bit_eq)
  also have "\<dots> = push_bit 16 (take_bit 48 (uint f))" by (simp add: take_bit_push_bit)
  finally show ?thesis by (simp add: push_bit_eq_mult take_bit_eq_mod)
qed

lemma sint_push16: "sint (push_bit 16 f :: u64) = 2 ^ 16 * signed_take_bit 47 (uint f)"
proof -
  have "sint (push_bit 16 f :: u64) = signed_take_bit 63 (uint (push_bit 16 f :: u64))" by (simp add: sint_uint)
  also have "uint (push_bit 16 f :: u64) = take_bit 64 (push_bit 16 (uint f))" by (simp add: unsigned_push_bit_eq)
  also have "signed_take_bit 63 (take_bit 64 (push_bit 16 (uint f))) = signed_take_bit 63 (push_bit 16 (uint f))"
    by (simp add: signed_take_bit_take_bit)
  also have "\<dots> = push_bit 16 (signed_take_bit 47 (uint f))" by (simp add: bit_eq_iff bit_simps min_def) auto
  finally show ?thesis by (simp add: push_bit_eq_mult)
qed

lemma freq_to_tune_exact:
  "freq_to_tune (exact e) n f = of_int (uint f mod 2 ^ 48) / 2 ^ 48 * of_int (uint n)"
  "freq_to_tune_signed (exact e) n f = of_int (signed_take_bit 47 (uint f)) / 2 ^ 48 * of_int (uint n)"
  by (simp_all add: freq_to_tune_def freq_to_tune_signed_def uint_push16 sint_push16 power_int_def power_one_over)

lemma tune_to_freq_exact:
  assumes "n \<noteq> 0"
  shows "tune_to_freq (exact e) n t = word_of_int (lround (frac (t / of_int (uint n)) * 2 ^ 48))"
proof -
  define q where "q = t / real_of_int (uint n)"
  have "(if q - of_int (truncate q) < 0 then q - of_int (truncate q) + 1 else q - of_int (truncate q)) = frac q"
    by (auto simp: truncate_def frac_def ceiling_altdef) linarith
  then show ?thesis by (simp only: tune_to_freq_def Let_def exact_simps of_int_0 of_int_1 power_int_numeral flip: q_def)
qed

lemma tune_to_freq_of_ratio:
  assumes "n \<noteq> 0"
  shows "tune_to_freq (exact e) n (of_int k / 2 ^ 48 * of_int (uint n)) = word_of_int (k mod 2 ^ 48)"
proof -
  have "real_of_int (uint n) \<noteq> 0" using assms by (simp add: unsigned_eq_0_iff)
  moreover have "frac (real_of_int k / 2 ^ 48) = of_int (k mod 2 ^ 48) / 2 ^ 48"
  proof -
    have "real_of_int k / 2 ^ 48 = of_int (k div 2 ^ 48) + of_int (k mod 2 ^ 48) / 2 ^ 48"
    proof -
      have "real_of_int k = of_int (2 ^ 48 * (k div 2 ^ 48) + k mod 2 ^ 48)" by simp
      also have "\<dots> = 2 ^ 48 * of_int (k div 2 ^ 48) + of_int (k mod 2 ^ 48)"
        by (simp only: of_int_add of_int_mult of_int_power of_int_numeral)
      finally have *: "real_of_int k = 2 ^ 48 * of_int (k div 2 ^ 48) + of_int (k mod 2 ^ 48)" .
      have "(2 ^ 48 * a + b) / 2 ^ 48 = a + b / 2 ^ 48" for a b :: real by (simp add: add_divide_distrib)
      then show ?thesis by (subst *) blast
    qed
    then have "real_of_int k / 2 ^ 48 - of_int (k mod 2 ^ 48) / 2 ^ 48 = of_int (k div 2 ^ 48)" by linarith
    moreover have "0 \<le> real_of_int (k mod 2 ^ 48) / 2 ^ 48" "real_of_int (k mod 2 ^ 48) / 2 ^ 48 < 1"
      using pos_mod_bound [of "2 ^ 48" k] pos_mod_sign [of "2 ^ 48" k] by simp_all
    ultimately show ?thesis unfolding frac_unique_iff by (metis Ints_of_int)
  qed
  ultimately show ?thesis using assms by (simp add: tune_to_freq_exact)
qed

lemma mod_word48: "word_of_int (k mod 2 ^ 48) = (take_bit 48 (word_of_int k) :: u64)"
  unfolding take_bit_eq_mod [symmetric] by (rule bit_word_eqI) (simp add: bit_simps)

lemma signed_word48: "take_bit 48 (word_of_int (signed_take_bit 47 (uint f))) = (take_bit 48 f :: u64)"
proof (rule bit_word_eqI)
  fix n assume "n < LENGTH(64)"
  then show "bit (take_bit 48 (word_of_int (signed_take_bit 47 (uint f))) :: u64) n = bit (take_bit 48 f) n"
    by (cases "n < 47"; cases "n = 47") (auto simp: bit_simps min_def)
qed

text \<open>C25 Tune and frequency convert into each other: in exact arithmetic the frequency of the tune of a frequency,
  read unsigned or signed, is its 48 bits, and the tune of the frequency of any tune differs from it by whole
  revolutions and at most half a step of the hardware.\<close>

theorem tune_roundtrip:
  assumes "n \<noteq> 0"
  shows "tune_to_freq (exact e) n (freq_to_tune (exact e) n f) = take_bit 48 f \<and>
    tune_to_freq (exact e) n (freq_to_tune_signed (exact e) n f) = take_bit 48 f \<and>
    (\<exists>k. \<bar>freq_to_tune (exact e) n (tune_to_freq (exact e) n t) - t - of_int k * of_int (uint n)\<bar> \<le> of_int (uint n) / 2 ^ 49)"
proof (intro conjI)
  show "tune_to_freq (exact e) n (freq_to_tune (exact e) n f) = take_bit 48 f"
    using tune_to_freq_of_ratio [OF assms, of e "uint f mod 2 ^ 48"] by (simp only: freq_to_tune_exact mod_mod_trivial mod_word48 word_of_int_uint)
  show "tune_to_freq (exact e) n (freq_to_tune_signed (exact e) n f) = take_bit 48 f"
    using tune_to_freq_of_ratio [OF assms, of e "signed_take_bit 47 (uint f)"]
    by (simp only: freq_to_tune_exact mod_word48 signed_word48)
  define q where "q = t / real_of_int (uint n)"
  define k where "k = lround (frac q * 2 ^ 48)"
  have n: "0 < real_of_int (uint n)" 
    using assms by (simp only: of_int_0_less_iff) (simp add: word_neq_0_conv word_less_def)
  have "0 \<le> k" using lround_mono [of 0 "frac q * 2 ^ 48"] lround_int [of 0] by (simp add: k_def)
  moreover have "k \<le> 2 ^ 48"
    using lround_mono [of "frac q * 2 ^ 48" "2 ^ 48"] lround_int [of "2 ^ 48"] frac_lt_1 [of q] by (simp add: k_def)
  ultimately have u: "uint (word_of_int k :: u64) mod 2 ^ 48 = k mod 2 ^ 48" by (simp add: uint_word_of_int_eq take_bit_int_eq_self)
  have b: "\<bar>of_int k - frac q * 2 ^ 48\<bar> \<le> 1 / 2" using lround_near [of "frac q * 2 ^ 48"] by (simp add: k_def)
  have t: "t = (of_int \<lfloor>q\<rfloor> + frac q) * of_int (uint n)" using n by (simp add: frac_def q_def)
  obtain m where m: "k mod 2 ^ 48 = k - m * 2 ^ 48" by (metis minus_div_mult_eq_mod)
  have "freq_to_tune (exact e) n (tune_to_freq (exact e) n t) = of_int (k mod 2 ^ 48) / 2 ^ 48 * of_int (uint n)"
    by (simp only: tune_to_freq_exact [OF assms] freq_to_tune_exact u flip: q_def k_def)
  also have "\<dots> = (of_int k / 2 ^ 48 - of_int m) * of_int (uint n)" by (simp only: m) (simp add: diff_divide_distrib)
  finally have "freq_to_tune (exact e) n (tune_to_freq (exact e) n t) - t - of_int (- m - \<lfloor>q\<rfloor>) * of_int (uint n) =
      (of_int k - frac q * 2 ^ 48) * (of_int (uint n) / 2 ^ 48)"
    by (subst t) (simp add: algebra_simps)
  also have "\<bar>\<dots>\<bar> \<le> 1 / 2 * (of_int (uint n) / 2 ^ 48)" using b n by (simp only: abs_mult) (intro mult_mono, auto)
  finally show "\<exists>k. \<bar>freq_to_tune (exact e) n (tune_to_freq (exact e) n t) - t - of_int k * of_int (uint n)\<bar> \<le> of_int (uint n) / 2 ^ 49"
    by (intro exI [of _ "- m - \<lfloor>q\<rfloor>"]) simp
qed

theorem tune_roundtrip_witness:
  "tune_to_freq (exact 0) 936 (freq_to_tune_signed (exact 0) 936 (- 5)) = take_bit 48 (- 5) \<and>
    (\<exists>k. \<bar>freq_to_tune (exact 0) 936 (tune_to_freq (exact 0) 936 (1 / 3)) - 1 / 3 - of_int k * of_int (uint (936::u32))\<bar>
      \<le> of_int (uint (936::u32)) / 2 ^ 49)"
proof -
  have "(936::u32) \<noteq> 0" by simp
  from tune_roundtrip [OF this, of 0 "- 5" "1 / 3"] show ?thesis by blast
qed

end
