(* ===== verification/Tune_Pll.thy ===== *)
theory Tune_Pll
  imports Pll_Fifo Fixed_Point System_Config Bunch_Set
begin

unbundle bit_operations_syntax

text \<open>
  The control of the tune PLL (\<^verbatim>\<open>epics/src/tune_pll.c\<close>): the settings written to the hardware, the
  frequency and phase kept in step with it, the detector, the readouts through the two FIFOs, and the
  handling of start, stop and the interrupts.  Floating point is a parameter (\<open>Fixed_Point\<close>); what is read
  from the registers is an argument.
\<close>

section \<open>State\<close>

record ('d, 'f) detector_values =
  wf_i :: "'f list"
  wf_q :: "'f list"
  wf_mag :: "'f list"
  wf_angle :: "'f list"

record ('d, 'f) pll_context =
  nco_freq_set :: u64
  current_nco :: u64
  nco_freq_out :: 'd
  mean_offset :: 'd
  std_offset :: 'd
  nco_tune :: 'd
  offset_wf :: "'f list"
  phase_delay :: u32
  target_phase :: u32
  events :: tune_pll_events
  status :: tune_pll_status
  input_select :: u16
  readout_scale :: u16
  bunch_enables :: "bool list"
  bunch_count :: nat
  filtered :: "('d, 'f) detector_values"
  offset_fifo :: readout_fifo
  offset_log :: "fifo_event list"
  debug_fifo :: readout_fifo
  debug_log :: "fifo_event list"
  debug_values :: "('d, 'f) detector_values"
  debug_relative_std :: 'd
  debug_relative_std_abs :: 'd
  captured_cordic :: bool
  offset_triggers :: nat

text \<open>\<open>offset_triggers\<close> counts the requests to process the \<^verbatim>\<open>OFFSET\<close> record, which runs \<open>update_nco_frequency\<close>.\<close>

record ('d, 'f) pll_world =
  pll :: "('d, 'f) pll_context"
  pll_hw :: hw

definition set_pll :: "(('d, 'f) pll_context \<Rightarrow> ('d, 'f) pll_context) \<Rightarrow> ('d, 'f) pll_world \<Rightarrow> ('d, 'f) pll_world" where
  "set_pll f w = w\<lparr>pll := f (pll w)\<rparr>"

definition set_hw :: "(hw \<Rightarrow> hw) \<Rightarrow> ('d, 'f) pll_world \<Rightarrow> ('d, 'f) pll_world" where
  "set_hw f w = w\<lparr>pll_hw := f (pll_hw w)\<rparr>"

lemma set_simps [simp]:
  "pll (set_pll f w) = f (pll w)" "pll_hw (set_pll f w) = pll_hw w" "pll (set_hw g w) = pll w" "pll_hw (set_hw g w) = g (pll_hw w)"
  by (simp_all add: set_pll_def set_hw_def)

definition trigger_offset_pv :: "('d, 'f) pll_world \<Rightarrow> ('d, 'f) pll_world" where
  "trigger_offset_pv = set_pll (\<lambda>p. p\<lparr>offset_triggers := offset_triggers p + 1\<rparr>)"

section \<open>Feedback settings\<close>

definition CORDIC_SCALING :: "'d arith \<Rightarrow> 'd" where
  "CORDIC_SCALING A = d_div A (d_decimal A 16467602581210654 16) (d_int A 2)"

definition write_ki :: "'d arith \<Rightarrow> nat \<Rightarrow> 'd \<Rightarrow> ('d, 'f) pll_world \<Rightarrow> ('d, 'f) pll_world" where
  "write_ki A axis v = set_hw (hw_write_pll_integral_factor axis (push_bit 7 (word_of_int (d_trunc A v))))"

definition write_kp :: "'d arith \<Rightarrow> nat \<Rightarrow> 'd \<Rightarrow> ('d, 'f) pll_world \<Rightarrow> ('d, 'f) pll_world" where
  "write_kp A axis v = set_hw (hw_write_pll_proportional_factor axis (push_bit 7 (word_of_int (d_trunc A v))))"

definition write_min_magnitude :: "'d arith \<Rightarrow> nat \<Rightarrow> 'd \<Rightarrow> ('d, 'f) pll_world \<Rightarrow> ('d, 'f) pll_world" where
  "write_min_magnitude A axis v =
     set_hw (hw_write_pll_minimum_magnitude axis (word_of_int (d_round A (d_mul A (d_ldexp A v 31) (CORDIC_SCALING A)))))"

text \<open>The value read back is returned.\<close>

definition write_max_offset :: "'d arith \<Rightarrow> u32 \<Rightarrow> nat \<Rightarrow> 'd \<Rightarrow> ('d, 'f) pll_world \<Rightarrow> ('d, 'f) pll_world \<times> 'd" where
  "write_max_offset A bunches axis v w =
     (let max_offset = ucast (drop_bit 8 (tune_to_freq A bunches v) AND 0x7FFFFFFF) :: u32
      in (set_hw (hw_write_pll_maximum_offset axis max_offset) w, freq_to_tune A bunches (push_bit 8 (ucast max_offset))))"

definition phase_word :: "('d, 'f) pll_context \<Rightarrow> u32" where
  "phase_word p =
     (let phase_delta = ucast (drop_bit 16 (ucast (phase_delay p) * current_nco p)) in - target_phase p + phase_delta)"

definition update_target_phase :: "nat \<Rightarrow> ('d, 'f) pll_world \<Rightarrow> ('d, 'f) pll_world" where
  "update_target_phase axis w = set_hw (hw_write_pll_target_phase axis (phase_word (pll w))) w"

definition write_target_phase :: "'d arith \<Rightarrow> nat \<Rightarrow> 'd \<Rightarrow> ('d, 'f) pll_world \<Rightarrow> ('d, 'f) pll_world \<times> 'd" where
  "write_target_phase A axis v w =
     (let v = d_sub A (d_fmod A (d_add A v (d_int A 180)) (d_int A 360)) (d_int A 180);
          w = set_pll (\<lambda>p. p\<lparr>target_phase := word_of_int (d_round A (d_ldexp A (d_div A v (d_int A 360)) 32))\<rparr>) w
      in (update_target_phase axis w, v))"

section \<open>Frequency\<close>

definition write_nco_gain :: "nat \<Rightarrow> u32 \<Rightarrow> ('d, 'f) pll_world \<Rightarrow> ('d, 'f) pll_world" where
  "write_nco_gain axis gain = set_hw (hw_write_pll_nco_gain axis gain)"

definition SQR :: "'d arith \<Rightarrow> 'd \<Rightarrow> 'd" where
  "SQR A x = d_mul A x x"

definition sum_of :: "'d arith \<Rightarrow> 'd list \<Rightarrow> 'd" where
  "sum_of A xs = foldl (d_add A) (d_int A 0) xs"

definition mean_of :: "'d arith \<Rightarrow> 'd list \<Rightarrow> 'd" where
  "mean_of A xs = d_div A (sum_of A xs) (d_int A (int (length xs)))"

text \<open>An offset is a 32-bit signed number in units of \<open>2 ^ 8\<close> steps of the frequency.\<close>

definition offset_freq :: "u32 \<Rightarrow> u64" where
  "offset_freq x = push_bit 8 (scast x)"

text \<open>\<open>None\<close> is the failed assertion of \<^verbatim>\<open>read_fifo_buffer\<close>.\<close>

definition read_offset_waveform :: "('d, 'f) floats \<Rightarrow> u32 \<Rightarrow> ('d, 'f) pll_world \<Rightarrow> ('d, 'f) pll_world option" where
  "read_offset_waveform F bunches w =
     (let p = pll w; A = dbl F
      in map_option (\<lambda>buf.
           let offsets = map (freq_to_tune_signed A bunches \<circ> offset_freq) buf;
               mean = mean_of A offsets;
               std = d_sqrt A (mean_of A (map (\<lambda>x. SQR A (d_sub A x mean)) offsets));
               tune = (if running (status p)
                       then d_fmod A (d_add A (freq_to_tune A bunches (nco_freq_set p)) mean) (d_int A 1)
                       else not_a_number F)
           in w\<lparr>pll := p\<lparr>mean_offset := mean, offset_wf := map (to_float F) offsets, std_offset := std, nco_tune := tune\<rparr>\<rparr>)
         (read_fifo_buffer \<lparr>fifo = offset_fifo p, fifo_hw = pll_hw w, fifo_log = offset_log p\<rparr>))"

definition write_nco_frequency :: "'d arith \<Rightarrow> u32 \<Rightarrow> nat \<Rightarrow> 'd \<Rightarrow> ('d, 'f) pll_world \<Rightarrow> ('d, 'f) pll_world \<times> 'd" where
  "write_nco_frequency A bunches axis tune w =
     (let f = tune_to_freq A bunches tune
      in (trigger_offset_pv (set_hw (hw_write_pll_nco_frequency axis f) (set_pll (\<lambda>p. p\<lparr>nco_freq_set := f\<rparr>) w)),
          freq_to_tune A bunches f))"

definition update_nco_frequency :: "'d arith \<Rightarrow> u32 \<Rightarrow> nat \<Rightarrow> (reg \<Rightarrow> u32) \<Rightarrow> ('d, 'f) pll_world \<Rightarrow> ('d, 'f) pll_world \<times> 'd" where
  "update_nco_frequency A bunches axis rd w =
     (let p = pll w;
          (off, nco) = (if running (status p)
             then let off = offset_freq (hw_read_pll_filtered_offset axis rd) in (off, nco_freq_set p + off)
             else let nco = hw_read_pll_nco_frequency axis rd in (nco - nco_freq_set p, nco));
          w = w\<lparr>pll := p\<lparr>current_nco := nco, nco_freq_out := freq_to_tune A bunches nco\<rparr>\<rparr>
      in (update_target_phase axis w, freq_to_tune_signed A bunches off))"

section \<open>Detector\<close>

text \<open>\<open>None\<close> is the failed assertion for a selection that is none of the three.\<close>

definition compute_bunch_offset :: "hardware_delays \<Rightarrow> u16 \<Rightarrow> u32 option" where
  "compute_bunch_offset dl sel =
     (if sel = 0 then Some (PLL_ADC_OFFSET dl) else if sel = 1 then Some (PLL_FIR_OFFSET dl)
      else if sel = 2 then Some (PLL_ADC_REJECT_OFFSET dl) else None)"

definition compute_detector_delay :: "hardware_delays \<Rightarrow> u32 \<Rightarrow> u32 \<Rightarrow> u16 \<Rightarrow> u32 option" where
  "compute_detector_delay dl bunches fir_decimation sel =
     (if sel = 0 then Some (PLL_ADC_DELAY dl + bunches)
      else if sel = 1 then Some (PLL_FIR_DELAY dl + fir_decimation * bunches)
      else if sel = 2 then Some (PLL_ADC_REJECT_DELAY dl + bunches) else None)"

definition write_det_input_select ::
  "hardware_delays \<Rightarrow> u32 \<Rightarrow> u32 \<Rightarrow> nat \<Rightarrow> u16 \<Rightarrow> ('d, 'f) pll_world \<Rightarrow> ('d, 'f) pll_world option" where
  "write_det_input_select dl bunches fir_decimation axis sel w =
     (case (compute_bunch_offset dl sel, compute_detector_delay dl bunches fir_decimation sel) of
        (Some offset, Some delay) \<Rightarrow>
          Some (update_target_phase axis (set_pll (\<lambda>p. p\<lparr>phase_delay := delay\<rparr>)
            (set_hw (hw_write_pll_det_config (unat bunches) axis sel (unat offset) (bunch_enables (pll w)))
              (set_pll (\<lambda>p. p\<lparr>input_select := sel\<rparr>) w))))
      | _ \<Rightarrow> None)"

definition write_det_output_scale :: "nat \<Rightarrow> u16 \<Rightarrow> ('d, 'f) pll_world \<Rightarrow> ('d, 'f) pll_world" where
  "write_det_output_scale axis scale w =
     set_hw (hw_write_pll_det_scaling axis scale) (set_pll (\<lambda>p. p\<lparr>readout_scale := scale\<rparr>) w)"

definition write_det_dwell :: "nat \<Rightarrow> u32 \<Rightarrow> ('d, 'f) pll_world \<Rightarrow> ('d, 'f) pll_world" where
  "write_det_dwell axis dwell = set_hw (hw_write_pll_dwell_time axis dwell)"

definition write_det_blanking :: "nat \<Rightarrow> bool \<Rightarrow> ('d, 'f) pll_world \<Rightarrow> ('d, 'f) pll_world" where
  "write_det_blanking axis b = set_hw (hw_write_pll_blanking axis b)"

definition write_bunch_enables ::
  "hardware_delays \<Rightarrow> u32 \<Rightarrow> nat \<Rightarrow> u8 list \<Rightarrow> ('d, 'f) pll_world \<Rightarrow> (('d, 'f) pll_world \<times> u8 list) option" where
  "write_bunch_enables dl bunches axis es w =
     (let bs = map (\<lambda>i. es ! i \<noteq> 0) [0..<unat bunches];
          w = set_pll (\<lambda>p. p\<lparr>bunch_count := fold (\<lambda>b n. if b then n + 1 else n) bs 0, bunch_enables := bs\<rparr>) w;
          sel = input_select (pll w)
      in map_option (\<lambda>offset. (set_hw (hw_write_pll_det_config (unat bunches) axis sel (unat offset) bs) w, map of_bool bs))
           (compute_bunch_offset dl sel))"

definition select_bunches ::
  "bool \<Rightarrow> hardware_delays \<Rightarrow> u32 \<Rightarrow> nat \<Rightarrow> bunch_set \<Rightarrow> u8 list \<Rightarrow> ('d, 'f) pll_world \<Rightarrow> (('d, 'f) pll_world \<times> u8 list) option" where
  "select_bunches v dl bunches axis bs es = write_bunch_enables dl bunches axis (update_record_with_bunch_set bunches bs (of_bool v) es)"

section \<open>Start and stop\<close>

text \<open>With every bit of the status clear the feedback is still starting, which counts as running.\<close>

definition update_pll_status :: "nat \<Rightarrow> (reg \<Rightarrow> u32) \<Rightarrow> ('d, 'f) pll_world \<Rightarrow> ('d, 'f) pll_world" where
  "update_pll_status axis rd =
     (let s = hw_read_pll_status axis rd;
          halted = (stopped s \<or> overflow s \<or> too_small s \<or> bad_offset s)
      in set_pll (\<lambda>p. p\<lparr>status := s\<lparr>running := \<not> halted\<rparr>\<rparr>))"

text \<open>The operations of the two FIFOs, on their part of the state.\<close>

definition offset_id :: "nat \<Rightarrow> fifo_id" where
  "offset_id axis = \<lparr>fifo_axis = axis, fifo_which = PLL_FIFO_OFFSET\<rparr>"

definition debug_id :: "nat \<Rightarrow> fifo_id" where
  "debug_id axis = \<lparr>fifo_axis = axis, fifo_which = PLL_FIFO_DEBUG\<rparr>"

definition offset_world :: "('d, 'f) pll_world \<Rightarrow> fifo_world" where
  "offset_world w = \<lparr>fifo = offset_fifo (pll w), fifo_hw = pll_hw w, fifo_log = offset_log (pll w)\<rparr>"

definition debug_world :: "('d, 'f) pll_world \<Rightarrow> fifo_world" where
  "debug_world w = \<lparr>fifo = debug_fifo (pll w), fifo_hw = pll_hw w, fifo_log = debug_log (pll w)\<rparr>"

definition set_offset_world :: "('d, 'f) pll_world \<Rightarrow> fifo_world \<Rightarrow> ('d, 'f) pll_world" where
  "set_offset_world w v = w\<lparr>pll := (pll w)\<lparr>offset_fifo := fifo v, offset_log := fifo_log v\<rparr>, pll_hw := fifo_hw v\<rparr>"

definition set_debug_world :: "('d, 'f) pll_world \<Rightarrow> fifo_world \<Rightarrow> ('d, 'f) pll_world" where
  "set_debug_world w v = w\<lparr>pll := (pll w)\<lparr>debug_fifo := fifo v, debug_log := fifo_log v\<rparr>, pll_hw := fifo_hw v\<rparr>"

definition on_offset :: "nat \<Rightarrow> fifo_op \<Rightarrow> ('d, 'f) pll_world \<Rightarrow> ('d, 'f) pll_world option" where
  "on_offset axis op w = map_option (set_offset_world w) (fifo_apply (offset_id axis) op (offset_world w))"

definition reset_offset_fifo :: "nat \<Rightarrow> fifo_read \<Rightarrow> ('d, 'f) pll_world \<Rightarrow> ('d, 'f) pll_world option" where
  "reset_offset_fifo axis r = on_offset axis (ResetFifo r)"

definition handle_pll_start :: "nat \<Rightarrow> (reg \<Rightarrow> u32) \<Rightarrow> fifo_read \<Rightarrow> fifo_read \<Rightarrow> ('d, 'f) pll_world \<Rightarrow> ('d, 'f) pll_world option" where
  "handle_pll_start axis rd r1 r2 w = on_offset axis (EnableFifo False r1 r2) (update_pll_status axis rd w)"

definition handle_pll_stop :: "nat \<Rightarrow> (reg \<Rightarrow> u32) \<Rightarrow> fifo_read \<Rightarrow> ('d, 'f) pll_world \<Rightarrow> ('d, 'f) pll_world option" where
  "handle_pll_stop axis rd r w =
     (let w = update_pll_status axis rd w
      in if running (status (pll w)) then Some w
         else map_option trigger_offset_pv (on_offset axis (DisableFifo r) w))"

definition start_feedback :: "nat \<Rightarrow> (reg \<Rightarrow> u32) \<Rightarrow> fifo_read \<Rightarrow> fifo_read \<Rightarrow> ('d, 'f) pll_world \<Rightarrow> ('d, 'f) pll_world option" where
  "start_feedback axis rd r1 r2 w = handle_pll_start axis rd r1 r2 (set_hw (hw_write_pll_start (axis = 0) (axis = 1)) w)"

definition stop_feedback :: "nat \<Rightarrow> ('d, 'f) pll_world \<Rightarrow> ('d, 'f) pll_world" where
  "stop_feedback axis = set_hw (hw_write_pll_stop (axis = 0) (axis = 1))"

section \<open>Debug readout\<close>

definition set_captured_debug :: "nat \<Rightarrow> bool \<Rightarrow> ('d, 'f) pll_world \<Rightarrow> ('d, 'f) pll_world" where
  "set_captured_debug axis v w = set_hw (hw_write_pll_captured_cordic axis v) (set_pll (\<lambda>p. p\<lparr>captured_cordic := v\<rparr>) w)"

text \<open>A point: I, Q and magnitude before the compensation.\<close>

definition input_point :: "'d arith \<Rightarrow> bool \<Rightarrow> u32 \<times> u32 \<Rightarrow> 'd \<times> 'd \<times> 'd" where
  "input_point A cordic iq =
     (let i = d_int A (sint (fst iq)); q = d_int A (sint (snd iq))
      in if cordic
         then let phase = d_mul A (d_mul A (d_int A 2) (d_pi A)) (d_ldexp A i (- 32));
                  mag = d_div A (d_ldexp A q (- 31)) (CORDIC_SCALING A)
              in (d_mul A (d_cos A phase) mag, d_mul A (d_sin A phase) mag, mag)
         else let x = d_ldexp A i (- 31); y = d_ldexp A q (- 31)
              in (x, y, d_sqrt A (d_add A (SQR A x) (SQR A y))))"

definition phase_offset :: "'d arith \<Rightarrow> ('d, 'f) pll_context \<Rightarrow> 'd" where
  "phase_offset A p =
     d_mul A (d_mul A (d_int A (uint (phase_delay p * 2))) (d_pi A)) (d_ldexp A (d_int A (uint (current_nco p))) (- 48))"

definition output_point :: "'d arith \<Rightarrow> ('d, 'f) pll_context \<Rightarrow> bool \<Rightarrow> u32 \<times> u32 \<Rightarrow> 'd \<times> 'd \<times> 'd \<times> 'd" where
  "output_point A p cordic iq =
     (let rot_i = d_cos A (phase_offset A p); rot_q = d_neg A (d_sin A (phase_offset A p));
          (val_i, val_q, mag) = input_point A cordic iq;
          i_out = d_sub A (d_mul A rot_i val_i) (d_mul A rot_q val_q);
          q_out = d_add A (d_mul A rot_i val_q) (d_mul A rot_q val_i);
          angle = d_mul A (d_div A (d_int A 180) (d_pi A)) (d_atan2 A (d_neg A q_out) i_out)
      in (i_out, d_neg A q_out, mag, angle))"

definition convert_detector_values ::
  "('d, 'f) floats \<Rightarrow> ('d, 'f) pll_context \<Rightarrow> bool \<Rightarrow> (u32 \<times> u32) list \<Rightarrow> ('d, 'f) detector_values" where
  "convert_detector_values F p cordic inputs =
     (let pts = map (output_point (dbl F) p cordic) inputs
      in \<lparr>wf_i = map (\<lambda>(i, q, m, a). to_float F i) pts, wf_q = map (\<lambda>(i, q, m, a). to_float F q) pts,
          wf_mag = map (\<lambda>(i, q, m, a). to_float F m) pts, wf_angle = map (\<lambda>(i, q, m, a). to_float F a) pts\<rparr>)"

text \<open>The debug FIFO holds pairs; an odd sample at the end is dropped.\<close>

fun pairs :: "'a list \<Rightarrow> ('a \<times> 'a) list" where
  "pairs (x # y # zs) = (x, y) # pairs zs"
| "pairs _ = []"

definition process_debug_fifo :: "('d, 'f) floats \<Rightarrow> ('d, 'f) pll_world \<Rightarrow> ('d, 'f) pll_world option" where
  "process_debug_fifo F w =
     map_option (\<lambda>buf.
       let A = dbl F; p = pll w;
           v = convert_detector_values F p (captured_cordic p) (pairs buf);
           n = d_int A (int (length (pairs buf)));
           iv = map (of_float F) (wf_i v); qv = map (of_float F) (wf_q v); mv = map (of_float F) (wf_mag v);
           mi = mean_of A iv; mq = mean_of A qv; mm = mean_of A mv;
           std_iq = sum_of A (map2 (\<lambda>i q. d_add A (SQR A (d_sub A i mi)) (SQR A (d_sub A q mq))) iv qv);
           std_abs = sum_of A (map (\<lambda>m. SQR A (d_sub A m mm)) mv)
       in w\<lparr>pll := p\<lparr>debug_values := v,
             debug_relative_std := d_div A (d_sqrt A (d_div A std_iq n)) (d_hypot A mi mq),
             debug_relative_std_abs := d_div A (d_sqrt A (d_div A std_abs n)) mm\<rparr>\<rparr>)
       (read_fifo_buffer (debug_world w))"

text \<open>The debug FIFO calls \<open>process_debug_fifo\<close> when it hands over its buffer.\<close>

fun is_emitted :: "fifo_event \<Rightarrow> bool" where
  "is_emitted (Emitted xs b) \<longleftrightarrow> True" | "is_emitted _ \<longleftrightarrow> False"

definition on_debug :: "('d, 'f) floats \<Rightarrow> nat \<Rightarrow> fifo_op \<Rightarrow> ('d, 'f) pll_world \<Rightarrow> ('d, 'f) pll_world option" where
  "on_debug F axis op w =
     Option.bind (fifo_apply (debug_id axis) op (debug_world w)) (\<lambda>v.
       let w' = set_debug_world w v
       in if length (filter is_emitted (debug_log (pll w))) < length (filter is_emitted (fifo_log v))
          then process_debug_fifo F w' else Some w')"

definition enable_debug_fifo ::
  "('d, 'f) floats \<Rightarrow> nat \<Rightarrow> bool \<Rightarrow> fifo_read \<Rightarrow> fifo_read \<Rightarrow> ('d, 'f) pll_world \<Rightarrow> ('d, 'f) pll_world option" where
  "enable_debug_fifo F axis v r1 r2 = on_debug F axis (if v then EnableFifo True r1 r2 else DisableFifo r1)"

text \<open>The poll at 10 Hz.\<close>

definition read_filtered_readbacks :: "('d, 'f) floats \<Rightarrow> nat \<Rightarrow> (reg \<Rightarrow> u32) \<Rightarrow> ('d, 'f) pll_world \<Rightarrow> ('d, 'f) pll_world" where
  "read_filtered_readbacks F axis rd w =
     (let w = set_pll (\<lambda>p. p\<lparr>events := hw_read_pll_events axis rd\<rparr>) w;
          w = (if running (status (pll w)) then trigger_offset_pv w else w)
      in set_pll (\<lambda>p. p\<lparr>filtered := convert_detector_values F p False [hw_read_pll_filtered_detector axis rd]\<rparr>) w)"

section \<open>Interrupts and initialisation\<close>

text \<open>What the registers and the FIFOs give while an event is handled.\<close>

record event_reads =
  read_offset :: fifo_read
  read_debug :: fifo_read
  read_stop :: fifo_read
  read_regs :: "reg \<Rightarrow> u32"

definition cond :: "bool \<Rightarrow> ('a \<Rightarrow> 'a option) \<Rightarrow> 'a \<Rightarrow> 'a option" where
  "cond b f w = (if b then f w else Some w)"

definition handle_fifo_event :: "('d, 'f) floats \<Rightarrow> nat \<Rightarrow> event_reads \<Rightarrow> u32 \<Rightarrow> ('d, 'f) pll_world \<Rightarrow> ('d, 'f) pll_world option" where
  "handle_fifo_event F axis e bits w =
     Option.bind (cond (bits AND 1 \<noteq> 0) (on_offset axis (FifoReady (read_offset e))) w)
       (\<lambda>w. Option.bind (cond (bits AND 2 \<noteq> 0) (on_debug F axis (FifoReady (read_debug e))) w)
         (cond (bits AND 4 \<noteq> 0) (handle_pll_stop axis (read_regs e) (read_stop e))))"

text \<open>Both axes, with the hardware they share.\<close>

record ('d, 'f) pll_system =
  contexts :: "nat \<Rightarrow> ('d, 'f) pll_context"
  sys_hw :: hw

definition axis_world :: "nat \<Rightarrow> ('d, 'f) pll_system \<Rightarrow> ('d, 'f) pll_world" where
  "axis_world axis s = \<lparr>pll = contexts s axis, pll_hw = sys_hw s\<rparr>"

definition set_axis :: "nat \<Rightarrow> ('d, 'f) pll_system \<Rightarrow> ('d, 'f) pll_world \<Rightarrow> ('d, 'f) pll_system" where
  "set_axis axis s w = s\<lparr>contexts := (contexts s)(axis := pll w), sys_hw := pll_hw w\<rparr>"

definition on_axis ::
  "nat \<Rightarrow> (('d, 'f) pll_world \<Rightarrow> ('d, 'f) pll_world option) \<Rightarrow> ('d, 'f) pll_system \<Rightarrow> ('d, 'f) pll_system option" where
  "on_axis axis f s = map_option (set_axis axis s) (f (axis_world axis s))"

definition dispatch_tune_pll_event ::
  "('d, 'f) floats \<Rightarrow> event_reads \<Rightarrow> event_reads \<Rightarrow> u32 \<Rightarrow> u32 \<Rightarrow> ('d, 'f) pll_system \<Rightarrow> ('d, 'f) pll_system option" where
  "dispatch_tune_pll_event F e0 e1 ready0 ready1 s =
     Option.bind (on_axis 0 (handle_fifo_event F 0 e0 ready0) s) (on_axis 1 (handle_fifo_event F 1 e1 ready1))"

definition start_both_axes ::
  "bool \<Rightarrow> (reg \<Rightarrow> u32) \<Rightarrow> (nat \<Rightarrow> fifo_read \<times> fifo_read) \<Rightarrow> ('d, 'f) pll_system \<Rightarrow> ('d, 'f) pll_system option" where
  "start_both_axes lmbf rd rs s =
     Option.bind (on_axis 0 (handle_pll_start 0 rd (fst (rs 0)) (snd (rs 0))) (s\<lparr>sys_hw := hw_write_pll_start True True (sys_hw s)\<rparr>))
       (cond (\<not> lmbf) (on_axis 1 (handle_pll_start 1 rd (fst (rs 1)) (snd (rs 1)))))"

definition stop_both_axes :: "('d, 'f) pll_system \<Rightarrow> ('d, 'f) pll_system" where
  "stop_both_axes s = s\<lparr>sys_hw := hw_write_pll_stop True True (sys_hw s)\<rparr>"

text \<open>\<^verbatim>\<open>publish_nco\<close>, \<^verbatim>\<open>publish_detector\<close>, \<^verbatim>\<open>publish_debug\<close>: the FIFOs and the enables of an axis; the rest of the context is zero.\<close>

definition publish_axis :: "u32 \<Rightarrow> u32 \<Rightarrow> (nat \<Rightarrow> fifo_read \<times> fifo_read) \<Rightarrow> nat \<Rightarrow> ('d, 'f) pll_system \<Rightarrow> ('d, 'f) pll_system option" where
  "publish_axis bunches len rs axis =
     on_axis axis (\<lambda>w.
       Option.bind (create_readout_fifo (offset_id axis) (unat len) (fst (rs axis)) (pll_hw w)) (\<lambda>v.
         let w = set_pll (\<lambda>p. p\<lparr>bunch_enables := replicate (unat bunches) False\<rparr>) (set_offset_world w v)
         in map_option (set_debug_world w) (create_readout_fifo (debug_id axis) (unat (2 * len)) (snd (rs axis)) (pll_hw w))))"

datatype pll_error = TunePllLengthTooSmall

definition initialise_tune_pll ::
  "bool \<Rightarrow> u32 \<Rightarrow> u32 \<Rightarrow> (nat \<Rightarrow> fifo_read \<times> fifo_read) \<Rightarrow> ('d, 'f) pll_system \<Rightarrow> (('d, 'f) pll_system \<times> pll_error option) option" where
  "initialise_tune_pll lmbf bunches len rs s =
     map_option (\<lambda>s. (s, if PLL_FIFO_SIZE < unat len then None else Some TunePllLengthTooSmall))
       (Option.bind (publish_axis bunches len rs 0 (stop_both_axes s)) (cond (\<not> lmbf) (publish_axis bunches len rs 1)))"

end
