(* ===== verification/Nco.thy ===== *)
theory Nco
  imports Hardware_Words Fixed_Point
begin

unbundle bit_operations_syntax

text \<open>
  The gain manager and the fixed frequency oscillators (\<^verbatim>\<open>epics/src/nco.c\<close>).  A gain manager keeps the
  gain of one oscillator in step with the four records it can be set by; its client is told of every
  change through a callback.  The state of the client is \<open>'s\<close>, the callback \<open>set_gain\<close>.
\<close>

section \<open>The gain manager\<close>

record 'd gain_manager =
  gm_enable :: bool
  gm_gain :: u32
  gain_enum :: u16
  gain_db :: 'd
  gain_scalar :: 'd

text \<open>The last three are the values of the records.  \<open>'s\<close> is handed on by every handler; a handler that refuses its value gives \<open>None\<close>.\<close>

type_synonym ('d, 's) managed = "'d gain_manager \<times> 's"

definition refresh_gain_scalar :: "'d arith \<Rightarrow> 'd gain_manager \<Rightarrow> 'd gain_manager" where
  "refresh_gain_scalar A m = m\<lparr>gain_scalar := d_ldexp A (d_int A (uint (gm_gain m))) (- 18)\<rparr>"

definition refresh_gain_db :: "'d arith \<Rightarrow> 'd gain_manager \<Rightarrow> 'd gain_manager" where
  "refresh_gain_db A m =
     m\<lparr>gain_db := d_mul A (d_int A 20) (d_log10 A (d_ldexp A (d_int A (uint (gm_gain m))) (- 18)))\<rparr>"

definition enum_of_gain :: "u32 \<Rightarrow> u16" where
  "enum_of_gain g =
     (let gain = drop_bit 2 (g + 2)
      in if 1 < gain
         then let bits = 31 - leading_zeros 32 gain in if gain = push_bit bits 1 then of_nat (16 - bits) else 15
         else 15)"

definition refresh_gain_enum :: "'d gain_manager \<Rightarrow> 'd gain_manager" where
  "refresh_gain_enum m = m\<lparr>gain_enum := enum_of_gain (gm_gain m)\<rparr>"

definition call_set_gain :: "(u32 \<Rightarrow> 's \<Rightarrow> 's) \<Rightarrow> ('d, 's) managed \<Rightarrow> ('d, 's) managed" where
  "call_set_gain set_gain = (\<lambda>(m, s). (m, set_gain (if gm_enable m then gm_gain m else 0) s))"

definition set_gain_enable :: "(u32 \<Rightarrow> 's \<Rightarrow> 's) \<Rightarrow> bool \<Rightarrow> ('d, 's) managed \<Rightarrow> ('d, 's) managed" where
  "set_gain_enable set_gain b = (\<lambda>(m, s). call_set_gain set_gain (m\<lparr>gm_enable := b\<rparr>, s))"

definition set_gain_scalar :: "'d arith \<Rightarrow> (u32 \<Rightarrow> 's \<Rightarrow> 's) \<Rightarrow> 'd \<Rightarrow> ('d, 's) managed \<Rightarrow> ('d, 's) managed" where
  "set_gain_scalar A set_gain v = (\<lambda>(m, s).
     let (g, v) = double_to_uint A v 18 18
     in call_set_gain set_gain (refresh_gain_enum (refresh_gain_db A (m\<lparr>gm_gain := g, gain_scalar := v\<rparr>)), s))"

definition set_gain_enum :: "'d arith \<Rightarrow> (u32 \<Rightarrow> 's \<Rightarrow> 's) \<Rightarrow> u16 \<Rightarrow> ('d, 's) managed \<Rightarrow> ('d, 's) managed option" where
  "set_gain_enum A set_gain v = (\<lambda>(m, s).
     if v < 15
     then let g = (if v = 0 then 0x3FFFF else drop_bit (unat v) 0x40000)
          in Some (call_set_gain set_gain (refresh_gain_scalar A (refresh_gain_db A (m\<lparr>gm_gain := g, gain_enum := v\<rparr>)), s))
     else None)"

definition set_gain_db :: "'d arith \<Rightarrow> (u32 \<Rightarrow> 's \<Rightarrow> 's) \<Rightarrow> 'd \<Rightarrow> ('d, 's) managed \<Rightarrow> ('d, 's) managed option" where
  "set_gain_db A set_gain db = (\<lambda>(m, s).
     let gain = d_exp10 A (d_div A db (d_int A 20))
     in if d_finite A gain
        then let (g, gain) = double_to_uint A gain 18 18;
                 m = m\<lparr>gm_gain := g, gain_db := d_mul A (d_int A 20) (d_log10 A gain)\<rparr>
             in Some (call_set_gain set_gain (refresh_gain_scalar A (refresh_gain_enum m), s))
        else None)"

definition create_gain_manager :: "'d arith \<Rightarrow> 'd gain_manager" where
  "create_gain_manager A = \<lparr>gm_enable = False, gm_gain = 0, gain_enum = 0, gain_db = d_int A 0, gain_scalar = d_int A 0\<rparr>"

section \<open>The fixed oscillators\<close>

definition set_nco_frequency :: "'d arith \<Rightarrow> u32 \<Rightarrow> nat \<Rightarrow> fixed_nco \<Rightarrow> 'd \<Rightarrow> hw \<Rightarrow> hw \<times> 'd" where
  "set_nco_frequency A bunches axis nco tune h =
     (let f = tune_to_freq A bunches tune in (hw_write_nco_frequency axis nco f h, freq_to_tune A bunches f))"

definition set_nco_tune_pll :: "nat \<Rightarrow> fixed_nco \<Rightarrow> bool \<Rightarrow> hw \<Rightarrow> hw" where
  "set_nco_tune_pll axis nco b = hw_write_nco_track_pll axis nco b"

definition set_nco_gain :: "nat \<Rightarrow> fixed_nco \<Rightarrow> u32 \<Rightarrow> hw \<Rightarrow> hw" where
  "set_nco_gain axis nco g = hw_write_nco_gain axis nco g"

section \<open>Requests\<close>

datatype 'd gain_request = GainEnable bool | GainScalar 'd | GainEnum u16 | GainDb 'd

text \<open>A refused value leaves everything as it was.\<close>

fun request :: "'d arith \<Rightarrow> (u32 \<Rightarrow> 's \<Rightarrow> 's) \<Rightarrow> 'd gain_request \<Rightarrow> ('d, 's) managed \<Rightarrow> ('d, 's) managed" where
  "request A set_gain (GainEnable b) ms = set_gain_enable set_gain b ms"
| "request A set_gain (GainScalar v) ms = set_gain_scalar A set_gain v ms"
| "request A set_gain (GainEnum v) ms = (case set_gain_enum A set_gain v ms of None \<Rightarrow> ms | Some ms' \<Rightarrow> ms')"
| "request A set_gain (GainDb v) ms = (case set_gain_db A set_gain v ms of None \<Rightarrow> ms | Some ms' \<Rightarrow> ms')"

section \<open>The enumeration\<close>

lemma unat_rounded: "g < 0x40000 \<Longrightarrow> unat (drop_bit 2 (g + 2)) = (unat g + 2) div 4" for g :: u32
proof -
  assume "g < 0x40000"
  then have "unat g < 0x40000" by (simp add: word_less_nat_alt)
  then have "unat (g + 2) = unat g + 2" by (simp add: unat_word_ariths)
  then show ?thesis by (subst unat_drop_bit_eq) (simp add: drop_bit_eq_div)
qed

lemma enum_parts:
  assumes "g < 0x40000" "1 < (unat g + 2) div 4"
  obtains k where "2 ^ k \<le> (unat g + 2) div 4" "(unat g + 2) div 4 < 2 ^ Suc k" "k \<le> 16"
    "enum_of_gain g = (if (unat g + 2) div 4 = 2 ^ k then of_nat (16 - k) else 15)"
proof -
  define q where "q = drop_bit 2 (g + 2)"
  have g: "unat g < 0x40000" using assms(1) by (simp add: word_less_nat_alt)
  have q: "unat q = (unat g + 2) div 4" using unat_rounded [OF assms(1)] by (simp only: q_def)
  have q1: "1 < q" using assms(2) q by (simp add: word_less_nat_alt)
  define z where "z = leading_zeros 32 q"
  have "q \<noteq> 0" using q1 by auto
  then have z: "z < 32" "unat q < 2 ^ (32 - z)" "2 ^ (32 - z - 1) \<le> unat q"
    using leading_zeros_bounds [of q 32] unsigned_less [of q, where ?'a = nat] by (simp_all add: z_def)
  define k where "k = 31 - z"
  have k: "32 - z = Suc k" "32 - z - 1 = k" using z(1) by (simp_all add: k_def)
  have b: "2 ^ k \<le> unat q" "unat q < 2 ^ Suc k" using z(2,3) unfolding k by simp_all
  have k16: "k \<le> 16"
  proof (rule ccontr)
    assume "\<not> k \<le> 16"
    then have "(2::nat) ^ 17 \<le> 2 ^ k" by (intro power_increasing) simp_all
    moreover have "unat q \<le> 2 ^ 16" using g q by simp
    ultimately show False using b(1) by simp
  qed
  have "unat (push_bit k 1 :: u32) = 2 ^ k"
  proof -
    have "(2::nat) ^ k \<le> 2 ^ 16" using k16 by (intro power_increasing) simp_all
    then have "take_bit 32 (push_bit k 1) = (2::nat) ^ k" using k16 by (simp add: take_bit_nat_eq_self push_bit_eq_mult)
    then show ?thesis using k16 by (subst unsigned_push_bit_eq) simp
  qed
  then have "q = push_bit k 1 \<longleftrightarrow> unat q = 2 ^ k" by (metis word_unat_eq_iff)
  then have "enum_of_gain g = (if unat q = 2 ^ k then of_nat (16 - k) else 15)"
    using q1 by (simp add: enum_of_gain_def k_def z_def flip: q_def)
  then show thesis using that [of k] b k16 q by simp
qed

lemma enum_of_gain_iff:
  assumes "g < 0x40000" "v < 15"
  shows "enum_of_gain g = of_nat v \<longleftrightarrow> 2 ^ (18 - v) \<le> unat g + 2 \<and> unat g < 2 ^ (18 - v) + 2"
proof -
  have p: "(2::nat) ^ (18 - v) = 4 * 2 ^ (16 - v)"
  proof -
    have "18 - v = 2 + (16 - v)" using assms(2) by simp
    then show ?thesis by (simp only: power_add) simp
  qed
  have range: "2 ^ (18 - v) \<le> unat g + 2 \<and> unat g < 2 ^ (18 - v) + 2 \<longleftrightarrow> (unat g + 2) div 4 = 2 ^ (16 - v)"
    unfolding p by linarith
  have u: "(of_nat i :: u16) = of_nat j \<longleftrightarrow> i = j" if "i < 100" "j < 100" for i j :: nat
    using that by (simp add: word_of_nat_eq_iff take_bit_nat_eq_self)
  show ?thesis unfolding range
  proof (cases "1 < (unat g + 2) div 4")
    case True
    obtain k where k: "2 ^ k \<le> (unat g + 2) div 4" "(unat g + 2) div 4 < 2 ^ Suc k" "k \<le> 16"
        "enum_of_gain g = (if (unat g + 2) div 4 = 2 ^ k then of_nat (16 - k) else 15)" using enum_parts [OF assms(1) True] .
    show "enum_of_gain g = of_nat v \<longleftrightarrow> (unat g + 2) div 4 = 2 ^ (16 - v)"
    proof (cases "(unat g + 2) div 4 = 2 ^ k")
      case True
      have "enum_of_gain g = of_nat v \<longleftrightarrow> 16 - k = v" using k(4) True u [of "16 - k" v] assms(2) by simp
      also have "\<dots> \<longleftrightarrow> k = 16 - v" using k(3) assms(2) by linarith
      finally show ?thesis using True by simp
    next
      case False
      have "enum_of_gain g \<noteq> of_nat v" using k(4) False u [of 15 v] assms(2) by simp
      moreover have "(unat g + 2) div 4 \<noteq> 2 ^ (16 - v)"
      proof
        assume e: "(unat g + 2) div 4 = 2 ^ (16 - v)"
        then have "(2::nat) ^ k \<le> 2 ^ (16 - v)" "(2::nat) ^ (16 - v) < 2 ^ Suc k" using k(1,2) by simp_all
        then have "k \<le> 16 - v" "16 - v < Suc k" by (metis one_less_numeral_iff power_increasing_iff power_strict_increasing_iff semiring_norm(76))+
        then have "k = 16 - v" by simp
        then show False using False e by simp
      qed
      ultimately show ?thesis by simp
    qed
  next
    case False
    then have "\<not> 1 < drop_bit 2 (g + 2)"
      using unat_rounded [OF assms(1)] by (simp only: word_less_nat_alt) simp
    then have "enum_of_gain g = 15" by (simp add: enum_of_gain_def Let_def)
    then have "enum_of_gain g \<noteq> of_nat v" using u [of 15 v] assms(2) by simp
    moreover have "(2::nat) ^ 2 \<le> 2 ^ (16 - v)" using assms(2) by (intro power_increasing) simp_all
    ultimately show "enum_of_gain g = of_nat v \<longleftrightarrow> (unat g + 2) div 4 = 2 ^ (16 - v)" using False by auto
  qed
qed

section \<open>The records and the hardware stay in step\<close>

text \<open>What a client owes: the gain it was last told is the one in force, to 18 bits.\<close>

locale gain_client =
  fixes set_gain :: "u32 \<Rightarrow> 's \<Rightarrow> 's" and gain_of :: "'s \<Rightarrow> u32"
  assumes gain_of_set: "gain_of (set_gain g s) = take_bit 18 g"

definition gain_in_force :: "'d gain_manager \<Rightarrow> u32" where
  "gain_in_force m = (if gm_enable m then gm_gain m else 0)"

definition records_agree :: "'d arith \<Rightarrow> 'd gain_manager \<Rightarrow> bool" where
  "records_agree A m \<longleftrightarrow> gain_scalar m = d_ldexp A (d_int A (uint (gm_gain m))) (- 18) \<and>
     gain_db m = d_mul A (d_int A 20) (d_log10 A (d_ldexp A (d_int A (uint (gm_gain m))) (- 18))) \<and>
     gain_enum m = enum_of_gain (gm_gain m)"

fun sets_gain :: "'d gain_request \<Rightarrow> bool" where
  "sets_gain (GainEnable b) \<longleftrightarrow> False"
| "sets_gain (GainEnum v) \<longleftrightarrow> v < 15"
| "sets_gain (GainScalar v) \<longleftrightarrow> True"
| "sets_gain (GainDb v) \<longleftrightarrow> True"

lemma enum_gain:
  assumes "v < 15"
  shows "(if v = 0 then 0x3FFFF else drop_bit (unat v) 0x40000) < (0x40000 :: u32)"
    "enum_of_gain (if v = 0 then 0x3FFFF else drop_bit (unat v) 0x40000) = v"
proof -
  let ?g = "if v = 0 then 0x3FFFF else drop_bit (unat v) 0x40000 :: u32"
  define n where "n = unat v"
  have n: "n < 15" "v = of_nat n" using assms by (simp_all add: n_def word_less_nat_alt)
  have v0: "v = 0 \<longleftrightarrow> n = 0" by (simp add: n_def unat_eq_zero)
  have d: "unat (drop_bit n (0x40000 :: u32)) = 2 ^ (18 - n)"
  proof -
    have "(2::nat) ^ (18 - n) = 2 ^ 18 div 2 ^ n" using n(1) by (intro power_diff) simp_all
    then show ?thesis by (subst unat_drop_bit_eq) (simp add: drop_bit_eq_div)
  qed
  have ug: "unat ?g = (if n = 0 then 0x3FFFF else 2 ^ (18 - n))" using d v0 by (simp flip: n_def)
  have "n \<noteq> 0 \<Longrightarrow> (2::nat) ^ (18 - n) \<le> 2 ^ 17" by (intro power_increasing) simp_all
  then have "unat ?g < 0x40000" using ug by auto
  then show lt: "?g < 0x40000" by (simp only: word_less_nat_alt) simp
  have "2 ^ (18 - n) \<le> unat ?g + 2 \<and> unat ?g < 2 ^ (18 - n) + 2" unfolding ug by simp
  then show "enum_of_gain ?g = v" using enum_of_gain_iff [OF lt n(1)] n(2) by simp
qed

lemma uint_clipped_gain: "0 \<le> e \<Longrightarrow> e \<le> 1 / 2 \<Longrightarrow> double_to_uint (exact e) v 18 18 = (g, v') \<Longrightarrow>
    g < 0x40000 \<and> v' = of_int (uint g) * 2 powi (- 18)"
  using double_to_uint_exact [of e 18 v 18 g v'] by (simp add: word_less_def)

lemmas manager_defs = refresh_gain_scalar_def refresh_gain_db_def refresh_gain_enum_def call_set_gain_def

lemma request_manager:
  fixes m :: "real gain_manager"
  assumes "0 \<le> e" "e \<le> 1 / 2" "gm_gain m < 0x40000" "request (exact e) set_gain q (m, s) = (m', s')"
  shows "gm_gain m' < 0x40000 \<and> (records_agree (exact e) m \<or> sets_gain q \<longrightarrow> records_agree (exact e) m') \<and>
    (m' = m \<and> s' = s \<or> s' = set_gain (gain_in_force m') s)"
proof (cases q)
  case (GainEnable b)
  then show ?thesis using assms(3,4)
    by (auto simp: set_gain_enable_def manager_defs records_agree_def gain_in_force_def)
next
  case (GainScalar v)
  obtain g v' where gv: "double_to_uint (exact e) v 18 18 = (g, v')" by fastforce
  then show ?thesis using assms(4) GainScalar uint_clipped_gain [OF assms(1,2) gv]
    by (auto simp: set_gain_scalar_def manager_defs records_agree_def gain_in_force_def)
next
  case (GainEnum v)
  show ?thesis
  proof (cases "v < 15")
    case True
    then show ?thesis using assms(4) GainEnum enum_gain [OF True]
      by (auto simp: set_gain_enum_def manager_defs records_agree_def gain_in_force_def Let_def simp del: drop_bit_numeral_bit0 drop_bit_of_Suc_0)
  qed (use assms(3,4) GainEnum in \<open>auto simp: set_gain_enum_def\<close>)
next
  case (GainDb v)
  obtain g v' where gv: "double_to_uint (exact e) (10 powr (v / 20)) 18 18 = (g, v')" by fastforce
  then show ?thesis using assms(4) GainDb uint_clipped_gain [OF assms(1,2) gv]
    by (auto simp: set_gain_db_def manager_defs records_agree_def gain_in_force_def Let_def)
qed

lemma take_18: "g < 0x40000 \<Longrightarrow> take_bit 18 g = g" for g :: u32
  by (simp add: word_unat_eq_iff unsigned_take_bit_eq take_bit_nat_eq_self word_less_nat_alt)

context gain_client
begin

lemma in_step:
  fixes m :: "real gain_manager"
  assumes "0 \<le> e" "e \<le> 1 / 2" "gm_gain m < 0x40000" "gain_of s = gain_in_force m"
    "fold (request (exact e) set_gain) qs (m, s) = (m', s')"
  shows "gain_of s' = gain_in_force m' \<and> (records_agree (exact e) m \<or> list_ex sets_gain qs \<longrightarrow> records_agree (exact e) m') \<and>
    gm_gain m' < 0x40000"
  using assms(3-5)
proof (induction qs arbitrary: m s)
  case (Cons q qs)
  obtain m1 s1 where q: "request (exact e) set_gain q (m, s) = (m1, s1)" by fastforce
  note r = request_manager [OF assms(1,2) Cons.prems(1) q]
  have "gain_of s1 = gain_in_force m1"
  proof (cases "m1 = m \<and> s1 = s")
    case False
    then have "gain_of s1 = take_bit 18 (gain_in_force m1)" using r gain_of_set by metis
    moreover have "take_bit 18 (gain_in_force m1) = gain_in_force m1"
      using r by (simp add: gain_in_force_def take_18)
    ultimately show ?thesis by simp
  qed (use Cons.prems(2) in simp)
  then show ?case using Cons.IH [of m1 s1] r Cons.prems(3) q by auto
qed simp

end

text \<open>The fixed oscillators keep their contract: the gain is a field of their register.\<close>

definition nco_gain_of :: "nat \<Rightarrow> fixed_nco \<Rightarrow> hw \<Rightarrow> u32" where
  "nco_gain_of axis nco h = get_field 0 18 (reg_value h (DSP axis (NCO (NCO_GAIN nco))))"

lemma reg_value_mirror: "reg_value (WRITE_DSP_MIRROR a r off w v h) (DSP a r) = put_field off w v (mirror h (DSP a r))"
  by (simp add: WRITE_DSP_MIRROR_def write_mirror_def)

lemma nco_gain_of_set: "nco_gain_of axis nco (set_nco_gain axis nco g h) = take_bit 18 g"
  unfolding nco_gain_of_def set_nco_gain_def hw_write_nco_gain_def reg_value_mirror
  by (subst get_put_same, simp, rule take_bit_masked)

interpretation fixed_gain: gain_client "set_nco_gain axis nco" "nco_gain_of axis nco" for axis nco
  by unfold_locales (rule nco_gain_of_set)

text \<open>C23 The gain of an oscillator follows its records: after any sequence of requests through the four records the gain in the
  register is the one of the manager, or zero when disabled; and once a gain has been set, the scalar, the decibels
  and the choice shown are those of that gain, where the choice is the power of two within two units, if any.\<close>

theorem gain_records_in_step:
  assumes "0 \<le> e" "e \<le> 1 / 2" "nco_gain_of axis nco h = 0"
    "fold (request (exact e) (set_nco_gain axis nco)) qs (create_gain_manager (exact e), h) = (m, h')"
  shows "nco_gain_of axis nco h' = (if gm_enable m then gm_gain m else 0) \<and>
    (list_ex sets_gain qs \<longrightarrow> gain_scalar m = of_int (uint (gm_gain m)) * 2 powi (- 18) \<and>
      gain_db m = 20 * log 10 (gain_scalar m) \<and> (\<forall>v < 15. gain_enum m = of_nat v \<longleftrightarrow>
        2 ^ (18 - v) \<le> unat (gm_gain m) + 2 \<and> unat (gm_gain m) < 2 ^ (18 - v) + 2))"
proof -
  let ?m = "create_gain_manager (exact e)"
  have m: "gm_gain ?m < 0x40000" "nco_gain_of axis nco h = gain_in_force ?m"
    using assms(3) by (simp_all add: create_gain_manager_def gain_in_force_def)
  note st = fixed_gain.in_step [OF assms(1,2) m assms(4)]
  have "\<forall>v < 15. enum_of_gain (gm_gain m) = of_nat v \<longleftrightarrow> 2 ^ (18 - v) \<le> unat (gm_gain m) + 2 \<and> unat (gm_gain m) < 2 ^ (18 - v) + 2"
    using st enum_of_gain_iff by blast
  note shown = this
  have "list_ex sets_gain qs \<Longrightarrow> records_agree (exact e) m" using st by blast
  then have set: "list_ex sets_gain qs \<Longrightarrow> gain_scalar m = of_int (uint (gm_gain m)) * 2 powi (- 18) \<and>
      gain_db m = 20 * log 10 (gain_scalar m) \<and> gain_enum m = enum_of_gain (gm_gain m)"
    unfolding records_agree_def exact_simps of_int_numeral by metis
  show ?thesis
  proof (intro conjI impI)
    show "nco_gain_of axis nco h' = (if gm_enable m then gm_gain m else 0)" using st by (simp only: gain_in_force_def)
    assume q: "list_ex sets_gain qs"
    show "gain_scalar m = of_int (uint (gm_gain m)) * 2 powi (- 18)" "gain_db m = 20 * log 10 (gain_scalar m)"
      using set [OF q] by iprover+
    have "gain_enum m = enum_of_gain (gm_gain m)" using set [OF q] by iprover
    then show "\<forall>v < 15. gain_enum m = of_nat v \<longleftrightarrow> 2 ^ (18 - v) \<le> unat (gm_gain m) + 2 \<and> unat (gm_gain m) < 2 ^ (18 - v) + 2"
      using shown by (simp only:)
  qed
qed

theorem gain_records_in_step_witness:
  "let (m, h) = fold (request (exact 0) (set_nco_gain 0 FIXED_NCO1)) [GainEnum 3, GainEnable True] (create_gain_manager (exact 0), initial_hw)
    in nco_gain_of 0 FIXED_NCO1 h = (if gm_enable m then gm_gain m else 0) \<and> gain_scalar m = of_int (uint (gm_gain m)) * 2 powi (- 18)"
proof -
  obtain m h where f: "fold (request (exact 0) (set_nco_gain 0 FIXED_NCO1)) [GainEnum 3, GainEnable True]
      (create_gain_manager (exact 0), initial_hw) = (m, h)" by fastforce
  have "nco_gain_of 0 FIXED_NCO1 initial_hw = 0" by (simp add: nco_gain_of_def reg_value_def initial_hw_def)
  from gain_records_in_step [OF _ _ this f] show ?thesis unfolding f by simp
qed

end
