(* ===== verification/Tune_Pll_Properties.thy ===== *)
theory Tune_Pll_Properties
  imports Tune_Pll Nco Hardware_Refinement
begin

unbundle bit_operations_syntax

text \<open>
  What the control of the tune PLL does: its FIFOs lose nothing whatever the sequence of commands and
  events, what a stop event does, the phase written to the hardware is exact, and the compensation of the
  detector readings is a rotation.
\<close>

section \<open>All operations\<close>

datatype 'd axis_op =
    StartFeedback "reg \<Rightarrow> u32" fifo_read fifo_read | StopFeedback | ResetOffset fifo_read
  | EnableDebug bool fifo_read fifo_read | CapturedDebug bool | ReadOffsets
  | WriteNco 'd | UpdateNco "reg \<Rightarrow> u32" | NcoGain u32 | WriteKi 'd | WriteKp 'd | MinMagnitude 'd | MaxOffset 'd | TargetPhase 'd
  | InputSelect u16 | OutputScale u16 | Dwell u32 | Blanking bool | BunchEnables "u8 list" | Poll "reg \<Rightarrow> u32"

fun axis_apply ::
  "('d, 'f) floats \<Rightarrow> hardware_delays \<Rightarrow> u32 \<Rightarrow> u32 \<Rightarrow> nat \<Rightarrow> 'd axis_op \<Rightarrow> ('d, 'f) pll_world \<Rightarrow> ('d, 'f) pll_world option" where
  "axis_apply F dl b dec a (StartFeedback rd r1 r2) w = start_feedback a rd r1 r2 w"
| "axis_apply F dl b dec a StopFeedback w = Some (stop_feedback a w)"
| "axis_apply F dl b dec a (ResetOffset r) w = reset_offset_fifo a r w"
| "axis_apply F dl b dec a (EnableDebug v r1 r2) w = enable_debug_fifo F a v r1 r2 w"
| "axis_apply F dl b dec a (CapturedDebug v) w = Some (set_captured_debug a v w)"
| "axis_apply F dl b dec a ReadOffsets w = read_offset_waveform F b w"
| "axis_apply F dl b dec a (WriteNco t) w = Some (fst (write_nco_frequency (dbl F) b a t w))"
| "axis_apply F dl b dec a (UpdateNco rd) w = Some (fst (update_nco_frequency (dbl F) b a rd w))"
| "axis_apply F dl b dec a (NcoGain g) w = Some (write_nco_gain a g w)"
| "axis_apply F dl b dec a (WriteKi v) w = Some (write_ki (dbl F) a v w)"
| "axis_apply F dl b dec a (WriteKp v) w = Some (write_kp (dbl F) a v w)"
| "axis_apply F dl b dec a (MinMagnitude v) w = Some (write_min_magnitude (dbl F) a v w)"
| "axis_apply F dl b dec a (MaxOffset v) w = Some (fst (write_max_offset (dbl F) b a v w))"
| "axis_apply F dl b dec a (TargetPhase v) w = Some (fst (write_target_phase (dbl F) a v w))"
| "axis_apply F dl b dec a (InputSelect s) w = write_det_input_select dl b dec a s w"
| "axis_apply F dl b dec a (OutputScale s) w = Some (write_det_output_scale a s w)"
| "axis_apply F dl b dec a (Dwell d) w = Some (write_det_dwell a d w)"
| "axis_apply F dl b dec a (Blanking v) w = Some (write_det_blanking a v w)"
| "axis_apply F dl b dec a (BunchEnables es) w = map_option fst (write_bunch_enables dl b a es w)"
| "axis_apply F dl b dec a (Poll rd) w = Some (read_filtered_readbacks F a rd w)"

datatype 'd pll_op =
    OnAxis nat "'d axis_op"
  | StartBoth "reg \<Rightarrow> u32" "nat \<Rightarrow> fifo_read \<times> fifo_read"
  | StopBoth
  | PllEvent event_reads event_reads u32 u32

definition axes :: "bool \<Rightarrow> nat set" where
  "axes lmbf = (if lmbf then {0} else {0, 1})"

text \<open>Operations of an axis that was not set up do not occur: its records do not exist and its interrupts are not enabled.\<close>

fun occurs :: "bool \<Rightarrow> 'd pll_op \<Rightarrow> bool" where
  "occurs lmbf (OnAxis a op) \<longleftrightarrow> a \<in> axes lmbf"
| "occurs lmbf (PllEvent e0 e1 m0 m1) \<longleftrightarrow> lmbf \<longrightarrow> m1 = 0"
| "occurs lmbf StopBoth \<longleftrightarrow> True"
| "occurs lmbf (StartBoth rd rs) \<longleftrightarrow> True"

fun pll_apply ::
  "('d, 'f) floats \<Rightarrow> hardware_delays \<Rightarrow> u32 \<Rightarrow> u32 \<Rightarrow> bool \<Rightarrow> 'd pll_op \<Rightarrow> ('d, 'f) pll_system \<Rightarrow> ('d, 'f) pll_system option" where
  "pll_apply F dl b dec lmbf (OnAxis a op) s = on_axis a (axis_apply F dl b dec a op) s"
| "pll_apply F dl b dec lmbf (StartBoth rd rs) s = start_both_axes lmbf rd rs s"
| "pll_apply F dl b dec lmbf StopBoth s = Some (stop_both_axes s)"
| "pll_apply F dl b dec lmbf (PllEvent e0 e1 m0 m1) s = dispatch_tune_pll_event F e0 e1 m0 m1 s"

fun pll_run ::
  "('d, 'f) floats \<Rightarrow> hardware_delays \<Rightarrow> u32 \<Rightarrow> u32 \<Rightarrow> bool \<Rightarrow> 'd pll_op list \<Rightarrow> ('d, 'f) pll_system \<Rightarrow> ('d, 'f) pll_system option" where
  "pll_run F dl b dec lmbf [] s = Some s"
| "pll_run F dl b dec lmbf (op # ops) s = Option.bind (pll_apply F dl b dec lmbf op s) (pll_run F dl b dec lmbf ops)"

section \<open>The FIFOs of every axis stay sound\<close>

definition fifos_ok :: "('d, 'f) pll_context \<Rightarrow> bool" where
  "fifos_ok p \<longleftrightarrow> sizes_ok (offset_fifo p) \<and> taken (offset_log p) = emitted (offset_log p) @ in_hand (offset_fifo p) \<and>
     sizes_ok (debug_fifo p) \<and> taken (debug_log p) = emitted (debug_log p) @ in_hand (debug_fifo p)"

lemma fifos_ok_worlds: "fifos_ok (pll w) \<longleftrightarrow> fifo_ok (offset_world w) \<and> fifo_ok (debug_world w)"
  by (auto simp: fifos_ok_def fifo_ok_def offset_world_def debug_world_def)

lemma on_offset_ok:
  assumes "fifos_ok (pll w)" "on_offset a op w = Some w'"
  shows "fifos_ok (pll w')"
proof -
  obtain v where v: "fifo_apply (offset_id a) op (offset_world w) = Some v" "w' = set_offset_world w v"
    using assms(2) by (auto simp: on_offset_def)
  have "fifo_ok v" using fifo_apply_ok [OF _ v(1)] assms(1) by (simp add: fifos_ok_worlds)
  then show ?thesis using assms(1) by (simp add: v(2) fifos_ok_def fifo_ok_def set_offset_world_def)
qed

text \<open>Every other operation leaves both FIFOs alone.\<close>

definition same_fifos :: "('d, 'f) pll_world \<Rightarrow> ('d, 'f) pll_world \<Rightarrow> bool" where
  "same_fifos w w' \<longleftrightarrow> offset_fifo (pll w') = offset_fifo (pll w) \<and> offset_log (pll w') = offset_log (pll w) \<and>
     debug_fifo (pll w') = debug_fifo (pll w) \<and> debug_log (pll w') = debug_log (pll w)"

lemma same_fifos_ok: "fifos_ok (pll w) \<Longrightarrow> same_fifos w w' \<Longrightarrow> fifos_ok (pll w')"
  by (simp add: fifos_ok_def same_fifos_def)

lemma process_debug_same: "process_debug_fifo F w = Some w' \<Longrightarrow> same_fifos w w'"
  by (auto simp: process_debug_fifo_def same_fifos_def Let_def)

lemma on_debug_ok:
  assumes "fifos_ok (pll w)" "on_debug F a op w = Some w'"
  shows "fifos_ok (pll w')"
proof -
  obtain v where v: "fifo_apply (debug_id a) op (debug_world w) = Some v"
    and w': "(if length (filter is_emitted (debug_log (pll w))) < length (filter is_emitted (fifo_log v))
          then process_debug_fifo F (set_debug_world w v) else Some (set_debug_world w v)) = Some w'"
    using assms(2) by (auto simp: on_debug_def bind_eq_Some_conv Let_def)
  have "fifo_ok v" using fifo_apply_ok [OF _ v] assms(1) by (simp add: fifos_ok_worlds)
  then have ok: "fifos_ok (pll (set_debug_world w v))" using assms(1) by (simp add: fifos_ok_def fifo_ok_def set_debug_world_def)
  then show ?thesis using w' by (auto split: if_splits intro: same_fifos_ok [OF ok] process_debug_same)
qed

lemma same_fifos_simps [simp]:
  "same_fifos w (update_pll_status a rd w)" "same_fifos w (set_hw g w)" "same_fifos w (trigger_offset_pv w)"
  "fifos_ok (pll (trigger_offset_pv w)) = fifos_ok (pll w)" "fifos_ok (pll (set_hw g w)) = fifos_ok (pll w)"
  "fifos_ok (pll (update_pll_status a rd w)) = fifos_ok (pll w)"
  by (simp_all add: same_fifos_def update_pll_status_def trigger_offset_pv_def fifos_ok_def Let_def)

lemma start_feedback_ok: "fifos_ok (pll w) \<Longrightarrow> start_feedback a rd r1 r2 w = Some w' \<Longrightarrow> fifos_ok (pll w')"
  unfolding start_feedback_def handle_pll_start_def by (rule on_offset_ok) simp_all

lemma handle_pll_stop_ok: "fifos_ok (pll w) \<Longrightarrow> handle_pll_stop a rd r w = Some w' \<Longrightarrow> fifos_ok (pll w')"
  by (auto simp: handle_pll_stop_def Let_def split: if_splits dest: on_offset_ok [rotated])

lemma setting_same_fifos:
  assumes "axis_apply F dl b dec a op w = Some w'" "\<nexists>rd r1 r2. op = StartFeedback rd r1 r2" "\<nexists>r. op = ResetOffset r"
    "\<nexists>v r1 r2. op = EnableDebug v r1 r2"
  shows "same_fifos w w'"
  using assms
  by (cases op) (auto simp: same_fifos_def stop_feedback_def set_captured_debug_def read_offset_waveform_def
      write_nco_frequency_def update_nco_frequency_def write_nco_gain_def write_ki_def write_kp_def write_min_magnitude_def
      write_max_offset_def write_target_phase_def write_det_input_select_def write_det_output_scale_def write_det_dwell_def
      write_det_blanking_def write_bunch_enables_def read_filtered_readbacks_def update_target_phase_def trigger_offset_pv_def
      Let_def split: option.splits prod.splits if_splits)

lemma axis_apply_ok:
  assumes "fifos_ok (pll w)" "axis_apply F dl b dec a op w = Some w'"
  shows "fifos_ok (pll w')"
proof (cases op)
  case (StartFeedback rd r1 r2)
  then show ?thesis using start_feedback_ok [OF assms(1)] assms(2) by simp
next
  case (ResetOffset r)
  then show ?thesis using assms by (auto simp: reset_offset_fifo_def intro: on_offset_ok)
next
  case (EnableDebug v r1 r2)
  then show ?thesis using assms by (auto simp: enable_debug_fifo_def intro: on_debug_ok)
qed (rule same_fifos_ok [OF assms(1) setting_same_fifos [OF assms(2)]]; simp)+

lemma cond_ok:
  "fifos_ok (pll w) \<Longrightarrow> cond b f w = Some w' \<Longrightarrow> (fifos_ok (pll w) \<Longrightarrow> f w = Some w' \<Longrightarrow> fifos_ok (pll w')) \<Longrightarrow> fifos_ok (pll w')"
  by (auto simp: cond_def split: if_splits)

lemma handle_fifo_event_ok:
  assumes "fifos_ok (pll w)" "handle_fifo_event F a e m w = Some w'"
  shows "fifos_ok (pll w')"
proof -
  obtain w1 w2 where "cond (m AND 1 \<noteq> 0) (on_offset a (FifoReady (read_offset e))) w = Some w1"
    "cond (m AND 2 \<noteq> 0) (on_debug F a (FifoReady (read_debug e))) w1 = Some w2"
    "cond (m AND 4 \<noteq> 0) (handle_pll_stop a (read_regs e) (read_stop e)) w2 = Some w'"
    using assms(2) by (auto simp: handle_fifo_event_def bind_eq_Some_conv)
  note w = this
  have "fifos_ok (pll w1)" using assms(1) w(1) on_offset_ok by (rule cond_ok)
  then have "fifos_ok (pll w2)" using w(2) on_debug_ok by (rule cond_ok)
  then show ?thesis using w(3) handle_pll_stop_ok by (rule cond_ok)
qed

definition all_fifos_ok :: "bool \<Rightarrow> ('d, 'f) pll_system \<Rightarrow> bool" where
  "all_fifos_ok lmbf s \<longleftrightarrow> (\<forall>a \<in> axes lmbf. fifos_ok (contexts s a))"

lemma on_axis_ok:
  assumes "all_fifos_ok lmbf s" "on_axis a f s = Some s'" "\<And>w w'. fifos_ok (pll w) \<Longrightarrow> f w = Some w' \<Longrightarrow> fifos_ok (pll w')" "a \<in> axes lmbf"
  shows "all_fifos_ok lmbf s'"
proof -
  obtain w where w: "f (axis_world a s) = Some w" "s' = set_axis a s w" using assms(2) by (auto simp: on_axis_def)
  have "fifos_ok (pll w)" using assms(3) [OF _ w(1)] assms(1,4) by (simp add: all_fifos_ok_def axis_world_def)
  then show ?thesis using assms(1) by (simp add: w(2) all_fifos_ok_def set_axis_def)
qed

lemma idle_axis: "on_axis a (handle_fifo_event F a e 0) s = Some s"
  by (simp add: on_axis_def handle_fifo_event_def cond_def set_axis_def axis_world_def)

lemma pll_apply_ok:
  assumes "all_fifos_ok lmbf s" "occurs lmbf op" "pll_apply F dl b dec lmbf op s = Some s'"
  shows "all_fifos_ok lmbf s'"
proof (cases op)
  case (OnAxis a op')
  then show ?thesis using assms by (auto intro: on_axis_ok axis_apply_ok)
next
  case (StartBoth rd rs)
  let ?h = "s\<lparr>sys_hw := hw_write_pll_start True True (sys_hw s)\<rparr>"
  have start: "fifos_ok (pll w) \<Longrightarrow> handle_pll_start a rd r1 r2 w = Some w' \<Longrightarrow> fifos_ok (pll w')"
    for a r1 r2 and w w' :: "('a, 'b) pll_world" unfolding handle_pll_start_def by (rule on_offset_ok) simp_all
  obtain s1 where s1: "on_axis 0 (handle_pll_start 0 rd (fst (rs 0)) (snd (rs 0))) ?h = Some s1"
    "cond (\<not> lmbf) (on_axis 1 (handle_pll_start 1 rd (fst (rs 1)) (snd (rs 1)))) s1 = Some s'"
    using assms(3) StartBoth by (auto simp: start_both_axes_def bind_eq_Some_conv)
  have "all_fifos_ok lmbf ?h" using assms(1) by (simp add: all_fifos_ok_def)
  then have "all_fifos_ok lmbf s1" using s1(1) by (rule on_axis_ok) (auto simp: axes_def intro: start)
  then show ?thesis using s1(2) by (cases lmbf) (auto simp: cond_def axes_def intro: on_axis_ok start)
next
  case StopBoth
  then show ?thesis using assms by (auto simp: stop_both_axes_def all_fifos_ok_def)
next
  case (PllEvent e0 e1 m0 m1)
  obtain s1 where s1: "on_axis 0 (handle_fifo_event F 0 e0 m0) s = Some s1" "on_axis 1 (handle_fifo_event F 1 e1 m1) s1 = Some s'"
    using assms(3) PllEvent by (auto simp: dispatch_tune_pll_event_def bind_eq_Some_conv)
  have ok1: "all_fifos_ok lmbf s1" using assms(1) s1(1) by (rule on_axis_ok) (auto simp: axes_def intro: handle_fifo_event_ok)
  show ?thesis
  proof (cases lmbf)
    case True
    then show ?thesis using ok1 s1(2) assms(2) PllEvent by (simp add: idle_axis)
  next
    case False
    then show ?thesis using ok1 s1(2) by (auto simp: axes_def intro: on_axis_ok handle_fifo_event_ok)
  qed
qed

lemma pll_run_ok:
  "all_fifos_ok lmbf s \<Longrightarrow> list_all (occurs lmbf) ops \<Longrightarrow> pll_run F dl b dec lmbf ops s = Some s' \<Longrightarrow> all_fifos_ok lmbf s'"
  by (induction ops arbitrary: s) (auto simp: bind_eq_Some_conv intro: pll_apply_ok)

lemma publish_axis_ok:
  assumes "publish_axis bunches len rs a s = Some s'" "PLL_FIFO_SIZE < unat len" "len < 0x80000000"
  shows "fifos_ok (contexts s' a) \<and> (\<forall>b. b \<noteq> a \<longrightarrow> contexts s' b = contexts s b)"
proof -
  have dbl: "PLL_FIFO_SIZE \<le> unat (2 * len)"
  proof -
    have "2 * unat len < 2 ^ 32" using assms(3) by (simp add: word_less_nat_alt)
    then have "unat (2 * len) = 2 * unat len" by (simp add: unat_word_ariths)
    then show ?thesis using assms(2) by simp
  qed
  obtain w where w: "s' = set_axis a s w" and
    f: "Option.bind (create_readout_fifo (offset_id a) (unat len) (fst (rs a)) (pll_hw (axis_world a s))) (\<lambda>v.
         let w = set_pll (\<lambda>p. p\<lparr>bunch_enables := replicate (unat bunches) False\<rparr>) (set_offset_world (axis_world a s) v)
         in map_option (set_debug_world w) (create_readout_fifo (debug_id a) (unat (2 * len)) (snd (rs a)) (pll_hw w))) = Some w"
    using assms(1) by (auto simp: publish_axis_def on_axis_def)
  obtain v u where v: "create_readout_fifo (offset_id a) (unat len) (fst (rs a)) (pll_hw (axis_world a s)) = Some v"
    and u: "create_readout_fifo (debug_id a) (unat (2 * len)) (snd (rs a)) (fifo_hw v) = Some u"
    and wu: "w = set_debug_world (set_pll (\<lambda>p. p\<lparr>bunch_enables := replicate (unat bunches) False\<rparr>) (set_offset_world (axis_world a s) v)) u"
    using f by (auto simp: bind_eq_Some_conv Let_def set_offset_world_def)
  have "fifo_ok v" "fifo_ok u" using create_fifo_ok [OF v] create_fifo_ok [OF u dbl] assms(2) by simp_all
  then show ?thesis
    by (simp add: w wu set_axis_def set_debug_world_def set_offset_world_def fifos_ok_def fifo_ok_def)
qed

lemma initialise_ok:
  assumes "initialise_tune_pll lmbf bunches len rs s = Some (s', None)" "len < 0x80000000"
  shows "all_fifos_ok lmbf s'"
proof -
  have len: "PLL_FIFO_SIZE < unat len" using assms(1) by (auto simp: initialise_tune_pll_def split: if_splits)
  obtain s1 where s1: "publish_axis bunches len rs 0 (stop_both_axes s) = Some s1" "cond (\<not> lmbf) (publish_axis bunches len rs 1) s1 = Some s'"
    using assms(1) by (auto simp: initialise_tune_pll_def bind_eq_Some_conv)
  have "fifos_ok (contexts s1 0)" using publish_axis_ok [OF s1(1) len assms(2)] by simp
  then show ?thesis using s1(2) publish_axis_ok [OF _ len assms(2), of bunches rs 1 s1 s']
    by (cases lmbf) (auto simp: cond_def all_fifos_ok_def axes_def)
qed

text \<open>C18 The waveforms of the tune PLL are complete: once it has been set up, after any sequence of commands, record
  processing and interrupts on the axes, the samples read from the offset FIFO and from the debug FIFO of each axis
  since it was last enabled or reset are those handed to EPICS, in order, followed by those in hand, and
  the buffers keep their bounds.\<close>

theorem pll_waveforms_complete:
  assumes "initialise_tune_pll lmbf bunches len rs s = Some (s0, None)" "len < 0x80000000"
    "list_all (occurs lmbf) ops" "pll_run F dl bunches dec lmbf ops s0 = Some s1" "a \<in> axes lmbf"
  shows "let p = contexts s1 a in
    taken (offset_log p) = emitted (offset_log p) @ in_hand (offset_fifo p) \<and> sizes_ok (offset_fifo p) \<and>
    taken (debug_log p) = emitted (debug_log p) @ in_hand (debug_fifo p) \<and> sizes_ok (debug_fifo p)"
  using pll_run_ok [OF initialise_ok [OF assms(1,2)] assms(3,4)] assms(5) by (simp add: all_fifos_ok_def fifos_ok_def Let_def)

section \<open>The gain\<close>

text \<open>The oscillator of the tune PLL keeps the contract of the gain manager.\<close>

definition pll_gain_of :: "nat \<Rightarrow> ('d, 'f) pll_world \<Rightarrow> u32" where
  "pll_gain_of axis w = get_field 0 18 (reg_value (pll_hw w) (DSP axis (PLL PLL_CONFIG_EXTRA)))"

lemma pll_gain_of_set: "pll_gain_of axis (write_nco_gain axis g w) = take_bit 18 g"
  unfolding pll_gain_of_def write_nco_gain_def set_simps hw_write_pll_nco_gain_def reg_value_mirror
  by (subst get_put_same, simp, rule take_bit_masked)

interpretation pll_gain: gain_client "write_nco_gain axis" "pll_gain_of axis" for axis
  by unfold_locales (rule pll_gain_of_set)

lemma pll_gain_in_step:
  assumes "0 \<le> e" "e \<le> 1 / 2" "pll_gain_of axis w = 0"
    "fold (request (exact e) (write_nco_gain axis)) qs (create_gain_manager (exact e), w) = (m, w')"
  shows "pll_gain_of axis w' = gain_in_force m"
  using pll_gain.in_step [OF assms(1,2) _ _ assms(4)] assms(3) by (simp add: create_gain_manager_def gain_in_force_def)

section \<open>Stopping\<close>

text \<open>A stop event that finds the feedback running again, or not yet started, changes nothing but the published
  status.  One that finds it stopped hands over what is left of the offsets as far as it fits,
  disables the FIFO and asks for the final frequency, which is then that of the hardware.\<close>

theorem stop_event_effect:
  assumes "fifos_ok (pll w)" "fifo_enabled (offset_fifo (pll w))" "handle_pll_stop axis rd r w = Some w'"
    "xs = in_hand (offset_fifo (pll w)) @ map (snd r) [0..<fifo_samples PLL_FIFO_OFFSET (fst r)]"
  defines "s \<equiv> hw_read_pll_status axis rd"
  shows "if \<not> (stopped s \<or> overflow s \<or> too_small s \<or> bad_offset s)
    then w' = w\<lparr>pll := (pll w)\<lparr>status := s\<lparr>running := True\<rparr>\<rparr>\<rparr>
    else \<not> running (status (pll w')) \<and> \<not> fifo_enabled (offset_fifo (pll w')) \<and>
      read_fifo_buffer (offset_world w') = Some (take (buffer_size (offset_fifo (pll w))) xs) \<and>
      offset_triggers (pll w') = offset_triggers (pll w) + 1 \<and>
      current_nco (pll (fst (update_nco_frequency A b axis rd' w'))) = hw_read_pll_nco_frequency axis rd'"
proof (cases "stopped s \<or> overflow s \<or> too_small s \<or> bad_offset s")
  case False
  then show ?thesis using assms(3) by (simp add: handle_pll_stop_def update_pll_status_def Let_def set_pll_def flip: s_def)
next
  case True
  define w1 where "w1 = update_pll_status axis rd w"
  have w1: "\<not> running (status (pll w1))" "offset_fifo (pll w1) = offset_fifo (pll w)" "offset_log (pll w1) = offset_log (pll w)"
      "offset_triggers (pll w1) = offset_triggers (pll w)"
    using True by (auto simp: w1_def update_pll_status_def Let_def simp flip: s_def)
  obtain v where v: "disable_readout_fifo (offset_id axis) r (offset_world w1) = Some v" and w': "w' = trigger_offset_pv (set_offset_world w1 v)"
    using assms(3) w1(1) by (auto simp: handle_pll_stop_def Let_def on_offset_def simp flip: w1_def)
  have o: "fifo (offset_world w1) = offset_fifo (pll w)" "fifo_log (offset_world w1) = offset_log (pll w)" by (simp_all add: offset_world_def w1)
  have ok: "fifo_ok (offset_world w1)" using assms(1) o by (simp add: fifo_ok_def fifos_ok_def)
  obtain u where p: "process_fifo_content (offset_id axis) PROCESS_STOP r (offset_world w1) = Some u"
      and u: "v = u\<lparr>fifo := (fifo u)\<lparr>fifo_enabled := False\<rparr>\<rparr>"
    using v assms(2) o by (auto simp: disable_readout_fifo_def stop_readout_fifo_def)
  have "read_fifo_buffer (offset_world w') = Some (take (buffer_size (offset_fifo (pll w))) xs) \<and> \<not> fifo_enabled (offset_fifo (pll w'))"
    using process_fifo_step [OF ok p] assms(4) o
    by (simp add: u w' trigger_offset_pv_def set_offset_world_def offset_world_def read_fifo_buffer_def in_hand_def offset_id_def)
  then show ?thesis using True w1(1,4)
    by (simp add: w' trigger_offset_pv_def set_offset_world_def update_nco_frequency_def update_target_phase_def Let_def)
qed

lemma on_offset_status [simp]: "on_offset a op w = Some w' \<Longrightarrow> status (pll w') = status (pll w)"
  by (auto simp: on_offset_def set_offset_world_def)

text \<open>The FIFOs leave the command register of the feedback alone.\<close>

lemma read_hardware_commands:
  "read_hardware k e r w = Some (w', n, ovf) \<Longrightarrow> reg_value (fifo_hw w') (CTRL c) = reg_value (fifo_hw w) (CTRL c)"
  by (auto simp: read_hardware_def hw_read_pll_readout_fifo_def Let_def split: option.splits if_splits prod.splits)

lemma deliver_commands [simp]: "fifo_hw (deliver_samples stage cnt ovf w) = fifo_hw w"
  by (simp add: deliver_samples_def Let_def split: prod.split)

lemma process_commands:
  "process_fifo_content k stage r w = Some w' \<Longrightarrow> reg_value (fifo_hw w') (CTRL c) = reg_value (fifo_hw w) (CTRL c)"
  by (auto simp: process_fifo_content_def Let_def split: prod.splits dest!: read_hardware_commands [where c = c])

lemma reset_commands:
  "reset_fifo k flush e r w = Some w' \<Longrightarrow> reg_value (fifo_hw w') (CTRL c) = reg_value (fifo_hw w) (CTRL c)"
  by (auto simp: reset_fifo_def Let_def split: if_splits option.splits dest!: read_hardware_commands [where c = c])

lemma on_offset_commands:
  assumes "on_offset axis op w = Some w'"
  shows "reg_value (pll_hw w') (CTRL c) = reg_value (pll_hw w) (CTRL c)"
proof -
  obtain v where v: "fifo_apply (offset_id axis) op (offset_world w) = Some v" and w': "w' = set_offset_world w v"
    using assms by (auto simp: on_offset_def)
  have "reg_value (fifo_hw v) (CTRL c) = reg_value (fifo_hw (offset_world w)) (CTRL c)"
    using v by (cases op)
      (auto simp: enable_readout_fifo_def start_readout_fifo_def disable_readout_fifo_def stop_readout_fifo_def reset_readout_fifo_def
        flush_readout_fifo_def handle_fifo_ready_def Let_def split: if_splits option.splits
        dest!: process_commands [where c = c] reset_commands [where c = c])
  then show ?thesis by (simp add: w' set_offset_world_def offset_world_def)
qed

text \<open>The feedback of an axis is on: its last command was to start and not to stop, and its status says that it runs.\<close>

definition feedback_on :: "nat \<Rightarrow> ('d, 'f) pll_world \<Rightarrow> bool" where
  "feedback_on axis w \<longleftrightarrow> running (status (pll w)) \<and>
     (let v = reg_value (pll_hw w) (CTRL (TRG TRG_CONTROL)) in flag (12 + axis) v \<and> \<not> flag (14 + axis) v)"

lemma start_word:
  assumes "axis < 2"
  shows "flag (12 + axis) (pack [(12, 1, of_bool (axis = 0)), (13, 1, of_bool (axis = 1))])"
    "\<not> flag (14 + axis) (pack [(12, 1, of_bool (axis = 0)), (13, 1, of_bool (axis = 1))])"
proof -
  have "axis = 0 \<or> axis = 1" using assms by auto
  then show "flag (12 + axis) (pack [(12, 1, of_bool (axis = 0)), (13, 1, of_bool (axis = 1))])"
    "\<not> flag (14 + axis) (pack [(12, 1, of_bool (axis = 0)), (13, 1, of_bool (axis = 1))])"
    by (auto simp: flag_def pack_def put_field_def get_field_def)
qed

lemma on_offset_feedback: "on_offset axis op w = Some w' \<Longrightarrow> feedback_on axis w' = feedback_on axis w"
  by (simp add: feedback_on_def on_offset_commands)

lemma start_feedback_on:
  assumes "axis < 2" "start_feedback axis rd r1 r2 w = Some w'" "running (status (pll (update_pll_status axis rd w0)))"
  shows "feedback_on axis w' \<and> fifo_enabled (offset_fifo (pll w'))"
proof -
  let ?w = "update_pll_status axis rd (set_hw (hw_write_pll_start (axis = 0) (axis = 1)) w)"
  have on: "on_offset axis (EnableFifo False r1 r2) ?w = Some w'" using assms(2) by (simp add: start_feedback_def handle_pll_start_def)
  have "running (status (pll ?w))" using assms(3) by (simp add: update_pll_status_def Let_def)
  then have "feedback_on axis ?w"
    using start_word [OF assms(1)] by (simp add: feedback_on_def update_pll_status_def Let_def hw_write_pll_start_def WRITE_FIELDS_def)
  moreover have "fifo_enabled (offset_fifo (pll w'))"
    using on by (auto simp: on_offset_def set_offset_world_def intro: enable_enables)
  ultimately show ?thesis using on_offset_feedback [OF on] by simp
qed

lemma stop_event_ignored:
  "running (status (pll (update_pll_status axis rd w0))) \<Longrightarrow> handle_pll_stop axis rd r w = Some (update_pll_status axis rd w)"
  by (simp add: handle_pll_stop_def update_pll_status_def Let_def)

text \<open>C21 Start and stop are not safe against each other.  A stop event reads the status, finds the feedback stopped and then disables
  the FIFO; a start command turns the feedback on and enables the FIFO.  One after the other, in either order, they leave the feedback on
  with its FIFO enabled.  When the start falls between the two halves of the stop event the feedback is on, started and not
  stopped since, with its FIFO disabled, and every ready interrupt is then ignored.\<close>

theorem stop_start_race:
  assumes axis: "axis < 2"
    and stopped: "w1 = update_pll_status axis rd w" "\<not> running (status (pll w1))"
    and runs: "running (status (pll (update_pll_status axis rd' w)))"
    and race: "start_feedback axis rd' r1 r2 w1 = Some w2" "on_offset axis (DisableFifo r) w2 = Some w3"
    and stop_start: "Option.bind (handle_pll_stop axis rd r w) (start_feedback axis rd' r1 r2) = Some u"
    and start_stop: "Option.bind (start_feedback axis rd' r1 r2 w) (handle_pll_stop axis rd' r) = Some v"
  shows "handle_pll_stop axis rd r w = map_option trigger_offset_pv (on_offset axis (DisableFifo r) w1) \<and>
    feedback_on axis u \<and> fifo_enabled (offset_fifo (pll u)) \<and>
    feedback_on axis v \<and> fifo_enabled (offset_fifo (pll v)) \<and>
    feedback_on axis w3 \<and> \<not> fifo_enabled (offset_fifo (pll w3)) \<and> on_offset axis (FifoReady r') w3 = Some w3"
proof -
  have split: "handle_pll_stop axis rd r w = map_option trigger_offset_pv (on_offset axis (DisableFifo r) w1)"
    using stopped(2) by (simp add: handle_pll_stop_def stopped(1) Let_def)
  note start = start_feedback_on [OF axis _ runs]
  obtain u0 where "start_feedback axis rd' r1 r2 u0 = Some u" using stop_start by (auto simp: bind_eq_Some_conv)
  note u = start [OF this]
  obtain v0 where v0: "start_feedback axis rd' r1 r2 w = Some v0" "handle_pll_stop axis rd' r v0 = Some v"
    using start_stop by (auto simp: bind_eq_Some_conv)
  have v: "v = update_pll_status axis rd' v0" using v0(2) stop_event_ignored [OF runs, of r v0] by simp
  then have "running (status (pll v))" using runs by (simp add: update_pll_status_def Let_def)
  then have v: "feedback_on axis v \<and> fifo_enabled (offset_fifo (pll v))"
    using start [OF v0(1)] by (simp add: v feedback_on_def update_pll_status_def Let_def)
  have w3: "feedback_on axis w3" using start [OF race(1)] on_offset_feedback [OF race(2)] by simp
  obtain x where x: "disable_readout_fifo (offset_id axis) r (offset_world w2) = Some x" and e: "w3 = set_offset_world w2 x"
    using race(2) by (auto simp: on_offset_def)
  have d: "\<not> fifo_enabled (fifo x)" using x by (rule disable_disables)
  have "offset_world w3 = x" "set_offset_world w3 x = w3" by (simp_all add: e offset_world_def set_offset_world_def)
  then have "on_offset axis (FifoReady r') w3 = Some w3" using d by (simp add: on_offset_def handle_fifo_ready_def)
  then show ?thesis using split u v w3 d by (simp add: e set_offset_world_def)
qed

section \<open>The phase written to the hardware\<close>

lemma phase_slice: "ucast (drop_bit 16 (word_of_int k :: u64)) = (word_of_int (k div 2 ^ 16) :: u32)"
proof -
  have "k div 2 ^ 16 = drop_bit 16 k" by (simp add: drop_bit_eq_div)
  then show ?thesis by (intro bit_word_eqI) (auto simp: bit_simps add.commute)
qed

lemma phase_word_exact:
  assumes "current_nco p = word_of_int nco"
  shows "uint (phase_word p) = (uint (phase_delay p) * nco div 2 ^ 16 - uint (target_phase p)) mod 2 ^ 32"
proof -
  have "ucast (phase_delay p) * current_nco p = word_of_int (uint (phase_delay p) * nco)"
    by (simp add: assms flip: word_of_int_uint)
  then have "phase_word p = word_of_int (uint (phase_delay p) * nco div 2 ^ 16 - uint (target_phase p))"
    by (simp only: phase_word_def Let_def phase_slice) simp
  then show ?thesis by (simp only: uint_word_of_int) simp
qed

text \<open>C19 The target phase written to the hardware is exact: processing the offset record writes the phase that the delay
  of the detector gives at the current frequency, less the requested target, as a fraction of a turn in
  units of \<open>2 ^ - 32\<close> rounded down and reduced modulo one turn; although the 64-bit product wraps, and for negative
  offsets that take the frequency below zero.\<close>

theorem target_phase_tracks:
  defines "reg \<equiv> \<lambda>axis. DSP axis (PLL (PLL_PARAM TARGET_PHASE))"
  shows "let (w', off) = update_nco_frequency A b axis rd w; p = pll w;
        nco = (if running (status p) then uint (nco_freq_set p) + 2 ^ 8 * sint (hw_read_pll_filtered_offset axis rd)
               else uint (hw_read_pll_nco_frequency axis rd))
    in \<exists>v. trace (pll_hw w') = trace (pll_hw w) @ [(reg axis, v)] \<and>
         uint v = (uint (phase_delay p) * nco div 2 ^ 16 - uint (target_phase p)) mod 2 ^ 32 \<and>
         off = freq_to_tune_signed A b (word_of_int (nco - uint (nco_freq_set p)))"
proof -
  let ?p = "pll w"
  let ?nco = "if running (status ?p) then uint (nco_freq_set ?p) + 2 ^ 8 * sint (hw_read_pll_filtered_offset axis rd)
               else uint (hw_read_pll_nco_frequency axis rd)"
  obtain w' off where u: "update_nco_frequency A b axis rd w = (w', off)" by fastforce
  have s: "scast x = (word_of_int (sint x) :: u64)" for x :: u32 by simp
  have o: "offset_freq x = word_of_int (2 ^ 8 * sint x)" for x
    by (simp only: offset_freq_def s) (simp add: push_bit_eq_mult)
  have "current_nco (pll w') = word_of_int ?nco"
    using u by (auto simp: update_nco_frequency_def update_target_phase_def o Let_def split: if_splits)
  then have "uint (phase_word (pll w')) = (uint (phase_delay (pll w')) * ?nco div 2 ^ 16 - uint (target_phase (pll w'))) mod 2 ^ 32"
    by (rule phase_word_exact)
  moreover have "phase_delay (pll w') = phase_delay ?p" "target_phase (pll w') = target_phase ?p"
      "trace (pll_hw w') = trace (pll_hw w) @ [(reg axis, phase_word (pll w'))]"
      "off = freq_to_tune_signed A b (word_of_int (?nco - uint (nco_freq_set ?p)))"
    using u by (auto simp: update_nco_frequency_def update_target_phase_def o Let_def reg_def hw_write_pll_target_phase_def
        write_pll_param_def writel_def split: if_splits)
  ultimately show ?thesis unfolding u Let_def prod.case by metis
qed

section \<open>Compensation of the readings\<close>

text \<open>C20 The published detector readings are compensated by a rotation: in exact arithmetic they are the complex conjugate
  of the reading turned back by the phase of the delay, of the same magnitude and with their own angle; and
  this phase is the one compensated in hardware, up to whole turns and one unit of its
  resolution.\<close>

theorem detector_compensation:
  assumes "phase_delay p < 0x80000000"
  shows "let (x, y, m0) = input_point (exact e) cordic iq; (i, q, m, a) = output_point (exact e) p cordic iq; t = phase_offset (exact e) p
    in Complex i q = cnj (cis (- t) * Complex x y) \<and> m = m0 \<and> \<bar>m\<bar> = cmod (Complex i q) \<and> a = 180 / pi * Arg (Complex i q) \<and>
      (\<exists>k. 0 \<le> t / (2 * pi) - of_int (uint (phase_word p + target_phase p)) / 2 ^ 32 - of_int k \<and>
        t / (2 * pi) - of_int (uint (phase_word p + target_phase p)) / 2 ^ 32 - of_int k < 1 / 2 ^ 32)"
proof -
  obtain x y m0 where xy: "input_point (exact e) cordic iq = (x, y, m0)" by (cases "input_point (exact e) cordic iq")
  define t where "t = phase_offset (exact e) p"
  define i q where "i = cos t * x + sin t * y" and "q = sin t * x - cos t * y"
  have out: "output_point (exact e) p cordic iq = (i, q, m0, 180 / pi * Arg (Complex i q))"
    by (simp add: output_point_def xy Let_def i_def q_def algebra_simps flip: t_def)
  have rot: "Complex i q = cnj (cis (- t) * Complex x y)" by (simp add: complex_eq_iff i_def q_def algebra_simps)
  have "\<bar>m0\<bar> = cmod (Complex x y)"
  proof (cases cordic)
    case True
    define g where "g = 2 * pi * (of_int (sint (fst iq)) * 2 powi (- 32))"
    have "x = cos g * m0" "y = sin g * m0" using xy True by (auto simp: input_point_def Let_def g_def mult.commute)
    then have "x\<^sup>2 + y\<^sup>2 = m0\<^sup>2 * ((cos g)\<^sup>2 + (sin g)\<^sup>2)" by (simp add: power_mult_distrib algebra_simps del: sin_cos_squared_add sin_cos_squared_add2)
    then show ?thesis by (simp add: cmod_def)
  qed (use xy in \<open>auto simp: input_point_def Let_def SQR_def cmod_def power2_eq_square\<close>)
  then have mag: "\<bar>m0\<bar> = cmod (Complex i q)" by (simp add: rot norm_mult)
  define n where "n = uint (phase_delay p) * uint (current_nco p)"
  have d2: "uint (phase_delay p * 2) = 2 * uint (phase_delay p)"
    using assms by (simp add: uint_word_ariths word_less_def)
  have t: "t / (2 * pi) = of_int n / 2 ^ 48"
    by (simp only: t_def phase_offset_def exact_simps d2 n_def) (simp add: power_int_def power_one_over)
  have w: "uint (phase_word p + target_phase p) = n div 2 ^ 16 mod 2 ^ 32"
  proof -
    have "ucast (phase_delay p) * current_nco p = word_of_int n" by (simp add: n_def flip: word_of_int_uint)
    then have "phase_word p + target_phase p = word_of_int (n div 2 ^ 16)" by (simp only: phase_word_def Let_def phase_slice) simp
    then show ?thesis by (simp add: uint_word_of_int)
  qed
  define h where "h = n div 2 ^ 16 mod 2 ^ 32"
  define k r where "k = n div 2 ^ 16 div 2 ^ 32" and "r = n mod 2 ^ 16"
  have "n = 2 ^ 16 * (n div 2 ^ 16) + r" "n div 2 ^ 16 = 2 ^ 32 * k + h"
    by (simp_all only: mult_div_mod_eq k_def h_def r_def)
  then have nk: "n = 2 ^ 48 * k + 2 ^ 16 * h + r" by (simp only: distrib_left) (simp add: mult.assoc [symmetric])
  have r: "0 \<le> r" "r < 2 ^ 16" by (simp_all add: r_def)
  have "real_of_int n = 2 ^ 48 * of_int k + 2 ^ 16 * of_int h + of_int r"
    by (subst nk) simp
  then have "t / (2 * pi) - of_int (uint (phase_word p + target_phase p)) / 2 ^ 32 - of_int k = of_int r / 2 ^ 48"
    unfolding t w h_def [symmetric] by (simp add: field_simps)
  moreover have "0 \<le> real_of_int r / 2 ^ 48" "real_of_int r / 2 ^ 48 < 1 / 2 ^ 32" using r by (simp_all add: field_simps)
  ultimately have "\<exists>k. 0 \<le> t / (2 * pi) - of_int (uint (phase_word p + target_phase p)) / 2 ^ 32 - of_int k \<and>
        t / (2 * pi) - of_int (uint (phase_word p + target_phase p)) / 2 ^ 32 - of_int k < 1 / 2 ^ 32" by metis
  then show ?thesis using rot mag by (simp add: xy out flip: t_def)
qed

section \<open>Concrete runs\<close>

definition no_values :: "(real, real) detector_values" where
  "no_values = \<lparr>wf_i = [], wf_q = [], wf_mag = [], wf_angle = []\<rparr>"

definition no_fifo :: readout_fifo where
  "no_fifo = \<lparr>epics_busy = False, buffer = [], buffer_size = 0, buffer_count = 0, fifo_enabled = False, overrun = False,
     read_buffer_count = 0, read_buffer = []\<rparr>"

definition sample_context :: "(real, real) pll_context" where
  "sample_context = \<lparr>nco_freq_set = 0x100000, current_nco = 0x100000, nco_freq_out = 0, mean_offset = 0, std_offset = 0, nco_tune = 0,
     offset_wf = [], phase_delay = 1000, target_phase = 0, events = hw_read_pll_events 0 (\<lambda>_. 0), status = hw_read_pll_status 0 (\<lambda>_. 0),
     input_select = 0, readout_scale = 0, bunch_enables = [], bunch_count = 0, filtered = no_values, offset_fifo = no_fifo, offset_log = [],
     debug_fifo = no_fifo, debug_log = [], debug_values = no_values, debug_relative_std = 0, debug_relative_std_abs = 0,
     captured_cordic = False, offset_triggers = 0\<rparr>"

definition sample_system :: "(real, real) pll_system" where
  "sample_system = \<lparr>contexts = (\<lambda>_. sample_context), sys_hw = sample_hw\<rparr>"

definition no_reads :: "nat \<Rightarrow> fifo_read \<times> fifo_read" where
  "no_reads a = (sample_read 0, sample_read 0)"

lemma good_offset_read: "n < 1026 \<Longrightarrow> good_read (offset_id a) (sample_read n)"
  using sample_good [of n] by (simp add: good_read_def sample_fifo_def offset_id_def)

lemma good_debug_read: "good_read (debug_id a) (sample_read 0)"
  by (simp add: good_read_def debug_id_def sample_read_def fifo_samples_def get_field_def)

lemma on_offset_total: "list_all (good_read (offset_id a)) (reads_of op) \<Longrightarrow> \<exists>w'. on_offset a op w = Some w'"
  using fifo_apply_total [of "offset_id a" op "offset_world w"] by (auto simp: on_offset_def)

lemma publish_total: "\<exists>s'. publish_axis bunches len no_reads a s = Some s'"
proof -
  obtain v where v: "create_readout_fifo (offset_id a) (unat len) (sample_read 0) (pll_hw (axis_world a s)) = Some v"
    using create_total [OF good_offset_read [of 0 a]] by auto
  show ?thesis
    using create_total [OF good_debug_read, of a "unat (2 * len)" "fifo_hw v"] v
    by (auto simp: publish_axis_def on_axis_def no_reads_def Let_def set_offset_world_def)
qed

lemma initialise_total: "0x401 < len \<Longrightarrow> \<exists>s'. initialise_tune_pll lmbf bunches len no_reads s = Some (s', None)"
proof -
  assume "0x401 < len"
  then have len: "PLL_FIFO_SIZE < unat len" by (simp add: PLL_FIFO_SIZE_def word_less_nat_alt)
  obtain s1 where s1: "publish_axis bunches len no_reads 0 (stop_both_axes s) = Some s1" using publish_total by blast
  obtain s2 where s2: "publish_axis bunches len no_reads 1 s1 = Some s2" using publish_total by blast
  show ?thesis using s1 s2 len by (cases lmbf) (simp_all add: initialise_tune_pll_def cond_def)
qed

definition sample_ops :: "real pll_op list" where
  "sample_ops = [OnAxis 0 (StartFeedback (\<lambda>_. 0) (sample_read 0) (sample_read 3)), OnAxis 1 (WriteNco (1 / 4)), StopBoth]"

theorem pll_waveforms_complete_witness:
  "\<forall>dl. \<exists>s0 s1. initialise_tune_pll False 936 4096 no_reads sample_system = Some (s0, None) \<and>
    pll_run (exact_floats 0 0) dl 936 1 False sample_ops s0 = Some s1 \<and>
    taken (offset_log (contexts s1 0)) = emitted (offset_log (contexts s1 0)) @ in_hand (offset_fifo (contexts s1 0))"
proof
  fix dl
  obtain s0 where s0: "initialise_tune_pll False 936 4096 no_reads sample_system = Some (s0, None)"
    using initialise_total [of 4096 False 936 sample_system] by auto
  obtain w where w: "start_feedback 0 (\<lambda>_. 0) (sample_read 0) (sample_read 3) (axis_world 0 s0) = Some w"
    using on_offset_total [of 0 "EnableFifo False (sample_read 0) (sample_read 3)"]
    by (auto simp: start_feedback_def handle_pll_start_def good_offset_read)
  obtain s1 where s1: "pll_run (exact_floats 0 0) dl 936 1 False sample_ops s0 = Some s1"
    using w by (auto simp: sample_ops_def on_axis_def)
  have "list_all (occurs False) sample_ops" by (simp add: sample_ops_def axes_def)
  from pll_waveforms_complete [OF s0 _ this s1, of 0] have
    "taken (offset_log (contexts s1 0)) = emitted (offset_log (contexts s1 0)) @ in_hand (offset_fifo (contexts s1 0))"
    by (simp add: axes_def Let_def)
  then show "\<exists>s0 s1. initialise_tune_pll False 936 4096 no_reads sample_system = Some (s0, None) \<and>
    pll_run (exact_floats 0 0) dl 936 1 False sample_ops s0 = Some s1 \<and>
    taken (offset_log (contexts s1 0)) = emitted (offset_log (contexts s1 0)) @ in_hand (offset_fifo (contexts s1 0))"
    using s0 s1 by blast
qed

text \<open>A world with its FIFO enabled.\<close>

lemma running_world:
  obtains w :: "(real, real) pll_world" where "fifos_ok (pll w)" "fifo_enabled (offset_fifo (pll w))"
proof -
  obtain s0 where s0: "initialise_tune_pll False 936 4096 no_reads sample_system = Some (s0, None)"
    using initialise_total [of 4096 False 936 sample_system] by auto
  obtain w where w: "start_feedback 0 (\<lambda>_. 0) (sample_read 0) (sample_read 3) (axis_world 0 s0) = Some w"
    using on_offset_total [of 0 "EnableFifo False (sample_read 0) (sample_read 3)"]
    by (auto simp: start_feedback_def handle_pll_start_def good_offset_read)
  have "fifos_ok (pll (axis_world 0 s0))" using initialise_ok [OF s0] by (simp add: all_fifos_ok_def axes_def axis_world_def)
  from start_feedback_ok [OF this w] have ok: "fifos_ok (pll w)" .
  have "fifo_enabled (offset_fifo (pll w))"
    using w by (auto simp: start_feedback_def handle_pll_start_def on_offset_def set_offset_world_def intro: enable_enables)
  then show thesis using that ok by blast
qed

text \<open>A status with the stop bit set, and one with no bit set.\<close>

definition stopped_regs :: "reg \<Rightarrow> u32" where
  "stopped_regs r = 2"

lemma stopped_regs_status: "stopped (hw_read_pll_status a stopped_regs)" "\<not> running (status (pll (update_pll_status a stopped_regs w)))"
  by (simp_all add: hw_read_pll_status_def stopped_regs_def flag_def get_field_def update_pll_status_def Let_def)

lemma zero_regs_status: "running (status (pll (update_pll_status a (\<lambda>_. 0) w)))"
  by (simp add: hw_read_pll_status_def flag_def get_field_def update_pll_status_def Let_def)

theorem stop_event_effect_witness:
  "\<exists>w w' :: (real, real) pll_world. handle_pll_stop 0 stopped_regs (sample_read 7) w = Some w' \<and>
    \<not> running (status (pll w')) \<and> \<not> fifo_enabled (offset_fifo (pll w'))"
proof -
  obtain w :: "(real, real) pll_world" where w: "fifos_ok (pll w)" "fifo_enabled (offset_fifo (pll w))" by (rule running_world)
  obtain w' where w': "handle_pll_stop 0 stopped_regs (sample_read 7) w = Some w'"
    using on_offset_total [of 0 "DisableFifo (sample_read 7)" "update_pll_status 0 stopped_regs w"]
    by (auto simp: handle_pll_stop_def Let_def stopped_regs_status good_offset_read)
  show ?thesis using stop_event_effect [OF w w' refl, of "exact 0" 936 stopped_regs] w' by (auto simp: stopped_regs_status)
qed

theorem stop_start_race_witness:
  "\<exists>w w1 w2 w3 :: (real, real) pll_world. w1 = update_pll_status 0 stopped_regs w \<and>
    start_feedback 0 (\<lambda>_. 0) (sample_read 0) (sample_read 3) w1 = Some w2 \<and> on_offset 0 (DisableFifo (sample_read 7)) w2 = Some w3 \<and>
    feedback_on 0 w3 \<and> \<not> fifo_enabled (offset_fifo (pll w3))"
proof -
  obtain w :: "(real, real) pll_world" where w: "fifo_enabled (offset_fifo (pll w))" by (rule running_world)
  define w1 where "w1 = update_pll_status 0 stopped_regs w"
  have start: "\<exists>y. start_feedback 0 (\<lambda>_. 0) (sample_read 0) (sample_read 3) x = Some y" for x :: "(real, real) pll_world"
    using on_offset_total [of 0 "EnableFifo False (sample_read 0) (sample_read 3)"]
    by (auto simp: start_feedback_def handle_pll_start_def good_offset_read)
  have disable: "\<exists>y. on_offset 0 (DisableFifo (sample_read 7)) x = Some y" for x :: "(real, real) pll_world"
    using on_offset_total [of 0 "DisableFifo (sample_read 7)"] by (auto simp: good_offset_read)
  have stop: "\<exists>y. handle_pll_stop 0 rd (sample_read 7) x = Some y" for rd and x :: "(real, real) pll_world"
    using disable by (auto simp: handle_pll_stop_def Let_def)
  obtain w2 where w2: "start_feedback 0 (\<lambda>_. 0) (sample_read 0) (sample_read 3) w1 = Some w2" using start by blast
  obtain w3 where w3: "on_offset 0 (DisableFifo (sample_read 7)) w2 = Some w3" using disable by blast
  obtain u where u: "Option.bind (handle_pll_stop 0 stopped_regs (sample_read 7) w) (start_feedback 0 (\<lambda>_. 0) (sample_read 0) (sample_read 3)) = Some u"
    using stop [of stopped_regs w] start by (metis bind.bind_lunit)
  obtain v where v: "Option.bind (start_feedback 0 (\<lambda>_. 0) (sample_read 0) (sample_read 3) w) (handle_pll_stop 0 (\<lambda>_. 0) (sample_read 7)) = Some v"
    using stop [of "\<lambda>_. 0"] start [of w] by (metis bind.bind_lunit)
  have "\<not> running (status (pll w1))" by (simp add: w1_def stopped_regs_status)
  note r = stop_start_race [OF _ w1_def this zero_regs_status w2 w3 u v, of "sample_read 0"]
  have "feedback_on 0 w3" "\<not> fifo_enabled (offset_fifo (pll w3))" using r by simp_all
  with w1_def w2 w3 show ?thesis by blast
qed

theorem detector_compensation_witness:
  "let (i, q, m, a) = output_point (exact 0) sample_context False (0x40000000, 0) in \<bar>m\<bar> = cmod (Complex i q)"
  using detector_compensation [of sample_context 0 False "(0x40000000, 0)"]
  by (auto simp: sample_context_def Let_def split: prod.splits)

end
