(* ===== verification/Mms.thy ===== *)
theory Mms
  imports Hardware_Dsp Fixed_Point Bunch_Select_Properties
begin

text \<open>
  The min, max, sum and standard deviation waveforms (\<^verbatim>\<open>epics/src/mms.c\<close>): what the hardware has gathered is
  polled into an accumulator, which a scan turns into waveforms and clears; the archive waveforms
  summarise the scans of a longer interval.  The mutex of a handler is held over each operation.  \<^verbatim>\<open>MIN\<close> and
  \<^verbatim>\<open>MAX\<close> compare once and take the second argument when the comparison fails.
\<close>

section \<open>State\<close>

record ('d, 'f) mms_accum =
  raw_min :: "u16 list"
  raw_max :: "u16 list"
  raw_sum :: "u64 list"
  raw_sum2 :: "u64 list"
  variance_sum_count :: u32
  variance_sum :: "'d list"
  std_min_acc :: "'f list"
  std_max_acc :: "'f list"
  raw_turns :: u32

record ('d, 'f) mms_epics =
  min_wf :: "'f list"
  max_wf :: "'f list"
  delta_wf :: "'f list"
  mean_wf :: "'f list"
  std_wf :: "'f list"
  mean_mean :: 'd
  std_mean :: 'd
  std_mean_wf :: "'f list"
  std_min_wf :: "'f list"
  std_max_wf :: "'f list"
  mms_turns :: u32

record ('d, 'f) mms_handler =
  bunch_offset :: nat
  accum :: "('d, 'f) mms_accum"
  epics :: "('d, 'f) mms_epics"
  overflow_log :: "mms_result list"

text \<open>\<open>overflow_log\<close> holds the readings reported by \<^verbatim>\<open>log_error\<close>.\<close>

section \<open>Adding with overflow detection\<close>

definition add_overflow_uint :: "u32 \<Rightarrow> u32 \<Rightarrow> u32 \<times> bool" where
  "add_overflow_uint a b = (a + b, a + b < a)"

definition add_overflow_uint64 :: "u64 \<Rightarrow> u64 \<Rightarrow> u64 \<times> bool" where
  "add_overflow_uint64 a b = (a + b, a + b < a)"

definition add_overflow_int64 :: "u64 \<Rightarrow> u64 \<Rightarrow> u64 \<times> bool" where
  "add_overflow_int64 a b = (a + b, sint a + sint b \<noteq> sint (a + b))"

section \<open>Accumulating\<close>

definition reset_accum :: "nat \<Rightarrow> ('d, 'f) mms_handler \<Rightarrow> ('d, 'f) mms_handler" where
  "reset_accum bunches m = m\<lparr>accum := (accum m)\<lparr>
     raw_min := replicate bunches 0x7FFF, raw_max := replicate bunches 0x8000,
     raw_sum := replicate bunches 0, raw_sum2 := replicate bunches 0, raw_turns := 0\<rparr>\<rparr>"

definition min16 :: "u16 \<Rightarrow> u16 \<Rightarrow> u16" where "min16 a b = (if a <s b then a else b)"
definition max16 :: "u16 \<Rightarrow> u16 \<Rightarrow> u16" where "max16 a b = (if b <s a then a else b)"

text \<open>The accumulator and whether the sums, the sums of squares and the turns have overflowed.\<close>

definition update_accum :: "nat \<Rightarrow> mms_result \<Rightarrow> ('d, 'f) mms_handler \<Rightarrow> ('d, 'f) mms_handler \<times> bool \<times> bool \<times> bool" where
  "update_accum bunches r m =
     (let ixs = offset_loop bunches (bunch_offset m) bunches; a = accum m;
          tot = map (\<lambda>j. add_overflow_int64 (raw_sum a ! j) (scast (sum_of r ! (ixs ! j)))) [0..<bunches];
          tot2 = map (\<lambda>j. add_overflow_uint64 (raw_sum2 a ! j) (sum2 r ! (ixs ! j))) [0..<bunches];
          (ts, turns_o) = add_overflow_uint (raw_turns a) (turns r)
      in (m\<lparr>accum := a\<lparr>
            raw_min := map (\<lambda>j. min16 (raw_min a ! j) (minimum r ! (ixs ! j))) [0..<bunches],
            raw_max := map (\<lambda>j. max16 (raw_max a ! j) (maximum r ! (ixs ! j))) [0..<bunches],
            raw_sum := map fst tot, raw_sum2 := map fst tot2, raw_turns := ts\<rparr>\<rparr>,
          sum_ovfl r \<or> (\<exists>x \<in> set tot. snd x), sum2_ovfl r \<or> (\<exists>x \<in> set tot2. snd x), turns_ovfl r \<or> turns_o))"

definition read_raw_mms :: "nat \<Rightarrow> bool \<Rightarrow> mms_result \<Rightarrow> ('d, 'f) mms_handler \<Rightarrow> ('d, 'f) mms_handler" where
  "read_raw_mms bunches initialise r m =
     (let m = (if \<not> initialise \<and> (turns_ovfl r \<or> sum_ovfl r \<or> sum2_ovfl r) then m\<lparr>overflow_log := overflow_log m @ [r]\<rparr> else m)
      in if initialise then reset_accum bunches m else fst (update_accum bunches r m))"

section \<open>Waveforms\<close>

definition min_f :: "'f arith \<Rightarrow> 'f \<Rightarrow> 'f \<Rightarrow> 'f" where "min_f A a b = (if d_less A a b then a else b)"
definition max_f :: "'f arith \<Rightarrow> 'f \<Rightarrow> 'f \<Rightarrow> 'f" where "max_f A a b = (if d_less A b a then a else b)"

definition bunch_mean :: "('d, 'f) floats \<Rightarrow> ('d, 'f) mms_accum \<Rightarrow> nat \<Rightarrow> 'd" where
  "bunch_mean F a i = d_div (dbl F) (d_int (dbl F) (sint (raw_sum a ! i))) (d_int (dbl F) (uint (raw_turns a)))"

definition bunch_var :: "('d, 'f) floats \<Rightarrow> ('d, 'f) mms_accum \<Rightarrow> nat \<Rightarrow> 'd" where
  "bunch_var F a i =
     (let D = dbl F; mean = bunch_mean F a i; mean2 = d_div D (d_int D (uint (raw_sum2 a ! i))) (d_int D (uint (raw_turns a)))
      in d_ldexp D (d_sub D mean2 (d_mul D mean mean)) (- 30))"

definition bunch_std :: "('d, 'f) floats \<Rightarrow> ('d, 'f) mms_accum \<Rightarrow> nat \<Rightarrow> 'f" where
  "bunch_std F a i =
     (let var = bunch_var F a i
      in d_sqrt (flt F) (if d_leq (dbl F) (d_int (dbl F) 0) var then to_float F var else d_int (flt F) 0))"

definition total :: "'d arith \<Rightarrow> 'd list \<Rightarrow> 'd" where
  "total A xs = foldl (d_add A) (d_int A 0) xs"

definition process_mms_waveforms :: "('d, 'f) floats \<Rightarrow> nat \<Rightarrow> ('d, 'f) mms_handler \<Rightarrow> ('d, 'f) mms_handler" where
  "process_mms_waveforms F bunches m =
     (let a = accum m; ix = [0..<bunches]; D = dbl F; S = flt F; n = d_int D (int bunches);
          scaled = (\<lambda>k. d_ldexp S (d_int S k) (- 15));
          stds = map (bunch_std F a) ix
      in m\<lparr>epics := (epics m)\<lparr>
             min_wf := map (\<lambda>i. scaled (sint (raw_min a ! i))) ix,
             max_wf := map (\<lambda>i. scaled (sint (raw_max a ! i))) ix,
             delta_wf := map (\<lambda>i. scaled (sint (raw_max a ! i) - sint (raw_min a ! i))) ix,
             mean_wf := map (\<lambda>i. d_ldexp S (to_float F (bunch_mean F a i)) (- 15)) ix,
             std_wf := stds,
             mean_mean := d_ldexp D (d_div D (total D (map (bunch_mean F a) ix)) n) (- 15),
             std_mean := d_sqrt D (d_div D (total D (map (bunch_var F a) ix)) n),
             mms_turns := raw_turns a\<rparr>,
           accum := a\<lparr>
             variance_sum := map (\<lambda>i. d_add D (variance_sum a ! i) (bunch_var F a i)) ix,
             std_min_acc := map (\<lambda>i. min_f S (std_min_acc a ! i) (stds ! i)) ix,
             std_max_acc := map (\<lambda>i. max_f S (std_max_acc a ! i) (stds ! i)) ix,
             variance_sum_count := variance_sum_count a + 1\<rparr>\<rparr>)"

definition update_archive_pvs :: "('d, 'f) floats \<Rightarrow> nat \<Rightarrow> ('d, 'f) mms_handler \<Rightarrow> ('d, 'f) mms_handler" where
  "update_archive_pvs F bunches m =
     (let a = accum m; D = dbl F; count = d_int D (uint (variance_sum_count a))
      in m\<lparr>epics := (epics m)\<lparr>
             std_mean_wf := map (\<lambda>i. to_float F (d_sqrt D (d_div D (variance_sum a ! i) count))) [0..<bunches],
             std_min_wf := std_min_acc a, std_max_wf := std_max_acc a\<rparr>,
           accum := a\<lparr>variance_sum_count := 0, variance_sum := replicate bunches (d_int D 0),
             std_min_acc := replicate bunches (infinity_f F), std_max_acc := replicate bunches (d_neg (flt F) (infinity_f F))\<rparr>\<rparr>)"

definition start_mms_readback :: "('d, 'f) floats \<Rightarrow> nat \<Rightarrow> mms_result \<Rightarrow> ('d, 'f) mms_handler \<Rightarrow> ('d, 'f) mms_handler" where
  "start_mms_readback F bunches r m = reset_accum bunches (process_mms_waveforms F bunches (read_raw_mms bunches False r m))"

definition create_mms_handler :: "('d, 'f) floats \<Rightarrow> nat \<Rightarrow> ('d, 'f) mms_handler" where
  "create_mms_handler F bunches =
     (let z = d_int (dbl F) 0; zs = replicate bunches (d_int (flt F) 0)
      in \<lparr>bunch_offset = 0,
          accum = \<lparr>raw_min = replicate bunches 0, raw_max = replicate bunches 0, raw_sum = replicate bunches 0, raw_sum2 = replicate bunches 0,
            variance_sum_count = 0, variance_sum = replicate bunches z, std_min_acc = zs, std_max_acc = zs, raw_turns = 0\<rparr>,
          epics = \<lparr>min_wf = zs, max_wf = zs, delta_wf = zs, mean_wf = zs, std_wf = zs, mean_mean = z, std_mean = z,
            std_mean_wf = zs, std_min_wf = zs, std_max_wf = zs, mms_turns = 0\<rparr>,
          overflow_log = []\<rparr>)"

definition set_mms_offset :: "nat \<Rightarrow> ('d, 'f) mms_handler \<Rightarrow> ('d, 'f) mms_handler" where
  "set_mms_offset off m = m\<lparr>bunch_offset := off\<rparr>"

definition read_mms_mean :: "nat \<Rightarrow> ('d, 'f) mms_handler \<Rightarrow> 'f list" where
  "read_mms_mean bunches m = take bunches (mean_wf (epics m))"

section \<open>The polling thread\<close>

text \<open>\<open>rs\<close> gives what each handler reads.\<close>

definition read_mms_handlers :: "nat \<Rightarrow> bool \<Rightarrow> mms_result list \<Rightarrow> ('d, 'f) mms_handler list \<Rightarrow> ('d, 'f) mms_handler list" where
  "read_mms_handlers bunches initialise rs ms = map2 (read_raw_mms bunches initialise) rs ms"

definition update_all_archive_pvs :: "('d, 'f) floats \<Rightarrow> nat \<Rightarrow> ('d, 'f) mms_handler list \<Rightarrow> ('d, 'f) mms_handler list" where
  "update_all_archive_pvs F bunches ms = map (update_archive_pvs F bunches) ms"

text \<open>The first archive update is at the next whole multiple of the interval; then one poll of the thread at time \<open>now\<close>.\<close>

definition first_archive :: "int \<Rightarrow> int \<Rightarrow> int" where
  "first_archive interval now = interval * (1 + now div interval)"

definition poll_mms ::
  "('d, 'f) floats \<Rightarrow> nat \<Rightarrow> int \<Rightarrow> int \<Rightarrow> mms_result list \<Rightarrow> int \<times> ('d, 'f) mms_handler list \<Rightarrow> int \<times> ('d, 'f) mms_handler list" where
  "poll_mms F bunches interval now rs = (\<lambda>(due, ms).
     let ms = read_mms_handlers bunches False rs ms
     in if due \<le> now then (due + interval, update_all_archive_pvs F bunches ms) else (due, ms))"

end
