(* ===== verification/Mms_Properties.thy ===== *)
theory Mms_Properties
  imports Mms
begin

text \<open>
  What the waveforms mean: the published extremes, means and deviations are those of the samples of each
  bunch since the last scan, and the archive waveforms those of the scans since the last archive update.
  Means and deviations are stated in exact arithmetic.
\<close>

section \<open>Samples and their statistics\<close>

text \<open>A reading of the hardware summarises the samples \<open>S k\<close> of each of its bunches \<open>k\<close>.\<close>

definition summarises :: "nat \<Rightarrow> mms_result \<times> (nat \<Rightarrow> int list) \<Rightarrow> bool" where
  "summarises n rS \<longleftrightarrow> (case rS of (r, S) \<Rightarrow> (\<forall>k < n. S k \<noteq> [] \<and> int (length (S k)) = uint (turns r) \<and>
     set (S k) \<subseteq> {- 32768..32767} \<and> sint (minimum r ! k) = Min (set (S k)) \<and> sint (maximum r ! k) = Max (set (S k)) \<and>
     sint (sum_of r ! k) = sum_list (S k) \<and> uint (sum2 r ! k) = sum_list (map (\<lambda>x. x * x) (S k))))"

definition average :: "int list \<Rightarrow> real" where
  "average xs = of_int (sum_list xs) / of_nat (length xs)"

definition variance :: "int list \<Rightarrow> real" where
  "variance xs = (\<Sum>x\<leftarrow>xs. (of_int x - average xs)\<^sup>2) / of_nat (length xs)"

lemma variance_alt:
  assumes "xs \<noteq> []"
  shows "variance xs = of_int (sum_list (map (\<lambda>x. x * x) xs)) / of_nat (length xs) - average xs * average xs"
proof -
  let ?m = "average xs"
  have s: "(\<Sum>x\<leftarrow>ys. (of_int x - m)\<^sup>2) = of_int (sum_list (map (\<lambda>x. x * x) ys)) - 2 * m * of_int (sum_list ys) + of_nat (length ys) * m\<^sup>2"
    for ys and m :: real
    by (induction ys) (simp_all add: power2_eq_square algebra_simps)
  have n: "(of_nat (length xs) :: real) \<noteq> 0" using assms by simp
  have "of_int (sum_list xs) = of_nat (length xs) * ?m" using n by (simp add: average_def)
  then have "variance xs * of_nat (length xs) =
      (of_int (sum_list (map (\<lambda>x. x * x) xs)) / of_nat (length xs) - ?m * ?m) * of_nat (length xs)"
    unfolding variance_def s [of ?m xs] using n by (simp add: field_simps power2_eq_square)
  then show ?thesis using n by simp
qed

lemma variance_nonneg: "0 \<le> variance xs"
proof -
  have "0 \<le> (\<Sum>x\<leftarrow>xs. (of_int x - m)\<^sup>2)" for m :: real by (induction xs) simp_all
  then show ?thesis by (simp add: variance_def)
qed

section \<open>The accumulator\<close>

text \<open>The accumulator holds the extremes and sums of the samples \<open>H j\<close> of each bunch \<open>j\<close>.\<close>

definition accumulates :: "nat \<Rightarrow> (nat \<Rightarrow> int list) \<Rightarrow> ('d, 'f) mms_accum \<Rightarrow> bool" where
  "accumulates n H a \<longleftrightarrow> (\<forall>j < n. int (length (H j)) = uint (raw_turns a) \<and> set (H j) \<subseteq> {- 32768..32767} \<and>
     sint (raw_min a ! j) = Min (insert 32767 (set (H j))) \<and> sint (raw_max a ! j) = Max (insert (- 32768) (set (H j))) \<and>
     sint (raw_sum a ! j) = sum_list (H j) \<and> uint (raw_sum2 a ! j) = sum_list (map (\<lambda>x. x * x) (H j)))"

lemma sum_bounds:
  assumes "set xs \<subseteq> {- 32768..32767::int}" "int (length xs) < 2 ^ 32"
  shows "\<bar>sum_list xs\<bar> \<le> 32768 * int (length xs)" "0 \<le> sum_list (map (\<lambda>x. x * x) xs)" "sum_list (map (\<lambda>x. x * x) xs) \<le> 2 ^ 30 * int (length xs)"
proof -
  show "\<bar>sum_list xs\<bar> \<le> 32768 * int (length xs)" using assms(1) by (induction xs) auto
  show "0 \<le> sum_list (map (\<lambda>x. x * x) xs)" by (induction xs) auto
  have sq: "x * x \<le> 2 ^ 30" if "x \<in> {- 32768..32767}" for x :: int
  proof -
    have "\<bar>x\<bar> \<le> 32768" using that by auto
    then have "\<bar>x\<bar> * \<bar>x\<bar> \<le> 32768 * 32768" by (intro mult_mono) auto
    then show ?thesis by (simp add: abs_mult_self_eq)
  qed
  show "sum_list (map (\<lambda>x. x * x) xs) \<le> 2 ^ 30 * int (length xs)" using assms(1)
  proof (induction xs)
    case (Cons x xs)
    then have "x * x \<le> 2 ^ 30" "sum_list (map (\<lambda>x. x * x) xs) \<le> 2 ^ 30 * int (length xs)" using sq [of x] by auto
    then show ?case by simp
  qed simp
qed

lemma sint_sum_fits: "- (2 ^ 63) \<le> sint a + sint b \<Longrightarrow> sint a + sint b < 2 ^ 63 \<Longrightarrow> sint (a + b) = sint a + sint b" for a b :: u64
  by (simp add: sint_word_ariths signed_take_bit_int_eq_self)

lemma uint_sum_fits: "uint a + uint b < 2 ^ LENGTH('a) \<Longrightarrow> uint (a + b) = uint a + uint b" for a b :: "'a::len word"
  by (simp add: uint_add_lem)

lemma min16_int: "sint (min16 a b) = min (sint a) (sint b)" and max16_int: "sint (max16 a b) = max (sint a) (sint b)"
  by (auto simp: min16_def max16_def word_sless_alt)

lemma accumulates_reset: "accumulates n (\<lambda>_. []) (accum (reset_accum n m))"
  by (auto simp: accumulates_def reset_accum_def)

lemma accumulates_update:
  assumes "accumulates n H (accum m)" "summarises n (r, S)" "bunch_offset m < n"
    "uint (raw_turns (accum m)) + uint (turns r) < 2 ^ 32"
  shows "accumulates n (\<lambda>j. H j @ S ((j + bunch_offset m) mod n)) (accum (fst (update_accum n r m)))"
  unfolding accumulates_def
proof (intro allI impI)
  fix j assume j: "j < n"
  define k where "k = (j + bunch_offset m) mod n"
  let ?a = "accum m" and ?xs = "H j @ S k"
  have k: "k < n" using assms(3) by (simp add: k_def)
  have ix: "offset_loop n (bunch_offset m) n ! j = k" using offset_loop_nth [OF assms(3) j] by (simp add: k_def)
  have H: "int (length (H j)) = uint (raw_turns ?a)" "set (H j) \<subseteq> {- 32768..32767}" "sint (raw_min ?a ! j) = Min (insert 32767 (set (H j)))"
      "sint (raw_max ?a ! j) = Max (insert (- 32768) (set (H j)))" "sint (raw_sum ?a ! j) = sum_list (H j)"
      "uint (raw_sum2 ?a ! j) = sum_list (map (\<lambda>x. x * x) (H j))"
    using assms(1) j by (simp_all add: accumulates_def)
  have S: "S k \<noteq> []" "int (length (S k)) = uint (turns r)" "set (S k) \<subseteq> {- 32768..32767}" "sint (minimum r ! k) = Min (set (S k))"
      "sint (maximum r ! k) = Max (set (S k))" "sint (sum_of r ! k) = sum_list (S k)" "uint (sum2 r ! k) = sum_list (map (\<lambda>x. x * x) (S k))"
    using assms(2) k by (simp_all add: summarises_def)
  have len: "int (length ?xs) < 2 ^ 32" using assms(4) H(1) S(2) by simp
  have set: "set ?xs \<subseteq> {- 32768..32767}" using H(2) S(3) by auto
  note b = sum_bounds [OF set len]
  let ?u = "accum (fst (update_accum n r m))"
  have u: "raw_turns ?u = raw_turns ?a + turns r" "raw_min ?u ! j = min16 (raw_min ?a ! j) (minimum r ! k)"
      "raw_max ?u ! j = max16 (raw_max ?a ! j) (maximum r ! k)" "raw_sum ?u ! j = raw_sum ?a ! j + scast (sum_of r ! k)"
      "raw_sum2 ?u ! j = raw_sum2 ?a ! j + sum2 r ! k"
    using j by (simp_all add: update_accum_def add_overflow_uint_def add_overflow_int64_def add_overflow_uint64_def Let_def ix)
  have "uint (raw_turns ?u) = int (length ?xs)" using uint_sum_fits [of "raw_turns ?a" "turns r"] assms(4) by (simp add: u H(1) S(2))
  moreover have "sint (raw_min ?u ! j) = Min (insert 32767 (set ?xs))"
    using S(1) by (simp add: u min16_int H(3) S(4) Min_Un Un_insert_left [symmetric] del: Un_insert_left)
  moreover have "sint (raw_max ?u ! j) = Max (insert (- 32768) (set ?xs))"
    using S(1) by (simp add: u max16_int H(4) S(5) Max_Un Un_insert_left [symmetric] del: Un_insert_left)
  moreover have "sint (raw_sum ?u ! j) = sum_list ?xs"
  proof -
    have c: "sint (scast (sum_of r ! k) :: u64) = sum_list (S k)" by (simp add: sint_up_scast is_up flip: S(6))
    show ?thesis using sint_sum_fits [of "raw_sum ?a ! j" "scast (sum_of r ! k)"] b(1) len unfolding u c H(5) by simp
  qed
  moreover have "uint (raw_sum2 ?u ! j) = sum_list (map (\<lambda>x. x * x) ?xs)"
    using uint_sum_fits [of "raw_sum2 ?a ! j" "sum2 r ! k"] b(3) len by (simp add: u H(6) S(7))
  ultimately show "int (length (H j @ S ((j + bunch_offset m) mod n))) = uint (raw_turns ?u) \<and>
      set (H j @ S ((j + bunch_offset m) mod n)) \<subseteq> {- 32768..32767} \<and>
      sint (raw_min ?u ! j) = Min (insert 32767 (set (H j @ S ((j + bunch_offset m) mod n)))) \<and>
      sint (raw_max ?u ! j) = Max (insert (- 32768) (set (H j @ S ((j + bunch_offset m) mod n)))) \<and>
      sint (raw_sum ?u ! j) = sum_list (H j @ S ((j + bunch_offset m) mod n)) \<and>
      uint (raw_sum2 ?u ! j) = sum_list (map (\<lambda>x. x * x) (H j @ S ((j + bunch_offset m) mod n)))"
    using set by (simp add: k_def)
qed

definition gathered :: "nat \<Rightarrow> nat \<Rightarrow> (mms_result \<times> (nat \<Rightarrow> int list)) list \<Rightarrow> nat \<Rightarrow> int list" where
  "gathered n off rs j = concat (map (\<lambda>(r, S). S ((j + off) mod n)) rs)"

definition total_turns :: "(mms_result \<times> (nat \<Rightarrow> int list)) list \<Rightarrow> int" where
  "total_turns rs = sum_list (map (\<lambda>(r, S). uint (turns r)) rs)"

definition poll_all :: "nat \<Rightarrow> (mms_result \<times> (nat \<Rightarrow> int list)) list \<Rightarrow> ('d, 'f) mms_handler \<Rightarrow> ('d, 'f) mms_handler" where
  "poll_all n rs m = fold (\<lambda>(r, S). read_raw_mms n False r) rs m"

lemma total_turns_nonneg: "0 \<le> total_turns rs"
  by (induction rs) (auto simp: total_turns_def)

lemma read_raw_accum:
  "accum (read_raw_mms n False r m) = accum (fst (update_accum n r m))" "bunch_offset (read_raw_mms n False r m) = bunch_offset m"
  by (simp_all add: read_raw_mms_def update_accum_def Let_def split: prod.splits)

lemma accumulates_poll:
  assumes "accumulates n H (accum m)" "list_all (summarises n) rs" "bunch_offset m < n" "uint (raw_turns (accum m)) + total_turns rs < 2 ^ 32"
  shows "accumulates n (\<lambda>j. H j @ gathered n (bunch_offset m) rs j) (accum (poll_all n rs m)) \<and> bunch_offset (poll_all n rs m) = bunch_offset m"
  using assms
proof (induction rs arbitrary: H m)
  case (Cons rS rs)
  obtain r S where rS: "rS = (r, S)" by fastforce
  let ?m = "read_raw_mms n False r m"
  have t: "total_turns (rS # rs) = uint (turns r) + total_turns rs" by (simp add: total_turns_def rS)
  have fits: "uint (raw_turns (accum m)) + uint (turns r) < 2 ^ 32" using Cons.prems(4) total_turns_nonneg [of rs] t by simp
  have "accumulates n (\<lambda>j. H j @ S ((j + bunch_offset m) mod n)) (accum ?m)"
    using accumulates_update [OF Cons.prems(1) _ Cons.prems(3) fits] Cons.prems(2) rS by (simp add: read_raw_accum)
  moreover have "raw_turns (accum ?m) = raw_turns (accum m) + turns r"
    by (simp add: read_raw_accum update_accum_def add_overflow_uint_def Let_def)
  then have "uint (raw_turns (accum ?m)) + total_turns rs < 2 ^ 32" using uint_sum_fits [of "raw_turns (accum m)" "turns r"] fits Cons.prems(4) t by simp
  ultimately have "accumulates n (\<lambda>j. (H j @ S ((j + bunch_offset m) mod n)) @ gathered n (bunch_offset ?m) rs j) (accum (poll_all n rs ?m)) \<and>
      bunch_offset (poll_all n rs ?m) = bunch_offset ?m"
    using Cons.IH [of "\<lambda>j. H j @ S ((j + bunch_offset m) mod n)" ?m] Cons.prems(2,3) by (simp add: read_raw_accum)
  then show ?case by (simp add: gathered_def poll_all_def rS read_raw_accum)
qed (simp add: gathered_def poll_all_def)

lemma published_statistics:
  assumes "accumulates n H a" "j < n" "H j \<noteq> []"
  shows "bunch_mean (exact_floats e big) a j = average (H j)" "bunch_var (exact_floats e big) a j = variance (H j) / 2 ^ 30"
    "bunch_std (exact_floats e big) a j = sqrt (variance (H j)) / 2 ^ 15"
    "sint (raw_min a ! j) = Min (set (H j))" "sint (raw_max a ! j) = Max (set (H j))"
proof -
  have a: "of_int (uint (raw_turns a)) = real (length (H j))" "sint (raw_sum a ! j) = sum_list (H j)"
      "uint (raw_sum2 a ! j) = sum_list (map (\<lambda>x. x * x) (H j))"
  proof -
    have l: "uint (raw_turns a) = int (length (H j))" using assms(1,2) by (simp add: accumulates_def)
    show "of_int (uint (raw_turns a)) = real (length (H j))" by (simp only: l of_int_of_nat_eq)
  qed (use assms(1,2) in \<open>simp_all add: accumulates_def\<close>)
  show m: "bunch_mean (exact_floats e big) a j = average (H j)" by (simp only: bunch_mean_def average_def exact_floats_simps exact_simps a)
  have "bunch_var (exact_floats e big) a j =
      (of_int (sum_list (map (\<lambda>x. x * x) (H j))) / real (length (H j)) - average (H j) * average (H j)) * 2 powi (- 30)"
    by (simp only: bunch_var_def Let_def m exact_floats_simps exact_simps a)
  also have "\<dots> = variance (H j) / 2 ^ 30" by (simp add: variance_alt [OF assms(3)] power_int_def power_one_over)
  finally show v: "bunch_var (exact_floats e big) a j = variance (H j) / 2 ^ 30" .
  have "sqrt (2 ^ 30) = (2::real) ^ 15" by (rule real_sqrt_unique) simp_all
  then show "bunch_std (exact_floats e big) a j = sqrt (variance (H j)) / 2 ^ 15"
    using variance_nonneg [of "H j"] by (simp add: bunch_std_def v Let_def real_sqrt_divide del: power_numeral)
  have s: "set (H j) \<subseteq> {- 32768..32767}" "sint (raw_min a ! j) = Min (insert 32767 (set (H j)))" "sint (raw_max a ! j) = Max (insert (- 32768) (set (H j)))"
    using assms(1,2) by (simp_all add: accumulates_def)
  have "Min (set (H j)) \<in> set (H j)" "Max (set (H j)) \<in> set (H j)" using assms(3) by simp_all
  then have "Min (set (H j)) \<le> 32767" "- 32768 \<le> Max (set (H j))" using s(1) by auto
  then show "sint (raw_min a ! j) = Min (set (H j))" "sint (raw_max a ! j) = Max (set (H j))"
    using assms(3) by (simp_all add: s(2,3) min_absorb2 max_absorb2)
qed

text \<open>C22 A scan publishes the statistics of the samples: with polls \<open>rs\<close> since the last scan and the one of the scan itself,
  each summing up the samples of its turns and of less than \<open>2 ^ 32\<close> turns in all, the waveforms hold for every
  bunch the least, the greatest and the range of its samples, their mean and their standard deviation, in units of the full
  scale, the number of turns, and nothing of it remains in the accumulator.  Bunches are displaced by the offset of the source.\<close>

theorem scan_publishes_statistics:
  assumes "bunch_offset m < n" "list_all (summarises n) (rs @ [(r, S)])" "total_turns (rs @ [(r, S)]) < 2 ^ 32"
    "m' = start_mms_readback (exact_floats e big) n r (poll_all n rs (reset_accum n m))" "j < n" "xs = gathered n (bunch_offset m) (rs @ [(r, S)]) j"
  shows "min_wf (epics m') ! j = of_int (Min (set xs)) / 2 ^ 15 \<and> max_wf (epics m') ! j = of_int (Max (set xs)) / 2 ^ 15 \<and>
    delta_wf (epics m') ! j = of_int (Max (set xs) - Min (set xs)) / 2 ^ 15 \<and> mean_wf (epics m') ! j = average xs / 2 ^ 15 \<and>
    std_wf (epics m') ! j = sqrt (variance xs) / 2 ^ 15 \<and> int (length xs) = uint (mms_turns (epics m')) \<and>
    accumulates n (\<lambda>_. []) (accum m')"
proof -
  define u where "u = poll_all n (rs @ [(r, S)]) (reset_accum n m)"
  have o: "bunch_offset (reset_accum n m) = bunch_offset m" "raw_turns (accum (reset_accum n m)) = 0" by (simp_all add: reset_accum_def)
  have acc: "accumulates n (gathered n (bunch_offset m) (rs @ [(r, S)])) (accum u)"
    using accumulates_poll [OF accumulates_reset [of n m] assms(2)] assms(1,3) by (simp add: u_def o)
  have m': "m' = reset_accum n (process_mms_waveforms (exact_floats e big) n u)"
    by (simp add: assms(4) start_mms_readback_def u_def poll_all_def)
  have "S ((j + bunch_offset m) mod n) \<noteq> []" using assms(2,5) by (simp add: summarises_def)
  then have ne: "xs \<noteq> []" by (simp add: assms(6) gathered_def)
  note st = published_statistics [OF acc assms(5), folded assms(6), OF ne]
  have len: "int (length xs) = uint (raw_turns (accum u))" using acc assms(5) by (simp add: accumulates_def assms(6))
  have p: "(x::real) * 2 powi (- 15) = x / 2 ^ 15" for x by (simp add: power_int_def power_one_over)
  have e: "epics m' = epics (process_mms_waveforms (exact_floats e big) n u)" by (simp add: m' reset_accum_def)
  have d: "sint (raw_max (accum u) ! j) - sint (raw_min (accum u) ! j) = Max (set xs) - Min (set xs)" by (simp only: st(4,5))
  have "delta_wf (epics (process_mms_waveforms (exact_floats e big) n u)) ! j = of_int (Max (set xs) - Min (set xs)) / 2 ^ 15"
    using assms(5) by (simp add: process_mms_waveforms_def Let_def p d del: of_int_diff)
  moreover have "min_wf (epics (process_mms_waveforms (exact_floats e big) n u)) ! j = of_int (Min (set xs)) / 2 ^ 15"
      "max_wf (epics (process_mms_waveforms (exact_floats e big) n u)) ! j = of_int (Max (set xs)) / 2 ^ 15"
    using assms(5) arg_cong [OF st(4), of real_of_int] arg_cong [OF st(5), of real_of_int]
    by (simp_all add: process_mms_waveforms_def Let_def p)
  moreover have "mean_wf (epics (process_mms_waveforms (exact_floats e big) n u)) ! j = average xs / 2 ^ 15"
      "std_wf (epics (process_mms_waveforms (exact_floats e big) n u)) ! j = sqrt (variance xs) / 2 ^ 15"
      "int (length xs) = uint (mms_turns (epics (process_mms_waveforms (exact_floats e big) n u)))"
    using assms(5) by (simp_all add: process_mms_waveforms_def Let_def p st(1,3) len)
  moreover have "accumulates n (\<lambda>_. []) (accum m')" by (simp add: m' accumulates_reset)
  ultimately show ?thesis unfolding e by blast
qed

section \<open>The archive waveforms\<close>

text \<open>Polls and scans between two updates of the archive; the deviations published by the scans are collected.\<close>

datatype mms_op = Poll mms_result | Scan mms_result

fun mms_run :: "('d, 'f) floats \<Rightarrow> nat \<Rightarrow> mms_op list \<Rightarrow> ('d, 'f) mms_handler \<Rightarrow> ('d, 'f) mms_handler \<times> 'f list list" where
  "mms_run F n [] m = (m, [])"
| "mms_run F n (Poll r # ops) m = mms_run F n ops (read_raw_mms n False r m)"
| "mms_run F n (Scan r # ops) m =
     (let m1 = start_mms_readback F n r m; (m2, ss) = mms_run F n ops m1 in (m2, std_wf (epics m1) # ss))"

lemma update_accum_std [simp]:
  "std_min_acc (accum (fst (update_accum n r m))) = std_min_acc (accum m)" "std_max_acc (accum (fst (update_accum n r m))) = std_max_acc (accum m)"
  "variance_sum (accum (fst (update_accum n r m))) = variance_sum (accum m)"
  "variance_sum_count (accum (fst (update_accum n r m))) = variance_sum_count (accum m)"
  by (simp_all add: update_accum_def Let_def split: prod.splits)

lemma scan_std:
  assumes "j < n"
  shows "std_min_acc (accum (start_mms_readback F n r m)) ! j =
      min_f (flt F) (std_min_acc (accum m) ! j) (std_wf (epics (start_mms_readback F n r m)) ! j)"
    "std_max_acc (accum (start_mms_readback F n r m)) ! j =
      max_f (flt F) (std_max_acc (accum m) ! j) (std_wf (epics (start_mms_readback F n r m)) ! j)"
  using assms by (simp_all add: start_mms_readback_def reset_accum_def process_mms_waveforms_def Let_def read_raw_accum)

lemma run_std:
  assumes "mms_run F n ops m = (m', ss)" "j < n"
  shows "std_min_acc (accum m') ! j = fold (\<lambda>s x. min_f (flt F) x (s ! j)) ss (std_min_acc (accum m) ! j) \<and>
    std_max_acc (accum m') ! j = fold (\<lambda>s x. max_f (flt F) x (s ! j)) ss (std_max_acc (accum m) ! j)"
  using assms
proof (induction ops arbitrary: m ss)
  case (Cons op ops)
  show ?case
  proof (cases op)
    case (Poll r)
    then show ?thesis using Cons.IH [of "read_raw_mms n False r m" ss] Cons.prems by (simp add: read_raw_accum)
  next
    case (Scan r)
    obtain ss' where r: "mms_run F n ops (start_mms_readback F n r m) = (m', ss')" "ss = std_wf (epics (start_mms_readback F n r m)) # ss'"
      using Cons.prems(1) Scan by (auto simp: Let_def split: prod.splits)
    show ?thesis using Cons.IH [OF r(1) assms(2)] by (simp add: r(2) scan_std [OF assms(2)])
  qed
qed simp

lemma fold_min_max:
  "fold (\<lambda>s x. min_f (exact e) x (s ! j)) ss (b::real) = Min (insert b ((\<lambda>s. s ! j) ` set ss))"
  "fold (\<lambda>s x. max_f (exact e) x (s ! j)) ss b = Max (insert b ((\<lambda>s. s ! j) ` set ss))"
proof -
  have m: "min_f (exact e) x y = min y x" "max_f (exact e) x y = max y x" for x y :: real by (auto simp: min_f_def max_f_def)
  have "fold (\<lambda>s x. min_f (exact e) x (s ! j)) ss b = fold min (map (\<lambda>s. s ! j) ss) b" by (simp add: fold_map comp_def m)
  then show "fold (\<lambda>s x. min_f (exact e) x (s ! j)) ss b = Min (insert b ((\<lambda>s. s ! j) ` set ss))"
    using Min.set_eq_fold [of b "map (\<lambda>s. s ! j) ss"] by simp
  have "fold (\<lambda>s x. max_f (exact e) x (s ! j)) ss b = fold max (map (\<lambda>s. s ! j) ss) b" by (simp add: fold_map comp_def m)
  then show "fold (\<lambda>s x. max_f (exact e) x (s ! j)) ss b = Max (insert b ((\<lambda>s. s ! j) ` set ss))"
    using Max.set_eq_fold [of b "map (\<lambda>s. s ! j) ss"] by simp
qed

text \<open>The archive waveforms are the extremes of the deviations of the scans since the last update: whatever polls and
  scans were made in between, the greatest and the least deviation published for each bunch since then, when
  infinity exceeds all of them.\<close>

theorem archive_extremes:
  assumes "mms_run (exact_floats e big) n ops (update_archive_pvs (exact_floats e big) n m) = (m', ss)" "ss \<noteq> []" "j < n"
    "\<forall>s \<in> set ss. \<bar>s ! j\<bar> \<le> big" "m'' = update_archive_pvs (exact_floats e big) n m'"
  shows "std_min_wf (epics m'') ! j = Min ((\<lambda>s. s ! j) ` set ss) \<and> std_max_wf (epics m'') ! j = Max ((\<lambda>s. s ! j) ` set ss)"
proof -
  let ?X = "(\<lambda>s. s ! j) ` set ss"
  have i: "std_min_acc (accum (update_archive_pvs (exact_floats e big) n m)) ! j = big"
      "std_max_acc (accum (update_archive_pvs (exact_floats e big) n m)) ! j = - big"
    using assms(3) by (simp_all add: update_archive_pvs_def Let_def)
  have X: "finite ?X" "?X \<noteq> {}" "\<forall>x \<in> ?X. x \<le> big" "\<forall>x \<in> ?X. - big \<le> x" using assms(2,4) by auto
  have "Min ?X \<le> big" "- big \<le> Max ?X" using X Min_in [OF X(1,2)] Max_in [OF X(1,2)] by blast+
  then have "Min (insert big ?X) = Min ?X" "Max (insert (- big) ?X) = Max ?X"
    by (simp_all only: Min_insert [OF X(1,2)] Max_insert [OF X(1,2)] min_absorb2 max_absorb2)
  then show ?thesis using run_std [OF assms(1,3)] assms(3) by (simp add: assms(5) update_archive_pvs_def Let_def i fold_min_max)
qed


text \<open>The first archive update is wrong: the least deviations start from the zeros of the allocation rather than from
  infinity, so the first update after the start publishes zero for every bunch, whatever was scanned.\<close>

theorem first_archive_zero:
  assumes "mms_run (exact_floats e big) n ops (create_mms_handler (exact_floats e big) n) = (m', ss)" "j < n"
  shows "std_min_wf (epics (update_archive_pvs (exact_floats e big) n m')) ! j = 0"
proof -
  have "0 \<le> std_wf (epics (start_mms_readback (exact_floats e big) n r m)) ! j" for r m
    using assms(2) by (simp add: start_mms_readback_def reset_accum_def process_mms_waveforms_def bunch_std_def Let_def)
  then have "mms_run (exact_floats e big) n ops m = (m', ss) \<Longrightarrow> \<forall>s \<in> set ss. 0 \<le> s ! j" for m ss
  proof (induction ops arbitrary: m ss)
    case (Cons op ops)
    then show ?case by (cases op) (auto simp: Let_def split: prod.splits)
  qed simp
  then have "\<forall>x \<in> (\<lambda>s. s ! j) ` set ss. 0 \<le> x" using assms(1) by blast
  then have "Min (insert 0 ((\<lambda>s. s ! j) ` set ss)) = 0" by (intro Min_eqI) auto
  then show ?thesis using run_std [OF assms(1,2)] assms(2)
    by (simp add: update_archive_pvs_def Let_def fold_min_max create_mms_handler_def)
qed

section \<open>The polling thread\<close>

text \<open>An archive update that is late by an interval or more is followed by one that is empty: the next poll updates the
  archive again although no scan has come in between, and publishes infinity as the least and minus
  infinity as the greatest deviation of every bunch, and the root of zero over zero as its mean.\<close>

theorem late_archive_empty:
  assumes "poll_mms F n interval now rs (due, ms) = (due1, ms1)" "due + interval \<le> now" "0 \<le> interval" "now \<le> now'"
    "poll_mms F n interval now' rs' (due1, ms1) = (due2, ms2)" "length rs = length ms" "length rs' = length ms" "i < length ms"
  shows "std_min_wf (epics (ms2 ! i)) = replicate n (infinity_f F) \<and>
    std_max_wf (epics (ms2 ! i)) = replicate n (d_neg (flt F) (infinity_f F)) \<and>
    std_mean_wf (epics (ms2 ! i)) =
      replicate n (to_float F (d_sqrt (dbl F) (d_div (dbl F) (d_int (dbl F) 0) (d_int (dbl F) 0))))"
proof -
  have 1: "due1 = due + interval" "ms1 ! i = update_archive_pvs F n (read_raw_mms n False (rs ! i) (ms ! i))" "length ms1 = length ms"
    using assms(1-3,6,8) by (auto simp: poll_mms_def read_mms_handlers_def update_all_archive_pvs_def split: if_splits)
  then have 2: "ms2 ! i = update_archive_pvs F n (read_raw_mms n False (rs' ! i) (ms1 ! i))"
    using assms(2,4,5,7,8) by (auto simp: poll_mms_def read_mms_handlers_def update_all_archive_pvs_def split: if_splits)
  show ?thesis unfolding 2 1(2)
    by (simp add: update_archive_pvs_def read_raw_accum Let_def list_eq_iff_nth_eq)
qed

section \<open>Concrete readings\<close>

definition sample_result :: mms_result where
  "sample_result = \<lparr>turns = 2, turns_ovfl = False, sum_ovfl = False, sum2_ovfl = False, minimum = [1, 3], maximum = [2, 4],
     sum_of = [3, 7], sum2 = [5, 25]\<rparr>"

definition sample_samples :: "nat \<Rightarrow> int list" where
  "sample_samples k = (if k = 0 then [1, 2] else [3, 4])"

definition zero_result :: mms_result where
  "zero_result = \<lparr>turns = 1, turns_ovfl = False, sum_ovfl = False, sum2_ovfl = False, minimum = [0], maximum = [0], sum_of = [0], sum2 = [0]\<rparr>"

definition displaced_handler :: "(real, real) mms_handler" where
  "displaced_handler = set_mms_offset 1 (create_mms_handler (exact_floats 0 1) 2)"

lemma sample_summarised: "summarises 2 (sample_result, sample_samples)"
  by (auto simp: summarises_def sample_result_def sample_samples_def less_2_cases_iff)

theorem scan_publishes_statistics_witness:
  "mean_wf (epics (start_mms_readback (exact_floats 0 1) 2 sample_result
      (poll_all 2 [(sample_result, sample_samples)] (reset_accum 2 displaced_handler)))) ! 0 = average [3, 4, 3, 4] / 2 ^ 15"
proof -
  have o: "bunch_offset displaced_handler = 1" by (simp add: displaced_handler_def set_mms_offset_def)
  have g: "gathered 2 1 ([(sample_result, sample_samples)] @ [(sample_result, sample_samples)]) 0 = [3, 4, 3, 4]"
    by (simp add: gathered_def sample_samples_def)
  have "bunch_offset displaced_handler < 2" by (simp add: o)
  note b = this
  have l: "list_all (summarises 2) ([(sample_result, sample_samples)] @ [(sample_result, sample_samples)])" by (simp add: sample_summarised)
  have t: "total_turns ([(sample_result, sample_samples)] @ [(sample_result, sample_samples)]) < 2 ^ 32"
    by (simp add: total_turns_def sample_result_def)
  have "0 < (2::nat)" by simp
  from scan_publishes_statistics [OF b l t refl this refl, of 0 1] show ?thesis unfolding o g by blast
qed

theorem archive_extremes_witness:
  "\<exists>m' ss. mms_run (exact_floats 0 1) 1 [Scan zero_result] (update_archive_pvs (exact_floats 0 1) 1 (create_mms_handler (exact_floats 0 1) 1)) = (m', ss) \<and>
    std_max_wf (epics (update_archive_pvs (exact_floats 0 1) 1 m')) ! 0 = Max ((\<lambda>s. s ! 0) ` set ss)"
proof -
  let ?m = "update_archive_pvs (exact_floats 0 1) 1 (create_mms_handler (exact_floats 0 1) 1)"
  define m1 where "m1 = start_mms_readback (exact_floats 0 1) 1 zero_result ?m"
  have r: "mms_run (exact_floats 0 1) 1 [Scan zero_result] ?m = (m1, [std_wf (epics m1)])" by (simp add: m1_def Let_def)
  have "std_wf (epics m1) ! 0 = 0"
    by (simp add: m1_def start_mms_readback_def reset_accum_def process_mms_waveforms_def read_raw_mms_def update_accum_def
        add_overflow_int64_def add_overflow_uint64_def add_overflow_uint_def bunch_std_def bunch_var_def bunch_mean_def
        update_archive_pvs_def create_mms_handler_def zero_result_def Let_def)
  then have "\<forall>s \<in> set [std_wf (epics m1)]. \<bar>s ! 0\<bar> \<le> 1" by simp
  from archive_extremes [OF r _ _ this refl] r show ?thesis by fastforce
qed

theorem first_archive_zero_witness:
  "\<exists>m' ss. mms_run (exact_floats 0 1) 2 [Scan sample_result] (create_mms_handler (exact_floats 0 1) 2) = (m', ss) \<and>
    std_min_wf (epics (update_archive_pvs (exact_floats 0 1) 2 m')) ! 1 = 0"
proof -
  obtain m' ss where r: "mms_run (exact_floats 0 1) 2 [Scan sample_result] (create_mms_handler (exact_floats 0 1) 2) = (m', ss)" by fastforce
  show ?thesis using first_archive_zero [OF r, of 1] r by auto
qed

theorem late_archive_empty_witness:
  "\<exists>ms1 ms2. poll_mms (exact_floats 0 1) 2 10 25 [sample_result] (10, [displaced_handler]) = (20, ms1) \<and>
    poll_mms (exact_floats 0 1) 2 10 26 [sample_result] (20, ms1) = (30, ms2) \<and> std_min_wf (epics (ms2 ! 0)) = [1, 1]"
proof -
  obtain ms1 where 1: "poll_mms (exact_floats 0 1) 2 10 25 [sample_result] (10, [displaced_handler]) = (20, ms1)"
    by (simp add: poll_mms_def)
  obtain ms2 where 2: "poll_mms (exact_floats 0 1) 2 10 26 [sample_result] (20, ms1) = (30, ms2)"
    by (simp add: poll_mms_def)
  have "std_min_wf (epics (ms2 ! 0)) = [1, 1]"
    using late_archive_empty [OF 1 _ _ _ 2, of 0] by (simp add: numeral_2_eq_2)
  then show ?thesis using 1 2 by blast
qed

end
