(* ===== verification/Bunch_Fir.thy ===== *)
theory Bunch_Fir
  imports Hardware_Words Fixed_Point
begin

text \<open>
  The bunch by bunch feedback filters (\<^verbatim>\<open>epics/src/bunch_fir.c\<close>): four banks of taps for each axis, each computed
  from its settings or taken from a waveform.  With both axes combined (\<^verbatim>\<open>lmbf_mode\<close>) the banks of axis 0
  control those of axis 1.  \<open>None\<close> stands for taps written behind the end of their array.  The last sections interpret the
  words written as the filter does and show that it holds the taps asked for.
\<close>

unbundle bit_operations_syntax

section \<open>State\<close>

definition FIR_BANKS :: nat where "FIR_BANKS = 4"
definition MAX_FIR_GAIN :: u16 where "MAX_FIR_GAIN = 15"

record 'd fir_bank =
  cycles :: u32
  fir_length :: u32
  fir_phase :: 'd
  current_taps :: "u32 list"
  set_taps :: "u32 list"
  use_waveform :: bool

text \<open>\<open>fir_gain\<close> is the value of the gain record.\<close>

record 'd fir_context =
  fir_overflow :: bool
  fir_gain :: u16
  fir_banks :: "nat \<Rightarrow> 'd fir_bank"

text \<open>\<open>tap_updates\<close> are the axes and banks whose readback waveform was triggered.\<close>

record 'd fir_state =
  firs :: "nat \<Rightarrow> 'd fir_context"
  fir_decimation :: u32
  fir_hw :: hw
  tap_updates :: "(nat \<times> nat) list"

record 'd fir_config =
  bunch_taps :: nat
  lmbf :: bool
  phase_shift :: 'd

definition bank :: "'d fir_state \<Rightarrow> nat \<Rightarrow> nat \<Rightarrow> 'd fir_bank" where
  "bank s axis i = fir_banks (firs s axis) i"

definition set_bank :: "nat \<Rightarrow> nat \<Rightarrow> ('d fir_bank \<Rightarrow> 'd fir_bank) \<Rightarrow> 'd fir_state \<Rightarrow> 'd fir_state" where
  "set_bank axis i f s = s\<lparr>firs := (firs s)(axis := (firs s axis)\<lparr>fir_banks := (fir_banks (firs s axis))(i := f (bank s axis i))\<rparr>)\<rparr>"

lemma bank_set_bank [simp]: "bank (set_bank a i f s) a' i' = (if a' = a \<and> i' = i then f (bank s a i) else bank s a' i')"
  by (simp add: bank_def set_bank_def)

section \<open>Taps\<close>

definition fir_tap :: "'d arith \<Rightarrow> 'd fir_bank \<Rightarrow> nat \<Rightarrow> u32" where
  "fir_tap A b i =
     (let tune = d_div A (d_int A (uint (cycles b))) (d_int A (uint (fir_length b)));
          angle = d_add A (d_mul A tune (d_add A (d_int A (int i)) (d_decimal A 5 1))) (d_div A (fir_phase b) (d_int A 360));
          tap = d_sin A (d_mul A (d_mul A (d_int A 2) (d_pi A)) angle)
      in word_of_int (d_round A (d_mul A (d_int A 2147483647) tap)))"

definition compute_fir_taps :: "'d arith \<Rightarrow> nat \<Rightarrow> 'd fir_bank \<Rightarrow> u32 list option" where
  "compute_fir_taps A n b =
     (let len = unat (fir_length b)
      in if len \<le> n then Some (map (fir_tap A b) [0..<len] @ replicate (n - len) 0) else None)"

definition update_taps :: "nat \<Rightarrow> nat \<Rightarrow> nat \<Rightarrow> 'd fir_state \<Rightarrow> 'd fir_state" where
  "update_taps n axis i s =
     s\<lparr>fir_hw := hw_write_bunch_fir_taps n axis (of_nat i) (current_taps (bank s axis i)) (fir_hw s), tap_updates := tap_updates s @ [(axis, i)]\<rparr>"

definition update_bank_taps :: "'d arith \<Rightarrow> nat \<Rightarrow> nat \<Rightarrow> nat \<Rightarrow> 'd fir_state \<Rightarrow> 'd fir_state option" where
  "update_bank_taps A n axis i s =
     (let b = bank s axis i
      in map_option (\<lambda>taps. update_taps n axis i (set_bank axis i (\<lambda>b. b\<lparr>current_taps := taps\<rparr>) s))
           (if use_waveform b then Some (take n (set_taps b)) else compute_fir_taps A n b))"

section \<open>Handlers\<close>

definition reload_fir :: "'d arith \<Rightarrow> 'd fir_config \<Rightarrow> nat \<Rightarrow> nat \<Rightarrow> 'd fir_state \<Rightarrow> 'd fir_state option" where
  "reload_fir A c axis i s =
     (let b = bank s axis i;
          s = (if lmbf c then set_bank 1 i (\<lambda>b1. b1\<lparr>fir_length := fir_length b, cycles := cycles b, fir_phase := d_add A (fir_phase b) (phase_shift c)\<rparr>) s else s)
      in if \<not> use_waveform b
         then Option.bind (update_bank_taps A (bunch_taps c) axis i s)
                (\<lambda>s. if lmbf c then update_bank_taps A (bunch_taps c) 1 i s else Some s)
         else Some s)"

definition set_use_waveform :: "'d arith \<Rightarrow> 'd fir_config \<Rightarrow> nat \<Rightarrow> nat \<Rightarrow> bool \<Rightarrow> 'd fir_state \<Rightarrow> 'd fir_state option" where
  "set_use_waveform A c axis i v s =
     (if v \<noteq> use_waveform (bank s axis i)
      then Option.bind (update_bank_taps A (bunch_taps c) axis i (set_bank axis i (\<lambda>b. b\<lparr>use_waveform := v\<rparr>) s))
             (\<lambda>s. if lmbf c then update_bank_taps A (bunch_taps c) 1 i (set_bank 1 i (\<lambda>b. b\<lparr>use_waveform := v\<rparr>) s) else Some s)
      else Some s)"

text \<open>\<open>F\<close> are the operations of \<^verbatim>\<open>float\<close>; the waveform as clipped is returned.\<close>

definition set_fir_taps ::
  "'d arith \<Rightarrow> 'f arith \<Rightarrow> 'd fir_config \<Rightarrow> nat \<Rightarrow> nat \<Rightarrow> 'f list \<Rightarrow> 'd fir_state \<Rightarrow> ('d fir_state \<times> 'f list) option" where
  "set_fir_taps A F c axis i taps s =
     (let (ints, taps) = float_array_to_int F (bunch_taps c) taps 32 31;
          s = set_bank axis i (\<lambda>b. b\<lparr>set_taps := ints\<rparr>) s
      in map_option (\<lambda>s. (s, taps))
           (if use_waveform (bank s axis i) then update_bank_taps A (bunch_taps c) axis i s else Some s))"

definition get_fir_taps :: "'d arith \<Rightarrow> ('d \<Rightarrow> 'f) \<Rightarrow> nat \<Rightarrow> nat \<Rightarrow> nat \<Rightarrow> 'd fir_state \<Rightarrow> 'f list" where
  "get_fir_taps A to_f n axis i s = map (\<lambda>t. to_f (d_ldexp A (d_int A (sint t)) (- 31))) (take n (current_taps (bank s axis i)))"

text \<open>Writing a setting of a bank; the record forwards to \<open>reload_fir\<close>.\<close>

definition write_setting ::
  "'d arith \<Rightarrow> 'd fir_config \<Rightarrow> nat \<Rightarrow> nat \<Rightarrow> ('d fir_bank \<Rightarrow> 'd fir_bank) \<Rightarrow> 'd fir_state \<Rightarrow> 'd fir_state option" where
  "write_setting A c axis i f s = reload_fir A c axis i (set_bank axis i f s)"

definition set_gain_record :: "nat \<Rightarrow> u16 \<Rightarrow> 'd fir_state \<Rightarrow> 'd fir_state" where
  "set_gain_record axis v s = s\<lparr>firs := (firs s)(axis := (firs s axis)\<lparr>fir_gain := v\<rparr>)\<rparr>"

definition write_fir_gain :: "'d fir_config \<Rightarrow> nat \<Rightarrow> u16 \<Rightarrow> 'd fir_state \<Rightarrow> 'd fir_state" where
  "write_fir_gain c axis v s =
     (let s = set_gain_record axis v s; h = hw_write_dac_fir_gain axis v (fir_hw s)
      in s\<lparr>fir_hw := (if lmbf c then hw_write_dac_fir_gain 1 v h else h)\<rparr>)"

definition increment_fir_gain :: "'d fir_config \<Rightarrow> nat \<Rightarrow> 'd fir_state \<Rightarrow> 'd fir_state" where
  "increment_fir_gain c axis s =
     (let g = fir_gain (firs s axis) - 1 in if g \<le> MAX_FIR_GAIN then write_fir_gain c axis g s else s)"

definition decrement_fir_gain :: "'d fir_config \<Rightarrow> nat \<Rightarrow> 'd fir_state \<Rightarrow> 'd fir_state" where
  "decrement_fir_gain c axis s =
     (let g = fir_gain (firs s axis) + 1 in if g \<le> MAX_FIR_GAIN then write_fir_gain c axis g s else s)"

definition write_fir_decimation :: "u32 \<Rightarrow> 'd fir_state \<Rightarrow> 'd fir_state" where
  "write_fir_decimation v s =
     s\<lparr>fir_decimation := v, fir_hw := hw_write_bunch_decimation 1 v (hw_write_bunch_decimation 0 v (fir_hw s))\<rparr>"

definition get_fir_decimation :: "'d fir_state \<Rightarrow> u32" where
  "get_fir_decimation s = fir_decimation s"

definition scan_events :: "(reg \<Rightarrow> u32) \<Rightarrow> 'd fir_state \<Rightarrow> 'd fir_state" where
  "scan_events rd s =
     s\<lparr>firs := (\<lambda>a. if a < 2 then (firs s a)\<lparr>fir_overflow := hw_read_bunch_overflow a rd\<rparr> else firs s a)\<rparr>"

definition initialise_bunch_fir :: "'d arith \<Rightarrow> 'd fir_config \<Rightarrow> hw \<Rightarrow> 'd fir_state" where
  "initialise_bunch_fir A c h =
     (let zs = replicate (bunch_taps c) 0;
          b = \<lparr>cycles = 0, fir_length = 0, fir_phase = d_int A 0, current_taps = zs, set_taps = zs, use_waveform = False\<rparr>;
          s = \<lparr>firs = (\<lambda>_. \<lparr>fir_overflow = False, fir_gain = 0, fir_banks = (\<lambda>_. b)\<rparr>), fir_decimation = 1, fir_hw = h, tap_updates = []\<rparr>
      in if \<not> lmbf c then write_fir_decimation 1 s else s)"

section \<open>The taps in force\<close>

text \<open>The taps of a bank are those its mode asks for.\<close>

definition taps_ok :: "'d arith \<Rightarrow> nat \<Rightarrow> 'd fir_bank \<Rightarrow> bool" where
  "taps_ok A n b \<longleftrightarrow> length (set_taps b) = n \<and>
     (if use_waveform b then current_taps b = set_taps b else compute_fir_taps A n b = Some (current_taps b))"

definition follows :: "'d arith \<Rightarrow> 'd fir_config \<Rightarrow> 'd fir_bank \<Rightarrow> 'd fir_bank \<Rightarrow> bool" where
  "follows A c b b1 \<longleftrightarrow> fir_length b1 = fir_length b \<and> cycles b1 = cycles b \<and> fir_phase b1 = d_add A (fir_phase b) (phase_shift c)"

lemma compute_other [simp]:
  "compute_fir_taps A n (b\<lparr>set_taps := x\<rparr>) = compute_fir_taps A n b" "compute_fir_taps A n (b\<lparr>current_taps := x\<rparr>) = compute_fir_taps A n b"
  "compute_fir_taps A n (b\<lparr>use_waveform := v\<rparr>) = compute_fir_taps A n b"
proof -
  have "fir_tap A (b\<lparr>set_taps := x\<rparr>) = fir_tap A b" "fir_tap A (b\<lparr>current_taps := x\<rparr>) = fir_tap A b" "fir_tap A (b\<lparr>use_waveform := v\<rparr>) = fir_tap A b"
    by (simp_all add: fun_eq_iff fir_tap_def)
  then show "compute_fir_taps A n (b\<lparr>set_taps := x\<rparr>) = compute_fir_taps A n b" "compute_fir_taps A n (b\<lparr>current_taps := x\<rparr>) = compute_fir_taps A n b"
    "compute_fir_taps A n (b\<lparr>use_waveform := v\<rparr>) = compute_fir_taps A n b" by (simp_all add: compute_fir_taps_def Let_def)
qed

lemma update_bank_taps_cases:
  assumes "update_bank_taps A n a i s = Some s'" "length (set_taps (bank s a i)) = n"
  obtains taps where "\<And>a' i'. bank s' a' i' = (if a' = a \<and> i' = i then (bank s a i)\<lparr>current_taps := taps\<rparr> else bank s a' i')"
    "taps_ok A n (bank s' a i)"
proof -
  let ?b = "bank s a i"
  obtain taps where t: "(if use_waveform ?b then Some (take n (set_taps ?b)) else compute_fir_taps A n ?b) = Some taps"
      and s': "s' = update_taps n a i (set_bank a i (\<lambda>b. b\<lparr>current_taps := taps\<rparr>) s)"
    using assms(1) by (auto simp: update_bank_taps_def Let_def)
  have b: "bank s' a' i' = (if a' = a \<and> i' = i then ?b\<lparr>current_taps := taps\<rparr> else bank s a' i')" for a' i'
    by (simp add: s' update_taps_def) (simp add: bank_def set_bank_def)
  moreover have "taps_ok A n (bank s' a i)"
    using t assms(2) by (auto simp: b taps_ok_def split: if_splits)
  ultimately show thesis using that by blast
qed

section \<open>Sequences of operations\<close>

datatype ('d, 'f) fir_op =
    SetLength nat nat u32 | SetCycles nat nat u32 | SetPhase nat nat 'd | UseWaveform nat nat bool
  | SetTaps nat nat "'f list" | SetGain nat u16 | GainUp nat | GainDown nat | SetDecimation u32 | ScanEvents "reg \<Rightarrow> u32"

fun fir_apply :: "'d arith \<Rightarrow> 'f arith \<Rightarrow> 'd fir_config \<Rightarrow> ('d, 'f) fir_op \<Rightarrow> 'd fir_state \<Rightarrow> 'd fir_state option" where
  "fir_apply A F c (SetLength a i v) s = write_setting A c a i (\<lambda>b. b\<lparr>fir_length := v\<rparr>) s"
| "fir_apply A F c (SetCycles a i v) s = write_setting A c a i (\<lambda>b. b\<lparr>cycles := v\<rparr>) s"
| "fir_apply A F c (SetPhase a i v) s = write_setting A c a i (\<lambda>b. b\<lparr>fir_phase := v\<rparr>) s"
| "fir_apply A F c (UseWaveform a i v) s = set_use_waveform A c a i v s"
| "fir_apply A F c (SetTaps a i ts) s = map_option fst (set_fir_taps A F c a i ts s)"
| "fir_apply A F c (SetGain a v) s = Some (write_fir_gain c a v s)"
| "fir_apply A F c (GainUp a) s = Some (increment_fir_gain c a s)"
| "fir_apply A F c (GainDown a) s = Some (decrement_fir_gain c a s)"
| "fir_apply A F c (SetDecimation v) s = Some (write_fir_decimation v s)"
| "fir_apply A F c (ScanEvents rd) s = Some (scan_events rd s)"

fun fir_run :: "'d arith \<Rightarrow> 'f arith \<Rightarrow> 'd fir_config \<Rightarrow> ('d, 'f) fir_op list \<Rightarrow> 'd fir_state \<Rightarrow> 'd fir_state option" where
  "fir_run A F c [] s = Some s"
| "fir_run A F c (op # ops) s = Option.bind (fir_apply A F c op s) (fir_run A F c ops)"

text \<open>The records that exist: with combined axes only axis 0 has settings; waveforms have the length of the taps; four banks.\<close>

fun exists_for :: "'d fir_config \<Rightarrow> ('d, 'f) fir_op \<Rightarrow> bool" where
  "exists_for c (SetLength a i v) \<longleftrightarrow> (lmbf c \<longrightarrow> a = 0) \<and> i < FIR_BANKS"
| "exists_for c (SetCycles a i v) \<longleftrightarrow> (lmbf c \<longrightarrow> a = 0) \<and> i < FIR_BANKS"
| "exists_for c (SetPhase a i v) \<longleftrightarrow> (lmbf c \<longrightarrow> a = 0) \<and> i < FIR_BANKS"
| "exists_for c (UseWaveform a i v) \<longleftrightarrow> (lmbf c \<longrightarrow> a = 0) \<and> i < FIR_BANKS"
| "exists_for c (SetTaps a i ts) \<longleftrightarrow> length ts = bunch_taps c \<and> i < FIR_BANKS"
| "exists_for c _ \<longleftrightarrow> True"

fun reloads :: "nat \<Rightarrow> ('d, 'f) fir_op \<Rightarrow> bool" where
  "reloads i (SetLength a j v) \<longleftrightarrow> j = i"
| "reloads i (SetCycles a j v) \<longleftrightarrow> j = i"
| "reloads i (SetPhase a j v) \<longleftrightarrow> j = i"
| "reloads i _ \<longleftrightarrow> False"

definition firs_ok :: "'d arith \<Rightarrow> 'd fir_config \<Rightarrow> (nat \<Rightarrow> bool) \<Rightarrow> 'd fir_state \<Rightarrow> bool" where
  "firs_ok A c R s \<longleftrightarrow> (\<forall>a i. taps_ok A (bunch_taps c) (bank s a i)) \<and>
     (lmbf c \<longrightarrow> (\<forall>i. use_waveform (bank s 1 i) = use_waveform (bank s 0 i) \<and> (R i \<longrightarrow> follows A c (bank s 0 i) (bank s 1 i))))"

lemma taps_ok_length: "taps_ok A n b \<Longrightarrow> length (set_taps b) = n"
  by (simp add: taps_ok_def)

lemma reload_ok:
  assumes "firs_ok A c R s" "write_setting A c a i f s = Some s'" "lmbf c \<longrightarrow> a = 0"
    and f: "\<And>b. set_taps (f b) = set_taps b \<and> current_taps (f b) = current_taps b \<and> use_waveform (f b) = use_waveform b"
  shows "firs_ok A c (\<lambda>j. R j \<or> j = i) s'"
proof -
  let ?n = "bunch_taps c"
  define b where "b = f (bank s a i)"
  define s1 where "s1 = (if lmbf c then set_bank 1 i (\<lambda>b1. b1\<lparr>fir_length := fir_length b, cycles := cycles b, fir_phase := d_add A (fir_phase b) (phase_shift c)\<rparr>)
      (set_bank a i f s) else set_bank a i f s)"
  have len: "length (set_taps (bank s a' i')) = ?n" for a' i' using assms(1) by (auto simp: firs_ok_def taps_ok_def)
  have r: "(if \<not> use_waveform b then Option.bind (update_bank_taps A ?n a i s1) (\<lambda>s. if lmbf c then update_bank_taps A ?n 1 i s else Some s) else Some s1) = Some s'"
  proof -
    have "bank (set_bank a i f s) a i = b" by (simp add: b_def)
    then show ?thesis using assms(2) by (simp only: write_setting_def reload_fir_def Let_def s1_def)
  qed
  have s1: "bank s1 a' i' = (if lmbf c \<and> a' = 1 \<and> i' = i then (bank s 1 i)\<lparr>fir_length := fir_length b, cycles := cycles b, fir_phase := d_add A (fir_phase b) (phase_shift c)\<rparr>
      else if a' = a \<and> i' = i then b else bank s a' i')" for a' i'
    using assms(3) by (auto simp: s1_def b_def)
  have len1: "length (set_taps (bank s1 a' i')) = ?n" for a' i' using len f by (simp add: s1 b_def)
  have ok: "taps_ok A ?n (bank s a' i')" for a' i' using assms(1) by (simp add: firs_ok_def)
  have use: "lmbf c \<Longrightarrow> use_waveform (bank s 1 j) = use_waveform (bank s 0 j)" for j using assms(1) by (simp add: firs_ok_def)
  have fol: "lmbf c \<Longrightarrow> R j \<Longrightarrow> follows A c (bank s 0 j) (bank s 1 j)" for j using assms(1) by (simp add: firs_ok_def)
  show ?thesis
  proof (cases "use_waveform b")
    case True
    then have "s' = s1" using r by simp
    moreover have "taps_ok A ?n (bank s1 a' i')" for a' i'
      using ok [of a' i'] True use [of i] f assms(3) by (auto simp: s1 taps_ok_def b_def split: if_splits)
    ultimately show ?thesis using use fol f assms(3) by (auto simp: firs_ok_def s1 follows_def b_def)
  next
    case False
    then obtain s2 where u: "update_bank_taps A ?n a i s1 = Some s2" and r2: "(if lmbf c then update_bank_taps A ?n 1 i s2 else Some s2) = Some s'"
      using r by (auto simp: bind_eq_Some_conv)
    obtain t where s2: "\<And>a' i'. bank s2 a' i' = (if a' = a \<and> i' = i then (bank s1 a i)\<lparr>current_taps := t\<rparr> else bank s1 a' i')" "taps_ok A ?n (bank s2 a i)"
      using update_bank_taps_cases [OF u len1] by blast
    show ?thesis
    proof (cases "lmbf c")
      case True
      then have a: "a = 0" using assms(3) by simp
      have u2: "update_bank_taps A ?n 1 i s2 = Some s'" using r2 True by simp
      have len2: "length (set_taps (bank s2 1 i)) = ?n" using len1 by (simp add: s2(1))
      obtain t' where s': "\<And>a' i'. bank s' a' i' = (if a' = 1 \<and> i' = i then (bank s2 1 i)\<lparr>current_taps := t'\<rparr> else bank s2 a' i')" "taps_ok A ?n (bank s' 1 i)"
        using update_bank_taps_cases [OF u2 len2] by blast
      have "taps_ok A ?n (bank s' a' i')" for a' i'
        using ok [of a' i'] s'(2) s2(2) a by (cases "i' = i"; cases "a' = 1"; cases "a' = 0") (auto simp: s'(1) s2(1) s1)
      moreover have "use_waveform (bank s' 1 j) = use_waveform (bank s' 0 j)" for j
        using use [OF True] f a by (auto simp: s'(1) s2(1) s1 b_def)
      moreover have "R j \<or> j = i \<Longrightarrow> follows A c (bank s' 0 j) (bank s' 1 j)" for j
        using fol [OF True] a True by (auto simp: s'(1) s2(1) s1 follows_def)
      ultimately show ?thesis by (simp add: firs_ok_def)
    next
      case False
      then have "s' = s2" using r2 by simp
      moreover have "taps_ok A ?n (bank s2 a' i')" for a' i'
        using ok [of a' i'] s2(2) False by (cases "i' = i \<and> a' = a") (auto simp: s2(1) s1)
      ultimately show ?thesis using False by (simp add: firs_ok_def)
    qed
  qed
qed

lemma use_waveform_ok:
  assumes "firs_ok A c R s" "set_use_waveform A c a i v s = Some s'" "lmbf c \<longrightarrow> a = 0"
  shows "firs_ok A c R s'"
proof (cases "v = use_waveform (bank s a i)")
  case False
  let ?n = "bunch_taps c" and ?s1 = "set_bank a i (\<lambda>b. b\<lparr>use_waveform := v\<rparr>) s"
  have ok: "taps_ok A ?n (bank s a' i')" for a' i' using assms(1) by (simp add: firs_ok_def)
  have len: "length (set_taps (bank s a' i')) = ?n" for a' i' using ok by (simp add: taps_ok_def)
  obtain s2 where u: "update_bank_taps A ?n a i ?s1 = Some s2"
      and r2: "(if lmbf c then update_bank_taps A ?n 1 i (set_bank 1 i (\<lambda>b. b\<lparr>use_waveform := v\<rparr>) s2) else Some s2) = Some s'"
    using assms(2) False by (auto simp: set_use_waveform_def bind_eq_Some_conv)
  have len1: "length (set_taps (bank ?s1 a i)) = ?n" using len by simp
  obtain t where s2: "\<And>a' i'. bank s2 a' i' = (if a' = a \<and> i' = i then (bank ?s1 a i)\<lparr>current_taps := t\<rparr> else bank ?s1 a' i')" "taps_ok A ?n (bank s2 a i)"
    using update_bank_taps_cases [OF u len1] by blast
  show ?thesis
  proof (cases "lmbf c")
    case True
    then have a: "a = 0" using assms(3) by simp
    have len2: "length (set_taps (bank (set_bank 1 i (\<lambda>b. b\<lparr>use_waveform := v\<rparr>) s2) 1 i)) = ?n" using len a by (simp add: s2(1))
    have u2: "update_bank_taps A ?n 1 i (set_bank 1 i (\<lambda>b. b\<lparr>use_waveform := v\<rparr>) s2) = Some s'" using r2 True by simp
    obtain t' where s': "\<And>a' i'. bank s' a' i' = (if a' = 1 \<and> i' = i then (bank (set_bank 1 i (\<lambda>b. b\<lparr>use_waveform := v\<rparr>) s2) 1 i)\<lparr>current_taps := t'\<rparr>
        else bank (set_bank 1 i (\<lambda>b. b\<lparr>use_waveform := v\<rparr>) s2) a' i')" "taps_ok A ?n (bank s' 1 i)"
      using update_bank_taps_cases [OF u2 len2] by blast
    have "taps_ok A ?n (bank s' a' i')" for a' i'
      using ok [of a' i'] s'(2) s2(2) a by (cases "i' = i"; cases "a' = 1"; cases "a' = 0") (auto simp: s'(1) s2(1))
    then show ?thesis using assms(1) a by (auto simp: firs_ok_def s'(1) s2(1) follows_def)
  next
    case lf: False
    then have "s' = s2" using r2 by simp
    moreover have "taps_ok A ?n (bank s2 a' i')" for a' i'
      using ok [of a' i'] s2(2) by (cases "i' = i \<and> a' = a") (auto simp: s2(1))
    ultimately show ?thesis using lf by (simp add: firs_ok_def)
  qed
qed (use assms in \<open>simp add: set_use_waveform_def\<close>)

lemma set_taps_ok:
  assumes "firs_ok A c R s" "set_fir_taps A F c a i ts s = Some (s', ts')" "length ts = bunch_taps c"
  shows "firs_ok A c R s'"
proof -
  let ?n = "bunch_taps c"
  define ints where "ints = fst (float_array_to_int F ?n ts 32 31)"
  define s1 where "s1 = set_bank a i (\<lambda>b. b\<lparr>set_taps := ints\<rparr>) s"
  have ints: "length ints = ?n" using assms(3) by (simp add: ints_def float_array_to_int_def)
  have ok: "taps_ok A ?n (bank s a' i')" for a' i' using assms(1) by (simp add: firs_ok_def)
  have r: "(if use_waveform (bank s1 a i) then update_bank_taps A ?n a i s1 else Some s1) = Some s'"
    using assms(2) by (auto simp: set_fir_taps_def Let_def s1_def ints_def split: prod.splits if_splits)
  have len: "length (set_taps (bank s1 a i)) = ?n" using ints by (simp add: s1_def)
  show ?thesis
  proof (cases "use_waveform (bank s1 a i)")
    case True
    then have u: "update_bank_taps A ?n a i s1 = Some s'" using r by simp
    obtain t where s': "\<And>a' i'. bank s' a' i' = (if a' = a \<and> i' = i then (bank s1 a i)\<lparr>current_taps := t\<rparr> else bank s1 a' i')" "taps_ok A ?n (bank s' a i)"
      using update_bank_taps_cases [OF u len] by blast
    have "taps_ok A ?n (bank s' a' i')" for a' i'
      using ok [of a' i'] s'(2) by (cases "i' = i \<and> a' = a") (auto simp: s'(1) s1_def)
    then show ?thesis using assms(1) by (auto simp: firs_ok_def s'(1) s1_def follows_def)
  next
    case False
    then have "s' = s1" using r by simp
    moreover have "taps_ok A ?n (bank s1 a' i')" for a' i'
      using ok [of a' i'] False ints by (auto simp: s1_def taps_ok_def)
    ultimately show ?thesis using assms(1) by (auto simp: firs_ok_def s1_def follows_def)
  qed
qed

lemma gain_banks [simp]:
  "bank (write_fir_gain c a v s) a' i = bank s a' i" "bank (write_fir_decimation d s) a' i = bank s a' i" "bank (scan_events rd s) a' i = bank s a' i"
  "bank (increment_fir_gain c a s) a' i = bank s a' i" "bank (decrement_fir_gain c a s) a' i = bank s a' i"
  by (simp_all add: bank_def write_fir_gain_def set_gain_record_def write_fir_decimation_def scan_events_def increment_fir_gain_def
      decrement_fir_gain_def Let_def)

lemma gain_firs_ok [simp]:
  "firs_ok A c R (write_fir_gain c' a v s) = firs_ok A c R s" "firs_ok A c R (write_fir_decimation d s) = firs_ok A c R s"
  "firs_ok A c R (scan_events rd s) = firs_ok A c R s" "firs_ok A c R (increment_fir_gain c' a s) = firs_ok A c R s"
  "firs_ok A c R (decrement_fir_gain c' a s) = firs_ok A c R s"
  by (simp_all add: firs_ok_def)

lemma firs_ok_mono: "firs_ok A c R s \<Longrightarrow> (\<And>i. R' i \<Longrightarrow> R i) \<Longrightarrow> firs_ok A c R' s"
  by (auto simp: firs_ok_def)

lemma fir_apply_ok:
  assumes "firs_ok A c R s" "exists_for c op" "fir_apply A F c op s = Some s'"
  shows "firs_ok A c (\<lambda>i. R i \<or> reloads i op) s'"
proof (cases op)
  case (SetLength a j v)
  then show ?thesis using reload_ok [OF assms(1), of a j "\<lambda>b. b\<lparr>fir_length := v\<rparr>" s'] assms(2,3) by (auto elim: firs_ok_mono)
next
  case (SetCycles a j v)
  then show ?thesis using reload_ok [OF assms(1), of a j "\<lambda>b. b\<lparr>cycles := v\<rparr>" s'] assms(2,3) by (auto elim: firs_ok_mono)
next
  case (SetPhase a j v)
  then show ?thesis using reload_ok [OF assms(1), of a j "\<lambda>b. b\<lparr>fir_phase := v\<rparr>" s'] assms(2,3) by (auto elim: firs_ok_mono)
next
  case (UseWaveform a j v)
  then show ?thesis using use_waveform_ok [OF assms(1), of a j v s'] assms(2,3) by simp
next
  case (SetTaps a j ts)
  then obtain ts' where "set_fir_taps A F c a j ts s = Some (s', ts')" using assms(3) by auto
  then show ?thesis using set_taps_ok [OF assms(1), of F a j ts s' ts'] SetTaps assms(2) by simp
qed (use assms in \<open>auto\<close>)

lemma fir_run_ok:
  "firs_ok A c R s \<Longrightarrow> list_all (exists_for c) ops \<Longrightarrow> fir_run A F c ops s = Some s' \<Longrightarrow> firs_ok A c (\<lambda>i. R i \<or> list_ex (reloads i) ops) s'"
proof (induction ops arbitrary: s R)
  case (Cons op ops)
  obtain s1 where "fir_apply A F c op s = Some s1" "fir_run A F c ops s1 = Some s'"
    using Cons.prems(3) by (auto simp: bind_eq_Some_conv)
  then show ?case using Cons.IH [OF fir_apply_ok [OF Cons.prems(1)]] Cons.prems(2) by (auto elim!: firs_ok_mono)
qed simp

lemma initial_firs_ok: "firs_ok A c (\<lambda>_. False) (initialise_bunch_fir A c h)"
  by (simp add: firs_ok_def initialise_bunch_fir_def Let_def) (simp add: bank_def taps_ok_def compute_fir_taps_def)

section \<open>The taps in the device\<close>

text \<open>What the filter does with the writes to its registers (\<^verbatim>\<open>AMC525/vhd/bunch_fir/bunch_fir_taps.vhd\<close>): a write to
  \<^verbatim>\<open>fir_config\<close> selects the bank to write and starts at its first tap, and each word written to \<^verbatim>\<open>fir_taps\<close>
  is the next tap of this bank.  All taps are zero to begin with.\<close>

record fir_device =
  tap_bank :: "nat \<Rightarrow> nat"
  tap_index :: "nat \<Rightarrow> nat"
  tap_table :: "nat \<Rightarrow> nat \<Rightarrow> nat \<Rightarrow> u32"

definition tap_write :: "reg \<times> u32 \<Rightarrow> fir_device \<Rightarrow> fir_device" where
  "tap_write w d = (case w of
     (DSP a (FIR FIR_CONFIG), v) \<Rightarrow> d\<lparr>tap_bank := (tap_bank d)(a := unat (get_field 0 2 v)), tap_index := (tap_index d)(a := 0)\<rparr>
   | (DSP a (FIR FIR_TAPS), v) \<Rightarrow>
       d\<lparr>tap_table := (tap_table d)(a := (tap_table d a)(tap_bank d a := (tap_table d a (tap_bank d a))(tap_index d a := v))),
         tap_index := (tap_index d)(a := Suc (tap_index d a))\<rparr>
   | _ \<Rightarrow> d)"

definition fir_device :: "hw \<Rightarrow> fir_device" where
  "fir_device h = fold tap_write (trace h) \<lparr>tap_bank = (\<lambda>_. 0), tap_index = (\<lambda>_. 0), tap_table = (\<lambda>_ _ _. 0)\<rparr>"

definition taps_held :: "nat \<Rightarrow> nat \<Rightarrow> nat \<Rightarrow> hw \<Rightarrow> u32 list" where
  "taps_held n a i h = map (tap_table (fir_device h) a i) [0..<n]"

lemma fir_device_writel [simp]: "fir_device (writel r v h) = tap_write (r, v) (fir_device h)"
  by (simp add: fir_device_def writel_def)

lemma fir_device_set_mirror [simp]: "fir_device (set_mirror r off w v h) = fir_device h"
  by (simp add: fir_device_def set_mirror_def)

lemma fir_device_writes: "fir_device (writes r vs h) = fold tap_write (map (Pair r) vs) (fir_device h)"
  by (simp add: fir_device_def writes_def)

lemma tap_write_table [simp]:
  "r \<noteq> DSP a (FIR FIR_TAPS) \<Longrightarrow> tap_table (tap_write (r, v) d) a = tap_table d a"
  by (auto simp: tap_write_def split: reg.splits dsp_reg.splits fir_reg.splits)

lemma tap_words_index:
  "tap_bank (fold tap_write (map (Pair (DSP a (FIR FIR_TAPS))) vs) d) = tap_bank d"
  "tap_index (fold tap_write (map (Pair (DSP a (FIR FIR_TAPS))) vs) d) a = tap_index d a + length vs"
  by (induction vs arbitrary: d) (simp_all add: tap_write_def)

lemma tap_words_table:
  "tap_table (fold tap_write (map (Pair (DSP a (FIR FIR_TAPS))) vs) d) a' i k =
     (if a' = a \<and> i = tap_bank d a \<and> tap_index d a \<le> k \<and> k < tap_index d a + length vs then vs ! (k - tap_index d a)
      else tap_table d a' i k)"
proof (induction vs rule: rev_induct)
  case (snoc v vs)
  let ?d = "fold tap_write (map (Pair (DSP a (FIR FIR_TAPS))) vs) d"
  have w: "tap_table (tap_write (DSP a (FIR FIR_TAPS), v) ?d) a' i k =
      (if a' = a \<and> i = tap_bank d a \<and> k = tap_index d a + length vs then v else tap_table ?d a' i k)"
    by (simp add: tap_write_def tap_words_index)
  have "tap_table (fold tap_write (map (Pair (DSP a (FIR FIR_TAPS))) (vs @ [v])) d) a' i k =
      (if a' = a \<and> i = tap_bank d a \<and> k = tap_index d a + length vs then v else tap_table ?d a' i k)"
    by (simp only: map_append list.map fold_append comp_apply fold.simps id_apply w)
  then show ?case unfolding snoc.IH by (auto simp: nth_append)
qed auto

lemma bank_field: "unat (get_field 0 2 (put_field 0 2 (ucast (fir :: u16) AND 3) m)) = unat fir mod 4"
proof -
  have "get_field 0 2 (put_field 0 2 (ucast fir AND 3) m) = (ucast (take_bit 2 fir) :: u32)"
    by (simp add: get_put_same) (rule bit_word_eqI, auto simp: bit_simps bit_numeral_rec less_2_cases_iff)
  then show ?thesis by (simp add: unsigned_ucast_eq take_bit_eq_mod unat_mod_distrib)
qed

lemma taps_held_write:
  assumes "length taps = n"
  shows "taps_held n a' i' (hw_write_bunch_fir_taps n a fir taps h) =
    (if a' = a \<and> i' = unat fir mod 4 then taps else taps_held n a' i' h)"
proof -
  have taps: "map (\<lambda>i. taps ! i) [0..<n] = taps" using assms map_nth [of taps] by simp
  let ?d = "fir_device (WRITE_DSP_MIRROR a (FIR FIR_CONFIG) 0 2 (ucast fir AND 3) h)"
  have d: "tap_bank ?d a = unat fir mod 4" "tap_index ?d a = 0" "tap_table ?d = tap_table (fir_device h)"
    by (simp_all add: WRITE_DSP_MIRROR_def write_mirror_def tap_write_def) (simp add: set_mirror_def bank_field)
  have "tap_table (fir_device (hw_write_bunch_fir_taps n a fir taps h)) a' i' k =
      (if a' = a \<and> i' = unat fir mod 4 \<and> k < n then taps ! k else tap_table (fir_device h) a' i' k)" for k
    unfolding hw_write_bunch_fir_taps_def taps fir_device_writes tap_words_table d using assms by simp
  then show ?thesis using assms by (auto simp: taps_held_def intro: nth_equalityI)
qed

lemma taps_held_other [simp]:
  "taps_held n a i (hw_write_dac_fir_gain axis v h) = taps_held n a i h"
  "taps_held n a i (hw_write_bunch_decimation axis d h) = taps_held n a i h"
  by (simp_all add: taps_held_def hw_write_dac_fir_gain_def hw_write_bunch_decimation_def WRITE_DSP_MIRROR_def write_mirror_def)

lemma taps_held_unwritten: "\<forall>v. (DSP a (FIR FIR_TAPS), v) \<notin> set (trace h) \<Longrightarrow> taps_held n a i h = replicate n 0"
proof -
  have "\<forall>v. (DSP a (FIR FIR_TAPS), v) \<notin> set ws \<Longrightarrow> tap_table (fold tap_write ws d) a = tap_table d a" for ws d
  proof (induction ws arbitrary: d)
    case (Cons w ws)
    then have "fst w \<noteq> DSP a (FIR FIR_TAPS)" by (cases w) auto
    then have "tap_table (tap_write w d) a = tap_table d a" by (cases w) simp
    then show ?case using Cons by simp
  qed simp
  then show "\<forall>v. (DSP a (FIR FIR_TAPS), v) \<notin> set (trace h) \<Longrightarrow> taps_held n a i h = replicate n 0"
    by (simp add: taps_held_def fir_device_def map_replicate_const)
qed

text \<open>The banks of \<open>P\<close> and those written since hold their current taps.\<close>

definition loaded :: "(nat \<Rightarrow> nat \<Rightarrow> bool) \<Rightarrow> nat \<Rightarrow> 'd fir_state \<Rightarrow> bool" where
  "loaded P n s \<longleftrightarrow> (\<forall>a i. length (set_taps (bank s a i)) = n \<and>
     (P a i \<or> (a, i) \<in> set (tap_updates s) \<longrightarrow> taps_held n a i (fir_hw s) = current_taps (bank s a i)))"

lemma set_bank_frame [simp]: "fir_hw (set_bank a i f s) = fir_hw s" "tap_updates (set_bank a i f s) = tap_updates s"
  by (simp_all add: set_bank_def)

lemma loaded_set_bank:
  assumes "loaded P n s" "current_taps (f (bank s a i)) = current_taps (bank s a i)" "length (set_taps (f (bank s a i))) = n"
  shows "loaded P n (set_bank a i f s)"
  using assms by (simp add: loaded_def)

lemma loaded_update:
  assumes "loaded P n s" "update_bank_taps A n a i s = Some s'" "i < FIR_BANKS"
  shows "loaded P n s'"
proof -
  let ?b = "bank s a i"
  obtain taps where t: "(if use_waveform ?b then Some (take n (set_taps ?b)) else compute_fir_taps A n ?b) = Some taps"
      and s': "s' = update_taps n a i (set_bank a i (\<lambda>b. b\<lparr>current_taps := taps\<rparr>) s)"
    using assms(2) by (auto simp: update_bank_taps_def Let_def)
  have "length taps = n"
    using t assms(1) by (auto simp: loaded_def compute_fir_taps_def Let_def split: if_splits)
  moreover have "unat (of_nat i :: u16) = i" using assms(3) by (simp add: FIR_BANKS_def unat_of_nat)
  ultimately have h: "taps_held n a' i' (fir_hw s') = (if a' = a \<and> i' = i then taps else taps_held n a' i' (fir_hw s))" for a' i'
    using assms(3) by (simp add: s' update_taps_def taps_held_write FIR_BANKS_def)
  have b: "bank s' a' i' = (if a' = a \<and> i' = i then ?b\<lparr>current_taps := taps\<rparr> else bank s a' i')" for a' i'
    by (simp add: s' update_taps_def) (simp add: bank_def set_bank_def)
  have "tap_updates s' = tap_updates s @ [(a, i)]" by (simp add: s' update_taps_def)
  then show ?thesis using assms(1) by (auto simp: loaded_def h b)
qed

lemma loaded_frame: "loaded P n s \<Longrightarrow> length (set_taps (bank s a i)) = n"
  by (simp add: loaded_def)

lemma loaded_reload:
  assumes "loaded P (bunch_taps c) s" "reload_fir A c a i s = Some s'" "i < FIR_BANKS"
  shows "loaded P (bunch_taps c) s'"
proof -
  let ?f = "\<lambda>b1. b1\<lparr>fir_length := fir_length (bank s a i), cycles := cycles (bank s a i), fir_phase := d_add A (fir_phase (bank s a i)) (phase_shift c)\<rparr>"
  define s1 where "s1 = (if lmbf c then set_bank 1 i ?f s else s)"
  have l: "loaded P (bunch_taps c) s1"
    using assms(1) loaded_set_bank [OF assms(1), of ?f 1 i] loaded_frame [OF assms(1)] by (simp add: s1_def)
  have "(if \<not> use_waveform (bank s a i) then Option.bind (update_bank_taps A (bunch_taps c) a i s1)
      (\<lambda>s. if lmbf c then update_bank_taps A (bunch_taps c) 1 i s else Some s) else Some s1) = Some s'"
    using assms(2) by (simp only: reload_fir_def Let_def s1_def)
  then show ?thesis using l
    by (auto simp: bind_eq_Some_conv split: if_splits dest: loaded_update [OF _ _ assms(3)])
qed

lemma loaded_use_waveform:
  assumes "loaded P (bunch_taps c) s" "set_use_waveform A c a i v s = Some s'" "i < FIR_BANKS"
  shows "loaded P (bunch_taps c) s'"
proof -
  let ?f = "\<lambda>b. b\<lparr>use_waveform := v\<rparr>"
  have l: "loaded P (bunch_taps c) (set_bank a i ?f s)" if "loaded P (bunch_taps c) s" for s a
    using loaded_set_bank [OF that, of ?f a i] loaded_frame [OF that] by simp
  have u: "loaded P (bunch_taps c) s'" if "update_bank_taps A (bunch_taps c) a i (set_bank a i ?f s) = Some s'" "loaded P (bunch_taps c) s" for s s' a
    using loaded_update [OF l [OF that(2)] that(1) assms(3)] .
  show ?thesis
  proof (cases "v = use_waveform (bank s a i)")
    case False
    then obtain s2 where s2: "update_bank_taps A (bunch_taps c) a i (set_bank a i ?f s) = Some s2"
        "(if lmbf c then update_bank_taps A (bunch_taps c) 1 i (set_bank 1 i ?f s2) else Some s2) = Some s'"
      using assms(2) by (simp only: set_use_waveform_def bind_eq_Some_conv if_True simp_thms) blast
    show ?thesis using s2(2) u [OF s2(1) assms(1)] by (cases "lmbf c") (auto intro: u)
  qed (use assms in \<open>simp add: set_use_waveform_def\<close>)
qed

lemma loaded_set_taps:
  assumes "loaded P (bunch_taps c) s" "set_fir_taps A F c a i ts s = Some (s', ts')" "i < FIR_BANKS" "length ts = bunch_taps c"
  shows "loaded P (bunch_taps c) s'"
proof -
  define ints where "ints = fst (float_array_to_int F (bunch_taps c) ts 32 31)"
  define s1 where "s1 = set_bank a i (\<lambda>b. b\<lparr>set_taps := ints\<rparr>) s"
  have "length ints = bunch_taps c" using assms(4) by (simp add: ints_def float_array_to_int_def)
  then have l: "loaded P (bunch_taps c) s1"
    using loaded_set_bank [OF assms(1), of "\<lambda>b. b\<lparr>set_taps := ints\<rparr>" a i] by (simp add: s1_def)
  have "(if use_waveform (bank s1 a i) then update_bank_taps A (bunch_taps c) a i s1 else Some s1) = Some s'"
    using assms(2) by (auto simp: set_fir_taps_def Let_def s1_def ints_def split: prod.splits if_splits)
  then show ?thesis using l by (auto split: if_splits dest: loaded_update [OF _ _ assms(3)])
qed

lemma initially_loaded:
  assumes "\<And>a i. P a i \<Longrightarrow> taps_held (bunch_taps c) a i h = replicate (bunch_taps c) 0"
  shows "loaded P (bunch_taps c) (initialise_bunch_fir A c h)"
  using assms by (auto simp: loaded_def initialise_bunch_fir_def Let_def bank_def write_fir_decimation_def)

lemma loaded_gain [simp]:
  "loaded P n (write_fir_gain c a v s) = loaded P n s" "loaded P n (write_fir_decimation d s) = loaded P n s"
  "loaded P n (scan_events rd s) = loaded P n s" "loaded P n (increment_fir_gain c a s) = loaded P n s"
  "loaded P n (decrement_fir_gain c a s) = loaded P n s"
proof -
  show g: "loaded P n (write_fir_gain c a v s) = loaded P n s" for v
    by (simp add: loaded_def) (simp add: write_fir_gain_def set_gain_record_def Let_def)
  show "loaded P n (write_fir_decimation d s) = loaded P n s" by (simp add: loaded_def) (simp add: write_fir_decimation_def)
  show "loaded P n (scan_events rd s) = loaded P n s" by (simp add: loaded_def) (simp add: scan_events_def)
  show "loaded P n (increment_fir_gain c a s) = loaded P n s" by (simp add: increment_fir_gain_def Let_def g)
  show "loaded P n (decrement_fir_gain c a s) = loaded P n s" by (simp add: decrement_fir_gain_def Let_def g)
qed

lemma fir_apply_loaded:
  assumes "loaded P (bunch_taps c) s" "exists_for c op" "fir_apply A F c op s = Some s'"
  shows "loaded P (bunch_taps c) s'"
proof -
  have w: "loaded P (bunch_taps c) s'" if "write_setting A c a i f s = Some s'" "i < FIR_BANKS"
      "\<And>b. current_taps (f b) = current_taps b \<and> set_taps (f b) = set_taps b" for a i f
    using loaded_reload [OF loaded_set_bank [OF assms(1)] that(1) [unfolded write_setting_def] that(2)] that(3) loaded_frame [OF assms(1)]
    by simp
  show ?thesis
  proof (cases op)
    case (UseWaveform a j v)
    then show ?thesis using loaded_use_waveform [OF assms(1), of A a j v s'] assms(2,3) by simp
  next
    case (SetTaps a j ts)
    then obtain ts' where "set_fir_taps A F c a j ts s = Some (s', ts')" using assms(3) by auto
    then show ?thesis using loaded_set_taps [OF assms(1), of A F a j ts s' ts'] SetTaps assms(2) by simp
  qed (use assms in \<open>auto intro: w\<close>)
qed

lemma fir_run_loaded:
  "loaded P (bunch_taps c) s \<Longrightarrow> list_all (exists_for c) ops \<Longrightarrow> fir_run A F c ops s = Some s' \<Longrightarrow> loaded P (bunch_taps c) s'"
proof (induction ops arbitrary: s)
  case (Cons op ops)
  obtain s1 where "fir_apply A F c op s = Some s1" "fir_run A F c ops s1 = Some s'"
    using Cons.prems(3) by (auto simp: bind_eq_Some_conv)
  then show ?case using Cons.IH [OF fir_apply_loaded [OF Cons.prems(1), of op A F s1]] Cons.prems(2) by simp
qed simp

section \<open>The taps asked for\<close>

text \<open>The waveform written last, as the numbers of the device.\<close>

fun waveform_of :: "'f arith \<Rightarrow> nat \<Rightarrow> nat \<Rightarrow> nat \<Rightarrow> ('d, 'f) fir_op \<Rightarrow> u32 list \<Rightarrow> u32 list" where
  "waveform_of F n a i (SetTaps a' i' ts) w = (if a' = a \<and> i' = i then fst (float_array_to_int F n ts 32 31) else w)"
| "waveform_of F n a i _ w = w"

lemma update_set_taps: "update_bank_taps A n a' i' s = Some s' \<Longrightarrow> set_taps (bank s' a i) = set_taps (bank s a i)"
  by (auto simp: update_bank_taps_def Let_def update_taps_def) (simp_all add: bank_def set_bank_def)

lemma reload_set_taps: "reload_fir A c a' i' s = Some s' \<Longrightarrow> set_taps (bank s' a i) = set_taps (bank s a i)"
  by (auto simp: reload_fir_def Let_def bind_eq_Some_conv update_set_taps split: if_splits)

lemma use_waveform_set_taps: "set_use_waveform A c a' i' v s = Some s' \<Longrightarrow> set_taps (bank s' a i) = set_taps (bank s a i)"
  by (auto simp: set_use_waveform_def bind_eq_Some_conv update_set_taps split: if_splits)

lemma fir_apply_waveform:
  "fir_apply A F c op s = Some s' \<Longrightarrow> set_taps (bank s' a i) = waveform_of F (bunch_taps c) a i op (set_taps (bank s a i))"
  by (cases op) (auto simp: write_setting_def reload_set_taps use_waveform_set_taps set_fir_taps_def Let_def update_set_taps
      split: prod.splits if_splits)

lemma fir_run_waveform:
  "fir_run A F c ops s = Some s' \<Longrightarrow> set_taps (bank s' a i) = fold (waveform_of F (bunch_taps c) a i) ops (set_taps (bank s a i))"
  by (induction ops arbitrary: s) (auto simp: bind_eq_Some_conv fir_apply_waveform)

text \<open>A tap is the sine at its time, of full scale and rounded.\<close>

definition sine_tap :: "real fir_bank \<Rightarrow> nat \<Rightarrow> int" where
  "sine_tap b k = lround ((2 ^ 31 - 1) * sin (2 * pi * (real_of_int (uint (cycles b)) / real_of_int (uint (fir_length b)) * (k + 1 / 2) +
     fir_phase b / 360)))"

definition taps_asked :: "'f arith \<Rightarrow> nat \<Rightarrow> nat \<Rightarrow> nat \<Rightarrow> (real, 'f) fir_op list \<Rightarrow> real fir_bank \<Rightarrow> u32 list \<Rightarrow> bool" where
  "taps_asked F n a i ops b taps \<longleftrightarrow> length taps = n \<and>
     (if use_waveform b then taps = fold (waveform_of F n a i) ops (replicate n 0)
      else unat (fir_length b) \<le> n \<and> (\<forall>k < n. sint (taps ! k) = (if k < unat (fir_length b) then sine_tap b k else 0)))"

lemma sint_full_scale: "sint (word_of_int (lround (2147483647 * sin x)) :: u32) = lround (2147483647 * sin x)"
proof -
  have "\<bar>2147483647 * sin x\<bar> \<le> 2147483647" by (simp add: abs_mult)
  moreover have "\<bar>of_int (lround (2147483647 * sin x)) - 2147483647 * sin x\<bar> \<le> 1 / 2" by (rule lround_near)
  ultimately have "- 2147483648 \<le> lround (2147483647 * sin x)" "lround (2147483647 * sin x) < 2147483648" by linarith+
  then show ?thesis by (simp add: sint_sbintrunc' signed_take_bit_int_eq_self)
qed

lemma compute_sines:
  assumes "compute_fir_taps (exact e) n b = Some taps"
  shows "length taps = n" "unat (fir_length b) \<le> n"
    "k < n \<Longrightarrow> sint (taps ! k) = (if k < unat (fir_length b) then sine_tap b k else 0)"
proof -
  have t: "unat (fir_length b) \<le> n" "taps = map (fir_tap (exact e) b) [0..<unat (fir_length b)] @ replicate (n - unat (fir_length b)) 0"
    using assms by (auto simp: compute_fir_taps_def Let_def split: if_splits)
  then show "length taps = n" "unat (fir_length b) \<le> n" by simp_all
  have "sint (fir_tap (exact e) b k) = sine_tap b k" for k
    by (simp add: fir_tap_def sine_tap_def sint_full_scale)
  then show "k < n \<Longrightarrow> sint (taps ! k) = (if k < unat (fir_length b) then sine_tap b k else 0)"
    using t by (auto simp: nth_append)
qed

text \<open>C24 The taps in force are the ones asked for: after any sequence of settings, mode changes, waveforms and other
  operations on the filters, the taps of every bank are the waveform written last when the bank uses it, and otherwise
  the rounded sine of its cycles, length and phase, zero behind its length; the device, which fills its banks from the
  words written to it, holds exactly these taps, from the start when no taps have been written before and in any case
  once the bank has been written; and with combined axes both axes are in the same mode and, once a setting of the bank
  has been written, the second has the settings of the first with the shifted phase.\<close>

theorem fir_taps_in_force:
  assumes "list_all (exists_for c) ops" "fir_run (exact e) F c ops (initialise_bunch_fir (exact e) c h) = Some s"
  shows "taps_asked F (bunch_taps c) a i ops (bank s a i) (current_taps (bank s a i)) \<and>
    ((\<forall>v. (DSP a (FIR FIR_TAPS), v) \<notin> set (trace h)) \<or> (a, i) \<in> set (tap_updates s) \<longrightarrow>
      taps_held (bunch_taps c) a i (fir_hw s) = current_taps (bank s a i)) \<and>
    (lmbf c \<longrightarrow> use_waveform (bank s 1 i) = use_waveform (bank s 0 i) \<and>
      (list_ex (reloads i) ops \<longrightarrow> fir_length (bank s 1 i) = fir_length (bank s 0 i) \<and> cycles (bank s 1 i) = cycles (bank s 0 i) \<and>
        fir_phase (bank s 1 i) = fir_phase (bank s 0 i) + phase_shift c))"
proof (intro conjI)
  note ok = fir_run_ok [OF initial_firs_ok assms]
  let ?b = "bank s a i" and ?P = "\<lambda>a i. \<forall>v. (DSP a (FIR FIR_TAPS), v) \<notin> set (trace h)"
  have t: "taps_ok (exact e) (bunch_taps c) ?b" using ok by (simp add: firs_ok_def)
  have "set_taps (bank (initialise_bunch_fir (exact e) c h) a i) = replicate (bunch_taps c) 0"
    by (simp add: initialise_bunch_fir_def Let_def) (simp add: bank_def)
  then have w: "set_taps ?b = fold (waveform_of F (bunch_taps c) a i) ops (replicate (bunch_taps c) 0)"
    using fir_run_waveform [OF assms(2)] by simp
  show "taps_asked F (bunch_taps c) a i ops ?b (current_taps ?b)"
    using t w by (auto simp: taps_asked_def taps_ok_def compute_sines split: if_splits)
  have "loaded ?P (bunch_taps c) s"
    by (rule fir_run_loaded [OF initially_loaded assms]) (rule taps_held_unwritten)
  then show "?P a i \<or> (a, i) \<in> set (tap_updates s) \<longrightarrow> taps_held (bunch_taps c) a i (fir_hw s) = current_taps ?b"
    by (simp add: loaded_def)
  show "lmbf c \<longrightarrow> use_waveform (bank s 1 i) = use_waveform (bank s 0 i) \<and>
      (list_ex (reloads i) ops \<longrightarrow> fir_length (bank s 1 i) = fir_length (bank s 0 i) \<and> cycles (bank s 1 i) = cycles (bank s 0 i) \<and>
        fir_phase (bank s 1 i) = fir_phase (bank s 0 i) + phase_shift c)"
    using ok by (simp add: firs_ok_def follows_def)
qed

text \<open>A setting whose length fits is always accepted.\<close>

lemma update_bank_total: "unat (fir_length (bank s a i)) \<le> n \<Longrightarrow> \<exists>s'. update_bank_taps A n a i s = Some s'"
  by (simp add: update_bank_taps_def compute_fir_taps_def Let_def)

theorem fir_taps_in_force_witness:
  "\<exists>s. fir_run (exact 0) (exact 0) \<lparr>bunch_taps = 16, lmbf = False, phase_shift = 0\<rparr> [SetCycles 0 0 3, SetLength 0 0 13]
      (initialise_bunch_fir (exact 0) \<lparr>bunch_taps = 16, lmbf = False, phase_shift = 0\<rparr> initial_hw) = Some s \<and>
    length (taps_held 16 0 0 (fir_hw s)) = 16 \<and> (\<forall>k < 16. sint (taps_held 16 0 0 (fir_hw s) ! k) =
      (if k < 13 then lround ((2 ^ 31 - 1) * sin (2 * pi * (3 / 13 * (k + 1 / 2)))) else 0))"
proof -
  let ?c = "\<lparr>bunch_taps = 16, lmbf = False, phase_shift = 0 :: real\<rparr>"
  let ?i = "initialise_bunch_fir (exact 0) ?c initial_hw"
  have z: "fir_length (bank ?i 0 0) = 0" "\<not> use_waveform (bank ?i 0 0)"
    by (simp_all add: initialise_bunch_fir_def Let_def) (simp_all add: bank_def)
  obtain s1 where s1: "update_bank_taps (exact 0) 16 0 0 (set_bank 0 0 (\<lambda>b. b\<lparr>cycles := 3\<rparr>) ?i) = Some s1"
    using update_bank_total [of "set_bank 0 0 (\<lambda>b. b\<lparr>cycles := 3\<rparr>) ?i" 0 0 16 "exact 0"] z by auto
  then have u1: "\<not> use_waveform (bank s1 0 0)"
    using z by (auto simp: update_bank_taps_def Let_def update_taps_def) (simp add: bank_def set_bank_def)
  obtain s where s: "update_bank_taps (exact 0) 16 0 0 (set_bank 0 0 (\<lambda>b. b\<lparr>fir_length := 13\<rparr>) s1) = Some s"
    using update_bank_total [of "set_bank 0 0 (\<lambda>b. b\<lparr>fir_length := 13\<rparr>) s1" 0 0 16 "exact 0"] by auto
  have r: "fir_run (exact 0) (exact 0) ?c [SetCycles 0 0 3, SetLength 0 0 13] ?i = Some s"
    using s s1 z u1 by (simp add: write_setting_def reload_fir_def Let_def)
  have u: "\<not> use_waveform (bank s 0 0)" "cycles (bank s 0 0) = 3" "fir_length (bank s 0 0) = 13" "fir_phase (bank s 0 0) = 0"
    using s s1 u1 z by (auto simp: update_bank_taps_def Let_def update_taps_def) (simp_all add: bank_def set_bank_def initialise_bunch_fir_def Let_def write_fir_decimation_def)
  have "\<forall>v. (DSP 0 (FIR FIR_TAPS), v) \<notin> set (trace initial_hw)" by (simp add: initial_hw_def)
  then have "taps_asked (exact 0) 16 0 0 [SetCycles 0 0 3, SetLength 0 0 13] (bank s 0 0) (taps_held 16 0 0 (fir_hw s))"
    using fir_taps_in_force [OF _ r, of 0 0] by (simp add: FIR_BANKS_def)
  then show ?thesis using r u by (simp add: taps_asked_def sine_tap_def)
qed

end
