(* ===== verification/Converters.thy ===== *)
theory Converters
  imports Mms Memory
begin

text \<open>
  The input and output stages of both axes (\<^verbatim>\<open>epics/src/adc.c\<close>, \<^verbatim>\<open>epics/src/dac.c\<close>): the filters, limits and sources
  written to the hardware, the delays that follow from the sources, the outputs that stay off until
  everything has settled, and the phase of the beam with both axes combined.  \<open>None\<close> is a failed assertion.
\<close>

section \<open>State\<close>

record ('d, 'f) adc_context =
  mms_after_fir :: u16
  adc_dram_after_fir :: u16
  adc_overflow :: bool
  adc_status :: adc_events
  adc_mms :: "('d, 'f) mms_handler"

record ('d, 'f) dac_context =
  output_enable :: bool
  mms_source :: dac_mms_source
  dac_dram_after_fir :: bool
  dac_overflow :: bool
  dac_status :: dac_events
  dac_mms :: "('d, 'f) mms_handler"

record ('d, 'f) phase =
  magnitude :: "'f list"
  phase_wf :: "'f list"
  mean_phase :: 'd
  mean_magnitude :: 'd
  threshold :: 'd

record ('d, 'f) converters =
  adcs :: "nat \<Rightarrow> ('d, 'f) adc_context"
  dacs :: "nat \<Rightarrow> ('d, 'f) dac_context"
  output_enable_delay :: int
  phases :: "('d, 'f) phase"
  conv_memory :: memory_state
  conv_hw :: hw

record converter_config =
  conv_bunches :: nat
  adc_taps :: nat
  dac_taps :: nat
  delays :: hardware_delays

definition on_hw :: "(hw \<Rightarrow> hw) \<Rightarrow> ('d, 'f) converters \<Rightarrow> ('d, 'f) converters" where
  "on_hw f s = s\<lparr>conv_hw := f (conv_hw s)\<rparr>"

definition on_adc :: "nat \<Rightarrow> (('d, 'f) adc_context \<Rightarrow> ('d, 'f) adc_context) \<Rightarrow> ('d, 'f) converters \<Rightarrow> ('d, 'f) converters" where
  "on_adc axis f s = s\<lparr>adcs := (adcs s)(axis := f (adcs s axis))\<rparr>"

definition on_dac :: "nat \<Rightarrow> (('d, 'f) dac_context \<Rightarrow> ('d, 'f) dac_context) \<Rightarrow> ('d, 'f) converters \<Rightarrow> ('d, 'f) converters" where
  "on_dac axis f s = s\<lparr>dacs := (dacs s)(axis := f (dacs s axis))\<rparr>"

definition on_memory :: "(memory_state \<Rightarrow> memory_state) \<Rightarrow> ('d, 'f) converters \<Rightarrow> ('d, 'f) converters" where
  "on_memory f s = s\<lparr>conv_memory := f (conv_memory s)\<rparr>"

section \<open>The input stage\<close>

text \<open>The values as reduced to what the hardware can hold are returned with the state.\<close>

definition write_adc_taps ::
  "'f arith \<Rightarrow> converter_config \<Rightarrow> nat \<Rightarrow> 'f list \<Rightarrow> ('d, 'f) converters \<Rightarrow> ('d, 'f) converters \<times> 'f list" where
  "write_adc_taps F c axis taps s =
     (let (ints, taps) = float_array_to_int F (adc_taps c) taps 32 31
      in (on_hw (hw_write_adc_taps (adc_taps c) axis ints) s, taps))"

definition set_adc_overflow_threshold :: "'d arith \<Rightarrow> nat \<Rightarrow> 'd \<Rightarrow> ('d, 'f) converters \<Rightarrow> ('d, 'f) converters \<times> 'd" where
  "set_adc_overflow_threshold A axis v s =
     (let (n, v) = double_to_uint A v 13 13 in (on_hw (hw_write_adc_overflow_threshold axis n) s, v))"

definition set_adc_delta_threshold :: "'d arith \<Rightarrow> nat \<Rightarrow> 'd \<Rightarrow> ('d, 'f) converters \<Rightarrow> ('d, 'f) converters \<times> 'd" where
  "set_adc_delta_threshold A axis v s =
     (let (n, v) = double_to_uint A v 16 15 in (on_hw (hw_write_adc_delta_threshold axis n) s, v))"

definition set_adc_loopback :: "nat \<Rightarrow> bool \<Rightarrow> ('d, 'f) converters \<Rightarrow> ('d, 'f) converters" where
  "set_adc_loopback axis b = on_hw (hw_write_loopback_enable axis b)"

text \<open>\<^verbatim>\<open>enum adc_output_select\<close>; a value that is none of the three changes no delay.\<close>

definition ADC_SELECT_RAW :: u16 where "ADC_SELECT_RAW = 0"
definition ADC_SELECT_FIR :: u16 where "ADC_SELECT_FIR = 1"
definition ADC_SELECT_REJECT :: u16 where "ADC_SELECT_REJECT = 2"

definition adc_select :: "u16 \<Rightarrow> 'a \<Rightarrow> 'a \<Rightarrow> 'a \<Rightarrow> 'a option" where
  "adc_select source raw fir reject =
     (if source = ADC_SELECT_FIR then Some fir else if source = ADC_SELECT_RAW then Some raw
      else if source = ADC_SELECT_REJECT then Some reject else None)"

definition adc_update_delays :: "hardware_delays \<Rightarrow> nat \<Rightarrow> ('d, 'f) converters \<Rightarrow> ('d, 'f) converters" where
  "adc_update_delays d axis s =
     (let s = (case adc_select (mms_after_fir (adcs s axis)) (MMS_ADC_DELAY d) (MMS_ADC_FIR_DELAY d) (MMS_ADC_REJECT_DELAY d) of
           Some x \<Rightarrow> on_adc axis (\<lambda>a. a\<lparr>adc_mms := set_mms_offset (unat x) (adc_mms a)\<rparr>) s | None \<Rightarrow> s)
      in case adc_select (adc_dram_after_fir (adcs s axis)) (DRAM_ADC_DELAY d) (DRAM_ADC_FIR_DELAY d) (DRAM_ADC_REJECT_DELAY d) of
           Some x \<Rightarrow> on_memory (set_memory_adc_offset axis x) s | None \<Rightarrow> s)"

definition write_adc_mms_source :: "hardware_delays \<Rightarrow> nat \<Rightarrow> u16 \<Rightarrow> ('d, 'f) converters \<Rightarrow> ('d, 'f) converters" where
  "write_adc_mms_source d axis source s =
     adc_update_delays d axis (on_hw (hw_write_adc_mms_source axis source) (on_adc axis (\<lambda>a. a\<lparr>mms_after_fir := source\<rparr>) s))"

definition write_adc_dram_source :: "hardware_delays \<Rightarrow> nat \<Rightarrow> u16 \<Rightarrow> ('d, 'f) converters \<Rightarrow> ('d, 'f) converters" where
  "write_adc_dram_source d axis source s =
     adc_update_delays d axis (on_hw (hw_write_adc_dram_source axis source) (on_adc axis (\<lambda>a. a\<lparr>adc_dram_after_fir := source\<rparr>) s))"

definition write_adc_reject_shift :: "nat \<Rightarrow> u16 \<Rightarrow> ('d, 'f) converters \<Rightarrow> ('d, 'f) converters" where
  "write_adc_reject_shift axis shift = on_hw (hw_write_adc_reject_shift axis shift)"

definition adc_scan_axis :: "(reg \<Rightarrow> u32) \<Rightarrow> nat \<Rightarrow> ('d, 'f) converters \<Rightarrow> ('d, 'f) converters" where
  "adc_scan_axis rd axis =
     (let e = hw_read_adc_events axis rd in on_adc axis (\<lambda>a. a\<lparr>adc_status := e, adc_overflow := input_ovf e \<or> adc_fir_ovf e\<rparr>))"

definition adc_scan_events :: "(reg \<Rightarrow> u32) \<Rightarrow> ('d, 'f) converters \<Rightarrow> ('d, 'f) converters" where
  "adc_scan_events rd = fold (adc_scan_axis rd) [0, 1]"

section \<open>The phase of the beam\<close>

text \<open>\<^verbatim>\<open>compute_phase\<close> takes the means of axis 0 and 1 as the components of each bunch.\<close>

definition bunch_magnitude :: "'f arith \<Rightarrow> 'f \<Rightarrow> 'f \<Rightarrow> 'f" where
  "bunch_magnitude F i q = d_sqrt F (d_add F (d_mul F i i) (d_mul F q q))"

definition degrees :: "'a arith \<Rightarrow> 'a \<Rightarrow> 'a \<Rightarrow> 'a \<Rightarrow> 'a" where
  "degrees A p i q = d_mul A (d_div A (d_int A 180) p) (d_atan2 A (d_neg A i) q)"

definition compute_phase :: "('d, 'f) floats \<Rightarrow> nat \<Rightarrow> ('d, 'f) converters \<Rightarrow> ('d, 'f) converters" where
  "compute_phase F n s =
     (let A = dbl F; mean_i = read_mms_mean n (adc_mms (adcs s 0)); mean_q = read_mms_mean n (adc_mms (adcs s 1));
          mag = map2 (bunch_magnitude (flt F)) mean_i mean_q;
          above = (\<lambda>k. d_less A (threshold (phases s)) (of_float F (mag ! k)));
          ks = filter above [0..<n];
          sum_i = total A (map (\<lambda>k. of_float F (mean_i ! k)) ks); sum_q = total A (map (\<lambda>k. of_float F (mean_q ! k)) ks)
      in s\<lparr>phases := (phases s)\<lparr>magnitude := mag,
            mean_magnitude := d_div A (total A (map (of_float F) mag)) (d_int A (int n)),
            phase_wf := map (\<lambda>k. if above k then degrees (flt F) (to_float F (d_pi A)) (mean_i ! k) (mean_q ! k) else d_int (flt F) 0) [0..<n],
            mean_phase := degrees A (d_pi A) sum_i sum_q\<rparr>\<rparr>)"

section \<open>The output stage\<close>

definition write_dac_taps ::
  "'f arith \<Rightarrow> converter_config \<Rightarrow> nat \<Rightarrow> 'f list \<Rightarrow> ('d, 'f) converters \<Rightarrow> ('d, 'f) converters \<times> 'f list" where
  "write_dac_taps F c axis taps s =
     (let (ints, taps) = float_array_to_int F (dac_taps c) taps 32 31
      in (on_hw (hw_write_dac_taps (dac_taps c) axis ints) s, taps))"

definition set_dac_delta_threshold :: "'d arith \<Rightarrow> nat \<Rightarrow> 'd \<Rightarrow> ('d, 'f) converters \<Rightarrow> ('d, 'f) converters \<times> 'd" where
  "set_dac_delta_threshold A axis v s =
     (let (n, v) = double_to_uint A v 16 15 in (on_hw (hw_write_dac_delta_threshold axis n) s, v))"

definition write_dac_delay :: "nat \<Rightarrow> u32 \<Rightarrow> ('d, 'f) converters \<Rightarrow> ('d, 'f) converters \<times> u32" where
  "write_dac_delay axis v s = (let v = (if v < 0x3FF then v else 0x3FF) in (on_hw (hw_write_dac_delay axis v) s, v))"

definition write_output :: "nat \<Rightarrow> ('d, 'f) converters \<Rightarrow> ('d, 'f) converters" where
  "write_output axis s = on_hw (hw_write_output_enable axis (output_enable (dacs s axis))) s"

definition tick_output_enable_delay :: "('d, 'f) converters \<Rightarrow> ('d, 'f) converters" where
  "tick_output_enable_delay s =
     (if 0 < output_enable_delay s then
        let s = s\<lparr>output_enable_delay := output_enable_delay s - 1\<rparr>
        in if output_enable_delay s = 1 then fold write_output [0, 1] s else s
      else s)"

definition write_dac_output_enable :: "nat \<Rightarrow> bool \<Rightarrow> ('d, 'f) converters \<Rightarrow> ('d, 'f) converters" where
  "write_dac_output_enable axis v s =
     (let s = on_dac axis (\<lambda>d. d\<lparr>output_enable := v\<rparr>) s in if output_enable_delay s = 0 then write_output axis s else s)"

definition get_dac_output_enable :: "nat \<Rightarrow> ('d, 'f) converters \<Rightarrow> bool" where
  "get_dac_output_enable axis s = output_enable (dacs s axis)"

fun decode_mms_delay :: "hardware_delays \<Rightarrow> dac_mms_source \<Rightarrow> u32" where
  "decode_mms_delay d DAC_MMS_BEFORE_PREEMPH = MMS_DAC_DELAY d"
| "decode_mms_delay d DAC_MMS_AFTER_PREEMPH = MMS_DAC_FIR_DELAY d"
| "decode_mms_delay d DAC_MMS_BB_FIR = MMS_DAC_FEEDBACK_DELAY d"

definition dac_update_delays :: "hardware_delays \<Rightarrow> nat \<Rightarrow> ('d, 'f) converters \<Rightarrow> ('d, 'f) converters" where
  "dac_update_delays d axis s =
     on_memory (set_memory_dac_offset axis (if dac_dram_after_fir (dacs s axis) then DRAM_DAC_FIR_DELAY d else DRAM_DAC_DELAY d))
       (on_dac axis (\<lambda>c. c\<lparr>dac_mms := set_mms_offset (unat (decode_mms_delay d (mms_source c))) (dac_mms c)\<rparr>) s)"

text \<open>The record value is cast to the enumeration, and decoding any other value fails.\<close>

definition dac_mms_source_of :: "u16 \<Rightarrow> dac_mms_source option" where
  "dac_mms_source_of v = (if v = 0 then Some DAC_MMS_BEFORE_PREEMPH else if v = 1 then Some DAC_MMS_AFTER_PREEMPH
     else if v = 2 then Some DAC_MMS_BB_FIR else None)"

definition write_dac_mms_source :: "hardware_delays \<Rightarrow> nat \<Rightarrow> u16 \<Rightarrow> ('d, 'f) converters \<Rightarrow> ('d, 'f) converters option" where
  "write_dac_mms_source d axis v s =
     map_option (\<lambda>source. dac_update_delays d axis (on_hw (hw_write_dac_mms_source axis source) (on_dac axis (\<lambda>c. c\<lparr>mms_source := source\<rparr>) s)))
       (dac_mms_source_of v)"

definition write_dac_dram_source :: "hardware_delays \<Rightarrow> nat \<Rightarrow> bool \<Rightarrow> ('d, 'f) converters \<Rightarrow> ('d, 'f) converters" where
  "write_dac_dram_source d axis after_fir s =
     dac_update_delays d axis (on_hw (hw_write_dac_dram_source axis after_fir) (on_dac axis (\<lambda>c. c\<lparr>dac_dram_after_fir := after_fir\<rparr>) s))"

definition dac_scan_axis :: "(reg \<Rightarrow> u32) \<Rightarrow> nat \<Rightarrow> ('d, 'f) converters \<Rightarrow> ('d, 'f) converters" where
  "dac_scan_axis rd axis =
     (let e = hw_read_dac_events axis rd
      in on_dac axis (\<lambda>c. c\<lparr>dac_status := e, dac_overflow := dac_fir_ovf e \<or> mux_ovf e \<or> out_ovf e\<rparr>))"

definition dac_scan_events :: "(reg \<Rightarrow> u32) \<Rightarrow> ('d, 'f) converters \<Rightarrow> ('d, 'f) converters" where
  "dac_scan_events rd s = tick_output_enable_delay (fold (dac_scan_axis rd) [0, 1] s)"

section \<open>Initialisation\<close>

text \<open>The contexts are zero but for the handlers.\<close>

definition initialise_adc :: "('d, 'f) floats \<Rightarrow> nat \<Rightarrow> ('d, 'f) adc_context" where
  "initialise_adc F n = \<lparr>mms_after_fir = 0, adc_dram_after_fir = 0, adc_overflow = False,
     adc_status = \<lparr>input_ovf = False, adc_fir_ovf = False, adc_delta_event = False\<rparr>, adc_mms = create_mms_handler F n\<rparr>"

definition initialise_dac :: "('d, 'f) floats \<Rightarrow> nat \<Rightarrow> ('d, 'f) dac_context" where
  "initialise_dac F n = \<lparr>output_enable = False, mms_source = DAC_MMS_BEFORE_PREEMPH, dac_dram_after_fir = False, dac_overflow = False,
     dac_status = \<lparr>dac_fir_ovf = False, mms_ovf = False, mux_ovf = False, out_ovf = False, dac_delta_event = False\<rparr>,
     dac_mms = create_mms_handler F n\<rparr>"

definition initial_converters :: "('d, 'f) floats \<Rightarrow> nat \<Rightarrow> memory_state \<Rightarrow> hw \<Rightarrow> ('d, 'f) converters" where
  "initial_converters F n m h =
     (let z = d_int (dbl F) 0; zs = replicate n (d_int (flt F) 0)
      in \<lparr>adcs = (\<lambda>_. initialise_adc F n), dacs = (\<lambda>_. initialise_dac F n), output_enable_delay = 2,
          phases = \<lparr>magnitude = zs, phase_wf = zs, mean_phase = z, mean_magnitude = z, threshold = z\<rparr>,
          conv_memory = m, conv_hw = h\<rparr>)"

end
