(* ===== verification/Converters_Properties.thy ===== *)
theory Converters_Properties
  imports Converters Hardware_Refinement
begin

text \<open>
  What the input and output stages keep: the delays follow the sources and the hardware has the sources, the
  outputs stay off until everything has settled, and the phase and magnitude are the polar form of the beam.
\<close>

section \<open>Operations\<close>

datatype ('d, 'f) conv_op =
    SetAdcTaps nat "'f list" | SetOverflowLimit nat 'd | SetAdcEventLimit nat 'd | SetLoopback nat bool
  | SetAdcMms nat u16 | SetAdcDram nat u16 | SetRejectShift nat u16 | ScanAdc "reg \<Rightarrow> u32" | ComputePhase
  | SetDacTaps nat "'f list" | SetDacEventLimit nat 'd | SetDacDelay nat u32 | SetEnable nat bool
  | SetDacMms nat u16 | SetDacDram nat bool | ScanDac "reg \<Rightarrow> u32"

fun conv_apply :: "('d, 'f) floats \<Rightarrow> converter_config \<Rightarrow> ('d, 'f) conv_op \<Rightarrow> ('d, 'f) converters \<Rightarrow> ('d, 'f) converters option" where
  "conv_apply F c (SetAdcTaps a ts) s = Some (fst (write_adc_taps (flt F) c a ts s))"
| "conv_apply F c (SetOverflowLimit a v) s = Some (fst (set_adc_overflow_threshold (dbl F) a v s))"
| "conv_apply F c (SetAdcEventLimit a v) s = Some (fst (set_adc_delta_threshold (dbl F) a v s))"
| "conv_apply F c (SetLoopback a b) s = Some (set_adc_loopback a b s)"
| "conv_apply F c (SetAdcMms a v) s = Some (write_adc_mms_source (delays c) a v s)"
| "conv_apply F c (SetAdcDram a v) s = Some (write_adc_dram_source (delays c) a v s)"
| "conv_apply F c (SetRejectShift a v) s = Some (write_adc_reject_shift a v s)"
| "conv_apply F c (ScanAdc rd) s = Some (adc_scan_events rd s)"
| "conv_apply F c ComputePhase s = Some (compute_phase F (conv_bunches c) s)"
| "conv_apply F c (SetDacTaps a ts) s = Some (fst (write_dac_taps (flt F) c a ts s))"
| "conv_apply F c (SetDacEventLimit a v) s = Some (fst (set_dac_delta_threshold (dbl F) a v s))"
| "conv_apply F c (SetDacDelay a v) s = Some (fst (write_dac_delay a v s))"
| "conv_apply F c (SetEnable a b) s = Some (write_dac_output_enable a b s)"
| "conv_apply F c (SetDacMms a v) s = write_dac_mms_source (delays c) a v s"
| "conv_apply F c (SetDacDram a b) s = Some (write_dac_dram_source (delays c) a b s)"
| "conv_apply F c (ScanDac rd) s = Some (dac_scan_events rd s)"

fun conv_run :: "('d, 'f) floats \<Rightarrow> converter_config \<Rightarrow> ('d, 'f) conv_op list \<Rightarrow> ('d, 'f) converters \<Rightarrow> ('d, 'f) converters option" where
  "conv_run F c [] s = Some s"
| "conv_run F c (x # xs) s = (case conv_apply F c x s of None \<Rightarrow> None | Some s \<Rightarrow> conv_run F c xs s)"

lemma conv_run_append: "conv_run F c (xs @ ys) s = (case conv_run F c xs s of None \<Rightarrow> None | Some s \<Rightarrow> conv_run F c ys s)"
  by (induction xs arbitrary: s) (simp_all split: option.split)

text \<open>The axes are 0 and 1.\<close>

fun on_axes :: "('d, 'f) conv_op \<Rightarrow> bool" where
  "on_axes (SetAdcTaps a ts) \<longleftrightarrow> a < 2" | "on_axes (SetOverflowLimit a v) \<longleftrightarrow> a < 2" | "on_axes (SetAdcEventLimit a v) \<longleftrightarrow> a < 2"
| "on_axes (SetLoopback a b) \<longleftrightarrow> a < 2" | "on_axes (SetAdcMms a v) \<longleftrightarrow> a < 2" | "on_axes (SetAdcDram a v) \<longleftrightarrow> a < 2"
| "on_axes (SetRejectShift a v) \<longleftrightarrow> a < 2" | "on_axes (SetDacTaps a ts) \<longleftrightarrow> a < 2" | "on_axes (SetDacEventLimit a v) \<longleftrightarrow> a < 2"
| "on_axes (SetDacDelay a v) \<longleftrightarrow> a < 2" | "on_axes (SetEnable a b) \<longleftrightarrow> a < 2" | "on_axes (SetDacMms a v) \<longleftrightarrow> a < 2"
| "on_axes (SetDacDram a b) \<longleftrightarrow> a < 2" | "on_axes _ \<longleftrightarrow> True"

section \<open>The registers\<close>

text \<open>\<open>reg_field h f\<close> is what the hardware holds in a field, and an operation gives it the values of its specification.\<close>

definition reg_field :: "hw \<Rightarrow> field \<Rightarrow> u32" where
  "reg_field h = (\<lambda>(r, off, w). get_field off w (reg_value h r))"

definition valid_field :: "field \<Rightarrow> bool" where
  "valid_field = (\<lambda>(r, off, w). (off, w) \<in> set (fields_of r))"

definition good :: "hw \<Rightarrow> bool" where
  "good h \<longleftrightarrow> (\<exists>s. abstracts s h)"

lemma abstracts_field:
  assumes "abstracts s h" "valid_field f"
  shows "reg_field h f = s f"
proof -
  obtain r off w where f: "f = (r, off, w)" by (cases f)
  then have v: "(off, w) \<in> set (fields_of r)" using assms(2) by (simp add: valid_field_def)
  then have "fields_of r \<noteq> []" by auto
  then have "reg_value h r = mirror h r" using assms(1) by (simp add: abstracts_def synced_def)
  then show ?thesis using assms(1) v by (auto simp: abstracts_def held_def reg_field_def f)
qed

lemma given_agree: "s f = t f \<Longrightarrow> given gs s f = given gs t f"
proof (induction gs arbitrary: s t)
  case (Cons g gs)
  obtain f' v where g: "g = (f', v)" by (cases g)
  have "(s(f' := v)) f = (t(f' := v)) f" using Cons.prems by simp
  then show ?case unfolding g given_simps by (rule Cons.IH)
qed simp

lemma good_apply: "good h \<Longrightarrow> good (hw_apply c h)"
  using abstracts_step by (auto simp: good_def)

lemma field_apply:
  assumes "good h" "valid_field f"
  shows "reg_field (hw_apply c h) f = given (gives c) (reg_field h) f"
proof -
  obtain s where s: "abstracts s h" using assms(1) by (auto simp: good_def)
  have "reg_field (hw_apply c h) f = given (gives c) s f" by (rule abstracts_field [OF abstracts_step [OF s] assms(2)])
  then show ?thesis using given_agree [of s f "reg_field h" "gives c"] abstracts_field [OF s assms(2)] by simp
qed

definition OUTPUT :: "nat \<Rightarrow> field" where "OUTPUT axis = (CTRL CONTROL, 8 + axis, 1)"
definition DAC_MMS_SOURCE :: "nat \<Rightarrow> field" where "DAC_MMS_SOURCE axis = (DSP axis (DAC DAC_CONFIG), 15, 2)"
definition DAC_DRAM_SOURCE :: "nat \<Rightarrow> field" where "DAC_DRAM_SOURCE axis = (DSP axis (DAC DAC_CONFIG), 17, 1)"
definition ADC_MMS_SOURCE :: "nat \<Rightarrow> field" where "ADC_MMS_SOURCE axis = (DSP axis (ADC ADC_CONFIG), 0, 2)"
definition ADC_DRAM_SOURCE :: "nat \<Rightarrow> field" where "ADC_DRAM_SOURCE axis = (DSP axis (ADC ADC_CONFIG), 2, 2)"

lemmas source_defs = OUTPUT_def DAC_MMS_SOURCE_def DAC_DRAM_SOURCE_def ADC_MMS_SOURCE_def ADC_DRAM_SOURCE_def

text \<open>The fields the properties are about.\<close>

definition watched :: "field set" where
  "watched = {OUTPUT 0, OUTPUT 1} \<union> range DAC_MMS_SOURCE \<union> range DAC_DRAM_SOURCE \<union> range ADC_MMS_SOURCE \<union> range ADC_DRAM_SOURCE"

lemma valid_source:
  "valid_field (OUTPUT 0)" "valid_field (OUTPUT 1)" "valid_field (DAC_MMS_SOURCE a)" "valid_field (DAC_DRAM_SOURCE a)"
  "valid_field (ADC_MMS_SOURCE a)" "valid_field (ADC_DRAM_SOURCE a)"
  by (simp_all add: valid_field_def source_defs)

lemma watched_valid: "f \<in> watched \<Longrightarrow> valid_field f"
  unfolding watched_def using valid_source by blast

lemma watched_simps [simp]:
  "a < 2 \<Longrightarrow> OUTPUT a \<in> watched" "DAC_MMS_SOURCE a \<in> watched" "DAC_DRAM_SOURCE a \<in> watched" "ADC_MMS_SOURCE a \<in> watched"
  "ADC_DRAM_SOURCE a \<in> watched"
  by (auto simp: watched_def less_2_cases_iff)

lemma source_eq [simp]:
  "OUTPUT a = OUTPUT b \<longleftrightarrow> a = b" "DAC_MMS_SOURCE a = DAC_MMS_SOURCE b \<longleftrightarrow> a = b" "DAC_DRAM_SOURCE a = DAC_DRAM_SOURCE b \<longleftrightarrow> a = b"
  "ADC_MMS_SOURCE a = ADC_MMS_SOURCE b \<longleftrightarrow> a = b" "ADC_DRAM_SOURCE a = ADC_DRAM_SOURCE b \<longleftrightarrow> a = b"
  "OUTPUT a \<noteq> DAC_MMS_SOURCE b" "OUTPUT a \<noteq> DAC_DRAM_SOURCE b" "OUTPUT a \<noteq> ADC_MMS_SOURCE b" "OUTPUT a \<noteq> ADC_DRAM_SOURCE b"
  "DAC_MMS_SOURCE b \<noteq> OUTPUT a" "DAC_DRAM_SOURCE b \<noteq> OUTPUT a" "ADC_MMS_SOURCE b \<noteq> OUTPUT a" "ADC_DRAM_SOURCE b \<noteq> OUTPUT a"
  "DAC_MMS_SOURCE a \<noteq> DAC_DRAM_SOURCE b" "DAC_MMS_SOURCE a \<noteq> ADC_MMS_SOURCE b" "DAC_MMS_SOURCE a \<noteq> ADC_DRAM_SOURCE b"
  "DAC_DRAM_SOURCE a \<noteq> DAC_MMS_SOURCE b" "DAC_DRAM_SOURCE a \<noteq> ADC_MMS_SOURCE b" "DAC_DRAM_SOURCE a \<noteq> ADC_DRAM_SOURCE b"
  "ADC_MMS_SOURCE a \<noteq> DAC_MMS_SOURCE b" "ADC_MMS_SOURCE a \<noteq> DAC_DRAM_SOURCE b" "ADC_MMS_SOURCE a \<noteq> ADC_DRAM_SOURCE b"
  "ADC_DRAM_SOURCE a \<noteq> DAC_MMS_SOURCE b" "ADC_DRAM_SOURCE a \<noteq> DAC_DRAM_SOURCE b" "ADC_DRAM_SOURCE a \<noteq> ADC_MMS_SOURCE b"
  by (auto simp: source_defs)

text \<open>What each write does to the watched fields.\<close>

definition updates :: "(hw \<Rightarrow> hw) \<Rightarrow> (field \<times> u32) list \<Rightarrow> bool" where
  "updates g gs \<longleftrightarrow> (\<forall>h. good h \<longrightarrow> good (g h) \<and> (\<forall>f \<in> watched. reg_field (g h) f = given gs (reg_field h) f))"

lemma updates_apply:
  assumes "\<forall>f \<in> watched. \<forall>s. given (gives c) s f = given gs s f"
  shows "updates (hw_apply c) gs"
  using assms by (auto simp: updates_def good_apply field_apply watched_valid)

lemma given_unwatched: "f \<in> watched \<Longrightarrow> \<forall>x \<in> set gs. fst x \<notin> watched \<Longrightarrow> given gs s f = s f"
  by (induction gs arbitrary: s) auto

lemma unwatched [simp]:
  "(DSP a (ADC ADC_LIMITS), off, w) \<notin> watched" "(DSP a (DAC DAC_LIMITS), off, w) \<notin> watched" "(DSP a (ADC ADC_CONFIG), 4, 4) \<notin> watched"
  "(DSP a (DAC DAC_CONFIG), 0, 11) \<notin> watched" "(CTRL CONTROL, 6, 1) \<notin> watched" "(CTRL CONTROL, 7, 1) \<notin> watched"
  by (auto simp: watched_def source_defs)

lemma updates_quiet:
  "updates (hw_write_adc_taps n a ts) []" "updates (hw_write_adc_overflow_threshold a v) []" "updates (hw_write_adc_delta_threshold a v) []"
  "updates (hw_write_adc_reject_shift a s) []" "updates (hw_write_dac_taps n a ts) []" "updates (hw_write_dac_delta_threshold a v) []"
  "updates (hw_write_dac_delay a v) []"
  using updates_apply [of "AdcOp a (AdcTaps n ts)" "[]"] updates_apply [of "AdcOp a (AdcOverflow v)" "[]"]
    updates_apply [of "AdcOp a (AdcDelta v)" "[]"] updates_apply [of "AdcOp a (AdcReject s)" "[]"]
    updates_apply [of "DacOp a (DacTaps n ts)" "[]"] updates_apply [of "DacOp a (DacDelta v)" "[]"]
    updates_apply [of "DacOp a (DacDelay v)" "[]"]
  by (auto simp: given_unwatched)

lemma updates_sources:
  "updates (hw_write_adc_mms_source a v) [(ADC_MMS_SOURCE a, take_bit 2 (ucast v))]"
  "updates (hw_write_adc_dram_source a v) [(ADC_DRAM_SOURCE a, take_bit 2 (ucast v))]"
  "updates (hw_write_dac_mms_source a m) [(DAC_MMS_SOURCE a, take_bit 2 (dac_mms_code m))]"
  "updates (hw_write_dac_dram_source a b) [(DAC_DRAM_SOURCE a, take_bit 1 (of_bool b))]"
  unfolding source_defs
  by (rule updates_apply [of "AdcOp a (AdcMms v)", unfolded hw_apply.simps adc_apply.simps], simp only: gives.simps adc_gives.simps dsp_gives_simps, simp)
    (rule updates_apply [of "AdcOp a (AdcDram v)", unfolded hw_apply.simps adc_apply.simps], simp only: gives.simps adc_gives.simps dsp_gives_simps, simp,
     rule updates_apply [of "DacOp a (DacMms m)", unfolded hw_apply.simps dac_apply.simps], simp only: gives.simps dac_gives.simps dsp_gives_simps, simp,
     rule updates_apply [of "DacOp a (DacDram b)", unfolded hw_apply.simps dac_apply.simps], simp only: gives.simps dac_gives.simps dsp_gives_simps, simp)

lemma updates_control:
  assumes "a < 2"
  shows "updates (hw_write_output_enable a b) [(OUTPUT a, of_bool b)]" "updates (hw_write_loopback_enable a b) []"
proof -
  have a: "of_bool (a = 1) = a" using assms by auto
  show "updates (hw_write_output_enable a b) [(OUTPUT a, of_bool b)]"
    unfolding OUTPUT_def
    by (rule updates_apply [of "CtrlOp (OutputEnable (a = 1) b)", unfolded hw_apply.simps ctrl_apply.simps a]) (simp only: gives.simps ctrl_gives.simps a, simp)
  have "(CTRL CONTROL, 6 + a, 1) \<notin> watched" using assms by (auto simp: watched_def source_defs)
  then show "updates (hw_write_loopback_enable a b) []"
    by (intro updates_apply [of "CtrlOp (Loopback (a = 1) b)", unfolded hw_apply.simps ctrl_apply.simps a])
      (simp only: gives.simps ctrl_gives.simps a, auto simp: given_unwatched)
qed

section \<open>Sources and delays\<close>

text \<open>The registers hold the sources of the contexts, and the delays of the written axes are those of their sources.\<close>

definition registers_hold :: "('d, 'f) converters \<Rightarrow> bool" where
  "registers_hold s \<longleftrightarrow> good (conv_hw s) \<and> (\<forall>a.
     reg_field (conv_hw s) (DAC_MMS_SOURCE a) = dac_mms_code (mms_source (dacs s a)) \<and>
     reg_field (conv_hw s) (DAC_DRAM_SOURCE a) = of_bool (dac_dram_after_fir (dacs s a)) \<and>
     reg_field (conv_hw s) (ADC_MMS_SOURCE a) = take_bit 2 (ucast (mms_after_fir (adcs s a))) \<and>
     reg_field (conv_hw s) (ADC_DRAM_SOURCE a) = take_bit 2 (ucast (adc_dram_after_fir (adcs s a))))"

definition adc_follows :: "hardware_delays \<Rightarrow> nat \<Rightarrow> ('d, 'f) converters \<Rightarrow> bool" where
  "adc_follows d a s \<longleftrightarrow>
     (\<forall>x. adc_select (mms_after_fir (adcs s a)) (MMS_ADC_DELAY d) (MMS_ADC_FIR_DELAY d) (MMS_ADC_REJECT_DELAY d) = Some x \<longrightarrow>
       bunch_offset (adc_mms (adcs s a)) = unat x) \<and>
     (\<forall>x. adc_select (adc_dram_after_fir (adcs s a)) (DRAM_ADC_DELAY d) (DRAM_ADC_FIR_DELAY d) (DRAM_ADC_REJECT_DELAY d) = Some x \<longrightarrow>
       adc_delays (conv_memory s) a = x)"

definition dac_follows :: "hardware_delays \<Rightarrow> nat \<Rightarrow> ('d, 'f) converters \<Rightarrow> bool" where
  "dac_follows d a s \<longleftrightarrow> bunch_offset (dac_mms (dacs s a)) = unat (decode_mms_delay d (mms_source (dacs s a))) \<and>
     dac_delays (conv_memory s) a = (if dac_dram_after_fir (dacs s a) then DRAM_DAC_FIR_DELAY d else DRAM_DAC_DELAY d)"

lemma given_other: "f \<notin> fst ` set gs \<Longrightarrow> given gs s f = s f"
  by (induction gs arbitrary: s) auto

lemma registers_on_hw:
  assumes "registers_hold s" "updates g gs" "fst ` set gs \<subseteq> range OUTPUT"
  shows "registers_hold (on_hw g s)"
proof -
  have keep: "reg_field (g (conv_hw s)) f = reg_field (conv_hw s) f" if "f \<in> watched" "f \<notin> range OUTPUT" for f
  proof -
    have "reg_field (g (conv_hw s)) f = given gs (reg_field (conv_hw s)) f"
      using assms(1,2) that(1) by (simp add: updates_def registers_hold_def)
    also have "\<dots> = reg_field (conv_hw s) f" using assms(3) that(2) by (intro given_other) blast
    finally show ?thesis .
  qed
  have "DAC_MMS_SOURCE a \<notin> range OUTPUT" "DAC_DRAM_SOURCE a \<notin> range OUTPUT" "ADC_MMS_SOURCE a \<notin> range OUTPUT"
    "ADC_DRAM_SOURCE a \<notin> range OUTPUT" for a by auto
  note same = keep [OF watched_simps(2) this(1)] keep [OF watched_simps(3) this(2)] keep [OF watched_simps(4) this(3)]
    keep [OF watched_simps(5) this(4)]
  have "good (g (conv_hw s))" using assms(1,2) by (simp add: updates_def registers_hold_def)
  then show ?thesis using assms(1) by (simp add: registers_hold_def on_hw_def same)
qed

text \<open>What the registers and the delays depend on.\<close>

definition source_state :: "('d, 'f) converters \<Rightarrow> nat \<Rightarrow> dac_mms_source \<times> bool \<times> u16 \<times> u16" where
  "source_state s a = (mms_source (dacs s a), dac_dram_after_fir (dacs s a), mms_after_fir (adcs s a), adc_dram_after_fir (adcs s a))"

definition offset_state :: "('d, 'f) converters \<Rightarrow> nat \<Rightarrow> memory_state \<times> nat \<times> nat" where
  "offset_state s a = (conv_memory s, bunch_offset (dac_mms (dacs s a)), bunch_offset (adc_mms (adcs s a)))"

lemma registers_same: "registers_hold s \<Longrightarrow> source_state s' = source_state s \<Longrightarrow> conv_hw s' = conv_hw s \<Longrightarrow> registers_hold s'"
  by (simp add: registers_hold_def source_state_def fun_eq_iff)

lemma follows_same:
  "source_state s' = source_state s \<Longrightarrow> offset_state s' = offset_state s \<Longrightarrow> adc_follows d a s' = adc_follows d a s"
  "source_state s' = source_state s \<Longrightarrow> offset_state s' = offset_state s \<Longrightarrow> dac_follows d a s' = dac_follows d a s"
  by (simp_all add: adc_follows_def dac_follows_def source_state_def offset_state_def fun_eq_iff)

lemma same_simps [simp]:
  "source_state (on_hw g s) = source_state s" "offset_state (on_hw g s) = offset_state s" "source_state (s\<lparr>output_enable_delay := k\<rparr>) = source_state s"
  "offset_state (s\<lparr>output_enable_delay := k\<rparr>) = offset_state s" "source_state (s\<lparr>phases := p\<rparr>) = source_state s" "offset_state (s\<lparr>phases := p\<rparr>) = offset_state s"
  "source_state (on_dac a (\<lambda>d. d\<lparr>output_enable := b\<rparr>) s) = source_state s" "offset_state (on_dac a (\<lambda>d. d\<lparr>output_enable := b\<rparr>) s) = offset_state s"
  by (auto simp: source_state_def offset_state_def on_hw_def on_dac_def)

text \<open>What each operation does to the registers, the sources and the outputs.\<close>

lemma scan_same [simp]:
  "source_state (adc_scan_axis rd a s) = source_state s" "source_state (dac_scan_axis rd a s) = source_state s"
  "offset_state (adc_scan_axis rd a s) = offset_state s" "offset_state (dac_scan_axis rd a s) = offset_state s"
  "conv_hw (adc_scan_axis rd a s) = conv_hw s" "conv_hw (dac_scan_axis rd a s) = conv_hw s"
  "output_enable_delay (adc_scan_axis rd a s) = output_enable_delay s" "output_enable_delay (dac_scan_axis rd a s) = output_enable_delay s"
  "output_enable (dacs (adc_scan_axis rd a s) b) = output_enable (dacs s b)"
  "output_enable (dacs (dac_scan_axis rd a s) b) = output_enable (dacs s b)"
  by (auto simp: adc_scan_axis_def dac_scan_axis_def on_adc_def on_dac_def source_state_def offset_state_def Let_def)

lemma on_hw_simps [simp]:
  "conv_hw (on_hw g s) = g (conv_hw s)" "output_enable_delay (on_hw g s) = output_enable_delay s" "dacs (on_hw g s) = dacs s"
  "adcs (on_hw g s) = adcs s" "conv_memory (on_hw g s) = conv_memory s"
  "conv_hw (on_dac a f s) = conv_hw s" "conv_hw (on_adc a f' s) = conv_hw s" "output_enable_delay (on_dac a f s) = output_enable_delay s"
  by (simp_all add: on_hw_def on_dac_def on_adc_def)

lemma registers_output: "a < 2 \<Longrightarrow> registers_hold s \<Longrightarrow> registers_hold (write_output a s)"
  unfolding write_output_def by (rule registers_on_hw [OF _ updates_control(1)]) simp_all

lemma same_output [simp]: "source_state (write_output a s) = source_state s" "offset_state (write_output a s) = offset_state s"
  by (simp_all add: write_output_def)

lemma registers_tick: "registers_hold s \<Longrightarrow> registers_hold (tick_output_enable_delay s)"
proof -
  assume h: "registers_hold s"
  then have "registers_hold (s\<lparr>output_enable_delay := k\<rparr>)" for k by (rule registers_same) simp_all
  then show ?thesis using h by (simp add: tick_output_enable_delay_def Let_def registers_output)
qed

lemma registers_scan: "registers_hold s \<Longrightarrow> registers_hold (dac_scan_events rd s)"
  unfolding dac_scan_events_def by (intro registers_tick, erule registers_same) simp_all

lemma same_scan [simp]: "source_state (dac_scan_events rd s) = source_state s" "offset_state (dac_scan_events rd s) = offset_state s"
  by (simp_all add: dac_scan_events_def tick_output_enable_delay_def Let_def)

lemma registers_enable: "a < 2 \<Longrightarrow> registers_hold s \<Longrightarrow> registers_hold (write_dac_output_enable a b s)"
proof -
  assume a: "a < 2" and h: "registers_hold s"
  have "registers_hold (on_dac a (\<lambda>d. d\<lparr>output_enable := b\<rparr>) s)" by (rule registers_same [OF h]) simp_all
  then show ?thesis using a by (simp add: write_dac_output_enable_def Let_def registers_output)
qed

lemma same_enable [simp]: "source_state (write_dac_output_enable a b s) = source_state s" "offset_state (write_dac_output_enable a b s) = offset_state s"
  by (simp_all add: write_dac_output_enable_def Let_def)

text \<open>The writes of sources.\<close>

lemma updates_field: "updates g gs \<Longrightarrow> good h \<Longrightarrow> f \<in> watched \<Longrightarrow> reg_field (g h) f = given gs (reg_field h) f"
  by (simp add: updates_def)

lemma good_updates: "updates g gs \<Longrightarrow> good h \<Longrightarrow> good (g h)"
  by (simp add: updates_def)

lemma code_two_bits [simp]: "take_bit 2 (dac_mms_code m) = dac_mms_code m"
  by (cases m) simp_all

lemma dac_update_simps [simp]:
  "conv_hw (dac_update_delays d a s) = conv_hw s" "adcs (dac_update_delays d a s) = adcs s"
  "mms_source (dacs (dac_update_delays d a s) b) = mms_source (dacs s b)"
  "dac_dram_after_fir (dacs (dac_update_delays d a s) b) = dac_dram_after_fir (dacs s b)"
  "output_enable (dacs (dac_update_delays d a s) b) = output_enable (dacs s b)"
  "output_enable_delay (dac_update_delays d a s) = output_enable_delay s"
  by (simp_all add: dac_update_delays_def on_dac_def on_memory_def)

lemma adc_update_simps [simp]:
  "conv_hw (adc_update_delays d a s) = conv_hw s" "dacs (adc_update_delays d a s) = dacs s"
  "mms_after_fir (adcs (adc_update_delays d a s) b) = mms_after_fir (adcs s b)"
  "adc_dram_after_fir (adcs (adc_update_delays d a s) b) = adc_dram_after_fir (adcs s b)"
  "output_enable_delay (adc_update_delays d a s) = output_enable_delay s"
  by (simp_all add: adc_update_delays_def on_adc_def on_memory_def Let_def split: option.split)

lemma dac_update_follows:
  "dac_follows d a (dac_update_delays d a s)" "b \<noteq> a \<Longrightarrow> dac_follows d b (dac_update_delays d a s) = dac_follows d b s"
  "adc_follows d b (dac_update_delays d a s) = adc_follows d b s"
  by (simp_all add: dac_follows_def adc_follows_def)
    (simp_all add: dac_update_delays_def on_dac_def on_memory_def set_mms_offset_def set_memory_dac_offset_def)

lemma adc_update_follows:
  "adc_follows d a (adc_update_delays d a s)" "b \<noteq> a \<Longrightarrow> adc_follows d b (adc_update_delays d a s) = adc_follows d b s"
  "dac_follows d b (adc_update_delays d a s) = dac_follows d b s"
  by (simp_all add: dac_follows_def adc_follows_def)
    (simp_all add: adc_update_delays_def on_adc_def on_memory_def set_mms_offset_def set_memory_adc_offset_def Let_def split: option.split)

lemma registers_write:
  assumes h: "registers_hold s" and u: "updates g [(f, v)]" and f: "f \<in> watched" and hw: "conv_hw s' = g (conv_hw s)"
    and other: "\<And>a. DAC_MMS_SOURCE a \<noteq> f \<Longrightarrow> mms_source (dacs s' a) = mms_source (dacs s a)"
      "\<And>a. DAC_DRAM_SOURCE a \<noteq> f \<Longrightarrow> dac_dram_after_fir (dacs s' a) = dac_dram_after_fir (dacs s a)"
      "\<And>a. ADC_MMS_SOURCE a \<noteq> f \<Longrightarrow> mms_after_fir (adcs s' a) = mms_after_fir (adcs s a)"
      "\<And>a. ADC_DRAM_SOURCE a \<noteq> f \<Longrightarrow> adc_dram_after_fir (adcs s' a) = adc_dram_after_fir (adcs s a)"
    and new: "\<And>a. DAC_MMS_SOURCE a = f \<Longrightarrow> v = dac_mms_code (mms_source (dacs s' a))"
      "\<And>a. DAC_DRAM_SOURCE a = f \<Longrightarrow> v = of_bool (dac_dram_after_fir (dacs s' a))"
      "\<And>a. ADC_MMS_SOURCE a = f \<Longrightarrow> v = take_bit 2 (ucast (mms_after_fir (adcs s' a)))"
      "\<And>a. ADC_DRAM_SOURCE a = f \<Longrightarrow> v = take_bit 2 (ucast (adc_dram_after_fir (adcs s' a)))"
  shows "registers_hold s'"
proof -
  have good: "good (conv_hw s)" using h by (simp add: registers_hold_def)
  have get: "reg_field (conv_hw s') x = (if x = f then v else reg_field (conv_hw s) x)" if "x \<in> watched" for x
    using updates_field [OF u good that] by (simp add: hw)
  have "good (conv_hw s')" unfolding hw by (rule good_updates [OF u good])
  moreover have "reg_field (conv_hw s') (DAC_MMS_SOURCE a) = dac_mms_code (mms_source (dacs s' a))" for a
    using h other(1) [of a] new(1) [of a] get [OF watched_simps(2), of a] by (auto simp: registers_hold_def)
  moreover have "reg_field (conv_hw s') (DAC_DRAM_SOURCE a) = of_bool (dac_dram_after_fir (dacs s' a))" for a
    using h other(2) [of a] new(2) [of a] get [OF watched_simps(3), of a] by (auto simp: registers_hold_def)
  moreover have "reg_field (conv_hw s') (ADC_MMS_SOURCE a) = take_bit 2 (ucast (mms_after_fir (adcs s' a)))" for a
    using h other(3) [of a] new(3) [of a] get [OF watched_simps(4), of a] by (auto simp: registers_hold_def)
  moreover have "reg_field (conv_hw s') (ADC_DRAM_SOURCE a) = take_bit 2 (ucast (adc_dram_after_fir (adcs s' a)))" for a
    using h other(4) [of a] new(4) [of a] get [OF watched_simps(5), of a] by (auto simp: registers_hold_def)
  ultimately show ?thesis by (simp add: registers_hold_def)
qed

lemma registers_adc_source:
  assumes h: "registers_hold s"
  shows "registers_hold (write_adc_mms_source d a v s)" "registers_hold (write_adc_dram_source d a v s)"
proof -
  show "registers_hold (write_adc_mms_source d a v s)"
    by (rule registers_write [OF h updates_sources(1) [of a v]]) (simp_all add: write_adc_mms_source_def, simp_all add: on_adc_def)
  show "registers_hold (write_adc_dram_source d a v s)"
    by (rule registers_write [OF h updates_sources(2) [of a v]]) (simp_all add: write_adc_dram_source_def, simp_all add: on_adc_def)
qed

lemma registers_dac_source:
  "registers_hold s \<Longrightarrow> write_dac_mms_source d a v s = Some s' \<Longrightarrow> registers_hold s'"
  "registers_hold s \<Longrightarrow> registers_hold (write_dac_dram_source d a b s)"
proof -
  assume h: "registers_hold s" and "write_dac_mms_source d a v s = Some s'"
  then obtain m where s': "s' = dac_update_delays d a (on_hw (hw_write_dac_mms_source a m) (on_dac a (\<lambda>c. c\<lparr>mms_source := m\<rparr>) s))"
    by (auto simp: write_dac_mms_source_def)
  show "registers_hold s'"
    by (rule registers_write [OF h updates_sources(3) [of a m]]) (simp_all add: s', simp_all add: on_dac_def)
next
  assume h: "registers_hold s"
  have "take_bit 1 (of_bool b) = (of_bool b :: u32)" by (cases b) simp_all
  then show "registers_hold (write_dac_dram_source d a b s)"
    by (intro registers_write [OF h updates_sources(4) [of a b]]) (simp_all add: write_dac_dram_source_def, simp_all add: on_dac_def)
qed

lemma registers_step:
  assumes "registers_hold s" "on_axes x" "conv_apply F c x s = Some s'"
  shows "registers_hold s'"
  using assms
proof (cases x)
  case (SetDacMms a v)
  then show ?thesis using assms registers_dac_source(1) by simp
next
  case ComputePhase
  then have "source_state s' = source_state s" "conv_hw s' = conv_hw s" using assms(3) by (auto simp: compute_phase_def Let_def)
  then show ?thesis by (rule registers_same [OF assms(1)])
next
  case (ScanAdc rd)
  then have "source_state s' = source_state s" "conv_hw s' = conv_hw s" using assms(3) by (auto simp: adc_scan_events_def)
  then show ?thesis by (rule registers_same [OF assms(1)])
next
  case (SetDacDelay a v)
  then show ?thesis using assms registers_on_hw [OF assms(1) updates_quiet(7)] by (auto simp: write_dac_delay_def Let_def)
next
  case (SetLoopback a b)
  then show ?thesis using assms registers_on_hw [OF assms(1) updates_control(2)] by (auto simp: set_adc_loopback_def)
qed (auto simp: registers_adc_source registers_dac_source registers_scan registers_enable write_adc_taps_def write_dac_taps_def
  set_adc_overflow_threshold_def set_adc_delta_threshold_def set_dac_delta_threshold_def write_dac_delay_def write_adc_reject_shift_def
  split: prod.splits intro: registers_on_hw updates_quiet)

fun touches_adc :: "nat \<Rightarrow> ('d, 'f) conv_op \<Rightarrow> bool" where
  "touches_adc a (SetAdcMms b v) \<longleftrightarrow> a = b" | "touches_adc a (SetAdcDram b v) \<longleftrightarrow> a = b" | "touches_adc a _ \<longleftrightarrow> False"

fun touches_dac :: "nat \<Rightarrow> ('d, 'f) conv_op \<Rightarrow> bool" where
  "touches_dac a (SetDacMms b v) \<longleftrightarrow> a = b" | "touches_dac a (SetDacDram b v) \<longleftrightarrow> a = b" | "touches_dac a _ \<longleftrightarrow> False"

lemma adc_source_follows:
  "adc_follows d a s \<or> a = b \<Longrightarrow> adc_follows d a (write_adc_mms_source d b v s)"
  "adc_follows d a s \<or> a = b \<Longrightarrow> adc_follows d a (write_adc_dram_source d b v s)"
  "dac_follows d a (write_adc_mms_source d b v s) = dac_follows d a s"
  "dac_follows d a (write_adc_dram_source d b v s) = dac_follows d a s"
  by (cases "a = b"; simp add: write_adc_mms_source_def write_adc_dram_source_def adc_update_follows;
    simp add: adc_follows_def dac_follows_def on_adc_def on_hw_def)+

lemma dac_source_follows:
  "dac_follows d a s \<or> a = b \<Longrightarrow> write_dac_mms_source d b v s = Some s' \<Longrightarrow> dac_follows d a s'"
  "dac_follows d a s \<or> a = b \<Longrightarrow> dac_follows d a (write_dac_dram_source d b e s)"
  "write_dac_mms_source d b v s = Some s' \<Longrightarrow> adc_follows d a s' = adc_follows d a s"
  "adc_follows d a (write_dac_dram_source d b e s) = adc_follows d a s"
  by (cases "a = b"; auto simp: write_dac_mms_source_def write_dac_dram_source_def dac_update_follows;
    simp add: adc_follows_def dac_follows_def on_dac_def on_hw_def)+

lemma other_same:
  assumes "conv_apply F c x s = Some s'" "\<And>a. \<not> touches_adc a x \<and> \<not> touches_dac a x"
  shows "source_state s' = source_state s \<and> offset_state s' = offset_state s"
  using assms
  by (cases x) (auto simp: write_adc_taps_def write_dac_taps_def set_adc_overflow_threshold_def set_adc_delta_threshold_def
    set_dac_delta_threshold_def write_dac_delay_def write_adc_reject_shift_def set_adc_loopback_def compute_phase_def adc_scan_events_def Let_def
    split: prod.splits)

lemma follows_step:
  assumes "conv_apply F c x s = Some s'"
  shows "(touches_adc a x \<or> adc_follows (delays c) a s \<longrightarrow> adc_follows (delays c) a s') \<and>
    (touches_dac a x \<or> dac_follows (delays c) a s \<longrightarrow> dac_follows (delays c) a s')"
proof (cases "\<forall>a. \<not> touches_adc a x \<and> \<not> touches_dac a x")
  case True
  then show ?thesis using other_same [OF assms] follows_same [of s' s] by simp
next
  case False
  then consider b v where "x = SetAdcMms b v" | b v where "x = SetAdcDram b v" | b v where "x = SetDacMms b v" | b e where "x = SetDacDram b e"
    by (cases x) auto
  then show ?thesis
  proof cases
    case 1
    then show ?thesis using assms adc_source_follows(1) [where d = "delays c" and a = a and s = s and b = b and v = v] adc_source_follows(3) [where d = "delays c" and a = a and s = s and b = b and v = v] by auto
  next
    case 2
    then show ?thesis using assms adc_source_follows(2) [where d = "delays c" and a = a and s = s and b = b and v = v] adc_source_follows(4) [where d = "delays c" and a = a and s = s and b = b and v = v] by auto
  next
    case 3
    then show ?thesis using assms dac_source_follows(1) [where d = "delays c" and a = a and s = s and b = b and v = v] dac_source_follows(3) [where d = "delays c" and a = a and s = s and b = b and v = v] by auto
  next
    case 4
    then show ?thesis using assms dac_source_follows(2) [where d = "delays c" and a = a and s = s and b = b and e = e] dac_source_follows(4) [where d = "delays c" and a = a and s = s and b = b and e = e] by auto
  qed
qed

lemma conv_run_ok:
  assumes "registers_hold s" "list_all on_axes ops" "conv_run F c ops s = Some s'"
  shows "registers_hold s' \<and> (list_ex (touches_adc a) ops \<or> adc_follows (delays c) a s \<longrightarrow> adc_follows (delays c) a s') \<and>
    (list_ex (touches_dac a) ops \<or> dac_follows (delays c) a s \<longrightarrow> dac_follows (delays c) a s')"
  using assms
proof (induction ops arbitrary: s)
  case (Cons x ops)
  obtain t where t: "conv_apply F c x s = Some t" "conv_run F c ops t = Some s'" using Cons.prems(3) by (auto split: option.splits)
  have "registers_hold t" using registers_step [OF Cons.prems(1) _ t(1)] Cons.prems(2) by simp
  from Cons.IH [OF this _ t(2)] show ?case using follows_step [OF t(1), of a] Cons.prems(2) by auto
qed simp

lemma registers_initial: "registers_hold (initial_converters F n m initial_hw)"
proof -
  have "good initial_hw" using abstracts_run [of "[]"] by (auto simp: good_def hw_run_def)
  moreover have "reg_field initial_hw f = 0" for f by (cases f) (simp add: reg_field_def reg_value_def initial_hw_def)
  ultimately show ?thesis
    by (simp add: registers_hold_def initial_converters_def initialise_adc_def initialise_dac_def Let_def)
qed

text \<open>The sources of both axes are in force together with their delays: after any settings, scans and computations the
  registers select the sources of the contexts, and once a source of an input or output has been set, its
  statistics and the capture memory are displaced by the delays of the sources now selected.\<close>

theorem sources_in_force:
  assumes "list_all on_axes ops" "conv_run F c ops (initial_converters F n m initial_hw) = Some s"
  shows "reg_field (conv_hw s) (DAC_MMS_SOURCE a) = dac_mms_code (mms_source (dacs s a)) \<and>
    reg_field (conv_hw s) (DAC_DRAM_SOURCE a) = of_bool (dac_dram_after_fir (dacs s a)) \<and>
    reg_field (conv_hw s) (ADC_MMS_SOURCE a) = take_bit 2 (ucast (mms_after_fir (adcs s a))) \<and>
    reg_field (conv_hw s) (ADC_DRAM_SOURCE a) = take_bit 2 (ucast (adc_dram_after_fir (adcs s a))) \<and>
    (list_ex (touches_adc a) ops \<longrightarrow> adc_follows (delays c) a s) \<and> (list_ex (touches_dac a) ops \<longrightarrow> dac_follows (delays c) a s)"
  using conv_run_ok [OF registers_initial assms, of a] by (simp add: registers_hold_def)

section \<open>The outputs\<close>

fun is_tick :: "('d, 'f) conv_op \<Rightarrow> bool" where
  "is_tick (ScanDac rd) \<longleftrightarrow> True" | "is_tick _ \<longleftrightarrow> False"

fun set_to :: "nat \<Rightarrow> ('d, 'f) conv_op \<Rightarrow> bool \<Rightarrow> bool" where
  "set_to a (SetEnable b v) old = (if b = a then v else old)" | "set_to a _ old = old"

definition last_enable :: "nat \<Rightarrow> bool \<Rightarrow> ('d, 'f) conv_op list \<Rightarrow> bool" where
  "last_enable a b ops = fold (set_to a) ops b"

definition output_of :: "('d, 'f) converters \<Rightarrow> nat \<Rightarrow> u32" where
  "output_of s a = reg_field (conv_hw s) (OUTPUT a)"

lemma output_on_hw: "registers_hold s \<Longrightarrow> updates g gs \<Longrightarrow> a < 2 \<Longrightarrow> output_of (on_hw g s) a = given gs (\<lambda>f. reg_field (conv_hw s) f) (OUTPUT a)"
  by (simp add: output_of_def updates_def registers_hold_def)

lemma output_written: "registers_hold s \<Longrightarrow> a < 2 \<Longrightarrow> b < 2 \<Longrightarrow>
    output_of (write_output b s) a = (if a = b then of_bool (output_enable (dacs s b)) else output_of s a)"
  by (simp add: write_output_def output_on_hw [OF _ updates_control(1)]) (simp add: output_of_def)

lemma output_same: "conv_hw s' = conv_hw s \<Longrightarrow> output_of s' a = output_of s a"
  by (simp add: output_of_def)

lemma output_simps [simp]:
  "output_of (on_dac b f s) a = output_of s a" "output_of (on_adc b f' s) a = output_of s a"
  "output_of (adc_scan_axis rd b s) a = output_of s a" "output_of (dac_scan_axis rd b s) a = output_of s a"
  "dacs (on_dac b f s) = (dacs s)(b := f (dacs s b))"
  by (rule output_same, simp)+ (simp add: on_dac_def)

lemma write_output_simps [simp]:
  "dacs (write_output a s) = dacs s" "output_enable_delay (write_output a s) = output_enable_delay s"
  by (simp_all add: write_output_def)

lemma output_quiet: "registers_hold s \<Longrightarrow> updates g gs \<Longrightarrow> a < 2 \<Longrightarrow> OUTPUT a \<notin> fst ` set gs \<Longrightarrow> output_of (on_hw g s) a = output_of s a"
  by (simp add: output_on_hw given_other) (simp add: output_of_def)

lemma output_enable_step:
  assumes "registers_hold s" "a < 2" "b < 2"
  shows "output_of (write_dac_output_enable b v s) a = (if a = b \<and> output_enable_delay s = 0 then of_bool v else output_of s a)"
proof -
  let ?t = "on_dac b (\<lambda>d. d\<lparr>output_enable := v\<rparr>) s"
  have t: "registers_hold ?t" by (rule registers_same [OF assms(1)]) simp_all
  have v: "output_enable (dacs ?t b) = v" and d: "output_enable_delay ?t = output_enable_delay s" by simp_all
  show ?thesis unfolding write_dac_output_enable_def Let_def d if_distrib [of "\<lambda>s. output_of s a"] output_written [OF t assms(2,3)] v
    by simp
qed

lemma output_tick:
  assumes "registers_hold s" "a < 2"
  shows "output_of (tick_output_enable_delay s) a = (if output_enable_delay s = 2 then of_bool (output_enable (dacs s a)) else output_of s a)"
    "output_enable_delay (tick_output_enable_delay s) = (if 0 < output_enable_delay s then output_enable_delay s - 1 else output_enable_delay s)"
    "dacs (tick_output_enable_delay s) = dacs s"
proof -
  let ?t = "s\<lparr>output_enable_delay := output_enable_delay s - 1\<rparr>"
  have t: "registers_hold ?t" by (rule registers_same [OF assms(1)]) simp_all
  have t0: "registers_hold (write_output 0 ?t)" by (rule registers_output [OF _ t]) simp
  have "output_of ?t a = output_of s a" by (rule output_same) simp
  then show "output_of (tick_output_enable_delay s) a = (if output_enable_delay s = 2 then of_bool (output_enable (dacs s a)) else output_of s a)"
    using output_written [OF t0 assms(2), of 1] output_written [OF t assms(2), of 0] assms(2)
    by (auto simp: tick_output_enable_delay_def Let_def less_2_cases_iff)
qed (simp_all add: tick_output_enable_delay_def Let_def)

text \<open>What can be seen of an output: the ticks left, the setting, and the bit in the hardware.\<close>

definition view :: "nat \<Rightarrow> ('d, 'f) converters \<Rightarrow> int \<times> bool \<times> u32" where
  "view a s = (output_enable_delay s, output_enable (dacs s a), output_of s a)"

fun view_step :: "nat \<Rightarrow> ('d, 'f) conv_op \<Rightarrow> int \<times> bool \<times> u32 \<Rightarrow> int \<times> bool \<times> u32" where
  "view_step a (ScanDac rd) (k, e, out) = (if 0 < k then k - 1 else k, e, if k = 2 then of_bool e else out)"
| "view_step a (SetEnable b v) (k, e, out) = (if b = a then (k, v, if k = 0 then of_bool v else out) else (k, e, out))"
| "view_step a _ v = v"

lemma view_scan:
  fixes s :: "('d, 'f) converters"
  shows "registers_hold s \<Longrightarrow> a < 2 \<Longrightarrow> view a (dac_scan_events rd s) = view_step a (ScanDac rd :: ('d, 'f) conv_op) (view a s)"
proof -
  assume h: "registers_hold s" and a: "a < 2"
  let ?t = "fold (dac_scan_axis rd) [0, 1] s"
  have "registers_hold ?t" by (rule registers_same [OF h]) simp_all
  from output_tick [OF this a] show ?thesis by (simp add: dac_scan_events_def view_def)
qed

lemma view_enable:
  fixes s :: "('d, 'f) converters"
  shows "registers_hold s \<Longrightarrow> a < 2 \<Longrightarrow> b < 2 \<Longrightarrow>
    view a (write_dac_output_enable b v s) = view_step a (SetEnable b v :: ('d, 'f) conv_op) (view a s)"
  unfolding view_def by (subst output_enable_step, assumption+) (simp add: write_dac_output_enable_def Let_def)

lemma view_same: "output_of s' a = output_of s a \<Longrightarrow> output_enable (dacs s' a) = output_enable (dacs s a) \<Longrightarrow>
    output_enable_delay s' = output_enable_delay s \<Longrightarrow> view a s' = view a s"
  by (simp add: view_def)

lemma view_quiet: "registers_hold s \<Longrightarrow> updates g [] \<Longrightarrow> a < 2 \<Longrightarrow> view a (on_hw g s) = view a s"
  by (rule view_same) (simp_all add: output_quiet)

lemma view_on_dac: "(\<And>d. output_enable (f d) = output_enable d) \<Longrightarrow> view a (on_dac b f s) = view a s"
  by (simp add: view_def)

lemma view_on_adc [simp]: "view a (on_adc b f s) = view a s"
  by (simp add: view_def) (simp add: on_adc_def)

lemma view_update [simp]: "view a (dac_update_delays d b s) = view a s" "view a (adc_update_delays d b s) = view a s"
  by (simp_all add: view_def output_of_def)

lemma view_on_hw: "registers_hold s \<Longrightarrow> updates g [(f, x)] \<Longrightarrow> f \<noteq> OUTPUT a \<Longrightarrow> a < 2 \<Longrightarrow> view a (on_hw g s) = view a s"
  by (rule view_same) (simp_all add: output_quiet)

lemma view_apply:
  fixes s :: "('d, 'f) converters"
  assumes h: "registers_hold s" and "on_axes x" "conv_apply F c x s = Some s'" and a: "a < 2"
  shows "view a s' = view_step a x (view a s)"
proof -
  have hw: "view a (on_hw g t) = view a s" if "good (conv_hw t)" "view a t = view a s" "updates g gs" "OUTPUT a \<notin> fst ` set gs" for g gs and t :: "('d, 'f) converters"
  proof (rule trans [OF view_same that(2)])
    show "output_of (on_hw g t) a = output_of t a"
      using that(1,3,4) a by (simp add: output_of_def updates_def given_other)
  qed simp_all
  have good: "good (conv_hw s)" using h by (simp add: registers_hold_def)
  note src = hw [OF _ _ updates_sources(1)] hw [OF _ _ updates_sources(2)] hw [OF _ _ updates_sources(3)] hw [OF _ _ updates_sources(4)]
  show ?thesis
  proof (cases x)
    case (ScanDac rd)
    then have "s' = dac_scan_events rd s" using assms(3) by simp
    then show ?thesis unfolding ScanDac by (simp only: view_scan [OF h a])
  next
    case (SetEnable b v)
    then have "s' = write_dac_output_enable b v s" "b < 2" using assms(2,3) by simp_all
    then show ?thesis unfolding SetEnable by (simp only: view_enable [OF h a])
  next
    case ComputePhase
    then show ?thesis using assms(3) by (auto simp: compute_phase_def Let_def view_def output_of_def)
  next
    case (ScanAdc rd)
    then show ?thesis using assms(3) by (auto simp: adc_scan_events_def view_def)
  next
    case (SetLoopback b v)
    then show ?thesis using assms view_quiet [OF h updates_control(2) a] by (auto simp: set_adc_loopback_def)
  next
    case (SetDacDelay b v)
    then show ?thesis using assms view_quiet [OF h updates_quiet(7) a] by (auto simp: write_dac_delay_def Let_def)
  next
    case (SetAdcMms b v)
    then show ?thesis using assms(3) src(1) good by (auto simp: write_adc_mms_source_def)
  next
    case (SetAdcDram b v)
    then show ?thesis using assms(3) src(2) good by (auto simp: write_adc_dram_source_def)
  next
    case (SetDacMms b v)
    then show ?thesis using assms(3) src(3) good by (auto simp: write_dac_mms_source_def view_on_dac)
  next
    case (SetDacDram b v)
    then show ?thesis using assms(3) src(4) good by (auto simp: write_dac_dram_source_def view_on_dac)
  qed (use assms(3) h a in \<open>auto simp: write_adc_taps_def write_dac_taps_def set_adc_overflow_threshold_def set_adc_delta_threshold_def
    set_dac_delta_threshold_def write_adc_reject_shift_def view_quiet updates_quiet split: prod.splits\<close>)
qed

lemma view_run:
  "registers_hold s \<Longrightarrow> list_all on_axes ops \<Longrightarrow> conv_run F c ops s = Some s' \<Longrightarrow> a < 2 \<Longrightarrow> view a s' = fold (view_step a) ops (view a s)"
proof (induction ops arbitrary: s)
  case (Cons x ops)
  obtain t where t: "conv_apply F c x s = Some t" "conv_run F c ops t = Some s'" using Cons.prems(3) by (auto split: option.splits)
  have "registers_hold t" using registers_step [OF Cons.prems(1) _ t(1)] Cons.prems(2) by simp
  from Cons.IH [OF this _ t(2) Cons.prems(4)] show ?case using view_apply [OF Cons.prems(1) _ t(1) Cons.prems(4)] Cons.prems(2) by simp
qed simp

lemma waiting: "list_all (\<lambda>x. \<not> is_tick x) ops \<Longrightarrow> k \<noteq> 0 \<Longrightarrow> fold (view_step a) ops (k, e, out) = (k, last_enable a e ops, out)"
proof (induction ops arbitrary: e)
  case (Cons x ops)
  then show ?case by (cases x) (auto simp: last_enable_def)
qed (simp add: last_enable_def)

lemma settled: "fold (view_step a) ops (0, e, of_bool b) = (0, last_enable a e ops, of_bool (last_enable a b ops))"
proof (induction ops arbitrary: e b)
  case (Cons x ops)
  then show ?case by (cases x) (simp_all add: last_enable_def)
qed (simp add: last_enable_def)

lemma last_enable_append: "last_enable a b (xs @ ys) = last_enable a (last_enable a b xs) ys"
  by (simp add: last_enable_def)

text \<open>C26 The outputs are held off until the first tick of the scan and then follow their settings, but for those written between the
  first and the second tick: the setting is stored and shown, and the output stays as it was set before the
  first tick until the next write.\<close>

theorem outputs_settle:
  assumes "list_all on_axes (pre @ [ScanDac r1] @ mid @ [ScanDac r2] @ post)" "list_all (\<lambda>x. \<not> is_tick x) (pre @ mid)" "a < 2"
    "conv_run F c pre (initial_converters F n m initial_hw) = Some s1"
    "conv_run F c ([ScanDac r1] @ mid @ [ScanDac r2] @ post) s1 = Some s"
  shows "output_of s1 a = 0 \<and> get_dac_output_enable a s = last_enable a False (pre @ mid @ post) \<and>
    output_of s a = of_bool (last_enable a (last_enable a False pre) post)"
proof -
  let ?s0 = "initial_converters F n m initial_hw"
  have "reg_field initial_hw f = 0" for f by (cases f) (simp add: reg_field_def reg_value_def initial_hw_def)
  then have v0: "view a ?s0 = (2, False, 0)"
    by (simp add: view_def output_of_def initial_converters_def initialise_dac_def Let_def)
  have ax: "list_all on_axes pre" "list_all on_axes ([ScanDac r1] @ mid @ [ScanDac r2] @ post)" using assms(1) by simp_all
  have s1: "view a s1 = (2, last_enable a False pre, 0)"
    using view_run [OF registers_initial ax(1) assms(4,3)] assms(2) waiting [of pre 2 a False 0] by (simp add: v0)
  have "registers_hold s1" using conv_run_ok [OF registers_initial ax(1) assms(4)] by blast
  from view_run [OF this ax(2) assms(5,3)]
  have "view a s = (0, last_enable a False (pre @ mid @ post), of_bool (last_enable a (last_enable a False pre) post))"
    using assms(2) by (simp add: s1 waiting settled last_enable_append)
  then show ?thesis using s1 by (simp add: view_def get_dac_output_enable_def)
qed

text \<open>With combined axes and in exact arithmetic.\<close>

lemma total_exact: "total (exact e) xs = sum_list xs"
proof -
  have "foldl (+) b xs = b + sum_list xs" for b :: real by (induction xs arbitrary: b) simp_all
  then show ?thesis by (simp add: total_def)
qed

text \<open>The phase of the beam is its polar angle: with the means of the axes as components the magnitude and the phase in
  degrees of each bunch above the threshold are the polar form of its reading, the others have phase
  zero; the mean magnitude is that of all bunches, and the mean phase the angle of the sum of those
  above the threshold.\<close>

theorem phase_polar_form:
  assumes "n \<le> length (mean_wf (epics (adc_mms (adcs s 0))))" "n \<le> length (mean_wf (epics (adc_mms (adcs s 1))))" "k < n"
    "s' = compute_phase (exact_floats e big) n s"
  defines "z \<equiv> \<lambda>k. Complex (mean_wf (epics (adc_mms (adcs s 1))) ! k) (- (mean_wf (epics (adc_mms (adcs s 0))) ! k))"
  shows "let p = phases s'; above = (\<lambda>k. threshold (phases s) < cmod (z k)) in
    magnitude p ! k = cmod (z k) \<and> mean_magnitude p = (\<Sum>k < n. cmod (z k)) / n \<and>
    (if above k then z k = of_real (magnitude p ! k) * cis (phase_wf p ! k * pi / 180) \<and> - 180 < phase_wf p ! k \<and> phase_wf p ! k \<le> 180
     else phase_wf p ! k = 0) \<and>
    mean_phase p = 180 / pi * Arg (\<Sum>k \<in> {k. k < n \<and> above k}. z k)"
proof -
  let ?i = "read_mms_mean n (adc_mms (adcs s 0))" and ?q = "read_mms_mean n (adc_mms (adcs s 1))"
  have len: "length ?i = n" "length ?q = n" using assms(1,2) by (simp_all add: read_mms_mean_def)
  have z: "z k = Complex (?q ! k) (- (?i ! k))" if "k < n" for k using that by (simp add: z_def read_mms_mean_def)
  define mag where "mag = map2 (bunch_magnitude (exact e)) ?i ?q"
  have m: "mag ! k = cmod (z k)" if "k < n" for k
    using that len by (simp add: mag_def z bunch_magnitude_def cmod_def power2_eq_square add.commute)
  have lm: "length mag = n" by (simp only: mag_def length_map length_zip len min.idem)
  define above where "above = (\<lambda>k. threshold (phases s) < mag ! k)"
  define ks where "ks = filter above [0..<n]"
  have p: "phases s' = (phases s)\<lparr>magnitude := mag, mean_magnitude := sum_list mag / n,
      phase_wf := map (\<lambda>k. if above k then 180 / pi * Arg (Complex (?q ! k) (- (?i ! k))) else 0) [0..<n],
      mean_phase := 180 / pi * Arg (Complex (sum_list (map ((!) ?q) ks)) (- sum_list (map ((!) ?i) ks)))\<rparr>"
    unfolding assms(4) by (simp add: compute_phase_def Let_def total_exact degrees_def mag_def above_def ks_def)
  have ab: "above k \<longleftrightarrow> threshold (phases s) < cmod (z k)" if "k < n" for k using m [OF that] by (simp add: above_def)
  have set: "set ks = {k. k < n \<and> threshold (phases s) < cmod (z k)}" "distinct ks" using ab by (auto simp: ks_def)
  have sm: "sum_list mag = (\<Sum>k < n. cmod (z k))"
    using m by (simp add: sum_list_sum_nth lm atLeast0LessThan)
  have "(\<Sum>k \<in> set ks. z k) = (\<Sum>k \<in> set ks. Complex (?q ! k) (- (?i ! k)))" by (rule sum.cong) (auto simp: ks_def z)
  also have "\<dots> = Complex (\<Sum>k \<in> set ks. ?q ! k) (- (\<Sum>k \<in> set ks. ?i ! k))" by (simp add: complex_eq_iff sum_negf)
  finally have mp: "Complex (sum_list (map ((!) ?q) ks)) (- sum_list (map ((!) ?i) ks)) = (\<Sum>k \<in> {k. k < n \<and> threshold (phases s) < cmod (z k)}. z k)"
    using set by (simp add: sum_list_distinct_conv_sum_set)
  have pw: "phase_wf (phases s') ! k = (if threshold (phases s) < cmod (z k) then 180 / pi * Arg (z k) else 0)"
    using assms(3) ab by (simp add: p z)
  have "z k = of_real (cmod (z k)) * cis (180 / pi * Arg (z k) * pi / 180)" using rcis_cmod_Arg [of "z k"] by (simp add: rcis_def)
  moreover have "- 180 < 180 / pi * Arg (z k)" "180 / pi * Arg (z k) \<le> 180"
    using Arg_bounded [of "z k"] by (simp_all add: field_simps pos_less_divide_eq pos_divide_le_eq)
  moreover have "magnitude (phases s') ! k = cmod (z k)" "mean_magnitude (phases s') = (\<Sum>k < n. cmod (z k)) / n"
    "mean_phase (phases s') = 180 / pi * Arg (\<Sum>k \<in> {k. k < n \<and> threshold (phases s) < cmod (z k)}. z k)"
    using m [OF assms(3)] sm mp by (simp_all add: p)
  ultimately show ?thesis by (simp add: Let_def pw)
qed

section \<open>Examples\<close>

theorem sources_in_force_witness:
  "\<forall>c m. \<exists>s. conv_run (exact_floats 0 1) c [SetDacMms 0 2, SetAdcDram 1 1] (initial_converters (exact_floats 0 1) 2 m initial_hw) = Some s \<and>
    reg_field (conv_hw s) (DAC_MMS_SOURCE 0) = 2 \<and> dac_follows (delays c) 0 s \<and> adc_follows (delays c) 1 s"
proof (intro allI)
  fix c m
  let ?ops = "[SetDacMms 0 2, SetAdcDram 1 1] :: (real, real) conv_op list"
  let ?s0 = "initial_converters (exact_floats 0 1) 2 m initial_hw"
  obtain s where s: "conv_run (exact_floats 0 1) c ?ops ?s0 = Some s" and m: "mms_source (dacs s 0) = DAC_MMS_BB_FIR"
    by (auto simp: write_dac_mms_source_def dac_mms_source_of_def write_adc_dram_source_def) (simp add: on_adc_def)
  have ax: "list_all on_axes ?ops" by simp
  show "\<exists>s. conv_run (exact_floats 0 1) c ?ops ?s0 = Some s \<and>
      reg_field (conv_hw s) (DAC_MMS_SOURCE 0) = 2 \<and> dac_follows (delays c) 0 s \<and> adc_follows (delays c) 1 s"
    using sources_in_force [OF ax s, of 0] sources_in_force [OF ax s, of 1] s m by auto
qed

theorem outputs_settle_witness:
  "\<forall>c m r1 r2. \<exists>s. conv_run (exact_floats 0 1) c [ScanDac r1, SetEnable 0 True, ScanDac r2] (initial_converters (exact_floats 0 1) 2 m initial_hw) = Some s \<and>
    get_dac_output_enable 0 s \<and> output_of s 0 = 0"
proof (intro allI)
  fix c m r1 r2
  let ?F = "exact_floats 0 1" and ?s0 = "initial_converters (exact_floats 0 1) 2 m initial_hw"
  obtain s where s: "conv_run ?F c ([ScanDac r1] @ [SetEnable 0 True] @ [ScanDac r2] @ []) ?s0 = Some s" by simp
  have "get_dac_output_enable 0 s = last_enable 0 False ([] @ [SetEnable 0 True :: (real, real) conv_op] @ []) \<and>
      output_of s 0 = of_bool (last_enable 0 (last_enable 0 False ([] :: (real, real) conv_op list)) ([] :: (real, real) conv_op list))"
    using outputs_settle [of "[]" r1 "[SetEnable 0 True]" r2 "[]" 0 ?F c 2 m ?s0 s] s by simp
  then show "\<exists>s. conv_run ?F c [ScanDac r1, SetEnable 0 True, ScanDac r2] ?s0 = Some s \<and> get_dac_output_enable 0 s \<and> output_of s 0 = 0"
    using s by (intro exI [of _ s]) (simp add: last_enable_def)
qed

definition means :: "real list \<Rightarrow> (real, real) adc_context \<Rightarrow> (real, real) adc_context" where
  "means xs a = a\<lparr>adc_mms := (adc_mms a)\<lparr>epics := (epics (adc_mms a))\<lparr>mean_wf := xs\<rparr>\<rparr>\<rparr>"

theorem phase_polar_form_witness:
  "\<forall>m. let s = on_adc 1 (means [4, 0]) (on_adc 0 (means [3, 0]) (initial_converters (exact_floats 0 1) 2 m initial_hw));
      p = phases (compute_phase (exact_floats 0 1) 2 s)
    in magnitude p ! 0 = 5 \<and> mean_magnitude p = 5 / 2 \<and> Complex 4 (- 3) = 5 * cis (phase_wf p ! 0 * pi / 180)"
proof
  fix m
  define s where "s = on_adc 1 (means [4, 0]) (on_adc 0 (means [3, 0]) (initial_converters (exact_floats 0 1) 2 m initial_hw))"
  have mw: "mean_wf (epics (adc_mms (adcs s 0))) = [3, 0]" "mean_wf (epics (adc_mms (adcs s 1))) = [4, 0]"
    "threshold (phases s) = 0" by (simp_all add: s_def on_adc_def means_def initial_converters_def Let_def)
  have "sqrt (16 + 9) = (5 :: real)" by (rule real_sqrt_unique) simp_all
  then have c: "cmod (Complex 4 (- 3)) = 5" "cmod (Complex 0 0) = 0" "Complex 4 (- 3) \<noteq> 0" by (simp_all add: cmod_def complex_eq_iff)
  have two: "{..<2} = {0, 1 :: nat}" by auto
  define p where "p = phases (compute_phase (exact_floats 0 1) 2 s)"
  note r = phase_polar_form [of 2 s 0 _ 0 1, OF _ _ _ refl, unfolded Let_def p_def [symmetric] mw]
  have m: "magnitude p ! 0 = 5" using r by (simp add: c)
  moreover have "mean_magnitude p = 5 / 2" using r [THEN conjunct2, THEN conjunct1] by (simp add: c two)
  moreover have "Complex 4 (- 3) = 5 * cis (phase_wf p ! 0 * pi / 180)"
    using r [THEN conjunct2, THEN conjunct2, THEN conjunct1] by (simp add: c m split: if_splits)
  ultimately show "let s = on_adc 1 (means [4, 0]) (on_adc 0 (means [3, 0]) (initial_converters (exact_floats 0 1) 2 m initial_hw));
      p = phases (compute_phase (exact_floats 0 1) 2 s)
    in magnitude p ! 0 = 5 \<and> mean_magnitude p = 5 / 2 \<and> Complex 4 (- 3) = 5 * cis (phase_wf p ! 0 * pi / 180)"
    unfolding Let_def s_def [symmetric] p_def [symmetric] by blast
qed

end
