(* ===== verification/Delay.thy ===== *)
theory Delay
  imports Hardware_Control Fixed_Point System_Config
begin

text \<open>
  The turn clock and the delays of the output clock (\<^verbatim>\<open>epics/src/delay.c\<close>).  The clock chip and the converter
  are reached through a serial interface; what they answer is a parameter \<open>chip\<close> that gives the value of a register from
  the trace of all writes so far.  All operations on the chip are under one mutex.  Sleeping is not in the trace.
\<close>

section \<open>Registers of the chips\<close>

text \<open>Fields of a byte; the structures are cast from and to bytes.\<close>

definition get_bits :: "nat \<Rightarrow> nat \<Rightarrow> u8 \<Rightarrow> u8" where
  "get_bits off w b = take_bit w (drop_bit off b)"

definition join_bits :: "(nat \<times> nat \<times> u8) list \<Rightarrow> u8" where
  "join_bits fs = foldr (\<lambda>(off, w, v) b. push_bit off (take_bit w v) OR b) fs 0"

record pll_0x0 =
  DCLK_DIV :: u8
  CLK_IDL :: u8
  CLK_ODL :: u8
  unused_0x0 :: u8

definition pll_0x0_of :: "u8 \<Rightarrow> pll_0x0" where
  "pll_0x0_of b = \<lparr>DCLK_DIV = get_bits 0 5 b, CLK_IDL = get_bits 5 1 b, CLK_ODL = get_bits 6 1 b, unused_0x0 = get_bits 7 1 b\<rparr>"

record pll_0x3 =
  DCLK_MUX :: u8
  DCLK_ADLY_MUX :: u8
  DCLK_ADLY :: u8

definition pll_0x3_of :: "u8 \<Rightarrow> pll_0x3" where
  "pll_0x3_of b = \<lparr>DCLK_MUX = get_bits 0 2 b, DCLK_ADLY_MUX = get_bits 2 1 b, DCLK_ADLY = get_bits 3 5 b\<rparr>"

definition of_pll_0x3 :: "pll_0x3 \<Rightarrow> u8" where
  "of_pll_0x3 v = join_bits [(0, 2, DCLK_MUX v), (2, 1, DCLK_ADLY_MUX v), (3, 5, DCLK_ADLY v)]"

record pll_0x138 =
  OSCout_FMT :: u8
  OSCout_MUX :: u8
  VCO_MUX :: u8
  unused_0x138 :: u8

definition pll_0x138_of :: "u8 \<Rightarrow> pll_0x138" where
  "pll_0x138_of b = \<lparr>OSCout_FMT = get_bits 0 4 b, OSCout_MUX = get_bits 4 1 b, VCO_MUX = get_bits 5 2 b, unused_0x138 = get_bits 7 1 b\<rparr>"

record pll_0x141 =
  DDLYd0_EN :: u8
  DDLYd2_EN :: u8
  DDLYd4_EN :: u8
  DDLYd6_EN :: u8
  DDLYd8_EN :: u8
  DDLYd10_EN :: u8
  DDLYd12_EN :: u8
  DDLYd_SYSREF_EN :: u8

definition of_pll_0x141 :: "pll_0x141 \<Rightarrow> u8" where
  "of_pll_0x141 v = join_bits [(0, 1, DDLYd0_EN v), (1, 1, DDLYd2_EN v), (2, 1, DDLYd4_EN v), (3, 1, DDLYd6_EN v),
     (4, 1, DDLYd8_EN v), (5, 1, DDLYd10_EN v), (6, 1, DDLYd12_EN v), (7, 1, DDLYd_SYSREF_EN v)]"

record pll_0x142 =
  DDLYd_STEP_CNT :: u8
  unused_0x142 :: u8

definition of_pll_0x142 :: "pll_0x142 \<Rightarrow> u8" where
  "of_pll_0x142 v = join_bits [(0, 4, DDLYd_STEP_CNT v), (4, 4, unused_0x142 v)]"

record pll_0x143 =
  SYNC_MODE :: u8
  SYNC_PLL1_DLD :: u8
  SYNC_PLL2_DLD :: u8
  SYNC_EN :: u8
  SYNC_POL :: u8
  SYNC_1SHOT_EN :: u8
  SYSREF_CLR :: u8

definition pll_0x143_of :: "u8 \<Rightarrow> pll_0x143" where
  "pll_0x143_of b = \<lparr>SYNC_MODE = get_bits 0 2 b, SYNC_PLL1_DLD = get_bits 2 1 b, SYNC_PLL2_DLD = get_bits 3 1 b,
     SYNC_EN = get_bits 4 1 b, SYNC_POL = get_bits 5 1 b, SYNC_1SHOT_EN = get_bits 6 1 b, SYSREF_CLR = get_bits 7 1 b\<rparr>"

definition of_pll_0x143 :: "pll_0x143 \<Rightarrow> u8" where
  "of_pll_0x143 v = join_bits [(0, 2, SYNC_MODE v), (2, 1, SYNC_PLL1_DLD v), (3, 1, SYNC_PLL2_DLD v), (4, 1, SYNC_EN v),
     (5, 1, SYNC_POL v), (6, 1, SYNC_1SHOT_EN v), (7, 1, SYSREF_CLR v)]"

record dac_0x18 =
  unused1_0x18 :: u8
  FIFO_soft_align_request :: u8
  FIFO_soft_align_acknowledge :: u8
  unused2_0x18 :: u8
  FIFO_warning_2 :: u8
  FIFO_warning_1 :: u8

definition dac_0x18_of :: "u8 \<Rightarrow> dac_0x18" where
  "dac_0x18_of b = \<lparr>unused1_0x18 = get_bits 0 1 b, FIFO_soft_align_request = get_bits 1 1 b, FIFO_soft_align_acknowledge = get_bits 2 1 b,
     unused2_0x18 = get_bits 3 3 b, FIFO_warning_2 = get_bits 6 1 b, FIFO_warning_1 = get_bits 7 1 b\<rparr>"

definition of_dac_0x18 :: "dac_0x18 \<Rightarrow> u8" where
  "of_dac_0x18 v = join_bits [(0, 1, unused1_0x18 v), (1, 1, FIFO_soft_align_request v), (2, 1, FIFO_soft_align_acknowledge v),
     (3, 3, unused2_0x18 v), (6, 1, FIFO_warning_2 v), (7, 1, FIFO_warning_1 v)]"

section \<open>State\<close>

datatype turn_clock_status = TURN_CLOCK_ARMED | TURN_CLOCK_SYNCED | TURN_CLOCK_ERRORS

text \<open>\<open>turn_sync_set\<close> is the static flag of \<^verbatim>\<open>write_turn_clock_idelay\<close>; \<open>coarse_pv\<close> are the values written to the
  record of the coarse delay without processing it.\<close>

record 'd delay_state =
  clock_status :: turn_clock_status
  turn_clock_turns :: u32
  turn_clock_errors :: u32
  turn_sync_set :: bool
  clock_passthrough :: bool
  ddd_step_size :: 'd
  dac_fine_delay :: u32
  dac_coarse_delay :: u32
  coarse_pv :: "u32 list"
  delay_hw :: hw

type_synonym chip = "(reg \<times> u32) list \<Rightarrow> reg \<Rightarrow> u32"

definition on_delay_hw :: "(hw \<Rightarrow> hw) \<Rightarrow> 'd delay_state \<Rightarrow> 'd delay_state" where
  "on_delay_hw f s = s\<lparr>delay_hw := f (delay_hw s)\<rparr>"

text \<open>A read sends its request, and the chip answers knowing everything written.\<close>

definition read_spi :: "chip \<Rightarrow> fmc500_spi \<Rightarrow> u32 \<Rightarrow> 'd delay_state \<Rightarrow> 'd delay_state \<times> u8" where
  "read_spi chip spi r s =
     (let h = fst (hw_read_fmc500_spi (\<lambda>_. 0) spi r (delay_hw s)); (h, v) = hw_read_fmc500_spi (chip (trace h)) spi r (delay_hw s)
      in (s\<lparr>delay_hw := h\<rparr>, v))"

definition READ_PLL :: "chip \<Rightarrow> u32 \<Rightarrow> 'd delay_state \<Rightarrow> 'd delay_state \<times> u8" where
  "READ_PLL chip = read_spi chip FMC500_SPI_PLL"

definition WRITE_PLL :: "u32 \<Rightarrow> u8 \<Rightarrow> 'd delay_state \<Rightarrow> 'd delay_state" where
  "WRITE_PLL r v = on_delay_hw (hw_write_fmc500_spi FMC500_SPI_PLL r v)"

definition READ_DAC :: "chip \<Rightarrow> u32 \<Rightarrow> 'd delay_state \<Rightarrow> 'd delay_state \<times> u8" where
  "READ_DAC chip = read_spi chip FMC500_SPI_DAC"

definition WRITE_DAC :: "u32 \<Rightarrow> u8 \<Rightarrow> 'd delay_state \<Rightarrow> 'd delay_state" where
  "WRITE_DAC r v = on_delay_hw (hw_write_fmc500_spi FMC500_SPI_DAC r v)"

section \<open>The turn clock\<close>

definition write_turn_clock_idelay :: "u32 \<Rightarrow> 'd delay_state \<Rightarrow> 'd delay_state" where
  "write_turn_clock_idelay delay s =
     (let s = on_delay_hw (hw_write_turn_clock_idelay delay) s
      in if \<not> turn_sync_set s then on_delay_hw hw_write_turn_clock_sync (s\<lparr>turn_sync_set := True\<rparr>) else s)"

definition poll_turn_state :: "(reg \<Rightarrow> u32) \<Rightarrow> 'd delay_state \<Rightarrow> 'd delay_state" where
  "poll_turn_state rd s =
     (let (h, turns, errors) = hw_read_turn_clock_counts rd (delay_hw s)
      in s\<lparr>delay_hw := h, turn_clock_turns := turns, turn_clock_errors := errors,
           clock_status := (if sync_busy (hw_read_trigger_status rd) then TURN_CLOCK_ARMED
             else if 0 < errors then TURN_CLOCK_ERRORS else TURN_CLOCK_SYNCED)\<rparr>)"

text \<open>The result is whether the value was accepted; \<open>None\<close> is the failed assertion of the hardware layer.\<close>

definition write_turn_offset :: "u32 \<Rightarrow> u32 \<Rightarrow> 'd delay_state \<Rightarrow> ('d delay_state \<times> bool) option" where
  "write_turn_offset bunches offset s =
     (if offset < bunches then
        map_option (\<lambda>h. (s\<lparr>delay_hw := h\<rparr>, True)) (hw_write_turn_clock_offset bunches (bunches - 1 - offset) (delay_hw s))
      else Some (s, False))"

section \<open>Synchronisation\<close>

definition PLL_OUT_DAC :: u32 where "PLL_OUT_DAC = 0x110"
definition MAX_COARSE_DELAY :: u32 where "MAX_COARSE_DELAY = 7"

definition pll_sync :: "chip \<Rightarrow> 'd delay_state \<Rightarrow> 'd delay_state" where
  "pll_sync chip s =
     (let (s, b) = READ_PLL chip 0x143 s; v = (pll_0x143_of b)\<lparr>SYNC_POL := 1\<rparr>; s = WRITE_PLL 0x143 (of_pll_0x143 v) s
      in WRITE_PLL 0x143 (of_pll_0x143 (v\<lparr>SYNC_POL := 0\<rparr>)) s)"

definition reset_dac_pll :: "chip \<Rightarrow> 'd delay_state \<Rightarrow> 'd delay_state" where
  "reset_dac_pll chip s =
     (let (s, b) = READ_DAC chip 0x18 s; s = WRITE_DAC 0x18 (of_dac_0x18 ((dac_0x18_of b)\<lparr>FIFO_soft_align_request := 1\<rparr>)) s;
          (s, b) = READ_DAC chip 0x18 s
      in WRITE_DAC 0x18 (of_dac_0x18 ((dac_0x18_of b)\<lparr>FIFO_soft_align_request := 0\<rparr>)) s)"

text \<open>\<open>machine_rf\<close> is in Hz and the step in ps.\<close>

definition read_pll_setup :: "'d arith \<Rightarrow> chip \<Rightarrow> 'd system_config \<Rightarrow> 'd delay_state \<Rightarrow> 'd delay_state" where
  "read_pll_setup A chip cfg s =
     (let (s, b) = READ_PLL chip 0x138 s; s = s\<lparr>clock_passthrough := (VCO_MUX (pll_0x138_of b) = 2)\<rparr>
      in if \<not> clock_passthrough s then
           let (s, b) = READ_PLL chip (PLL_OUT_DAC + 0) s; pll_divisor = DCLK_DIV (pll_0x0_of b);
               machine_rf = d_mul A (revolution_frequency cfg) (d_int A (uint (bunches_per_turn cfg)))
           in s\<lparr>ddd_step_size := d_div A (d_div A (d_int A 1000000000000) machine_rf) (d_int A (uint pll_divisor))\<rparr>
         else s)"

definition read_clock_passthrough :: "'d delay_state \<Rightarrow> bool" where
  "read_clock_passthrough s = clock_passthrough s"

section \<open>The fine delay\<close>

definition set_fine_delay :: "chip \<Rightarrow> u32 \<Rightarrow> u32 \<Rightarrow> 'd delay_state \<Rightarrow> 'd delay_state" where
  "set_fine_delay chip base delay s =
     (let (s, b) = READ_PLL chip (base + 3) s
      in WRITE_PLL (base + 3) (of_pll_0x3 ((pll_0x3_of b)\<lparr>DCLK_ADLY := ucast (delay AND 0x1F)\<rparr>)) s)"

text \<open>The two loops of \<^verbatim>\<open>slew_fine_delay\<close>.\<close>

lemma less_Suc_word: "a < b \<Longrightarrow> unat (a + 1) = Suc (unat a)" for a b :: u32
proof -
  assume "a < b"
  then have "unat a + 1 < 2 ^ 32" using unsigned_less [of b, where ?'a = nat] unfolding word_less_nat_alt by simp
  then show ?thesis by (simp add: unat_word_ariths)
qed

lemma pred_word: "a < b \<Longrightarrow> unat (b - 1) = unat b - 1" for a b :: u32
proof -
  assume "a < b"
  then have "b \<noteq> 0" by auto
  then show ?thesis by (rule unat_minus_one)
qed

function slew_up :: "chip \<Rightarrow> u32 \<Rightarrow> u32 \<Rightarrow> u32 \<Rightarrow> 'd delay_state \<Rightarrow> u32 \<times> 'd delay_state" where
  "slew_up chip base target delay s =
     (if delay < target then slew_up chip base target (delay + 1) (set_fine_delay chip base (delay + 1) s) else (delay, s))"
  by pat_completeness auto

termination
proof (relation "measure (\<lambda>(_, _, target, delay, _). unat target - unat delay)", simp)
  fix chip :: chip and base target delay :: u32 and s :: "'d delay_state"
  assume "delay < target"
  then show "((chip, base, target, delay + 1, set_fine_delay chip base (delay + 1) s), (chip, base, target, delay, s))
      \<in> measure (\<lambda>(_, _, target, delay, _). unat target - unat delay)"
    using less_Suc_word [of delay target] by (simp add: word_less_nat_alt)
qed

function slew_down :: "chip \<Rightarrow> u32 \<Rightarrow> u32 \<Rightarrow> u32 \<Rightarrow> 'd delay_state \<Rightarrow> u32 \<times> 'd delay_state" where
  "slew_down chip base target delay s =
     (if target < delay then slew_down chip base target (delay - 1) (set_fine_delay chip base (delay - 1) s) else (delay, s))"
  by pat_completeness auto

termination
proof (relation "measure (\<lambda>(_, _, target, delay, _). unat delay - unat target)", simp)
  fix chip :: chip and base target delay :: u32 and s :: "'d delay_state"
  assume "target < delay"
  then show "((chip, base, target, delay - 1, set_fine_delay chip base (delay - 1) s), (chip, base, target, delay, s))
      \<in> measure (\<lambda>(_, _, target, delay, _). unat delay - unat target)"
    using pred_word [of target delay] by (simp add: word_less_nat_alt)
qed

declare slew_up.simps [simp del] slew_down.simps [simp del]

definition slew_fine_delay :: "chip \<Rightarrow> u32 \<Rightarrow> u32 \<Rightarrow> u32 \<Rightarrow> 'd delay_state \<Rightarrow> 'd delay_state" where
  "slew_fine_delay chip base target delay s =
     (let (delay, s) = slew_up chip base target delay s; (delay, s) = slew_down chip base target delay s in s)"

definition slew_dac_fine_delay :: "chip \<Rightarrow> u32 \<Rightarrow> 'd delay_state \<Rightarrow> 'd delay_state" where
  "slew_dac_fine_delay chip delay s = (slew_fine_delay chip PLL_OUT_DAC delay (dac_fine_delay s) s)\<lparr>dac_fine_delay := delay\<rparr>"

section \<open>The coarse delay\<close>

definition no_dynamic_delay :: pll_0x141 where
  "no_dynamic_delay = \<lparr>DDLYd0_EN = 0, DDLYd2_EN = 0, DDLYd4_EN = 0, DDLYd6_EN = 0, DDLYd8_EN = 0, DDLYd10_EN = 0,
     DDLYd12_EN = 0, DDLYd_SYSREF_EN = 0\<rparr>"

definition set_coarse_delay :: "u32 \<Rightarrow> 'd delay_state \<Rightarrow> 'd delay_state \<times> bool" where
  "set_coarse_delay target s =
     (if clock_passthrough s then (s, False)
      else if dac_coarse_delay s \<le> target \<and> target \<le> MAX_COARSE_DELAY then
        (if dac_coarse_delay s < target then
           let s' = WRITE_PLL 0x141 (of_pll_0x141 (no_dynamic_delay\<lparr>DDLYd4_EN := 1\<rparr>)) s;
               s' = WRITE_PLL 0x142 (of_pll_0x142 \<lparr>DDLYd_STEP_CNT = ucast ((target - dac_coarse_delay s) AND 0xF), unused_0x142 = 0\<rparr>) s'
           in s'\<lparr>dac_coarse_delay := target\<rparr>
         else s, True)
      else (s, False))"

text \<open>Writing the record processes it.\<close>

definition step_coarse_delay :: "'d delay_state \<Rightarrow> 'd delay_state \<times> bool" where
  "step_coarse_delay s = set_coarse_delay (dac_coarse_delay s + 1) s"

definition reset_coarse_delay :: "chip \<Rightarrow> 'd delay_state \<Rightarrow> 'd delay_state" where
  "reset_coarse_delay chip s =
     (if clock_passthrough s then s
      else let setpoint = dac_fine_delay s;
               s = slew_dac_fine_delay chip 0 s;
               s = pll_sync chip s;
               s = reset_dac_pll chip s;
               s = s\<lparr>coarse_pv := coarse_pv s @ [0], dac_coarse_delay := 0\<rparr>;
               s = slew_dac_fine_delay chip setpoint s
           in on_delay_hw hw_write_turn_clock_sync s)"

definition read_dac_fifo :: "chip \<Rightarrow> 'd delay_state \<Rightarrow> 'd delay_state \<times> u8" where
  "read_dac_fifo chip s = read_spi chip FMC500_SPI_DAC 0x19 s"

definition initialise_delay :: "'d arith \<Rightarrow> chip \<Rightarrow> 'd system_config \<Rightarrow> hw \<Rightarrow> 'd delay_state" where
  "initialise_delay A chip cfg h =
     read_pll_setup A chip cfg \<lparr>clock_status = TURN_CLOCK_ARMED, turn_clock_turns = 0, turn_clock_errors = 0, turn_sync_set = False,
       clock_passthrough = False, ddd_step_size = d_int A 400, dac_fine_delay = 0, dac_coarse_delay = 0, coarse_pv = [], delay_hw = h\<rparr>"

end
