(* ===== verification/Delay_Properties.thy ===== *)
theory Delay_Properties
  imports Delay Hardware_Refinement
begin

text \<open>
  The delays as seen by the chips: what was written to their registers is read off the trace, the fine delay moves in single
  steps, the coarse delay counts exactly what was stepped since the last synchronisation, and a reset follows
  its protocol.
\<close>

section \<open>The serial interface\<close>

text \<open>The writes in a trace: chip, register and byte.\<close>

type_synonym spi_write = "u32 \<times> u32 \<times> u8"

definition spi_writes :: "(reg \<times> u32) list \<Rightarrow> spi_write list" where
  "spi_writes tr = map (\<lambda>(r, w). (get_field 29 2 w, get_field 8 15 w, ucast (get_field 0 8 w)))
     (filter (\<lambda>(r, w). r = SYS FMC_SPI \<and> get_field 31 1 w = 0) tr)"

lemma spi_writes_simps [simp]:
  "spi_writes [] = []" "spi_writes (xs @ ys) = spi_writes xs @ spi_writes ys"
  "r \<noteq> SYS FMC_SPI \<Longrightarrow> spi_writes [(r, w)] = []"
  by (simp_all add: spi_writes_def)

lemma spi_masks: "take_bit 15 (r AND 0x7FFF) = take_bit 15 (r :: u32)" "take_bit 2 (spi_select spi) = spi_select spi"
proof -
  have "(0x7FFF :: u32) = mask 15" by (simp add: mask_eq_exp_minus_1)
  then show "take_bit 15 (r AND 0x7FFF) = take_bit 15 r" by (simp only: take_bit_eq_mask and.assoc and.idem)
  show "take_bit 2 (spi_select spi) = spi_select spi" by (cases spi) simp_all
qed

lemma spi_fields:
  assumes "w = pack [(8, 15, r AND 0x7FFF), (29, 2, spi_select spi), (31, 1, b), (0, 8, v)]"
  shows "get_field 0 8 w = take_bit 8 v" "get_field 8 15 w = take_bit 15 r" "get_field 29 2 w = spi_select spi" "get_field 31 1 w = take_bit 1 b"
  using spi_masks by (simp_all add: assms pack_def get_put_same get_put_other)

lemma spi_request:
  assumes "w = pack [(8, 15, r AND 0x7FFF), (29, 2, spi_select spi), (31, 1, 1)]"
  shows "get_field 8 15 w = take_bit 15 r" "get_field 29 2 w = spi_select spi" "get_field 31 1 w = 1"
  using spi_masks by (simp_all add: assms pack_def get_put_same get_put_other)

definition written :: "'d delay_state \<Rightarrow> spi_write list" where
  "written s = spi_writes (trace (delay_hw s))"

lemma written_spi:
  "spi_writes (trace (hw_write_fmc500_spi spi r v h)) = spi_writes (trace h) @ [(spi_select spi, take_bit 15 r, v)]"
proof -
  let ?w = "pack [(8, 15, r AND 0x7FFF), (29, 2, spi_select spi), (31, 1, 0), (0, 8, ucast v)]"
  have "ucast (take_bit 8 (ucast v :: u32)) = v" by (rule bit_word_eqI) (auto simp: bit_simps)
  then have "spi_writes [(SYS FMC_SPI, ?w)] = [(spi_select spi, take_bit 15 r, v)]"
    using spi_fields [OF refl, of r spi 0 "ucast v"] by (simp add: spi_writes_def)
  then show ?thesis by (simp add: hw_write_fmc500_spi_def WRITE_FIELDS_def writel_def)
qed

lemma written_read: "spi_writes (trace (fst (hw_read_fmc500_spi rd spi r h))) = spi_writes (trace h)"
proof -
  let ?w = "pack [(8, 15, r AND 0x7FFF), (29, 2, spi_select spi), (31, 1, 1)]"
  have "get_field 31 1 ?w = 1" by (simp add: pack_def get_put_same)
  then have "spi_writes [(SYS FMC_SPI, ?w)] = []" by (simp add: spi_writes_def)
  then show ?thesis by (simp add: hw_read_fmc500_spi_def WRITE_FIELDS_def writel_def)
qed

text \<open>What each access adds to the writes.\<close>

lemma written_simps [simp]:
  "written (WRITE_PLL r v s) = written s @ [(0, take_bit 15 r, v)]" "written (WRITE_DAC r v s) = written s @ [(2, take_bit 15 r, v)]"
  "written (on_delay_hw hw_write_turn_clock_sync s) = written s" "written (on_delay_hw (hw_write_turn_clock_idelay d) s) = written s"
  by (simp_all add: written_def WRITE_PLL_def WRITE_DAC_def on_delay_hw_def written_spi)
    (simp_all add: hw_write_turn_clock_sync_def hw_write_turn_clock_idelay_def WRITE_FIELDS_def writel_def)

lemma written_update [simp]:
  "written (s\<lparr>dac_fine_delay := d\<rparr>) = written s" "written (s\<lparr>dac_coarse_delay := d\<rparr>) = written s" "written (s\<lparr>coarse_pv := p\<rparr>) = written s"
  "written (s\<lparr>turn_sync_set := b\<rparr>) = written s" "written (s\<lparr>clock_passthrough := b\<rparr>) = written s" "written (s\<lparr>ddd_step_size := x\<rparr>) = written s"
  by (simp_all add: written_def)

text \<open>Everything but the hardware is kept by the accesses.\<close>

definition same_but_hw :: "'d delay_state \<Rightarrow> 'd delay_state \<Rightarrow> bool" where
  "same_but_hw s s' \<longleftrightarrow> s'\<lparr>delay_hw := delay_hw s\<rparr> = s"

lemma same_but_hw_simps [simp]: "same_but_hw s s" "same_but_hw s (on_delay_hw f s') = same_but_hw s s'"
  "same_but_hw s (WRITE_PLL r v s') = same_but_hw s s'" "same_but_hw s (WRITE_DAC r v s') = same_but_hw s s'"
  by (simp_all add: same_but_hw_def on_delay_hw_def WRITE_PLL_def WRITE_DAC_def)

lemma same_but_hw_fields:
  assumes "same_but_hw s s'"
  shows "dac_fine_delay s' = dac_fine_delay s" "dac_coarse_delay s' = dac_coarse_delay s" "clock_passthrough s' = clock_passthrough s"
    "coarse_pv s' = coarse_pv s" "turn_sync_set s' = turn_sync_set s"
proof -
  have e: "s'\<lparr>delay_hw := delay_hw s\<rparr> = s" using assms by (simp add: same_but_hw_def)
  show "dac_fine_delay s' = dac_fine_delay s" using arg_cong [OF e, of dac_fine_delay] by simp
  show "dac_coarse_delay s' = dac_coarse_delay s" using arg_cong [OF e, of dac_coarse_delay] by simp
  show "clock_passthrough s' = clock_passthrough s" using arg_cong [OF e, of clock_passthrough] by simp
  show "coarse_pv s' = coarse_pv s" using arg_cong [OF e, of coarse_pv] by simp
  show "turn_sync_set s' = turn_sync_set s" using arg_cong [OF e, of turn_sync_set] by simp
qed

lemma read_spi_result:
  assumes "read_spi chip spi r s = (s', b)"
  shows "same_but_hw s s'" "written s' = written s"
    "\<exists>w. trace (delay_hw s') = trace (delay_hw s) @ [(SYS FMC_SPI, w)] \<and> get_field 31 1 w = 1 \<and> get_field 29 2 w = spi_select spi \<and>
      get_field 8 15 w = take_bit 15 r \<and> b = ucast (get_field 0 8 (chip (trace (delay_hw s')) (SYS FMC_SPI)))"
proof -
  let ?w = "pack [(8, 15, r AND 0x7FFF), (29, 2, spi_select spi), (31, 1, 1)]"
  let ?h = "WRITE_FIELDS (SYS FMC_SPI) [(8, 15, r AND 0x7FFF), (29, 2, spi_select spi), (31, 1, 1)] (delay_hw s)"
  have s': "s' = s\<lparr>delay_hw := ?h\<rparr>" and b: "b = ucast (get_field 0 8 (chip (trace ?h) (SYS FMC_SPI)))"
    using assms by (simp_all add: read_spi_def hw_read_fmc500_spi_def Let_def)
  show "same_but_hw s s'" by (simp add: s' same_but_hw_def)
  show "written s' = written s" using written_read [of _ spi r "delay_hw s"] by (simp add: written_def s' hw_read_fmc500_spi_def)
  note spi_request [OF refl, of r spi]
  then show "\<exists>w. trace (delay_hw s') = trace (delay_hw s) @ [(SYS FMC_SPI, w)] \<and> get_field 31 1 w = 1 \<and> get_field 29 2 w = spi_select spi \<and>
      get_field 8 15 w = take_bit 15 r \<and> b = ucast (get_field 0 8 (chip (trace (delay_hw s')) (SYS FMC_SPI)))"
    by (intro exI [of _ ?w]) (simp add: s' b WRITE_FIELDS_def writel_def)
qed

section \<open>The coarse delay\<close>

text \<open>The steps the chip has been asked for since it was last synchronised.\<close>

definition dial :: "spi_write \<Rightarrow> nat \<Rightarrow> nat" where
  "dial = (\<lambda>(spi, r, b) n.
     if spi = 0 \<and> r = 0x142 then n + unat (get_bits 0 4 b)
     else if spi = 0 \<and> r = 0x143 \<and> SYNC_POL (pll_0x143_of b) = 1 then 0 else n)"

definition dialled :: "spi_write list \<Rightarrow> nat" where
  "dialled ws = fold dial ws 0"

lemma dialled_append: "dialled (xs @ ys) = fold dial ys (dialled xs)"
  by (simp add: dialled_def)

text \<open>The fields of a byte that is put together.\<close>

lemma bit_get_bits: "bit (get_bits off w b) n \<longleftrightarrow> n < w \<and> bit b (off + n)"
  by (auto simp: get_bits_def bit_simps)

lemma bit_join_bits:
  "bit (join_bits []) n \<longleftrightarrow> False"
  "bit (join_bits ((off, w, v) # fs)) n \<longleftrightarrow> (off \<le> n \<and> n < 8 \<and> n - off < w \<and> bit v (n - off)) \<or> bit (join_bits fs) n"
  by (auto simp: join_bits_def bit_simps)

lemmas byte_defs = pll_0x3_of_def of_pll_0x3_def pll_0x143_of_def of_pll_0x143_def of_pll_0x142_def dac_0x18_of_def of_dac_0x18_def

lemma byte_fields:
  "DCLK_ADLY (pll_0x3_of (of_pll_0x3 v)) = take_bit 5 (DCLK_ADLY v)"
  "DCLK_MUX (pll_0x3_of (of_pll_0x3 v)) = take_bit 2 (DCLK_MUX v)"
  "DCLK_ADLY_MUX (pll_0x3_of (of_pll_0x3 v)) = take_bit 1 (DCLK_ADLY_MUX v)"
  "SYNC_POL (pll_0x143_of (of_pll_0x143 u)) = take_bit 1 (SYNC_POL u)"
  "get_bits 0 4 (of_pll_0x142 x) = take_bit 4 (DDLYd_STEP_CNT x)"
  "FIFO_soft_align_request (dac_0x18_of (of_dac_0x18 y)) = take_bit 1 (FIFO_soft_align_request y)"
  by (rule bit_word_eqI; auto simp: byte_defs bit_get_bits bit_join_bits bit_take_bit_iff bit_0)+

definition fine_write :: "spi_write \<Rightarrow> bool" where
  "fine_write = (\<lambda>(spi, r, b). spi = 0 \<and> r = 0x113)"

lemma dial_fine: "list_all fine_write ws \<Longrightarrow> fold dial ws n = n"
  by (induction ws arbitrary: n) (auto simp: fine_write_def dial_def)

lemma same_but_hw_trans: "same_but_hw s t \<Longrightarrow> same_but_hw t u \<Longrightarrow> same_but_hw s u"
  unfolding same_but_hw_def by (metis (no_types) delay_state.update_convs(10) delay_state.surjective)

lemma set_fine_writes:
  assumes "s' = set_fine_delay chip PLL_OUT_DAC d s"
  shows "same_but_hw s s'" "\<exists>b. written s' = written s @ [(0, 0x113, b)]"
proof -
  obtain t b where t: "READ_PLL chip 0x113 s = (t, b)" by (cases "READ_PLL chip 0x113 s")
  note r = read_spi_result [OF t [unfolded READ_PLL_def]]
  have s': "s' = WRITE_PLL 0x113 (of_pll_0x3 ((pll_0x3_of b)\<lparr>DCLK_ADLY := ucast (d AND 0x1F)\<rparr>)) t"
    by (simp add: assms set_fine_delay_def t PLL_OUT_DAC_def)
  show "same_but_hw s s'" "\<exists>b. written s' = written s @ [(0, 0x113, b)]" using r(1,2) by (simp_all add: s')
qed

text \<open>Slewing is a sequence of single settings.\<close>

definition steps :: "nat \<Rightarrow> nat \<Rightarrow> nat list" where
  "steps d t = (if d \<le> t then [Suc d..<Suc t] else rev [t..<d])"

lemma slew_up_fold:
  "slew_up chip base target d s = (if d < target then target else d, fold (set_fine_delay chip base) (map of_nat [Suc (unat d)..<Suc (unat target)]) s)"
proof (induction chip base target d s rule: slew_up.induct)
  case (1 chip base target d s)
  show ?case
  proof (cases "d < target")
    case True
    have n: "unat (d + 1) = Suc (unat d)" by (rule less_Suc_word [OF True])
    have lt: "unat d < unat target" using True by (simp add: word_less_nat_alt)
    have u: "[Suc (unat d)..<Suc (unat target)] = Suc (unat d) # [Suc (Suc (unat d))..<Suc (unat target)]"
      using lt by (subst upt_rec) simp
    have d1: "of_nat (Suc (unat d)) = d + 1" by (simp add: add.commute)
    have e: "(if d + 1 < target then target else d + 1) = target"
      using n lt by (auto simp: word_less_nat_alt intro: word_unat_eq_iff [THEN iffD2])
    show ?thesis using "1.IH" [OF True] True by (subst slew_up.simps) (simp only: u n if_True list.map fold_simps d1 e)
  next
    case False
    then have "unat target \<le> unat d" by (simp add: word_less_nat_alt)
    then show ?thesis using False by (subst slew_up.simps) simp
  qed
qed

lemma slew_down_fold:
  "slew_down chip base target d s = (if target < d then target else d, fold (set_fine_delay chip base) (map of_nat (rev [unat target..<unat d])) s)"
proof (induction chip base target d s rule: slew_down.induct)
  case (1 chip base target d s)
  show ?case
  proof (cases "target < d")
    case True
    have n: "unat (d - 1) = unat d - 1" by (rule pred_word [OF True])
    have lt: "unat target < unat d" using True by (simp add: word_less_nat_alt)
    then obtain k where k: "unat d = Suc k" "unat target \<le> k" by (cases "unat d") auto
    have u: "rev [unat target..<unat d] = (unat d - 1) # rev [unat target..<unat d - 1]" using k by simp
    have d1: "of_nat (unat d - 1) = d - 1" unfolding n [symmetric] by simp
    have e: "(if target < d - 1 then target else d - 1) = target"
      using n lt by (auto simp: word_less_nat_alt intro: word_unat_eq_iff [THEN iffD2])
    show ?thesis using "1.IH" [OF True] True by (subst slew_down.simps) (simp only: u n if_True list.map fold_simps d1 e)
  next
    case False
    then have "unat d \<le> unat target" by (simp add: word_less_nat_alt)
    then show ?thesis using False by (subst slew_down.simps) simp
  qed
qed

lemma slew_fold: "slew_fine_delay chip base target d s = fold (set_fine_delay chip base) (map of_nat (steps (unat d) (unat target))) s"
proof (cases "d \<le> target")
  case True
  then have "(if d < target then target else d) = target" by auto
  moreover have "unat d \<le> unat target" using True by (simp add: word_le_nat_alt)
  ultimately show ?thesis by (simp add: slew_fine_delay_def slew_up_fold slew_down_fold steps_def)
next
  case False
  then have "\<not> d < target" "unat target < unat d" by (auto simp: word_le_nat_alt word_less_nat_alt)
  then show ?thesis by (simp add: slew_fine_delay_def slew_up_fold slew_down_fold steps_def)
qed

lemma fold_fine_writes:
  "same_but_hw s (fold (set_fine_delay chip PLL_OUT_DAC) ds s) \<and>
    (\<exists>ws. written (fold (set_fine_delay chip PLL_OUT_DAC) ds s) = written s @ ws \<and> list_all fine_write ws)"
proof (induction ds arbitrary: s)
  case (Cons d ds)
  let ?t = "set_fine_delay chip PLL_OUT_DAC d s"
  obtain b where b: "written ?t = written s @ [(0, 0x113, b)]" using set_fine_writes(2) [OF refl] by blast
  obtain ws where ws: "written (fold (set_fine_delay chip PLL_OUT_DAC) ds ?t) = written ?t @ ws" "list_all fine_write ws"
    and same: "same_but_hw ?t (fold (set_fine_delay chip PLL_OUT_DAC) ds ?t)" using Cons.IH [of ?t] by blast
  have "list_all fine_write ((0, 0x113, b) # ws)" using ws(2) by (simp add: fine_write_def)
  then show ?case using same_but_hw_trans [OF set_fine_writes(1) [OF refl] same] b ws(1) by auto
qed simp

lemma slew_dac_writes:
  fixes s :: "'a delay_state"
  assumes "s' = slew_dac_fine_delay chip d s"
  shows "same_but_hw (s\<lparr>dac_fine_delay := d\<rparr>) s'" "\<exists>ws. written s' = written s @ ws \<and> list_all fine_write ws"
proof -
  let ?t = "slew_fine_delay chip PLL_OUT_DAC d (dac_fine_delay s) s"
  have t: "same_but_hw s ?t \<and> (\<exists>ws. written ?t = written s @ ws \<and> list_all fine_write ws)" unfolding slew_fold by (rule fold_fine_writes)
  show "\<exists>ws. written s' = written s @ ws \<and> list_all fine_write ws" using t by (simp add: assms slew_dac_fine_delay_def)
  have "\<And>t :: 'a delay_state. same_but_hw s t \<Longrightarrow> same_but_hw (s\<lparr>dac_fine_delay := d\<rparr>) (t\<lparr>dac_fine_delay := d\<rparr>)"
  proof -
    fix t :: "'a delay_state" assume "same_but_hw s t"
    then show "same_but_hw (s\<lparr>dac_fine_delay := d\<rparr>) (t\<lparr>dac_fine_delay := d\<rparr>)" by (cases s; cases t) (simp add: same_but_hw_def)
  qed
  then show "same_but_hw (s\<lparr>dac_fine_delay := d\<rparr>) s'" using t by (simp add: assms slew_dac_fine_delay_def)
qed

lemma slew_dac_fields:
  "dac_fine_delay (slew_dac_fine_delay chip d s) = d" "dac_coarse_delay (slew_dac_fine_delay chip d s) = dac_coarse_delay s"
  "clock_passthrough (slew_dac_fine_delay chip d s) = clock_passthrough s"
  using same_but_hw_fields [OF slew_dac_writes(1) [OF refl, where chip = chip and d = d and s = s]] by simp_all

lemma slew_dac_dialled: "dialled (written (slew_dac_fine_delay chip d s)) = dialled (written s)"
  using slew_dac_writes(2) [OF refl, where chip = chip and d = d and s = s] by (auto simp: dialled_append dial_fine)

lemma pll_sync_writes:
  assumes "s' = pll_sync chip s"
  shows "same_but_hw s s'" "\<exists>b c. written s' = written s @ [(0, 0x143, b), (0, 0x143, c)] \<and> SYNC_POL (pll_0x143_of b) = 1 \<and> SYNC_POL (pll_0x143_of c) = 0"
proof -
  obtain t b where t: "READ_PLL chip 0x143 s = (t, b)" by (cases "READ_PLL chip 0x143 s")
  note r = read_spi_result [OF t [unfolded READ_PLL_def]]
  let ?v = "(pll_0x143_of b)\<lparr>SYNC_POL := 1\<rparr>"
  have s': "s' = WRITE_PLL 0x143 (of_pll_0x143 (?v\<lparr>SYNC_POL := 0\<rparr>)) (WRITE_PLL 0x143 (of_pll_0x143 ?v) t)"
    by (simp add: assms pll_sync_def t Let_def)
  show "same_but_hw s s'" using r(1) by (simp add: s')
  show "\<exists>b c. written s' = written s @ [(0, 0x143, b), (0, 0x143, c)] \<and> SYNC_POL (pll_0x143_of b) = 1 \<and> SYNC_POL (pll_0x143_of c) = 0"
    by (intro exI [of _ "of_pll_0x143 ?v"] exI [of _ "of_pll_0x143 (?v\<lparr>SYNC_POL := 0\<rparr>)"]) (simp add: s' r(2) byte_fields)
qed

lemma reset_dac_writes:
  assumes "s' = reset_dac_pll chip s"
  shows "same_but_hw s s'" "\<exists>b c. written s' = written s @ [(2, 0x18, b), (2, 0x18, c)] \<and> FIFO_soft_align_request (dac_0x18_of b) = 1 \<and>
    FIFO_soft_align_request (dac_0x18_of c) = 0"
proof -
  obtain t b where t: "READ_DAC chip 0x18 s = (t, b)" by (cases "READ_DAC chip 0x18 s")
  let ?b = "of_dac_0x18 ((dac_0x18_of b)\<lparr>FIFO_soft_align_request := 1\<rparr>)"
  obtain u c where u: "READ_DAC chip 0x18 (WRITE_DAC 0x18 ?b t) = (u, c)" by (cases "READ_DAC chip 0x18 (WRITE_DAC 0x18 ?b t)")
  let ?c = "of_dac_0x18 ((dac_0x18_of c)\<lparr>FIFO_soft_align_request := 0\<rparr>)"
  note r = read_spi_result [OF t [unfolded READ_DAC_def]] and r' = read_spi_result [OF u [unfolded READ_DAC_def]]
  have s': "s' = WRITE_DAC 0x18 ?c u" by (simp add: assms reset_dac_pll_def t u Let_def)
  have "same_but_hw s (WRITE_DAC 0x18 ?b t)" using r(1) by simp
  from same_but_hw_trans [OF this r'(1)] show "same_but_hw s s'" by (simp add: s')
  show "\<exists>b c. written s' = written s @ [(2, 0x18, b), (2, 0x18, c)] \<and> FIFO_soft_align_request (dac_0x18_of b) = 1 \<and>
    FIFO_soft_align_request (dac_0x18_of c) = 0"
    by (intro exI [of _ ?b] exI [of _ ?c]) (simp add: s' r(2) r'(2) byte_fields)
qed

text \<open>Everything that happens to the chips.\<close>

datatype delay_op = FineDelay u32 | CoarseDelay u32 | StepCoarse | ResetCoarse | IDelay u32 | PollTurn "reg \<Rightarrow> u32"
  | TurnOffsetOp u32 | ReadFifo

fun delay_apply :: "chip \<Rightarrow> u32 \<Rightarrow> delay_op \<Rightarrow> 'd delay_state \<Rightarrow> 'd delay_state option" where
  "delay_apply chip n (FineDelay d) s = Some (slew_dac_fine_delay chip d s)"
| "delay_apply chip n (CoarseDelay d) s = Some (fst (set_coarse_delay d s))"
| "delay_apply chip n StepCoarse s = Some (fst (step_coarse_delay s))"
| "delay_apply chip n ResetCoarse s = Some (reset_coarse_delay chip s)"
| "delay_apply chip n (IDelay d) s = Some (write_turn_clock_idelay d s)"
| "delay_apply chip n (PollTurn rd) s = Some (poll_turn_state rd s)"
| "delay_apply chip n (TurnOffsetOp x) s = map_option fst (write_turn_offset n x s)"
| "delay_apply chip n ReadFifo s = Some (fst (read_dac_fifo chip s))"

fun delay_run :: "chip \<Rightarrow> u32 \<Rightarrow> delay_op list \<Rightarrow> 'd delay_state \<Rightarrow> 'd delay_state option" where
  "delay_run chip n [] s = Some s"
| "delay_run chip n (x # xs) s = (case delay_apply chip n x s of None \<Rightarrow> None | Some s \<Rightarrow> delay_run chip n xs s)"

definition coarse_ok :: "'d delay_state \<Rightarrow> bool" where
  "coarse_ok s \<longleftrightarrow> dac_coarse_delay s \<le> MAX_COARSE_DELAY \<and> dialled (written s) = unat (dac_coarse_delay s)"

lemma coarse_step:
  assumes "coarse_ok s"
  shows "coarse_ok (fst (set_coarse_delay target s))"
proof -
  let ?n = "target - dac_coarse_delay s"
  { assume c: "dac_coarse_delay s < target" "target \<le> MAX_COARSE_DELAY"
    have n: "unat ?n = unat target - unat (dac_coarse_delay s)" using c(1) by (simp add: unat_sub order_less_imp_le)
    then have b: "unat ?n < 16" "unat (dac_coarse_delay s) \<le> unat target"
      using c by (simp_all add: MAX_COARSE_DELAY_def word_le_nat_alt word_less_nat_alt)
    have "(0xF :: u32) = mask 4" by (simp add: mask_eq_exp_minus_1)
    then have m: "?n AND 0xF = take_bit 4 ?n" by (simp only: take_bit_eq_mask)
    have "unat (take_bit 4 (ucast (?n AND 0xF) :: u8)) = unat (take_bit 4 ?n)"
      unfolding m by (simp add: unsigned_ucast_eq unsigned_take_bit_eq)
    also have "\<dots> = unat ?n" using b(1) by (simp add: unsigned_take_bit_eq take_bit_nat_eq_self)
    finally have "unat (take_bit 4 (ucast (?n AND 0xF) :: u8)) = unat target - unat (dac_coarse_delay s)" by (simp add: n)
    then have "unat (dac_coarse_delay s) + unat (take_bit 4 (ucast (?n AND 0xF) :: u8)) = unat target" using b(2) by simp }
  then show ?thesis using assms
    by (auto simp: coarse_ok_def set_coarse_delay_def Let_def dialled_append dial_def byte_fields)
qed

lemma reset_writes:
  assumes "\<not> clock_passthrough s" "s' = reset_coarse_delay chip s"
  shows "\<exists>xs ys b c e f. written (slew_dac_fine_delay chip 0 s) = written s @ xs \<and>
    written s' = written s @ xs @ [(0, 0x143, b), (0, 0x143, c), (2, 0x18, e), (2, 0x18, f)] @ ys \<and> list_all fine_write xs \<and> list_all fine_write ys \<and>
    SYNC_POL (pll_0x143_of b) = 1 \<and> SYNC_POL (pll_0x143_of c) = 0 \<and>
    FIFO_soft_align_request (dac_0x18_of e) = 1 \<and> FIFO_soft_align_request (dac_0x18_of f) = 0 \<and>
    (\<exists>u. written u = written s @ xs @ [(0, 0x143, b), (0, 0x143, c), (2, 0x18, e), (2, 0x18, f)] \<and> dac_fine_delay u = 0 \<and>
      s' = on_delay_hw hw_write_turn_clock_sync (slew_dac_fine_delay chip (dac_fine_delay s) u) \<and> dac_coarse_delay u = 0 \<and> \<not> clock_passthrough u)"
proof -
  let ?s1 = "slew_dac_fine_delay chip 0 s"
  let ?s2 = "pll_sync chip ?s1"
  let ?s3 = "reset_dac_pll chip ?s2"
  let ?u = "?s3\<lparr>coarse_pv := coarse_pv ?s3 @ [0], dac_coarse_delay := 0\<rparr>"
  have s': "s' = on_delay_hw hw_write_turn_clock_sync (slew_dac_fine_delay chip (dac_fine_delay s) ?u)"
    using assms by (simp add: reset_coarse_delay_def Let_def)
  obtain xs where xs: "written ?s1 = written s @ xs" "list_all fine_write xs" using slew_dac_writes(2) [OF refl] by blast
  obtain b c where bc: "written ?s2 = written ?s1 @ [(0, 0x143, b), (0, 0x143, c)]" "SYNC_POL (pll_0x143_of b) = 1" "SYNC_POL (pll_0x143_of c) = 0"
    using pll_sync_writes(2) [OF refl] by blast
  obtain e f where ef: "written ?s3 = written ?s2 @ [(2, 0x18, e), (2, 0x18, f)]" "FIFO_soft_align_request (dac_0x18_of e) = 1"
    "FIFO_soft_align_request (dac_0x18_of f) = 0" using reset_dac_writes(2) [OF refl] by blast
  obtain ys where ys: "written (slew_dac_fine_delay chip (dac_fine_delay s) ?u) = written ?u @ ys" "list_all fine_write ys"
    using slew_dac_writes(2) [OF refl] by blast
  have f: "dac_fine_delay ?u = 0" "\<not> clock_passthrough ?u"
    using same_but_hw_fields [OF reset_dac_writes(1) [OF refl, where chip = chip and s = "?s2"]] same_but_hw_fields [OF pll_sync_writes(1) [OF refl, where chip = chip and s = "?s1"]] assms(1)
    by (simp_all add: slew_dac_fields)
  have u: "written ?u = written s @ xs @ [(0, 0x143, b), (0, 0x143, c), (2, 0x18, e), (2, 0x18, f)]" by (simp add: xs bc ef)
  have w: "written s' = written s @ xs @ [(0, 0x143, b), (0, 0x143, c), (2, 0x18, e), (2, 0x18, f)] @ ys" using ys(1) u by (simp add: s')
  show ?thesis
    by (rule exI [of _ xs], rule exI [of _ ys], rule exI [of _ b], rule exI [of _ c], rule exI [of _ e], rule exI [of _ f])
      (use xs bc ef ys w u f s' in \<open>auto intro!: exI [of _ ?u]\<close>)
qed

lemma coarse_ok_same: "coarse_ok s \<Longrightarrow> written s' = written s \<Longrightarrow> dac_coarse_delay s' = dac_coarse_delay s \<Longrightarrow> coarse_ok s'"
  by (simp add: coarse_ok_def)

lemma coarse_reset:
  assumes "coarse_ok s"
  shows "coarse_ok (reset_coarse_delay chip s)"
proof (cases "clock_passthrough s")
  case False
  from reset_writes [OF this refl, of chip] obtain xs ys b c e f u where
    w: "written (reset_coarse_delay chip s) = written s @ xs @ [(0, 0x143, b), (0, 0x143, c), (2, 0x18, e), (2, 0x18, f)] @ ys"
    and ys: "list_all fine_write ys" and bc: "SYNC_POL (pll_0x143_of b) = 1" "SYNC_POL (pll_0x143_of c) = 0"
    and u: "reset_coarse_delay chip s = on_delay_hw hw_write_turn_clock_sync (slew_dac_fine_delay chip (dac_fine_delay s) u)" "dac_coarse_delay u = 0"
    by metis
  have "dialled (written (reset_coarse_delay chip s)) = 0" using ys bc by (simp add: w dialled_append dial_fine) (simp add: dial_def)
  moreover have "dac_coarse_delay (reset_coarse_delay chip s) = 0" using u by (simp add: on_delay_hw_def slew_dac_fields)
  ultimately show ?thesis by (simp add: coarse_ok_def)
qed (use assms in \<open>simp add: reset_coarse_delay_def\<close>)

lemma coarse_apply:
  assumes "coarse_ok s" "delay_apply chip n x s = Some s'"
  shows "coarse_ok s'"
proof (cases x)
  case (FineDelay d)
  then show ?thesis using assms by (auto simp: coarse_ok_def slew_dac_dialled slew_dac_fields)
next
  case (IDelay d)
  have "written (write_turn_clock_idelay d s) = written s" "dac_coarse_delay (write_turn_clock_idelay d s) = dac_coarse_delay s"
    by (simp_all add: write_turn_clock_idelay_def Let_def) (simp add: on_delay_hw_def)
  then show ?thesis using assms(2) IDelay by (auto intro: coarse_ok_same [OF assms(1)])
next
  case (PollTurn rd)
  have "written (poll_turn_state rd s) = written s" "dac_coarse_delay (poll_turn_state rd s) = dac_coarse_delay s"
    by (simp_all add: poll_turn_state_def hw_read_turn_clock_counts_def written_def WRITE_FIELDS_def writel_def)
  then show ?thesis using assms(2) PollTurn by (auto intro: coarse_ok_same [OF assms(1)])
next
  case (TurnOffsetOp o')
  then show ?thesis using assms
    by (auto intro!: coarse_ok_same [OF assms(1)] simp: write_turn_offset_def hw_write_turn_clock_offset_def written_def write_mirror_def writel_def
      set_mirror_def split: if_splits)
next
  case ReadFifo
  obtain t b where t: "read_spi chip FMC500_SPI_DAC 0x19 s = (t, b)" by (cases "read_spi chip FMC500_SPI_DAC 0x19 s")
  then have "s' = t" using assms(2) ReadFifo by (simp add: read_dac_fifo_def)
  then show ?thesis using read_spi_result(2) [OF t] same_but_hw_fields(2) [OF read_spi_result(1) [OF t]] by (auto intro: coarse_ok_same [OF assms(1)])
qed (use assms coarse_step coarse_reset in \<open>auto simp: step_coarse_delay_def\<close>)

text \<open>C27 The coarse delay is what the clock chip was stepped by: whatever is done to the delays and the turn clock, the steps
  written to the chip since its last synchronisation add up to the recorded coarse delay, which never exceeds 7; so the
  delay only moves forwards between resets, and a reset takes it to zero.\<close>

theorem coarse_delay_counts_steps:
  assumes "dialled (spi_writes (trace h)) = 0" "delay_run chip n ops (initialise_delay A chip cfg h) = Some s"
  shows "dialled (spi_writes (trace (delay_hw s))) = unat (dac_coarse_delay s) \<and> dac_coarse_delay s \<le> 7"
proof -
  have run: "coarse_ok t \<Longrightarrow> delay_run chip n ops t = Some s \<Longrightarrow> coarse_ok s" for t
    by (induction ops arbitrary: t) (auto split: option.splits dest: coarse_apply)
  define s0 where "s0 = \<lparr>clock_status = TURN_CLOCK_ARMED, turn_clock_turns = 0, turn_clock_errors = 0, turn_sync_set = False,
       clock_passthrough = False, ddd_step_size = d_int A 400, dac_fine_delay = 0, dac_coarse_delay = 0, coarse_pv = [], delay_hw = h\<rparr>"
  have s0: "written s0 = spi_writes (trace h)" "dac_coarse_delay s0 = 0" by (simp_all add: s0_def written_def)
  obtain t b where t: "READ_PLL chip 0x138 s0 = (t, b)" by (cases "READ_PLL chip 0x138 s0")
  obtain u c where u: "READ_PLL chip (PLL_OUT_DAC + 0) (t\<lparr>clock_passthrough := False\<rparr>) = (u, c)"
    by (cases "READ_PLL chip (PLL_OUT_DAC + 0) (t\<lparr>clock_passthrough := False\<rparr>)")
  note r = read_spi_result(1,2) [OF t [unfolded READ_PLL_def]] and r' = read_spi_result(1,2) [OF u [unfolded READ_PLL_def]]
  have i: "initialise_delay A chip cfg h = read_pll_setup A chip cfg s0" by (simp add: initialise_delay_def s0_def)
  have "written (initialise_delay A chip cfg h) = written s0 \<and> dac_coarse_delay (initialise_delay A chip cfg h) = 0"
    unfolding i read_pll_setup_def t using r r' same_but_hw_fields [OF r(1)] same_but_hw_fields [OF r'(1)] s0 u
    by (cases "VCO_MUX (pll_0x138_of b) = 2") (auto simp: Let_def split: prod.split)
  then have "coarse_ok (initialise_delay A chip cfg h)" using assms(1) s0 by (simp add: coarse_ok_def)
  from run [OF this assms(2)] show ?thesis by (simp add: coarse_ok_def written_def MAX_COARSE_DELAY_def)
qed

section \<open>The fine delay\<close>

text \<open>The chip keeps the register of the fine delay: a read returns the last byte written to it, \<open>init\<close> before the first.\<close>

definition fine_byte :: "u8 \<Rightarrow> spi_write list \<Rightarrow> u8" where
  "fine_byte init ws = fold (\<lambda>(spi, r, b) x. if spi = 0 \<and> r = 0x113 then b else x) ws init"

definition fine_in_chip :: "u8 \<Rightarrow> spi_write list \<Rightarrow> u8" where
  "fine_in_chip init ws = DCLK_ADLY (pll_0x3_of (fine_byte init ws))"

definition reads_back :: "chip \<Rightarrow> u8 \<Rightarrow> bool" where
  "reads_back chip init \<longleftrightarrow> (\<forall>tr w. get_field 31 1 w = 1 \<and> get_field 29 2 w = 0 \<and> get_field 8 15 w = 0x113 \<longrightarrow>
     ucast (get_field 0 8 (chip (tr @ [(SYS FMC_SPI, w)]) (SYS FMC_SPI))) = fine_byte init (spi_writes tr))"

definition with_delay :: "u8 \<Rightarrow> u32 \<Rightarrow> u8" where
  "with_delay b d = of_pll_0x3 ((pll_0x3_of b)\<lparr>DCLK_ADLY := ucast (d AND 0x1F)\<rparr>)"

lemma with_delay_again: "with_delay (with_delay b d) e = with_delay b e"
proof -
  have "pll_0x3_of (with_delay b d) = (pll_0x3_of b)\<lparr>DCLK_ADLY := DCLK_ADLY (pll_0x3_of (with_delay b d))\<rparr>"
  proof (rule pll_0x3.equality)
    show "DCLK_MUX (pll_0x3_of (with_delay b d)) = DCLK_MUX ((pll_0x3_of b)\<lparr>DCLK_ADLY := DCLK_ADLY (pll_0x3_of (with_delay b d))\<rparr>)"
      by (simp add: with_delay_def byte_fields) (simp add: pll_0x3_of_def get_bits_def)
    show "DCLK_ADLY_MUX (pll_0x3_of (with_delay b d)) = DCLK_ADLY_MUX ((pll_0x3_of b)\<lparr>DCLK_ADLY := DCLK_ADLY (pll_0x3_of (with_delay b d))\<rparr>)"
      by (simp only: with_delay_def byte_fields) (simp only: pll_0x3_of_def get_bits_def pll_0x3.simps take_bit_take_bit min.idem)
  qed simp_all
  from arg_cong [OF this, of "\<lambda>v. of_pll_0x3 (v\<lparr>DCLK_ADLY := ucast (e AND 0x1F)\<rparr>)"]
  show ?thesis unfolding with_delay_def [of "with_delay b d" e] with_delay_def [of b e] by simp
qed

lemma delay_field: "unat (DCLK_ADLY (pll_0x3_of (with_delay b (of_nat k)))) = k mod 32"
proof -
  have "(0x1F :: u32) = mask 5" by (simp add: mask_eq_exp_minus_1)
  then have m: "(of_nat k :: u32) AND 0x1F = take_bit 5 (of_nat k)" by (simp only: take_bit_eq_mask)
  show ?thesis unfolding with_delay_def m
    by (simp add: byte_fields unsigned_ucast_eq unsigned_take_bit_eq unsigned_of_nat take_bit_nat_def)
      (simp add: mod_mod_cancel)
qed

lemma set_fine_byte:
  assumes "reads_back chip init"
  shows "written (set_fine_delay chip PLL_OUT_DAC d s) = written s @ [(0, 0x113, with_delay (fine_byte init (written s)) d)]"
proof -
  obtain t b where t: "READ_PLL chip 0x113 s = (t, b)" by (cases "READ_PLL chip 0x113 s")
  obtain w where w: "trace (delay_hw t) = trace (delay_hw s) @ [(SYS FMC_SPI, w)]" "get_field 31 1 w = 1" "get_field 29 2 w = 0"
      "get_field 8 15 w = 0x113" and b: "b = ucast (get_field 0 8 (chip (trace (delay_hw t)) (SYS FMC_SPI)))"
    using read_spi_result(3) [OF t [unfolded READ_PLL_def]] by auto
  have "b = fine_byte init (written s)" using assms w unfolding b reads_back_def written_def by simp
  then show ?thesis using read_spi_result(2) [OF t [unfolded READ_PLL_def]]
    by (simp add: set_fine_delay_def PLL_OUT_DAC_def t with_delay_def)
qed

lemma fold_fine_bytes:
  assumes "reads_back chip init"
  shows "written (fold (set_fine_delay chip PLL_OUT_DAC) (map of_nat ks) s) =
    written s @ map (\<lambda>k. (0, 0x113, with_delay (fine_byte init (written s)) (of_nat k))) ks"
proof (induction ks arbitrary: s)
  case (Cons k ks)
  let ?t = "set_fine_delay chip PLL_OUT_DAC (of_nat k) s"
  have t: "written ?t = written s @ [(0, 0x113, with_delay (fine_byte init (written s)) (of_nat k))]" by (rule set_fine_byte [OF assms])
  then have "fine_byte init (written ?t) = with_delay (fine_byte init (written s)) (of_nat k)" by (simp add: fine_byte_def)
  then show ?case using Cons.IH [of ?t] t by (simp add: with_delay_again)
qed simp

lemma slew_bytes:
  assumes "reads_back chip init"
  shows "written (slew_dac_fine_delay chip t s) = written s @
    map (\<lambda>k. (0, 0x113, with_delay (fine_byte init (written s)) (of_nat k))) (steps (unat (dac_fine_delay s)) (unat t))"
  by (simp add: slew_dac_fine_delay_def slew_fold fold_fine_bytes [OF assms])

lemma steps_single:
  "last (d # steps d t) = t" "i < length (steps d t) \<Longrightarrow> \<bar>int ((d # steps d t) ! Suc i) - int ((d # steps d t) ! i)\<bar> = 1"
  "int (length (steps d t)) = \<bar>int t - int d\<bar>"
proof -
  show "last (d # steps d t) = t" by (auto simp: steps_def last_rev hd_conv_nth)
  show "i < length (steps d t) \<Longrightarrow> \<bar>int ((d # steps d t) ! Suc i) - int ((d # steps d t) ! i)\<bar> = 1"
    by (cases "d \<le> t"; cases i) (auto simp: steps_def rev_nth simp del: upt_Suc)
qed (auto simp: steps_def simp del: upt_Suc)

lemma steps_bound: "k \<in> set (steps d t) \<Longrightarrow> k \<le> max d t"
  by (cases "d \<le> t") (auto simp: steps_def)

lemma nth_mod: "\<forall>k \<in> set ks. k < (32::nat) \<Longrightarrow> map (\<lambda>k. k mod 32) ks = ks"
  by (rule map_idI) simp

text \<open>C28 The fine delay moves without glitches: if the clock chip keeps its register and holds the recorded delay, then
  setting the delay writes only that register, keeps its other fields, changes the delay by exactly
  one at a time, as often as needed, and ends with the requested delay, recorded and in the chip.\<close>

theorem fine_delay_single_steps:
  assumes "reads_back chip init" "s' = slew_dac_fine_delay chip target s" "dac_fine_delay s < 32" "target < 32"
    "fine_in_chip init (written s) = ucast (dac_fine_delay s)"
  shows "\<exists>bs. written s' = written s @ map (\<lambda>b. (0, 0x113, b)) bs \<and>
    (\<forall>b \<in> set bs. DCLK_MUX (pll_0x3_of b) = DCLK_MUX (pll_0x3_of (fine_byte init (written s))) \<and>
      DCLK_ADLY_MUX (pll_0x3_of b) = DCLK_ADLY_MUX (pll_0x3_of (fine_byte init (written s)))) \<and>
    (let ds = map unat (fine_in_chip init (written s) # map (\<lambda>b. DCLK_ADLY (pll_0x3_of b)) bs)
     in \<forall>i < length bs. \<bar>int (ds ! Suc i) - int (ds ! i)\<bar> = 1) \<and>
    int (length bs) = \<bar>uint target - uint (dac_fine_delay s)\<bar> \<and>
    dac_fine_delay s' = target \<and> fine_in_chip init (written s') = ucast target"
proof -
  let ?d = "unat (dac_fine_delay s)" and ?t = "unat target" and ?b = "fine_byte init (written s)"
  let ?bs = "map (\<lambda>k. with_delay ?b (of_nat k)) (steps ?d ?t)"
  have b: "?d < 32" "?t < 32" using assms(3,4) by (simp_all add: word_less_nat_alt)
  have w: "written s' = written s @ map (\<lambda>b. (0, 0x113, b)) ?bs" unfolding assms(2) slew_bytes [OF assms(1)] by simp
  have in_range: "\<forall>k \<in> set (steps ?d ?t). k < 32" using steps_bound b by (metis max_less_iff_conj order_le_less_trans)
  have delays: "map (\<lambda>b. unat (DCLK_ADLY (pll_0x3_of b))) ?bs = steps ?d ?t"
    unfolding map_map comp_def delay_field using in_range by (rule nth_mod)
  have d0: "unat (fine_in_chip init (written s)) = ?d"
    using b(1) unfolding assms(5) by (simp add: unsigned_ucast_eq take_bit_nat_eq_self)
  have ds: "map unat (fine_in_chip init (written s) # map (\<lambda>b. DCLK_ADLY (pll_0x3_of b)) ?bs) = ?d # steps ?d ?t"
    using delays by (simp add: d0 comp_def)
  have last: "fine_byte init (written s @ map (\<lambda>b. (0, 0x113, b)) bs) = last (?b # bs)" for bs
    by (induction bs rule: rev_induct) (simp_all add: fine_byte_def)
  have "unat (fine_in_chip init (written s')) = last (map (\<lambda>b. unat (DCLK_ADLY (pll_0x3_of b))) (?b # ?bs))"
    unfolding w fine_in_chip_def last by (rule last_map [symmetric]) simp
  also have "\<dots> = last (?d # steps ?d ?t)" unfolding list.map(2) delays using d0 by (simp add: fine_in_chip_def)
  finally have "unat (fine_in_chip init (written s')) = ?t" unfolding steps_single(1) .
  then have e: "fine_in_chip init (written s') = ucast target"
    using b(2) by (intro word_unat_eq_iff [THEN iffD2]) (simp add: unsigned_ucast_eq take_bit_nat_eq_self)
  have m: "DCLK_MUX (pll_0x3_of (with_delay ?b k)) = DCLK_MUX (pll_0x3_of ?b) \<and> DCLK_ADLY_MUX (pll_0x3_of (with_delay ?b k)) = DCLK_ADLY_MUX (pll_0x3_of ?b)" for k
    unfolding with_delay_def byte_fields by (simp only: pll_0x3_of_def get_bits_def pll_0x3.simps take_bit_take_bit min.idem)
  have len: "int (length ?bs) = \<bar>uint target - uint (dac_fine_delay s)\<bar>"
    unfolding length_map steps_single(3) by (simp only: uint_nat)
  have "dac_fine_delay s' = target" by (simp add: assms(2) slew_dac_fields)
  have ml: "length ?bs = length (steps ?d ?t)" by simp
  show ?thesis
  proof (rule exI [of _ ?bs], intro conjI)
    show "\<forall>b \<in> set ?bs. DCLK_MUX (pll_0x3_of b) = DCLK_MUX (pll_0x3_of ?b) \<and> DCLK_ADLY_MUX (pll_0x3_of b) = DCLK_ADLY_MUX (pll_0x3_of ?b)"
      using m by simp
    show "let ds = map unat (fine_in_chip init (written s) # map (\<lambda>b. DCLK_ADLY (pll_0x3_of b)) ?bs)
        in \<forall>i < length ?bs. \<bar>int (ds ! Suc i) - int (ds ! i)\<bar> = 1"
      unfolding Let_def ds ml using steps_single(2) by blast
  qed fact+
qed

text \<open>A reset of the coarse delay follows its protocol: the fine delay is slewed to zero before the clock chip is
  synchronised, the synchronisation is raised and dropped, then the alignment of the converter's FIFO is
  requested and dropped, then the fine delay is slewed back, and the turn clock is synchronised last;
  the coarse delay is zero and the fine delay as before, recorded and in the chip.  In passthrough nothing happens.\<close>

theorem reset_follows_protocol:
  assumes "reads_back chip init" "dac_fine_delay s < 32" "fine_in_chip init (written s) = ucast (dac_fine_delay s)" "s' = reset_coarse_delay chip s"
  shows "if clock_passthrough s then s' = s else
    \<exists>xs ys b c e f. written s' = written s @ xs @ [(0, 0x143, b), (0, 0x143, c), (2, 0x18, e), (2, 0x18, f)] @ ys \<and>
      list_all fine_write xs \<and> list_all fine_write ys \<and> fine_in_chip init (written s @ xs) = 0 \<and>
      SYNC_POL (pll_0x143_of b) = 1 \<and> SYNC_POL (pll_0x143_of c) = 0 \<and>
      FIFO_soft_align_request (dac_0x18_of e) = 1 \<and> FIFO_soft_align_request (dac_0x18_of f) = 0 \<and>
      fst (last (trace (delay_hw s'))) = CTRL (TRG TRG_CONTROL) \<and> dac_coarse_delay s' = 0 \<and>
      dac_fine_delay s' = dac_fine_delay s \<and> fine_in_chip init (written s') = ucast (dac_fine_delay s)"
proof (cases "clock_passthrough s")
  case False
  from reset_writes [OF this assms(4)] obtain xs ys b c e f u where
    w0: "written (slew_dac_fine_delay chip 0 s) = written s @ xs" and
    w: "written s' = written s @ xs @ [(0, 0x143, b), (0, 0x143, c), (2, 0x18, e), (2, 0x18, f)] @ ys" "list_all fine_write xs" "list_all fine_write ys"
      "SYNC_POL (pll_0x143_of b) = 1" "SYNC_POL (pll_0x143_of c) = 0" "FIFO_soft_align_request (dac_0x18_of e) = 1"
      "FIFO_soft_align_request (dac_0x18_of f) = 0" and
    u: "written u = written s @ xs @ [(0, 0x143, b), (0, 0x143, c), (2, 0x18, e), (2, 0x18, f)]" "dac_fine_delay u = 0" "dac_coarse_delay u = 0" and
    s': "s' = on_delay_hw hw_write_turn_clock_sync (slew_dac_fine_delay chip (dac_fine_delay s) u)" by blast
  have "(0 :: u32) < 32" by simp
  from fine_delay_single_steps [OF assms(1) refl assms(2) this assms(3)]
  have z: "fine_in_chip init (written s @ xs) = 0" unfolding w0 by auto
  have "fine_byte init (written u) = fine_byte init (written s @ xs)" by (simp add: u fine_byte_def)
  then have uz: "fine_in_chip init (written u) = ucast (dac_fine_delay u)" using z by (simp add: fine_in_chip_def u)
  have "dac_fine_delay u < 32" by (simp add: u)
  from fine_delay_single_steps [OF assms(1) refl this assms(2) uz]
  have "fine_in_chip init (written (slew_dac_fine_delay chip (dac_fine_delay s) u)) = ucast (dac_fine_delay s)" by auto
  then have "fine_in_chip init (written s') = ucast (dac_fine_delay s)" by (simp add: s')
  moreover have "fst (last (trace (delay_hw s'))) = CTRL (TRG TRG_CONTROL)"
    by (simp add: s' on_delay_hw_def hw_write_turn_clock_sync_def WRITE_FIELDS_def writel_def)
  moreover have "dac_coarse_delay s' = 0" "dac_fine_delay s' = dac_fine_delay s" by (simp_all add: s' on_delay_hw_def slew_dac_fields u)
  ultimately show ?thesis using w z False
    by (simp only: if_False) (rule exI [of _ xs], rule exI [of _ ys], rule exI [of _ b], rule exI [of _ c], rule exI [of _ e], rule exI [of _ f], blast)
qed (simp add: assms(4) reset_coarse_delay_def)

section \<open>Examples\<close>

text \<open>A chip that answers every read from the register of the fine delay.\<close>

definition plain_chip :: "u8 \<Rightarrow> chip" where
  "plain_chip init tr r = ucast (fine_byte init (spi_writes tr))"

lemma plain_reads_back: "reads_back (plain_chip init) init"
proof -
  have "ucast (get_field 0 8 (ucast b :: u32)) = b" for b :: u8 by (rule bit_word_eqI) (auto simp: get_field_def bit_simps)
  then show ?thesis by (simp add: reads_back_def plain_chip_def spi_writes_def)
qed

definition plain_state :: "nat delay_state" where
  "plain_state = \<lparr>clock_status = TURN_CLOCK_SYNCED, turn_clock_turns = 0, turn_clock_errors = 0, turn_sync_set = True,
     clock_passthrough = False, ddd_step_size = 0, dac_fine_delay = 2, dac_coarse_delay = 0, coarse_pv = [], delay_hw = initial_hw\<rparr>"

lemma plain_fine: "fine_in_chip 0x11 (written plain_state) = ucast (dac_fine_delay plain_state)"
  by (simp add: plain_state_def written_def initial_hw_def fine_in_chip_def fine_byte_def pll_0x3_of_def get_bits_def)

theorem fine_delay_single_steps_witness:
  "let s' = slew_dac_fine_delay (plain_chip 0x11) 5 plain_state
   in fine_in_chip 0x11 (written s') = 5 \<and> dac_fine_delay s' = 5 \<and> length (written s') = 3"
proof -
  have b: "dac_fine_delay plain_state < 32" "(5 :: u32) < 32" "written plain_state = []" "dac_fine_delay plain_state = 2"
    by (simp_all add: plain_state_def written_def initial_hw_def)
  from fine_delay_single_steps [OF plain_reads_back refl b(1,2) plain_fine] show ?thesis
    by (auto simp: Let_def b(3,4))
qed

theorem reset_follows_protocol_witness:
  "let s' = reset_coarse_delay (plain_chip 0x11) plain_state
   in fine_in_chip 0x11 (written s') = 2 \<and> dac_coarse_delay s' = 0"
proof -
  have b: "dac_fine_delay plain_state < 32" "dac_fine_delay plain_state = 2" "\<not> clock_passthrough plain_state" by (simp_all add: plain_state_def)
  from reset_follows_protocol [OF plain_reads_back b(1) plain_fine refl] b(2,3) show ?thesis by (auto simp: Let_def)
qed

theorem coarse_delay_counts_steps_witness:
  "\<forall>cfg. \<exists>s. delay_run (plain_chip 0) 936 [CoarseDelay 3, StepCoarse] (initialise_delay (exact 0) (plain_chip 0) cfg initial_hw) = Some s \<and>
    dialled (spi_writes (trace (delay_hw s))) = unat (dac_coarse_delay s) \<and> dac_coarse_delay s \<le> 7"
proof
  fix cfg
  obtain s where s: "delay_run (plain_chip 0) 936 [CoarseDelay 3, StepCoarse] (initialise_delay (exact 0) (plain_chip 0) cfg initial_hw) = Some s" by simp
  have "dialled (spi_writes (trace initial_hw)) = 0" by (simp add: initial_hw_def dialled_def)
  from coarse_delay_counts_steps [OF this s] s
  show "\<exists>s. delay_run (plain_chip 0) 936 [CoarseDelay 3, StepCoarse] (initialise_delay (exact 0) (plain_chip 0) cfg initial_hw) = Some s \<and>
      dialled (spi_writes (trace (delay_hw s))) = unat (dac_coarse_delay s) \<and> dac_coarse_delay s \<le> 7" by blast
qed

end
