(* ===== verification/Driver_Device.thy ===== *)
theory Driver_Device
  imports MBF_Prelude
begin

text \<open>
  The kernel driver's devices: opening, closing and exclusive locking of the register file and the memory files
  (\<^verbatim>\<open>driver/registers.c\<close>, \<^verbatim>\<open>driver/memory.c\<close>, \<^verbatim>\<open>driver/amc525_mbf_core.c\<close>), the removal of the card that waits for the open
  files, the mapping of the registers, the numbers of the boards, and the set-up of a card with its unwinding.  Each
  operation holds its mutex over everything that is shared, so it is one step.
\<close>

unbundle bit_operations_syntax

section \<open>Files\<close>

definition DDR0_BASE :: nat where "DDR0_BASE = 0"
definition DDR0_LENGTH :: nat where "DDR0_LENGTH = 0x80000000"
definition DDR1_BASE :: nat where "DDR1_BASE = 0x80000000"
definition DDR1_LENGTH :: nat where "DDR1_LENGTH = 0x08000000"

definition MINOR_REG :: nat where "MINOR_REG = 0"
definition MINOR_DDR0 :: nat where "MINOR_DDR0 = 1"
definition MINOR_DDR1 :: nat where "MINOR_DDR1 = 2"
definition MINORS_PER_BOARD :: nat where "MINORS_PER_BOARD = 3"

datatype dev_errno = ENXIO | ENOMEM | EBUSY | EINVAL | EIO

text \<open>The context a file points to.  \<open>MemoryContext base length\<close> is \<^verbatim>\<open>struct memory_context\<close>.\<close>

datatype file_context = RegisterContext | MemoryContext nat nat

record register_locking =
  reference_count :: nat
  locked_by :: "nat option"

text \<open>\<open>files\<close> are the contexts of the open files by their address; \<open>completed\<close> is the completion the removal waits for.\<close>

datatype removal = Present | Waiting | Removed

record device =
  refcount :: nat
  completed :: bool
  locking :: register_locking
  files :: "nat \<Rightarrow> file_context option"
  removal :: removal

definition initial_device :: device where
  "initial_device = \<lparr>refcount = 1, completed = False, locking = \<lparr>reference_count = 0, locked_by = None\<rparr>, files = (\<lambda>_. None), removal = Present\<rparr>"

definition amc525_mbf_release :: "device \<Rightarrow> device" where
  "amc525_mbf_release d = d\<lparr>refcount := refcount d - 1, completed := completed d \<or> refcount d - 1 = 0\<rparr>"

text \<open>\<open>context\<close> is the address \<^verbatim>\<open>kmalloc\<close> returns, if any.\<close>

definition mbf_reg_open :: "nat option \<Rightarrow> device \<Rightarrow> (dev_errno + nat) \<times> device" where
  "mbf_reg_open context d =
     (case context of None \<Rightarrow> (Inl ENOMEM, d)
      | Some p \<Rightarrow>
          if locked_by (locking d) \<noteq> None then (Inl EBUSY, d)
          else (Inr p, d\<lparr>locking := (locking d)\<lparr>reference_count := reference_count (locking d) + 1\<rparr>, files := (files d)(p := Some RegisterContext)\<rparr>))"

definition mbf_dma_open :: "nat option \<Rightarrow> nat \<Rightarrow> nat \<Rightarrow> device \<Rightarrow> (dev_errno + nat) \<times> device" where
  "mbf_dma_open context base len d =
     (case context of None \<Rightarrow> (Inl ENOMEM, d) | Some p \<Rightarrow> (Inr p, d\<lparr>files := (files d)(p := Some (MemoryContext base len))\<rparr>))"

definition amc525_mbf_open :: "nat \<Rightarrow> nat option \<Rightarrow> device \<Rightarrow> (dev_errno + nat) \<times> device" where
  "amc525_mbf_open minor_index context d =
     (if refcount d = 0 then (Inl ENXIO, d)
      else let d = d\<lparr>refcount := refcount d + 1\<rparr>;
               (rc, d) = (if minor_index = MINOR_REG then mbf_reg_open context d
                 else if minor_index = MINOR_DDR0 then mbf_dma_open context DDR0_BASE DDR0_LENGTH d
                 else if minor_index = MINOR_DDR1 then mbf_dma_open context DDR1_BASE DDR1_LENGTH d
                 else (Inl EINVAL, d))
           in case rc of Inl e \<Rightarrow> (rc, amc525_mbf_release d) | Inr p \<Rightarrow> (rc, d))"

definition mbf_reg_release :: "nat \<Rightarrow> device \<Rightarrow> device" where
  "mbf_reg_release p d =
     amc525_mbf_release (d\<lparr>locking := \<lparr>reference_count = reference_count (locking d) - 1,
         locked_by = (if locked_by (locking d) = Some p then None else locked_by (locking d))\<rparr>, files := (files d)(p := None)\<rparr>)"

definition mbf_dma_release :: "nat \<Rightarrow> device \<Rightarrow> device" where
  "mbf_dma_release p d = amc525_mbf_release (d\<lparr>files := (files d)(p := None)\<rparr>)"

section \<open>The register file\<close>

definition lock_register :: "nat \<Rightarrow> device \<Rightarrow> dev_errno option \<times> device" where
  "lock_register p d =
     (if reference_count (locking d) > 1 then (Some EBUSY, d)
      else if locked_by (locking d) \<noteq> None then (Some EBUSY, d)
      else (None, d\<lparr>locking := (locking d)\<lparr>locked_by := Some p\<rparr>\<rparr>))"

definition unlock_register :: "nat \<Rightarrow> device \<Rightarrow> dev_errno option \<times> device" where
  "unlock_register p d =
     (if locked_by (locking d) = Some p then (None, d\<lparr>locking := (locking d)\<lparr>locked_by := None\<rparr>\<rparr>) else (Some EINVAL, d))"

datatype ioctl = MBF_MAP_SIZE | MBF_REG_LOCK | MBF_REG_UNLOCK | MBF_BUF_SIZE

text \<open>The result is an error or a size.\<close>

definition mbf_reg_ioctl :: "nat \<Rightarrow> ioctl \<Rightarrow> nat \<Rightarrow> device \<Rightarrow> (dev_errno + nat) \<times> device" where
  "mbf_reg_ioctl bar_length cmd p d =
     (let result = (\<lambda>(rc, d). (case rc of None \<Rightarrow> Inr 0 | Some e \<Rightarrow> Inl e, d))
      in case cmd of MBF_MAP_SIZE \<Rightarrow> (Inr bar_length, d)
         | MBF_REG_LOCK \<Rightarrow> result (lock_register p d)
         | MBF_REG_UNLOCK \<Rightarrow> result (unlock_register p d)
         | _ \<Rightarrow> (Inl EINVAL, d))"

definition mbf_mem_ioctl :: "nat \<Rightarrow> ioctl \<Rightarrow> dev_errno + nat" where
  "mbf_mem_ioctl buffer_size cmd = (case cmd of MBF_BUF_SIZE \<Rightarrow> Inr buffer_size | _ \<Rightarrow> Inl EINVAL)"

text \<open>The mapping: the first page and the size given to \<^verbatim>\<open>io_remap_pfn_range\<close>, all in 64 bits.\<close>

definition PAGE_SHIFT :: nat where "PAGE_SHIFT = 12"

definition mbf_reg_mmap :: "u64 \<Rightarrow> u64 \<Rightarrow> u64 \<Rightarrow> u64 \<Rightarrow> u64 \<Rightarrow> dev_errno + (u64 \<times> u64)" where
  "mbf_reg_mmap base_page len vm_start vm_end vm_pgoff =
     (let size = vm_end - vm_start; end_pos = push_bit PAGE_SHIFT vm_pgoff + size
      in if end_pos > len then Inl EINVAL else Inr (base_page + vm_pgoff, size))"

section \<open>Removal\<close>

text \<open>\<^verbatim>\<open>amc525_mbf_remove\<close> gives up its own reference and waits; when it is woken it frees the resources of the card.\<close>

definition start_remove :: "device \<Rightarrow> device" where
  "start_remove d = (amc525_mbf_release d)\<lparr>removal := Waiting\<rparr>"

definition finish_remove :: "device \<Rightarrow> device option" where
  "finish_remove d = (if completed d then Some (d\<lparr>removal := Removed\<rparr>) else None)"

text \<open>What can happen to a device.  A new context has an address of its own.\<close>

inductive dev_step :: "device \<Rightarrow> device \<Rightarrow> bool" where
  Open: "(\<And>p. ctx = Some p \<Longrightarrow> files d p = None) \<Longrightarrow> amc525_mbf_open minor ctx d = (rc, d') \<Longrightarrow> dev_step d d'"
| CloseReg: "files d p = Some RegisterContext \<Longrightarrow> dev_step d (mbf_reg_release p d)"
| CloseMem: "files d p = Some (MemoryContext b n) \<Longrightarrow> dev_step d (mbf_dma_release p d)"
| Ioctl: "files d p = Some RegisterContext \<Longrightarrow> mbf_reg_ioctl len cmd p d = (rc, d') \<Longrightarrow> dev_step d d'"
| StartRemove: "removal d = Present \<Longrightarrow> dev_step d (start_remove d)"
| FinishRemove: "removal d = Waiting \<Longrightarrow> finish_remove d = Some d' \<Longrightarrow> dev_step d d'"

inductive dev_reachable :: "device \<Rightarrow> bool" where
  Initial: "dev_reachable initial_device"
| Step: "dev_reachable d \<Longrightarrow> dev_step d d' \<Longrightarrow> dev_reachable d'"

section \<open>Board numbers\<close>

definition MAX_BOARDS :: nat where "MAX_BOARDS = 4"

text \<open>\<open>boards\<close> is the mask of allocated boards; the loop takes the first bit that was not set.\<close>

fun try_boards :: "nat list \<Rightarrow> nat set \<Rightarrow> (dev_errno + nat) \<times> nat set" where
  "try_boards [] boards = (Inl EIO, boards)"
| "try_boards (b # bs) boards = (if b \<notin> boards then (Inr b, insert b boards) else try_boards bs boards)"

definition get_free_board :: "nat set \<Rightarrow> (dev_errno + nat) \<times> nat set" where
  "get_free_board boards = try_boards [0..<MAX_BOARDS] boards"

definition release_board :: "nat \<Rightarrow> nat set \<Rightarrow> nat set" where
  "release_board b boards = boards - {b}"

definition board_minors :: "nat \<Rightarrow> nat set" where
  "board_minors b = {b * MINORS_PER_BOARD ..< b * MINORS_PER_BOARD + MINORS_PER_BOARD}"

section \<open>Setting up a card\<close>

text \<open>The calls that can fail, the resources they acquire, and the registers written through the mapped control memory.  A
  set-up is the trace of what it acquires, writes and releases; the fields it fills in and the messages it prints are not part of it.\<close>

datatype call = GetBoard | AllocBoard | EnableDevice | RequestRegions | SetDmaMask | EnableMsi | Bar2Length | MapControl
  | DmaBlockShift | AllocDma | AllocBuffer | MapBuffer | AllocIrq | RequestIrq | AddDevice

datatype resource = BoardNumber | BoardState | PciDevice | PciRegions | BusMaster | Msi | ControlMap
  | DmaState | DmaBuffer | DmaMap | IrqState | Irq | DeviceNodes

datatype control_register = Cdmacr | Sa_msb | Mer | Iar | Ier

datatype action = Acquire resource | Release resource | Write control_register u32

type_synonym outcome = "bool \<times> action list"

definition enable_board :: "(call \<Rightarrow> bool) \<Rightarrow> outcome" where
  "enable_board works =
     (if \<not> works EnableDevice then (False, [])
      else if \<not> works RequestRegions then (False, [Acquire PciDevice, Release PciDevice])
      else if \<not> works SetDmaMask then (False, [Acquire PciDevice, Acquire PciRegions, Release PciRegions, Release PciDevice])
      else if \<not> works EnableMsi then
        (False, [Acquire PciDevice, Acquire PciRegions, Acquire BusMaster, Release BusMaster, Release PciRegions, Release PciDevice])
      else (True, [Acquire PciDevice, Acquire PciRegions, Acquire BusMaster, Acquire Msi]))"

definition disable_board :: "action list" where
  "disable_board = [Release Msi, Release BusMaster, Release PciRegions, Release PciDevice]"

text \<open>The wait for the reset bit to clear only reads, until a deadline.\<close>

definition reset_dma_controller :: "action list" where
  "reset_dma_controller = [Write Cdmacr (2 ^ 2), Write Sa_msb 0x8000, Write Cdmacr (2 ^ 12 OR 2 ^ 14)]"

definition initialise_dma_control :: "(call \<Rightarrow> bool) \<Rightarrow> outcome" where
  "initialise_dma_control works =
     (if \<not> works DmaBlockShift then (False, [])
      else if \<not> works AllocDma then (False, [])
      else if \<not> works AllocBuffer then (False, [Acquire DmaState, Release DmaState])
      else if \<not> works MapBuffer then (False, [Acquire DmaState, Acquire DmaBuffer, Release DmaBuffer, Release DmaState])
      else (True, [Acquire DmaState, Acquire DmaBuffer, Acquire DmaMap] @ reset_dma_controller))"

definition terminate_dma_control :: "action list" where
  "terminate_dma_control = [Release DmaMap, Release DmaBuffer, Release DmaState]"

definition initialise_interrupt_control :: "(call \<Rightarrow> bool) \<Rightarrow> outcome" where
  "initialise_interrupt_control works =
     (if \<not> works AllocIrq then (False, [])
      else let tr = [Acquire IrqState, Write Mer 0, Write Iar 0xFFFFFFFF, Write Ier 0xFFFFFFFF]
        in if \<not> works RequestIrq then (False, tr @ [Release IrqState])
           else (True, tr @ [Acquire Irq, Write Mer 3]))"

definition terminate_interrupt_control :: "action list" where
  "terminate_interrupt_control = [Write Mer 0, Release Irq, Release IrqState]"

definition initialise_board :: "(call \<Rightarrow> bool) \<Rightarrow> outcome" where
  "initialise_board works =
     (if \<not> works Bar2Length \<or> \<not> works MapControl then (False, [])
      else let (ok, dma) = initialise_dma_control works
        in if \<not> ok then (False, [Acquire ControlMap] @ dma @ [Release ControlMap])
           else let (ok, irq) = initialise_interrupt_control works
             in if \<not> ok then (False, [Acquire ControlMap] @ dma @ irq @ terminate_dma_control @ [Release ControlMap])
                else (True, [Acquire ControlMap] @ dma @ irq))"

definition terminate_board :: "action list" where
  "terminate_board = terminate_interrupt_control @ terminate_dma_control @ [Release ControlMap]"

definition create_device_nodes :: "(call \<Rightarrow> bool) \<Rightarrow> outcome" where
  "create_device_nodes works = (if \<not> works AddDevice then (False, []) else (True, [Acquire DeviceNodes]))"

definition amc525_mbf_probe :: "(call \<Rightarrow> bool) \<Rightarrow> outcome" where
  "amc525_mbf_probe works =
     (let no_memory = [Release BoardNumber]; no_enable = Release BoardState # no_memory; no_initialise = disable_board @ no_enable;
          no_cdev = terminate_board @ no_initialise
      in if \<not> works GetBoard then (False, [])
         else if \<not> works AllocBoard then (False, Acquire BoardNumber # no_memory)
         else let tr = [Acquire BoardNumber, Acquire BoardState]; (ok, e) = enable_board works; tr = tr @ e
           in if \<not> ok then (False, tr @ no_enable)
              else let (ok, i) = initialise_board works; tr = tr @ i
                in if \<not> ok then (False, tr @ no_initialise)
                   else let (ok, c) = create_device_nodes works; tr = tr @ c
                     in if \<not> ok then (False, tr @ no_cdev) else (True, tr))"

definition amc525_mbf_remove :: "action list" where
  "amc525_mbf_remove = [Release DeviceNodes] @ terminate_board @ disable_board @ [Release BoardNumber, Release BoardState]"

end
