(* ===== verification/Driver_Device_Properties.thy ===== *)
theory Driver_Device_Properties
  imports Driver_Device
begin

text \<open>
  What the device files promise: exclusive access while locked, no removal under open files, mappings inside the card as long as
  their offset does not wrap, disjoint device numbers, and no resource lost when the set-up of a card fails.
\<close>

section \<open>The invariant\<close>

definition reg_files :: "(nat \<Rightarrow> file_context option) \<Rightarrow> nat set" where
  "reg_files fs = {p. fs p = Some RegisterContext}"

definition device_ok :: "device \<Rightarrow> bool" where
  "device_ok d \<longleftrightarrow> finite (dom (files d)) \<and> refcount d = card (dom (files d)) + (if removal d = Present then 1 else 0) \<and>
     reference_count (locking d) = card (reg_files (files d)) \<and> (\<forall>p. locked_by (locking d) = Some p \<longrightarrow> reg_files (files d) = {p}) \<and>
     (completed d \<longleftrightarrow> refcount d = 0) \<and> (removal d = Removed \<longrightarrow> completed d)"

lemma reg_files_dom: "reg_files fs \<subseteq> dom fs"
  by (auto simp: reg_files_def)

lemma reg_files_update [simp]:
  "reg_files (fs(p := Some RegisterContext)) = insert p (reg_files fs)"
  "reg_files (fs(p := Some (MemoryContext b n))) = reg_files fs - {p}" "reg_files (fs(p := None)) = reg_files fs - {p}"
  by (auto simp: reg_files_def)

lemma finite_reg: "device_ok d \<Longrightarrow> finite (reg_files (files d))"
  using finite_subset [OF reg_files_dom] by (auto simp: device_ok_def)

text \<open>An open either changes nothing or adds a file.\<close>

lemma open_cases:
  assumes "amc525_mbf_open minor ctx d = (rc, d')"
  obtains "d' = d"
  | p where "ctx = Some p" "refcount d \<noteq> 0" "locked_by (locking d) = None"
      "d' = d\<lparr>refcount := refcount d + 1, locking := (locking d)\<lparr>reference_count := reference_count (locking d) + 1\<rparr>,
         files := (files d)(p := Some RegisterContext)\<rparr>"
  | p b n where "ctx = Some p" "refcount d \<noteq> 0" "d' = d\<lparr>refcount := refcount d + 1, files := (files d)(p := Some (MemoryContext b n))\<rparr>"
proof -
  let ?reg = "\<lambda>p. d\<lparr>refcount := refcount d + 1, locking := (locking d)\<lparr>reference_count := reference_count (locking d) + 1\<rparr>,
         files := (files d)(p := Some RegisterContext)\<rparr>"
  let ?mem = "\<lambda>p b n. d\<lparr>refcount := refcount d + 1, files := (files d)(p := Some (MemoryContext b n))\<rparr>"
  have undo: "refcount d \<noteq> 0 \<Longrightarrow> amc525_mbf_release (d\<lparr>refcount := Suc (refcount d)\<rparr>) = d" by (simp add: amc525_mbf_release_def)
  have "d' = d \<or> (\<exists>p. ctx = Some p \<and> refcount d \<noteq> 0 \<and> locked_by (locking d) = None \<and> d' = ?reg p) \<or>
      (\<exists>p b n. ctx = Some p \<and> refcount d \<noteq> 0 \<and> d' = ?mem p b n)"
    using assms undo
    by (cases "refcount d = 0"; cases ctx; simp add: amc525_mbf_open_def mbf_reg_open_def mbf_dma_open_def Let_def split: if_splits) blast+
  then show ?thesis using that by blast
qed

lemma open_ok:
  assumes ok: "device_ok d" and fresh: "\<And>p. ctx = Some p \<Longrightarrow> files d p = None" and "amc525_mbf_open minor ctx d = (rc, d')"
  shows "device_ok d'"
  using assms(3)
proof (cases rule: open_cases)
  case 1
  then show ?thesis using ok by simp
next
  case (2 p)
  then have "p \<notin> dom (files d)" "p \<notin> reg_files (files d)" "finite (dom (files d))" "finite (reg_files (files d))"
    using fresh ok finite_reg [OF ok] by (auto simp: reg_files_def device_ok_def)
  then show ?thesis using ok 2 by (auto simp: device_ok_def)
next
  case (3 p b n)
  then have "p \<notin> dom (files d)" "reg_files (files d) - {p} = reg_files (files d)" "finite (dom (files d))"
    using fresh ok by (auto simp: reg_files_def device_ok_def)
  then show ?thesis using ok 3 by (auto simp: device_ok_def)
qed

lemma close_card:
  assumes "device_ok d" "files d p \<noteq> None"
  shows "card (dom (files d) - {p}) = card (dom (files d)) - 1" "0 < card (dom (files d))" "removal d \<noteq> Removed"
  using assms by (auto simp: device_ok_def domI card_gt_0_iff)

lemma close_reg_ok:
  assumes "device_ok d" "files d p = Some RegisterContext"
  shows "device_ok (mbf_reg_release p d)"
proof -
  have p: "p \<in> reg_files (files d)" "files d p \<noteq> None" using assms(2) by (simp_all add: reg_files_def)
  have "card (reg_files (files d) - {p}) = card (reg_files (files d)) - 1" using p(1) finite_reg [OF assms(1)] by simp
  then show ?thesis using assms(1) close_card [OF assms(1) p(2)] p(1)
    by (auto simp: device_ok_def mbf_reg_release_def amc525_mbf_release_def)
qed

lemma close_mem_ok:
  assumes "device_ok d" "files d p = Some (MemoryContext b n)"
  shows "device_ok (mbf_dma_release p d)"
proof -
  have p: "reg_files (files d) - {p} = reg_files (files d)" "files d p \<noteq> None" using assms(2) by (auto simp: reg_files_def)
  then show ?thesis using assms(1) close_card [OF assms(1) p(2)]
    by (auto simp: device_ok_def mbf_dma_release_def amc525_mbf_release_def)
qed

lemma ioctl_ok:
  assumes "device_ok d" "files d p = Some RegisterContext" "mbf_reg_ioctl len cmd p d = (rc, d')"
  shows "device_ok d'"
proof -
  have p: "p \<in> reg_files (files d)" using assms(2) by (simp add: reg_files_def)
  have one: "reg_files (files d) = {p}" if "\<not> 1 < card (reg_files (files d))"
  proof -
    have "card (reg_files (files d)) = 1" using that p finite_reg [OF assms(1)] card_gt_0_iff [of "reg_files (files d)"] by fastforce
    then show ?thesis using p by (auto simp: card_1_singleton_iff)
  qed
  show ?thesis
  proof (cases cmd)
    case MBF_REG_LOCK
    then show ?thesis using assms(1,3) one by (auto simp: mbf_reg_ioctl_def lock_register_def device_ok_def split: if_splits)
  next
    case MBF_REG_UNLOCK
    then show ?thesis using assms(1,3) by (auto simp: mbf_reg_ioctl_def unlock_register_def device_ok_def split: if_splits)
  qed (use assms in \<open>auto simp: mbf_reg_ioctl_def\<close>)
qed

lemma reachable_ok: "dev_reachable d \<Longrightarrow> device_ok d"
proof (induction rule: dev_reachable.induct)
  case Initial
  show ?case by (simp add: device_ok_def initial_device_def reg_files_def)
next
  case (Step d d')
  from Step.hyps(2) show ?case
  proof (cases rule: dev_step.cases)
    case (Open ctx minor rc)
    then show ?thesis using open_ok [OF Step.IH] by blast
  next
    case (CloseReg p)
    then show ?thesis using close_reg_ok [OF Step.IH] by simp
  next
    case (CloseMem p b n)
    then show ?thesis using close_mem_ok [OF Step.IH] by simp
  next
    case (Ioctl p len cmd rc)
    then show ?thesis using ioctl_ok [OF Step.IH] by blast
  next
    case StartRemove
    then show ?thesis using Step.IH by (auto simp: device_ok_def start_remove_def amc525_mbf_release_def)
  next
    case FinishRemove
    then show ?thesis using Step.IH by (auto simp: device_ok_def finish_remove_def split: if_splits)
  qed
qed

text \<open>C29 A lock on the registers is exclusive: in every reachable state the holder of the lock has the only open register
  file, nobody can open another or take the lock, only the holder can give it up, and it is gone when the holder closes its file.\<close>

theorem register_lock_exclusive:
  assumes "dev_reachable d" "locked_by (locking d) = Some p"
  shows "(files d q = Some RegisterContext \<longleftrightarrow> q = p) \<and>
    fst (amc525_mbf_open MINOR_REG (Some q) d) \<in> {Inl EBUSY, Inl ENXIO} \<and> locking (snd (amc525_mbf_open MINOR_REG (Some q) d)) = locking d \<and>
    fst (lock_register q d) = Some EBUSY \<and> (fst (unlock_register q d) = None \<longleftrightarrow> q = p) \<and>
    locked_by (locking (mbf_reg_release p d)) = None"
proof -
  have "reg_files (files d) = {p}" using reachable_ok [OF assms(1)] assms(2) by (simp add: device_ok_def)
  then have "files d q = Some RegisterContext \<longleftrightarrow> q = p" by (auto simp: reg_files_def)
  then show ?thesis using assms(2)
    by (auto simp: amc525_mbf_open_def mbf_reg_open_def amc525_mbf_release_def MINOR_REG_def lock_register_def unlock_register_def
      mbf_reg_release_def Let_def)
qed

text \<open>C30 The card is not taken away under open files: when the removal has finished no file is open and every open is refused;
  and while it waits it can finish exactly when the last file has been closed.\<close>

theorem removal_waits_for_files:
  assumes "dev_reachable d"
  shows "(removal d = Removed \<longrightarrow> files d = (\<lambda>_. None) \<and> amc525_mbf_open minor ctx d = (Inl ENXIO, d)) \<and>
    (removal d = Waiting \<longrightarrow> (finish_remove d = None \<longleftrightarrow> (\<exists>p. files d p \<noteq> None)))"
proof -
  have ok: "device_ok d" by (rule reachable_ok [OF assms])
  then have "finite (dom (files d))" by (simp add: device_ok_def)
  then have z: "card (dom (files d)) = 0 \<longleftrightarrow> files d = (\<lambda>_. None)" by (simp add: dom_eq_empty_conv)
  then show ?thesis using ok by (auto simp: device_ok_def amc525_mbf_open_def finish_remove_def)
qed

section \<open>The mapping\<close>

text \<open>C31 Which ranges of registers can be mapped: the end of the range is compared with the length of the bar, so a range
  is refused exactly when it reaches beyond the bar.  But the end is computed in 64 bits: two pages at the last page offset wrap
  to an end inside the bar, so the range is accepted and a page outside of the card is mapped.\<close>

theorem register_mapping_range:
  assumes "vm_start \<le> vm_end" "mbf_reg_mmap base_page len vm_start vm_end pgoff = r"
  defines "last_byte \<equiv> uint pgoff * 2 ^ 12 + (uint vm_end - uint vm_start)"
  shows "r = (if last_byte mod 2 ^ 64 \<le> uint len then Inr (base_page + pgoff, vm_end - vm_start) else Inl EINVAL) \<and>
    (last_byte < 2 ^ 64 \<longrightarrow> (r = Inl EINVAL \<longleftrightarrow> uint len < last_byte)) \<and>
    (pgoff = 2 ^ 52 - 1 \<and> vm_end - vm_start = 2 ^ 13 \<and> 2 ^ 12 \<le> len \<longrightarrow> r = Inr (base_page + (2 ^ 52 - 1), 2 ^ 13))"
proof -
  have size: "uint (vm_end - vm_start) = uint vm_end - uint vm_start" using assms(1) by (simp add: uint_sub_if' word_le_def)
  have pos: "0 \<le> last_byte" unfolding last_byte_def using assms(1) by (simp add: word_le_def)
  have "uint (push_bit PAGE_SHIFT pgoff + (vm_end - vm_start)) = last_byte mod 2 ^ 64"
    unfolding last_byte_def
    by (simp add: PAGE_SHIFT_def push_bit_eq_mult uint_word_ariths(1,3) size mod_simps del: uint_word_arith_bintrs)
  then have r: "r = (if last_byte mod 2 ^ 64 \<le> uint len then Inr (base_page + pgoff, vm_end - vm_start) else Inl EINVAL)"
    using assms(2) by (auto simp: mbf_reg_mmap_def Let_def word_less_def)
  have "last_byte mod 2 ^ 64 = last_byte" if "last_byte < 2 ^ 64" using pos that by simp
  moreover have "last_byte mod 2 ^ 64 = 2 ^ 12" if "pgoff = 2 ^ 52 - 1" "vm_end - vm_start = 2 ^ 13"
    using that size unfolding last_byte_def by simp
  ultimately show ?thesis using r by (auto simp: word_le_def)
qed

section \<open>Board numbers\<close>

lemma get_free_board_cases:
  "get_free_board boards = (Inr b, boards') \<Longrightarrow> b < MAX_BOARDS \<and> b \<notin> boards \<and> boards' = insert b boards \<and> {..<b} \<subseteq> boards"
  "get_free_board boards = (Inl e, boards') \<Longrightarrow> boards' = boards \<and> {..<MAX_BOARDS} \<subseteq> boards"
proof -
  have "try_boards [m..<m + n] boards = (rc, boards') \<Longrightarrow>
      (case rc of Inr b \<Rightarrow> m \<le> b \<and> b < m + n \<and> b \<notin> boards \<and> boards' = insert b boards \<and> {m..<b} \<subseteq> boards
       | Inl e \<Rightarrow> boards' = boards \<and> {m..<m + n} \<subseteq> boards)" for m n rc
  proof (induction n arbitrary: m)
    case (Suc n)
    have u: "[m..<m + Suc n] = m # [Suc m..<Suc m + n]" by (simp add: upt_rec)
    show ?case
    proof (cases "m \<in> boards")
      case True
      then have "try_boards [Suc m..<Suc m + n] boards = (rc, boards')" using Suc.prems unfolding u by simp
      note ih = Suc.IH [OF this]
      have "{m..<x} \<subseteq> boards" if "{Suc m..<x} \<subseteq> boards" for x
      proof
        fix y assume "y \<in> {m..<x}"
        then show "y \<in> boards" using that True by (cases "y = m") auto
      qed
      then show ?thesis using ih by (auto split: sum.splits)
    next
      case False
      then show ?thesis using Suc.prems unfolding u by auto
    qed
  qed auto
  from this [of 0 MAX_BOARDS] show
    "get_free_board boards = (Inr b, boards') \<Longrightarrow> b < MAX_BOARDS \<and> b \<notin> boards \<and> boards' = insert b boards \<and> {..<b} \<subseteq> boards"
    "get_free_board boards = (Inl e, boards') \<Longrightarrow> boards' = boards \<and> {..<MAX_BOARDS} \<subseteq> boards"
    by (fastforce simp: get_free_board_def atLeast0LessThan)+
qed

lemma minors_disjoint: "b \<noteq> b' \<Longrightarrow> board_minors b \<inter> board_minors b' = {}"
  by (auto simp: board_minors_def MINORS_PER_BOARD_def)

section \<open>Unwinding\<close>

text \<open>What a sequence of actions holds; releasing what is not held, or acquiring it twice, is an error.  So is a write to a register
  while the control memory is not mapped, and enabling the interrupt controller without a handler.\<close>

fun held :: "action list \<Rightarrow> resource set \<Rightarrow> resource set option" where
  "held [] R = Some R"
| "held (Acquire r # as) R = (if r \<in> R then None else held as (insert r R))"
| "held (Release r # as) R = (if r \<in> R then held as (R - {r}) else None)"
| "held (Write c v # as) R = (if ControlMap \<in> R \<and> (c = Mer \<and> v \<noteq> 0 \<longrightarrow> Irq \<in> R) then held as R else None)"

lemmas setup_defs = reset_dma_controller_def enable_board_def disable_board_def initialise_dma_control_def terminate_dma_control_def initialise_interrupt_control_def
  terminate_interrupt_control_def initialise_board_def terminate_board_def create_device_nodes_def amc525_mbf_probe_def amc525_mbf_remove_def

text \<open>No resource is lost: whichever calls of the set-up of a card fail, it releases exactly what it has acquired, each once
  and none unacquired; and after a set-up that succeeds the removal releases everything.  The registers are written only
  while they are mapped, and interrupts are enabled only while their handler is installed.\<close>

theorem probe_releases_resources:
  assumes "amc525_mbf_probe works = (success, tr)"
  shows "if success then (\<forall>c. works c) \<and> held (tr @ amc525_mbf_remove) {} = Some {} else (\<exists>c. \<not> works c) \<and> held tr {} = Some {}"
proof (cases "\<forall>c. works c")
  case True
  then show ?thesis using assms by (auto simp: setup_defs)
next
  case False
  have "\<not> success \<and> held tr {} = Some {}"
  proof (cases "works GetBoard \<and> works AllocBoard \<and> works EnableDevice \<and> works RequestRegions \<and> works SetDmaMask \<and> works EnableMsi")
    case True
    from False obtain c where "\<not> works c" by blast
    then show ?thesis using True assms by (cases c) (auto simp: setup_defs Let_def split: if_splits)
  qed (use assms in \<open>auto simp: setup_defs Let_def split: if_splits\<close>)
  then show ?thesis using False by auto
qed

section \<open>Instances\<close>

definition one_file :: device where "one_file = snd (amc525_mbf_open MINOR_REG (Some 7) initial_device)"
definition locked_file :: device where "locked_file = snd (mbf_reg_ioctl 0x10000 MBF_REG_LOCK 7 one_file)"

lemmas device_instances = one_file_def locked_file_def amc525_mbf_open_def mbf_reg_open_def mbf_reg_ioctl_def lock_register_def
  initial_device_def MINOR_REG_def

lemma one_file_reachable: "dev_reachable one_file"
proof (rule dev_reachable.Step [OF dev_reachable.Initial])
  show "dev_step initial_device one_file" unfolding one_file_def
    by (rule dev_step.Open [where ctx = "Some 7" and minor = MINOR_REG and rc = "fst (amc525_mbf_open MINOR_REG (Some 7) initial_device)"])
      (simp_all add: initial_device_def)
qed

lemma locked_file_reachable: "dev_reachable locked_file"
proof (rule dev_reachable.Step [OF one_file_reachable])
  show "dev_step one_file locked_file" unfolding locked_file_def
    by (rule dev_step.Ioctl [where p = 7 and len = "0x10000" and cmd = MBF_REG_LOCK and rc = "fst (mbf_reg_ioctl 0x10000 MBF_REG_LOCK 7 one_file)"])
      (simp_all add: device_instances)
qed

theorem register_lock_exclusive_witness:
  "locked_by (locking locked_file) = Some 7 \<and> fst (amc525_mbf_open MINOR_REG (Some 8) locked_file) \<in> {Inl EBUSY, Inl ENXIO} \<and>
    fst (lock_register 8 locked_file) = Some EBUSY"
proof -
  have l: "locked_by (locking locked_file) = Some 7" by (simp add: device_instances)
  show ?thesis using register_lock_exclusive [OF locked_file_reachable l, of 8] l by blast
qed

theorem removal_waits_for_files_witness:
  "removal (start_remove one_file) = Waiting \<and> finish_remove (start_remove one_file) = None"
proof -
  have r: "dev_reachable (start_remove one_file)"
    by (rule dev_reachable.Step [OF one_file_reachable dev_step.StartRemove]) (simp add: device_instances)
  have w: "removal (start_remove one_file) = Waiting" by (simp add: start_remove_def)
  have f: "\<exists>p. files (start_remove one_file) p \<noteq> None"
    by (rule exI [of _ 7]) (simp add: start_remove_def amc525_mbf_release_def device_instances)
  show ?thesis using removal_waits_for_files [OF r, of MINOR_REG None] w f by blast
qed

theorem register_mapping_range_witness:
  "mbf_reg_mmap 0xFE000 0x10000 0x1000 0x3000 1 = Inr (0xFE001, 0x2000) \<and>
    mbf_reg_mmap 0xFE000 0x10000 0x1000 0x3000 (2 ^ 52 - 1) = Inr (0xFE000 + (2 ^ 52 - 1), 2 ^ 13)"
  using register_mapping_range [of "0x1000" "0x3000" "0xFE000" "0x10000" 1, OF _ refl]
    register_mapping_range [of "0x1000" "0x3000" "0xFE000" "0x10000" "2 ^ 52 - 1", OF _ refl]
  by simp

theorem probe_releases_resources_witness:
  "held (snd (amc525_mbf_probe (\<lambda>c. c \<noteq> RequestIrq))) {} = Some {} \<and> length (snd (amc525_mbf_probe (\<lambda>c. c \<noteq> RequestIrq))) = 28"
  using probe_releases_resources [of "\<lambda>c. c \<noteq> RequestIrq", OF surjective_pairing] by (auto simp: setup_defs)

end
