(* ===== verification/Driver_Interrupts.thy ===== *)
theory Driver_Interrupts
  imports MBF_Prelude
begin

text \<open>
  The interrupts of the card (\<^verbatim>\<open>driver/interrupts.c\<close>) and the reads of the register file that return them
  (\<^verbatim>\<open>driver/registers.c\<close>): the handler with its loop over \<^verbatim>\<open>atomic_cmpxchg\<close>, readers that exchange the event mask,
  wait and are woken, as steps of threads that interleave, one step for each access to what they share.
\<close>

unbundle bit_operations_syntax

section \<open>State\<close>

text \<open>Where the handler stands, with its local variables: before it reads the status, before it acknowledges what it has
  read, before it serves the DMA engine, before it reads and before it exchanges the event mask, and before it wakes the readers.\<close>

datatype isr_pc = IsrIdle | IsrAck u32 | IsrDma u32 | IsrRead u32 | IsrCas u32 u32 | IsrWake

datatype read_error = EAGAIN | EIO | EFAULT | ERESTARTSYS

text \<open>Where a reader stands: outside, before the exchange (\<open>True\<close> without waiting), asleep, with a mask to be copied, or
  returned.\<close>

datatype reader_pc = Outside | Exchange bool | Sleeping | Taken u32 | Returned "read_error + u32"

text \<open>\<open>intc\<close> is the status register of the interrupt controller and \<open>events\<close> the mask for the readers.  The
  last five fields only record what happened: the calls of \<open>dma_interrupt\<close>, how often each event was raised and
  taken by a reader, the events raised since they were last taken, and the failed exchanges of the handler for this interrupt.\<close>

record irq =
  intc :: u32
  events :: u32
  isr :: isr_pc
  readers :: "nat \<Rightarrow> reader_pc"
  dma_calls :: nat
  raised :: "nat \<Rightarrow> nat"
  taken :: "nat \<Rightarrow> nat"
  owed :: u32
  retries :: nat

definition initial_irq :: irq where
  "initial_irq = \<lparr>intc = 0, events = 0, isr = IsrIdle, readers = (\<lambda>_. Outside), dma_calls = 0,
     raised = (\<lambda>_. 0), taken = (\<lambda>_. 0), owed = 0, retries = 0\<rparr>"

section \<open>The handler\<close>

definition count_bits :: "u32 \<Rightarrow> (nat \<Rightarrow> nat) \<Rightarrow> nat \<Rightarrow> nat" where
  "count_bits v n = (\<lambda>b. n b + of_bool (bit v b))"

text \<open>The controller latches the lines; line 0 is the DMA engine, the others are the events.\<close>

definition raise_lines :: "u32 \<Rightarrow> irq \<Rightarrow> irq" where
  "raise_lines v w = w\<lparr>intc := intc w OR v, raised := count_bits (drop_bit 1 v) (raised w), owed := owed w OR drop_bit 1 v\<rparr>"

definition event_interrupt_read :: "u32 \<Rightarrow> irq \<Rightarrow> irq" where
  "event_interrupt_read new w = w\<lparr>isr := IsrCas new (events w)\<rparr>"

definition event_interrupt_cmpxchg :: "u32 \<Rightarrow> u32 \<Rightarrow> irq \<Rightarrow> irq" where
  "event_interrupt_cmpxchg new old w =
     (if events w = old then w\<lparr>events := old OR new, isr := IsrWake\<rparr> else w\<lparr>isr := IsrRead new, retries := retries w + 1\<rparr>)"

definition wake_up :: "reader_pc \<Rightarrow> reader_pc" where
  "wake_up r = (if r = Sleeping then Exchange False else r)"

definition event_interrupt_wake :: "irq \<Rightarrow> irq" where
  "event_interrupt_wake w = w\<lparr>readers := wake_up \<circ> readers w, isr := IsrIdle\<rparr>"

definition mbf_isr :: "irq \<Rightarrow> irq" where
  "mbf_isr w =
     (case isr w of
        IsrIdle \<Rightarrow> w\<lparr>isr := IsrAck (intc w)\<rparr>
      | IsrAck v \<Rightarrow> w\<lparr>intc := intc w AND NOT v, isr := IsrDma v\<rparr>
      | IsrDma v \<Rightarrow>
          let w = (if v AND 1 \<noteq> 0 then w\<lparr>dma_calls := dma_calls w + 1\<rparr> else w); v = drop_bit 1 v
          in w\<lparr>isr := (if v \<noteq> 0 then IsrRead v else IsrIdle), retries := 0\<rparr>
      | IsrRead new \<Rightarrow> event_interrupt_read new w
      | IsrCas new old \<Rightarrow> event_interrupt_cmpxchg new old w
      | IsrWake \<Rightarrow> event_interrupt_wake w)"

section \<open>Readers\<close>

definition interrupt_events_ready :: "irq \<Rightarrow> bool" where
  "interrupt_events_ready w \<longleftrightarrow> events w \<noteq> 0"

definition mbf_reg_poll :: "irq \<Rightarrow> bool" where
  "mbf_reg_poll w = interrupt_events_ready w"

definition set_reader :: "nat \<Rightarrow> reader_pc \<Rightarrow> irq \<Rightarrow> irq" where
  "set_reader p r w = w\<lparr>readers := (readers w)(p := r)\<rparr>"

text \<open>The checks at the start of \<^verbatim>\<open>mbf_reg_read\<close>.\<close>

definition start_read :: "nat \<Rightarrow> bool \<Rightarrow> nat \<Rightarrow> irq \<Rightarrow> irq" where
  "start_read p no_wait cnt w =
     set_reader p
       (if no_wait \<and> \<not> interrupt_events_ready w then Returned (Inl EAGAIN)
        else if cnt < 4 then Returned (Inl EIO) else Exchange no_wait) w"

definition atomic_xchg :: "irq \<Rightarrow> u32 \<times> irq" where
  "atomic_xchg w = (events w, w\<lparr>events := 0, taken := count_bits (events w) (taken w), owed := owed w AND NOT (events w)\<rparr>)"

text \<open>\<^verbatim>\<open>wait_event_interruptible\<close> puts the reader into the queue before it evaluates the condition, so falling asleep is
  one step with the exchange that found nothing.\<close>

definition read_interrupt_events :: "nat \<Rightarrow> bool \<Rightarrow> irq \<Rightarrow> irq" where
  "read_interrupt_events p no_wait w =
     (let (value, w) = atomic_xchg w
      in set_reader p (if \<not> no_wait \<and> value = 0 then Sleeping else Taken value) w)"

definition finish_read :: "bool \<Rightarrow> u32 \<Rightarrow> read_error + u32" where
  "finish_read copied value = (if \<not> copied then Inl EFAULT else if value = 0 then Inl EAGAIN else Inr value)"

section \<open>Interleaving\<close>

inductive irq_step :: "irq \<Rightarrow> irq \<Rightarrow> bool" where
  Raise: "irq_step w (raise_lines v w)"
| Handler: "irq_step w (mbf_isr w)"
| Start: "readers w p \<in> {Outside, Returned r} \<Longrightarrow> irq_step w (start_read p no_wait cnt w)"
| Read: "readers w p = Exchange no_wait \<Longrightarrow> irq_step w (read_interrupt_events p no_wait w)"
| Signal: "readers w p = Sleeping \<Longrightarrow> irq_step w (set_reader p (Returned (Inl ERESTARTSYS)) w)"
| Finish: "readers w p = Taken value \<Longrightarrow> irq_step w (set_reader p (Returned (finish_read copied value)) w)"

inductive irq_reachable :: "irq \<Rightarrow> bool" where
  Initial: "irq_reachable initial_irq"
| Step: "irq_reachable w \<Longrightarrow> irq_step w w' \<Longrightarrow> irq_reachable w'"

section \<open>The invariants\<close>

lemma clear_bits [simp]: "bit (a AND NOT v :: u32) b \<longleftrightarrow> bit a b \<and> \<not> bit v b"
  by (auto simp: bit_simps dest: bit_imp_le_length)

lemma set_reader_sel [simp]:
  "intc (set_reader p r w) = intc w" "events (set_reader p r w) = events w" "isr (set_reader p r w) = isr w"
  "raised (set_reader p r w) = raised w" "taken (set_reader p r w) = taken w" "owed (set_reader p r w) = owed w"
  "retries (set_reader p r w) = retries w" "readers (set_reader p r w) = (readers w)(p := r)"
  by (simp_all add: set_reader_def)

lemma start_read_sel [simp]:
  "intc (start_read p n c w) = intc w" "events (start_read p n c w) = events w" "isr (start_read p n c w) = isr w"
  "raised (start_read p n c w) = raised w" "taken (start_read p n c w) = taken w" "owed (start_read p n c w) = owed w"
  "retries (start_read p n c w) = retries w" "q \<noteq> p \<Longrightarrow> readers (start_read p n c w) q = readers w q" "readers (start_read p n c w) p \<noteq> Sleeping"
  by (simp_all add: start_read_def)

lemma read_sel [simp]:
  "intc (read_interrupt_events p n w) = intc w" "events (read_interrupt_events p n w) = 0" "isr (read_interrupt_events p n w) = isr w"
  "raised (read_interrupt_events p n w) = raised w" "taken (read_interrupt_events p n w) = count_bits (events w) (taken w)"
  "owed (read_interrupt_events p n w) = owed w AND NOT (events w)" "retries (read_interrupt_events p n w) = retries w"
  by (simp_all add: read_interrupt_events_def atomic_xchg_def)

text \<open>What the handler has in its hands: before the acknowledgement the status register still has it.\<close>

fun hand :: "isr_pc \<Rightarrow> u32" where
  "hand (IsrDma v) = drop_bit 1 v"
| "hand (IsrRead e) = e"
| "hand (IsrCas e old) = e"
| "hand _ = 0"

definition on_its_way :: "irq \<Rightarrow> nat \<Rightarrow> nat" where
  "on_its_way w b = of_bool (bit (intc w) (Suc b)) + of_bool (bit (hand (isr w)) b) + of_bool (bit (events w) b)"

text \<open>For each event: what is owed is on its way, and what is taken or on its way was raised.\<close>

definition event_kept :: "irq \<Rightarrow> nat \<Rightarrow> bool" where
  "event_kept w b \<longleftrightarrow> (bit (owed w) b \<longrightarrow> 0 < on_its_way w b) \<and> taken w b + on_its_way w b \<le> raised w b"

definition acknowledges_seen :: "irq \<Rightarrow> bool" where
  "acknowledges_seen w \<longleftrightarrow> (\<forall>v b. isr w = IsrAck v \<longrightarrow> bit v b \<longrightarrow> bit (intc w) b)"

definition sleepers_woken :: "irq \<Rightarrow> bool" where
  "sleepers_woken w \<longleftrightarrow> (\<forall>p. readers w p = Sleeping \<longrightarrow> events w \<noteq> 0 \<longrightarrow> isr w = IsrWake)"

lemmas kept_defs = event_kept_def on_its_way_def count_bits_def of_bool_def

lemma raise_kept: "event_kept w b \<Longrightarrow> event_kept (raise_lines v w) b"
  by (auto simp: kept_defs raise_lines_def bit_simps split: if_splits)

lemma handler_kept:
  assumes "event_kept w b" "acknowledges_seen w"
  shows "event_kept (mbf_isr w) b"
proof (cases "isr w")
  case (IsrAck v)
  then have "bit v (Suc b) \<Longrightarrow> bit (intc w) (Suc b)" using assms(2) by (simp add: acknowledges_seen_def)
  then show ?thesis using assms(1) IsrAck by (auto simp: kept_defs mbf_isr_def bit_drop_bit_eq split: if_splits)
next
  case (IsrDma v)
  then show ?thesis using assms(1) by (auto simp: kept_defs mbf_isr_def Let_def split: if_splits)
next
  case (IsrCas e old)
  then show ?thesis using assms(1)
    by (auto simp: kept_defs mbf_isr_def event_interrupt_cmpxchg_def bit_simps split: if_splits)
qed (use assms(1) in \<open>auto simp: kept_defs mbf_isr_def event_interrupt_read_def event_interrupt_wake_def split: if_splits\<close>)

lemma read_kept: "event_kept w b \<Longrightarrow> event_kept (read_interrupt_events p n w) b"
  by (auto simp: kept_defs split: if_splits)

lemma other_kept: "event_kept (set_reader p r w) b = event_kept w b" "event_kept (start_read p n c w) b = event_kept w b"
  by (simp_all add: event_kept_def on_its_way_def)

lemma step_kept:
  assumes "irq_step w w'" "event_kept w b" "acknowledges_seen w"
  shows "event_kept w' b"
  using assms(1) by cases (use assms(2,3) in \<open>simp_all add: raise_kept handler_kept read_kept other_kept\<close>)

lemma step_acknowledges: "irq_step w w' \<Longrightarrow> acknowledges_seen w \<Longrightarrow> acknowledges_seen w'"
  by (induction rule: irq_step.induct)
    (auto simp: acknowledges_seen_def raise_lines_def mbf_isr_def event_interrupt_read_def event_interrupt_cmpxchg_def
      event_interrupt_wake_def Let_def bit_simps split: isr_pc.splits if_splits)

lemma handler_woken: "sleepers_woken w \<Longrightarrow> sleepers_woken (mbf_isr w)"
  by (auto simp: sleepers_woken_def mbf_isr_def event_interrupt_read_def event_interrupt_cmpxchg_def event_interrupt_wake_def
      wake_up_def Let_def split: isr_pc.splits if_splits)

lemma step_woken: "irq_step w w' \<Longrightarrow> sleepers_woken w \<Longrightarrow> sleepers_woken w'"
proof (induction rule: irq_step.induct)
  case (Start w p r n c)
  then show ?case by (metis sleepers_woken_def start_read_sel(2,3,8,9))
qed (auto simp: sleepers_woken_def raise_lines_def handler_woken [unfolded sleepers_woken_def])

lemma reachable_invariants: "irq_reachable w \<Longrightarrow> event_kept w b \<and> acknowledges_seen w \<and> sleepers_woken w"
proof (induction rule: irq_reachable.induct)
  case Initial
  show ?case by (simp add: kept_defs acknowledges_seen_def sleepers_woken_def initial_irq_def)
next
  case (Step w w')
  then show ?case using step_kept step_acknowledges step_woken by blast
qed

section \<open>Properties\<close>

text \<open>C32 No interrupt event is lost or made up on its way to a reader, however the handler and the readers interleave: an event raised
  since it was last taken is in the status register, in the hands of the handler or in the event mask; every event is taken at most as often
  as it was raised; and when no interrupt is pending a reader takes all that is owed.\<close>

theorem interrupt_events_kept:
  assumes "irq_reachable w"
  shows "(bit (owed w) b \<longrightarrow> bit (intc w) (Suc b) \<or> bit (hand (isr w)) b \<or> bit (events w) b) \<and>
    taken w b + on_its_way w b \<le> raised w b \<and>
    (intc w = 0 \<and> isr w = IsrIdle \<longrightarrow> owed (snd (atomic_xchg w)) = 0)"
proof -
  have k: "event_kept w c" for c using reachable_invariants [OF assms] by blast
  have "owed w AND NOT (events w) = 0" if "intc w = 0" "isr w = IsrIdle"
  proof (rule bit_eqI)
    show "bit (owed w AND NOT (events w)) n = bit (0 :: u32) n" for n
      using k [of n] that by (auto simp: event_kept_def on_its_way_def)
  qed
  then show ?thesis using k [of b] by (auto simp: event_kept_def on_its_way_def atomic_xchg_def of_bool_def split: if_splits)
qed

text \<open>C33 No reader sleeps on events: while a reader is asleep and there are events the handler is about to wake the readers, its next step
  lets the sleeping reader exchange the mask again, and the exchange gets what is there.  A signal to a sleeping reader takes no event from
  the others.\<close>

theorem sleeping_reader_woken:
  assumes "irq_reachable w" "readers w p = Sleeping"
  shows "(events w \<noteq> 0 \<longrightarrow> isr w = IsrWake \<and> readers (mbf_isr w) p = Exchange False \<and>
      readers (read_interrupt_events p False (mbf_isr w)) p = Taken (events w)) \<and>
    (\<forall>w'. irq_step w w' \<and> readers w' p = Returned (Inl ERESTARTSYS) \<longrightarrow> events w' = events w \<and> owed w' = owed w)"
proof -
  have woken: "sleepers_woken w" using reachable_invariants [OF assms(1)] by blast
  have signal: "events w' = events w \<and> owed w' = owed w"
    if "irq_step w w'" "readers w' p = Returned (Inl ERESTARTSYS)" for w'
    using that(1)
  proof cases
    case (Read q no_wait)
    then have "readers w' p = Sleeping \<or> q = p" using assms(2) by (auto simp: read_interrupt_events_def atomic_xchg_def)
    then show ?thesis using that(2) assms(2) Read by auto
  next
    case Handler
    then have "readers w' p \<in> {Sleeping, Exchange False}" using assms(2)
      by (auto simp: mbf_isr_def event_interrupt_read_def event_interrupt_cmpxchg_def event_interrupt_wake_def wake_up_def Let_def split: isr_pc.splits)
    then show ?thesis using that(2) by auto
  qed (use that(2) assms(2) in \<open>auto simp: raise_lines_def\<close>)
  have "isr w = IsrWake" if "events w \<noteq> 0" using woken assms(2) that by (auto simp: sleepers_woken_def)
  then show ?thesis using signal assms(2)
    by (auto simp: mbf_isr_def event_interrupt_wake_def wake_up_def read_interrupt_events_def atomic_xchg_def)
qed

text \<open>How many of its own steps the handler still takes.\<close>

fun isr_steps :: "isr_pc \<Rightarrow> nat \<Rightarrow> nat" where
  "isr_steps IsrIdle r = 0"
| "isr_steps IsrWake r = 1"
| "isr_steps (IsrCas e old) r = (if r = 0 then 4 else 2)"
| "isr_steps (IsrRead e) r = (if r = 0 then 5 else 3)"
| "isr_steps (IsrDma v) r = 6"
| "isr_steps (IsrAck v) r = 7"

text \<open>Only the handler sets bits of the mask, so after one failed exchange the mask is empty and stays so.\<close>

definition retry_bound :: "irq \<Rightarrow> bool" where
  "retry_bound w \<longleftrightarrow>
     (case isr w of IsrRead e \<Rightarrow> retries w = 0 \<or> retries w = 1 \<and> events w = 0
      | IsrCas e old \<Rightarrow> retries w = 0 \<and> events w \<in> {old, 0} \<or> retries w = 1 \<and> old = 0 \<and> events w = 0
      | _ \<Rightarrow> True)"

lemma handler_retry: "retry_bound w \<Longrightarrow> retry_bound (mbf_isr w)"
  by (auto simp: retry_bound_def mbf_isr_def event_interrupt_read_def event_interrupt_cmpxchg_def event_interrupt_wake_def Let_def
      split: isr_pc.splits)

lemma reachable_retry: "irq_reachable w \<Longrightarrow> retry_bound w"
proof (induction rule: irq_reachable.induct)
  case Initial
  show ?case by (simp add: retry_bound_def initial_irq_def)
next
  case (Step w w')
  from Step.hyps(2) Step.IH show ?case
    by cases (auto simp: retry_bound_def raise_lines_def handler_retry [unfolded retry_bound_def] split: isr_pc.splits)
qed

text \<open>C34 The handler returns whatever the readers do: its loop over the exchange fails at most once for an interrupt, so every one of its
  steps brings it closer to its end, at most seven after it has read the status, and no step of a reader or of the hardware takes it back.\<close>

theorem interrupt_handler_returns:
  assumes "irq_reachable w" "irq_step w w'" "isr w \<noteq> IsrIdle"
  shows "(w' = mbf_isr w \<and> isr_steps (isr w') (retries w') < isr_steps (isr w) (retries w) \<or>
      isr w' = isr w \<and> retries w' = retries w) \<and> isr_steps (isr w) (retries w) \<le> 7"
proof -
  note rb = reachable_retry [OF assms(1)]
  have "isr_steps (isr (mbf_isr w)) (retries (mbf_isr w)) < isr_steps (isr w) (retries w)"
    using rb assms(3)
    by (cases "isr w") (auto simp: retry_bound_def mbf_isr_def event_interrupt_read_def event_interrupt_cmpxchg_def event_interrupt_wake_def Let_def)
  moreover have "isr_steps (isr w) (retries w) \<le> 7" by (cases "isr w") auto
  moreover have "w' = mbf_isr w \<or> isr w' = isr w \<and> retries w' = retries w" using assms(2) by cases (auto simp: raise_lines_def)
  ultimately show ?thesis by blast
qed

section \<open>Instances\<close>

text \<open>A reader falls asleep, line 1 is raised, and the handler runs.\<close>

definition asleep :: irq where "asleep = read_interrupt_events 3 False (start_read 3 False 4 initial_irq)"
definition serving :: "nat \<Rightarrow> irq" where "serving n = (mbf_isr ^^ n) (raise_lines 2 asleep)"

lemma serving_reachable: "irq_reachable (serving n)"
proof (induction n)
  case 0
  have "irq_reachable (start_read 3 False 4 initial_irq)"
    by (rule irq_reachable.Step [OF irq_reachable.Initial irq_step.Start]) (simp add: initial_irq_def)
  then have "irq_reachable asleep" unfolding asleep_def
    by (rule irq_reachable.Step [OF _ irq_step.Read]) (simp add: start_read_def)
  then show ?case unfolding serving_def by (simp add: irq_reachable.Step irq_step.Raise)
next
  case (Suc n)
  then show ?case unfolding serving_def by (simp add: irq_reachable.Step irq_step.Handler)
qed

lemmas serving_defs = serving_def asleep_def eval_nat_numeral mbf_isr_def event_interrupt_read_def event_interrupt_cmpxchg_def
  event_interrupt_wake_def raise_lines_def start_read_def read_interrupt_events_def atomic_xchg_def set_reader_def initial_irq_def

theorem interrupt_events_kept_witness:
  "intc (serving 6) = 0 \<and> isr (serving 6) = IsrIdle \<and> owed (serving 6) = 1 \<and> owed (snd (atomic_xchg (serving 6))) = 0"
proof -
  have q: "intc (serving 6) = 0" "isr (serving 6) = IsrIdle" "owed (serving 6) = 1" by (simp_all add: serving_defs)
  then show ?thesis using interrupt_events_kept [OF serving_reachable [of 6], of 0] by blast
qed

theorem sleeping_reader_woken_witness:
  "readers (serving 5) 3 = Sleeping \<and> events (serving 5) = 1 \<and> readers (read_interrupt_events 3 False (mbf_isr (serving 5))) 3 = Taken 1"
proof -
  have q: "readers (serving 5) 3 = Sleeping" "events (serving 5) = 1" by (simp_all add: serving_defs)
  then show ?thesis using sleeping_reader_woken [OF serving_reachable q(1)] by simp
qed

theorem interrupt_handler_returns_witness:
  "isr_steps (isr (mbf_isr (serving 1))) (retries (mbf_isr (serving 1))) < isr_steps (isr (serving 1)) (retries (serving 1))"
proof -
  have q: "isr (serving 1) \<noteq> IsrIdle" "isr (mbf_isr (serving 1)) \<noteq> isr (serving 1)" by (simp_all add: serving_defs)
  show ?thesis using interrupt_handler_returns [OF serving_reachable irq_step.Handler q(1)] q(2) by blast
qed

end
