(* ===== verification/Driver_Engine.thy ===== *)
theory Driver_Engine
  imports MBF_Prelude
begin

text \<open>
  The hand shake with the DMA engine (\<^verbatim>\<open>driver/dma_control.c\<close>): a reader of the capture memory programs the engine and waits
  for a completion that the interrupt handler gives, and can be killed while it waits.  Readers, the engine and the handler take
  steps of their own.  What is read where is the matter of the theory of the DMA requests; here a transfer is a number.
\<close>

unbundle bit_operations_syntax

section \<open>The wait for a reset\<close>

text \<open>\<^verbatim>\<open>time_before\<close> compares the wrapping counter \<^verbatim>\<open>jiffies\<close> by the sign of the difference.\<close>

definition time_before :: "u64 \<Rightarrow> u64 \<Rightarrow> bool" where
  "time_before a b \<longleftrightarrow> sint (a - b) < 0"

text \<open>Each turn of the loop sees whether the reset bit is still set and the time; the result is the count of turns, \<open>None\<close> while the
  loop still runs.\<close>

fun wait_reset :: "u64 \<Rightarrow> (bool \<times> u64) list \<Rightarrow> nat option" where
  "wait_reset deadline [] = None"
| "wait_reset deadline ((resetting, jiffies) # rest) =
     (if resetting \<and> time_before jiffies deadline then map_option Suc (wait_reset deadline rest) else Some 0)"

definition reset_deadline :: "u64 \<Rightarrow> u64" where "reset_deadline jiffies = jiffies + 2"

lemma reset_wait_ends:
  assumes "(r, start + of_nat d) \<in> set seen" "2 \<le> d" "d < 2 ^ 63"
  shows "\<exists>n. wait_reset (reset_deadline start) seen = Some n \<and> n < length seen"
proof -
  have diff: "start + of_nat d - reset_deadline start = (of_nat (d - 2) :: u64)" using assms(2) by (simp add: reset_deadline_def of_nat_diff)
  have "\<not> time_before (start + of_nat d) (reset_deadline start)"
  proof -
    have "sint (of_nat (d - 2) :: u64) = int (d - 2)" using assms(3)
      by (simp add: signed_of_nat signed_take_bit_int_eq_self)
    then show ?thesis unfolding time_before_def diff by simp
  qed
  then show ?thesis using assms(1)
  proof (induction seen)
    case (Cons a seen)
    then show ?case by (cases a) auto
  qed simp
qed

section \<open>State\<close>

text \<open>The bits of the status register the driver looks at.\<close>

definition CDMASR_DMADecErr :: u32 where "CDMASR_DMADecErr = push_bit 6 1"
definition CDMASR_DMASlvErr :: u32 where "CDMASR_DMASlvErr = push_bit 5 1"
definition CDMASR_DMAIntErr :: u32 where "CDMASR_DMAIntErr = push_bit 4 1"
definition CDMASR_Idle :: u32 where "CDMASR_Idle = push_bit 1 1"
definition CDMASR_Err_Irq :: u32 where "CDMASR_Err_Irq = push_bit 14 1"
definition CDMASR_IOC_Irq :: u32 where "CDMASR_IOC_Irq = push_bit 12 1"

text \<open>Where the reader that has the mutex stands: before the look at the status, before the completion is
  cleared, before it programs the engine, waiting for its transfer, and copying the buffer.\<close>

datatype reader_stage = Checking | Clearing | Programming | Waiting nat | Copying nat

text \<open>\<open>cdmasr\<close> is the status register, \<open>running\<close> the transfer in the engine, \<open>line\<close> its interrupt at the interrupt
  controller, \<open>handling\<close> is true between the two halves of \<open>dma_interrupt\<close>, and \<open>dma_done\<close> counts the completions.
  \<open>device_owns\<close> tells whether the buffer is handed to the device, \<open>buffer\<close> whose data fills it.  \<open>next_transfer\<close> and
  \<open>kills\<close> only number the transfers and count the readers killed.\<close>

record dma =
  cdmasr :: u32
  running :: "nat option"
  line :: bool
  handling :: bool
  dma_done :: nat
  holder :: "reader_stage option"
  device_owns :: bool
  buffer :: "nat option"
  next_transfer :: nat
  kills :: nat

definition initial_dma :: dma where
  "initial_dma = \<lparr>cdmasr = CDMASR_Idle, running = None, line = False, handling = False, dma_done = 0, holder = None,
     device_owns = True, buffer = None, next_transfer = 0, kills = 0\<rparr>"

section \<open>The reader\<close>

text \<open>A reset stops the engine and clears its status; an interrupt the controller has seen stays.\<close>

definition reset_dma_controller :: "dma \<Rightarrow> dma" where
  "reset_dma_controller d = d\<lparr>cdmasr := CDMASR_Idle, running := None\<rparr>"

definition needs_reset :: "u32 \<Rightarrow> bool" where
  "needs_reset status \<longleftrightarrow> status AND (CDMASR_DMADecErr OR CDMASR_DMASlvErr OR CDMASR_DMAIntErr) \<noteq> 0 \<or> status AND CDMASR_Idle = 0"

definition maybe_reset_dma :: "dma \<Rightarrow> dma" where
  "maybe_reset_dma d = (if needs_reset (cdmasr d) then reset_dma_controller d else d)"

definition reinit_completion :: "dma \<Rightarrow> dma" where
  "reinit_completion d = d\<lparr>dma_done := 0\<rparr>"

definition start_transfer :: "dma \<Rightarrow> dma" where
  "start_transfer d = d\<lparr>running := Some (next_transfer d), cdmasr := cdmasr d AND NOT CDMASR_Idle, buffer := None,
     next_transfer := next_transfer d + 1, holder := Some (Waiting (next_transfer d))\<rparr>"

definition lock_dma :: "dma \<Rightarrow> dma" where
  "lock_dma d = d\<lparr>holder := Some Checking, device_owns := True\<rparr>"

definition transfer_done :: "nat \<Rightarrow> dma \<Rightarrow> dma" where
  "transfer_done t d = d\<lparr>dma_done := dma_done d - 1, device_owns := False, holder := Some (Copying t)\<rparr>"

definition transfer_killed :: "dma \<Rightarrow> dma" where
  "transfer_killed d = d\<lparr>holder := None, kills := kills d + 1\<rparr>"

definition release_dma_memory :: "dma \<Rightarrow> dma" where
  "release_dma_memory d = d\<lparr>holder := None\<rparr>"

text \<open>\<open>read_dma_memory\<close> by its stages; while it waits it goes on only with a completion.\<close>

definition read_dma_memory :: "dma \<Rightarrow> dma" where
  "read_dma_memory d =
     (case holder d of
        None \<Rightarrow> lock_dma d
      | Some Checking \<Rightarrow> (maybe_reset_dma d)\<lparr>holder := Some Clearing\<rparr>
      | Some Clearing \<Rightarrow> (reinit_completion d)\<lparr>holder := Some Programming\<rparr>
      | Some Programming \<Rightarrow> start_transfer d
      | Some (Waiting t) \<Rightarrow> if 0 < dma_done d then transfer_done t d else d
      | Some (Copying t) \<Rightarrow> d)"

section \<open>The handler\<close>

text \<open>\<open>dma_interrupt\<close> reads the status, writes it back, which clears the interrupt bits, and completes.\<close>

definition acknowledge_interrupt :: "dma \<Rightarrow> dma" where
  "acknowledge_interrupt d = d\<lparr>cdmasr := cdmasr d AND NOT (cdmasr d AND (CDMASR_Err_Irq OR CDMASR_IOC_Irq)), line := False, handling := True\<rparr>"

definition dma_interrupt :: "dma \<Rightarrow> dma" where
  "dma_interrupt d = (if handling d then d\<lparr>handling := False, dma_done := dma_done d + 1\<rparr> else acknowledge_interrupt d)"

section \<open>The engine\<close>

text \<open>What the driver relies on of the engine: a transfer ends once, with its data in the buffer or with an error and without
  data, and raises its interrupt.\<close>

definition engine_finishes :: "nat \<Rightarrow> dma \<Rightarrow> dma" where
  "engine_finishes t d = d\<lparr>running := None, buffer := Some t, line := True, cdmasr := cdmasr d OR CDMASR_Idle OR CDMASR_IOC_Irq\<rparr>"

definition engine_fails :: "u32 \<Rightarrow> dma \<Rightarrow> dma" where
  "engine_fails e d = d\<lparr>running := None, line := True, cdmasr := cdmasr d OR e OR CDMASR_Idle OR CDMASR_Err_Irq\<rparr>"

definition error_bits :: "u32 set" where
  "error_bits = {CDMASR_DMADecErr, CDMASR_DMASlvErr, CDMASR_DMAIntErr}"

text \<open>The engine has not failed since it was last reset.\<close>

definition no_error :: "u32 \<Rightarrow> bool" where
  "no_error status \<longleftrightarrow> status AND (CDMASR_DMADecErr OR CDMASR_DMASlvErr OR CDMASR_DMAIntErr) = 0"

inductive dma_step :: "dma \<Rightarrow> dma \<Rightarrow> bool" where
  Reader: "dma_step d (read_dma_memory d)"
| Release: "holder d = Some (Copying t) \<Longrightarrow> dma_step d (release_dma_memory d)"
| Kill: "holder d = Some (Waiting t) \<Longrightarrow> dma_done d = 0 \<Longrightarrow> dma_step d (transfer_killed d)"
| Finish: "running d = Some t \<Longrightarrow> dma_step d (engine_finishes t d)"
| Fail: "running d = Some t \<Longrightarrow> e \<in> error_bits \<Longrightarrow> dma_step d (engine_fails e d)"
| Interrupt: "line d \<or> handling d \<Longrightarrow> dma_step d (dma_interrupt d)"

inductive dma_reachable :: "dma \<Rightarrow> bool" where
  Initial: "dma_reachable initial_dma"
| Step: "dma_reachable d \<Longrightarrow> dma_step d d' \<Longrightarrow> dma_reachable d'"

section \<open>The invariant\<close>

text \<open>The signals that are on their way from the engine to the reader.\<close>

definition signals :: "dma \<Rightarrow> nat" where
  "signals d = of_bool (running d \<noteq> None) + of_bool (line d) + of_bool (handling d) + dma_done d"

definition engine_ok :: "dma \<Rightarrow> bool" where
  "engine_ok d \<longleftrightarrow>
     (case holder d of
        Some (Waiting t) \<Rightarrow> signals d = 1 \<and> (\<forall>r. running d = Some r \<longrightarrow> r = t) \<and> (running d = None \<and> no_error (cdmasr d) \<longrightarrow> buffer d = Some t)
      | Some (Copying t) \<Rightarrow> signals d = 0 \<and> \<not> device_owns d \<and> (no_error (cdmasr d) \<longrightarrow> buffer d = Some t)
      | _ \<Rightarrow> signals d = 0)"

lemmas dma_defs = read_dma_memory_def release_dma_memory_def transfer_killed_def engine_finishes_def engine_fails_def dma_interrupt_def
  acknowledge_interrupt_def lock_dma_def maybe_reset_dma_def reset_dma_controller_def reinit_completion_def start_transfer_def transfer_done_def

lemmas status_bits = CDMASR_DMADecErr_def CDMASR_DMASlvErr_def CDMASR_DMAIntErr_def CDMASR_Idle_def CDMASR_Err_Irq_def CDMASR_IOC_Irq_def

lemma no_error_bits: "no_error c \<longleftrightarrow> \<not> bit c 6 \<and> \<not> bit c 5 \<and> \<not> bit c 4"
proof
  assume e: "no_error c"
  have "bit (c AND (CDMASR_DMADecErr OR CDMASR_DMASlvErr OR CDMASR_DMAIntErr)) n = False" for n using e by (simp add: no_error_def)
  from this [of 4] this [of 5] this [of 6] show "\<not> bit c 6 \<and> \<not> bit c 5 \<and> \<not> bit c 4"
    by (simp add: status_bits bit_simps)
next
  assume "\<not> bit c 6 \<and> \<not> bit c 5 \<and> \<not> bit c 4"
  then show "no_error c" unfolding no_error_def
    by (intro bit_eqI) (unfold bit_and_iff bit_or_iff status_bits bit_push_bit_iff bit_1_iff, auto)
qed

lemma error_kept [simp]:
  "no_error (c OR CDMASR_Idle OR CDMASR_IOC_Irq) = no_error c" "no_error (c AND NOT (c AND (CDMASR_Err_Irq OR CDMASR_IOC_Irq))) = no_error c"
  "no_error (c AND NOT CDMASR_Idle) = no_error c" "no_error CDMASR_Idle"
  "e \<in> error_bits \<Longrightarrow> \<not> no_error (c OR e OR CDMASR_Idle OR CDMASR_Err_Irq)"
  unfolding no_error_bits by (auto simp: error_bits_def status_bits bit_simps)

lemma reader_ok: "engine_ok d \<Longrightarrow> engine_ok (read_dma_memory d)"
  by (auto simp: engine_ok_def signals_def read_dma_memory_def lock_dma_def maybe_reset_dma_def reset_dma_controller_def reinit_completion_def
      start_transfer_def transfer_done_def split: option.splits reader_stage.splits if_splits)

lemma acknowledge_sel [simp]:
  "no_error (cdmasr (acknowledge_interrupt d)) = no_error (cdmasr d)" "running (acknowledge_interrupt d) = running d"
  "line (acknowledge_interrupt d) = False" "handling (acknowledge_interrupt d) = True" "dma_done (acknowledge_interrupt d) = dma_done d"
  "holder (acknowledge_interrupt d) = holder d" "device_owns (acknowledge_interrupt d) = device_owns d"
  "buffer (acknowledge_interrupt d) = buffer d"
  unfolding acknowledge_interrupt_def using error_kept(2) by simp_all

lemma step_ok: "dma_step d d' \<Longrightarrow> engine_ok d \<Longrightarrow> kills d' = 0 \<Longrightarrow> engine_ok d'"
proof (induction rule: dma_step.induct)
  case (Reader d)
  then show ?case by (simp add: reader_ok)
next
  case (Finish d t)
  then show ?case by (auto simp: engine_ok_def signals_def engine_finishes_def split: option.splits reader_stage.splits)
next
  case (Fail d t e)
  then show ?case by (auto simp: engine_ok_def signals_def engine_fails_def split: option.splits reader_stage.splits)
next
  case (Interrupt d)
  then show ?case
    by (auto simp: engine_ok_def signals_def dma_interrupt_def split: option.splits reader_stage.splits if_splits)
qed (auto simp: reader_ok engine_ok_def signals_def release_dma_memory_def transfer_killed_def)

lemma kills_grow: "dma_step d d' \<Longrightarrow> kills d \<le> kills d'"
  by (induction rule: dma_step.induct) (auto simp: dma_defs split: option.splits reader_stage.splits)

lemma reachable_engine_ok: "dma_reachable d \<Longrightarrow> kills d = 0 \<Longrightarrow> engine_ok d"
proof (induction rule: dma_reachable.induct)
  case Initial
  show ?case by (simp add: engine_ok_def signals_def initial_dma_def)
next
  case (Step d d')
  then show ?case using step_ok kills_grow by (metis le_zero_eq)
qed

section \<open>Properties\<close>

text \<open>C35 A read of the capture memory that returns has its own data: as long as no reader was killed, when a reader copies the buffer its
  transfer has ended, the buffer is back with the processor and holds the data of this transfer unless the engine has reported an
  error; and a reader that waits for a transfer that has ended gets its completion, for exactly one signal is on its way.\<close>

theorem dma_read_complete:
  assumes "dma_reachable d" "kills d = 0"
  shows "(holder d = Some (Copying t) \<longrightarrow> running d = None \<and> \<not> device_owns d \<and> (no_error (cdmasr d) \<longrightarrow> buffer d = Some t)) \<and>
    (holder d = Some (Waiting t) \<and> running d = None \<longrightarrow> of_bool (line d) + of_bool (handling d) + dma_done d = 1)"
  using reachable_engine_ok [OF assms] by (auto simp: engine_ok_def signals_def)

text \<open>The schedules of the next two properties, after the reader has started its first transfer.\<close>

definition first_transfer :: dma where "first_transfer = (read_dma_memory ^^ 4) initial_dma"

lemma reader_steps: "dma_reachable d \<Longrightarrow> dma_reachable ((read_dma_memory ^^ n) d)"
  by (induction n) (simp_all add: dma_reachable.Step dma_step.Reader)

lemma first_transfer_reachable: "dma_reachable first_transfer"
  unfolding first_transfer_def by (rule reader_steps [OF dma_reachable.Initial])

lemmas schedule_defs = dma_defs first_transfer_def eval_nat_numeral initial_dma_def needs_reset_def status_bits

definition killed_finished :: dma where "killed_finished = dma_interrupt (engine_finishes 0 (transfer_killed first_transfer))"
definition restarted :: dma where "restarted = (read_dma_memory ^^ 3) killed_finished"
definition returned_early :: dma where "returned_early = (read_dma_memory ^^ 2) (dma_interrupt restarted)"

text \<open>C36 A read after a killed one can return before its transfer: if the transfer of the killed reader ends while the next reader is
  checking the engine, which then needs no reset, the completion of the old transfer comes after the reader has cleared the
  completion, and it takes the end of the old transfer for the end of its own, which is still running.\<close>

theorem killed_read_race:
  "\<exists>d. dma_reachable d \<and> kills d = 1 \<and> holder d = Some (Copying 1) \<and> running d = Some 1 \<and> buffer d = None \<and> no_error (cdmasr d)"
proof (intro exI conjI)
  have "dma_reachable (transfer_killed first_transfer)"
    by (rule dma_reachable.Step [OF first_transfer_reachable dma_step.Kill [where t = 0]]) (simp_all add: schedule_defs)
  then have "dma_reachable (engine_finishes 0 (transfer_killed first_transfer))"
    by (rule dma_reachable.Step [OF _ dma_step.Finish]) (simp add: schedule_defs)
  then have "dma_reachable killed_finished" unfolding killed_finished_def
    by (rule dma_reachable.Step [OF _ dma_step.Interrupt]) (simp add: engine_finishes_def)
  then have "dma_reachable restarted" unfolding restarted_def by (rule reader_steps)
  then have "dma_reachable (dma_interrupt restarted)"
    by (rule dma_reachable.Step [OF _ dma_step.Interrupt]) (simp add: restarted_def killed_finished_def schedule_defs)
  then show "dma_reachable returned_early" unfolding returned_early_def by (rule reader_steps)
  show "kills returned_early = 1" "holder returned_early = Some (Copying 1)" "running returned_early = Some 1" "buffer returned_early = None"
    "no_error (cdmasr returned_early)"
    by (simp_all add: returned_early_def restarted_def killed_finished_def schedule_defs no_error_def)
qed

text \<open>A transfer that has failed is returned to its reader as if it had its data: nothing looks at the error until the next read.\<close>

definition failed_read :: dma where
  "failed_read = read_dma_memory (dma_interrupt (dma_interrupt (engine_fails CDMASR_DMADecErr first_transfer)))"

lemma failed_transfer_returned: "dma_reachable failed_read \<and> kills failed_read = 0 \<and> holder failed_read = Some (Copying 0) \<and> buffer failed_read = None"
proof -
  have "dma_reachable (engine_fails CDMASR_DMADecErr first_transfer)"
    by (rule dma_reachable.Step [OF first_transfer_reachable dma_step.Fail [where t = 0]]) (simp_all add: schedule_defs error_bits_def)
  then have "dma_reachable (dma_interrupt (engine_fails CDMASR_DMADecErr first_transfer))"
    by (rule dma_reachable.Step [OF _ dma_step.Interrupt]) (simp add: engine_fails_def)
  then have "dma_reachable (dma_interrupt (dma_interrupt (engine_fails CDMASR_DMADecErr first_transfer)))"
    by (rule dma_reachable.Step [OF _ dma_step.Interrupt]) (simp add: schedule_defs)
  then have "dma_reachable failed_read" unfolding failed_read_def by (rule dma_reachable.Step [OF _ dma_step.Reader])
  then show ?thesis by (simp add: failed_read_def schedule_defs)
qed

definition first_read :: dma where
  "first_read = read_dma_memory (dma_interrupt (dma_interrupt (engine_finishes 0 first_transfer)))"

theorem dma_read_complete_witness: "holder first_read = Some (Copying 0) \<and> running first_read = None \<and> buffer first_read = Some 0"
proof -
  have "dma_reachable (engine_finishes 0 first_transfer)"
    by (rule dma_reachable.Step [OF first_transfer_reachable dma_step.Finish]) (simp add: schedule_defs)
  then have "dma_reachable (dma_interrupt (engine_finishes 0 first_transfer))"
    by (rule dma_reachable.Step [OF _ dma_step.Interrupt]) (simp add: engine_finishes_def)
  then have "dma_reachable (dma_interrupt (dma_interrupt (engine_finishes 0 first_transfer)))"
    by (rule dma_reachable.Step [OF _ dma_step.Interrupt]) (simp add: schedule_defs)
  then have r: "dma_reachable first_read" unfolding first_read_def by (rule dma_reachable.Step [OF _ dma_step.Reader])
  have "kills first_read = 0" "holder first_read = Some (Copying 0)" "no_error (cdmasr first_read)"
    by (simp_all add: first_read_def schedule_defs no_error_def)
  then show ?thesis using dma_read_complete [OF r, of 0] by blast
qed

end
