(* ===== verification/Matlab_Socket.thy ===== *)
theory Matlab_Socket
  imports Socket_Command
begin

text \<open>
  The socket of the Matlab clients (\<^verbatim>\<open>matlab/mex/socket.c\<close>): sending a command, reading the reply whatever pieces it
  arrives in, with time outs in between, and the check of the result.  Every error ends the call with the socket closed.
\<close>

section \<open>The connection\<close>

datatype client_error = Interrupted | ReadFailed | WriteFailed | UnexpectedEnd | BadReply | ServerError string | Overrun

text \<open>\<open>Overrun\<close> stands for an access outside of an array.  What a call of \<^verbatim>\<open>read\<close> finds, and whether an interrupt of Matlab is pending after it: at most
  so many bytes and one more, nothing within the time out, or an error.\<close>

datatype read_event = Got nat bool | TimedOut bool | Failed

record client =
  incoming :: string
  events :: "read_event list"
  grants :: "nat option list"
  outgoing :: string

text \<open>A call that waits for ever has the outcome \<open>None\<close>.\<close>

type_synonym 'a call = "client \<Rightarrow> (client_error + 'a \<times> client) option"

definition creturn :: "'a \<Rightarrow> 'a call" where "creturn x c = Some (Inr (x, c))"

definition cfail :: "client_error \<Rightarrow> 'a call" where "cfail e c = Some (Inl e)"

definition cbind :: "'a call \<Rightarrow> ('a \<Rightarrow> 'b call) \<Rightarrow> 'b call" where
  "cbind p f c = (case p c of None \<Rightarrow> None | Some (Inl e) \<Rightarrow> Some (Inl e) | Some (Inr (x, c')) \<Rightarrow> f x c')"

section \<open>Reading\<close>

fun read_bytes :: "read_event list \<Rightarrow> string \<Rightarrow> nat \<Rightarrow> (client_error + string \<times> string \<times> read_event list) option" where
  "read_bytes evs input 0 = Some (Inr ([], input, evs))"
| "read_bytes [] input (Suc n) = None"
| "read_bytes (TimedOut interrupt # evs) input (Suc n) =
     (if interrupt then Some (Inl Interrupted) else read_bytes evs input (Suc n))"
| "read_bytes (Failed # evs) input (Suc n) = Some (Inl ReadFailed)"
| "read_bytes (Got k interrupt # evs) input (Suc n) =
     (let w = min (Suc k) (min (Suc n) (length input))
      in if w = 0 then Some (Inr ([], input, evs))
         else if interrupt then Some (Inl Interrupted)
         else map_option (map_sum id (\<lambda>(bs, r). (take w input @ bs, r))) (read_bytes evs (drop w input) (Suc n - w)))"

definition read_buffer :: "nat \<Rightarrow> string call" where
  "read_buffer len c =
     map_option (map_sum id (\<lambda>(bs, input, evs). (bs, c\<lparr>incoming := input, events := evs\<rparr>))) (read_bytes (events c) (incoming c) len)"

definition check_result :: "unit call" where
  "check_result =
     cbind (read_buffer 1) (\<lambda>b. case b of
         [] \<Rightarrow> cfail ReadFailed
       | m # _ \<Rightarrow>
           if m \<noteq> char_of (0 :: nat) then
             cbind (read_buffer 255) (\<lambda>message.
               if last (m # message) = CHR 0x0A then cfail (ServerError (butlast (m # message))) else cfail BadReply)
           else creturn ())"

definition fill_buffer :: "nat \<Rightarrow> nat \<Rightarrow> nat \<Rightarrow> (nat \<times> string) call" where
  "fill_buffer sample_size buffer_samples samples =
     (let samples_to_read = (if samples > buffer_samples then buffer_samples else samples); bytes_to_read = sample_size * samples_to_read
      in cbind (read_buffer bytes_to_read) (\<lambda>bs. if length bs = bytes_to_read then creturn (samples_to_read, bs) else cfail UnexpectedEnd))"

section \<open>Writing\<close>

text \<open>Each call of \<^verbatim>\<open>write\<close> takes at most so many bytes and one more, or fails.\<close>

fun write_bytes :: "nat option list \<Rightarrow> string \<Rightarrow> string \<Rightarrow> (client_error + string \<times> nat option list) option" where
  "write_bytes gs out [] = Some (Inr (out, gs))"
| "write_bytes [] out (b # bs) = None"
| "write_bytes (None # gs) out (b # bs) = Some (Inl WriteFailed)"
| "write_bytes (Some k # gs) out (b # bs) = write_bytes gs (out @ take (Suc k) (b # bs)) (drop (Suc k) (b # bs))"

definition write_all :: "string \<Rightarrow> unit call" where
  "write_all bytes c =
     map_option (map_sum id (\<lambda>(out, gs). ((), c\<lparr>outgoing := out, grants := gs\<rparr>))) (write_bytes (grants c) (outgoing c) bytes)"

text \<open>The line is formatted into 64 characters with their terminating null; what is written has the length of the
  whole line.\<close>

definition send_command :: "string \<Rightarrow> unit call" where
  "send_command command =
     (let line = command @ [CHR 0x0A]
      in if length line < 64 then write_all line
         else if length line = 64 then write_all (take 63 line @ [char_of (0 :: nat)])
         else cfail Overrun)"

section \<open>A network that delivers\<close>

fun quiet_event :: "read_event \<Rightarrow> bool" where
  "quiet_event (Got k interrupt) = (\<not> interrupt)"
| "quiet_event (TimedOut interrupt) = (\<not> interrupt)"
| "quiet_event Failed = False"

fun arrival :: "read_event \<Rightarrow> bool" where
  "arrival (Got k interrupt) = True"
| "arrival _ = False"

definition delivers :: "read_event list \<Rightarrow> nat \<Rightarrow> bool" where
  "delivers evs n \<longleftrightarrow> list_all quiet_event evs \<and> n \<le> length (filter arrival evs)"

lemma read_bytes_ok:
  "delivers evs (n + m) \<Longrightarrow> n \<le> length input \<Longrightarrow>
     \<exists>evs'. read_bytes evs input n = Some (Inr (take n input, drop n input, evs')) \<and> delivers evs' m"
proof (induction evs input n rule: read_bytes.induct)
  case (5 k interrupt evs input n)
  let ?w = "min (Suc k) (min (Suc n) (length input))"
  have w: "0 < ?w" "?w \<le> Suc n" using "5.prems"(2) by auto
  have "Suc n - ?w \<le> n" using w(1) by arith
  then have le: "Suc n - ?w + m \<le> n + m" by (rule add_right_mono)
  have "list_all quiet_event evs" "n + m \<le> length (filter arrival evs)" "\<not> interrupt" using "5.prems"(1) by (simp_all add: delivers_def)
  with le have d: "delivers evs (Suc n - ?w + m)" "\<not> interrupt" unfolding delivers_def by (blast intro: order_trans)+
  have l: "Suc n - ?w \<le> length (drop ?w input)" using "5.prems"(2) by auto
  have w0: "?w \<noteq> 0" using w by simp
  from "5.IH" [OF refl w0 d(2) d(1) l] obtain evs' where
    r: "read_bytes evs (drop ?w input) (Suc n - ?w) = Some (Inr (take (Suc n - ?w) (drop ?w input), drop (Suc n - ?w) (drop ?w input), evs'))"
    "delivers evs' m" by blast
  have "take ?w input @ take (Suc n - ?w) (drop ?w input) = take (Suc n) input"
    using take_add [of ?w "Suc n - ?w" input] w(2) by simp
  moreover have "drop (Suc n - ?w) (drop ?w input) = drop (Suc n) input" using w(2) by simp
  moreover have "read_bytes (Got k interrupt # evs) input (Suc n) =
      map_option (map_sum id (\<lambda>(bs, r). (take ?w input @ bs, r))) (read_bytes evs (drop ?w input) (Suc n - ?w))"
    unfolding read_bytes.simps Let_def if_not_P [OF w0] if_not_P [OF d(2)] ..
  ultimately show ?case using r by simp
qed (auto simp: delivers_def)

definition ready :: "client \<Rightarrow> nat \<Rightarrow> bool" where
  "ready c n \<longleftrightarrow> delivers (events c) n \<and> n \<le> length (incoming c)"

lemma client_read_ok:
  assumes "ready c (n + m)"
  obtains c' where "read_buffer n c = Some (Inr (take n (incoming c), c'))" "incoming c' = drop n (incoming c)" "ready c' m"
proof -
  obtain evs' where "read_bytes (events c) (incoming c) n = Some (Inr (take n (incoming c), drop n (incoming c), evs'))" "delivers evs' m"
    using read_bytes_ok [of "events c" n m "incoming c"] assms by (auto simp: ready_def)
  moreover have "m \<le> length (incoming c) - n" using assms unfolding ready_def by linarith
  ultimately have "read_buffer n c = Some (Inr (take n (incoming c), c\<lparr>incoming := drop n (incoming c), events := evs'\<rparr>))"
    "ready (c\<lparr>incoming := drop n (incoming c), events := evs'\<rparr>) m"
    by (simp_all add: read_buffer_def ready_def)
  then show ?thesis using that by (metis client.select_convs(1) client.surjective client.update_convs(1,2))
qed

lemma fill_buffer_ok:
  assumes "ready c (sz * min samples b + m)"
  obtains c' where "fill_buffer sz b samples c = Some (Inr ((min samples b, take (sz * min samples b) (incoming c)), c'))"
    "incoming c' = drop (sz * min samples b) (incoming c)" "ready c' m"
proof -
  have m: "(if samples > b then b else samples) = min samples b" by simp
  obtain c' where c': "read_buffer (sz * min samples b) c = Some (Inr (take (sz * min samples b) (incoming c), c'))"
    "incoming c' = drop (sz * min samples b) (incoming c)" "ready c' m" using client_read_ok [OF assms] by blast
  moreover have "length (take (sz * min samples b) (incoming c)) = sz * min samples b" using assms by (simp add: ready_def)
  ultimately have "fill_buffer sz b samples c = Some (Inr ((min samples b, take (sz * min samples b) (incoming c)), c'))"
    unfolding fill_buffer_def m Let_def by (simp add: cbind_def creturn_def)
  then show ?thesis using that c' by blast
qed

section \<open>The loop over a reply\<close>

text \<open>The loop the readers of a reply share: while samples are left fill the buffer and store what has been read.\<close>

partial_function (option) read_chunks ::
  "nat \<Rightarrow> nat \<Rightarrow> (nat \<Rightarrow> string \<Rightarrow> 's \<Rightarrow> 's) \<Rightarrow> nat \<Rightarrow> 's \<Rightarrow> client \<Rightarrow> (client_error + 's \<times> client) option" where
  "read_chunks sz b store samples s c =
     (if samples > 0
      then (case fill_buffer sz b samples c of
              None \<Rightarrow> None
            | Some r \<Rightarrow> (case r of
                Inl e \<Rightarrow> Some (Inl e)
              | Inr ((n, bs), c') \<Rightarrow> read_chunks sz b store (samples - n) (store n bs s) c'))
      else Some (Inr (s, c)))"

text \<open>What the loop stores does not depend on the buffer: an invariant on the samples stored so far holds at the end.\<close>

lemma read_chunks_ok:
  assumes step: "\<And>k n s. P k s \<Longrightarrow> k + n \<le> amount \<Longrightarrow> P (k + n) (store n (take (sz * n) (drop (sz * k) data)) s)"
    and b: "0 < b"
  shows "P k s \<Longrightarrow> k \<le> amount \<Longrightarrow> ready c (sz * (amount - k) + m) \<Longrightarrow> incoming c = drop (sz * k) data \<Longrightarrow>
    \<exists>s' c'. read_chunks sz b store (amount - k) s c = Some (Inr (s', c')) \<and> P amount s' \<and> incoming c' = drop (sz * amount) data \<and> ready c' m"
proof (induction "amount - k" arbitrary: k s c rule: less_induct)
  case less
  show ?case
  proof (cases "amount - k")
    case 0
    then show ?thesis using less.prems by (intro exI [of _ s] exI [of _ c]) (simp add: read_chunks.simps)
  next
    case (Suc d)
    let ?n = "min (amount - k) b"
    have n: "0 < ?n" "k + ?n \<le> amount" "?n \<le> amount - k" using Suc b by auto
    have "sz * (amount - k) = sz * ?n + sz * (amount - (k + ?n))" using n(2) by (simp flip: distrib_left)
    then have "ready c (sz * ?n + (sz * (amount - (k + ?n)) + m))" using less.prems(3) by (simp add: add.assoc)
    from fill_buffer_ok [OF this] obtain c' where
      c': "fill_buffer sz b (amount - k) c = Some (Inr ((?n, take (sz * ?n) (incoming c)), c'))"
      "incoming c' = drop (sz * ?n) (incoming c)" "ready c' (sz * (amount - (k + ?n)) + m)" by blast
    let ?s = "store ?n (take (sz * ?n) (drop (sz * k) data)) s"
    have e: "sz * ?n + sz * k = sz * (k + ?n)" unfolding distrib_left by (rule add.commute)
    have i: "incoming c' = drop (sz * (k + ?n)) data" using c'(2) unfolding less.prems(4) drop_drop e .
    have d: "amount - (k + ?n) < amount - k"
    proof (rule diff_less_mono2)
      show "k < k + ?n" using n(1) by (simp only: less_add_same_cancel1)
      show "k < amount" using Suc by simp
    qed
    from less.hyps [OF d step [OF less.prems(1) n(2)] n(2) c'(3) i] obtain s' c'' where
      r: "read_chunks sz b store (amount - (k + ?n)) ?s c' = Some (Inr (s', c''))" "P amount s'"
        "incoming c'' = drop (sz * amount) data" "ready c'' m" by blast
    have pos: "0 < amount - k" using Suc by simp
    have "read_chunks sz b store (amount - k) s c =
        read_chunks sz b store (amount - k - ?n) (store ?n (take (sz * ?n) (incoming c)) s) c'"
      unfolding read_chunks.simps [of sz b store "amount - k" s c] c'(1) option.case sum.case prod.case if_P [OF pos] ..
    then have "read_chunks sz b store (amount - k) s c = read_chunks sz b store (amount - k - ?n) ?s c'"
      by (simp only: less.prems(4))
    moreover have "amount - k - ?n = amount - (k + ?n)" by simp
    ultimately show ?thesis using r by auto
  qed
qed

end
