(* ===== verification/Matlab_Memory.thy ===== *)
theory Matlab_Memory
  imports Matlab_Socket Memory_Command Fixed_Point
begin

unbundle bit_operations_syntax

text \<open>
  The Matlab client of the memory command (\<^verbatim>\<open>matlab/mex/mex_mbf_memory_.c\<close>): the command it sends, how it reads and transposes the
  reply, and what this gives together with the server: the server understands the command as it was meant, and the
  array that Matlab gets has the samples of the memory.  Matlab's floats are parameters.
\<close>

section \<open>The command\<close>

definition BUFFER_SIZE :: nat where "BUFFER_SIZE = 2 ^ 14"

record 'd memory_request =
  req_count :: u32
  req_offset :: u32
  req_channel :: u32
  req_locking :: 'd
  req_tune :: 'd
  req_decimate :: u32
  req_bunch :: u32

definition is_zero :: "'d arith \<Rightarrow> 'd \<Rightarrow> bool" where
  "is_zero A x \<longleftrightarrow> d_leq A (d_int A 0) x \<and> d_leq A x (d_int A 0)"

definition lock_text :: "'d arith \<Rightarrow> 'd \<Rightarrow> string" where
  "lock_text A wait =
     (if d_leq A (d_int A 0) wait then ''L'' else []) @
     (if d_less A (d_int A 0) wait then ''W'' @ show_uint (of_int (d_trunc A (d_mul A wait (d_int A 1000)))) else [])"

text \<open>\<open>print_tune\<close> is \<^verbatim>\<open>printf\<close> with \<^verbatim>\<open>%.10f\<close>.  The count is unsigned and printed with \<^verbatim>\<open>%d\<close>.\<close>

definition memory_text :: "'d arith \<Rightarrow> ('d \<Rightarrow> string) \<Rightarrow> 'd memory_request \<Rightarrow> string" where
  "memory_text A print_tune q =
     ''M'' @ show_int (req_count q) @ ''FO'' @ show_int (req_offset q) @
     (if 0 \<le> sint (req_channel q) then ''C'' @ show_int (req_channel q) else []) @
     (if req_decimate q > 1 then ''D'' @ show_uint (req_decimate q) else []) @
     (if \<not> is_zero A (req_tune q) then ''T'' @ print_tune (req_tune q) else []) @
     (if 0 \<le> sint (req_bunch q) then ''B'' @ show_int (req_bunch q) else []) @
     lock_text A (req_locking q)"

text \<open>The text is printed into an array of 64 characters.\<close>

definition do_send_command :: "'d arith \<Rightarrow> ('d \<Rightarrow> string) \<Rightarrow> 'd memory_request \<Rightarrow> unit call" where
  "do_send_command A print_tune q =
     (if length (memory_text A print_tune q) < 64
      then cbind (send_command (memory_text A print_tune q)) (\<lambda>_. check_result) else cfail Overrun)"

section \<open>The reply\<close>

definition get16 :: "string \<Rightarrow> nat \<Rightarrow> u16" where
  "get16 bs i = of_nat (of_char (bs ! i)) OR push_bit 8 (of_nat (of_char (bs ! (i + 1))))"

definition get32 :: "string \<Rightarrow> nat \<Rightarrow> u32" where
  "get32 bs i = ucast (get16 bs i) OR push_bit 16 (ucast (get16 bs (i + 2)))"

text \<open>The loop of the converters: the samples go alternately to two positions that advance, if there are two channels.\<close>

definition store_samples :: "nat \<Rightarrow> (nat \<Rightarrow> 'x) \<Rightarrow> nat \<Rightarrow> nat \<Rightarrow> nat \<Rightarrow> 'x list \<Rightarrow> 'x list" where
  "store_samples channels item samples p0 p1 arr =
     fold (\<lambda>i arr. if channels > 1 then arr[p0 + i := item (i * 2), p1 + i := item (i * 2 + 1)] else arr[p0 + i := item i]) [0..<samples] arr"

definition convert_int16_samples :: "(u16 \<Rightarrow> 'f) \<Rightarrow> string \<Rightarrow> nat \<Rightarrow> nat \<Rightarrow> nat \<Rightarrow> nat \<Rightarrow> 'f list \<Rightarrow> 'f list" where
  "convert_int16_samples of_int16 bs samples p0 p1 channels = store_samples channels (\<lambda>j. of_int16 (get16 bs (2 * j))) samples p0 p1"

definition convert_float32_samples :: "(string \<Rightarrow> 'f) \<Rightarrow> string \<Rightarrow> nat \<Rightarrow> nat \<Rightarrow> nat \<Rightarrow> nat \<Rightarrow> 'f list \<Rightarrow> 'f list" where
  "convert_float32_samples of_bytes bs samples p0 p1 channels = store_samples channels (\<lambda>j. of_bytes (take 4 (drop (4 * j) bs))) samples p0 p1"

definition convert_complex64_samples ::
  "(string \<Rightarrow> 'f) \<Rightarrow> string \<Rightarrow> nat \<Rightarrow> nat \<Rightarrow> nat \<Rightarrow> nat \<Rightarrow> 'f list \<times> 'f list \<Rightarrow> 'f list \<times> 'f list" where
  "convert_complex64_samples of_bytes bs samples p0 p1 channels = (\<lambda>(reals, imags).
     (store_samples channels (\<lambda>j. of_bytes (take 4 (drop (8 * j) bs))) samples p0 p1 reals,
      store_samples channels (\<lambda>j. of_bytes (take 4 (drop (8 * j + 4) bs))) samples p0 p1 imags))"

text \<open>The arrays as Matlab gets them: rows, columns and the values column by column.\<close>

datatype 'f mx = RealArray nat nat "'f list" | ComplexArray nat nat "'f list" "'f list"

definition read_and_convert_int16 :: "'f \<Rightarrow> (u16 \<Rightarrow> 'f) \<Rightarrow> nat \<Rightarrow> nat \<Rightarrow> 'f mx call" where
  "read_and_convert_int16 zero of_int16 samples channels =
     cbind (read_chunks (channels * 2) BUFFER_SIZE
        (\<lambda>n bs (k, arr). (k + n, convert_int16_samples of_int16 bs n k (samples + k) channels arr))
        samples (0, replicate (samples * channels) zero))
       (\<lambda>(k, arr). creturn (RealArray samples channels arr))"

definition read_and_convert_float32 :: "'f \<Rightarrow> (string \<Rightarrow> 'f) \<Rightarrow> nat \<Rightarrow> nat \<Rightarrow> 'f mx call" where
  "read_and_convert_float32 zero of_bytes samples channels =
     cbind (read_chunks (channels * 4) BUFFER_SIZE
        (\<lambda>n bs (k, arr). (k + n, convert_float32_samples of_bytes bs n k (samples + k) channels arr))
        samples (0, replicate (samples * channels) zero))
       (\<lambda>(k, arr). creturn (RealArray samples channels arr))"

definition read_and_convert_complex64 :: "'f \<Rightarrow> (string \<Rightarrow> 'f) \<Rightarrow> nat \<Rightarrow> nat \<Rightarrow> 'f mx call" where
  "read_and_convert_complex64 zero of_bytes samples channels =
     cbind (read_chunks (channels * 8) BUFFER_SIZE
        (\<lambda>n bs (k, arrs). (k + n, convert_complex64_samples of_bytes bs n k (samples + k) channels arrs))
        samples (0, replicate (samples * channels) zero, replicate (samples * channels) zero))
       (\<lambda>(k, reals, imags). creturn (ComplexArray samples channels reals imags))"

text \<open>The whole call, on a connection to the server.  \<open>get_frame\<close> reads the fields of the frame.\<close>

definition get_frame :: "string \<Rightarrow> nat \<times> nat \<times> nat" where
  "get_frame bs = (unat (get32 bs 0), unat (get16 bs 4), unat (get16 bs 6))"

definition read_reply :: "'f \<Rightarrow> (u16 \<Rightarrow> 'f) \<Rightarrow> (string \<Rightarrow> 'f) \<Rightarrow> 'f mx call" where
  "read_reply zero of_int16 of_bytes =
     cbind (fill_buffer 8 1 1) (\<lambda>(n, bs). let (samples, channels, fmt) = get_frame bs in
       if fmt = 0 then read_and_convert_int16 zero of_int16 samples channels
       else if fmt = 1 then read_and_convert_float32 zero of_bytes samples channels
       else if fmt = 2 then read_and_convert_complex64 zero of_bytes samples channels
       else cfail BadReply)"

definition mexFunction ::
  "'d arith \<Rightarrow> ('d \<Rightarrow> string) \<Rightarrow> 'f \<Rightarrow> (u16 \<Rightarrow> 'f) \<Rightarrow> (string \<Rightarrow> 'f) \<Rightarrow> 'd memory_request \<Rightarrow> 'f mx call" where
  "mexFunction A print_tune zero of_int16 of_bytes q =
     (if \<not> req_decimate q > 0 then cfail BadReply
      else if \<not> (sint (req_bunch q) < 0 \<or> is_zero A (req_tune q) \<and> req_decimate q = 1) then cfail BadReply
      else cbind (do_send_command A print_tune q) (\<lambda>_. read_reply zero of_int16 of_bytes))"

section \<open>Decoding\<close>

lemma get16_le16: "get16 (pre @ le16 w @ r) (length pre) = w"
proof -
  have m: "(0xFF :: u16) = mask 8" by (simp add: mask_eq_exp_minus_1)
  have "of_nat (unat (w AND 0xFF)) OR push_bit 8 (of_nat (unat (drop_bit 8 w))) = w" unfolding m
  proof (rule bit_word_eqI)
    fix n assume "n < LENGTH(16)"
    then show "bit (of_nat (unat (w AND mask 8)) OR push_bit 8 (of_nat (unat (drop_bit 8 w))) :: u16) n = bit w n"
      by (cases "8 \<le> n") (auto simp: bit_simps)
  qed
  moreover have "of_char (char_of (unat (w AND 0xFF))) = unat (w AND 0xFF)" "of_char (char_of (unat (drop_bit 8 w))) = unat (drop_bit 8 w)"
  proof -
    have "w AND 0xFF \<le> 0xFF" by (rule word_and_le1)
    then show "of_char (char_of (unat (w AND 0xFF))) = unat (w AND 0xFF)" by (simp add: word_le_nat_alt)
    have "unat w < 2 ^ 16" by (rule order_less_le_trans [OF unsigned_less]) simp
    then have "drop_bit 8 (unat w) < 2 ^ 8" by (simp add: drop_bit_eq_div less_mult_imp_div_less)
    then have "unat (drop_bit 8 w) < 2 ^ 8" by (simp only: unat_drop_bit_eq)
    then show "of_char (char_of (unat (drop_bit 8 w))) = unat (drop_bit 8 w)" by simp
  qed
  ultimately show ?thesis by (simp add: get16_def le16_def nth_append)
qed

lemma get32_le32: "get32 (pre @ le32 w @ r) (length pre) = w"
proof -
  have lo: "get16 (pre @ le32 w @ r) (length pre) = ucast w"
    using get16_le16 [of pre "ucast w" "le16 (ucast (drop_bit 16 w)) @ r"] by (simp add: le32_def)
  have hi: "get16 (pre @ le32 w @ r) (length pre + 2) = ucast (drop_bit 16 w)"
    using get16_le16 [of "pre @ le16 (ucast w)" "ucast (drop_bit 16 w)" r] by (simp add: le32_def) (simp add: le16_def)
  have "ucast (ucast w :: u16) OR push_bit 16 (ucast (ucast (drop_bit 16 w) :: u16)) = w"
  proof (rule bit_word_eqI)
    fix n assume "n < LENGTH(32)"
    then show "bit (ucast (ucast w :: u16) OR push_bit 16 (ucast (ucast (drop_bit 16 w) :: u16)) :: u32) n = bit w n"
      by (cases "16 \<le> n") (auto simp: bit_simps)
  qed
  then show ?thesis unfolding get32_def lo hi .
qed

lemma length_le16 [simp]: "length (le16 w) = 2" by (simp add: le16_def)
lemma length_le32 [simp]: "length (le32 w) = 4" by (simp add: le32_def)

text \<open>Items of a fixed width in a row.\<close>

lemma nth_items:
  assumes "\<And>x. x \<in> set xs \<Longrightarrow> length (enc x) = w" "j < length xs"
  shows "concat (map enc xs) = concat (map enc (take j xs)) @ enc (xs ! j) @ concat (map enc (drop (Suc j) xs))"
    and "length (concat (map enc (take j xs))) = w * j"
proof -
  show "concat (map enc xs) = concat (map enc (take j xs)) @ enc (xs ! j) @ concat (map enc (drop (Suc j) xs))"
    by (subst id_take_nth_drop [OF assms(2)]) simp
  have "length (concat (map enc ys)) = w * length ys" if "set ys \<subseteq> set xs" for ys
    using that assms(1) by (induction ys) auto
  from this [of "take j xs"] show "length (concat (map enc (take j xs))) = w * j" using assms(2) set_take_subset by fastforce
qed

section \<open>The transposition\<close>

text \<open>The first \<open>k\<close> samples of every channel are in their columns.\<close>

definition columns :: "nat \<Rightarrow> nat \<Rightarrow> (nat \<Rightarrow> 'x) \<Rightarrow> nat \<Rightarrow> 'x list \<Rightarrow> bool" where
  "columns samples channels val k arr \<longleftrightarrow> length arr = samples * channels \<and>
     (\<forall>ch < channels. \<forall>i < k. arr ! (ch * samples + i) = val (i * channels + ch))"

lemma store_samples_ok:
  assumes "channels = 1 \<or> channels = 2" "columns samples channels val k arr" "k + n \<le> samples"
    and "\<And>j. j < n * channels \<Longrightarrow> item j = val (k * channels + j)"
  shows "columns samples channels val (k + n) (store_samples channels item n k (samples + k) arr)"
  using assms(3,4)
proof (induction n)
  case 0
  then show ?case using assms(2) by (simp add: store_samples_def)
next
  case (Suc n)
  let ?a = "store_samples channels item n k (samples + k) arr"
  have ih: "columns samples channels val (k + n) ?a" using Suc by simp
  from assms(1) show ?case
  proof
    assume c: "channels = 1"
    have "item n = val (k + n)" using Suc.prems(2) [of n] c by simp
    then show ?thesis using ih c Suc.prems(1) by (auto simp: columns_def store_samples_def nth_list_update less_Suc_eq)
  next
    assume c: "channels = 2"
    have i: "item (n * 2) = val ((k + n) * 2)" "item (n * 2 + 1) = val ((k + n) * 2 + 1)"
      using Suc.prems(2) [of "n * 2"] Suc.prems(2) [of "n * 2 + 1"] c by (simp_all add: algebra_simps)
    have s: "store_samples channels item (Suc n) k (samples + k) arr =
        ?a[k + n := item (n * 2), samples + k + n := item (n * 2 + 1)]" using c by (simp add: store_samples_def)
    show ?thesis unfolding s columns_def
    proof (intro conjI allI impI)
      show "length (?a[k + n := item (n * 2), samples + k + n := item (n * 2 + 1)]) = samples * channels"
        using ih by (simp add: columns_def)
      fix ch i assume ch: "ch < channels" and "i < k + Suc n"
      then have "i < k + n \<or> i = k + n" by auto
      then show "?a[k + n := item (n * 2), samples + k + n := item (n * 2 + 1)] ! (ch * samples + i) = val (i * channels + ch)"
      proof
        assume i': "i < k + n"
        then have "?a ! (ch * samples + i) = val (i * channels + ch)" using ih ch by (simp add: columns_def)
        moreover have "ch * samples + i \<noteq> k + n" "ch * samples + i \<noteq> samples + k + n"
          using i' ch c Suc.prems(1) by (cases ch; simp; fail)+
        ultimately show ?thesis by simp
      next
        assume i': "i = k + n"
        have "ch = 0 \<or> ch = 1" using ch c by auto
        then show ?thesis using i' i c ih Suc.prems(1) by (auto simp: columns_def nth_list_update)
      qed
    qed
  qed
qed

section \<open>Reading the reply\<close>

text \<open>The three readers share their proof: items of \<open>w\<close> bytes, stored by a converter that reads them one by one.\<close>

lemma sub_item:
  assumes "j < n * channels" "(k + n) * channels * w \<le> length data"
  shows "take w (drop (w * j) (take (channels * w * n) (drop (channels * w * k) data))) = take w (drop (w * (k * channels + j)) data)"
proof -
  have "w * j + w \<le> channels * w * n"
  proof -
    have "w * Suc j \<le> w * (n * channels)" using assms(1) by (intro mult_le_mono2) simp
    then show ?thesis by (simp add: algebra_simps)
  qed
  then have "take w (drop (w * j) (take (channels * w * n) (drop (channels * w * k) data))) =
      take w (drop (w * j + channels * w * k) data)"
    by (simp add: drop_take min_def)
  then show ?thesis by (simp add: algebra_simps)
qed

lemma store_cong:
  assumes "channels = 1 \<or> channels = 2" "\<And>j. j < n * channels \<Longrightarrow> f j = g j"
  shows "store_samples channels f n p0 p1 arr = store_samples channels g n p0 p1 arr"
proof -
  have "f (i * 2) = g (i * 2) \<and> f (i * 2 + 1) = g (i * 2 + 1)" if "channels = 2" "i < n" for i
    using assms(2) [of "i * 2"] assms(2) [of "i * 2 + 1"] that by auto
  moreover have "f i = g i" if "channels = 1" "i < n" for i using assms(2) [of i] that by simp
  ultimately show ?thesis using assms(1) unfolding store_samples_def by (intro fold_cong) auto
qed

lemma get16_take: "2 * j + 2 \<le> length bs \<Longrightarrow> get16 bs (2 * j) = get16 (take 2 (drop (2 * j) bs)) 0"
  by (simp add: get16_def)

text \<open>One step of a loop that stores items of \<open>w\<close> bytes.\<close>

lemma columns_step:
  assumes "channels = 1 \<or> channels = 2" "columns samples channels (\<lambda>j. dec (take w (drop (w * j) data))) k arr" "k + n \<le> samples"
    and "samples * channels * w \<le> length data"
  shows "columns samples channels (\<lambda>j. dec (take w (drop (w * j) data))) (k + n)
    (store_samples channels (\<lambda>j. dec (take w (drop (w * j) (take (channels * w * n) (drop (channels * w * k) data))))) n k (samples + k) arr)"
proof (rule store_samples_ok [OF assms(1-3)])
  have len: "(k + n) * channels * w \<le> length data" using assms(3,4) by (meson le_trans mult_le_mono1)
  show "dec (take w (drop (w * j) (take (channels * w * n) (drop (channels * w * k) data)))) = dec (take w (drop (w * (k * channels + j)) data))"
    if "j < n * channels" for j by (simp only: sub_item [OF that len])
qed

lemma item_length:
  "j < n * channels \<Longrightarrow> w * j + w \<le> channels * w * n" for w :: nat
proof -
  assume "j < n * channels"
  then have "w * Suc j \<le> w * (n * channels)" by (intro mult_le_mono2) simp
  then show ?thesis by (simp add: algebra_simps)
qed

lemma columns_start: "columns samples channels val 0 (replicate (samples * channels) z)"
  by (simp add: columns_def)

lemma chunk_length:
  assumes "k + n \<le> samples" "samples * channels * w \<le> length data"
  shows "length (take (channels * w * n) (drop (channels * w * k) data)) = channels * w * n"
proof -
  have "channels * w * (k + n) \<le> channels * w * samples" using assms(1) by (rule mult_le_mono2)
  then have "channels * w * k + channels * w * n \<le> length data" using assms(2) by (simp add: algebra_simps)
  then show ?thesis by simp
qed

text \<open>A reader of one array, and one of two.\<close>

lemma one_array_ok:
  assumes ch: "channels = 1 \<or> channels = 2" and c: "ready c (channels * w * samples + m)" "samples * channels * w \<le> length (incoming c)"
    and store: "\<And>n bs k arr. length bs = channels * w * n \<Longrightarrow>
      store n bs (k, arr) = (k + n, store_samples channels (\<lambda>j. dec (take w (drop (w * j) bs))) n k (samples + k) arr)"
  shows "\<exists>arr c'. read_chunks (channels * w) BUFFER_SIZE store samples (0, replicate (samples * channels) zero) c = Some (Inr ((samples, arr), c')) \<and>
    columns samples channels (\<lambda>j. dec (take w (drop (w * j) (incoming c)))) samples arr \<and>
    incoming c' = drop (channels * w * samples) (incoming c) \<and> ready c' m"
proof -
  define data where "data = incoming c"
  let ?P = "\<lambda>k (k', arr). k' = k \<and> columns samples channels (\<lambda>j. dec (take w (drop (w * j) data))) k arr"
  have l: "samples * channels * w \<le> length data" using c(2) by (simp add: data_def)
  have step: "?P (k + n) (store n (take (channels * w * n) (drop (channels * w * k) data)) s)" if P: "?P k s" and k: "k + n \<le> samples" for k n s
    using P columns_step [OF ch _ k l] store [OF chunk_length [OF k l]] by (cases s) simp
  have "\<exists>s' c'. read_chunks (channels * w) BUFFER_SIZE store (samples - 0) (0, replicate (samples * channels) zero) c = Some (Inr (s', c')) \<and>
      ?P samples s' \<and> incoming c' = drop (channels * w * samples) data \<and> ready c' m"
    by (rule read_chunks_ok [where P = ?P and amount = samples and data = data, OF step])
      (use c(1) in \<open>simp_all add: BUFFER_SIZE_def columns_start data_def\<close>)
  then show ?thesis unfolding data_def by auto
qed

lemma two_arrays_ok:
  assumes ch: "channels = 1 \<or> channels = 2" and c: "ready c (channels * w * samples + m)" "samples * channels * w \<le> length (incoming c)"
    and store: "\<And>n bs k a b. length bs = channels * w * n \<Longrightarrow>
      store n bs (k, a, b) = (k + n, store_samples channels (\<lambda>j. re (take w (drop (w * j) bs))) n k (samples + k) a,
        store_samples channels (\<lambda>j. im (take w (drop (w * j) bs))) n k (samples + k) b)"
  shows "\<exists>a b c'. read_chunks (channels * w) BUFFER_SIZE store samples (0, replicate (samples * channels) zero, replicate (samples * channels) zero) c =
      Some (Inr ((samples, a, b), c')) \<and>
    columns samples channels (\<lambda>j. re (take w (drop (w * j) (incoming c)))) samples a \<and>
    columns samples channels (\<lambda>j. im (take w (drop (w * j) (incoming c)))) samples b \<and>
    incoming c' = drop (channels * w * samples) (incoming c) \<and> ready c' m"
proof -
  define data where "data = incoming c"
  let ?P = "\<lambda>k (k', a, b). k' = k \<and> columns samples channels (\<lambda>j. re (take w (drop (w * j) data))) k a \<and>
    columns samples channels (\<lambda>j. im (take w (drop (w * j) data))) k b"
  have l: "samples * channels * w \<le> length data" using c(2) by (simp add: data_def)
  have step: "?P (k + n) (store n (take (channels * w * n) (drop (channels * w * k) data)) s)" if P: "?P k s" and k: "k + n \<le> samples" for k n s
  proof -
    obtain a b where s: "s = (k, a, b)" "columns samples channels (\<lambda>j. re (take w (drop (w * j) data))) k a"
      "columns samples channels (\<lambda>j. im (take w (drop (w * j) data))) k b"
      using P by (cases s) auto
    show ?thesis unfolding s(1) store [OF chunk_length [OF k l]]
      using columns_step [where dec = re, OF ch s(2) k l] columns_step [where dec = im, OF ch s(3) k l] by simp
  qed
  have "\<exists>s' c'. read_chunks (channels * w) BUFFER_SIZE store (samples - 0) (0, replicate (samples * channels) zero, replicate (samples * channels) zero) c =
      Some (Inr (s', c')) \<and> ?P samples s' \<and> incoming c' = drop (channels * w * samples) data \<and> ready c' m"
    by (rule read_chunks_ok [where P = ?P and amount = samples and data = data, OF step])
      (use c(1) in \<open>simp_all add: BUFFER_SIZE_def columns_start data_def\<close>)
  then show ?thesis unfolding data_def by auto
qed

lemma read_int16_ok:
  assumes "channels = 1 \<or> channels = 2" "ready c (channels * 2 * samples + m)" "samples * channels * 2 \<le> length (incoming c)"
  shows "\<exists>arr c'. read_and_convert_int16 zero f samples channels c = Some (Inr (RealArray samples channels arr, c')) \<and>
    columns samples channels (\<lambda>j. f (get16 (take 2 (drop (2 * j) (incoming c))) 0)) samples arr \<and>
    incoming c' = drop (channels * 2 * samples) (incoming c) \<and> ready c' m"
proof -
  have "convert_int16_samples f bs n k (samples + k) channels arr =
      store_samples channels (\<lambda>j. f (get16 (take 2 (drop (2 * j) bs)) 0)) n k (samples + k) arr"
    if l: "length bs = channels * 2 * n" for bs n k arr
    unfolding convert_int16_samples_def
  proof (rule store_cong [OF assms(1)])
    fix j assume "j < n * channels"
    then have "2 * j + 2 \<le> length bs" unfolding l by (rule item_length)
    then show "f (get16 bs (2 * j)) = f (get16 (take 2 (drop (2 * j) bs)) 0)" by (simp only: get16_take)
  qed
  with one_array_ok [OF assms, where dec = "\<lambda>bs. f (get16 bs 0)" and zero = zero and
      store = "\<lambda>n bs (k, arr). (k + n, convert_int16_samples f bs n k (samples + k) channels arr)"]
  show ?thesis unfolding read_and_convert_int16_def by (auto simp: cbind_def creturn_def)
qed

lemma read_float32_ok:
  assumes "channels = 1 \<or> channels = 2" "ready c (channels * 4 * samples + m)" "samples * channels * 4 \<le> length (incoming c)"
  shows "\<exists>arr c'. read_and_convert_float32 zero f samples channels c = Some (Inr (RealArray samples channels arr, c')) \<and>
    columns samples channels (\<lambda>j. f (take 4 (drop (4 * j) (incoming c)))) samples arr \<and>
    incoming c' = drop (channels * 4 * samples) (incoming c) \<and> ready c' m"
  using one_array_ok [OF assms, where dec = f and zero = zero and
      store = "\<lambda>n bs (k, arr). (k + n, convert_float32_samples f bs n k (samples + k) channels arr)"]
  unfolding read_and_convert_float32_def by (auto simp: cbind_def creturn_def convert_float32_samples_def)

lemma read_complex64_ok:
  assumes "channels = 1 \<or> channels = 2" "ready c (channels * 8 * samples + m)" "samples * channels * 8 \<le> length (incoming c)"
  shows "\<exists>a b c'. read_and_convert_complex64 zero f samples channels c = Some (Inr (ComplexArray samples channels a b, c')) \<and>
    columns samples channels (\<lambda>j. f (take 4 (take 8 (drop (8 * j) (incoming c))))) samples a \<and>
    columns samples channels (\<lambda>j. f (drop 4 (take 8 (drop (8 * j) (incoming c))))) samples b \<and>
    incoming c' = drop (channels * 8 * samples) (incoming c) \<and> ready c' m"
proof -
  have "convert_complex64_samples f bs n k (samples + k) channels (a, b) =
      (store_samples channels (\<lambda>j. f (take 4 (take 8 (drop (8 * j) bs)))) n k (samples + k) a,
       store_samples channels (\<lambda>j. f (drop 4 (take 8 (drop (8 * j) bs)))) n k (samples + k) b)" for bs n k a b
    by (simp add: convert_complex64_samples_def drop_take add.commute)
  with two_arrays_ok [OF assms, where re = "\<lambda>bs. f (take 4 bs)" and im = "\<lambda>bs. f (drop 4 bs)" and zero = zero and
      store = "\<lambda>n bs (k, arrs). (k + n, convert_complex64_samples f bs n k (samples + k) channels arrs)"]
  show ?thesis unfolding read_and_convert_complex64_def by (auto simp: cbind_def creturn_def)
qed

end
