(* ===== verification/Matlab_Detector.thy ===== *)
theory Matlab_Detector
  imports Matlab_Memory Detector_Command
begin

unbundle bit_operations_syntax

text \<open>
  The Matlab client of the detector command (\<^verbatim>\<open>matlab/mex/mex_mbf_detector_.c\<close>): its command, and how it reads the frame, the
  results of the detectors, the frequencies and the times.  The arrays are those of \<open>Matlab_Memory\<close>.
\<close>

section \<open>The command\<close>

definition DETECTOR_BUFFER_SIZE :: nat where "DETECTOR_BUFFER_SIZE = 2 ^ 13"

record 'd detector_request =
  dreq_axis :: u32
  dreq_locking :: 'd
  dreq_results :: nat

definition detector_lock_text :: "'d arith \<Rightarrow> 'd \<Rightarrow> string" where
  "detector_lock_text A wait =
     (if d_leq A (d_int A 0) wait then ''L'' else []) @
     (if d_less A (d_int A 0) wait then ''W'' @ show_int (of_int (d_trunc A (d_mul A wait (d_int A 1000)))) else [])"

definition detector_text :: "'d arith \<Rightarrow> u32 \<Rightarrow> bool \<Rightarrow> 'd \<Rightarrow> string" where
  "detector_text A axis with_times wait =
     ''D'' @ show_uint axis @ ''FSL'' @ (if with_times then ''T'' else []) @ detector_lock_text A wait"

definition detector_send_command :: "'d arith \<Rightarrow> u32 \<Rightarrow> bool \<Rightarrow> 'd \<Rightarrow> unit call" where
  "detector_send_command A axis with_times wait =
     (if length (detector_text A axis with_times wait) < 64
      then cbind (send_command (detector_text A axis with_times wait)) (\<lambda>_. check_result) else cfail Overrun)"

section \<open>The reply\<close>

definition get64 :: "string \<Rightarrow> nat \<Rightarrow> u64" where
  "get64 bs i = ucast (get32 bs i) OR push_bit 32 (ucast (get32 bs (i + 4)))"

text \<open>The loop of \<^verbatim>\<open>convert_samples\<close>: the results of a sample go to one position for each channel, and all positions advance.\<close>

definition store_columns :: "nat \<Rightarrow> (nat \<Rightarrow> 'x) \<Rightarrow> nat \<Rightarrow> (nat \<Rightarrow> nat) \<Rightarrow> 'x list \<Rightarrow> 'x list" where
  "store_columns channels item rows p arr =
     fold (\<lambda>i arr. fold (\<lambda>j arr. arr[p j + i := item (i * channels + j)]) [0..<channels] arr) [0..<rows] arr"

definition convert_samples :: "'d arith \<Rightarrow> string \<Rightarrow> nat \<Rightarrow> nat \<Rightarrow> (nat \<Rightarrow> nat) \<Rightarrow> 'd list \<times> 'd list \<Rightarrow> 'd list \<times> 'd list" where
  "convert_samples A bs rows channels p = (\<lambda>(reals, imags).
     (store_columns channels (\<lambda>k. d_ldexp A (d_int A (sint (get32 bs (8 * k)))) (- 31)) rows p reals,
      store_columns channels (\<lambda>k. d_neg A (d_ldexp A (d_int A (sint (get32 bs (8 * k + 4)))) (- 31))) rows p imags))"

text \<open>There are positions for four channels.\<close>

definition read_and_convert_samples :: "'d arith \<Rightarrow> nat \<Rightarrow> nat \<Rightarrow> 'd mx call" where
  "read_and_convert_samples A rows channels =
     (if channels > 4 then cfail Overrun
      else cbind (read_chunks (8 * channels) DETECTOR_BUFFER_SIZE
          (\<lambda>n bs (k, arrs). (k + n, convert_samples A bs n channels (\<lambda>j. j * rows + k) arrs))
          rows (0, replicate (rows * channels) (d_int A 0), replicate (rows * channels) (d_int A 0)))
        (\<lambda>(k, reals, imags). creturn (ComplexArray rows channels reals imags)))"

definition read_and_convert_frequency :: "'d arith \<Rightarrow> nat \<Rightarrow> u32 \<Rightarrow> 'd mx call" where
  "read_and_convert_frequency A rows bunches =
     cbind (read_chunks 8 DETECTOR_BUFFER_SIZE
         (\<lambda>n bs (k, arr). (k + n, store_columns 1 (\<lambda>i. d_mul A (d_ldexp A (d_int A (uint (get64 bs (8 * i)))) (- 48)) (d_int A (uint bunches))) n (\<lambda>_. k) arr))
         rows (0, replicate rows (d_int A 0)))
       (\<lambda>(k, arr). creturn (RealArray rows 1 arr))"

definition read_and_convert_timebase :: "'d arith \<Rightarrow> nat \<Rightarrow> 'd mx call" where
  "read_and_convert_timebase A rows =
     cbind (read_chunks 4 DETECTOR_BUFFER_SIZE
         (\<lambda>n bs (k, arr). (k + n, store_columns 1 (\<lambda>i. d_int A (uint (get32 bs (4 * i)))) n (\<lambda>_. k) arr))
         rows (0, replicate rows (d_int A 0)))
       (\<lambda>(k, arr). creturn (RealArray rows 1 arr))"

definition send_group_delay :: "'d arith \<Rightarrow> u32 \<Rightarrow> u16 \<Rightarrow> 'd mx" where
  "send_group_delay A bunches delay =
     RealArray 1 1 [d_div A (d_mul A (d_mul A (d_int A 2) (d_pi A)) (d_int A (uint delay))) (d_int A (uint bunches))]"

text \<open>The fields of the frame: the number of detectors, the delay, the number of samples and of bunches.\<close>

definition get_detector_frame :: "string \<Rightarrow> nat \<times> u16 \<times> nat \<times> u32" where
  "get_detector_frame bs = (of_char (bs ! 0), get16 bs 2, unat (get32 bs 4), get32 bs 8)"

definition detector_read_reply :: "'d arith \<Rightarrow> nat \<Rightarrow> 'd mx list call" where
  "detector_read_reply A results =
     cbind (fill_buffer 12 1 1) (\<lambda>(n, bs). let (count, delay, rows, bunches) = get_detector_frame bs in
       cbind (read_and_convert_samples A rows count) (\<lambda>d.
       cbind (if results \<ge> 2 then cbind (read_and_convert_frequency A rows bunches) (\<lambda>x. creturn [x]) else creturn []) (\<lambda>s.
       cbind (if results \<ge> 4 then cbind (read_and_convert_timebase A rows) (\<lambda>x. creturn [x]) else creturn []) (\<lambda>t.
         creturn ([d] @ s @ (if results \<ge> 3 then [send_group_delay A bunches delay] else []) @ t)))))"

definition detector_mexFunction :: "'d arith \<Rightarrow> 'd detector_request \<Rightarrow> 'd mx list call" where
  "detector_mexFunction A q =
     (if \<not> dreq_results q \<ge> 3 then cfail BadReply
      else if \<not> dreq_results q \<le> 4 then cfail BadReply
      else cbind (detector_send_command A (dreq_axis q) (dreq_results q > 3) (dreq_locking q)) (\<lambda>_. detector_read_reply A (dreq_results q)))"

section \<open>Decoding\<close>

lemma get64_le64: "get64 (pre @ le64 w @ r) (length pre) = w"
proof -
  have lo: "get32 (pre @ le64 w @ r) (length pre) = ucast w"
    using get32_le32 [of pre "ucast w" "le32 (ucast (drop_bit 32 w)) @ r"] by (simp add: le64_def)
  have hi: "get32 (pre @ le64 w @ r) (length pre + 4) = ucast (drop_bit 32 w)"
    using get32_le32 [of "pre @ le32 (ucast w)" "ucast (drop_bit 32 w)" r] by (simp add: le64_def)
  have "ucast (ucast w :: u32) OR push_bit 32 (ucast (ucast (drop_bit 32 w) :: u32)) = w"
  proof (rule bit_word_eqI)
    fix n assume "n < LENGTH(64)"
    then show "bit (ucast (ucast w :: u32) OR push_bit 32 (ucast (ucast (drop_bit 32 w) :: u32)) :: u64) n = bit w n"
      by (cases "32 \<le> n") (auto simp: bit_simps)
  qed
  then show ?thesis unfolding get64_def lo hi .
qed

lemma length_le64 [simp]: "length (le64 w) = 8" by (simp add: le64_def)
lemma length_le8 [simp]: "length (le8 w) = 1" by (simp add: le8_def)

section \<open>The transposition\<close>

lemma fold_updates:
  "(\<And>j. j < m \<Longrightarrow> p j < length arr) \<Longrightarrow> inj_on p {..<m} \<Longrightarrow>
     length (fold (\<lambda>j arr. arr[p j := f j]) [0..<m] arr) = length arr \<and>
     (\<forall>j < m. fold (\<lambda>j arr. arr[p j := f j]) [0..<m] arr ! p j = f j) \<and>
     (\<forall>x. x \<notin> p ` {..<m} \<longrightarrow> fold (\<lambda>j arr. arr[p j := f j]) [0..<m] arr ! x = arr ! x)"
proof (induction m)
  case (Suc m)
  let ?a = "fold (\<lambda>j arr. arr[p j := f j]) [0..<m] arr"
  have ih: "length ?a = length arr" "\<forall>j < m. ?a ! p j = f j" "\<forall>x. x \<notin> p ` {..<m} \<longrightarrow> ?a ! x = arr ! x"
    using Suc by (auto simp: inj_on_def)
  have ne: "p j \<noteq> p m \<and> p m \<noteq> p j" if "j < m" for j using Suc.prems(2) that by (force simp: inj_on_def)
  have "p m < length arr" using Suc.prems(1) by simp
  with ih show ?case by (auto simp: nth_list_update less_Suc_eq lessThan_Suc dest: ne)
qed simp

lemma store_columns_ok:
  assumes "columns rows channels val k arr" "k + n \<le> rows"
    and "\<And>j. j < n * channels \<Longrightarrow> item j = val (k * channels + j)"
  shows "columns rows channels val (k + n) (store_columns channels item n (\<lambda>j. j * rows + k) arr)"
  using assms(2,3)
proof (induction n)
  case 0
  then show ?case using assms(1) by (simp add: store_columns_def)
next
  case (Suc n)
  let ?a = "store_columns channels item n (\<lambda>j. j * rows + k) arr"
  let ?p = "\<lambda>j. j * rows + k + n"
  have ih: "columns rows channels val (k + n) ?a" using Suc by simp
  then have len: "length ?a = rows * channels" by (simp add: columns_def)
  have pos: "0 < rows" using Suc.prems(1) by simp
  have p: "?p j < length ?a" if "j < channels" for j
  proof -
    have "Suc j * rows \<le> channels * rows" using that by (intro mult_le_mono1) simp
    then show ?thesis using Suc.prems(1) by (simp add: len mult.commute)
  qed
  have inj: "inj_on ?p {..<channels}" using pos by (auto simp: inj_on_def)
  have upd: "store_columns channels item (Suc n) (\<lambda>j. j * rows + k) arr = fold (\<lambda>j arr. arr[?p j := item (n * channels + j)]) [0..<channels] ?a"
    by (simp add: store_columns_def)
  note u = fold_updates [of channels ?p ?a "\<lambda>j. item (n * channels + j)", OF p inj, folded upd]
  show ?case unfolding columns_def
  proof (intro conjI allI impI)
    show "length (store_columns channels item (Suc n) (\<lambda>j. j * rows + k) arr) = rows * channels" using u len by simp
    fix ch i assume ch: "ch < channels" and i: "i < k + Suc n"
    show "store_columns channels item (Suc n) (\<lambda>j. j * rows + k) arr ! (ch * rows + i) = val (i * channels + ch)"
    proof (cases "i = k + n")
      case True
      have "n * channels + ch < Suc n * channels" using ch by simp
      from Suc.prems(2) [OF this] u ch True show ?thesis by (simp add: algebra_simps)
    next
      case False
      then have "i < k + n" using i by simp
      have "ch * rows + i \<noteq> ?p j" for j
      proof
        assume e: "ch * rows + i = ?p j"
        have "i mod rows = (k + n) mod rows" using arg_cong [OF e, of "\<lambda>x. x mod rows"] by (simp add: add.assoc)
        then show False using \<open>i < k + n\<close> Suc.prems(1) by simp
      qed
      then have "ch * rows + i \<notin> ?p ` {..<channels}" by blast
      then show ?thesis using u ih ch \<open>i < k + n\<close> by (simp add: columns_def)
    qed
  qed
qed

lemma columns_stored:
  assumes "columns rows channels (\<lambda>j. dec (take w (drop (w * j) data))) k arr" "k + n \<le> rows"
    and "rows * channels * w \<le> length data"
  shows "columns rows channels (\<lambda>j. dec (take w (drop (w * j) data))) (k + n)
    (store_columns channels (\<lambda>j. dec (take w (drop (w * j) (take (channels * w * n) (drop (channels * w * k) data))))) n (\<lambda>j. j * rows + k) arr)"
proof (rule store_columns_ok [OF assms(1,2)])
  have len: "(k + n) * channels * w \<le> length data" using assms(2,3) by (meson le_trans mult_le_mono1)
  show "dec (take w (drop (w * j) (take (channels * w * n) (drop (channels * w * k) data)))) = dec (take w (drop (w * (k * channels + j)) data))"
    if "j < n * channels" for j by (simp only: sub_item [OF that len])
qed

section \<open>Reading the reply\<close>

lemma get16_part: "j + 2 \<le> n \<Longrightarrow> i + n \<le> length bs \<Longrightarrow> get16 (take n (drop i bs)) j = get16 bs (i + j)"
  by (simp add: get16_def)

lemma get32_part: "j + 4 \<le> n \<Longrightarrow> i + n \<le> length bs \<Longrightarrow> get32 (take n (drop i bs)) j = get32 bs (i + j)"
  by (simp add: get32_def get16_part add.assoc)

lemma get64_part: "j + 8 \<le> n \<Longrightarrow> i + n \<le> length bs \<Longrightarrow> get64 (take n (drop i bs)) j = get64 bs (i + j)"
  by (simp add: get64_def get32_part add.assoc)

text \<open>The two halves of a result.\<close>

definition result_i :: "'d arith \<Rightarrow> string \<Rightarrow> 'd" where
  "result_i A bs = d_ldexp A (d_int A (sint (get32 bs 0))) (- 31)"

definition result_q :: "'d arith \<Rightarrow> string \<Rightarrow> 'd" where
  "result_q A bs = d_neg A (d_ldexp A (d_int A (sint (get32 bs 4))) (- 31))"

lemma store_columns_cong:
  assumes "\<And>j. j < n * channels \<Longrightarrow> f j = g j"
  shows "store_columns channels f n p arr = store_columns channels g n p arr"
  unfolding store_columns_def
proof (intro fold_cong ext refl)
  fix i j :: nat and arr :: "'a list" assume "i \<in> set [0..<n]" "j \<in> set [0..<channels]"
  then have "Suc i \<le> n" "j < channels" by auto
  from mult_le_mono1 [OF this(1), of channels] this(2)
  have "i * channels + j < n * channels" by simp
  then show "arr[p j + i := f (i * channels + j)] = arr[p j + i := g (i * channels + j)]" by (simp add: assms)
qed

lemma read_samples_ok:
  assumes "channels \<le> 4" "ready c (channels * 8 * rows + m)" "rows * channels * 8 \<le> length (incoming c)"
  shows "\<exists>a b c'. read_and_convert_samples A rows channels c = Some (Inr (ComplexArray rows channels a b, c')) \<and>
    columns rows channels (\<lambda>j. result_i A (take 8 (drop (8 * j) (incoming c)))) rows a \<and>
    columns rows channels (\<lambda>j. result_q A (take 8 (drop (8 * j) (incoming c)))) rows b \<and>
    incoming c' = drop (channels * 8 * rows) (incoming c) \<and> ready c' m"
proof -
  define data where "data = incoming c"
  let ?I = "\<lambda>j. result_i A (take 8 (drop (8 * j) data))" and ?Q = "\<lambda>j. result_q A (take 8 (drop (8 * j) data))"
  let ?P = "\<lambda>k (k', a, b). k' = k \<and> columns rows channels ?I k a \<and> columns rows channels ?Q k b"
  let ?store = "\<lambda>n bs (k, arrs). (k + n, convert_samples A bs n channels (\<lambda>j. j * rows + k) arrs)"
  have l: "rows * channels * 8 \<le> length data" using assms(3) by (simp add: data_def)
  have step: "?P (k + n) (?store n (take (channels * 8 * n) (drop (channels * 8 * k) data)) s)" if P: "?P k s" and k: "k + n \<le> rows" for k n s
  proof -
    obtain a b where s: "s = (k, a, b)" "columns rows channels ?I k a" "columns rows channels ?Q k b" using P by (cases s) auto
    let ?bs = "take (channels * 8 * n) (drop (channels * 8 * k) data)"
    have len: "8 * j + 8 \<le> length ?bs" if "j < n * channels" for j
      unfolding chunk_length [OF k l] using item_length [OF that, of 8] .
    have i: "store_columns channels (\<lambda>j. d_ldexp A (d_int A (sint (get32 ?bs (8 * j)))) (- 31)) n p x =
        store_columns channels (\<lambda>j. result_i A (take 8 (drop (8 * j) ?bs))) n p x" for p x
      by (rule store_columns_cong) (simp add: result_i_def get32_part [OF _ len])
    have q: "store_columns channels (\<lambda>j. d_neg A (d_ldexp A (d_int A (sint (get32 ?bs (8 * j + 4)))) (- 31))) n p x =
        store_columns channels (\<lambda>j. result_q A (take 8 (drop (8 * j) ?bs))) n p x" for p x
      by (rule store_columns_cong) (simp add: result_q_def get32_part [OF _ len])
    show ?thesis unfolding s(1) convert_samples_def prod.case i q
      using columns_stored [where dec = "result_i A", OF s(2) k l] columns_stored [where dec = "result_q A", OF s(3) k l] by simp
  qed
  have "\<exists>s' c'. read_chunks (channels * 8) DETECTOR_BUFFER_SIZE ?store (rows - 0)
        (0, replicate (rows * channels) (d_int A 0), replicate (rows * channels) (d_int A 0)) c = Some (Inr (s', c')) \<and>
      ?P rows s' \<and> incoming c' = drop (channels * 8 * rows) data \<and> ready c' m"
    by (rule read_chunks_ok [where P = ?P and amount = rows and data = data, OF step])
      (use assms(2) in \<open>simp_all add: DETECTOR_BUFFER_SIZE_def columns_start data_def\<close>)
  then show ?thesis using assms(1) unfolding data_def read_and_convert_samples_def mult.commute [of 8 channels]
    by (auto simp: cbind_def creturn_def)
qed

text \<open>The arrays with one column.\<close>

lemma one_column_ok:
  assumes c: "ready c (w * rows + m)" "w * rows \<le> length (incoming c)"
    and store: "\<And>n bs k arr. length bs = w * n \<Longrightarrow>
      store n bs (k, arr) = (k + n, store_columns 1 (\<lambda>j. dec (take w (drop (w * j) bs))) n (\<lambda>_. k) arr)"
  shows "\<exists>arr c'. read_chunks w DETECTOR_BUFFER_SIZE store rows (0, replicate rows zero) c = Some (Inr ((rows, arr), c')) \<and>
    length arr = rows \<and> (\<forall>i < rows. arr ! i = dec (take w (drop (w * i) (incoming c)))) \<and>
    incoming c' = drop (w * rows) (incoming c) \<and> ready c' m"
proof -
  define data where "data = incoming c"
  let ?P = "\<lambda>k (k', arr). k' = k \<and> columns rows 1 (\<lambda>j. dec (take w (drop (w * j) data))) k arr"
  have l: "rows * 1 * w \<le> length data" using c(2) by (simp add: data_def mult.commute)
  have one: "store_columns 1 f n (\<lambda>j. j * rows + k) arr = store_columns 1 f n (\<lambda>_. k) arr" for f n k arr
    by (simp add: store_columns_def)
  have step: "?P (k + n) (store n (take (w * n) (drop (w * k) data)) s)" if P: "?P k s" and k: "k + n \<le> rows" for k n s
  proof -
    obtain arr where s: "s = (k, arr)" "columns rows 1 (\<lambda>j. dec (take w (drop (w * j) data))) k arr" using P by (cases s) auto
    have len: "length (take (w * n) (drop (w * k) data)) = w * n" using chunk_length [OF k l] by simp
    show ?thesis unfolding s(1) store [OF len] using columns_stored [OF s(2) k l] unfolding one by simp
  qed
  have "\<exists>s' c'. read_chunks w DETECTOR_BUFFER_SIZE store (rows - 0) (0, replicate rows zero) c = Some (Inr (s', c')) \<and>
      ?P rows s' \<and> incoming c' = drop (w * rows) data \<and> ready c' m"
    by (rule read_chunks_ok [where P = ?P and amount = rows and data = data, OF step])
      (use c(1) columns_start [of rows 1] in \<open>simp_all add: DETECTOR_BUFFER_SIZE_def data_def\<close>)
  then show ?thesis unfolding data_def by (auto simp: columns_def)
qed

lemma read_frequency_ok:
  assumes "ready c (8 * rows + m)" "8 * rows \<le> length (incoming c)"
  shows "\<exists>arr c'. read_and_convert_frequency A rows bunches c = Some (Inr (RealArray rows 1 arr, c')) \<and> length arr = rows \<and>
    (\<forall>i < rows. arr ! i = d_mul A (d_ldexp A (d_int A (uint (get64 (take 8 (drop (8 * i) (incoming c))) 0))) (- 48)) (d_int A (uint bunches))) \<and>
    incoming c' = drop (8 * rows) (incoming c) \<and> ready c' m"
proof -
  let ?f = "\<lambda>v. d_mul A (d_ldexp A (d_int A (uint (v :: u64))) (- 48)) (d_int A (uint bunches))"
  let ?store = "\<lambda>n bs (k, arr). (k + n, store_columns 1 (\<lambda>i. ?f (get64 bs (8 * i))) n (\<lambda>_. k) arr)"
  have "?store n bs (k, arr) = (k + n, store_columns 1 (\<lambda>j. ?f (get64 (take 8 (drop (8 * j) bs)) 0)) n (\<lambda>_. k) arr)"
    if "length bs = 8 * n" for n bs k arr
    unfolding prod.case by (rule arg_cong [of _ _ "Pair (k + n)"], rule store_columns_cong) (use that in \<open>simp add: get64_part\<close>)
  from one_column_ok [OF assms, where dec = "\<lambda>bs. ?f (get64 bs 0)" and zero = "d_int A 0" and store = ?store, OF this] obtain arr c' where
    r: "read_chunks 8 DETECTOR_BUFFER_SIZE ?store rows (0, replicate rows (d_int A 0)) c = Some (Inr ((rows, arr), c'))"
      "length arr = rows" "\<forall>i < rows. arr ! i = ?f (get64 (take 8 (drop (8 * i) (incoming c))) 0)"
      "incoming c' = drop (8 * rows) (incoming c)" "ready c' m" by blast
  have "read_and_convert_frequency A rows bunches c = Some (Inr (RealArray rows 1 arr, c'))"
    unfolding read_and_convert_frequency_def cbind_def r(1) by (simp add: creturn_def)
  then show ?thesis using r(2-5) by blast
qed

lemma read_timebase_ok:
  assumes "ready c (4 * rows + m)" "4 * rows \<le> length (incoming c)"
  shows "\<exists>arr c'. read_and_convert_timebase A rows c = Some (Inr (RealArray rows 1 arr, c')) \<and> length arr = rows \<and>
    (\<forall>i < rows. arr ! i = d_int A (uint (get32 (take 4 (drop (4 * i) (incoming c))) 0))) \<and>
    incoming c' = drop (4 * rows) (incoming c) \<and> ready c' m"
proof -
  let ?f = "\<lambda>v. d_int A (uint (v :: u32))"
  let ?store = "\<lambda>n bs (k, arr). (k + n, store_columns 1 (\<lambda>i. ?f (get32 bs (4 * i))) n (\<lambda>_. k) arr)"
  have "?store n bs (k, arr) = (k + n, store_columns 1 (\<lambda>j. ?f (get32 (take 4 (drop (4 * j) bs)) 0)) n (\<lambda>_. k) arr)"
    if "length bs = 4 * n" for n bs k arr
    unfolding prod.case by (rule arg_cong [of _ _ "Pair (k + n)"], rule store_columns_cong) (use that in \<open>simp add: get32_part\<close>)
  from one_column_ok [OF assms, where dec = "\<lambda>bs. ?f (get32 bs 0)" and zero = "d_int A 0" and store = ?store, OF this] obtain arr c' where
    r: "read_chunks 4 DETECTOR_BUFFER_SIZE ?store rows (0, replicate rows (d_int A 0)) c = Some (Inr ((rows, arr), c'))"
      "length arr = rows" "\<forall>i < rows. arr ! i = ?f (get32 (take 4 (drop (4 * i) (incoming c))) 0)"
      "incoming c' = drop (4 * rows) (incoming c)" "ready c' m" by blast
  have "read_and_convert_timebase A rows c = Some (Inr (RealArray rows 1 arr, c'))"
    unfolding read_and_convert_timebase_def cbind_def r(1) by (simp add: creturn_def)
  then show ?thesis using r(2-5) by blast
qed

end
