(* ===== verification/Socket_Server.thy ===== *)
theory Socket_Server
  imports Detector_Command
begin

text \<open>
  The connections of the data server (\<^verbatim>\<open>epics/src/socket_server.c\<close>): the loop that reads the commands of a client, dispatches
  them and reports their errors, and the threads that accept connections until they are stopped.
\<close>

section \<open>A command\<close>

text \<open>What the commands depend on.  The memory, the captures and what other threads do change between commands: the last
  argument of these is the number of the command.\<close>

record ('d, 'f, 'c, 'e) server =
  srv_dram :: "u64 \<Rightarrow> nat \<Rightarrow> u32 list"
  srv_floats :: "('f, 'c) float_ops"
  srv_tune :: "'d \<Rightarrow> u64"
  srv_strtod :: "string \<Rightarrow> 'd \<times> bool \<times> string"
  srv_bunches :: u32
  srv_lmbf :: bool
  srv_memory :: "nat \<Rightarrow> memory_state"
  srv_detectors :: "nat \<Rightarrow> nat \<Rightarrow> nat \<Rightarrow> u32 \<Rightarrow> detector_result list"
  srv_config :: "nat \<Rightarrow> nat \<Rightarrow> sequencer_config"
  srv_info :: "nat \<Rightarrow> nat \<Rightarrow> detector_info"
  srv_env :: "nat \<Rightarrow> 'e command_env"

datatype 'e server_error = MissingCommand | UnknownCommand char | CommandError "'e command_error"

text \<open>A line can have a null in it, where it ends for the parsers.\<close>

definition c_string :: "string \<Rightarrow> string" where
  "c_string line = takeWhile (\<lambda>c. c \<noteq> CHR 0x00) line"

definition dispatch_command ::
  "('d, 'f, 'c, 'e) server \<Rightarrow> nat \<Rightarrow> string \<Rightarrow> buffered_file \<Rightarrow> tt_world \<Rightarrow> ('e server_error option \<times> bool \<times> buffered_file \<times> tt_world) option" where
  "dispatch_command s k line f w =
     (let (raw_mode, command) = read_char (CHR ''R'') (c_string line);
          result = map_option (\<lambda>(e, f, w). (map_option CommandError e, raw_mode, f, w))
      in case command of
           [] \<Rightarrow> Some (Some MissingCommand, raw_mode, f, w)
         | c # rest \<Rightarrow>
             if c = CHR ''M'' then
               result (process_memory_command (srv_dram s) (srv_floats s) (srv_tune s) (srv_strtod s) (srv_bunches s) (srv_env s k)
                 (srv_memory s k) raw_mode rest f w)
             else if c = CHR ''D'' then
               result (process_detector_command (srv_detectors s k) (srv_config s k) (srv_info s k) (srv_bunches s) (srv_lmbf s)
                 (srv_env s k) raw_mode rest f w)
             else Some (Some (UnknownCommand c), raw_mode, f, w))"

text \<open>\<open>error_format\<close> is the library's text of an error.\<close>

definition report_error :: "('e server_error \<Rightarrow> string) \<Rightarrow> 'e server_error \<Rightarrow> bool \<Rightarrow> buffered_file \<Rightarrow> buffered_file" where
  "report_error error_format e raw_mode f =
     (if \<not> raw_mode then snd (write_formatted_string (error_format e @ [CHR 10]) f) else f)"

section \<open>A connection\<close>

definition create_connection :: "string option list \<Rightarrow> nat option list \<Rightarrow> buffered_file" where
  "create_connection rs ws = create_buffered_file 4096 4096 rs ws"

text \<open>The result is the error of the file, if any, and the file; after this the socket is closed.\<close>

definition delete_connection :: "buffered_file \<Rightarrow> file_error option \<times> buffered_file" where
  "delete_connection f = destroy_buffered_file f"

text \<open>\<open>None\<close> when a command does not return.\<close>

partial_function (option) serve_commands ::
  "('d, 'f, 'c, 'e) server \<Rightarrow> ('e server_error \<Rightarrow> string) \<Rightarrow> nat \<Rightarrow> buffered_file \<Rightarrow> tt_world \<Rightarrow> (buffered_file \<times> tt_world) option" where
  "serve_commands s error_format k f w =
     (case read_line 256 True [] f of
        (None, f) \<Rightarrow> Some (f, w)
      | (Some line, f) \<Rightarrow>
          (case dispatch_command s k line f w of
             None \<Rightarrow> None
           | Some r \<Rightarrow> (case r of (error, raw_mode, f, w) \<Rightarrow>
               (case error of
                  None \<Rightarrow> serve_commands s error_format (k + 1) f w
                | Some e \<Rightarrow>
                    if raw_mode then Some (report_error error_format e raw_mode f, w)
                    else serve_commands s error_format (k + 1) (report_error error_format e raw_mode f) w))))"

definition process_connection ::
  "('d, 'f, 'c, 'e) server \<Rightarrow> ('e server_error \<Rightarrow> string) \<Rightarrow> buffered_file \<Rightarrow> tt_world \<Rightarrow>
   (file_error option \<times> buffered_file \<times> tt_world) option" where
  "process_connection s error_format f w =
     map_option (\<lambda>(f, w). let (error, f) = delete_connection f in (error, f, w)) (serve_commands s error_format 0 f w)"

section \<open>Commands leave the input alone\<close>

definition same_input :: "buffered_file \<Rightarrow> buffered_file \<Rightarrow> bool" where
  "same_input f g \<longleftrightarrow> eof g = eof f \<and> in_data g = in_data f \<and> read_ptr g = read_ptr f \<and> in_buf_size g = in_buf_size f \<and>
     reads g = reads f \<and> out_buf_size g = out_buf_size f"

lemma same_input_refl [simp]: "same_input f f" by (simp add: same_input_def)

lemma same_input_trans: "same_input f g \<Longrightarrow> same_input g h \<Longrightarrow> same_input f h" by (simp add: same_input_def)

lemma same_put_block: "same_input f (put_block b f)"
  by (simp add: same_input_def put_block_def write_block_def Let_def)

lemma same_write_char: "same_input f (snd (write_char c f))"
  by (simp add: same_input_def write_char_def Let_def)

lemma same_formatted: "same_input f (snd (write_formatted_string t f))"
  by (auto simp: same_input_def write_formatted_string_def Let_def flush_out_buf_def split: bool.splits)

lemmas same_fields = same_put_block [unfolded same_input_def] same_write_char [unfolded same_input_def]

text \<open>A loop over chunks keeps what its body keeps.\<close>

lemma send_chunks_keeps:
  assumes body: "\<And>start w s s'. body start w s = Some s' \<Longrightarrow> Q s \<Longrightarrow> Q s'" and "send_chunks m body start n s = Some s'" "Q s"
  shows "Q s'"
proof -
  have "send_chunks m b start n s = Some s' \<Longrightarrow> b = body \<longrightarrow> Q s \<longrightarrow> Q s'" for m b start n s s'
  proof (induction m b start n s s' rule: send_chunks.raw_induct [rotated, consumes 1])
    case (1 send m b start n s s')
    show ?case
    proof (cases "n > 0")
      case True
      then obtain s1 where "b start (min n m) s = Some s1" and r: "send m b (start + min n m) (n - min n m) s1 = Some s'"
        using 1(2) by (auto simp: Let_def split: option.splits)
      then show ?thesis using 1(1) [OF r] body by blast
    qed (use 1(2) in simp)
  qed
  then show ?thesis using assms by blast
qed

lemma same_chunks:
  assumes "\<And>start w f f'. body start w f = Some f' \<Longrightarrow> same_input f f'" "send_chunks m body start n f = Some f'"
  shows "same_input f f'"
  using send_chunks_keeps [of body "same_input f", OF _ assms(2)] assms(1) same_input_trans by (metis same_input_refl)

lemma same_send_memory: "send_memory_data read_dram fo freq bpt sz a c m f = Some f' \<Longrightarrow> same_input f f'"
proof -
  assume "send_memory_data read_dram fo freq bpt sz a c m f = Some f'"
  then obtain st where s: "send_chunks sz (send_memory_block read_dram fo bpt a c (compute_dram_offset bpt (margs_offset a) m)) 0
      (unat (margs_count a * bpt * decimation a)) (prepare_tune_decimate fo bpt freq (decimation a) c, f) = Some (st, f')"
    by (auto simp: send_memory_data_def Let_def)
  have block: "same_input (snd s) (snd s')" if "send_memory_block read_dram fo bpt a c off start w s = Some s'" for off start w s s'
  proof -
    have int16: "send_int16_memory_data c buf n g = Some g' \<Longrightarrow> same_input g g'" for buf n g g'
      unfolding send_int16_memory_data_def by (rule same_chunks [rotated]) (auto simp: same_put_block)
    have bunch: "send_bunch_memory_data b c k buf n g = Some g' \<Longrightarrow> same_input g g'" for b k buf n g g'
      unfolding send_bunch_memory_data_def by (rule same_chunks [rotated]) (auto simp: same_put_block)
    have float: "send_float32_memory_data fo b c d buf n g = Some g' \<Longrightarrow> same_input g g'" for b d buf n g g'
      unfolding send_float32_memory_data_def Let_def by (rule same_chunks [rotated]) (auto simp: same_put_block)
    have complex: "same_input (snd g) (snd g')" if "send_complex64_memory_data fo b c buf n g = Some g'" for b buf n g g'
      by (rule send_chunks_keeps [where Q = "\<lambda>h. same_input (snd g) (snd h)", OF _ that [unfolded send_complex64_memory_data_def Let_def]])
        (auto simp: split_beta intro: same_input_trans same_put_block)
    show ?thesis using that int16 bunch float complex
      by (auto simp: send_memory_block_def Let_def split: if_splits memory_data_format.splits)
  qed
  have "same_input f (snd (st, f'))"
    by (rule send_chunks_keeps [where Q = "\<lambda>h. same_input f (snd h)", OF _ s]) (auto intro: same_input_trans dest!: block)
  then show ?thesis by simp
qed

lemma same_memory_command:
  assumes "process_memory_command read_dram fo ttf strtod bpt env m raw_mode command f w = Some (e, f', w')"
  shows "same_input f f'"
  using assms
  by (auto simp: process_memory_command_def send_memory_reply_def Let_def same_input_def ack_def write_memory_info_def same_fields
      split: sum.splits option.splits if_splits dest!: same_send_memory)

lemma same_detector_command:
  assumes "process_detector_command read_det cfg info bpt lmbf env raw_mode command f w = Some (e, f', w')"
  shows "same_input f f'"
proof -
  have data: "send_detector_data n sz r g = Some g' \<Longrightarrow> same_input g g'" for n sz r g g'
    unfolding send_detector_data_def by (rule same_chunks [rotated]) (auto simp: same_put_block)
  have res: "send_detector_result rd c bpt a i g = Some g' \<Longrightarrow> same_input g g'" for rd c a i g g'
    by (auto simp: send_detector_result_def when_some_def Let_def write_detector_info_def same_input_def same_fields split: option.splits if_splits
        dest!: data)
  have "same_input f (ack raw_mode f)" by (simp add: ack_def same_write_char)
  then show ?thesis using assms
    by (auto simp: process_detector_command_def Let_def split: sum.splits option.splits if_splits dest!: res intro: same_input_trans)
qed

lemma same_dispatch: "dispatch_command s k line f w = Some (e, raw, f', w') \<Longrightarrow> same_input f f'"
  by (auto simp: dispatch_command_def Let_def split: prod.splits list.splits if_splits dest!: same_memory_command same_detector_command)

section \<open>The connection ends\<close>

text \<open>What is still to be read; every line read takes something of it.\<close>

definition todo :: "buffered_file \<Rightarrow> nat" where
  "todo f = length (available f) + sum_list (map (\<lambda>r. case r of None \<Rightarrow> 0 | Some d \<Rightarrow> length d) (reads f))"

lemma todo_same: "same_input f g \<Longrightarrow> todo g = todo f"
  by (simp add: same_input_def todo_def available_def)

lemma todo_flush: "todo (snd (flush_out_buf f)) = todo f"
  by (simp add: todo_def available_def)

lemma todo_fill: "todo (fill_in_buf f) \<le> todo f"
  by (auto simp: todo_def available_def fill_in_buf_def next_read_def split: list.splits option.splits)

lemma read_line_todo: "read_line n flush acc f = (Some line, f') \<Longrightarrow> todo f' < todo f"
proof (induction n flush acc f rule: read_line.induct)
  case (1 n flush acc f)
  let ?l = "takeWhile (\<lambda>c. c \<noteq> CHR 10) (available f)"
  show ?case
  proof (cases "dropWhile (\<lambda>c. c \<noteq> CHR 10) (available f) \<noteq> []")
    case True
    then have f': "f' = f\<lparr>read_ptr := read_ptr f + length ?l + 1\<rparr>"
      using "1.prems" by (subst (asm) read_line.simps) (auto simp: Let_def split: if_splits)
    have "length (available f) = length ?l + length (dropWhile (\<lambda>c. c \<noteq> CHR 10) (available f))"
      by (metis length_append takeWhile_dropWhile_id)
    then have "length ?l < length (available f)" using True by simp
    then show ?thesis unfolding f' by (simp add: todo_def available_def)
  next
    case False
    let ?f = "if flush then snd (flush_out_buf f) else f"
    have c: "\<not> eof f \<and> no_error f" "length ?l + 1 < n" "read_line (n - length ?l) False (acc @ ?l) (fill_in_buf ?f) = (Some line, f')"
      using "1.prems" False by (subst (asm) read_line.simps, auto simp: Let_def split: if_splits)+
    have "todo f' < todo (fill_in_buf ?f)" using "1.IH" [OF c(1) refl refl] False c(2,3) by simp
    also have "\<dots> \<le> todo ?f" by (rule todo_fill)
    also have "\<dots> = todo f" by (simp add: todo_flush)
    finally show ?thesis .
  qed
qed

lemma report_same: "same_input f (report_error ef e raw f)"
  by (simp add: report_error_def same_formatted)

text \<open>The states before the commands of a connection.\<close>

inductive serving_reaches ::
  "('d, 'f, 'c, 'e) server \<Rightarrow> ('e server_error \<Rightarrow> string) \<Rightarrow> nat \<Rightarrow> buffered_file \<Rightarrow> tt_world \<Rightarrow> nat \<Rightarrow> buffered_file \<Rightarrow> tt_world \<Rightarrow> bool"
  for s ef where
  Here: "serving_reaches s ef k f w k f w"
| Served: "read_line 256 True [] f = (Some line, f1) \<Longrightarrow> dispatch_command s k line f1 w = Some (None, raw, f2, w2) \<Longrightarrow>
    serving_reaches s ef (k + 1) f2 w2 k' f' w' \<Longrightarrow> serving_reaches s ef k f w k' f' w'"
| Reported: "read_line 256 True [] f = (Some line, f1) \<Longrightarrow> dispatch_command s k line f1 w = Some (Some e, False, f2, w2) \<Longrightarrow>
    serving_reaches s ef (k + 1) (report_error ef e False f2) w2 k' f' w' \<Longrightarrow> serving_reaches s ef k f w k' f' w'"

lemma serving_ends:
  "(\<exists>r. serve_commands s ef k f w = Some r) \<or>
   (\<exists>k' f1 w1 line f2. serving_reaches s ef k f w k' f1 w1 \<and> read_line 256 True [] f1 = (Some line, f2) \<and> dispatch_command s k' line f2 w1 = None)"
proof (induction "todo f" arbitrary: k f w rule: less_induct)
  case less
  obtain l f1 where rl: "read_line 256 True [] f = (l, f1)" by fastforce
  show ?case
  proof (cases l)
    case None
    then show ?thesis using rl by (subst serve_commands.simps) simp
  next
    case (Some line)
    have t1: "todo f1 < todo f" using rl Some by (simp add: read_line_todo)
    show ?thesis
    proof (cases "dispatch_command s k line f1 w")
      case None
      then show ?thesis using rl Some serving_reaches.Here by blast
    next
      case (Some r)
      then obtain e raw f2 w2 where d: "dispatch_command s k line f1 w = Some (e, raw, f2, w2)" by (cases r) auto
      have t2: "todo f2 < todo f" using todo_same [OF same_dispatch [OF d]] t1 by simp
      have rl': "read_line 256 True [] f = (Some line, f1)" using rl \<open>l = Some line\<close> by simp
      show ?thesis
      proof (cases e)
        case None
        have "serve_commands s ef k f w = serve_commands s ef (k + 1) f2 w2" using rl' d None by (subst serve_commands.simps) simp
        then show ?thesis using less [OF t2, of "k + 1" w2] serving_reaches.Served [OF rl' d [unfolded None]] by metis
      next
        case (Some x)
        have t3: "todo (report_error ef x raw f2) < todo f" by (subst todo_same [OF report_same]) (rule t2)
        show ?thesis
        proof (cases raw)
          case True
          then show ?thesis using rl' d Some by (subst serve_commands.simps) simp
        next
          case False
          have "serve_commands s ef k f w = serve_commands s ef (k + 1) (report_error ef x False f2) w2"
            using rl' d Some False by (subst serve_commands.simps) simp
          moreover have "dispatch_command s k line f1 w = Some (Some x, False, f2, w2)" using d Some False by simp
          ultimately show ?thesis using less [OF t3, of "k + 1" w2] serving_reaches.Reported [OF rl'] False by metis
        qed
      qed
    qed
  qed
qed

text \<open>C38 A connection ends unless one of its commands does not return: whatever the client sends and however the socket cuts it up, the
  loop over the commands comes to an end and the connection is closed, or it has come to a command that does not return.\<close>

theorem connection_ends:
  "(\<exists>r. process_connection s ef f w = Some r) \<or>
   (\<exists>k f1 w1 line f2. serving_reaches s ef 0 f w k f1 w1 \<and> read_line 256 True [] f1 = (Some line, f2) \<and> dispatch_command s k line f2 w1 = None)"
  using serving_ends [of s ef 0 f w]
proof
  assume "\<exists>r. serve_commands s ef 0 f w = Some r"
  then show ?thesis by (auto simp: process_connection_def split_beta)
qed blast

section \<open>What a client gets\<close>

text \<open>Reading a line keeps what has been written, unless it ends in an error.\<close>

lemma fill_output: "no_error (fill_in_buf f) \<Longrightarrow> output_ok f \<Longrightarrow> output_ok (fill_in_buf f) \<and> written (fill_in_buf f) = written f"
  by (auto simp: fill_in_buf_def output_ok_def no_error_def written_def split: prod.splits option.splits)

lemma fill_error: "\<not> no_error f \<Longrightarrow> \<not> no_error (fill_in_buf f)"
  by (simp add: fill_in_buf_def)

lemma read_line_error: "\<not> no_error f \<Longrightarrow> read_line n flush acc f = (None, f)"
  by (subst read_line.simps) simp

lemma read_line_output:
  "read_line n flush acc f = (r, f') \<Longrightarrow> output_ok f \<Longrightarrow> no_error f' \<Longrightarrow>
     output_ok f' \<and> written f' = written f \<and> out_buf_size f' = out_buf_size f"
proof (induction n flush acc f rule: read_line.induct)
  case (1 n flush acc f)
  let ?l = "takeWhile (\<lambda>c. c \<noteq> CHR 10) (available f)"
  let ?f = "if flush then snd (flush_out_buf f) else f"
  show ?case
  proof (cases "(\<not> eof f \<and> no_error f) \<and> dropWhile (\<lambda>c. c \<noteq> CHR 10) (available f) = [] \<and> length ?l + 1 < n")
    case True
    have "read_line n flush acc f = read_line (n - length ?l) False (acc @ ?l) (fill_in_buf ?f)"
      using True by (subst read_line.simps) (simp add: Let_def)
    then have c: "\<not> eof f \<and> no_error f" "read_line (n - length ?l) False (acc @ ?l) (fill_in_buf ?f) = (r, f')"
      using "1.prems"(1) True by simp_all
    have ok: "output_ok ?f" "written ?f = written f" "out_buf_size ?f = out_buf_size f"
      using "1.prems"(2) output_flush [of f] flush_ok(2) [of f] by (auto simp: output_ok_def)
    show ?thesis
    proof (cases "no_error (fill_in_buf ?f)")
      case ne: True
      have s: "out_buf_size (fill_in_buf ?f) = out_buf_size ?f" by (simp add: fill_in_buf_def split: prod.splits option.splits)
      have "output_ok f' \<and> written f' = written (fill_in_buf ?f) \<and> out_buf_size f' = out_buf_size (fill_in_buf ?f)"
        using "1.IH" [OF c(1) refl refl] True c(2) fill_output [OF ne ok(1)] "1.prems"(3) by simp
      then show ?thesis using fill_output [OF ne ok(1)] ok s by simp
    next
      case False
      then show ?thesis using c(2) read_line_error "1.prems"(3) by simp
    qed
  next
    case False
    then have "f' = f \<or> (\<exists>p. f' = f\<lparr>read_ptr := p\<rparr>) \<or> \<not> no_error f'"
      using "1.prems"(1) by (subst (asm) read_line.simps) (auto simp: Let_def no_error_def split: if_splits)
    then show ?thesis using "1.prems"(2,3) by (auto simp: output_ok_def written_def)
  qed
qed

text \<open>At the end of the input, if what is left is short enough to be a line, the output is flushed.\<close>

lemma read_line_ends:
  "input_ok f \<Longrightarrow> (flush \<Longrightarrow> list_all (\<lambda>w. w \<noteq> None) (writes f)) \<Longrightarrow> CHR 10 \<notin> set (unread f) \<Longrightarrow> length (unread f) + 1 < n \<Longrightarrow>
   \<exists>f'. read_line n flush acc f = (None, f') \<and> no_error f'"
proof (induction "input_left f" arbitrary: f n flush acc rule: less_induct)
  case less
  have f: "\<not> eof f" "no_error f" using less.prems(1) by (simp_all add: input_ok_def)
  let ?a = "available f"
  have na: "CHR 10 \<notin> set ?a" "length ?a \<le> length (unread f)" using less.prems(3) by (simp_all add: unread_def)
  then have a: "takeWhile (\<lambda>c. c \<noteq> CHR 10) ?a = ?a" "dropWhile (\<lambda>c. c \<noteq> CHR 10) ?a = []"
    by (auto simp: takeWhile_eq_all_conv dropWhile_eq_Nil_conv)
  let ?f = "if flush then snd (flush_out_buf f) else f"
  have ok: "input_ok ?f" by (rule flush_input_ok [OF less.prems(1,2)])
  have step: "read_line n flush acc f = read_line (n - length ?a) False (acc @ ?a) (fill_in_buf ?f)"
    using f less.prems(4) na(2) by (subst read_line.simps) (simp add: Let_def a)
  have lt: "input_left (fill_in_buf ?f) < input_left f"
    using input_left_fill [of ?f] ok input_left_flush [of f] by (auto simp: input_ok_def split: if_splits)
  show ?case
  proof (cases "reads f = []")
    case True
    have r: "reads ?f = []" using True by simp
    have "fill_in_buf ?f = ?f\<lparr>reads := [], eof := True, in_data := [], read_ptr := 0\<rparr>"
      using ok r by (simp add: fill_in_buf_def next_read_def input_ok_def)
    then have "eof (fill_in_buf ?f)" "no_error (fill_in_buf ?f)" using ok by (simp_all add: input_ok_def no_error_def)
    then show ?thesis unfolding step by (subst read_line.simps) simp
  next
    case False
    then have ne: "reads ?f \<noteq> []" by simp
    note fill = fill_ok [OF ok ne]
    have rd: "reads ?f = reads f" by simp
    have "CHR 10 \<notin> set (unread (fill_in_buf ?f))" "length (unread (fill_in_buf ?f)) + 1 < n - length ?a"
      using fill(2) less.prems(3,4) unfolding rd by (simp_all add: unread_def)
    then show ?thesis unfolding step by (intro less.hyps [OF lt fill(1)]) simp_all
  qed
qed

text \<open>What a command answers, whatever state the file is in.\<close>

definition answers ::
  "('d, 'f, 'c, 'e) server \<Rightarrow> nat \<Rightarrow> string \<Rightarrow> tt_world \<Rightarrow> 'e server_error option \<Rightarrow> bool \<Rightarrow> string \<Rightarrow> tt_world \<Rightarrow> bool" where
  "answers s k line w e raw reply w' \<longleftrightarrow>
     (\<forall>f. output_ok f \<longrightarrow> (\<exists>f'. dispatch_command s k line f w = Some (e, raw, f', w') \<and> output_ok f' \<and> written f' = written f @ reply))"

text \<open>The conversation of a connection: the replies to the lines in order, with the text of the error after the reply of a command that
  fails, up to the first raw command that fails.\<close>

inductive session ::
  "('d, 'f, 'c, 'e) server \<Rightarrow> ('e server_error \<Rightarrow> string) \<Rightarrow> nat \<Rightarrow> nat \<Rightarrow> string list \<Rightarrow> tt_world \<Rightarrow> string \<Rightarrow> tt_world \<Rightarrow> bool"
  for s ef cap where
  Finished: "session s ef cap k [] w [] w"
| Answered: "answers s k line w None raw reply w1 \<Longrightarrow> session s ef cap (k + 1) lines w1 out w2 \<Longrightarrow>
    session s ef cap k (line # lines) w (reply @ out) w2"
| Refused: "answers s k line w (Some e) False reply w1 \<Longrightarrow> length (ef e) + 1 < cap \<Longrightarrow> session s ef cap (k + 1) lines w1 out w2 \<Longrightarrow>
    session s ef cap k (line # lines) w (reply @ ef e @ [CHR 10] @ out) w2"
| Closed: "answers s k line w (Some e) True reply w1 \<Longrightarrow> session s ef cap k (line # lines) w reply w1"

definition lines_text :: "string list \<Rightarrow> string" where
  "lines_text lines = concat (map (\<lambda>l. l @ [CHR 10]) lines)"

definition line_ok :: "string \<Rightarrow> bool" where
  "line_ok l \<longleftrightarrow> CHR 10 \<notin> set l \<and> length l + 1 < 256"

lemma formatted_ok:
  assumes "output_ok f" "length t < out_buf_size f"
  shows "output_ok (snd (write_formatted_string t f)) \<and> written (snd (write_formatted_string t f)) = written f @ t"
proof (cases "length t < out_buf_size f - length (out_data f)")
  case True
  then show ?thesis using assms(1) by (auto simp: write_formatted_string_def output_ok_def written_def)
next
  case False
  have w: "list_all (\<lambda>w. w \<noteq> None) (writes f)" "no_error f" using assms(1) by (simp_all add: output_ok_def)
  note fl = flush_ok [OF w(2,1)] output_flush [OF assms(1)]
  obtain b g where g: "flush_out_buf f = (b, g)" by fastforce
  then have b: "b" "out_buf_size g = out_buf_size f" "out_data g = []" using fl(1) flush_frame(6-8) [of f] by simp_all
  then have "snd (write_formatted_string t f) = g\<lparr>out_data := t, file_error := None\<rparr>"
    using False w(2) assms(2) g by (simp add: write_formatted_string_def Let_def)
  then show ?thesis using fl assms(2) b g by (auto simp: output_ok_def written_def no_error_def)
qed

lemma input_ok_same: "same_input f g \<Longrightarrow> input_ok f \<Longrightarrow> no_error g \<Longrightarrow> input_ok g \<and> unread g = unread f"
  by (simp add: same_input_def input_ok_def unread_def available_def)

lemma session_served:
  "session s ef cap k lines w out w' \<Longrightarrow> input_ok f \<Longrightarrow> output_ok f \<Longrightarrow> out_buf_size f = cap \<Longrightarrow>
   unread f = lines_text lines @ rest \<Longrightarrow> list_all line_ok lines \<Longrightarrow> line_ok rest \<Longrightarrow>
   \<exists>f'. serve_commands s ef k f w = Some (f', w') \<and> output_ok f' \<and> written f' = written f @ out"
proof (induction arbitrary: f rule: session.induct)
  case (Finished k w)
  then obtain f' where r: "read_line 256 True [] f = (None, f')" "no_error f'"
    using read_line_ends [of f True 256 "[]"] by (auto simp: lines_text_def line_ok_def output_ok_def)
  then have "serve_commands s ef k f w = Some (f', w)" by (subst serve_commands.simps) simp
  then show ?case using read_line_output [OF r(1) Finished(2) r(2)] by simp
next
  case (Answered k line w raw reply w1 lines out w2)
  have "\<exists>f1. read_line 256 True [] f = (Some ([] @ line), f1) \<and> unread f1 = lines_text lines @ rest \<and> input_ok f1"
    by (rule read_line_ok) (use Answered.prems in \<open>auto simp: lines_text_def line_ok_def output_ok_def\<close>)
  then obtain f1 where r: "read_line 256 True [] f = (Some line, f1)" "unread f1 = lines_text lines @ rest" "input_ok f1" by auto
  have ne: "no_error f1" using r(3) by (simp add: input_ok_def)
  note out = read_line_output [OF r(1) Answered.prems(2) ne]
  obtain f2 where d: "dispatch_command s k line f1 w = Some (None, raw, f2, w1)" "output_ok f2" "written f2 = written f1 @ reply"
    using Answered.hyps(1) out unfolding answers_def by blast
  note same = same_dispatch [OF d(1)]
  have "input_ok f2 \<and> unread f2 = unread f1" using input_ok_same [OF same r(3)] d(2) by (simp add: output_ok_def)
  moreover have "out_buf_size f2 = cap" using same out Answered.prems(3) by (simp add: same_input_def)
  ultimately obtain f' where "serve_commands s ef (k + 1) f2 w1 = Some (f', w2)" "output_ok f'" "written f' = written f2 @ out"
    using Answered.IH [of f2] d(2) r(2) Answered.prems(5,6) by auto
  moreover have "serve_commands s ef k f w = serve_commands s ef (k + 1) f2 w1" using r(1) d(1) by (subst serve_commands.simps) simp
  ultimately show ?case using d(3) out by auto
next
  case (Refused k line w e reply w1 lines out w2)
  have "\<exists>f1. read_line 256 True [] f = (Some ([] @ line), f1) \<and> unread f1 = lines_text lines @ rest \<and> input_ok f1"
    by (rule read_line_ok) (use Refused.prems in \<open>auto simp: lines_text_def line_ok_def output_ok_def\<close>)
  then obtain f1 where r: "read_line 256 True [] f = (Some line, f1)" "unread f1 = lines_text lines @ rest" "input_ok f1" by auto
  have ne: "no_error f1" using r(3) by (simp add: input_ok_def)
  note out = read_line_output [OF r(1) Refused.prems(2) ne]
  obtain f2 where d: "dispatch_command s k line f1 w = Some (Some e, False, f2, w1)" "output_ok f2" "written f2 = written f1 @ reply"
    using Refused.hyps(1) out unfolding answers_def by blast
  have cap: "out_buf_size f2 = cap" using same_dispatch [OF d(1)] out Refused.prems(3) by (simp add: same_input_def)
  define f3 where "f3 = report_error ef e False f2"
  have f3: "output_ok f3 \<and> written f3 = written f2 @ ef e @ [CHR 10]"
    using formatted_ok [OF d(2), of "ef e @ [CHR 10]"] Refused.hyps(2) cap by (simp add: f3_def report_error_def)
  have same: "same_input f1 f3" unfolding f3_def by (rule same_input_trans [OF same_dispatch [OF d(1)] report_same])
  have "input_ok f3 \<and> unread f3 = unread f1" using input_ok_same [OF same r(3)] f3 by (simp add: output_ok_def)
  moreover have "out_buf_size f3 = cap" using same out Refused.prems(3) by (simp add: same_input_def)
  ultimately obtain f' where "serve_commands s ef (k + 1) f3 w1 = Some (f', w2)" "output_ok f'" "written f' = written f3 @ out"
    using Refused.IH [of f3] f3 r(2) Refused.prems(5,6) by auto
  moreover have "serve_commands s ef k f w = serve_commands s ef (k + 1) f3 w1"
    using r(1) d(1) by (subst serve_commands.simps) (simp add: f3_def)
  ultimately show ?case using d(3) out f3 by auto
next
  case (Closed k line w e reply w1 lines)
  have "\<exists>f1. read_line 256 True [] f = (Some ([] @ line), f1) \<and> unread f1 = lines_text lines @ rest \<and> input_ok f1"
    by (rule read_line_ok) (use Closed.prems in \<open>auto simp: lines_text_def line_ok_def output_ok_def\<close>)
  then obtain f1 where r: "read_line 256 True [] f = (Some line, f1)" "input_ok f1" by auto
  have ne: "no_error f1" using r(2) by (simp add: input_ok_def)
  note out = read_line_output [OF r(1) Closed.prems(2) ne]
  obtain f2 where d: "dispatch_command s k line f1 w = Some (Some e, True, f2, w1)" "output_ok f2" "written f2 = written f1 @ reply"
    using Closed.hyps(1) out unfolding answers_def by blast
  have "serve_commands s ef k f w = Some (f2, w1)" using r(1) d(1) by (subst serve_commands.simps) (simp add: report_error_def)
  then show ?case using d(2,3) out by simp
qed

lemma session_sent:
  assumes "session s ef (out_buf_size f) 0 lines w out w'" "input_ok f" "output_ok f"
    and "unread f = lines_text lines @ rest" "list_all line_ok lines" "line_ok rest"
  shows "\<exists>f'. process_connection s ef f w = Some (None, f', w') \<and> sent f' = written f @ out"
proof -
  obtain f' where f': "serve_commands s ef 0 f w = Some (f', w')" "output_ok f'" "written f' = written f @ out"
    using session_served [OF assms(1-3) refl assms(4-6)] by blast
  have "no_error f'" "list_all (\<lambda>w. w \<noteq> None) (writes f')" using f'(2) by (simp_all add: output_ok_def)
  note fl = flush_ok [OF this]
  have "sent (snd (flush_out_buf f')) = written f'" using fl(2) flush_frame(7) [of f'] by (simp add: written_def)
  moreover have "file_error (snd (flush_out_buf f')) = None" using fl(1) by (simp add: no_error_def)
  ultimately show ?thesis using f'(1,3)
    by (intro exI [of _ "snd (flush_out_buf f')"]) (simp add: process_connection_def delete_connection_def destroy_buffered_file_def Let_def)
qed

text \<open>C37 A client gets the replies to its commands: the connection reads its lines however the socket cuts them up, answers
  them in order, and when it is closed everything has been sent: the replies, with the text of the error for a
  command that fails, and nothing behind a raw command that fails.\<close>

theorem connection_serves_lines:
  assumes "session s ef (out_buf_size f) 0 lines w out w'" "input_ok f" "output_ok f"
    and "unread f = lines_text lines @ rest" "list_all line_ok lines" "line_ok rest"
  shows "\<exists>f'. process_connection s ef f w = Some (None, f', w') \<and> sent f' = written f @ out"
  by (rule session_sent) fact+

section \<open>The server thread\<close>

datatype accept_errno = EINVAL | OtherErrno nat

text \<open>What a turn of the loop finds: a client, for which a thread could be started or not (with what \<^verbatim>\<open>errno\<close> then happens to be), or an error.\<close>

datatype accept_event = Connected bool accept_errno | AcceptError accept_errno

text \<open>The number of connections started, and how the thread ends: \<open>True\<close> if it reports that it failed.  \<open>None\<close> while it still
  waits for clients.  \<open>shutting_down\<close> is the flag as it stands when the loop has ended.\<close>

fun run_server :: "bool \<Rightarrow> nat \<Rightarrow> accept_event list \<Rightarrow> (nat \<times> bool) option" where
  "run_server shutting_down n [] = None"
| "run_server shutting_down n (Connected started errno # events) =
     (if started then run_server shutting_down (n + 1) events else Some (n, \<not> (errno = EINVAL \<and> shutting_down)))"
| "run_server shutting_down n (AcceptError errno # events) = Some (n, \<not> (errno = EINVAL \<and> shutting_down))"

text \<open>The server ends with the first error, whatever clients come after it; it is quiet about it only when it is stopped.\<close>

lemma server_ends_with_error:
  "run_server shutting_down n (replicate k (Connected True e) @ AcceptError errno # events) = Some (n + k, \<not> (errno = EINVAL \<and> shutting_down))"
  by (induction k arbitrary: n) simp_all

text \<open>A run that ends has started a connection for every client before the event that ended it.\<close>

lemma server_connects_all:
  "run_server shutting_down n events = Some (m, failed) \<Longrightarrow>
     \<exists>served x rest. events = served @ x # rest \<and> m = n + length served \<and> (\<forall>a \<in> set served. \<exists>e. a = Connected True e) \<and>
       (failed \<longleftrightarrow> \<not> (shutting_down \<and> (x = AcceptError EINVAL \<or> x = Connected False EINVAL)))"
proof (induction shutting_down n events rule: run_server.induct)
  case (2 shutting_down n started errno events)
  show ?case
  proof (cases started)
    case True
    then obtain served x rest where h: "events = served @ x # rest" "m = n + 1 + length served" "\<forall>a \<in> set served. \<exists>e. a = Connected True e"
      "failed \<longleftrightarrow> \<not> (shutting_down \<and> (x = AcceptError EINVAL \<or> x = Connected False EINVAL))" using 2 by auto
    then show ?thesis using True by (intro exI [of _ "Connected started errno # served"] exI [of _ x] exI [of _ rest]) simp
  next
    case False
    then show ?thesis using 2(2) by (intro exI [of _ "[]"]) auto
  qed
next
  case (3 shutting_down n errno events)
  then show ?case by (intro exI [of _ "[]"]) auto
qed simp

section \<open>An instance\<close>

definition sample_server :: "(nat, nat, nat, nat) server" where
  "sample_server = \<lparr>srv_dram = sample_read, srv_floats = sample_floats, srv_tune = of_nat, srv_strtod = (\<lambda>s. (0, False, s)),
     srv_bunches = 2, srv_lmbf = False, srv_memory = (\<lambda>_. sample_memory), srv_detectors = (\<lambda>_ _ _ _. []), srv_config = (\<lambda>_ _. plain_config),
     srv_info = (\<lambda>_ _. sample_info), srv_env = (\<lambda>_. sample_env\<lparr>meanwhile := []\<rparr>)\<rparr>"

definition sample_error :: "nat server_error \<Rightarrow> string" where
  "sample_error e = (case e of UnknownCommand c \<Rightarrow> ''Unknown command: '' @ [c] | _ \<Rightarrow> ''Error'')"

definition sample_reply :: string where
  "sample_reply = char_of (0 :: nat) # memory_frame 2 sample_args @
     concat (map (memory_item sample_floats sample_dram (compute_dram_offset 2 (margs_offset sample_args) sample_memory) (unat (2 :: u32)) sample_args
       (make_channels_context (channel sample_args) sample_memory)
       (prepare_tune_decimate sample_floats 2 (case tune sample_args of None \<Rightarrow> 0 | Some t \<Rightarrow> of_nat t) (decimation sample_args)
         (make_channels_context (channel sample_args) sample_memory))) [0..<reply_items (unat (2 :: u32)) sample_args])"

definition after_sample :: tt_world where
  "after_sample = unlock_trigger_ready TRIGGER_DRAM (tt_run [] (increment_trigger_lock_count TRIGGER_DRAM (start_world sample_config)))"

lemma sample_answer: "answers sample_server k ''M2FB1L'' (start_world sample_config) None False sample_reply after_sample"
  unfolding answers_def
proof (intro allI impI)
  fix f assume f: "output_ok f"
  have framed: "framed sample_args" by (simp add: sample_args_def)
  from memory_command_reply [OF sample_parse sample_checks(1,2) sample_lock [of "[]"] sample_facts(1) f sample_facts(3-6), of sample_floats of_nat]
  obtain f' where "process_memory_command sample_read sample_floats of_nat (\<lambda>s. (0, False, s)) 2 (sample_env\<lparr>meanwhile := []\<rparr>) sample_memory False
      ''2FB1L'' f (start_world sample_config) = Some (None, f', after_sample)" "output_ok f'" "written f' = written f @ sample_reply"
    by (auto simp: sample_reply_def after_sample_def release_lock_def sample_checks(3) framed)
  then show "\<exists>f'. dispatch_command sample_server k ''M2FB1L'' f (start_world sample_config) = Some (None, False, f', after_sample) \<and>
      output_ok f' \<and> written f' = written f @ sample_reply"
    by (simp add: dispatch_command_def c_string_def read_char_def sample_server_def)
qed

theorem connection_serves_lines_witness:
  "\<exists>f'. process_connection sample_server sample_error
      (create_connection [Some ''M2FB'', Some (''1L'' @ CHR 10 # ''X''), Some [CHR 10]] [Some 1]) (start_world sample_config) =
    Some (None, f', after_sample) \<and> sent f' = sample_reply @ ''Unknown command: X'' @ [CHR 10]"
proof -
  let ?f = "create_connection [Some ''M2FB'', Some (''1L'' @ CHR 10 # ''X''), Some [CHR 10]] [Some 1]"
  have x: "answers sample_server 1 ''X'' after_sample (Some (UnknownCommand (CHR ''X''))) False [] after_sample"
    by (simp add: answers_def dispatch_command_def c_string_def read_char_def)
  have c: "out_buf_size ?f = 4096" by (simp add: create_connection_def create_buffered_file_def)
  have "session sample_server sample_error 4096 1 [''X''] after_sample ([] @ sample_error (UnknownCommand (CHR ''X'')) @ [CHR 10] @ []) after_sample"
    by (rule session.Refused [OF x _ session.Finished]) (simp add: sample_error_def)
  then have s: "session sample_server sample_error (out_buf_size ?f) 0 [''M2FB1L'', ''X''] (start_world sample_config)
      (sample_reply @ [] @ sample_error (UnknownCommand (CHR ''X'')) @ [CHR 10] @ []) after_sample"
    unfolding c using session.Answered [OF sample_answer [of 0], of sample_error 4096] by simp
  have i: "input_ok ?f" "output_ok ?f" "unread ?f = lines_text [''M2FB1L'', ''X''] @ []" "list_all line_ok [''M2FB1L'', ''X'']" "line_ok []"
    by (simp_all add: create_connection_def create_buffered_file_def input_ok_def output_ok_def no_error_def clean_reads_def unread_def
        available_def lines_text_def line_ok_def)
  have w: "written ?f = []" by (simp add: create_connection_def create_buffered_file_def written_def)
  show ?thesis using connection_serves_lines [OF s i] w by (simp add: sample_error_def)
qed

end
