(* ===== verification/Client_Server.thy ===== *)
theory Client_Server
  imports Matlab_Memory Socket_Server
begin

text \<open>
  The Matlab client of the memory command and the data server together: the server reads the command the client prints
  as it was meant, and what the client makes of the reply are the samples of the capture memory.
\<close>

section \<open>The command is understood\<close>

lemma parse_uint_show_int:
  assumes "no_digit r" shows "parse_uint (show_int n @ r) = (Inr n, r)"
proof -
  have b: "- (2 ^ 31) \<le> sint n" "sint n < 2 ^ 31" using sint_ge [of n] sint_lt [of n] by simp_all
  have n: "(word_of_int (sint n) :: u32) = n" by simp
  show ?thesis
  proof (cases "sint n < 0")
    case True
    define k where "k = nat (- sint n)"
    have k: "k \<le> 2 ^ 31" "- int k = sint n" using True b by (simp_all add: k_def)
    have "(ucast (- word_of_nat k :: u64) :: u32) = word_of_int (- int k)"
      by (metis ucast_word_of_int_64 of_int_minus of_int_of_nat_eq)
    then have "(ucast (- word_of_nat k :: u64) :: u32) = n" by (simp only: k(2) n)
    with k(1) show ?thesis using True scan_number_minus [OF assms, of k]
      by (simp add: show_int_def k_def [symmetric] parse_uint_def parse_num_def strtoul_def ULONG_MAX_def)
  next
    case False
    define k where "k = nat (sint n)"
    have k: "k < 2 ^ 31" "int k = sint n" using False b by (simp_all add: k_def)
    then have "(word_of_nat k :: u32) = n" by (metis n of_int_of_nat_eq)
    with parse_uint_num [OF assms, of k] k(1) False show ?thesis
      by (simp add: show_int_def k_def [symmetric] ULONG_MAX_def)
  qed
qed

text \<open>What a rest of the command begins with, if it is not empty.\<close>

definition starts_in :: "string \<Rightarrow> string \<Rightarrow> bool" where
  "starts_in cs s \<longleftrightarrow> (case s of [] \<Rightarrow> True | c # r \<Rightarrow> c \<in> set cs)"

lemma starts_in_simps [simp]: "starts_in cs []" "starts_in cs (c # r) \<longleftrightarrow> c \<in> set cs"
  by (simp_all add: starts_in_def)

lemma starts_in_append: "starts_in cs s \<Longrightarrow> starts_in ds r \<Longrightarrow> starts_in (cs @ ds) (s @ r)"
  by (cases s) (auto simp: starts_in_def split: list.splits)

lemma starts_no_digit: "starts_in cs s \<Longrightarrow> list_all (\<lambda>c. \<not> isdigit c) cs \<Longrightarrow> no_digit s"
  by (cases s) (auto simp: no_digit_def list_all_iff)

lemma aread_miss: "starts_in cs s \<Longrightarrow> c \<notin> set cs \<Longrightarrow> aread c s = (Inr False, s)"
  by (cases s) (auto simp: aread_def read_char_def)

lemma aread_hit [simp]: "aread c (c # s) = (Inr True, s)"
  by (simp add: aread_def read_char_def)

lemma abind_step: "p s = (Inr x, r) \<Longrightarrow> abind p f s = f x r"
  by (simp add: abind_def)

lemma lift_step: "p s = (Inr x, r) \<Longrightarrow> lift p s = (Inr x, r)"
  by (simp add: lift_def)

text \<open>What the server makes of the client's lock.\<close>

definition meant_lock :: "'d arith \<Rightarrow> 'd \<Rightarrow> lock_parse" where
  "meant_lock A wait = \<lparr>lock = d_leq A (d_int A 0) wait,
     timeout = (if d_less A (d_int A 0) wait then of_int (d_trunc A (d_mul A wait (d_int A 1000))) else 0)\<rparr>"

definition sane :: "'d arith \<Rightarrow> 'd \<Rightarrow> bool" where
  "sane A wait \<longleftrightarrow> (d_less A (d_int A 0) wait \<longrightarrow> d_leq A (d_int A 0) wait)"

lemma lock_text_starts: "sane A wait \<Longrightarrow> starts_in ''L'' (lock_text A wait)"
  by (simp add: lock_text_def sane_def)

lemma parse_lock_text:
  assumes "sane A wait"
  shows "parse_lock (lock_text A wait) = (Inr (meant_lock A wait), [])"
proof -
  have n: "lift parse_uint (show_uint t) = (Inr t, [])" for t
    using parse_uint_show [of "[]" t] by (intro lift_step) (simp add: show_uint_def no_digit_def)
  show ?thesis
    using assms n
    by (auto simp: parse_lock_def lock_text_def meant_lock_def sane_def abind_def aret_def aread_def read_char_def split: prod.splits)
qed

text \<open>What the server makes of the options between the channel and the lock.\<close>

definition middle_text :: "'d arith \<Rightarrow> ('d \<Rightarrow> string) \<Rightarrow> 'd memory_request \<Rightarrow> string" where
  "middle_text A print_tune q =
     (if req_decimate q > 1 then ''D'' @ show_uint (req_decimate q) else []) @
     (if \<not> is_zero A (req_tune q) then ''T'' @ print_tune (req_tune q) else []) @
     (if 0 \<le> sint (req_bunch q) then ''B'' @ show_int (req_bunch q) else []) @ lock_text A (req_locking q)"

text \<open>A request the client sends and the server has an answer to; \<open>tune'\<close> is the tune as printed and read back.\<close>

definition valid_request :: "(string \<Rightarrow> 'd \<times> bool \<times> string) \<Rightarrow> 'd arith \<Rightarrow> ('d \<Rightarrow> string) \<Rightarrow> u32 \<Rightarrow> 'd memory_request \<Rightarrow> 'd \<Rightarrow> bool" where
  "valid_request strtod A print_tune bpt q tune' \<longleftrightarrow>
     sint (req_channel q) < 2 \<and> 0 < req_decimate q \<and>
     (sint (req_bunch q) < 0 \<or> sint (req_bunch q) < sint bpt \<and> is_zero A (req_tune q) \<and> req_decimate q = 1) \<and>
     sane A (req_locking q) \<and>
     (\<not> is_zero A (req_tune q) \<longrightarrow>
        parse_double strtod (print_tune (req_tune q) @ lock_text A (req_locking q)) = (Inr tune', lock_text A (req_locking q)))"

text \<open>The bunch, decimation, tune and format that are meant, and the whole request.\<close>

definition meant_middle :: "'d arith \<Rightarrow> 'd memory_request \<Rightarrow> 'd \<Rightarrow> int \<times> u32 \<times> 'd option \<times> memory_data_format" where
  "meant_middle A q tune' =
     (if 0 \<le> sint (req_bunch q) then (sint (req_bunch q), 1, None, FORMAT_INT16)
      else if \<not> is_zero A (req_tune q) then (- 1, req_decimate q, Some tune', FORMAT_COMPLEX64)
      else (- 1, req_decimate q, None, if req_decimate q > 1 then FORMAT_FLOAT32 else FORMAT_INT16))"

definition meant_args :: "'d arith \<Rightarrow> 'd memory_request \<Rightarrow> 'd \<Rightarrow> 'd memory_args" where
  "meant_args A q tune' = (case meant_middle A q tune' of (b, dec, t, fmt) \<Rightarrow>
     \<lparr>margs_count = req_count q, framed = True, margs_offset = req_offset q,
      channel = (if 0 \<le> sint (req_channel q) then sint (req_channel q) else - 1), bunch = b,
      decimation = dec, tune = t, locking = meant_lock A (req_locking q), format = fmt\<rparr>)"

lemma parse_middle:
  assumes v: "valid_request strtod A print_tune bpt q tune'"
  shows "abind (aread (CHR ''B'')) (\<lambda>b. abind (if b then abind (parse_bunch bpt) (\<lambda>n. aret (n, 1, None, FORMAT_INT16))
            else abind (aread (CHR ''D'')) (\<lambda>d. abind (if d then parse_decimation else aret 1) (\<lambda>dec.
                 abind (aread (CHR ''T'')) (\<lambda>t. if t
                   then abind (lift (parse_double strtod)) (\<lambda>v. aret (- 1, dec, Some v, FORMAT_COMPLEX64))
                   else aret (- 1, dec, None, if d then FORMAT_FLOAT32 else FORMAT_INT16))))) G) (middle_text A print_tune q) =
    G (meant_middle A q tune') (lock_text A (req_locking q))"
proof -
  let ?l = "lock_text A (req_locking q)"
  define P where "P dec f = abind (aread (CHR ''T'')) (\<lambda>t. if t
       then abind (lift (parse_double strtod)) (\<lambda>v. aret (- 1 :: int, dec :: u32, Some v, FORMAT_COMPLEX64))
       else aret (- 1, dec, None, f))" for dec f
  have l: "starts_in ''L'' ?l" using v by (simp add: valid_request_def lock_text_starts)
  note miss = aread_miss [OF l]
  have nd: "no_digit ?l" by (rule starts_no_digit [OF l]) (simp add: isdigit_def code_def)
  show ?thesis
  proof (cases "0 \<le> sint (req_bunch q)")
    case True
    then have t: "middle_text A print_tune q = CHR ''B'' # show_int (req_bunch q) @ ?l"
      using v by (auto simp: middle_text_def valid_request_def)
    have "lift parse_int (show_int (req_bunch q) @ ?l) = (Inr (req_bunch q), ?l)" by (rule lift_step) (rule parse_int_show [OF nd])
    then have "parse_bunch bpt (show_int (req_bunch q) @ ?l) = (Inr (sint (req_bunch q)), ?l)"
      using v True by (auto simp: parse_bunch_def abind_def atest_def aret_def valid_request_def)
    then show ?thesis using True by (simp add: t abind_def aret_def meant_middle_def)
  next
    case False
    let ?t = "(if \<not> is_zero A (req_tune q) then ''T'' @ print_tune (req_tune q) else []) @ ?l"
    have t: "middle_text A print_tune q = (if req_decimate q > 1 then ''D'' @ show_uint (req_decimate q) else []) @ ?t"
      using False by (simp add: middle_text_def)
    have st: "starts_in ''TL'' ?t" using l by (auto simp: starts_in_def split: list.splits)
    have ndt: "no_digit ?t" by (rule starts_no_digit [OF st]) (simp add: isdigit_def code_def)
    have tail: "P dec f ?t =
        (Inr (if \<not> is_zero A (req_tune q) then (- 1, dec, Some tune', FORMAT_COMPLEX64) else (- 1, dec, None, f)), ?l)" for dec f
    proof (cases "is_zero A (req_tune q)")
      case True
      then show ?thesis using miss by (simp add: P_def abind_def aret_def)
    next
      case False
      then have "lift (parse_double strtod) (print_tune (req_tune q) @ ?l) = (Inr tune', ?l)" using v by (simp add: valid_request_def lift_step)
      then show ?thesis using False by (simp add: P_def abind_def aret_def)
    qed
    define Y where "Y = abind (aread (CHR ''D'')) (\<lambda>d. abind (if d then parse_decimation else aret 1)
      (\<lambda>dec. P dec (if d then FORMAT_FLOAT32 else FORMAT_INT16)))"
    have "aread (CHR ''B'') (middle_text A print_tune q) = (Inr False, middle_text A print_tune q) \<and>
        Y (middle_text A print_tune q) = (Inr (meant_middle A q tune'), ?l)"
    proof (cases "req_decimate q > 1")
      case True
      then have m: "middle_text A print_tune q = CHR ''D'' # show_uint (req_decimate q) @ ?t" using t by simp
      have "lift parse_uint (show_uint (req_decimate q) @ ?t) = (Inr (req_decimate q), ?t)"
        using parse_uint_show [OF ndt, of "req_decimate q"] by (intro lift_step) (simp add: show_uint_def)
      moreover have "0 < req_decimate q" using v by (simp add: valid_request_def)
      ultimately have d: "parse_decimation (show_uint (req_decimate q) @ ?t) = (Inr (req_decimate q), ?t)"
        by (simp add: parse_decimation_def abind_def atest_def aret_def)
      have "Y (middle_text A print_tune q) = P (req_decimate q) FORMAT_FLOAT32 ?t"
        unfolding m Y_def by (simp only: abind_def aread_hit d prod.case sum.case if_True)
      then show ?thesis unfolding tail using False True m by (simp add: meant_middle_def aread_def read_char_def)
    next
      case dec: False
      have "0 < unat (req_decimate q)" "unat (req_decimate q) \<le> 1"
        using dec v by (simp_all add: valid_request_def word_less_nat_alt)
      then have "unat (req_decimate q) = 1" by simp
      then have one: "req_decimate q = 1" by (simp add: word_unat_eq_iff)
      have m: "middle_text A print_tune q = ?t" using t dec by simp
      have "Y (middle_text A print_tune q) = P 1 FORMAT_INT16 ?t"
        unfolding m Y_def using aread_miss [OF st] by (simp add: abind_def aret_def)
      then show ?thesis unfolding tail using False dec one aread_miss [OF st] by (simp add: m meant_middle_def)
    qed
    then show ?thesis unfolding P_def [symmetric] Y_def [symmetric] by (simp add: abind_def)
  qed
qed

lemma middle_starts: "sane A (req_locking q) \<Longrightarrow> starts_in ''DTBL'' (middle_text A print_tune q)"
  using lock_text_starts [of A "req_locking q"] by (auto simp: middle_text_def starts_in_def split: list.splits)

lemma memory_command_read:
  assumes v: "valid_request strtod A print_tune bpt q tune'"
  shows "parse_memory_args strtod bpt False (tl (memory_text A print_tune q)) = Inr (meant_args A q tune')"
proof -
  let ?m = "middle_text A print_tune q"
  let ?c = "(if 0 \<le> sint (req_channel q) then ''C'' @ show_int (req_channel q) else []) @ ?m"
  let ?ch = "if 0 \<le> sint (req_channel q) then sint (req_channel q) else - 1"
  have sane: "sane A (req_locking q)" using v by (simp add: valid_request_def)
  note m = middle_starts [OF sane, of print_tune]
  have ndm: "no_digit ?m" by (rule starts_no_digit [OF m]) (simp add: isdigit_def code_def)
  have c: "starts_in ''CDTBL'' ?c" using m by (auto simp: starts_in_def split: list.splits)
  have ndc: "no_digit ?c" by (rule starts_no_digit [OF c]) (simp add: isdigit_def code_def)
  have tx: "tl (memory_text A print_tune q) = show_int (req_count q) @ CHR ''F'' # CHR ''O'' # show_int (req_offset q) @ ?c"
    by (simp add: memory_text_def middle_text_def)
  have count: "lift parse_uint (show_int (req_count q) @ CHR ''F'' # CHR ''O'' # show_int (req_offset q) @ ?c) =
      (Inr (req_count q), CHR ''F'' # CHR ''O'' # show_int (req_offset q) @ ?c)"
    by (rule lift_step, rule parse_uint_show_int) (simp add: no_digit_def isdigit_def code_def)
  have offset: "opt_arg (CHR ''O'') (lift parse_int) 0 (CHR ''O'' # show_int (req_offset q) @ ?c) = (Inr (req_offset q), ?c)"
    using parse_int_show [OF ndc, of "req_offset q"] by (simp add: opt_arg_def abind_def lift_def)
  have chan: "opt_arg (CHR ''C'') parse_channel (- 1) ?c = (Inr ?ch, ?m)"
  proof (cases "0 \<le> sint (req_channel q)")
    case True
    have "lift parse_int (show_int (req_channel q) @ ?m) = (Inr (req_channel q), ?m)" by (rule lift_step) (rule parse_int_show [OF ndm])
    then show ?thesis using True v
      by (simp add: opt_arg_def abind_def parse_channel_def atest_def aret_def valid_request_def MEM_CHANNEL_COUNT_def)
  next
    case False
    then show ?thesis using aread_miss [OF m] by (simp add: opt_arg_def abind_def aret_def)
  qed
  have "parse_memory_body strtod bpt (tl (memory_text A print_tune q)) = (Inr (meant_args A q tune'), [])"
    by (simp only: parse_memory_body_def tx abind_def [of "lift parse_uint"] abind_def [of "aread (CHR ''F'')"] abind_def [of "opt_arg a b c" for a b c]
          count aread_hit offset chan prod.case sum.case parse_middle [OF v])
       (simp add: abind_def parse_lock_text [OF sane] lift_def parse_eos_def meant_args_def aret_def split: prod.splits)
  then show ?thesis by (simp add: parse_memory_args_def)
qed

section \<open>The client's side\<close>

lemma write_bytes_ok:
  "list_all (\<lambda>g. g \<noteq> None) gs \<Longrightarrow> length bs \<le> length gs \<Longrightarrow> \<exists>gs'. write_bytes gs out bs = Some (Inr (out @ bs, gs'))"
proof (induction gs out bs rule: write_bytes.induct)
  case (4 k gs out b bs)
  then have "length (drop (Suc k) (b # bs)) \<le> length gs" by simp
  then obtain gs' where "write_bytes gs (out @ take (Suc k) (b # bs)) (drop (Suc k) (b # bs)) =
      Some (Inr ((out @ take (Suc k) (b # bs)) @ drop (Suc k) (b # bs), gs'))" using 4 by auto
  then show ?case by (simp del: take_Suc_Cons drop_Suc_Cons)
qed auto

lemma send_command_ok:
  assumes "list_all (\<lambda>g. g \<noteq> None) (grants c)" "length line + 1 \<le> length (grants c)" "length line < 63"
  obtains c' where "send_command line c = Some (Inr ((), c'))" "outgoing c' = outgoing c @ line @ [CHR 10]"
    "incoming c' = incoming c" "events c' = events c"
proof -
  obtain gs' where "write_bytes (grants c) (outgoing c) (line @ [CHR 10]) = Some (Inr (outgoing c @ line @ [CHR 10], gs'))"
    using write_bytes_ok [of "grants c" "line @ [CHR 10]" "outgoing c"] assms by auto
  then have "send_command line c = Some (Inr ((), c\<lparr>outgoing := outgoing c @ line @ [CHR 10], grants := gs'\<rparr>))"
    using assms(3) by (simp add: send_command_def write_all_def)
  then show ?thesis using that by (metis client.select_convs(1,2,4) client.surjective client.update_convs(3,4))
qed

lemma check_result_ok:
  assumes "ready c (1 + m)" "incoming c = char_of (0 :: nat) # r"
  obtains c' where "check_result c = Some (Inr ((), c'))" "incoming c' = r" "ready c' m"
proof -
  obtain c' where "read_buffer 1 c = Some (Inr (take 1 (incoming c), c'))" "incoming c' = drop 1 (incoming c)" "ready c' m"
    using client_read_ok [OF assms(1)] by blast
  then show ?thesis using that assms(2) by (simp add: check_result_def cbind_def creturn_def)
qed

text \<open>Reading sends nothing.\<close>

definition sends_nothing :: "'a call \<Rightarrow> bool" where
  "sends_nothing p \<longleftrightarrow> (\<forall>c x c'. p c = Some (Inr (x, c')) \<longrightarrow> outgoing c' = outgoing c)"

lemma quiet_bind: "sends_nothing p \<Longrightarrow> (\<And>x. sends_nothing (g x)) \<Longrightarrow> sends_nothing (cbind p g)"
  unfolding sends_nothing_def cbind_def by (fastforce split: option.splits sum.splits)

lemma quiet_basic: "sends_nothing (creturn x)" "sends_nothing (cfail e)" "sends_nothing (read_buffer n)"
  by (auto simp: sends_nothing_def creturn_def cfail_def read_buffer_def map_option_case split: option.splits)
     (auto split: sum.splits simp: map_sum_def)

lemma quiet_fill: "sends_nothing (fill_buffer a b d)"
  unfolding fill_buffer_def Let_def by (intro quiet_bind quiet_basic) (simp add: quiet_basic)

lemma quiet_chunks: "sends_nothing (read_chunks a b store n s)"
proof -
  have "read_chunks a b store n s c = Some r \<Longrightarrow> (case r of Inl e \<Rightarrow> True | Inr (x, c') \<Rightarrow> outgoing c' = outgoing c)" for c r
  proof (induction a b store n s c r rule: read_chunks.raw_induct [rotated, consumes 1])
    case (1 f a b store n s c r)
    show ?case
    proof (cases "0 < n")
      case True
      then obtain q where q: "fill_buffer a b n c = Some q" using 1(2) by (auto split: option.splits)
      show ?thesis
      proof (cases q)
        case (Inl e)
        then show ?thesis using True q 1(2) by auto
      next
        case (Inr y)
        then obtain m bs c1 where y: "q = Inr ((m, bs), c1)" by (cases y) (cases "fst y", auto)
        then have r: "f a b store (n - m) (store m bs s) c1 = Some r" using True q 1(2) by simp
        have "outgoing c1 = outgoing c" using quiet_fill [of a b n] q y by (simp add: sends_nothing_def)
        then show ?thesis using 1(1) [OF r] by (cases r) auto
      qed
    qed (use 1(2) in auto)
  qed
  then show ?thesis unfolding sends_nothing_def by fastforce
qed

lemma quiet_reply: "sends_nothing (read_reply zero f g)"
proof -
  have "sends_nothing (read_and_convert_int16 zero f n k)" "sends_nothing (read_and_convert_float32 zero g n k)"
    "sends_nothing (read_and_convert_complex64 zero g n k)" for n k
    unfolding read_and_convert_int16_def read_and_convert_float32_def read_and_convert_complex64_def
    by (intro quiet_bind quiet_chunks, auto simp: quiet_basic split: prod.split)+
  then show ?thesis unfolding read_reply_def by (intro quiet_bind quiet_fill) (auto simp: quiet_basic Let_def split: prod.split)
qed

lemma quiet_check: "sends_nothing check_result"
  unfolding check_result_def by (intro quiet_bind quiet_basic) (auto intro!: quiet_bind simp: quiet_basic split: list.split)

text \<open>Bytes of a frame.\<close>

lemma get_frame_bytes: "get_frame (le32 a @ le16 b @ le16 d) = (unat a, unat b, unat d)"
  using get32_le32 [of "[]" a "le16 b @ le16 d"] get16_le16 [of "le32 a" b "le16 d"] get16_le16 [of "le32 a @ le16 b" d "[]"]
  by (simp add: get_frame_def)

lemma nth_concat_fixed:
  "(\<And>i. i < n \<Longrightarrow> length (g i) = w) \<Longrightarrow> i < n \<Longrightarrow> j < w \<Longrightarrow> concat (map g [0..<n]) ! (i * w + j) = g i ! j"
proof (induction n)
  case (Suc n)
  have l: "length (concat (map g [0..<n])) = n * w"
    using Suc.prems(1) by (induction n) auto
  show ?case
  proof (cases "i < n")
    case True
    then have "i * w + j < n * w"
      by (metis Suc.prems(3) Suc_leI add_less_cancel_left le_less_trans less_le_trans mult_Suc mult_le_mono1 add.commute)
    then show ?thesis using Suc True by (simp add: nth_append l)
  next
    case False
    then have "i = n" using Suc.prems(2) by simp
    then show ?thesis using Suc.prems by (simp add: nth_append l)
  qed
qed simp

section \<open>From the memory to Matlab\<close>

text \<open>Without a tune the command fits into the client's buffers.\<close>

lemma length_show_nat: "n < 10 ^ k \<Longrightarrow> 0 < k \<Longrightarrow> length (show_nat n) \<le> k"
proof (induction k arbitrary: n)
  case (Suc k)
  show ?case
  proof (cases "n < 10")
    case True
    then show ?thesis by (subst show_nat.simps) simp
  next
    case False
    then have "n div 10 < 10 ^ k" "0 < k" using Suc.prems by (auto simp: less_mult_imp_div_less mult.commute intro: gr0I)
    from Suc.IH [OF this] show ?thesis using False by (subst show_nat.simps) simp
  qed
qed simp

lemma length_show_uint: "length (show_uint x) \<le> 10" for x :: u32
proof -
  have "unat x < 2 ^ 32" by (rule order_less_le_trans [OF unsigned_less]) simp
  then have "unat x < 10 ^ 10" by simp
  from length_show_nat [OF this] show ?thesis by (simp add: show_uint_def)
qed

lemma length_show_int: "length (show_int x) \<le> (if sint x < 0 then 11 else 10)" for x :: u32
proof -
  have b: "- (2 ^ 31) \<le> sint x" "sint x < 2 ^ 31" using sint_ge [of x] sint_lt [of x] by simp_all
  then have "nat (- sint x) < 10 ^ 10" "nat (sint x) < 10 ^ 10" by (simp_all add: nat_less_iff)
  from length_show_nat [OF this(1)] length_show_nat [OF this(2)] show ?thesis by (simp add: show_int_def)
qed

lemma length_lock_text: "length (lock_text A wait) \<le> 12"
  using length_show_uint [of "of_int (d_trunc A (d_mul A wait (d_int A 1000)))"] by (simp add: lock_text_def)

lemma memory_text_fits:
  assumes "valid_request strtod A print_tune bpt q tune'" "is_zero A (req_tune q)"
  shows "length (memory_text A print_tune q) < 63"
proof -
  have i: "length (show_int x) \<le> 11" for x :: u32 using length_show_int [of x] by (simp split: if_splits)
  have c: "0 \<le> sint x \<Longrightarrow> length (show_int x) \<le> 10" for x :: u32 using length_show_int [of x] by simp
  show ?thesis
    using i [of "req_count q"] i [of "req_offset q"] c [of "req_channel q"] length_show_uint [of "req_decimate q"]
      c [of "req_bunch q"] length_lock_text [of A "req_locking q"] assms
    by (auto simp: memory_text_def valid_request_def)
qed

text \<open>It is one line.\<close>

lemma no_newline_nat: "CHR 10 \<notin> set (show_nat n)"
  using show_nat_digits [of n] by (auto simp: list_all_iff isdigit_def code_def)

lemma no_newline_int: "CHR 10 \<notin> set (show_int x)" "CHR 10 \<notin> set (show_uint x)"
  by (simp_all add: show_int_def show_uint_def no_newline_nat)

lemma memory_text_line: "is_zero A (req_tune q) \<Longrightarrow> CHR 10 \<notin> set (memory_text A print_tune q)"
  by (simp add: memory_text_def lock_text_def no_newline_int)

lemma no_null_nat: "CHR 0x00 \<notin> set (show_nat n)"
  using show_nat_digits [of n] by (auto simp: list_all_iff isdigit_def code_def)

lemma no_null_int: "CHR 0x00 \<notin> set (show_int x)" "CHR 0x00 \<notin> set (show_uint x)"
  by (simp_all add: show_int_def show_uint_def no_null_nat)

lemma memory_text_string: "is_zero A (req_tune q) \<Longrightarrow> c_string (memory_text A print_tune q) = memory_text A print_tune q"
  unfolding c_string_def by (subst takeWhile_eq_all_conv) (auto simp: memory_text_def lock_text_def no_null_int)

text \<open>The samples a request for plain samples is about: so many, of so many channels, from the memory as the server reads it.\<close>

definition sample_count :: "nat \<Rightarrow> 'd memory_args \<Rightarrow> nat" where
  "sample_count bpt a = (if bunch a \<ge> 0 then unat (margs_count a) else unat (margs_count a) * bpt)"

definition channel_count :: "'d memory_args \<Rightarrow> nat" where
  "channel_count a = (if channel a \<ge> 0 then 1 else 2)"

definition memory_sample :: "(u64 \<Rightarrow> u32) \<Rightarrow> u32 \<Rightarrow> 'd memory_args \<Rightarrow> memory_state \<Rightarrow> nat \<Rightarrow> u16 list" where
  "memory_sample mem bpt a m i =
     sample_at mem (compute_dram_offset bpt (margs_offset a) m) (make_channels_context (channel a) m)
       (if bunch a \<ge> 0 then i * unat bpt + nat (bunch a) else i)"

lemma length_memory_sample: "channel a \<in> {- 1, 0, 1} \<Longrightarrow> length (memory_sample mem bpt a m i) = channel_count a"
  by (auto simp: memory_sample_def sample_at_def make_channels_context_def channel_count_def Let_def split: prod.splits)

text \<open>The reply of the server to a request for plain samples.\<close>

definition plain_reply :: "(u64 \<Rightarrow> u32) \<Rightarrow> u32 \<Rightarrow> 'd memory_args \<Rightarrow> memory_state \<Rightarrow> string" where
  "plain_reply mem bpt a m =
     char_of (0 :: nat) # memory_frame bpt a @ bytes16 (concat (map (memory_sample mem bpt a m) [0..<sample_count (unat bpt) a]))"

lemma plain_items:
  assumes "format a = FORMAT_INT16" "decimation a = 1"
  shows "concat (map (memory_item fo mem (compute_dram_offset bpt (margs_offset a) m) (unat bpt) a (make_channels_context (channel a) m) st)
      [0..<reply_items (unat bpt) a]) = bytes16 (concat (map (memory_sample mem bpt a m) [0..<sample_count (unat bpt) a]))"
proof -
  have "reply_items (unat bpt) a = sample_count (unat bpt) a" using assms by (simp add: reply_items_def sample_count_def)
  moreover have "memory_item fo mem (compute_dram_offset bpt (margs_offset a) m) (unat bpt) a (make_channels_context (channel a) m) st =
      bytes16 \<circ> memory_sample mem bpt a m"
    using assms(1) by (intro ext) (simp add: memory_item_def memory_sample_def)
  ultimately show ?thesis by (simp add: bytes16_concat comp_def)
qed

text \<open>Reading it.\<close>

lemma read_plain_reply:
  assumes a: "format a = FORMAT_INT16" "channel a \<in> {- 1, 0, 1}" and n: "sample_count (unat bpt) a < 2 ^ 32"
    and count: "bunch a < 0 \<longrightarrow> unat (margs_count a * bpt) = unat (margs_count a) * unat bpt"
    and c: "incoming c = memory_frame bpt a @ bytes16 (concat (map (memory_sample mem bpt a m) [0..<sample_count (unat bpt) a]))"
      "ready c (length (incoming c))"
  shows "\<exists>arr c'. read_reply zero f g c = Some (Inr (RealArray (sample_count (unat bpt) a) (channel_count a) arr, c')) \<and>
    length arr = sample_count (unat bpt) a * channel_count a \<and>
    (\<forall>ch < channel_count a. \<forall>i < sample_count (unat bpt) a. arr ! (ch * sample_count (unat bpt) a + i) = f (memory_sample mem bpt a m i ! ch))"
proof -
  let ?n = "sample_count (unat bpt) a" and ?k = "channel_count a"
  let ?vals = "concat (map (memory_sample mem bpt a m) [0..<?n])"
  have len: "length (memory_frame bpt a) = 8" by (simp add: memory_frame_def)
  have lv: "length ?vals = ?n * ?k"
    using length_memory_sample [OF a(2), of mem bpt m] by (simp add: length_concat comp_def sum_list_triv)
  have lb: "length (bytes16 ws) = 2 * length ws" for ws by (induction ws) (simp_all add: bytes16_def)
  have r: "ready c (8 * min 1 1 + 2 * (?n * ?k))" using c by (simp add: len lb lv)
  obtain c1 where c1: "fill_buffer 8 1 1 c = Some (Inr ((1, memory_frame bpt a), c1))" "incoming c1 = bytes16 ?vals" "ready c1 (2 * (?n * ?k))"
    using fill_buffer_ok [OF r] c(1) len by auto
  have frame: "get_frame (memory_frame bpt a) = (?n, ?k, 0)"
    unfolding memory_frame_def using a n count by (simp add: get_frame_bytes sample_count_def channel_count_def)
  have k: "?k = 1 \<or> ?k = 2" by (simp add: channel_count_def)
  have r1: "ready c1 (?k * 2 * ?n + 0)" using c1(3) by (simp add: mult.commute mult.left_commute)
  have l1: "?n * ?k * 2 \<le> length (incoming c1)" using c1(2) by (simp add: lb lv)
  obtain arr c2 where c2: "read_and_convert_int16 zero f ?n ?k c1 = Some (Inr (RealArray ?n ?k arr, c2))"
    "columns ?n ?k (\<lambda>j. f (get16 (take 2 (drop (2 * j) (incoming c1))) 0)) ?n arr"
    using read_int16_ok [OF k r1 l1, of zero f] by blast
  have item: "get16 (take 2 (drop (2 * j) (bytes16 ?vals))) 0 = ?vals ! j" if j: "j < ?n * ?k" for j
  proof -
    note ni = nth_items [of ?vals le16 2 j]
    have b: "bytes16 ?vals = concat (map le16 (take j ?vals)) @ le16 (?vals ! j) @ concat (map le16 (drop (Suc j) ?vals))"
      "length (concat (map le16 (take j ?vals))) = 2 * j"
      using ni j lv by (simp_all add: bytes16_def)
    have "take 2 (drop (2 * j) (bytes16 ?vals)) = le16 (?vals ! j)" unfolding b(1) using b(2) by simp
    then show ?thesis using get16_le16 [of "[]" "?vals ! j" "[]"] by simp
  qed
  have "arr ! (ch * ?n + i) = f (memory_sample mem bpt a m i ! ch)" if "ch < ?k" "i < ?n" for ch i
  proof -
    have "i * ?k + ch < ?n * ?k"
    proof -
      have "Suc i * ?k \<le> ?n * ?k" using that(2) by (intro mult_le_mono1) simp
      then show ?thesis using that(1) by simp
    qed
    note it = item [OF this]
    have "arr ! (ch * ?n + i) = f (get16 (take 2 (drop (2 * (i * ?k + ch)) (incoming c1))) 0)" using c2(2) that unfolding columns_def by blast
    then have "arr ! (ch * ?n + i) = f (?vals ! (i * ?k + ch))" unfolding c1(2) it .
    then show ?thesis using nth_concat_fixed [of ?n "memory_sample mem bpt a m" ?k i ch] length_memory_sample [OF a(2)] that by simp
  qed
  moreover have "read_reply zero f g c = Some (Inr (RealArray ?n ?k arr, c2))"
    using c1(1) c2(1) frame by (simp add: read_reply_def cbind_def)
  ultimately show ?thesis using c2(2) by (auto simp: columns_def)
qed

text \<open>A command and the acknowledgement of its reply.\<close>

lemma command_acknowledged:
  assumes "incoming c = char_of (0 :: nat) # r" "delivers (events c) (Suc (length r))"
    and "list_all (\<lambda>g. g \<noteq> None) (grants c)" "64 \<le> length (grants c)" "length line < 63"
  obtains c' where "cbind (send_command line) (\<lambda>_. check_result) c = Some (Inr ((), c'))"
    "outgoing c' = outgoing c @ line @ [CHR 10]" "incoming c' = r" "ready c' (length r)"
proof -
  obtain c1 where c1: "send_command line c = Some (Inr ((), c1))" "outgoing c1 = outgoing c @ line @ [CHR 10]"
    "incoming c1 = incoming c" "events c1 = events c"
    using send_command_ok [of c line] assms(3-5) by auto
  have i1: "incoming c1 = char_of (0 :: nat) # r" using c1(3) assms(1) by simp
  have "ready c1 (1 + length r)" using assms(2) c1(4) i1 by (simp add: ready_def)
  from check_result_ok [OF this i1] obtain c2 where c2: "check_result c1 = Some (Inr ((), c2))" "incoming c2 = r" "ready c2 (length r)" .
  moreover have "outgoing c2 = outgoing c1" using quiet_check c2(1) by (simp add: sends_nothing_def)
  ultimately show ?thesis using that c1(1,2) by (simp add: cbind_def)
qed

lemma mexFunction_reads:
  assumes valid: "valid_request strtod A print_tune bpt q tune'" "is_zero A (req_tune q)" "a = meant_args A q tune'" "req_decimate q = 1"
    and n: "sample_count (unat bpt) a < 2 ^ 32" "bunch a < 0 \<longrightarrow> unat (margs_count a * bpt) = unat (margs_count a) * unat bpt"
    and c: "incoming c = plain_reply mem bpt a m" "delivers (events c) (length (plain_reply mem bpt a m))"
      "list_all (\<lambda>g. g \<noteq> None) (grants c)" "64 \<le> length (grants c)"
  shows "\<exists>arr c'. mexFunction A print_tune zero f g q c = Some (Inr (RealArray (sample_count (unat bpt) a) (channel_count a) arr, c')) \<and>
    outgoing c' = outgoing c @ memory_text A print_tune q @ [CHR 10] \<and> length arr = sample_count (unat bpt) a * channel_count a \<and>
    (\<forall>ch < channel_count a. \<forall>i < sample_count (unat bpt) a. arr ! (ch * sample_count (unat bpt) a + i) = f (memory_sample mem bpt a m i ! ch))"
proof -
  let ?line = "memory_text A print_tune q"
  let ?r = "memory_frame bpt a @ bytes16 (concat (map (memory_sample mem bpt a m) [0..<sample_count (unat bpt) a]))"
  have fits: "length ?line < 63" by (rule memory_text_fits [OF valid(1,2)])
  have fmt: "format a = FORMAT_INT16" using valid by (auto simp: meant_args_def meant_middle_def)
  have "sint (req_channel q) < 2" using valid(1) by (simp add: valid_request_def)
  then have chan: "channel a \<in> {- 1, 0, 1}" unfolding valid(3) by (auto simp: meant_args_def split: prod.split)
  have reply: "incoming c = char_of (0 :: nat) # ?r" using c(1) by (simp add: plain_reply_def)
  have "delivers (events c) (Suc (length ?r))" using c(2) by (simp add: plain_reply_def)
  from command_acknowledged [OF reply this c(3,4) fits] obtain c2 where
    c2: "cbind (send_command ?line) (\<lambda>_. check_result) c = Some (Inr ((), c2))" "incoming c2 = ?r" "ready c2 (length ?r)"
      "outgoing c2 = outgoing c @ ?line @ [CHR 10]" by blast
  have "ready c2 (length (incoming c2))" using c2(2,3) by simp
  from read_plain_reply [OF fmt chan n c2(2) this, of zero f g] obtain arr c3 where
    c3: "read_reply zero f g c2 = Some (Inr (RealArray (sample_count (unat bpt) a) (channel_count a) arr, c3))"
      "length arr = sample_count (unat bpt) a * channel_count a"
      "\<forall>ch < channel_count a. \<forall>i < sample_count (unat bpt) a. arr ! (ch * sample_count (unat bpt) a + i) = f (memory_sample mem bpt a m i ! ch)"
    by blast
  have "outgoing c3 = outgoing c2" using quiet_reply [of zero f g] c3(1) by (simp add: sends_nothing_def)
  moreover have "mexFunction A print_tune zero f g q c = read_reply zero f g c2"
    using valid(2,4) fits c2(1) by (simp add: mexFunction_def do_send_command_def cbind_def [of "cbind p h" for p h])
  ultimately show ?thesis using c2(4) c3 by simp
qed

text \<open>The server's side: one command on a connection.\<close>

lemma one_command_served:
  assumes "answers s 0 line w None False reply w2" "length line < 63" "CHR 10 \<notin> set line"
    and net: "clean_reads rs" "list_all (\<lambda>g. g \<noteq> None) ws" "read_stream rs = line @ [CHR 10]"
  shows "\<exists>f w2. process_connection s ef (create_connection rs ws) w = Some (None, f, w2) \<and> sent f = reply"
proof -
  let ?f = "create_connection rs ws"
  have ses: "session s ef (out_buf_size ?f) 0 [line] w (reply @ []) w2"
    by (rule session.Answered [OF assms(1) session.Finished])
  have f: "input_ok ?f" "output_ok ?f" "unread ?f = lines_text [line] @ []" "list_all line_ok [line]" "line_ok []"
    using net assms(2,3)
    by (simp_all add: create_connection_def create_buffered_file_def input_ok_def output_ok_def no_error_def unread_def available_def
        lines_text_def line_ok_def)
  have "written ?f = []" by (simp add: create_connection_def create_buffered_file_def written_def)
  with session_sent [OF ses f] show ?thesis by auto
qed

lemma server_replies:
  fixes s :: "('d, 'f, 'c, 'e) server" and q :: "'d memory_request"
  assumes request: "valid_request (srv_strtod s) A print_tune (srv_bunches s) q tune'" "is_zero A (req_tune q)" "req_decimate q = 1"
    and a: "a = meant_args A q tune'" "bpt = srv_bunches s" "m = srv_memory s 0"
    and checks: "check_count bpt a" "compute_read_buffer_size (unat bpt) a = (Inr sz :: 'e command_error + nat)"
      "wait_for_lock TRIGGER_DRAM (locking a) (srv_env s 0) w = Some (None, w')"
    and memory: "dram_law (srv_dram s) mem" "0 < bpt" "unat bpt \<le> 4096" "unat (channel_delays0 m) \<le> unat bpt" "unat (channel_delays1 m) \<le> unat bpt"
    and net: "clean_reads rs" "list_all (\<lambda>g. g \<noteq> None) ws" "read_stream rs = memory_text A print_tune q @ [CHR 10]"
  shows "\<exists>f w2. process_connection s ef (create_connection rs ws) w = Some (None, f, w2) \<and> sent f = plain_reply mem bpt a m"
proof -
  let ?line = "memory_text A print_tune q"
  let ?w2 = "release_lock TRIGGER_DRAM (locking a) (tt_run (meanwhile (srv_env s 0)) w')"
  have fmt: "format a = FORMAT_INT16" "decimation a = 1" "framed a" using request by (auto simp: a meant_args_def meant_middle_def)
  have parse: "parse_memory_args (srv_strtod s) bpt False (tl ?line) = (Inr a :: 'e command_error + 'd memory_args)"
    unfolding a by (rule memory_command_read [OF request(1)])
  have line: "?line = CHR ''M'' # tl ?line" by (simp add: memory_text_def)
  have cs: "c_string (CHR ''M'' # tl ?line) = CHR ''M'' # tl ?line"
    unfolding line [symmetric] by (rule memory_text_string [OF request(2)])
  have ans: "answers s 0 ?line w None False (plain_reply mem bpt a m) ?w2"
    unfolding answers_def
  proof (intro allI impI)
    fix f assume f: "output_ok f"
    from memory_command_reply [OF parse checks memory(1) f memory(2-5), of "srv_floats s" "srv_tune s", unfolded plain_items [OF fmt(1,2)]] obtain f' where
      f': "process_memory_command (srv_dram s) (srv_floats s) (srv_tune s) (srv_strtod s) bpt (srv_env s 0) m False (tl ?line) f w =
         Some (None, f', ?w2)" "output_ok f'" "written f' = written f @ plain_reply mem bpt a m" using fmt(3) by (auto simp: plain_reply_def)
    have "dispatch_command s 0 (CHR ''M'' # tl ?line) f w = Some (None, False, f', ?w2)"
      using f'(1) cs by (simp add: dispatch_command_def read_char_def a(2,3))
    then show "\<exists>f'. dispatch_command s 0 ?line f w = Some (None, False, f', ?w2) \<and>
        output_ok f' \<and> written f' = written f @ plain_reply mem bpt a m" unfolding line [symmetric] using f'(2,3) by blast
  qed
  have fits: "length ?line < 63" by (rule memory_text_fits [OF request(1,2)])
  show ?thesis by (rule one_command_served [OF ans fits memory_text_line [OF request(2)] net])
qed

text \<open>C39 Matlab gets what was captured: the server reads the command the client sends as it was meant, and the array the client makes of the
  reply has in each column the samples of a channel, in order, as they are in the capture memory, of all bunches or of the one asked
  for.  It does not matter how the network cuts up the command and the reply, nor when the client's reads time out.\<close>

theorem captured_samples:
  fixes s :: "('d, 'f, 'c, 'e) server" and q :: "'d memory_request"
  assumes request: "valid_request (srv_strtod s) A print_tune (srv_bunches s) q tune'" "is_zero A (req_tune q)" "req_decimate q = 1"
    and a: "a = meant_args A q tune'" "bpt = srv_bunches s" "m = srv_memory s 0"
    and checks: "check_count bpt a" "compute_read_buffer_size (unat bpt) a = (Inr sz :: 'e command_error + nat)"
      "wait_for_lock TRIGGER_DRAM (locking a) (srv_env s 0) w = Some (None, w')"
    and memory: "dram_law (srv_dram s) mem" "0 < bpt" "unat bpt \<le> 4096" "unat (channel_delays0 m) \<le> unat bpt" "unat (channel_delays1 m) \<le> unat bpt"
    and net: "clean_reads rs" "list_all (\<lambda>g. g \<noteq> None) ws" "read_stream rs = memory_text A print_tune q @ [CHR 10]"
  shows "\<exists>f w2. process_connection s ef (create_connection rs ws) w = Some (None, f, w2) \<and>
    (\<forall>c. incoming c = sent f \<and> delivers (events c) (length (sent f)) \<and> list_all (\<lambda>g. g \<noteq> None) (grants c) \<and> 64 \<le> length (grants c) \<longrightarrow>
      (\<exists>arr c'. mexFunction A print_tune zero of_int16 of_bytes q c =
          Some (Inr (RealArray (sample_count (unat bpt) a) (channel_count a) arr, c')) \<and>
        outgoing c' = outgoing c @ read_stream rs \<and> length arr = sample_count (unat bpt) a * channel_count a \<and>
        (\<forall>ch < channel_count a. \<forall>i < sample_count (unat bpt) a.
           arr ! (ch * sample_count (unat bpt) a + i) = of_int16 (memory_sample mem bpt a m i ! ch))))"
proof -
  obtain f w2 where f: "process_connection s ef (create_connection rs ws) w = Some (None, f, w2)" "sent f = plain_reply mem bpt a m"
    using server_replies [OF assms] by blast
  have "decimation a = 1" using request by (auto simp: a meant_args_def meant_middle_def)
  then have n: "unat (margs_count a) * unat bpt \<le> 2 ^ 29" using checked_count [OF checks(1)] by (simp add: MAX_SAMPLES_def)
  then have p: "unat (margs_count a * bpt) = unat (margs_count a) * unat bpt" by (intro unat_mult32) simp
  have "unat (margs_count a) < 2 ^ 32" using unsigned_less [of "margs_count a"] by simp
  then have "sample_count (unat bpt) a < 2 ^ 32" using n by (simp add: sample_count_def)
  note r = mexFunction_reads [OF request(1) [folded a(2)] request(2) a(1) request(3) this]
  show ?thesis unfolding net(3)
    by (rule exI [of _ f], rule exI [of _ w2], intro conjI f(1) allI impI, rule r) (simp_all add: f(2) p)
qed

section \<open>An instance\<close>

definition client_server :: "(real, nat, nat, nat) server" where
  "client_server = \<lparr>srv_dram = sample_read, srv_floats = sample_floats, srv_tune = (\<lambda>_. 0), srv_strtod = (\<lambda>s. (0, False, s)),
     srv_bunches = 2, srv_lmbf = False, srv_memory = (\<lambda>_. sample_memory), srv_detectors = (\<lambda>_ _ _ _. []), srv_config = (\<lambda>_ _. plain_config),
     srv_info = (\<lambda>_ _. sample_info), srv_env = (\<lambda>_. sample_env\<lparr>meanwhile := []\<rparr>)\<rparr>"

definition sample_request :: "real memory_request" where
  "sample_request = \<lparr>req_count = 2, req_offset = 0, req_channel = - 1, req_locking = 0, req_tune = 0, req_decimate = 1, req_bunch = 1\<rparr>"

lemma sample_meant: "meant_args (exact 0) sample_request 0 =
    \<lparr>margs_count = 2, framed = True, margs_offset = 0, channel = - 1, bunch = 1, decimation = 1, tune = None,
     locking = \<lparr>lock = True, timeout = 0\<rparr>, format = FORMAT_INT16\<rparr>"
  by (simp add: meant_args_def meant_middle_def sample_request_def meant_lock_def)

lemma sample_digits: "digit_char 2 = CHR ''2''" "digit_char 0 = CHR ''0''" "digit_char 1 = CHR ''1''"
  by code_simp+

lemma sample_text: "memory_text (exact 0) (\<lambda>_. []) sample_request = ''M2FO0B1L''"
  using sample_digits by (simp add: memory_text_def sample_request_def is_zero_def lock_text_def show_int_def show_nat.simps)

lemma sample_samples:
  "memory_sample sample_dram 2 (meant_args (exact 0) sample_request 0) sample_memory 0 = [16, 20]"
  "memory_sample sample_dram 2 (meant_args (exact 0) sample_request 0) sample_memory (Suc 0) = [24, 28]"
  by (simp_all add: memory_sample_def sample_meant sample_at_def make_channels_context_def get_memory_channel_delays_def sample_memory_def
      compute_dram_offset_def sample_dram_def)

theorem captured_samples_witness:
  "\<exists>f w2 c'. process_connection client_server (\<lambda>_. []) (create_connection [Some ''M2FO'', Some (''0B1L'' @ [CHR 10])] [Some 1]) (start_world sample_config) =
      Some (None, f, w2) \<and>
    mexFunction (exact 0) (\<lambda>_. []) 0 unat (\<lambda>_. 0) sample_request
        \<lparr>incoming = sent f, events = TimedOut False # replicate 17 (Got 3 False), grants = replicate 64 (Some 1), outgoing = []\<rparr> =
      Some (Inr (RealArray 2 2 [16, 24, 20, 28], c')) \<and> outgoing c' = ''M2FO0B1L'' @ [CHR 10]"
proof -
  let ?a = "meant_args (exact 0) sample_request 0"
  let ?rs = "[Some ''M2FO'', Some (''0B1L'' @ [CHR 10])]"
  have v: "valid_request (srv_strtod client_server) (exact 0) (\<lambda>_. []) (srv_bunches client_server) sample_request 0"
    by (simp add: valid_request_def sample_request_def client_server_def is_zero_def sane_def)
  have z: "is_zero (exact 0) (req_tune sample_request)" "req_decimate sample_request = 1" by (simp_all add: is_zero_def sample_request_def)
  have b: "2 = srv_bunches client_server" "sample_memory = srv_memory client_server 0" by (simp_all add: client_server_def)
  have checks: "check_count 2 ?a" "compute_read_buffer_size (unat (2 :: u32)) ?a = (Inr 262126 :: nat command_error + nat)"
    by (simp_all add: sample_meant check_count_def DRAM0_LENGTH_def compute_read_buffer_size_def READ_BUFFER_BYTES_def)
  have "locking ?a = locking sample_args" by (simp add: sample_meant sample_args_def)
  then have w: "wait_for_lock TRIGGER_DRAM (locking ?a) (srv_env client_server 0) (start_world sample_config) =
      Some (None, increment_trigger_lock_count TRIGGER_DRAM (start_world sample_config))"
    using sample_lock [of "[]"] by (simp add: client_server_def)
  have d: "dram_law (srv_dram client_server) sample_dram" using sample_facts(1) by (simp add: client_server_def)
  have net: "clean_reads ?rs" "list_all (\<lambda>g. g \<noteq> None) [Some 1]" "read_stream ?rs = memory_text (exact 0) (\<lambda>_. []) sample_request @ [CHR 10]"
    by (simp_all add: clean_reads_def sample_text)
  have n: "sample_count (unat (2 :: u32)) ?a = 2" "channel_count ?a = 2" by (simp_all add: sample_count_def channel_count_def sample_meant)
  obtain f w2 where f: "process_connection client_server (\<lambda>_. []) (create_connection ?rs [Some 1]) (start_world sample_config) = Some (None, f, w2)"
      "sent f = plain_reply sample_dram 2 ?a sample_memory"
    using server_replies [OF v z refl b checks w d sample_facts(3-6) net, of "\<lambda>_. []"] by blast
  have "length (sent f) = 17"
    by (simp only: f(2) plain_reply_def n) (simp add: upt_conv_Cons sample_samples bytes16_def memory_frame_def)
  then have e: "delivers (TimedOut False # replicate 17 (Got 3 False)) (length (sent f))" by (simp add: delivers_def list_all_iff)
  let ?c = "\<lparr>incoming = sent f, events = TimedOut False # replicate 17 (Got 3 False), grants = replicate 64 (Some 1), outgoing = []\<rparr>"
  note cs = captured_samples [OF v z refl b checks w d sample_facts(3-6) net, of "\<lambda>_. []" 0 unat "\<lambda>_. 0", unfolded n]
  from cs obtain f' w2' where f': "process_connection client_server (\<lambda>_. []) (create_connection ?rs [Some 1]) (start_world sample_config) = Some (None, f', w2')"
      and served: "\<forall>c. incoming c = sent f' \<and> delivers (events c) (length (sent f')) \<and> list_all (\<lambda>g. g \<noteq> None) (grants c) \<and> 64 \<le> length (grants c) \<longrightarrow>
        (\<exists>arr c'. mexFunction (exact 0) (\<lambda>_. []) 0 unat (\<lambda>_. 0) sample_request c = Some (Inr (RealArray 2 2 arr, c')) \<and>
          outgoing c' = outgoing c @ read_stream ?rs \<and> length arr = 2 * 2 \<and>
          (\<forall>ch < 2. \<forall>i < 2. arr ! (ch * 2 + i) = unat (memory_sample sample_dram 2 ?a sample_memory i ! ch)))"
    by (elim exE conjE) (rule that)
  have same: "f' = f" using f(1) f' by simp
  have "incoming ?c = sent f \<and> delivers (events ?c) (length (sent f)) \<and> list_all (\<lambda>g. g \<noteq> None) (grants ?c) \<and> 64 \<le> length (grants ?c)"
    using e by (simp add: list_all_iff)
  from served [unfolded same, THEN spec, THEN mp, OF this] obtain arr c' where
    r: "mexFunction (exact 0) (\<lambda>_. []) 0 unat (\<lambda>_. 0) sample_request ?c = Some (Inr (RealArray 2 2 arr, c'))"
      "outgoing c' = outgoing ?c @ read_stream ?rs" "length arr = 2 * 2"
      "\<forall>ch < 2. \<forall>i < 2. arr ! (ch * 2 + i) = unat (memory_sample sample_dram 2 ?a sample_memory i ! ch)" by blast
  have r4: "ch < 2 \<Longrightarrow> i < 2 \<Longrightarrow> arr ! (ch * 2 + i) = unat (memory_sample sample_dram 2 ?a sample_memory i ! ch)" for ch i
    using r(4) by blast
  have four: "[0..<4] = [0, 1, 2, 3 :: nat]" by (simp add: upt_rec)
  have "arr = map ((!) arr) [0..<4]" using map_nth [of arr] r(3) by simp
  also have "\<dots> = [16, 24, 20, 28]"
    using r4 [of 0 0] r4 [of 0 1] r4 [of 1 0] r4 [of 1 1] four by (simp add: sample_samples)
  finally show ?thesis using f(1) r(1,2) by (intro exI [of _ f] exI [of _ w2] exI [of _ c']) simp
qed

end
