(* ===== verification/Client_Detector.thy ===== *)
theory Client_Detector
  imports Matlab_Detector Client_Server
begin

text \<open>
  The Matlab client of the detector command and the data server together: what Matlab gets are the results of the detectors, with
  the frequencies and the times of the program in the hardware.
\<close>

section \<open>The command is understood\<close>

lemma parse_detector_lock:
  assumes "sane A wait"
  shows "parse_lock (detector_lock_text A wait) = (Inr (meant_lock A wait), [])"
proof -
  have n: "lift parse_uint (show_int t) = (Inr t, [])" for t
    using parse_uint_show_int [of "[]" t] by (intro lift_step) (simp add: no_digit_def)
  show ?thesis
    using assms n
    by (auto simp: parse_lock_def detector_lock_text_def meant_lock_def sane_def abind_def aret_def aread_def read_char_def split: prod.splits)
qed

definition meant_detector :: "'d arith \<Rightarrow> 'd detector_request \<Rightarrow> detector_args" where
  "meant_detector A q = \<lparr>det_axis = int (unat (dreq_axis q)), det_framed = True, scale = True, long_scale = True,
     det_timebase = dreq_results q > 3, det_locking = meant_lock A (dreq_locking q)\<rparr>"

lemma detector_command_read:
  assumes "unat (dreq_axis q) < 2" "sane A (dreq_locking q)"
  shows "parse_detector_args False (tl (detector_text A (dreq_axis q) (dreq_results q > 3) (dreq_locking q))) = Inr (meant_detector A q)"
proof -
  let ?l = "detector_lock_text A (dreq_locking q)"
  let ?r = "''FSL'' @ (if dreq_results q > 3 then ''T'' else []) @ ?l"
  have "unat (dreq_axis q) = 0 \<or> unat (dreq_axis q) = 1" using assms(1) by linarith
  then have "dreq_axis q = 0 \<or> dreq_axis q = 1" by (simp add: word_unat_eq_iff)
  then have s: "sint (dreq_axis q) = int (unat (dreq_axis q))" by auto
  have nd: "no_digit ?r" by (simp add: no_digit_def isdigit_def code_def)
  have "lift parse_int (show_uint (dreq_axis q) @ ?r) = (Inr (dreq_axis q), ?r)"
    using parse_int_show [OF nd, of "dreq_axis q"] s by (intro lift_step) (simp add: show_int_def show_uint_def)
  moreover have "parse_detector_opts ?r = (Inr (True, True, True, dreq_results q > 3), ?l)"
    using assms(2) by (auto simp: parse_detector_opts_def abind_def aret_def aread_def read_char_def detector_lock_text_def sane_def)
  ultimately show ?thesis
    using s by (simp add: detector_text_def parse_detector_args_def abind_def parse_detector_lock [OF assms(2)] lift_def parse_eos_def aret_def meant_detector_def)
qed

text \<open>It is one line of the client's buffers.\<close>

lemma detector_text_fits: "length (detector_text A axis t wait) < 63"
  using length_show_uint [of axis] length_show_int [of "of_int (d_trunc A (d_mul A wait (d_int A 1000)))"]
  by (simp add: detector_text_def detector_lock_text_def split: if_splits)

lemma detector_text_line:
  "CHR 10 \<notin> set (detector_text A axis t wait)" "c_string (detector_text A axis t wait) = detector_text A axis t wait"
proof -
  show "CHR 10 \<notin> set (detector_text A axis t wait)" by (simp add: detector_text_def detector_lock_text_def no_newline_int)
  show "c_string (detector_text A axis t wait) = detector_text A axis t wait" unfolding c_string_def
    by (subst takeWhile_eq_all_conv) (auto simp: detector_text_def detector_lock_text_def no_null_int)
qed

section \<open>What Matlab should get\<close>

text \<open>A column of results for each detector, conjugate, as fractions; the frequencies in turns, the group delay, and the times if asked for.\<close>

definition detector_data ::
  "'d arith \<Rightarrow> (nat \<Rightarrow> detector_result) \<Rightarrow> sequencer_config \<Rightarrow> u32 \<Rightarrow> detector_info \<Rightarrow> bool \<Rightarrow> 'd mx list" where
  "detector_data A dmem cfg bpt info with_times =
     (let n = unat (info_samples info); c = unat (info_count info); result = (\<lambda>k. dmem ((k mod n) * c + k div n))
      in [ComplexArray n c (map (\<lambda>k. d_ldexp A (d_int A (sint (fst (result k)))) (- 31)) [0..<n * c])
            (map (\<lambda>k. d_neg A (d_ldexp A (d_int A (sint (snd (result k)))) (- 31))) [0..<n * c]),
          RealArray n 1 (map (\<lambda>i. d_mul A (d_ldexp A (d_int A (uint (fst (scale_point cfg i)))) (- 48)) (d_int A (uint bpt))) [0..<n]),
          send_group_delay A bpt (ucast (info_delay info))] @
         (if with_times then [RealArray n 1 (map (\<lambda>i. d_int A (uint (snd (scale_point cfg i)))) [0..<n])] else []))"

section \<open>The client's side\<close>

lemma columns_list:
  assumes "columns rows channels val rows arr"
  shows "arr = map (\<lambda>k. val ((k mod rows) * channels + k div rows)) [0..<rows * channels]"
proof (rule nth_equalityI)
  show "length arr = length (map (\<lambda>k. val ((k mod rows) * channels + k div rows)) [0..<rows * channels])"
    using assms by (simp add: columns_def)
  fix k assume "k < length arr"
  then have k: "k < rows * channels" using assms by (simp add: columns_def)
  then have "0 < rows" by (cases rows) auto
  then have "k mod rows < rows" "k div rows < channels" using k by (simp_all add: less_mult_imp_div_less mult.commute)
  then have "arr ! (k div rows * rows + k mod rows) = val ((k mod rows) * channels + k div rows)"
    using assms unfolding columns_def by blast
  then show "arr ! k = map (\<lambda>k. val ((k mod rows) * channels + k div rows)) [0..<rows * channels] ! k" using k by simp
qed

lemma transposed_index: "k < n * c \<Longrightarrow> (k mod n) * c + k div n < n * c" for k n c :: nat
proof -
  assume k: "k < n * c"
  then have "0 < n" by (cases n) auto
  then have "Suc (k mod n) * c \<le> n * c" by (intro mult_le_mono1) (simp add: Suc_le_eq)
  moreover have "k div n < c" using k by (simp add: less_mult_imp_div_less mult.commute)
  ultimately show ?thesis by simp
qed

lemma item_at:
  assumes "\<And>k. length (g k) = w" "j < n"
  shows "take w (drop (w * j) (concat (map g [0..<n]) @ r)) = g j"
proof -
  note i = nth_items [of "[0..<n]" g w j]
  have b: "concat (map g [0..<n]) = concat (map g (take j [0..<n])) @ g j @ concat (map g (drop (Suc j) [0..<n]))"
    and l: "length (concat (map g (take j [0..<n]))) = w * j"
    using i assms by auto
  show ?thesis unfolding b using l assms(1) by simp
qed

lemma length_items: "(\<And>k. length (g k) = w) \<Longrightarrow> length (concat (map g [0..<n])) = w * n"
  by (induction n) simp_all

lemma length_result [simp]: "length (result_bytes r) = 8" by (simp add: result_bytes_def)

lemma result_decoded:
  "result_i A (result_bytes r) = d_ldexp A (d_int A (sint (fst r))) (- 31)"
  "result_q A (result_bytes r) = d_neg A (d_ldexp A (d_int A (sint (snd r))) (- 31))"
  using get32_le32 [of "[]" "fst r" "le32 (snd r)"] get32_le32 [of "le32 (fst r)" "snd r" "[]"]
  by (simp_all add: result_i_def result_q_def result_bytes_def)

lemma frame_decoded:
  assumes "unat (info_count info) \<le> 4"
  shows "get_detector_frame (detector_frame bpt info) = (unat (info_count info), ucast (info_delay info), unat (info_samples info), bpt)"
proof -
  let ?c = "le8 (info_count info)" and ?m = "le8 (info_mask info)" and ?d = "le16 (ucast (info_delay info))" and ?n = "le32 (info_samples info)"
  have "info_count info AND 0xFF = info_count info"
  proof -
    have "unat (take_bit 8 (info_count info)) = unat (info_count info)"
      using assms by (simp add: unsigned_take_bit_eq take_bit_nat_eq_self_iff)
    then have "take_bit 8 (info_count info) = info_count info" by (simp only: word_unat_eq_iff)
    then show ?thesis by (simp add: take_bit_eq_mask mask_eq_exp_minus_1)
  qed
  then have "of_char (detector_frame bpt info ! 0) = unat (info_count info)"
    using assms by (simp add: detector_frame_def le8_def)
  moreover have "length (?c @ ?m) = 2" "length (?c @ ?m @ ?d) = 4" "length (?c @ ?m @ ?d @ ?n) = 8" by simp_all
  then have "get16 (detector_frame bpt info) 2 = ucast (info_delay info)" "get32 (detector_frame bpt info) 4 = info_samples info"
      "get32 (detector_frame bpt info) 8 = bpt"
    using get16_le16 [of "?c @ ?m" "ucast (info_delay info)" "?n @ le32 bpt"] get32_le32 [of "?c @ ?m @ ?d" "info_samples info" "le32 bpt"]
      get32_le32 [of "?c @ ?m @ ?d @ ?n" bpt "[]"]
    unfolding detector_frame_def by (simp_all only: append_assoc append_Nil2)
  ultimately show ?thesis by (simp add: get_detector_frame_def)
qed

lemma length_frame: "length (detector_frame bpt info) = 12"
  by (simp add: detector_frame_def)

lemma quiet_detector: "sends_nothing (detector_read_reply A results)"
proof -
  have "sends_nothing (read_and_convert_samples A n k)" "sends_nothing (read_and_convert_frequency A n bpt)"
    "sends_nothing (read_and_convert_timebase A n)" for n k bpt
    unfolding read_and_convert_samples_def read_and_convert_frequency_def read_and_convert_timebase_def
    by (auto intro!: quiet_bind quiet_chunks simp: quiet_basic split: prod.split)
  then show ?thesis unfolding detector_read_reply_def
    by (auto intro!: quiet_bind quiet_fill simp: quiet_basic Let_def split: prod.split)
qed

text \<open>The parts of the reply.\<close>

definition result_text :: "(nat \<Rightarrow> detector_result) \<Rightarrow> detector_info \<Rightarrow> string" where
  "result_text dmem info = concat (map (\<lambda>k. result_bytes (dmem k)) [0..<unat (info_samples info) * unat (info_count info)])"

definition frequency_text :: "sequencer_config \<Rightarrow> detector_info \<Rightarrow> string" where
  "frequency_text cfg info = concat (map (\<lambda>i. le64 (fst (scale_point cfg i))) [0..<unat (info_samples info)])"

definition times_text :: "sequencer_config \<Rightarrow> detector_info \<Rightarrow> string" where
  "times_text cfg info = concat (map (\<lambda>i. le32 (snd (scale_point cfg i))) [0..<unat (info_samples info)])"

definition detector_reply_text :: "(nat \<Rightarrow> detector_result) \<Rightarrow> sequencer_config \<Rightarrow> u32 \<Rightarrow> detector_info \<Rightarrow> bool \<Rightarrow> string" where
  "detector_reply_text dmem cfg bpt info t =
     detector_frame bpt info @ result_text dmem info @ frequency_text cfg info @ (if t then times_text cfg info else [])"

lemma reply_parts:
  "detector_reply_bytes dmem cfg bpt False (meant_detector A q) info =
     char_of (0 :: nat) # detector_reply_text dmem cfg bpt info (dreq_results q > 3)"
proof -
  let ?c = "unat (info_count info)" and ?n = "unat (info_samples info)"
  have "concat (map (result_item dmem ?c) [0..<?n]) = result_text dmem info"
    using blocks_of_items [of "\<lambda>k. result_bytes (dmem k)" 0 ?c ?n]
    by (simp add: result_item_def [abs_def] result_text_def mult.commute)
  then show ?thesis
    by (simp add: detector_reply_bytes_def detector_reply_text_def meant_detector_def frequency_text_def times_text_def Let_def)
qed

lemma text_lengths:
  "length (result_text dmem info) = 8 * (unat (info_samples info) * unat (info_count info))"
  "length (frequency_text cfg info) = 8 * unat (info_samples info)" "length (times_text cfg info) = 4 * unat (info_samples info)"
  by (simp_all add: result_text_def frequency_text_def times_text_def length_items)

lemma read_detector_reply:
  assumes "unat (info_count info) \<le> 4" "results = 3 \<or> results = 4"
    and c: "incoming c = detector_reply_text dmem cfg bpt info (results > 3)" "ready c (length (incoming c))"
  shows "\<exists>c'. detector_read_reply A results c = Some (Inr (detector_data A dmem cfg bpt info (results > 3), c'))"
proof -
  let ?n = "unat (info_samples info)" and ?k = "unat (info_count info)"
  let ?T = "if results > 3 then times_text cfg info else []"
  have r: "ready c (12 * min 1 1 + (?k * 8 * ?n + (8 * ?n + length ?T)))"
    using c by (simp add: detector_reply_text_def length_frame text_lengths mult.commute mult.left_commute)
  obtain c1 where c1: "fill_buffer 12 1 1 c = Some (Inr ((1, detector_frame bpt info), c1))"
      "incoming c1 = result_text dmem info @ frequency_text cfg info @ ?T" "ready c1 (?k * 8 * ?n + (8 * ?n + length ?T))"
    using fill_buffer_ok [OF r] c(1) by (auto simp: detector_reply_text_def length_frame)
  have "?n * ?k * 8 \<le> length (incoming c1)" using c1(2) by (simp add: text_lengths)
  from read_samples_ok [OF assms(1) c1(3) this, of A] obtain a b c2 where
    c2: "read_and_convert_samples A ?n ?k c1 = Some (Inr (ComplexArray ?n ?k a b, c2))"
      "columns ?n ?k (\<lambda>j. result_i A (take 8 (drop (8 * j) (incoming c1)))) ?n a"
      "columns ?n ?k (\<lambda>j. result_q A (take 8 (drop (8 * j) (incoming c1)))) ?n b"
      "incoming c2 = drop (?k * 8 * ?n) (incoming c1)" "ready c2 (8 * ?n + length ?T)" by blast
  have i2: "incoming c2 = frequency_text cfg info @ ?T"
    using c2(4) c1(2) by (simp add: text_lengths mult.commute mult.left_commute)
  have "8 * ?n \<le> length (incoming c2)" using i2 by (simp add: text_lengths)
  from read_frequency_ok [OF c2(5) this, of A bpt] obtain f c3 where
    c3: "read_and_convert_frequency A ?n bpt c2 = Some (Inr (RealArray ?n 1 f, c3))" "length f = ?n"
      "\<forall>i < ?n. f ! i = d_mul A (d_ldexp A (d_int A (uint (get64 (take 8 (drop (8 * i) (incoming c2))) 0))) (- 48)) (d_int A (uint bpt))"
      "incoming c3 = drop (8 * ?n) (incoming c2)" "ready c3 (length ?T)" by blast
  have i3: "incoming c3 = ?T" using c3(4) i2 by (simp add: text_lengths)
  have item: "take 8 (drop (8 * j) (incoming c1)) = result_bytes (dmem j)" if "j < ?n * ?k" for j
    unfolding c1(2) result_text_def by (rule item_at) (simp_all add: that)
  have a: "a = map (\<lambda>k. d_ldexp A (d_int A (sint (fst (dmem ((k mod ?n) * ?k + k div ?n))))) (- 31)) [0..<?n * ?k]"
    by (subst columns_list [OF c2(2)]) (rule map_cong [OF refl], simp only: set_upt atLeastLessThan_iff item [OF transposed_index] result_decoded)
  have b: "b = map (\<lambda>k. d_neg A (d_ldexp A (d_int A (sint (snd (dmem ((k mod ?n) * ?k + k div ?n))))) (- 31))) [0..<?n * ?k]"
    by (subst columns_list [OF c2(3)]) (rule map_cong [OF refl], simp only: set_upt atLeastLessThan_iff item [OF transposed_index] result_decoded)
  have freq: "get64 (take 8 (drop (8 * j) (incoming c2))) 0 = fst (scale_point cfg j)" if "j < ?n" for j
    using get64_le64 [of "[]" "fst (scale_point cfg j)" "[]"] item_at [of "\<lambda>i. le64 (fst (scale_point cfg i))" 8 j ?n ?T] that
    by (simp add: i2 frequency_text_def)
  have f: "f = map (\<lambda>i. d_mul A (d_ldexp A (d_int A (uint (fst (scale_point cfg i)))) (- 48)) (d_int A (uint bpt))) [0..<?n]"
    by (rule nth_equalityI) (simp_all add: c3(2,3) freq)
  have frame: "get_detector_frame (detector_frame bpt info) = (?k, ucast (info_delay info), ?n, bpt)" by (rule frame_decoded [OF assms(1)])
  from assms(2) show ?thesis
  proof
    assume "results = 3"
    then show ?thesis
      using c1(1) c2(1) c3(1) frame by (simp add: detector_read_reply_def cbind_def creturn_def detector_data_def Let_def a b f)
  next
    assume t: "results = 4"
    then have r3: "ready c3 (4 * ?n + 0)" "4 * ?n \<le> length (incoming c3)" using c3(5) i3 by (simp_all add: text_lengths)
    from read_timebase_ok [OF r3, of A] obtain g c4 where
      c4: "read_and_convert_timebase A ?n c3 = Some (Inr (RealArray ?n 1 g, c4))" "length g = ?n"
        "\<forall>i < ?n. g ! i = d_int A (uint (get32 (take 4 (drop (4 * i) (incoming c3))) 0))" by blast
    have time: "get32 (take 4 (drop (4 * j) (incoming c3))) 0 = snd (scale_point cfg j)" if "j < ?n" for j
      using get32_le32 [of "[]" "snd (scale_point cfg j)" "[]"] item_at [of "\<lambda>i. le32 (snd (scale_point cfg i))" 4 j ?n "[]"] that t
      by (simp add: i3 times_text_def)
    have "g = map (\<lambda>i. d_int A (uint (snd (scale_point cfg i)))) [0..<?n]"
      by (rule nth_equalityI) (simp_all add: c4(2,3) time)
    then show ?thesis
      using c1(1) c2(1) c3(1) c4(1) frame t by (simp add: detector_read_reply_def cbind_def creturn_def detector_data_def Let_def a b f)
  qed
qed

section \<open>From the detectors to Matlab\<close>

lemma detector_server_replies:
  fixes s :: "('d, 'f, 'c, 'e) server" and q :: "'d detector_request"
  assumes request: "unat (dreq_axis q) < (if srv_lmbf s then 1 else 2)" "sane A (dreq_locking q)" "axis = unat (dreq_axis q)"
    and lock: "wait_for_lock (get_sequencer_trigger_target axis) (meant_lock A (dreq_locking q)) (srv_env s 0) w = Some (None, w')"
    and info: "info = srv_info s 0 axis" "cfg = srv_config s 0 axis"
    and memory: "det_law (srv_detectors s 0 axis) dmem" "0 < info_count info" "unat (info_count info) \<le> 4"
      "8 * unat (info_count info) * unat (info_samples info) < 2 ^ 32"
    and program: "length (scale_of cfg) < 2 ^ 32" "unat (info_samples info) \<le> length (scale_of cfg)"
    and net: "clean_reads rs" "list_all (\<lambda>g. g \<noteq> None) ws"
      "read_stream rs = detector_text A (dreq_axis q) (dreq_results q > 3) (dreq_locking q) @ [CHR 10]"
  shows "\<exists>f w2. process_connection s ef (create_connection rs ws) w = Some (None, f, w2) \<and>
    sent f = char_of (0 :: nat) # detector_reply_text dmem cfg (srv_bunches s) info (dreq_results q > 3)"
proof -
  let ?line = "detector_text A (dreq_axis q) (dreq_results q > 3) (dreq_locking q)"
  let ?a = "meant_detector A q"
  let ?reply = "char_of (0 :: nat) # detector_reply_text dmem cfg (srv_bunches s) info (dreq_results q > 3)"
  let ?w2 = "release_lock (get_sequencer_trigger_target axis) (det_locking ?a) (tt_run (meanwhile (srv_env s 0)) w')"
  have axis2: "unat (dreq_axis q) < 2" using request(1) by (simp split: if_splits)
  have parse: "parse_detector_args False (tl ?line) = (Inr ?a :: 'e command_error + detector_args)"
    by (rule detector_command_read [OF axis2 request(2)])
  have "int (unat (dreq_axis q)) < int (if srv_lmbf s then 1 else 2)" using request(1) by (simp only: of_nat_less_iff)
  then have a: "0 \<le> det_axis ?a" "det_axis ?a < (if srv_lmbf s then 1 else AXIS_COUNT)" "axis = nat (det_axis ?a)"
    using request(3) by (simp_all add: meant_detector_def AXIS_COUNT_def split: if_splits)
  have w: "wait_for_lock (get_sequencer_trigger_target axis) (det_locking ?a) (srv_env s 0) w = Some (None, w')"
    using lock by (simp add: meant_detector_def)
  have small: "8 * unat (info_count (srv_info s 0 axis)) \<le> READ_BUFFER_BYTES" using memory(3) by (simp add: READ_BUFFER_BYTES_def info(1))
  have line: "?line = CHR ''D'' # tl ?line" by (simp add: detector_text_def)
  have cs: "c_string (CHR ''D'' # tl ?line) = CHR ''D'' # tl ?line" unfolding line [symmetric] by (rule detector_text_line(2))
  have ans: "answers s 0 ?line w None False ?reply ?w2"
    unfolding answers_def
  proof (intro allI impI)
    fix f assume f: "output_ok f"
    note m = memory [unfolded info] and pr = program [unfolded info]
    from detector_command_reply [where read_det = "srv_detectors s 0" and info = "srv_info s 0" and cfg = "srv_config s 0",
        OF parse a refl w m(1,2,4) small pr f, of "srv_bunches s"] obtain f' where
      f': "process_detector_command (srv_detectors s 0) (srv_config s 0) (srv_info s 0) (srv_bunches s) (srv_lmbf s) (srv_env s 0) False (tl ?line) f w =
        Some (None, f', ?w2)" "output_ok f'" "written f' = written f @ ?reply" unfolding reply_parts info by blast
    have "dispatch_command s 0 (CHR ''D'' # tl ?line) f w = Some (None, False, f', ?w2)"
      using f'(1) cs by (simp add: dispatch_command_def read_char_def)
    then show "\<exists>f'. dispatch_command s 0 ?line f w = Some (None, False, f', ?w2) \<and>
        output_ok f' \<and> written f' = written f @ ?reply" unfolding line [symmetric] using f'(2,3) by blast
  qed
  show ?thesis by (rule one_command_served [OF ans detector_text_fits detector_text_line(1) net])
qed

lemma detector_reads:
  assumes "unat (info_count info) \<le> 4" "dreq_results q = 3 \<or> dreq_results q = 4"
    and c: "incoming c = char_of (0 :: nat) # detector_reply_text dmem cfg bpt info (dreq_results q > 3)"
      "delivers (events c) (length (incoming c))" "list_all (\<lambda>g. g \<noteq> None) (grants c)" "64 \<le> length (grants c)"
  shows "\<exists>c'. detector_mexFunction A q c = Some (Inr (detector_data A dmem cfg bpt info (dreq_results q > 3), c')) \<and>
    outgoing c' = outgoing c @ detector_text A (dreq_axis q) (dreq_results q > 3) (dreq_locking q) @ [CHR 10]"
proof -
  let ?line = "detector_text A (dreq_axis q) (dreq_results q > 3) (dreq_locking q)"
  have "delivers (events c) (Suc (length (detector_reply_text dmem cfg bpt info (dreq_results q > 3))))" using c(1,2) by simp
  from command_acknowledged [OF c(1) this c(3,4) detector_text_fits, of A "dreq_axis q" "dreq_results q > 3" "dreq_locking q"] obtain c2 where
    c2: "cbind (send_command ?line) (\<lambda>_. check_result) c = Some (Inr ((), c2))" "outgoing c2 = outgoing c @ ?line @ [CHR 10]"
      "incoming c2 = detector_reply_text dmem cfg bpt info (dreq_results q > 3)"
      "ready c2 (length (detector_reply_text dmem cfg bpt info (dreq_results q > 3)))" by blast
  from read_detector_reply [OF assms(1,2) c2(3), of A] c2(3,4) obtain c3 where
    c3: "detector_read_reply A (dreq_results q) c2 = Some (Inr (detector_data A dmem cfg bpt info (dreq_results q > 3), c3))" by auto
  have "outgoing c3 = outgoing c2" using quiet_detector [of A "dreq_results q"] c3 by (simp add: sends_nothing_def)
  moreover have "length ?line < 64" using detector_text_fits [of A "dreq_axis q" "dreq_results q > 3" "dreq_locking q"] by simp
  then have "detector_mexFunction A q c = detector_read_reply A (dreq_results q) c2"
    using assms(2) c2(1) by (auto simp: detector_mexFunction_def detector_send_command_def cbind_def [of "cbind p h" for p h])
  ultimately show ?thesis using c2(2) c3 by simp
qed

text \<open>C40 Matlab gets what the detectors measured: the server reads the detector command as the client means it, and the client returns for
  each detector its results in order, conjugate and as fractions, with the frequency of every sample as the program in the
  hardware defines it, the group delay, and the times if they are asked for.\<close>

theorem detector_data_received:
  fixes s :: "('d, 'f, 'c, 'e) server" and q :: "'d detector_request"
  assumes request: "unat (dreq_axis q) < (if srv_lmbf s then 1 else 2)" "sane A (dreq_locking q)" "axis = unat (dreq_axis q)"
      "dreq_results q = 3 \<or> dreq_results q = 4"
    and lock: "wait_for_lock (get_sequencer_trigger_target axis) (meant_lock A (dreq_locking q)) (srv_env s 0) w = Some (None, w')"
    and info: "info = srv_info s 0 axis" "cfg = srv_config s 0 axis"
    and memory: "det_law (srv_detectors s 0 axis) dmem" "0 < info_count info" "unat (info_count info) \<le> 4"
      "8 * unat (info_count info) * unat (info_samples info) < 2 ^ 32"
    and program: "length (scale_of cfg) < 2 ^ 32" "unat (info_samples info) \<le> length (scale_of cfg)"
    and net: "clean_reads rs" "list_all (\<lambda>g. g \<noteq> None) ws"
      "read_stream rs = detector_text A (dreq_axis q) (dreq_results q > 3) (dreq_locking q) @ [CHR 10]"
  shows "\<exists>f w2. process_connection s ef (create_connection rs ws) w = Some (None, f, w2) \<and>
    (\<forall>c. incoming c = sent f \<and> delivers (events c) (length (sent f)) \<and> list_all (\<lambda>g. g \<noteq> None) (grants c) \<and> 64 \<le> length (grants c) \<longrightarrow>
      (\<exists>c'. detector_mexFunction A q c = Some (Inr (detector_data A dmem cfg (srv_bunches s) info (dreq_results q > 3), c')) \<and>
        outgoing c' = outgoing c @ read_stream rs))"
proof -
  obtain f w2 where f: "process_connection s ef (create_connection rs ws) w = Some (None, f, w2)"
      "sent f = char_of (0 :: nat) # detector_reply_text dmem cfg (srv_bunches s) info (dreq_results q > 3)"
    using detector_server_replies [OF request(1-3) lock info memory program net] by blast
  show ?thesis unfolding net(3)
    by (rule exI [of _ f], rule exI [of _ w2], intro conjI f(1) allI impI, rule detector_reads [OF memory(3) request(4)]) (simp_all add: f(2))
qed

section \<open>An instance\<close>

definition detector_server :: "(real, nat, nat, nat) server" where
  "detector_server = client_server\<lparr>srv_detectors := (\<lambda>_ _ n _. replicate n (7, 9))\<rparr>"

definition sample_detectors :: "real detector_request" where
  "sample_detectors = \<lparr>dreq_axis = 0, dreq_locking = - 1, dreq_results = 4\<rparr>"

lemma sample_detector_text: "detector_text (exact 0) 0 True (- 1) = ''D0FSLT''"
  using sample_digits by (simp add: detector_text_def detector_lock_text_def show_uint_def show_nat.simps)

theorem detector_data_received_witness:
  "\<exists>f w2 c'. process_connection detector_server (\<lambda>_. []) (create_connection [Some ''D0FS'', Some (''LT'' @ [CHR 10])] [Some 1]) (start_world sample_config) =
      Some (None, f, w2) \<and>
    detector_mexFunction (exact 0) sample_detectors
        \<lparr>incoming = sent f, events = TimedOut False # replicate 33 (Got 5 False), grants = replicate 64 (Some 1), outgoing = []\<rparr> =
      Some (Inr ([ComplexArray 1 1 [7 * 2 powi (- 31)] [- (9 * 2 powi (- 31))], RealArray 1 1 [0], RealArray 1 1 [0], RealArray 1 1 [0]], c'))"
proof -
  let ?rs = "[Some ''D0FS'', Some (''LT'' @ [CHR 10])]"
  have v: "unat (dreq_axis sample_detectors) < (if srv_lmbf detector_server then 1 else 2)" "sane (exact 0) (dreq_locking sample_detectors)"
      "0 = unat (dreq_axis sample_detectors)" "dreq_results sample_detectors = 3 \<or> dreq_results sample_detectors = 4"
    by (simp_all add: sample_detectors_def detector_server_def client_server_def sane_def)
  have w: "wait_for_lock (get_sequencer_trigger_target 0) (meant_lock (exact 0) (dreq_locking sample_detectors)) (srv_env detector_server 0)
      (start_world sample_config) = Some (None, start_world sample_config)"
    by (simp add: wait_for_lock_def meant_lock_def sample_detectors_def)
  have d: "sample_info = srv_info detector_server 0 0" "plain_config = srv_config detector_server 0 0"
    by (simp_all add: detector_server_def client_server_def)
  have s: "scale_of plain_config = [(0, 0)]" by (simp add: scale_of_def seq_program_def plain_config_def entry_points_def)
  have m: "det_law (srv_detectors detector_server 0 0) (\<lambda>_. (7, 9))" "0 < info_count sample_info" "unat (info_count sample_info) \<le> 4"
      "8 * unat (info_count sample_info) * unat (info_samples sample_info) < 2 ^ 32"
      "length (scale_of plain_config) < 2 ^ 32" "unat (info_samples sample_info) \<le> length (scale_of plain_config)"
    by (simp_all add: det_law_def detector_server_def map_replicate_trivial sample_info_def s)
  have net: "clean_reads ?rs" "list_all (\<lambda>g. g \<noteq> None) [Some 1]"
      "read_stream ?rs = detector_text (exact 0) (dreq_axis sample_detectors) (dreq_results sample_detectors > 3) (dreq_locking sample_detectors) @ [CHR 10]"
    by (simp_all add: clean_reads_def sample_detectors_def sample_detector_text)
  have data: "detector_data (exact 0) (\<lambda>_. (7, 9)) plain_config (srv_bunches detector_server) sample_info (dreq_results sample_detectors > 3) =
      [ComplexArray 1 1 [7 * 2 powi (- 31)] [- (9 * 2 powi (- 31))], RealArray 1 1 [0], RealArray 1 1 [0], RealArray 1 1 [0]]"
    by (simp add: detector_data_def sample_info_def sample_detectors_def scale_point_def s send_group_delay_def)
  obtain f w2 where f: "process_connection detector_server (\<lambda>_. []) (create_connection ?rs [Some 1]) (start_world sample_config) = Some (None, f, w2)"
      "sent f = char_of (0 :: nat) # detector_reply_text (\<lambda>_. (7, 9)) plain_config (srv_bunches detector_server) sample_info (dreq_results sample_detectors > 3)"
    using detector_server_replies [OF v(1-3) w d m net, of "\<lambda>_. []"] by blast
  have "length (sent f) = 33"
    by (simp add: f(2) detector_reply_text_def length_frame text_lengths sample_info_def sample_detectors_def)
  then have e: "delivers (TimedOut False # replicate 33 (Got 5 False)) (length (sent f))" by (simp add: delivers_def list_all_iff)
  let ?c = "\<lparr>incoming = sent f, events = TimedOut False # replicate 33 (Got 5 False), grants = replicate 64 (Some 1), outgoing = []\<rparr>"
  from detector_data_received [OF v w d m net, of "\<lambda>_. []", unfolded data] obtain f' w2' where
    f': "process_connection detector_server (\<lambda>_. []) (create_connection ?rs [Some 1]) (start_world sample_config) = Some (None, f', w2')"
    and served: "\<forall>c. incoming c = sent f' \<and> delivers (events c) (length (sent f')) \<and> list_all (\<lambda>g. g \<noteq> None) (grants c) \<and> 64 \<le> length (grants c) \<longrightarrow>
        (\<exists>c'. detector_mexFunction (exact 0) sample_detectors c =
            Some (Inr ([ComplexArray 1 1 [7 * 2 powi (- 31)] [- (9 * 2 powi (- 31))], RealArray 1 1 [0], RealArray 1 1 [0], RealArray 1 1 [0]], c')) \<and>
          outgoing c' = outgoing c @ read_stream ?rs)"
    by (elim exE conjE) (rule that)
  have same: "f' = f" using f(1) f' by simp
  have "incoming ?c = sent f \<and> delivers (events ?c) (length (sent f)) \<and> list_all (\<lambda>g. g \<noteq> None) (grants ?c) \<and> 64 \<le> length (grants ?c)"
    using e by (simp add: list_all_iff)
  from served [unfolded same, THEN spec, THEN mp, OF this] f(1) show ?thesis by blast
qed

end
