(* ===== verification/Spec2Isabelle.thy ===== *)
theory Spec2Isabelle
  imports Readout_Properties Bunch_Set Config_File Buffered_File Driver_Dma Memory_Command Detector_Command Sequencer_Mode Tune_Pll_Properties Mms_Properties Bunch_Fir Converters_Properties Delay_Properties Driver_Device_Properties Driver_Interrupts Driver_Engine Client_Detector
begin

text \<open>
  A model of the control system of the DLS multi-bunch feedback processor: the EPICS server under
  \<^verbatim>\<open>epics/src\<close>, the kernel driver under \<^verbatim>\<open>driver\<close> that it works through, and the Matlab clients of its data server under \<^verbatim>\<open>matlab/mex\<close>.

  The program.  The server holds the settings of two axes of bunch-by-bunch feedback, writes them to
  the registers of the firmware, arms and follows the triggers of the two sequencers and of the capture
  memory, and publishes what was captured, both as records and over a socket.  A thread waits for
  interrupts and dispatches them to the components; EPICS threads run the handlers of the records under the
  mutexes of the components; each socket client has a thread.  The components share the trigger targets
  (with their locks for readers), the registers and their mirrors, and the DMA of the driver.

  The theories, in the order of their imports.

  \<^item> \<open>MBF_Prelude\<close>: word types, the sequencing of actions that can fail, lemmas on lists.
  \<^item> \<open>Timespec\<close> (\<^verbatim>\<open>timespec.h\<close>), \<open>System_Config\<close> (\<^verbatim>\<open>configs.c\<close>, \<^verbatim>\<open>common.c\<close>), \<open>Events\<close> (\<^verbatim>\<open>events.c\<close>: the table of
    handlers and the order of dispatch).
  \<^item> \<open>Trigger_Target\<close>, \<open>Trigger_Locks\<close>, \<open>Trigger_Invariants\<close>, \<open>Readout_Lock\<close> (\<^verbatim>\<open>trigger_target.c\<close>): every operation
    under the trigger mutex as a function on the state of the targets with a trace of the calls made to
    their methods and to the hardware, the waiting for a lock, and the invariant of the reachable
    states; \<open>Triggers\<close> (\<^verbatim>\<open>triggers.c\<close>): the targets with their methods, and the events.
    \<open>Trigger_Properties\<close> and \<open>Readout_Properties\<close> state what arming, completion, sharing and locking do,
    and that a pending arm is carried out by the last reader's release.
  \<^item> \<open>Parse\<close>, \<open>Bunch_Set\<close>, \<open>Config_File\<close> (\<^verbatim>\<open>parse.c\<close>, \<^verbatim>\<open>bunch_set.c\<close>, \<^verbatim>\<open>config_file.c\<close>): parsers on strings with
    their errors, and round trips through the printed form.
  \<^item> \<open>Buffered_File\<close> (\<^verbatim>\<open>buffered_file.c\<close>): the buffered socket over a socket that takes and gives any part of
    what is asked for.
  \<^item> \<open>Driver_Dma\<close> (\<^verbatim>\<open>driver/dma_control.c\<close>, \<^verbatim>\<open>driver/memory.c\<close>, \<^verbatim>\<open>read_dma_memory\<close> of \<^verbatim>\<open>hardware.c\<close>): how a read of
    the capture memory is cut into DMA requests and put together.
  \<^item> \<open>Memory\<close>, \<open>Sequencer\<close>, \<open>Sequencer_Mode\<close>, \<open>Detector\<close> (\<^verbatim>\<open>memory.c\<close>, \<^verbatim>\<open>sequencer.c\<close>, \<^verbatim>\<open>detector.c\<close>): configuration, arming and
    readout of the captures.
  \<^item> \<open>Socket_Command\<close>, \<open>Memory_Command\<close>, \<open>Detector_Command\<close> (\<^verbatim>\<open>socket_command.c\<close>): the two commands of the data
    server, from the parsing of the line to the released lock, over interfaces given as locales.
  \<^item> \<open>Socket_Server\<close> (\<^verbatim>\<open>socket_server.c\<close>): the connections of the data server and the loop that accepts them; that a client gets the
    replies to its lines, and that a connection ends.
  \<^item> \<open>Matlab_Socket\<close>, \<open>Matlab_Memory\<close>, \<open>Client_Server\<close> (\<^verbatim>\<open>matlab/mex/socket.c\<close>, \<^verbatim>\<open>matlab/mex/mex_mbf_memory_.c\<close>): the memory client of
    Matlab; with the server it returns the samples of the memory.  \<open>Matlab_Detector\<close>, \<open>Client_Detector\<close>
    (\<^verbatim>\<open>matlab/mex/mex_mbf_detector_.c\<close>): the same for the detectors.
  \<^item> \<open>Registers\<close>, \<open>Hardware_Control\<close>, \<open>Hardware_Dsp\<close>, \<open>Hardware_Pll\<close> (\<^verbatim>\<open>hardware.c\<close>, with the layout of
    \<^verbatim>\<open>AMC525/vhd/register_defs.in\<close>): every access to the registers as words in a trace;
    \<open>Hardware_Refinement\<close> shows that they implement a register file of independent fields, and
    \<open>Hardware_Words\<close> what the words mean.
  \<^item> \<open>Bunch_Status\<close>, \<open>Bunch_Select\<close>, \<open>Bunch_Select_Properties\<close> (\<^verbatim>\<open>bunch_select.c\<close>): the settings of the bunches,
    their summaries, and that the hardware holds them.
  \<^item> \<open>Fixed_Point\<close> (\<^verbatim>\<open>common.c\<close>): conversions between doubles and words over any arithmetic, and what they are in the reals.
  \<^item> \<open>Pll_Fifo\<close>, \<open>Tune_Pll\<close>, \<open>Tune_Pll_Properties\<close> (\<^verbatim>\<open>tune_pll_fifo.c\<close>, \<^verbatim>\<open>tune_pll.c\<close>): the FIFOs of the tune PLL with the
    hand over of their buffers to EPICS, the settings, commands and events of both axes; that no sample is lost,
    the phase compensation, and the race of start and stop against either order of the two.
  \<^item> \<open>Mms\<close>, \<open>Mms_Properties\<close> (\<^verbatim>\<open>mms.c\<close>): the accumulation of the statistics of each bunch and what is published.
  \<^item> \<open>Nco\<close> (\<^verbatim>\<open>nco.c\<close>): the gain manager, its contract with a setter of the gain as a locale, the fixed oscillators.
  \<^item> \<open>Bunch_Fir\<close> (\<^verbatim>\<open>bunch_fir.c\<close>): the banks of filter taps of both axes, and that the device holds the taps asked for.
  \<^item> \<open>Converters\<close>, \<open>Converters_Properties\<close> (\<^verbatim>\<open>adc.c\<close>, \<^verbatim>\<open>dac.c\<close>): the settings of the converters, the sources of their
    statistics with the delays these need, the outputs held off at the start, and the phase of the beam.
  \<^item> \<open>Delay\<close>, \<open>Delay_Properties\<close> (\<^verbatim>\<open>delay.c\<close>): the turn clock, and the coarse and fine delays as accesses to the clock chip;
    that the recorded delays are those of the chip, moved in single steps, and that a reset follows its protocol.
  \<^item> \<open>Driver_Device\<close>, \<open>Driver_Device_Properties\<close> (\<^verbatim>\<open>driver/amc525_mbf_core.c\<close>, \<^verbatim>\<open>driver/registers.c\<close>, \<^verbatim>\<open>driver/memory.c\<close>):
    the device files with their exclusive lock, the removal that waits for them, the mapping of the registers, and
    the set-up of a card with its unwinding.
  \<^item> \<open>Driver_Interrupts\<close> (\<^verbatim>\<open>driver/interrupts.c\<close>, \<^verbatim>\<open>driver/registers.c\<close>): the interrupt handler and the readers of its
    events as interleaving threads; no event is lost, no reader sleeps on events, and the handler returns.
  \<^item> \<open>Driver_Engine\<close> (\<^verbatim>\<open>driver/dma_control.c\<close>): the hand shake of readers, DMA engine and handler; a read returns with
    its own data, unless an earlier reader was killed.

  Conventions.  C integers are words of their width, so that they wrap as in the code; \<^verbatim>\<open>size_t\<close> and
  indices bounded by a list are \<open>nat\<close>.  An error is a value of an error type, and a failed assertion of the
  code is \<open>None\<close>.  Mutexes are held over a whole operation, so an operation is one step; where the code
  waits or gives a mutex up the steps of others are in between.  Threads that share
  memory without a mutex, in the driver, take one step for each access to it.  Floating point is an arbitrary
  arithmetic, the \<open>arith\<close> of \<open>Fixed_Point\<close>, with the reals as its exact instance where a property is about values;
  the C library's \<^verbatim>\<open>strtod\<close>, the EPICS database and sockets are parameters, with what is relied on stated as
  hypotheses where a property needs it.  What the driver relies on of the DMA engine is the steps \<open>Finish\<close> and \<open>Fail\<close> of
  \<open>Driver_Engine\<close>.

  Bounds and fuel.  \<open>wait_ticks\<close> counts the timeouts of one waiting request, \<open>lock_request_returns\<close> shows how
  many are enough.  The loops of the buffered file and of the DMA readout recurse on the bytes left with a
  proof of termination; a socket is a list of what it grants, at least one byte at a time.

  Not modelled.  Start-up, command line and the records of constants (\<^verbatim>\<open>main.c\<close>, \<^verbatim>\<open>system.c\<close>), the
  listening socket and the creation of threads, the publishing of records (a library), the rounding of
  floating point, the entry points of the kernel module, and everything that is not C: the firmware in
  VHDL, the scripts and screens, the generated tables.
\<close>

end
